(* ===== verification/Prelude.thy ===== *)
theory Prelude
  imports Complex_Main "HOL-Library.Multiset" "HOL-Library.Sublist"
begin

text \<open>
  Shared vocabulary of the development: results that may be an exception, dictionaries that keep
  their insertion order, first-occurrence deduplication, and the lemma collections the component
  theories extend. Nothing here models a file of the repository.
\<close>

named_theorems res_simps \<open>how the result combinators compute\<close>
named_theorems dict_simps \<open>lookup, keys and distinctness of insertion-ordered dictionaries\<close>

section \<open>Results\<close>

text \<open>A computation that may raise is a sum: \<open>Inl\<close> carries the exception.\<close>

definition bind_res :: "'e + 'a \<Rightarrow> ('a \<Rightarrow> 'e + 'b) \<Rightarrow> 'e + 'b" where
  "bind_res r f = (case r of Inl e \<Rightarrow> Inl e | Inr x \<Rightarrow> f x)"

lemma bind_res_Inl [simp, res_simps]: "bind_res (Inl e) f = Inl e"
  by (simp add: bind_res_def)

lemma bind_res_Inr [simp, res_simps]: "bind_res (Inr x) f = f x"
  by (simp add: bind_res_def)

lemma bind_res_eq_Inr [res_simps]: "bind_res r f = Inr y \<longleftrightarrow> (\<exists>x. r = Inr x \<and> f x = Inr y)"
  by (cases r) auto

lemma bind_res_eq_Inl [res_simps]:
  "bind_res r f = Inl e \<longleftrightarrow> r = Inl e \<or> (\<exists>x. r = Inr x \<and> f x = Inl e)"
  by (cases r) auto

lemma bind_res_assoc: "bind_res (bind_res r f) g = bind_res r (\<lambda>x. bind_res (f x) g)"
  by (cases r) auto

text \<open>A loop over a list whose body may raise: the first exception ends the loop.\<close>

fun fold_res :: "('s \<Rightarrow> 'a \<Rightarrow> 'e + 's) \<Rightarrow> 's \<Rightarrow> 'a list \<Rightarrow> 'e + 's" where
  "fold_res f s [] = Inr s"
| "fold_res f s (x # xs) = bind_res (f s x) (\<lambda>s'. fold_res f s' xs)"

fun map_res :: "('a \<Rightarrow> 'e + 'b) \<Rightarrow> 'a list \<Rightarrow> 'e + 'b list" where
  "map_res f [] = Inr []"
| "map_res f (x # xs) = bind_res (f x) (\<lambda>y. bind_res (map_res f xs) (\<lambda>ys. Inr (y # ys)))"

lemma fold_res_append:
  "fold_res f s (xs @ ys) = bind_res (fold_res f s xs) (\<lambda>s'. fold_res f s' ys)"
  by (induction xs arbitrary: s) (simp_all add: bind_res_assoc)

lemma fold_res_invariant:
  assumes "fold_res f s xs = Inr s'" and "P s"
    and "\<And>s x s'. x \<in> set xs \<Longrightarrow> P s \<Longrightarrow> f s x = Inr s' \<Longrightarrow> P s'"
  shows "P s'"
  using assms
proof (induction xs arbitrary: s)
  case Nil
  then show ?case by simp
next
  case (Cons x xs)
  then obtain t where t: "f s x = Inr t" "fold_res f t xs = Inr s'"
    by (auto simp: bind_res_eq_Inr)
  then have "P t" using Cons.prems by auto
  with t(2) show ?case using Cons.IH Cons.prems(3) by auto
qed

lemma map_res_eq_Inr_iff:
  "map_res f xs = Inr ys \<longleftrightarrow> list_all2 (\<lambda>x y. f x = Inr y) xs ys"
proof (induction xs arbitrary: ys)
  case Nil
  then show ?case by auto
next
  case (Cons x xs)
  show ?case
    by (cases ys) (auto simp: bind_res_eq_Inr Cons.IH)
qed

lemma map_res_total: "\<forall>x\<in>set xs. f x = Inr (g x) \<Longrightarrow> map_res f xs = Inr (map g xs)"
  by (induction xs) auto

lemma map_res_Inl: "map_res f xs = Inl e \<Longrightarrow> \<exists>x\<in>set xs. f x = Inl e"
  by (induction xs) (auto simp: bind_res_eq_Inl)

lemma bind_res_error:
  "bind_res r f = Inl e \<Longrightarrow> (\<And>e. r = Inl e \<Longrightarrow> P e) \<Longrightarrow> (\<And>x. f x = Inl e \<Longrightarrow> P e) \<Longrightarrow> P e"
  by (auto simp: bind_res_eq_Inl)

lemma fold_res_error:
  assumes "fold_res f s xs = Inl e" and "P s"
    and "\<And>s x s'. P s \<Longrightarrow> f s x = Inr s' \<Longrightarrow> P s'" and "\<And>s x. P s \<Longrightarrow> f s x = Inl e \<Longrightarrow> Q e"
  shows "Q e"
  using assms(1,2) by (induction xs arbitrary: s) (auto simp: bind_res_eq_Inl intro: assms(3,4))

section \<open>Insertion-ordered dictionaries\<close>

text \<open>
  A Python \<open>dict\<close> is an association list with distinct keys. Assigning to a present key keeps
  its position, assigning to a new key appends it, as CPython does.
\<close>

type_synonym ('k, 'v) dict = "('k \<times> 'v) list"

abbreviation dict_get :: "('k, 'v) dict \<Rightarrow> 'k \<Rightarrow> 'v option" where
  "dict_get d k \<equiv> map_of d k"

abbreviation dict_keys :: "('k, 'v) dict \<Rightarrow> 'k list" where
  "dict_keys d \<equiv> map fst d"

fun dict_set :: "'k \<Rightarrow> 'v \<Rightarrow> ('k, 'v) dict \<Rightarrow> ('k, 'v) dict" where
  "dict_set k v [] = [(k, v)]"
| "dict_set k v ((k', v') # d) = (if k = k' then (k, v) # d else (k', v') # dict_set k v d)"

fun dict_del :: "'k \<Rightarrow> ('k, 'v) dict \<Rightarrow> ('k, 'v) dict" where
  "dict_del k [] = []"
| "dict_del k ((k', v') # d) = (if k = k' then d else (k', v') # dict_del k d)"

definition dict_setdefault :: "'k \<Rightarrow> 'v \<Rightarrow> ('k, 'v) dict \<Rightarrow> ('k, 'v) dict" where
  "dict_setdefault k v d = (if k \<in> set (dict_keys d) then d else d @ [(k, v)])"

definition dict_ok :: "('k, 'v) dict \<Rightarrow> bool" where
  "dict_ok d \<longleftrightarrow> distinct (dict_keys d)"

lemma map_of_dict_set [simp, dict_simps]: "map_of (dict_set k v d) = (map_of d)(k \<mapsto> v)"
  by (induction d) auto

lemma dict_keys_dict_set:
  "dict_keys (dict_set k v d) = (if k \<in> set (dict_keys d) then dict_keys d else dict_keys d @ [k])"
  by (induction d) (auto split: if_splits)

lemma set_keys_dict_set [simp, dict_simps]:
  "set (dict_keys (dict_set k v d)) = insert k (set (dict_keys d))"
  by (simp only: dict_keys_dict_set) (simp add: insert_absorb)

lemma fst_image_dict_set [simp]: "fst ` set (dict_set k v d) = insert k (fst ` set d)"
  using set_keys_dict_set [of k v d] by (simp only: set_map)

lemma dict_set_new: "k \<notin> set (dict_keys d) \<Longrightarrow> dict_set k v d = d @ [(k, v)]"
  by (induction d) auto

lemma dict_set_same: "map_of d k = Some v \<Longrightarrow> dict_set k v d = d"
  by (induction d) (auto split: if_splits)

lemma dict_set_twice [simp]: "dict_set k v (dict_set k w d) = dict_set k v d"
  by (induction d) auto

lemma dict_ok_empty [simp, dict_simps]: "dict_ok []"
  by (simp add: dict_ok_def)

lemma dict_ok_set [simp, dict_simps]: "dict_ok d \<Longrightarrow> dict_ok (dict_set k v d)"
  by (simp only: dict_ok_def dict_keys_dict_set) (simp split: if_splits)

lemma set_dict_del: "set (dict_del k d) \<subseteq> set d"
  by (induction d) (auto split: if_splits)

lemma dict_ok_del [simp, dict_simps]: "dict_ok d \<Longrightarrow> dict_ok (dict_del k d)"
proof (induction d)
  case Nil
  then show ?case by simp
next
  case (Cons p d)
  then show ?case
    using set_dict_del [of k d] by (cases p) (auto simp: dict_ok_def)
qed

lemma dict_ok_filter [simp, dict_simps]: "dict_ok d \<Longrightarrow> dict_ok (filter P d)"
  by (simp add: dict_ok_def distinct_map_filter)

lemma map_of_dict_del [simp, dict_simps]:
  "dict_ok d \<Longrightarrow> map_of (dict_del k d) = (map_of d)(k := None)"
proof (induction d)
  case Nil
  then show ?case by auto
next
  case (Cons p d)
  then show ?case
    by (cases p) (auto simp: dict_ok_def fun_eq_iff map_of_eq_None_iff)
qed

lemma dict_del_filter: "dict_ok d \<Longrightarrow> dict_del k d = filter (\<lambda>p. fst p \<noteq> k) d"
proof (induction d)
  case Nil
  then show ?case by simp
next
  case (Cons p d)
  then show ?case
    by (cases p) (auto simp: dict_ok_def intro!: filter_True [symmetric])
qed

lemma map_of_dict_setdefault [dict_simps]:
  "map_of (dict_setdefault k v d) =
     (if k \<in> set (dict_keys d) then map_of d else (map_of d)(k \<mapsto> v))"
  by (auto simp: dict_setdefault_def map_add_def fun_eq_iff split: option.splits
      dest!: map_of_SomeD intro: rev_image_eqI)

lemma dict_keys_setdefault:
  "dict_keys (dict_setdefault k v d) =
     (if k \<in> set (dict_keys d) then dict_keys d else dict_keys d @ [k])"
  by (auto simp: dict_setdefault_def)

lemma dict_ok_setdefault [simp, dict_simps]: "dict_ok d \<Longrightarrow> dict_ok (dict_setdefault k v d)"
  by (auto simp: dict_ok_def dict_setdefault_def)

text \<open>The interface a client of a keyed store relies on.\<close>

locale keyed_store =
  fixes emp :: "'m"
    and put :: "'k \<Rightarrow> 'v \<Rightarrow> 'm \<Rightarrow> 'm"
    and del :: "'k \<Rightarrow> 'm \<Rightarrow> 'm"
    and get :: "'m \<Rightarrow> 'k \<Rightarrow> 'v option"
    and inv :: "'m \<Rightarrow> bool"
  assumes inv_emp: "inv emp"
    and inv_put: "inv m \<Longrightarrow> inv (put k v m)"
    and inv_del: "inv m \<Longrightarrow> inv (del k m)"
    and get_emp: "get emp k = None"
    and get_put: "inv m \<Longrightarrow> get (put k v m) k' = (if k' = k then Some v else get m k')"
    and get_del: "inv m \<Longrightarrow> get (del k m) k' = (if k' = k then None else get m k')"
begin

lemma put_put: "inv m \<Longrightarrow> get (put k v (put k w m)) = get (put k v m)"
  by (simp add: fun_eq_iff get_put inv_put)

lemma del_put: "inv m \<Longrightarrow> get (del k (put k v m)) = get (del k m)"
  by (simp add: fun_eq_iff get_put get_del inv_put)

lemma fold_put_inv: "inv m \<Longrightarrow> inv (foldl (\<lambda>m (k, v). put k v m) m kvs)"
  by (induction kvs arbitrary: m) (auto simp: inv_put)

lemma fold_put_other:
  "inv m \<Longrightarrow> k \<notin> set (map fst kvs) \<Longrightarrow> get (foldl (\<lambda>m (k, v). put k v m) m kvs) k = get m k"
  by (induction kvs arbitrary: m) (auto simp: inv_put get_put)

lemma fold_put_mem:
  "inv m \<Longrightarrow> distinct (map fst kvs) \<Longrightarrow> (k, v) \<in> set kvs \<Longrightarrow>
     get (foldl (\<lambda>m (k, v). put k v m) m kvs) k = Some v"
proof (induction kvs arbitrary: m)
  case Nil
  then show ?case by simp
next
  case (Cons p kvs)
  show ?case
  proof (cases "p = (k, v)")
    case True
    with Cons.prems show ?thesis by (simp add: fold_put_other inv_put get_put)
  next
    case False
    with Cons.prems show ?thesis by (cases p) (auto simp: inv_put intro!: Cons.IH)
  qed
qed

end

interpretation pydict: keyed_store "[]" dict_set dict_del map_of dict_ok
  by unfold_locales (auto simp: dict_simps)

section \<open>First occurrences\<close>

text \<open>
  \<open>list(dict.fromkeys(xs))\<close> and the \<open>seen\<close>-set loops of the code keep the first
  occurrence of every element (HOL's \<open>remdups\<close> keeps the last).
\<close>

fun uniq_acc :: "'a list \<Rightarrow> 'a list \<Rightarrow> 'a list" where
  "uniq_acc seen [] = []"
| "uniq_acc seen (x # xs) =
     (if x \<in> set seen then uniq_acc seen xs else x # uniq_acc (x # seen) xs)"

definition uniq :: "'a list \<Rightarrow> 'a list" where
  "uniq xs = uniq_acc [] xs"

lemma set_uniq_acc: "set (uniq_acc seen xs) = set xs - set seen"
  by (induction seen xs rule: uniq_acc.induct) auto

lemma distinct_uniq_acc: "distinct (uniq_acc seen xs)"
  by (induction seen xs rule: uniq_acc.induct) (auto simp: set_uniq_acc)

lemma set_uniq [simp]: "set (uniq xs) = set xs"
  by (simp add: uniq_def set_uniq_acc)

lemma distinct_uniq [simp]: "distinct (uniq xs)"
  by (simp add: uniq_def distinct_uniq_acc)

lemma uniq_acc_distinct: "distinct xs \<Longrightarrow> set xs \<inter> set seen = {} \<Longrightarrow> uniq_acc seen xs = xs"
  by (induction xs arbitrary: seen) auto

lemma uniq_distinct: "distinct xs \<Longrightarrow> uniq xs = xs"
  by (simp add: uniq_def uniq_acc_distinct)

lemma length_uniq_acc: "length (uniq_acc seen xs) \<le> length xs"
  by (induction seen xs rule: uniq_acc.induct) auto

lemma length_uniq: "length (uniq xs) \<le> length xs"
  by (simp add: uniq_def length_uniq_acc)

section \<open>Lists\<close>

lemma sum_list_map_nonneg:
  "(\<And>x. x \<in> set xs \<Longrightarrow> (0::'b::ordered_comm_monoid_add) \<le> f x) \<Longrightarrow> 0 \<le> sum_list (map f xs)"
  by (induction xs) (auto intro: add_nonneg_nonneg)

text \<open>\<open>xs[:k]\<close>, where a negative bound counts from the end.\<close>

definition slice_to :: "int \<Rightarrow> 'a list \<Rightarrow> 'a list" where
  "slice_to k xs = (if 0 \<le> k then take (nat k) xs else take (length xs - nat (- k)) xs)"

lemma slice_to_pos: "1 \<le> k \<Longrightarrow> slice_to k xs = take (nat k) xs"
  by (simp add: slice_to_def)

lemma prefix_take_drop: "xs = take n xs @ drop n xs"
  by simp

lemma sorted_key_Cons:
  "sorted (map f (x # xs)) \<longleftrightarrow> (\<forall>y\<in>set xs. f x \<le> f y) \<and> sorted (map f xs)"
  by simp

lemma find_Some_set: "find P xs = Some x \<Longrightarrow> x \<in> set xs \<and> P x"
  by (induction xs) (auto split: if_splits)

end
