(* ===== verification/PyStr.thy ===== *)
theory PyStr
  imports Prelude "HOL-Library.Char_ord" "HOL-Library.List_Lexorder"
begin

text \<open>
  The \<open>str\<close> methods the control plane uses, on HOL's \<open>string\<close>. A character stands for
  one code point below 256, and every function here is exact on that range: the white space,
  the line boundaries, the digits (superscripts included) and the case mapping are Python's.
  Code points from 256 on are outside the model of these components; the text cores, where they
  matter, work on lists of code points instead (theory \<open>Utf8\<close>).
\<close>

section \<open>Characters\<close>

definition ord_of :: "char \<Rightarrow> nat" where
  "ord_of c = of_char c"

text \<open>\<open>str.isspace\<close> on one character.\<close>

definition is_space :: "char \<Rightarrow> bool" where
  "is_space c \<longleftrightarrow> ord_of c \<in> {9, 10, 11, 12, 13, 28, 29, 30, 31, 32, 133, 160}"

text \<open>Line boundaries of \<open>str.splitlines\<close>, the carriage return apart.\<close>

definition is_linebreak :: "char \<Rightarrow> bool" where
  "is_linebreak c \<longleftrightarrow> ord_of c \<in> {10, 11, 12, 28, 29, 30, 133}"

definition cr_char :: char where "cr_char = CHR 0x0D"

definition lf_char :: char where "lf_char = CHR 0x0A"

definition tab_char :: char where "tab_char = CHR 0x09"

text \<open>ASCII decimal digits, and what \<open>str.isdigit\<close> accepts (superscript 1, 2, 3 too).\<close>

definition is_dec :: "char \<Rightarrow> bool" where
  "is_dec c \<longleftrightarrow> 48 \<le> ord_of c \<and> ord_of c \<le> 57"

definition is_digit_char :: "char \<Rightarrow> bool" where
  "is_digit_char c \<longleftrightarrow> is_dec c \<or> ord_of c \<in> {178, 179, 185}"

definition dec_val :: "char \<Rightarrow> nat" where
  "dec_val c = ord_of c - 48"

definition dec_char :: "nat \<Rightarrow> char" where
  "dec_char d = char_of (48 + d)"

definition lower_char :: "char \<Rightarrow> char" where
  "lower_char c =
     (let n = ord_of c
      in if 65 \<le> n \<and> n \<le> 90 \<or> 192 \<le> n \<and> n \<le> 222 \<and> n \<noteq> 215 then char_of (n + 32) else c)"

lemma ord_of_char_of: "n < 256 \<Longrightarrow> ord_of (char_of n) = n"
  by (simp add: ord_of_def)

lemma ord_of_inject [simp]: "ord_of c = ord_of d \<longleftrightarrow> c = d"
  by (simp add: ord_of_def)

lemma ord_of_less_256: "ord_of c < 256"
  unfolding ord_of_def by (cases c) simp

lemma dec_val_dec_char [simp]: "d < 10 \<Longrightarrow> dec_val (dec_char d) = d"
  by (simp add: dec_val_def dec_char_def ord_of_char_of)

lemma is_dec_dec_char [simp]: "d < 10 \<Longrightarrow> is_dec (dec_char d)"
  by (simp add: is_dec_def dec_char_def ord_of_char_of)

lemma dec_val_less: "is_dec c \<Longrightarrow> dec_val c < 10"
  unfolding is_dec_def dec_val_def by linarith

lemma is_dec_not_space: "is_dec c \<Longrightarrow> \<not> is_space c"
  by (auto simp: is_dec_def is_space_def)

lemma is_dec_digit: "is_dec c \<Longrightarrow> is_digit_char c"
  by (simp add: is_digit_char_def)

lemma lower_char_idem [simp]: "lower_char (lower_char c) = lower_char c"
  by (auto simp: lower_char_def Let_def ord_of_char_of)

lemma lower_char_dot [simp]: "lower_char c = CHR ''.'' \<longleftrightarrow> c = CHR ''.''"
proof -
  have "ord_of (CHR ''.'') = 46" by (simp add: ord_of_def)
  then show ?thesis
    by (auto simp: lower_char_def Let_def ord_of_char_of simp flip: ord_of_inject)
qed

lemma is_space_lower_char [simp]: "is_space (lower_char c) = is_space c"
  by (auto simp: lower_char_def Let_def is_space_def ord_of_char_of)

section \<open>Stripping and case\<close>

definition lower :: "string \<Rightarrow> string" where
  "lower s = map lower_char s"

definition lstrip_by :: "(char \<Rightarrow> bool) \<Rightarrow> string \<Rightarrow> string" where
  "lstrip_by P s = dropWhile P s"

definition rstrip_by :: "(char \<Rightarrow> bool) \<Rightarrow> string \<Rightarrow> string" where
  "rstrip_by P s = rev (dropWhile P (rev s))"

definition strip_by :: "(char \<Rightarrow> bool) \<Rightarrow> string \<Rightarrow> string" where
  "strip_by P s = rstrip_by P (lstrip_by P s)"

abbreviation strip :: "string \<Rightarrow> string" where
  "strip \<equiv> strip_by is_space"

abbreviation rstrip :: "string \<Rightarrow> string" where
  "rstrip \<equiv> rstrip_by is_space"

abbreviation rstrip_dots :: "string \<Rightarrow> string" where
  "rstrip_dots \<equiv> rstrip_by (\<lambda>c. c = CHR ''.'')"

lemma rstrip_by_Nil [simp]: "rstrip_by P [] = []"
  by (simp add: rstrip_by_def)

lemma strip_by_Nil [simp]: "strip_by P [] = []"
  by (simp add: strip_by_def lstrip_by_def)

lemma rstrip_by_snoc [simp]:
  "rstrip_by P (s @ [c]) = (if P c then rstrip_by P s else s @ [c])"
  by (simp add: rstrip_by_def)

lemma rstrip_by_last: "s \<noteq> [] \<Longrightarrow> \<not> P (last s) \<Longrightarrow> rstrip_by P s = s"
  by (cases s rule: rev_cases) auto

lemma rstrip_by_not_last: "rstrip_by P s \<noteq> [] \<Longrightarrow> \<not> P (last (rstrip_by P s))"
  by (induction s rule: rev_induct) (auto split: if_splits)

lemma rstrip_by_idem [simp]: "rstrip_by P (rstrip_by P s) = rstrip_by P s"
  by (cases "rstrip_by P s = []") (auto simp: rstrip_by_last rstrip_by_not_last)

lemma lstrip_by_hd: "s \<noteq> [] \<Longrightarrow> \<not> P (hd s) \<Longrightarrow> lstrip_by P s = s"
  by (cases s) (auto simp: lstrip_by_def)

lemma strip_by_id: "s \<noteq> [] \<Longrightarrow> \<not> P (hd s) \<Longrightarrow> \<not> P (last s) \<Longrightarrow> strip_by P s = s"
  by (simp add: strip_by_def lstrip_by_hd rstrip_by_last)

lemma rstrip_by_hd: "\<not> P (hd s) \<Longrightarrow> rstrip_by P s \<noteq> [] \<Longrightarrow> hd (rstrip_by P s) = hd s"
proof (induction s rule: rev_induct)
  case Nil
  then show ?case by simp
next
  case (snoc c s)
  then show ?case by (cases "s = []") (auto simp: rstrip_by_def split: if_splits)
qed

lemma strip_by_idem [simp]: "strip_by P (strip_by P s) = strip_by P s"
proof (cases "strip_by P s = []")
  case True
  then show ?thesis by simp
next
  case False
  have l: "\<not> P (hd (lstrip_by P s)) \<or> lstrip_by P s = []"
    using hd_dropWhile [of P s] by (auto simp: lstrip_by_def)
  have "lstrip_by P s \<noteq> []" using False by (auto simp: strip_by_def)
  with l False have "\<not> P (hd (strip_by P s))"
    by (simp add: strip_by_def rstrip_by_hd)
  moreover have "\<not> P (last (strip_by P s))"
    using False by (simp add: strip_by_def rstrip_by_not_last)
  ultimately show ?thesis using False by (simp add: strip_by_id)
qed

lemma lower_idem [simp]: "lower (lower s) = lower s"
  by (simp add: lower_def)

lemma lower_Nil [simp]: "lower [] = []" and lower_eq_Nil [simp]: "lower s = [] \<longleftrightarrow> s = []"
  by (simp_all add: lower_def)

lemma dropWhile_lower:
  "(\<And>c. P (lower_char c) = P c) \<Longrightarrow> dropWhile P (map lower_char s) = map lower_char (dropWhile P s)"
  by (induction s) auto

lemma lower_strip: "lower (strip s) = strip (lower s)"
  by (simp add: lower_def strip_by_def lstrip_by_def rstrip_by_def rev_map dropWhile_lower)

lemma lower_rstrip_dots: "lower (rstrip_dots s) = rstrip_dots (lower s)"
  by (simp add: lower_def rstrip_by_def rev_map dropWhile_lower)

section \<open>Searching and splitting\<close>

definition startswith :: "string \<Rightarrow> string \<Rightarrow> bool" where
  "startswith p s \<longleftrightarrow> take (length p) s = p"

definition endswith :: "string \<Rightarrow> string \<Rightarrow> bool" where
  "endswith p s \<longleftrightarrow> length p \<le> length s \<and> drop (length s - length p) s = p"

text \<open>The \<open>in\<close> operator on strings.\<close>

fun contains :: "string \<Rightarrow> string \<Rightarrow> bool" where
  "contains p [] = (p = [])"
| "contains p (c # s) = (startswith p (c # s) \<or> contains p s)"

lemma startswith_iff: "startswith p s \<longleftrightarrow> (\<exists>t. s = p @ t)"
  unfolding startswith_def by (metis append_eq_conv_conj append_take_drop_id)

lemma endswith_iff: "endswith p s \<longleftrightarrow> (\<exists>t. s = t @ p)"
  unfolding endswith_def
  by (metis append_eq_conv_conj append_take_drop_id diff_le_self length_append length_drop
      add_diff_cancel_right' le_add2)

lemma endswith_single: "endswith [c] s \<longleftrightarrow> s \<noteq> [] \<and> last s = c"
  by (cases s rule: rev_cases) (auto simp: endswith_iff)

lemma contains_iff: "contains p s \<longleftrightarrow> (\<exists>t u. s = t @ p @ u)"
proof (induction s)
  case Nil
  then show ?case by auto
next
  case (Cons c s)
  note IH = Cons.IH
  show ?case
  proof
    assume "contains p (c # s)"
    then show "\<exists>t u. c # s = t @ p @ u"
      using IH by (auto simp: startswith_iff) (metis append_Cons append_Nil)+
  next
    assume "\<exists>t u. c # s = t @ p @ u"
    then obtain t u where tu: "c # s = t @ p @ u" by blast
    show "contains p (c # s)"
    proof (cases t)
      case Nil
      then have "startswith p (c # s)" using tu by (auto simp: startswith_iff)
      then show ?thesis by simp
    next
      case (Cons d t')
      then have "s = t' @ p @ u" using tu by simp
      then have "contains p s" using IH by blast
      then show ?thesis by simp
    qed
  qed
qed

fun split_char :: "char \<Rightarrow> string \<Rightarrow> string list" where
  "split_char c [] = [[]]"
| "split_char c (d # s) =
     (if d = c then [] # split_char c s
      else (case split_char c s of [] \<Rightarrow> [[d]] | p # ps \<Rightarrow> (d # p) # ps))"

text \<open>\<open>sep.join(parts)\<close>.\<close>

fun join_str :: "string \<Rightarrow> string list \<Rightarrow> string" where
  "join_str sep [] = []"
| "join_str sep [p] = p"
| "join_str sep (p # q # ps) = p @ sep @ join_str sep (q # ps)"

text \<open>\<open>str.partition\<close> at the first occurrence: \<open>None\<close> when the separator is absent.\<close>

fun partition_char :: "char \<Rightarrow> string \<Rightarrow> (string \<times> string) option" where
  "partition_char c [] = None"
| "partition_char c (d # s) =
     (if d = c then Some ([], s)
      else map_option (\<lambda>(a, b). (d # a, b)) (partition_char c s))"

fun splitlines_acc :: "string \<Rightarrow> string \<Rightarrow> string list" where
  "splitlines_acc cur [] = (if cur = [] then [] else [rev cur])"
| "splitlines_acc cur (c # s) =
     (if c = cr_char
      then rev cur # splitlines_acc [] (if s \<noteq> [] \<and> hd s = lf_char then tl s else s)
      else if is_linebreak c then rev cur # splitlines_acc [] s
      else splitlines_acc (c # cur) s)"

definition splitlines :: "string \<Rightarrow> string list" where
  "splitlines s = splitlines_acc [] s"

lemma split_char_ne [simp]: "split_char c s \<noteq> []"
  by (induction s) (auto split: list.splits)

lemma split_char_no_sep: "c \<notin> set s \<Longrightarrow> split_char c s = [s]"
  by (induction s) auto

lemma split_char_append:
  "c \<notin> set s \<Longrightarrow> split_char c (s @ c # t) = s # split_char c t"
  by (induction s) auto

lemma partition_char_None: "partition_char c s = None \<longleftrightarrow> c \<notin> set s"
  by (induction s) auto

lemma partition_char_append: "c \<notin> set s \<Longrightarrow> partition_char c (s @ c # t) = Some (s, t)"
  by (induction s) auto

lemma partition_char_Some:
  "partition_char c s = Some (a, b) \<Longrightarrow> s = a @ c # b \<and> c \<notin> set a"
  by (induction s arbitrary: a) (auto split: if_splits)

lemma lf_is_linebreak [simp]: "is_linebreak lf_char" "lf_char \<noteq> cr_char"
  by (simp_all add: is_linebreak_def lf_char_def ord_of_def cr_char_def)

lemma splitlines_acc_line:
  "\<forall>c\<in>set l. \<not> is_linebreak c \<and> c \<noteq> cr_char \<Longrightarrow>
     splitlines_acc cur (l @ lf_char # s) = (rev cur @ l) # splitlines_acc [] s"
  by (induction l arbitrary: cur) auto

lemma splitlines_unlines:
  assumes "\<And>l c. l \<in> set ls \<Longrightarrow> c \<in> set l \<Longrightarrow> \<not> is_linebreak c \<and> c \<noteq> cr_char"
  shows "splitlines (concat (map (\<lambda>l. l @ [lf_char]) ls)) = ls"
  unfolding splitlines_def using assms
proof (induction ls)
  case Nil
  then show ?case by simp
next
  case (Cons l ls)
  have "\<forall>c\<in>set l. \<not> is_linebreak c \<and> c \<noteq> cr_char" using Cons.prems by auto
  moreover have "splitlines_acc [] (concat (map (\<lambda>l. l @ [lf_char]) ls)) = ls"
    using Cons by auto
  ultimately show ?case by (simp add: splitlines_acc_line)
qed

section \<open>Decimal numerals\<close>

definition dec_value :: "string \<Rightarrow> nat" where
  "dec_value s = foldl (\<lambda>n c. 10 * n + dec_val c) 0 s"

fun show_nat :: "nat \<Rightarrow> string" where
  "show_nat n = (if n < 10 then [dec_char n] else show_nat (n div 10) @ [dec_char (n mod 10)])"

declare show_nat.simps [simp del]

definition show_int :: "int \<Rightarrow> string" where
  "show_int i = (if i < 0 then CHR ''-'' # show_nat (nat (- i)) else show_nat (nat i))"

lemma dec_value_Nil [simp]: "dec_value [] = 0"
  by (simp add: dec_value_def)

lemma dec_value_snoc [simp]: "dec_value (s @ [c]) = 10 * dec_value s + dec_val c"
  by (simp add: dec_value_def)

lemma show_nat_induct:
  assumes "\<And>n. n < 10 \<Longrightarrow> P n" and "\<And>n. 10 \<le> n \<Longrightarrow> P (n div 10) \<Longrightarrow> P n"
  shows "P (n::nat)"
proof (induction n rule: less_induct)
  case (less n)
  then show ?case using assms by (cases "n < 10") auto
qed

lemma dec_value_show_nat [simp]: "dec_value (show_nat n) = n"
proof (induction n rule: show_nat_induct)
  case (1 n)
  then show ?case
    by (simp add: show_nat.simps [of n] dec_value_def)
next
  case (2 n)
  then show ?case by (simp add: show_nat.simps [of n])
qed

lemma show_nat_dec: "c \<in> set (show_nat n) \<Longrightarrow> is_dec c"
proof (induction n rule: show_nat_induct)
  case (1 n)
  then show ?case by (simp add: show_nat.simps [of n])
next
  case (2 n)
  then show ?case by (auto simp: show_nat.simps [of n])
qed

lemma show_nat_ne [simp]: "show_nat n \<noteq> []"
  by (subst show_nat.simps) simp

lemma show_nat_inject [simp]: "show_nat m = show_nat n \<longleftrightarrow> m = n"
  by (metis dec_value_show_nat)

lemma hd_show_nat: "0 < n \<Longrightarrow> hd (show_nat n) \<noteq> CHR ''0''"
proof (induction n rule: show_nat_induct)
  case (1 n)
  have "ord_of (CHR ''0'') = 48" by (simp add: ord_of_def)
  with 1 show ?case
    by (simp add: show_nat.simps [of n] dec_char_def ord_of_char_of flip: ord_of_inject)
next
  case (2 n)
  then have "0 < n div 10" by simp
  with 2 show ?case by (simp add: show_nat.simps [of n])
qed

lemma show_nat_0: "show_nat 0 = ''0''"
  by (simp add: show_nat.simps dec_char_def) code_simp

lemma length_show_nat: "n < 10 ^ k \<Longrightarrow> 0 < k \<Longrightarrow> length (show_nat n) \<le> k"
proof (induction k arbitrary: n)
  case 0
  then show ?case by simp
next
  case (Suc k)
  show ?case
  proof (cases "n < 10")
    case True
    then show ?thesis by (simp add: show_nat.simps [of n])
  next
    case False
    then have "k \<noteq> 0" using Suc.prems(1) by (cases k) auto
    moreover have "n div 10 < 10 ^ k" using Suc.prems(1) by simp
    ultimately show ?thesis
      using False Suc.IH [of "n div 10"] by (simp add: show_nat.simps [of n])
  qed
qed

end
