(* ===== verification/PyVal.thy ===== *)
theory PyVal
  imports PyStr
begin

text \<open>
  Python values that reach the control plane from JSON documents, scope files and findings, the
  exceptions the code raises or catches, and the conversions it applies to them.
\<close>

section \<open>Exceptions\<close>

text \<open>
  One constructor per class the code distinguishes. The string is the fixed part of the message;
  a scope error carries the line of the scope file when the message has one.
  \<open>OutOfModel\<close> is no exception of the code: it says that the result is a value these theories
  do not represent, so nothing is claimed of it.
\<close>

datatype exc =
    ScopeError string "nat option"
  | ValueError string
  | JSONDecodeError
  | KeyError string
  | TypeError string
  | IndexError
  | RuntimeError string
  | RecursionError
  | OSError string
  | FileNotFoundError string
  | OutOfModel

text \<open>\<open>ScopeError\<close> and \<open>JSONDecodeError\<close> are subclasses of \<open>ValueError\<close>.\<close>

fun is_value_error :: "exc \<Rightarrow> bool" where
  "is_value_error (ScopeError _ _) = True"
| "is_value_error (ValueError _) = True"
| "is_value_error JSONDecodeError = True"
| "is_value_error _ = False"

fun is_scope_error :: "exc \<Rightarrow> bool" where
  "is_scope_error (ScopeError _ _) = True"
| "is_scope_error _ = False"

fun is_os_error :: "exc \<Rightarrow> bool" where
  "is_os_error (OSError _) = True"
| "is_os_error (FileNotFoundError _) = True"
| "is_os_error _ = False"

section \<open>Values\<close>

text \<open>
  A float is the decimal its \<open>repr\<close> prints: \<open>PFloat m k\<close> is m / 10^k with k digits
  after the point, at least one.
\<close>

datatype pyval =
    PNone
  | PBool bool
  | PInt int
  | PFloat int nat
  | PStr string
  | PList "pyval list"
  | PDict "(string \<times> pyval) list"

fun truthy :: "pyval \<Rightarrow> bool" where
  "truthy PNone = False"
| "truthy (PBool b) = b"
| "truthy (PInt i) = (i \<noteq> 0)"
| "truthy (PFloat m k) = (m \<noteq> 0)"
| "truthy (PStr s) = (s \<noteq> [])"
| "truthy (PList vs) = (vs \<noteq> [])"
| "truthy (PDict d) = (d \<noteq> [])"

text \<open>The number a value stands for: \<open>bool\<close> is a subclass of \<open>int\<close>.\<close>

fun num_of :: "pyval \<Rightarrow> rat option" where
  "num_of (PBool b) = Some (if b then 1 else 0)"
| "num_of (PInt i) = Some (of_int i)"
| "num_of (PFloat m k) = Some (of_int m / 10 ^ k)"
| "num_of _ = None"

text \<open>\<open>v == n\<close> for an integer literal n.\<close>

definition eq_int :: "pyval \<Rightarrow> int \<Rightarrow> bool" where
  "eq_int v n \<longleftrightarrow> num_of v = Some (of_int n)"

text \<open>\<open>d.get(k)\<close> and \<open>d.get(k, v)\<close> on a dictionary value.\<close>

type_synonym pydict = "(string, pyval) dict"

definition dget :: "pydict \<Rightarrow> string \<Rightarrow> pyval" where
  "dget d k = (case dict_get d k of None \<Rightarrow> PNone | Some v \<Rightarrow> v)"

definition dget_or :: "pydict \<Rightarrow> string \<Rightarrow> pyval \<Rightarrow> pyval" where
  "dget_or d k v = (case dict_get d k of None \<Rightarrow> v | Some w \<Rightarrow> w)"

text \<open>\<open>d[k]\<close>, which raises when the key is absent.\<close>

definition dindex :: "pydict \<Rightarrow> string \<Rightarrow> exc + pyval" where
  "dindex d k = (case dict_get d k of None \<Rightarrow> Inl (KeyError k) | Some v \<Rightarrow> Inr v)"

lemma dget_set [simp]: "dget (dict_set k v d) k' = (if k' = k then v else dget d k')"
  by (simp add: dget_def)

lemma dget_or_set [simp]:
  "dget_or (dict_set k v d) k' w = (if k' = k then v else dget_or d k' w)"
  by (simp add: dget_or_def)

section \<open>Integer conversion\<close>

text \<open>
  \<open>int(s)\<close> on a token made of minus signs and characters \<open>isdigit\<close> accepts: one sign
  at most, decimal digits only, and no more of them than CPython converts.
\<close>

definition int_max_str_digits :: nat where
  "int_max_str_digits = 4300"

definition unsigned_int :: "string \<Rightarrow> exc + nat" where
  "unsigned_int s =
     (if s = [] \<or> \<not> list_all is_dec s then Inl (ValueError ''invalid literal for int()'')
      else if int_max_str_digits < length s then Inl (ValueError ''int string too long'')
      else Inr (dec_value s))"

definition int_of_token :: "string \<Rightarrow> exc + int" where
  "int_of_token s =
     (case s of
        [] \<Rightarrow> Inl (ValueError ''invalid literal for int()'')
      | c # t \<Rightarrow> if c = CHR ''-''
                then bind_res (unsigned_int t) (\<lambda>n. Inr (- int n))
                else bind_res (unsigned_int s) (\<lambda>n. Inr (int n)))"

text \<open>\<open>token.lstrip("-").isdigit()\<close>.\<close>

definition looks_like_int :: "string \<Rightarrow> bool" where
  "looks_like_int s =
     (let t = lstrip_by (\<lambda>c. c = CHR ''-'') s in t \<noteq> [] \<and> list_all is_digit_char t)"

lemma dash_not_dec [simp]: "\<not> is_dec (CHR ''-'')" "\<not> is_digit_char (CHR ''-'')"
  by (simp_all add: is_dec_def is_digit_char_def ord_of_def)

lemma hd_show_nat_not_dash [simp]: "hd (show_nat n) \<noteq> CHR ''-''"
  using show_nat_dec [of "hd (show_nat n)" n] by (metis dash_not_dec(1) hd_in_set show_nat_ne)

lemma list_all_dec_show_nat [simp]: "list_all is_dec (show_nat n)"
  by (simp add: list_all_iff show_nat_dec)

lemma unsigned_int_show_nat:
  "length (show_nat n) \<le> int_max_str_digits \<Longrightarrow> unsigned_int (show_nat n) = Inr n"
  by (simp add: unsigned_int_def)

lemma int_of_token_show_nat:
  assumes "length (show_nat n) \<le> int_max_str_digits"
  shows "int_of_token (show_nat n) = Inr (int n)"
proof -
  obtain c t where ct: "show_nat n = c # t" by (cases "show_nat n") auto
  moreover have "c \<noteq> CHR ''-''" using hd_show_nat_not_dash [of n] by (simp add: ct)
  ultimately show ?thesis
    using unsigned_int_show_nat [OF assms] by (simp add: int_of_token_def)
qed

lemma looks_like_int_show_nat [simp]: "looks_like_int (show_nat n)"
proof -
  have "lstrip_by (\<lambda>c. c = CHR ''-'') (show_nat n) = show_nat n"
    by (rule lstrip_by_hd) simp_all
  moreover have "list_all is_digit_char (show_nat n)"
    by (auto simp: list_all_iff show_nat_dec is_dec_digit)
  ultimately show ?thesis by (simp add: looks_like_int_def)
qed

lemma int_of_token_error: "int_of_token t = Inl e \<Longrightarrow> \<exists>m. e = ValueError m"
  by (auto simp: int_of_token_def unsigned_int_def bind_res_eq_Inl split: list.splits if_splits)

end
