(* ===== verification/PyJson.thy ===== *)
theory PyJson
  imports PyVal
begin

text \<open>
  The \<open>json\<close> module as the code uses it: \<open>dumps\<close> with and without \<open>ensure_ascii\<close>
  and \<open>indent\<close>, and \<open>loads\<close> as an automaton that consumes one token at a time with the
  open containers on a stack, so that it needs no fuel. What it does not represent (escapes of
  code points from 256 on, exponents, NaN and the infinities) is \<open>OutOfModel\<close>, and a float
  literal is kept as the decimal it is written as, without the rounding to binary64.
\<close>

section \<open>Strings\<close>

definition hex_char :: "nat \<Rightarrow> char" where
  "hex_char d = (if d < 10 then char_of (48 + d) else char_of (87 + d))"

definition hex_val :: "char \<Rightarrow> nat option" where
  "hex_val c =
     (let n = ord_of c
      in if 48 \<le> n \<and> n \<le> 57 then Some (n - 48)
         else if 97 \<le> n \<and> n \<le> 102 then Some (n - 87)
         else if 65 \<le> n \<and> n \<le> 70 then Some (n - 55) else None)"

definition dq_char :: char where "dq_char = CHR 0x22"

definition bs_char :: char where "bs_char = CHR 0x5C"

text \<open>The two-character escapes: what follows the backslash, and what it stands for.\<close>

definition short_escapes :: "(char \<times> char) list" where
  "short_escapes =
     [(CHR 0x22, CHR 0x22), (CHR 0x5C, CHR 0x5C), (CHR ''/'', CHR ''/''), (CHR ''b'', CHR 0x08),
      (CHR ''f'', CHR 0x0C), (CHR ''n'', CHR 0x0A), (CHR ''r'', CHR 0x0D), (CHR ''t'', CHR 0x09)]"

definition escape_char :: "bool \<Rightarrow> char \<Rightarrow> string" where
  "escape_char ascii c =
     (let n = ord_of c
      in if c = CHR 0x22 \<or> c = CHR 0x5C then [bs_char, c]
         else if n = 8 then [bs_char, CHR ''b'']
         else if n = 12 then [bs_char, CHR ''f'']
         else if n = 10 then [bs_char, CHR ''n'']
         else if n = 13 then [bs_char, CHR ''r'']
         else if n = 9 then [bs_char, CHR ''t'']
         else if n < 32 \<or> ascii \<and> 126 < n
         then [bs_char, CHR ''u'', CHR ''0'', CHR ''0'', hex_char (n div 16), hex_char (n mod 16)]
         else [c])"

definition dump_str :: "bool \<Rightarrow> string \<Rightarrow> string" where
  "dump_str ascii s = dq_char # concat (map (escape_char ascii) s) @ [dq_char]"

text \<open>What follows a backslash: the character it denotes and the rest of the text.\<close>

definition unescape :: "string \<Rightarrow> exc + (char \<times> string)" where
  "unescape s =
     (case s of
        [] \<Rightarrow> Inl JSONDecodeError
      | e # t \<Rightarrow>
          if e = CHR ''u'' then
            (case map hex_val (take 4 t) of
               [Some a, Some b, Some x, Some y] \<Rightarrow>
                 if a = 0 \<and> b = 0 then Inr (char_of (16 * x + y), drop 4 t) else Inl OutOfModel
             | _ \<Rightarrow> Inl JSONDecodeError)
          else (case map_of short_escapes e of
                  None \<Rightarrow> Inl JSONDecodeError
                | Some c \<Rightarrow> Inr (c, t)))"

lemma unescape_shorter [termination_simp]: "unescape s = Inr (c, t) \<Longrightarrow> length t < length s"
  by (cases s) (auto simp: unescape_def split: if_splits list.splits option.splits)

definition push_char :: "char \<Rightarrow> exc + (string \<times> string) \<Rightarrow> exc + (string \<times> string)" where
  "push_char c r = (case r of Inl e \<Rightarrow> Inl e | Inr (s, t) \<Rightarrow> Inr (c # s, t))"

text \<open>The rest of a string literal after its opening quote: its value and what follows it.\<close>

fun scan_string :: "string \<Rightarrow> exc + (string \<times> string)" where
  "scan_string [] = Inl JSONDecodeError"
| "scan_string (c # s) =
     (if c = dq_char then Inr ([], s)
      else if c = bs_char then
        (case unescape s of
           Inl e \<Rightarrow> Inl e
         | Inr (c', t) \<Rightarrow> push_char c' (scan_string t))
      else if ord_of c < 32 then Inl JSONDecodeError
      else push_char c (scan_string s))"

lemma scan_string_shorter: "scan_string s = Inr (r, t) \<Longrightarrow> length t < length s"
proof (induction s arbitrary: r rule: length_induct)
  case (1 s)
  then have IH: "scan_string u = Inr (q, t) \<Longrightarrow> length u < length s \<Longrightarrow> length t < length u" for u q
    by blast
  show ?case
    using 1(2) by (cases s)
      (auto simp: push_char_def dest!: unescape_shorter split: if_splits sum.splits prod.splits,
        auto dest!: IH)
qed

lemma hex_val_hex_char: "d < 16 \<Longrightarrow> hex_val (hex_char d) = Some d"
  by (auto simp: hex_val_def hex_char_def Let_def ord_of_char_of)

lemma unescape_u:
  "unescape (CHR ''u'' # CHR ''0'' # CHR ''0'' # hex_char (ord_of c div 16)
     # hex_char (ord_of c mod 16) # s) = Inr (c, s)"
proof -
  have "hex_val (CHR ''0'') = Some 0" by (simp add: hex_val_def ord_of_def)
  moreover have "ord_of c div 16 < 16" using ord_of_less_256 [of c] by simp
  moreover have "char_of (ord_of c) = c" by (simp add: ord_of_def)
  ultimately show ?thesis by (simp add: unescape_def hex_val_hex_char)
qed

lemma scan_escape_char:
  "scan_string (escape_char ascii c @ s) = push_char c (scan_string s)"
proof -
  have special: "c = char_of (ord_of c)" by (simp add: ord_of_def)
  have bs: "bs_char \<noteq> dq_char" by (simp add: bs_char_def dq_char_def)
  have short: "unescape (CHR ''b'' # s) = Inr (CHR 0x08, s)" "unescape (CHR ''f'' # s) = Inr (CHR 0x0C, s)"
    "unescape (CHR ''n'' # s) = Inr (CHR 0x0A, s)" "unescape (CHR ''r'' # s) = Inr (CHR 0x0D, s)"
    "unescape (CHR ''t'' # s) = Inr (CHR 0x09, s)"
    "unescape (CHR 0x22 # s) = Inr (CHR 0x22, s)" "unescape (CHR 0x5C # s) = Inr (CHR 0x5C, s)"
    by (simp_all add: unescape_def short_escapes_def)
  have ords: "ord_of (CHR 0x08) = 8" "ord_of (CHR 0x0C) = 12" "ord_of (CHR 0x0A) = 10"
    "ord_of (CHR 0x0D) = 13" "ord_of (CHR 0x09) = 9"
    by (simp_all add: ord_of_def)
  show ?thesis
    by (auto simp: escape_char_def Let_def bs short unescape_u dq_char_def bs_char_def
        simp flip: ords)
qed

lemma scan_dump_str:
  "scan_string (concat (map (escape_char ascii) s) @ dq_char # t) = Inr (s, t)"
  by (induction s) (simp_all add: scan_escape_char push_char_def)

section \<open>Numbers\<close>

text \<open>The digits after the point, padded to the precision.\<close>

definition show_frac :: "nat \<Rightarrow> nat \<Rightarrow> string" where
  "show_frac k n = replicate (k - length (show_nat n)) (CHR ''0'') @ show_nat n"

definition show_float :: "int \<Rightarrow> nat \<Rightarrow> string" where
  "show_float m k =
     (let n = nat \<bar>m\<bar>
      in (if m < 0 then [CHR ''-''] else []) @ show_nat (n div 10 ^ k) @ CHR ''.'' #
           show_frac k (n mod 10 ^ k))"

text \<open>The longest prefix the number pattern matches: sign, integer part and fraction.\<close>

definition scan_nat :: "string \<Rightarrow> string \<times> string" where
  "scan_nat s =
     (case s of
        [] \<Rightarrow> ([], [])
      | d # t \<Rightarrow> if d = CHR ''0'' then ([d], t) else (takeWhile is_dec s, dropWhile is_dec s))"

definition scan_frac :: "string \<Rightarrow> string \<times> string" where
  "scan_frac s =
     (case s of
        p # d # t \<Rightarrow> if p = CHR ''.'' \<and> is_dec d
                     then (takeWhile is_dec (d # t), dropWhile is_dec (d # t)) else ([], s)
      | _ \<Rightarrow> ([], s))"

definition has_exponent :: "string \<Rightarrow> bool" where
  "has_exponent s =
     (case s of
        e # t \<Rightarrow> (e = CHR ''e'' \<or> e = CHR ''E'') \<and>
          (case t of
             d # u \<Rightarrow> is_dec d \<or> (d = CHR ''+'' \<or> d = CHR ''-'') \<and> u \<noteq> [] \<and> is_dec (hd u)
           | [] \<Rightarrow> False)
      | [] \<Rightarrow> False)"

definition strip_zeros :: "string \<Rightarrow> string" where
  "strip_zeros f = (let g = rstrip_by (\<lambda>c. c = CHR ''0'') f in if g = [] then ''0'' else g)"

definition float_of :: "bool \<Rightarrow> string \<Rightarrow> string \<Rightarrow> pyval" where
  "float_of neg i f =
     (let g = strip_zeros f; n = int (dec_value (i @ g))
      in PFloat (if neg then - n else n) (length g))"

section \<open>Tokens\<close>

datatype tok =
    TPunct char
  | TStr "exc + string"
  | TScalar "exc + pyval"

definition is_json_ws :: "char \<Rightarrow> bool" where
  "is_json_ws c \<longleftrightarrow> ord_of c \<in> {9, 10, 13, 32}"

definition json_literals :: "(string \<times> (exc + pyval)) list" where
  "json_literals =
     [(''null'', Inr PNone), (''true'', Inr (PBool True)), (''false'', Inr (PBool False)),
      (''NaN'', Inl OutOfModel), (''Infinity'', Inl OutOfModel), (''-Infinity'', Inl OutOfModel)]"

definition lex_number :: "bool \<Rightarrow> string \<Rightarrow> tok \<times> string" where
  "lex_number neg body =
     (case scan_nat body of (i, r) \<Rightarrow>
      (case scan_frac r of (f, r') \<Rightarrow>
        if has_exponent r' then (TScalar (Inl OutOfModel), [])
        else if f = []
        then (TScalar (bind_res (int_of_token ((if neg then [CHR ''-''] else []) @ i))
                (\<lambda>n. Inr (PInt n))), r')
        else (TScalar (Inr (float_of neg i f)), r')))"

definition lex_word :: "string \<Rightarrow> tok \<times> string" where
  "lex_word s =
     (case find (\<lambda>p. startswith (fst p) s) json_literals of
        Some p \<Rightarrow> (TScalar (snd p), drop (length (fst p)) s)
      | None \<Rightarrow> (TScalar (Inl JSONDecodeError), []))"

definition next_token :: "string \<Rightarrow> (tok \<times> string) option" where
  "next_token s =
     (case dropWhile is_json_ws s of
        [] \<Rightarrow> None
      | c # t \<Rightarrow> Some
          (if c \<in> set '',:[]{}'' then (TPunct c, t)
           else if c = dq_char
           then (case scan_string t of
                   Inl e \<Rightarrow> (TStr (Inl e), []) | Inr (x, r) \<Rightarrow> (TStr (Inr x), r))
           else if is_dec c then lex_number False (c # t)
           else if c = CHR ''-'' \<and> t \<noteq> [] \<and> is_dec (hd t) then lex_number True t
           else lex_word (c # t)))"

lemma scan_nat_shorter: "s \<noteq> [] \<Longrightarrow> is_dec (hd s) \<Longrightarrow> length (snd (scan_nat s)) < length s"
  by (cases s) (auto simp: scan_nat_def length_dropWhile_le le_imp_less_Suc)

lemma scan_frac_le: "length (snd (scan_frac s)) \<le> length s"
  by (auto simp: scan_frac_def length_dropWhile_le le_SucI split: list.splits)

lemma lex_number_shorter:
  assumes "s \<noteq> []" and "is_dec (hd s)"
  shows "length (snd (lex_number neg s)) < length s"
proof -
  obtain i r where ir: "scan_nat s = (i, r)" by fastforce
  obtain f r' where f: "scan_frac r = (f, r')" by fastforce
  have "length r < length s" using scan_nat_shorter [OF assms] ir by simp
  moreover have "length r' \<le> length r" using scan_frac_le [of r] f by simp
  ultimately show ?thesis using assms(1) by (simp add: lex_number_def ir f)
qed

lemma lex_word_shorter: "s \<noteq> [] \<Longrightarrow> length (snd (lex_word s)) < length s"
  by (auto simp: lex_word_def json_literals_def)

lemma next_token_shorter: "next_token s = Some (t, r) \<Longrightarrow> length r < length s"
proof -
  assume a: "next_token s = Some (t, r)"
  then obtain c u where cu: "dropWhile is_json_ws s = c # u"
    by (auto simp: next_token_def split: list.splits)
  have le: "length (c # u) \<le> length s"
    using length_dropWhile_le [of is_json_ws s] cu by simp
  have "length r < length (c # u)"
    using a cu lex_number_shorter [of "c # u" False] lex_number_shorter [of u True]
      lex_word_shorter [of "c # u"]
    by (auto simp: next_token_def dest: scan_string_shorter
        split: if_splits sum.splits prod.splits)
  with le show ?thesis by simp
qed

section \<open>The parser\<close>

datatype jmode = WantVal | WantValOrEnd | WantKey | WantKeyOrEnd | WantColon string | HaveVal pyval

datatype jframe = FArr "pyval list" | FObj "(string \<times> pyval) list" | FKey "(string \<times> pyval) list" string

type_synonym jstate = "jmode \<times> jframe list"

definition json_value :: "jframe list \<Rightarrow> tok \<Rightarrow> exc + jstate" where
  "json_value fs t =
     (case t of
        TScalar r \<Rightarrow> bind_res r (\<lambda>v. Inr (HaveVal v, fs))
      | TStr r \<Rightarrow> bind_res r (\<lambda>s. Inr (HaveVal (PStr s), fs))
      | TPunct c \<Rightarrow>
          if c = CHR ''['' then Inr (WantValOrEnd, FArr [] # fs)
          else if c = CHR ''{'' then Inr (WantKeyOrEnd, FObj [] # fs)
          else Inl JSONDecodeError)"

definition json_key :: "jframe list \<Rightarrow> tok \<Rightarrow> exc + jstate" where
  "json_key fs t =
     (case t of TStr r \<Rightarrow> bind_res r (\<lambda>k. Inr (WantColon k, fs)) | _ \<Rightarrow> Inl JSONDecodeError)"

fun json_step :: "jstate \<Rightarrow> tok \<Rightarrow> exc + jstate" where
  "json_step (WantVal, fs) t = json_value fs t"
| "json_step (WantValOrEnd, fs) t =
     (case fs of
        FArr [] # fs' \<Rightarrow>
          if t = TPunct (CHR '']'') then Inr (HaveVal (PList []), fs') else json_value fs t
      | _ \<Rightarrow> Inl JSONDecodeError)"
| "json_step (WantKey, fs) t = json_key fs t"
| "json_step (WantKeyOrEnd, fs) t =
     (case fs of
        FObj [] # fs' \<Rightarrow>
          if t = TPunct (CHR ''}'') then Inr (HaveVal (PDict []), fs') else json_key fs t
      | _ \<Rightarrow> Inl JSONDecodeError)"
| "json_step (WantColon k, fs) t =
     (case fs of
        FObj d # fs' \<Rightarrow>
          if t = TPunct (CHR '':'') then Inr (WantVal, FKey d k # fs') else Inl JSONDecodeError
      | _ \<Rightarrow> Inl JSONDecodeError)"
| "json_step (HaveVal v, fs) t =
     (case fs of
        FArr vs # fs' \<Rightarrow>
          if t = TPunct (CHR '','') then Inr (WantVal, FArr (vs @ [v]) # fs')
          else if t = TPunct (CHR '']'') then Inr (HaveVal (PList (vs @ [v])), fs')
          else Inl JSONDecodeError
      | FKey d k # fs' \<Rightarrow>
          if t = TPunct (CHR '','') then Inr (WantKey, FObj (dict_set k v d) # fs')
          else if t = TPunct (CHR ''}'') then Inr (HaveVal (PDict (dict_set k v d)), fs')
          else Inl JSONDecodeError
      | _ \<Rightarrow> Inl JSONDecodeError)"

function json_run :: "jstate \<Rightarrow> string \<Rightarrow> exc + jstate" where
  "json_run st s =
     (case next_token s of
        None \<Rightarrow> Inr st
      | Some (t, r) \<Rightarrow> (case json_step st t of Inl e \<Rightarrow> Inl e | Inr st' \<Rightarrow> json_run st' r))"
  by pat_completeness auto
termination
  by (relation "measure (\<lambda>(st, s). length s)") (auto dest: next_token_shorter)

declare json_run.simps [simp del]

definition json_loads :: "string \<Rightarrow> exc + pyval" where
  "json_loads s =
     bind_res (json_run (WantVal, []) s)
       (\<lambda>st. case st of (HaveVal v, []) \<Rightarrow> Inr v | _ \<Rightarrow> Inl JSONDecodeError)"

section \<open>The printer\<close>

definition newline_indent :: "nat option \<Rightarrow> nat \<Rightarrow> string" where
  "newline_indent ind l =
     (case ind of None \<Rightarrow> [] | Some n \<Rightarrow> lf_char # replicate (n * l) (CHR '' ''))"

definition item_sep :: "nat option \<Rightarrow> nat \<Rightarrow> string" where
  "item_sep ind l = CHR '','' # (case ind of None \<Rightarrow> '' '' | Some n \<Rightarrow> newline_indent ind l)"

fun json_dump :: "bool \<Rightarrow> nat option \<Rightarrow> nat \<Rightarrow> pyval \<Rightarrow> string" where
  "json_dump ascii ind l PNone = ''null''"
| "json_dump ascii ind l (PBool b) = (if b then ''true'' else ''false'')"
| "json_dump ascii ind l (PInt i) = show_int i"
| "json_dump ascii ind l (PFloat m k) = show_float m k"
| "json_dump ascii ind l (PStr s) = dump_str ascii s"
| "json_dump ascii ind l (PList vs) =
     (if vs = [] then ''[]''
      else CHR ''['' # newline_indent ind (Suc l)
             @ join_str (item_sep ind (Suc l)) (map (json_dump ascii ind (Suc l)) vs)
             @ newline_indent ind l @ '']'')"
| "json_dump ascii ind l (PDict d) =
     (if d = [] then ''{}''
      else CHR ''{'' # newline_indent ind (Suc l)
             @ join_str (item_sep ind (Suc l))
                 (map (\<lambda>p. dump_str ascii (fst p) @ '': '' @ json_dump ascii ind (Suc l) (snd p)) d)
             @ newline_indent ind l @ ''}'')"

definition json_dumps :: "bool \<Rightarrow> nat option \<Rightarrow> pyval \<Rightarrow> string" where
  "json_dumps ascii ind v = json_dump ascii ind 0 v"

section \<open>Round trip\<close>

text \<open>
  The values \<open>dumps\<close> writes and \<open>loads\<close> reads back: dictionaries with distinct keys,
  integers CPython converts, floats in the normal form of \<open>repr\<close>.
\<close>

fun json_ok :: "pyval \<Rightarrow> bool" where
  "json_ok (PInt i) = (length (show_nat (nat \<bar>i\<bar>)) \<le> int_max_str_digits)"
| "json_ok (PFloat m k) = (1 \<le> k \<and> (k = 1 \<or> m mod 10 \<noteq> 0))"
| "json_ok (PList vs) = list_all json_ok vs"
| "json_ok (PDict d) = (dict_ok d \<and> list_all (\<lambda>p. json_ok (snd p)) d)"
| "json_ok _ = True"

text \<open>What may follow a value in the printer's output.\<close>

definition tail_ok :: "string \<Rightarrow> bool" where
  "tail_ok s \<longleftrightarrow> s = [] \<or> hd s \<in> {CHR '','', CHR '']'', CHR ''}'', lf_char}"

lemma tail_ok_Cons:
  "tail_ok (c # s) \<Longrightarrow> \<not> is_dec c \<and> c \<noteq> CHR ''.'' \<and> c \<noteq> CHR ''e'' \<and> c \<noteq> CHR ''E''"
  by (auto simp: tail_ok_def is_dec_def ord_of_def lf_char_def)

lemma tail_ok_simps [simp]:
  "tail_ok []" "tail_ok (CHR '','' # s)" "tail_ok (CHR '']'' # s)" "tail_ok (CHR ''}'' # s)"
  by (simp_all add: tail_ok_def)

lemma tail_ok_sep [simp]: "tail_ok (item_sep ind l @ s)"
  by (simp add: item_sep_def)

lemma tail_ok_newline: "tail_ok s \<Longrightarrow> tail_ok (newline_indent ind l @ s)"
  by (auto simp: newline_indent_def tail_ok_def split: option.splits)

lemma takeWhile_dec_tail:
  assumes "list_all is_dec ds" and "tail_ok s"
  shows "takeWhile is_dec (ds @ s) = ds" "dropWhile is_dec (ds @ s) = s"
proof -
  have "takeWhile is_dec s = []" "dropWhile is_dec s = s"
    using assms(2) tail_ok_Cons [of "hd s" "tl s"] by (cases s, auto)+
  then show "takeWhile is_dec (ds @ s) = ds" "dropWhile is_dec (ds @ s) = s"
    using assms(1) by (simp_all add: list_all_iff takeWhile_append2 dropWhile_append2)
qed

lemma takeWhile_dec_point:
  assumes "list_all is_dec ds"
  shows "takeWhile is_dec (ds @ CHR ''.'' # s) = ds" "dropWhile is_dec (ds @ CHR ''.'' # s) = CHR ''.'' # s"
proof -
  have "\<not> is_dec (CHR ''.'')" by (simp add: is_dec_def ord_of_def)
  then show "takeWhile is_dec (ds @ CHR ''.'' # s) = ds"
    "dropWhile is_dec (ds @ CHR ''.'' # s) = CHR ''.'' # s"
    using assms by (simp_all add: list_all_iff takeWhile_append2 dropWhile_append2)
qed

lemma scan_nat_show_nat:
  assumes "takeWhile is_dec (show_nat n @ s) = show_nat n" and "dropWhile is_dec (show_nat n @ s) = s"
  shows "scan_nat (show_nat n @ s) = (show_nat n, s)"
proof (cases "n = 0")
  case True
  then show ?thesis by (simp add: show_nat_0 scan_nat_def)
next
  case False
  then obtain c t where "show_nat n = c # t" "c \<noteq> CHR ''0''"
    using hd_show_nat [of n] by (cases "show_nat n") auto
  then show ?thesis using assms by (simp add: scan_nat_def)
qed

lemma is_dec_hd_show_nat [simp]: "is_dec (hd (show_nat n))"
  by (rule show_nat_dec [OF hd_in_set]) simp

lemma dec_value_append: "dec_value (a @ b) = dec_value a * 10 ^ length b + dec_value b"
  by (induction b rule: rev_induct) (simp_all flip: append_assoc add: algebra_simps)

lemma dec_value_zeros [simp]: "dec_value (replicate k (CHR ''0'')) = 0"
  by (induction k) (simp_all flip: replicate_append_same add: dec_val_def ord_of_def)

lemma length_show_frac: "n < 10 ^ k \<Longrightarrow> 1 \<le> k \<Longrightarrow> length (show_frac k n) = k"
  using length_show_nat [of n k] by (simp add: show_frac_def)

lemma dec_value_show_frac [simp]: "dec_value (show_frac k n) = n"
  by (simp add: show_frac_def dec_value_append)

lemma show_frac_digits: "list_all is_dec (show_frac k n)"
proof -
  have "is_dec (CHR ''0'')" by (simp add: is_dec_def ord_of_def)
  then show ?thesis by (auto simp: show_frac_def list_all_iff show_nat_dec)
qed

lemma show_frac_ne [simp]: "show_frac k n \<noteq> []"
  by (simp add: show_frac_def)

lemma last_show_frac: "last (show_frac k n) = dec_char (n mod 10)"
  by (simp add: show_frac_def show_nat.simps [of n])

lemma strip_zeros_show_frac:
  assumes "n < 10 ^ k" and "1 \<le> k" and "k = 1 \<or> n mod 10 \<noteq> 0"
  shows "strip_zeros (show_frac k n) = show_frac k n"
proof (cases "n mod 10 = 0")
  case True
  then have "k = 1" "n = 0" using assms by auto
  then show ?thesis
    by (simp add: show_frac_def strip_zeros_def show_nat_0 rstrip_by_def)
next
  case False
  have "dec_char (n mod 10) \<noteq> CHR ''0''"
  proof
    assume "dec_char (n mod 10) = CHR ''0''"
    then have "dec_val (dec_char (n mod 10)) = 0" by (simp add: dec_val_def ord_of_def)
    then show False using False by simp
  qed
  then show ?thesis
    by (simp add: strip_zeros_def rstrip_by_last last_show_frac)
qed

lemma scan_frac_show_frac:
  assumes "tail_ok s"
  shows "scan_frac (CHR ''.'' # show_frac k n @ s) = (show_frac k n, s)"
proof -
  obtain d ds where ds: "show_frac k n = d # ds" by (cases "show_frac k n") auto
  then have "is_dec d" using show_frac_digits [of k n] by simp
  then show ?thesis
    using takeWhile_dec_tail [OF show_frac_digits [of k n] assms] ds
    by (simp add: scan_frac_def)
qed

lemma no_exponent: "tail_ok s \<Longrightarrow> \<not> has_exponent s"
  using tail_ok_Cons [of "hd s" "tl s"] by (cases s) (auto simp: has_exponent_def)

lemma scan_frac_tail: "tail_ok s \<Longrightarrow> scan_frac s = ([], s)"
  using tail_ok_Cons [of "hd s" "tl s"] by (cases s) (auto simp: scan_frac_def split: list.splits)

lemma next_token_punct [simp]:
  "c \<in> set '',:[]{}'' \<Longrightarrow> next_token (c # s) = Some (TPunct c, s)"
  by (auto simp: next_token_def is_json_ws_def ord_of_def)

lemma next_token_ws: "list_all is_json_ws w \<Longrightarrow> next_token (w @ s) = next_token s"
  by (simp add: next_token_def list_all_iff dropWhile_append2)

lemma json_run_ws: "list_all is_json_ws w \<Longrightarrow> json_run st (w @ s) = json_run st s"
  by (subst (1 2) json_run.simps) (simp add: next_token_ws)

lemma ws_newline_indent [simp]: "list_all is_json_ws (newline_indent ind l)"
  by (auto simp: newline_indent_def list_all_iff is_json_ws_def lf_char_def ord_of_def
      split: option.splits)

lemma json_run_space: "json_run st (CHR '' '' # s) = json_run st s"
  using json_run_ws [of "'' ''" st s] by (simp add: is_json_ws_def ord_of_def)

lemma json_run_token:
  "next_token s = Some (t, r) \<Longrightarrow> json_step st t = Inr st' \<Longrightarrow> json_run st s = json_run st' r"
  by (subst json_run.simps) simp

lemma next_token_str [simp]: "next_token (dump_str ascii x @ s) = Some (TStr (Inr x), s)"
proof -
  have "\<not> is_json_ws dq_char" "dq_char \<notin> set '',:[]{}''"
    by (simp_all add: is_json_ws_def dq_char_def ord_of_def)
  then show ?thesis
    by (simp add: next_token_def dump_str_def scan_dump_str)
qed

lemma dec_token_facts:
  assumes "is_dec c"
  shows "\<not> is_json_ws c" "c \<notin> set '',:[]{}''" "c \<noteq> dq_char" "c \<noteq> CHR ''-''"
  using assms by (auto simp: is_dec_def is_json_ws_def dq_char_def ord_of_def)

lemma next_token_number:
  assumes "b \<noteq> []" and "is_dec (hd b)"
  shows "next_token ((if neg then [CHR ''-''] else []) @ b) = Some (lex_number neg b)"
proof (cases neg)
  case True
  have "\<not> is_json_ws (CHR ''-'')" "CHR ''-'' \<notin> set '',:[]{}''" "CHR ''-'' \<noteq> dq_char"
    by (simp_all add: is_json_ws_def dq_char_def ord_of_def)
  with True assms show ?thesis by (simp add: next_token_def)
next
  case False
  with assms dec_token_facts [OF assms(2)] show ?thesis
    by (cases b) (simp_all add: next_token_def)
qed

lemma next_token_show_int:
  assumes "length (show_nat (nat \<bar>i\<bar>)) \<le> int_max_str_digits" and "tail_ok s"
  shows "next_token (show_int i @ s) = Some (TScalar (Inr (PInt i)), s)"
proof -
  let ?n = "nat \<bar>i\<bar>"
  have sh: "show_int i = (if i < 0 then [CHR ''-''] else []) @ show_nat ?n"
    by (simp add: show_int_def)
  have scan: "scan_nat (show_nat ?n @ s) = (show_nat ?n, s)"
    using takeWhile_dec_tail [of "show_nat ?n" s] assms(2) by (intro scan_nat_show_nat) auto
  have conv: "int_of_token ((if i < 0 then [CHR ''-''] else []) @ show_nat ?n) = Inr i"
    using assms(1) int_of_token_show_nat [of ?n]
    by (cases "i < 0") (simp_all add: int_of_token_def unsigned_int_show_nat)
  have "next_token (show_int i @ s) = Some (lex_number (i < 0) (show_nat ?n @ s))"
    using next_token_number [of "show_nat ?n @ s" "i < 0"] by (simp only: sh append_assoc) simp
  then show ?thesis
    using conv by (simp add: lex_number_def scan scan_frac_tail no_exponent assms(2))
qed

lemma next_token_show_float:
  assumes "json_ok (PFloat m k)" and "tail_ok s"
  shows "next_token (show_float m k @ s) = Some (TScalar (Inr (PFloat m k)), s)"
proof -
  let ?n = "nat \<bar>m\<bar>" let ?i = "show_nat (?n div 10 ^ k)" let ?f = "show_frac k (?n mod 10 ^ k)"
  have k: "1 \<le> k" "k = 1 \<or> m mod 10 \<noteq> 0" using assms(1) by auto
  have sh: "show_float m k @ s = (if m < 0 then [CHR ''-''] else []) @ ?i @ CHR ''.'' # ?f @ s"
    by (simp add: show_float_def Let_def)
  have scan: "scan_nat (?i @ CHR ''.'' # ?f @ s) = (?i, CHR ''.'' # ?f @ s)"
    by (intro scan_nat_show_nat takeWhile_dec_point) simp_all
  have frac: "scan_frac (CHR ''.'' # ?f @ s) = (?f, s)"
    by (rule scan_frac_show_frac [OF assms(2)])
  have lt: "?n mod 10 ^ k < 10 ^ k" by simp
  have "(?n mod 10 ^ k) mod 10 = ?n mod 10"
    using k(1) by (simp add: mod_mod_cancel dvd_power)
  moreover have "?n mod 10 = 0 \<longleftrightarrow> m mod 10 = 0"
    using int_dvd_int_iff [of 10 ?n] by (simp flip: dvd_eq_mod_eq_0)
  ultimately have strip: "strip_zeros ?f = ?f"
    using k by (intro strip_zeros_show_frac) auto
  have "dec_value (?i @ ?f) = ?n"
    using length_show_frac [OF lt k(1)] div_mult_mod_eq [of ?n "10 ^ k"]
    by (simp add: dec_value_append)
  then have val: "float_of (m < 0) ?i ?f = PFloat m k"
    using length_show_frac [OF lt k(1)] strip
    by (cases "m < 0") (simp_all add: float_of_def Let_def)
  have "next_token (show_float m k @ s) = Some (lex_number (m < 0) (?i @ CHR ''.'' # ?f @ s))"
    unfolding sh by (rule next_token_number) simp_all
  then show ?thesis
    by (simp add: lex_number_def scan frac no_exponent assms(2) val)
qed

text \<open>The two modes in which a value may start.\<close>

definition at_value :: "jmode \<Rightarrow> jframe list \<Rightarrow> bool" where
  "at_value m fs \<longleftrightarrow> m = WantVal \<or> m = WantValOrEnd \<and> (\<exists>fs'. fs = FArr [] # fs')"

lemma at_value_step:
  "at_value m fs \<Longrightarrow> t \<noteq> TPunct (CHR '']'') \<Longrightarrow> json_step (m, fs) t = json_value fs t"
  by (auto simp: at_value_def)

lemma at_value_WantVal [simp]: "at_value WantVal fs"
  by (simp add: at_value_def)

lemma run_scalar:
  assumes "next_token s = Some (TScalar (Inr v), r)" and "at_value m fs"
  shows "json_run (m, fs) s = json_run (HaveVal v, fs) r"
  using assms by (intro json_run_token) (auto simp: at_value_step json_value_def)

lemma run_item_sep: "json_run st (tl (item_sep ind k) @ u) = json_run st u"
  by (rule json_run_ws) (auto simp: item_sep_def is_json_ws_def ord_of_def split: option.splits)

lemma run_comma:
  "json_step st (TPunct (CHR '','')) = Inr st' \<Longrightarrow>
     json_run st (item_sep ind k @ u) = json_run st' u"
  using json_run_token [of "item_sep ind k @ u" "TPunct (CHR '','')" "tl (item_sep ind k) @ u"]
  by (simp add: item_sep_def run_item_sep [unfolded item_sep_def, simplified])

lemma run_items:
  assumes "vs \<noteq> []" and "at_value m (FArr acc # fs)"
    and elem: "\<And>v m fs s. v \<in> set vs \<Longrightarrow> at_value m fs \<Longrightarrow> tail_ok s \<Longrightarrow>
      json_run (m, fs) (d v @ s) = json_run (HaveVal v, fs) s"
  shows "json_run (m, FArr acc # fs)
           (join_str (item_sep ind k) (map d vs) @ newline_indent ind l @ CHR '']'' # s) =
         json_run (HaveVal (PList (acc @ vs)), fs) s"
  using assms
proof (induction vs arbitrary: m acc rule: induct_list012)
  case 1
  then show ?case by simp
next
  case (2 v)
  have "json_run (m, FArr acc # fs) (d v @ newline_indent ind l @ CHR '']'' # s) =
        json_run (HaveVal v, FArr acc # fs) (newline_indent ind l @ CHR '']'' # s)"
    using 2(2) by (intro 2(3)) (simp_all add: tail_ok_newline)
  then show ?case
    by (simp add: json_run_ws json_run_token [of _ "TPunct (CHR '']'')"])
next
  case (3 v w vs)
  let ?rest = "join_str (item_sep ind k) (map d (w # vs)) @ newline_indent ind l @ CHR '']'' # s"
  have "json_run (m, FArr acc # fs) (d v @ item_sep ind k @ ?rest) =
        json_run (HaveVal v, FArr acc # fs) (item_sep ind k @ ?rest)"
    using 3(4,5) by auto
  also have "\<dots> = json_run (WantVal, FArr (acc @ [v]) # fs) ?rest"
    by (rule run_comma) simp
  also have "\<dots> = json_run (HaveVal (PList ((acc @ [v]) @ w # vs)), fs) s"
    by (rule 3(2)) (auto intro: 3(5))
  finally show ?case by simp
qed

definition dump_member :: "bool \<Rightarrow> (pyval \<Rightarrow> string) \<Rightarrow> string \<times> pyval \<Rightarrow> string" where
  "dump_member ascii f p = dump_str ascii (fst p) @ '': '' @ f (snd p)"

lemma run_member:
  assumes "m = WantKey \<or> m = WantKeyOrEnd \<and> acc = []"
    and elem: "json_run (WantVal, FKey acc (fst p) # fs) (f (snd p) @ u) =
      json_run (HaveVal (snd p), FKey acc (fst p) # fs) u"
  shows "json_run (m, FObj acc # fs) (dump_member ascii f p @ u) =
    json_run (HaveVal (snd p), FKey acc (fst p) # fs) u"
proof -
  have "json_run (m, FObj acc # fs) (dump_str ascii (fst p) @ '': '' @ f (snd p) @ u) =
    json_run (WantColon (fst p), FObj acc # fs) ('': '' @ f (snd p) @ u)"
    by (rule json_run_token [of _ "TStr (Inr (fst p))"])
      (use assms(1) in \<open>auto simp: json_key_def\<close>)
  also have "\<dots> = json_run (WantVal, FKey acc (fst p) # fs) ('' '' @ f (snd p) @ u)"
    by (rule json_run_token [of _ "TPunct (CHR '':'')"]) simp_all
  also have "\<dots> = json_run (HaveVal (snd p), FKey acc (fst p) # fs) u"
    using elem by (simp add: json_run_space)
  finally show ?thesis by (simp add: dump_member_def)
qed

lemma run_members:
  assumes "d \<noteq> []" and "m = WantKey \<or> m = WantKeyOrEnd \<and> acc = []" and "dict_ok (acc @ d)"
    and elem: "\<And>p fs s. p \<in> set d \<Longrightarrow> tail_ok s \<Longrightarrow>
      json_run (WantVal, fs) (f (snd p) @ s) = json_run (HaveVal (snd p), fs) s"
  shows "json_run (m, FObj acc # fs)
           (join_str (item_sep ind k) (map (dump_member ascii f) d)
              @ newline_indent ind l @ CHR ''}'' # s) =
         json_run (HaveVal (PDict (acc @ d)), fs) s"
  using assms
proof (induction d arbitrary: m acc rule: induct_list012)
  case 1
  then show ?case by simp
next
  case (2 p)
  have new: "dict_set (fst p) (snd p) acc = acc @ [p]"
    using 2(3) by (intro trans [OF dict_set_new]) (auto simp: dict_ok_def)
  have "json_run (m, FObj acc # fs) (dump_member ascii f p @ newline_indent ind l @ CHR ''}'' # s) =
    json_run (HaveVal (snd p), FKey acc (fst p) # fs) (newline_indent ind l @ CHR ''}'' # s)"
    by (rule run_member [OF 2(2)]) (rule 2(4), simp_all add: tail_ok_newline)
  then show ?case
    by (simp add: new json_run_ws json_run_token [of _ "TPunct (CHR ''}'')"])
next
  case (3 p q d)
  let ?rest = "join_str (item_sep ind k) (map (dump_member ascii f) (q # d)) @
    newline_indent ind l @ CHR ''}'' # s"
  have new: "dict_set (fst p) (snd p) acc = acc @ [p]"
    using 3(5) by (intro trans [OF dict_set_new]) (auto simp: dict_ok_def)
  have "json_run (m, FObj acc # fs) (dump_member ascii f p @ item_sep ind k @ ?rest) =
    json_run (HaveVal (snd p), FKey acc (fst p) # fs) (item_sep ind k @ ?rest)"
    by (rule run_member [OF 3(4)]) (rule 3(6), simp_all)
  also have "\<dots> = json_run (WantKey, FObj (acc @ [p]) # fs) ?rest"
    by (rule run_comma) (simp add: new)
  also have "\<dots> = json_run (HaveVal (PDict ((acc @ [p]) @ q # d)), fs) s"
    using 3(5) by (intro 3(2)) (auto intro: 3(6))
  finally show ?case by simp
qed

lemma json_dump_dict:
  "json_dump ascii ind l (PDict d) =
     (if d = [] then ''{}''
      else CHR ''{'' # newline_indent ind (Suc l)
             @ join_str (item_sep ind (Suc l))
                 (map (dump_member ascii (json_dump ascii ind (Suc l))) d)
             @ newline_indent ind l @ ''}'')"
  by (simp add: dump_member_def cong: map_cong)

lemma next_token_literal:
  "next_token (''null'' @ s) = Some (TScalar (Inr PNone), s)"
  "next_token (''true'' @ s) = Some (TScalar (Inr (PBool True)), s)"
  "next_token (''false'' @ s) = Some (TScalar (Inr (PBool False)), s)"
  by (simp_all add: next_token_def is_json_ws_def is_dec_def dq_char_def ord_of_def lex_word_def
      json_literals_def startswith_def)

lemma run_dump:
  "json_ok v \<Longrightarrow> at_value m fs \<Longrightarrow> tail_ok s \<Longrightarrow>
     json_run (m, fs) (json_dump ascii ind l v @ s) = json_run (HaveVal v, fs) s"
proof (induction ascii ind l v arbitrary: m fs s rule: json_dump.induct)
  case (1 ascii ind l)
  then show ?case by (intro run_scalar) (simp_all add: next_token_literal [simplified])
next
  case (2 ascii ind l b)
  then show ?case by (intro run_scalar) (auto simp: next_token_literal [simplified])
next
  case (3 ascii ind l i)
  then show ?case by (intro run_scalar) (simp_all add: next_token_show_int)
next
  case (4 ascii ind l m' k)
  then show ?case by (intro run_scalar) (simp_all only: json_dump.simps next_token_show_float)
next
  case (5 ascii ind l x)
  show ?case
    by (rule json_run_token [of _ "TStr (Inr x)"])
      (use 5 in \<open>simp_all add: at_value_step json_value_def\<close>)
next
  case (6 ascii ind l vs)
  have open_step: "json_run (m, fs) (CHR ''['' # u) = json_run (WantValOrEnd, FArr [] # fs) u" for u
    by (rule json_run_token [of _ "TPunct (CHR ''['')"])
      (use 6(3) in \<open>simp_all add: at_value_step json_value_def\<close>)
  show ?case
  proof (cases "vs = []")
    case True
    then show ?thesis by (simp add: open_step json_run_token [of _ "TPunct (CHR '']'')"])
  next
    case False
    have "json_run (WantValOrEnd, FArr [] # fs)
        (join_str (item_sep ind (Suc l)) (map (json_dump ascii ind (Suc l)) vs) @
          newline_indent ind l @ CHR '']'' # s) = json_run (HaveVal (PList ([] @ vs)), fs) s"
      by (rule run_items) (use False 6 in \<open>auto simp: at_value_def list_all_iff\<close>)
    with False show ?thesis by (simp add: open_step json_run_ws)
  qed
next
  case (7 ascii ind l d)
  have open_step: "json_run (m, fs) (CHR ''{'' # u) = json_run (WantKeyOrEnd, FObj [] # fs) u" for u
    by (rule json_run_token [of _ "TPunct (CHR ''{'')"])
      (use 7(3) in \<open>simp_all add: at_value_step json_value_def\<close>)
  show ?case
  proof (cases "d = []")
    case True
    then show ?thesis by (simp add: open_step json_run_token [of _ "TPunct (CHR ''}'')"])
  next
    case False
    have "json_run (WantKeyOrEnd, FObj [] # fs)
        (join_str (item_sep ind (Suc l)) (map (dump_member ascii (json_dump ascii ind (Suc l))) d) @
          newline_indent ind l @ CHR ''}'' # s) = json_run (HaveVal (PDict ([] @ d)), fs) s"
      by (rule run_members) (use False 7 in \<open>auto simp: list_all_iff\<close>)
    with False show ?thesis
      by (simp only: json_dump_dict if_False append.simps append_assoc open_step json_run_ws
          ws_newline_indent)
  qed
qed

theorem json_roundtrip: "json_ok v \<Longrightarrow> json_loads (json_dumps ascii ind v) = Inr v"
  using run_dump [of v WantVal "[]" "[]" ascii ind 0]
  by (simp add: json_loads_def json_dumps_def json_run.simps [of _ "[]"] next_token_def)

section \<open>What loading may raise\<close>

definition json_error :: "exc \<Rightarrow> bool" where
  "json_error e \<longleftrightarrow> is_value_error e \<or> e = OutOfModel"

definition token_errors_ok :: "tok \<Rightarrow> bool" where
  "token_errors_ok t \<longleftrightarrow>
     (case t of
        TPunct c \<Rightarrow> True
      | TStr r \<Rightarrow> (\<forall>e. r = Inl e \<longrightarrow> json_error e)
      | TScalar r \<Rightarrow> (\<forall>e. r = Inl e \<longrightarrow> json_error e))"

lemma json_error_simps [simp]: "json_error JSONDecodeError" "json_error OutOfModel" "json_error (ValueError m)"
  by (simp_all add: json_error_def)

lemma unescape_error: "unescape s = Inl e \<Longrightarrow> json_error e"
  by (auto simp: unescape_def split: list.splits if_splits option.splits)

lemma push_char_Inl: "push_char c r = Inl e \<longleftrightarrow> r = Inl e"
  by (auto simp: push_char_def split: sum.splits)

lemma scan_string_error: "scan_string s = Inl e \<Longrightarrow> json_error e"
  by (induction s rule: scan_string.induct)
    (auto simp: push_char_Inl split: if_splits sum.splits prod.splits dest: unescape_error)

lemma lex_number_errors: "token_errors_ok (fst (lex_number neg s))"
  by (auto simp: lex_number_def token_errors_ok_def bind_res_eq_Inl split: prod.split
      dest!: int_of_token_error)

lemma lex_word_errors: "token_errors_ok (fst (lex_word s))"
  by (auto simp: lex_word_def json_literals_def token_errors_ok_def)

lemma next_token_errors: "next_token s = Some (t, r) \<Longrightarrow> token_errors_ok t"
  using lex_number_errors [of False] lex_number_errors [of True] lex_word_errors
  by (auto simp: next_token_def token_errors_ok_def [of "TPunct _"] token_errors_ok_def [of "TStr _"]
      dest: scan_string_error split: list.splits if_splits sum.splits prod.splits) (metis fst_conv)+

lemma json_value_error: "json_value fs t = Inl e \<Longrightarrow> token_errors_ok t \<Longrightarrow> json_error e"
  by (auto simp: json_value_def token_errors_ok_def bind_res_eq_Inl split: tok.splits if_splits)

lemma json_key_error: "json_key fs t = Inl e \<Longrightarrow> token_errors_ok t \<Longrightarrow> json_error e"
  by (auto simp: json_key_def token_errors_ok_def bind_res_eq_Inl split: tok.splits)

lemma json_step_error: "json_step st t = Inl e \<Longrightarrow> token_errors_ok t \<Longrightarrow> json_error e"
  by (cases "(st, t)" rule: json_step.cases)
    (auto split: list.splits jframe.splits if_splits dest: json_value_error json_key_error)

lemma json_run_error: "json_run st s = Inl e \<Longrightarrow> json_error e"
proof (induction st s rule: json_run.induct)
  case (1 st s)
  show ?case
  proof (cases "next_token s")
    case None
    then show ?thesis using 1(2) by (simp add: json_run.simps [of st])
  next
    case (Some p)
    obtain t r where p: "p = (t, r)" by fastforce
    show ?thesis
    proof (cases "json_step st t")
      case (Inl e')
      then show ?thesis
        using 1(2) Some p by (simp add: json_run.simps [of st] json_step_error next_token_errors)
    next
      case (Inr st')
      then have "json_run st' r = Inl e" using 1(2) Some p by (simp add: json_run.simps [of st])
      then show ?thesis using 1(1) [OF Some p [symmetric]] Inr by blast
    qed
  qed
qed

lemma json_loads_error: "json_loads s = Inl e \<Longrightarrow> is_value_error e \<or> e = OutOfModel"
proof -
  assume a: "json_loads s = Inl e"
  show ?thesis
  proof (cases "json_run (WantVal, []) s")
    case (Inl e')
    with a show ?thesis by (auto simp: json_loads_def json_error_def dest: json_run_error)
  next
    case (Inr st)
    obtain m fs where "st = (m, fs)" by fastforce
    with a Inr show ?thesis by (cases m; cases fs) (auto simp: json_loads_def)
  qed
qed

section \<open>The string of a value\<close>

text \<open>\<open>str(v)\<close>, for the values whose rendering the modelled code depends on.\<close>

fun py_str :: "pyval \<Rightarrow> exc + string" where
  "py_str (PStr s) = Inr s"
| "py_str (PInt i) = Inr (show_int i)"
| "py_str (PFloat m k) = Inr (show_float m k)"
| "py_str (PBool b) = Inr (if b then ''True'' else ''False'')"
| "py_str PNone = Inr ''None''"
| "py_str _ = Inl OutOfModel"

end
