(* ===== verification/PyIp.thy ===== *)
theory PyIp
  imports PyVal "HOL-Library.Word"
begin

text \<open>
  The \<open>ipaddress\<close> module as the code uses it: addresses are machine words, a network is its
  masked base address with a prefix length, and membership is the masked comparison the library
  makes. Parsing accepts what CPython accepts: four decimal octets without leading zeros; IPv6 with
  one \<open>::\<close>, an optional IPv4 tail and an optional scope id; a prefix length, or for IPv4 a
  dotted netmask or hostmask.
\<close>

unbundle bit_operations_syntax

section \<open>Addresses\<close>

datatype ip_addr = IP4 "32 word" | IP6 "128 word"

definition parse_octet :: "string \<Rightarrow> nat option" where
  "parse_octet s =
     (if s \<noteq> [] \<and> list_all is_dec s \<and> length s \<le> 3 \<and> (s = ''0'' \<or> hd s \<noteq> CHR ''0'')
         \<and> dec_value s \<le> 255
      then Some (dec_value s) else None)"

definition octets_word :: "nat \<Rightarrow> nat \<Rightarrow> nat \<Rightarrow> nat \<Rightarrow> 32 word" where
  "octets_word a b c d = word_of_int (((int a * 256 + int b) * 256 + int c) * 256 + int d)"

definition parse_ip4 :: "string \<Rightarrow> 32 word option" where
  "parse_ip4 s =
     (case map parse_octet (split_char (CHR ''.'') s) of
        [Some a, Some b, Some c, Some d] \<Rightarrow> Some (octets_word a b c d)
      | _ \<Rightarrow> None)"

definition hex_digit :: "char \<Rightarrow> nat option" where
  "hex_digit c =
     (let n = ord_of c
      in if 48 \<le> n \<and> n \<le> 57 then Some (n - 48)
         else if 97 \<le> n \<and> n \<le> 102 then Some (n - 87)
         else if 65 \<le> n \<and> n \<le> 70 then Some (n - 55) else None)"

definition parse_hextet :: "string \<Rightarrow> 128 word option" where
  "parse_hextet s =
     (if s = [] \<or> 4 < length s then None
      else map_option (foldl (\<lambda>n d. 16 * n + word_of_nat d) 0) (those (map hex_digit s)))"

fun show_hex :: "nat \<Rightarrow> string" where
  "show_hex n =
     (let d = n mod 16; c = char_of (if d < 10 then 48 + d else 87 + d)
      in if n < 16 then [c] else show_hex (n div 16) @ [c])"

declare show_hex.simps [simp del]

definition ip6_assemble :: "string list \<Rightarrow> nat \<Rightarrow> nat \<Rightarrow> nat \<Rightarrow> 128 word option" where
  "ip6_assemble parts hi skipped lo =
     (case (those (map parse_hextet (take hi parts)),
            those (map parse_hextet (drop (length parts - lo) parts))) of
        (Some hs, Some ls) \<Rightarrow>
          let shift = foldl (\<lambda>n h. push_bit 16 n OR h)
          in Some (shift (push_bit (16 * skipped) (shift 0 hs)) ls)
      | _ \<Rightarrow> None)"

definition ip6_of_parts :: "string list \<Rightarrow> 128 word option" where
  "ip6_of_parts parts =
     (case filter (\<lambda>i. parts ! i = []) [1..<length parts - 1] of
        [] \<Rightarrow> if length parts = 8 then ip6_assemble parts 8 0 0 else None
      | [i] \<Rightarrow>
          let hi = (if hd parts = [] then i - 1 else i);
              lo = (if last parts = [] then length parts - i - 2 else length parts - i - 1)
          in if hd parts = [] \<and> hi \<noteq> 0 \<or> last parts = [] \<and> lo \<noteq> 0 \<or> 8 \<le> hi + lo then None
             else ip6_assemble parts hi (8 - (hi + lo)) lo
      | _ \<Rightarrow> None)"

definition parse_ip6_text :: "string \<Rightarrow> 128 word option" where
  "parse_ip6_text s =
     (let parts = split_char (CHR '':'') s
      in if length parts < 3 then None
         else if CHR ''.'' \<in> set (last parts) then
           (case parse_ip4 (last parts) of
              None \<Rightarrow> None
            | Some v \<Rightarrow>
                let ps = butlast parts @ [show_hex (unat (drop_bit 16 v)), show_hex (unat (v AND 0xFFFF))]
                in if 9 < length ps then None else ip6_of_parts ps)
         else if 9 < length parts then None
         else ip6_of_parts parts)"

text \<open>\<open>IPv6Address(s)\<close>: the address and its scope id.\<close>

definition parse_ip6 :: "string \<Rightarrow> (128 word \<times> string option) option" where
  "parse_ip6 s =
     (if CHR ''/'' \<in> set s then None
      else (case partition_char (CHR ''%'') s of
              None \<Rightarrow> map_option (\<lambda>a. (a, None)) (parse_ip6_text s)
            | Some (a, sid) \<Rightarrow>
                if sid = [] \<or> CHR ''%'' \<in> set sid then None
                else map_option (\<lambda>a. (a, Some sid)) (parse_ip6_text a)))"

definition ip_address :: "string \<Rightarrow> ip_addr option" where
  "ip_address s =
     (case parse_ip4 s of
        Some a \<Rightarrow> Some (IP4 a)
      | None \<Rightarrow> map_option (IP6 \<circ> fst) (parse_ip6 s))"

section \<open>Networks\<close>

definition netmask :: "nat \<Rightarrow> 'a::len word" where
  "netmask p = NOT (mask (LENGTH('a) - p))"

datatype ip_net = Net4 "32 word" nat | Net6 "128 word" nat "string option"

definition parse_prefix :: "nat \<Rightarrow> string \<Rightarrow> nat option" where
  "parse_prefix limit s =
     (case unsigned_int s of
        Inl _ \<Rightarrow> None
      | Inr n \<Rightarrow> if n \<le> limit then Some n else None)"

definition prefix_of_mask :: "32 word \<Rightarrow> nat option" where
  "prefix_of_mask m = find (\<lambda>p. netmask p = m) [0..<33]"

definition parse_mask4 :: "string \<Rightarrow> nat option" where
  "parse_mask4 s =
     (case parse_prefix 32 s of
        Some p \<Rightarrow> Some p
      | None \<Rightarrow>
          (case parse_ip4 s of
             None \<Rightarrow> None
           | Some m \<Rightarrow> (case prefix_of_mask m of Some p \<Rightarrow> Some p | None \<Rightarrow> prefix_of_mask (NOT m))))"

definition net4 :: "string \<Rightarrow> nat option \<Rightarrow> ip_net option" where
  "net4 a m =
     (case (parse_ip4 a, m) of
        (Some w, Some p) \<Rightarrow> Some (Net4 (w AND netmask p) p)
      | _ \<Rightarrow> None)"

definition net6 :: "string \<Rightarrow> nat option \<Rightarrow> ip_net option" where
  "net6 a m =
     (case (parse_ip6 a, m) of
        (Some (w, sid), Some p) \<Rightarrow>
          Some (Net6 (w AND netmask p) p (if w AND netmask p = w then sid else None))
      | _ \<Rightarrow> None)"

definition or_else :: "'a option \<Rightarrow> 'a option \<Rightarrow> 'a option" where
  "or_else x y = (case x of None \<Rightarrow> y | Some _ \<Rightarrow> x)"

text \<open>\<open>ip_network(s, strict=False)\<close>; \<open>None\<close> is the \<open>ValueError\<close>.\<close>

definition ip_network :: "string \<Rightarrow> ip_net option" where
  "ip_network s =
     (case split_char (CHR ''/'') s of
        [a] \<Rightarrow> or_else (net4 a (Some 32)) (net6 a (Some 128))
      | [a, m] \<Rightarrow> or_else (net4 a (parse_mask4 m)) (net6 a (parse_prefix 128 m))
      | _ \<Rightarrow> None)"

text \<open>\<open>address in network\<close>.\<close>

fun in_network :: "ip_addr \<Rightarrow> ip_net \<Rightarrow> bool" where
  "in_network (IP4 a) (Net4 n p) = (a AND netmask p = n)"
| "in_network (IP6 a) (Net6 n p sid) = (a AND netmask p = n)"
| "in_network _ _ = False"

fun net_ok :: "ip_net \<Rightarrow> bool" where
  "net_ok (Net4 n p) = (p \<le> 32 \<and> n AND netmask p = n)"
| "net_ok (Net6 n p sid) = (p \<le> 128 \<and> n AND netmask p = n)"

lemma masked_eq_iff:
  fixes a b :: "'a::len word"
  assumes "p \<le> LENGTH('a)"
  shows "a AND netmask p = b AND netmask p \<longleftrightarrow>
    drop_bit (LENGTH('a) - p) a = drop_bit (LENGTH('a) - p) b"
proof
  assume l: "a AND netmask p = b AND netmask p"
  show "drop_bit (LENGTH('a) - p) a = drop_bit (LENGTH('a) - p) b"
  proof (rule bit_word_eqI)
    fix n assume n: "n < LENGTH('a)"
    have "bit (a AND netmask p) (LENGTH('a) - p + n) = bit (b AND netmask p) (LENGTH('a) - p + n)"
      using l by simp
    then show "bit (drop_bit (LENGTH('a) - p) a) n = bit (drop_bit (LENGTH('a) - p) b) n"
      by (auto simp: netmask_def bit_simps dest: bit_imp_le_length)
  qed
next
  assume r: "drop_bit (LENGTH('a) - p) a = drop_bit (LENGTH('a) - p) b"
  show "a AND netmask p = b AND netmask p"
  proof (rule bit_word_eqI)
    fix n assume n: "n < LENGTH('a)"
    have "bit (drop_bit (LENGTH('a) - p) a) (n - (LENGTH('a) - p)) =
      bit (drop_bit (LENGTH('a) - p) b) (n - (LENGTH('a) - p))"
      using r by simp
    then show "bit (a AND netmask p) n = bit (b AND netmask p) n"
      using n by (auto simp: netmask_def bit_simps)
  qed
qed

lemma net_ok_masked:
  "p \<le> 32 \<Longrightarrow> net_ok (Net4 (w AND netmask p) p)"
  "p \<le> 128 \<Longrightarrow> net_ok (Net6 (v AND netmask p) p sid)"
  by (simp_all add: and.assoc)

lemma parse_prefix_le: "parse_prefix limit s = Some p \<Longrightarrow> p \<le> limit"
  by (auto simp: parse_prefix_def split: sum.splits if_splits)

lemma prefix_of_mask_le: "prefix_of_mask m = Some p \<Longrightarrow> p \<le> 32"
  by (auto simp: prefix_of_mask_def dest!: find_Some_set)

lemma parse_mask4_le: "parse_mask4 s = Some p \<Longrightarrow> p \<le> 32"
  by (auto simp: parse_mask4_def parse_prefix_le prefix_of_mask_le split: option.splits)

theorem ip_network_ok: "ip_network s = Some n \<Longrightarrow> net_ok n"
  by (auto simp: ip_network_def or_else_def net4_def net6_def and.assoc parse_mask4_le
      parse_prefix_le [of 128] split: list.splits option.splits)

section \<open>Printing\<close>

definition show_ip4 :: "32 word \<Rightarrow> string" where
  "show_ip4 w =
     join_str ''.'' (map (\<lambda>k. show_nat (unat (drop_bit k w AND 255))) [24, 16, 8, 0])"

text \<open>The longest run of zero hextets: the loop state is best start, best length, start, length.\<close>

type_synonym zero_run = "nat option \<times> nat \<times> nat option \<times> nat"

fun zero_run_step :: "zero_run \<Rightarrow> nat \<times> string \<Rightarrow> zero_run" where
  "zero_run_step (bs, bl, st, l) (i, h) =
     (if h = ''0'' then
        let st' = (case st of None \<Rightarrow> Some i | Some j \<Rightarrow> Some j); l' = Suc l
        in if bl < l' then (st', l', st', l') else (bs, bl, st', l')
      else (bs, bl, None, 0))"

definition compress_hextets :: "string list \<Rightarrow> string list" where
  "compress_hextets hs =
     (case foldl zero_run_step (None, 0, None, 0) (enumerate 0 hs) of
        (Some b, bl, _, _) \<Rightarrow>
          if 1 < bl
          then (if b = 0 then [[]] else []) @ take b hs @ [[]] @ drop (b + bl) hs
                 @ (if b + bl = length hs then [[]] else [])
          else hs
      | _ \<Rightarrow> hs)"

definition show_ip6 :: "128 word \<Rightarrow> string" where
  "show_ip6 w =
     join_str '':'' (compress_hextets
       (map (\<lambda>i. show_hex (unat (drop_bit (16 * (7 - i)) w AND 0xFFFF))) [0..<8]))"

fun show_net :: "ip_net \<Rightarrow> string" where
  "show_net (Net4 n p) = show_ip4 n @ ''/'' @ show_nat p"
| "show_net (Net6 n p sid) =
     show_ip6 n @ (case sid of None \<Rightarrow> [] | Some s \<Rightarrow> ''%'' @ s) @ ''/'' @ show_nat p"

lemma parse_octet_show_nat: "n < 256 \<Longrightarrow> parse_octet (show_nat n) = Some n"
  using length_show_nat [of n 3] hd_show_nat [of n]
  by (cases "n = 0") (auto simp: parse_octet_def show_nat_0 simp flip: show_nat_0)

lemma no_dot_show_nat [simp]: "CHR ''.'' \<notin> set (show_nat n)"
  using show_nat_dec [of "CHR ''.''" n] by (auto simp: is_dec_def ord_of_def)

lemma octet_of_word: "unat (drop_bit k w AND 255 :: 32 word) = nat (uint w div 2 ^ k mod 256)"
proof -
  have "(255 :: 32 word) = mask 8" by (simp add: mask_eq_exp_minus_1)
  then have "drop_bit k w AND 255 = take_bit 8 (drop_bit k w)" by (simp add: take_bit_eq_mask)
  moreover have "uint (take_bit 8 (drop_bit k w)) = uint w div 2 ^ k mod 256"
    by (simp only: unsigned_take_bit_eq unsigned_drop_bit_eq)
      (use uint_lt2p [of w] in \<open>simp add: take_bit_eq_mod drop_bit_eq_div mod_pos_pos_trivial\<close>)
  ultimately show ?thesis by (simp flip: nat_uint_eq)
qed

lemma base256_digits:
  fixes n :: int
  assumes "0 \<le> n" and "n < 4294967296"
  shows "((n div 2 ^ 24 mod 256 * 256 + n div 2 ^ 16 mod 256) * 256 + n div 2 ^ 8 mod 256) * 256
      + n div 2 ^ 0 mod 256 = n"
proof -
  define a b c where "a = n div 256" and "b = a div 256" and "c = b div 256"
  have divs: "n div 65536 = b" "n div 16777216 = c"
    by (simp_all add: a_def b_def c_def flip: zdiv_zmult2_eq)
  have "c mod 256 = c" using assms by (simp flip: divs(2))
  moreover have "n = 256 * a + n mod 256" "a = 256 * b + a mod 256" "b = 256 * c + b mod 256"
    by (simp_all add: a_def b_def c_def)
  ultimately show ?thesis by (simp add: divs flip: a_def)
qed

lemma ip4_roundtrip: "parse_ip4 (show_ip4 w) = Some w"
proof -
  let ?o = "\<lambda>k. nat (uint w div 2 ^ k mod 256)"
  have ints: "int (?o k) = uint w div 2 ^ k mod 256" for k
    by simp
  have "uint w < 4294967296" using uint_lt2p [of w] by simp
  then have "octets_word (?o 24) (?o 16) (?o 8) (?o 0) = w"
    unfolding octets_word_def ints by (simp only: base256_digits uint_ge_0 word_of_int_uint)
  moreover have "parse_octet (show_nat (?o k)) = Some (?o k)" for k
    by (rule parse_octet_show_nat) simp
  ultimately show ?thesis
    by (simp only: parse_ip4_def show_ip4_def octet_of_word list.map join_str.simps append.simps
        split_char_append split_char_no_sep no_dot_show_nat append_Cons append_Nil
        not_False_eq_True) simp
qed

end
