(* ===== verification/Scope.thy ===== *)
theory Scope
  imports PyJson PyIp
begin

text \<open>
  \<open>core/scope.py\<close>: the scope file (a strict YAML subset, or JSON), its validation, and the
  enforcer that decides whether a target or a port is authorised. The file system is a function
  from paths to the text read or the exception raised, the environment variable an option.
\<close>

section \<open>The configuration\<close>

record scope_config =
  cfg_domains :: "string list"
  cfg_cidrs :: "string list"
  cfg_ports :: "int list"

definition is_empty :: "scope_config \<Rightarrow> bool" where
  "is_empty c \<longleftrightarrow> \<not> (cfg_domains c \<noteq> [] \<or> cfg_cidrs c \<noteq> [])"

definition SCOPE_KEYS :: "string list" where
  "SCOPE_KEYS = [''domains'', ''cidrs'', ''ports'', ''rate_limit'']"

definition NESTED_SCOPE_KEYS :: "string list" where
  "NESTED_SCOPE_KEYS = [''rate_limit'']"

section \<open>The enforcer\<close>

record scope_enforcer =
  networks :: "ip_net list"
  allowed_domains :: "string list"
  allowed_ports :: "int list"
  scope_source :: string

definition norm_domain :: "string \<Rightarrow> string" where
  "norm_domain s = rstrip_dots (lower (strip s))"

definition parse_network :: "string \<Rightarrow> exc + ip_net" where
  "parse_network s =
     (case ip_network s of
        None \<Rightarrow> Inl (ValueError ''does not appear to be an IPv4 or IPv6 network'')
      | Some n \<Rightarrow> Inr n)"

definition mk_enforcer ::
  "string list \<Rightarrow> string list \<Rightarrow> int list \<Rightarrow> string \<Rightarrow> exc + scope_enforcer" where
  "mk_enforcer cidr_list domain_list ps src =
     bind_res (map_res parse_network cidr_list)
       (\<lambda>nets. Inr \<lparr>networks = nets, allowed_domains = map norm_domain domain_list, allowed_ports = ps,
                     scope_source = src\<rparr>)"

definition is_target_allowed :: "scope_enforcer \<Rightarrow> string \<Rightarrow> bool" where
  "is_target_allowed e target =
     (let name = norm_domain target
      in if name = [] then False
         else (case ip_address name of
                 None \<Rightarrow>
                   if allowed_domains e = [] then False
                   else list_ex (\<lambda>d. name = d \<or> endswith (CHR ''.'' # d) name) (allowed_domains e)
               | Some a \<Rightarrow> list_ex (in_network a) (networks e)))"

definition check :: "scope_enforcer \<Rightarrow> string \<Rightarrow> exc + unit" where
  "check e target =
     (if is_target_allowed e target then Inr ()
      else Inl (ScopeError ''target is outside the authorized scope'' None))"

definition check_ports :: "scope_enforcer \<Rightarrow> int list \<Rightarrow> exc + unit" where
  "check_ports e ps =
     (if allowed_ports e = [] then Inr ()
      else if filter (\<lambda>p. p \<notin> set (allowed_ports e)) ps \<noteq> []
      then Inl (ScopeError ''ports are outside the authorized scope'' None)
      else Inr ())"

definition describe :: "scope_enforcer \<Rightarrow> string" where
  "describe e =
     (let parts =
        (if networks e \<noteq> [] then [''cidrs='' @ join_str '','' (map show_net (networks e))] else []) @
        (if allowed_domains e \<noteq> [] then [''domains='' @ join_str '','' (allowed_domains e)] else []) @
        (if allowed_ports e \<noteq> [] then [''ports='' @ join_str '','' (map show_int (allowed_ports e))] else []);
        s = join_str ''; '' parts
      in if s = [] then ''empty allowlist (deny all)'' else s)"

section \<open>Validation of the parsed document\<close>

definition scope_error :: "string \<Rightarrow> exc + 'a" where
  "scope_error msg = Inl (ScopeError msg None)"

lemma scope_error_simps [simp]:
  "scope_error m \<noteq> Inr x" "Inr x \<noteq> scope_error m"
  "scope_error m = Inl e \<longleftrightarrow> e = ScopeError m None"
  "Inl e = scope_error m \<longleftrightarrow> e = ScopeError m None"
  by (auto simp: scope_error_def)

fun is_str :: "pyval \<Rightarrow> bool" where
  "is_str (PStr _) = True"
| "is_str _ = False"

fun str_of :: "pyval \<Rightarrow> string" where
  "str_of (PStr s) = s"
| "str_of _ = []"

fun strings_of :: "pyval \<Rightarrow> exc + string list" where
  "strings_of (PList vs) =
     (if \<not> list_all is_str vs then scope_error ''must be a list of strings''
      else
        let cleaned = map (strip \<circ> str_of) vs
        in if list_ex (\<lambda>v. v = []) cleaned then scope_error ''contains an empty entry''
           else if list_ex (\<lambda>v. v = ''*'') cleaned
           then scope_error ''would authorize every target''
           else Inr cleaned)"
| "strings_of _ = scope_error ''must be a list of strings''"

fun port_of :: "pyval \<Rightarrow> exc + int" where
  "port_of (PInt i) =
     (if 1 \<le> i \<and> i \<le> 65535 then Inr i else scope_error ''port is out of range'')"
| "port_of _ = scope_error ''port is not an integer''"

fun ports_of :: "pyval \<Rightarrow> exc + int list" where
  "ports_of (PList vs) = map_res port_of vs"
| "ports_of _ = scope_error ''ports must be a list of integers''"

fun rate_value_ok :: "pyval \<Rightarrow> exc + unit" where
  "rate_value_ok (PInt i) = (if i < 0 then scope_error ''rate_limit cannot be negative'' else Inr ())"
| "rate_value_ok (PFloat m k) =
     (if m < 0 then scope_error ''rate_limit cannot be negative'' else Inr ())"
| "rate_value_ok _ = scope_error ''rate_limit must be a number''"

fun rate_limit_ok :: "pyval \<Rightarrow> exc + unit" where
  "rate_limit_ok (PDict d) = bind_res (map_res (rate_value_ok \<circ> snd) d) (\<lambda>_. Inr ())"
| "rate_limit_ok _ = scope_error ''rate_limit must be a mapping''"

definition validate_body :: "pydict \<Rightarrow> exc + scope_config" where
  "validate_body body =
     (if \<not> list_all (\<lambda>k. k \<in> set SCOPE_KEYS) (dict_keys body) then scope_error ''unsupported keys''
      else
        bind_res (strings_of (dget_or body ''domains'' (PList []))) (\<lambda>ds.
        bind_res (strings_of (dget_or body ''cidrs'' (PList []))) (\<lambda>cs.
        bind_res (ports_of (dget_or body ''ports'' (PList []))) (\<lambda>ps.
        bind_res (rate_limit_ok (dget_or body ''rate_limit'' (PDict []))) (\<lambda>_.
        Inr \<lparr>cfg_domains = map (\<lambda>d. rstrip_dots (lower d)) ds, cfg_cidrs = cs, cfg_ports = ps\<rparr>)))))"

fun validate_document :: "pyval \<Rightarrow> exc + scope_config" where
  "validate_document (PDict d) =
     (if set (dict_keys d) \<noteq> {''scope''}
      then scope_error ''expected a single top-level scope key''
      else (case dget d ''scope'' of
              PDict body \<Rightarrow> validate_body body
            | _ \<Rightarrow> scope_error ''scope must be a mapping''))"
| "validate_document _ = scope_error ''expected a single top-level scope key''"

section \<open>The YAML subset\<close>

text \<open>The part of a token before the first space followed by a hash, when there is one.\<close>

fun cut_comment :: "string \<Rightarrow> string" where
  "cut_comment [] = []"
| "cut_comment (c # s) = (if c = CHR '' '' \<and> startswith ''#'' s then [] else c # cut_comment s)"

definition scalar :: "string \<Rightarrow> nat \<Rightarrow> exc + pyval" where
  "scalar token lineno =
     (case token of
        [] \<Rightarrow> Inl (ScopeError ''empty value'' (Some lineno))
      | q # _ \<Rightarrow>
          if q = dq_char \<or> q = CHR 0x27 then
            (if length token < 2 \<or> last token \<noteq> q
             then Inl (ScopeError ''unterminated quote'' (Some lineno))
             else Inr (PStr (butlast (tl token))))
          else
            let token = (if contains '' #'' token then rstrip (cut_comment token) else token)
            in if looks_like_int token then bind_res (int_of_token token) (\<lambda>i. Inr (PInt i))
               else Inr (PStr token))"

record yaml_state =
  ybody :: pydict
  seen_scope :: bool
  cur_key :: "string option"

definition line_error :: "nat \<Rightarrow> string \<Rightarrow> exc + 'a" where
  "line_error lineno msg = Inl (ScopeError msg (Some lineno))"

definition yaml_key :: "yaml_state \<Rightarrow> nat \<Rightarrow> nat \<Rightarrow> string \<Rightarrow> exc + yaml_state" where
  "yaml_key st lineno indent stripped =
     (if indent \<noteq> 2 then line_error lineno ''keys must be indented two spaces''
      else
        let key = strip (butlast stripped)
        in if key \<notin> set SCOPE_KEYS then line_error lineno ''unsupported key''
           else if key \<in> set (dict_keys (ybody st)) then line_error lineno ''duplicate key''
           else Inr (st\<lparr>ybody := dict_set key
                          (if key \<in> set NESTED_SCOPE_KEYS then PDict [] else PList []) (ybody st),
                        cur_key := Some key\<rparr>))"

definition yaml_nested :: "yaml_state \<Rightarrow> string \<Rightarrow> nat \<Rightarrow> nat \<Rightarrow> string \<Rightarrow> exc + yaml_state" where
  "yaml_nested st cur lineno indent stripped =
     (if indent \<noteq> 4 then line_error lineno ''nested keys must be indented four spaces''
      else (case partition_char (CHR '':'') stripped of
              None \<Rightarrow> line_error lineno ''expected key: value''
            | Some (k, value) \<Rightarrow>
                let sub = strip k
                in if sub = [] then line_error lineno ''expected key: value''
                   else (case dget (ybody st) cur of
                           PDict d \<Rightarrow>
                             if sub \<in> set (dict_keys d) then line_error lineno ''duplicate key''
                             else bind_res (scalar (strip value) lineno) (\<lambda>v.
                                    Inr (st\<lparr>ybody := dict_set cur (PDict (dict_set sub v d)) (ybody st)\<rparr>))
                         | _ \<Rightarrow> Inl (TypeError ''not a mapping''))))"

definition yaml_item :: "yaml_state \<Rightarrow> nat \<Rightarrow> nat \<Rightarrow> string \<Rightarrow> exc + yaml_state" where
  "yaml_item st lineno indent stripped =
     (if \<not> startswith ''- '' stripped then line_error lineno ''expected a list item''
      else if indent \<noteq> 4 then line_error lineno ''list items must be indented four spaces''
      else (case cur_key st of
              None \<Rightarrow> line_error lineno ''list item before any key''
            | Some cur \<Rightarrow>
                (case dget (ybody st) cur of
                   PList vs \<Rightarrow>
                     bind_res (scalar (strip (drop 2 stripped)) lineno) (\<lambda>v.
                       Inr (st\<lparr>ybody := dict_set cur (PList (vs @ [v])) (ybody st)\<rparr>))
                 | _ \<Rightarrow> Inl (TypeError ''not a list''))))"

definition yaml_line :: "yaml_state \<Rightarrow> nat \<times> string \<Rightarrow> exc + yaml_state" where
  "yaml_line st nl =
     (case nl of (lineno, raw) \<Rightarrow>
        let line = rstrip raw;
            stripped = strip line
        in if stripped = [] \<or> startswith ''#'' stripped then Inr st
           else
             let indent = length (takeWhile (\<lambda>c. c = CHR '' '') line)
             in if indent = 0 then
                  (if stripped \<noteq> ''scope:'' then line_error lineno ''expected scope: at column 0''
                   else if seen_scope st then line_error lineno ''duplicate scope:''
                   else Inr (st\<lparr>seen_scope := True\<rparr>))
                else if \<not> seen_scope st
                then line_error lineno ''entry before the scope: mapping''
                else if endswith '':'' stripped then yaml_key st lineno indent stripped
                else (case cur_key st of
                        Some cur \<Rightarrow>
                          if cur \<in> set NESTED_SCOPE_KEYS
                          then yaml_nested st cur lineno indent stripped
                          else yaml_item st lineno indent stripped
                      | None \<Rightarrow> yaml_item st lineno indent stripped))"

definition yaml_init :: yaml_state where
  "yaml_init = \<lparr>ybody = [], seen_scope = False, cur_key = None\<rparr>"

definition parse_scope_yaml :: "string \<Rightarrow> exc + pyval" where
  "parse_scope_yaml text =
     bind_res (fold_res yaml_line yaml_init (enumerate 1 (splitlines text))) (\<lambda>st.
       if \<not> seen_scope st then scope_error ''missing scope: mapping''
       else Inr (PDict [(''scope'', PDict (ybody st))]))"

section \<open>Loading\<close>

definition resolve_scope_path :: "string \<Rightarrow> string option \<Rightarrow> string option \<Rightarrow> string" where
  "resolve_scope_path default_file env path =
     (case path of
        Some p \<Rightarrow> p
      | None \<Rightarrow> (case env of Some f \<Rightarrow> if f \<noteq> [] then f else default_file | None \<Rightarrow> default_file))"

text \<open>\<open>Path(p).suffix\<close>: of the last component, from its last dot, unless that dot is the
  first or the last character.\<close>

definition path_name :: "string \<Rightarrow> string" where
  "path_name p =
     (case filter (\<lambda>c. c \<noteq> [] \<and> c \<noteq> ''.'') (split_char (CHR ''/'') p) of
        [] \<Rightarrow> [] | cs \<Rightarrow> last cs)"

definition path_suffix :: "string \<Rightarrow> string" where
  "path_suffix p =
     (let name = path_name p; tail = takeWhile (\<lambda>c. c \<noteq> CHR ''.'') (rev name);
          i = length name - length tail - 1
      in if CHR ''.'' \<in> set name \<and> 0 < i \<and> tail \<noteq> [] then drop i name else [])"

definition load_scope_config :: "(string \<Rightarrow> exc + string) \<Rightarrow> string \<Rightarrow> exc + scope_config" where
  "load_scope_config read_text resolved =
     (case read_text resolved of
        Inl e \<Rightarrow> if is_os_error e then scope_error ''cannot be read'' else Inl e
      | Inr text \<Rightarrow>
          bind_res
            (if lower (path_suffix resolved) = ''.json''
             then (case json_loads text of
                     Inl e \<Rightarrow> if e = JSONDecodeError then scope_error ''is not valid JSON'' else Inl e
                   | Inr v \<Rightarrow> Inr v)
             else parse_scope_yaml text)
            validate_document)"

definition from_config ::
  "(string \<Rightarrow> exc + string) \<Rightarrow> string \<Rightarrow> string option \<Rightarrow> string option \<Rightarrow> exc + scope_enforcer" where
  "from_config read_text default_file env path =
     (let resolved = resolve_scope_path default_file env path
      in bind_res (load_scope_config read_text resolved) (\<lambda>c.
           mk_enforcer (cfg_cidrs c) (cfg_domains c) (cfg_ports c) resolved))"

section \<open>What the enforcer decides\<close>

named_theorems scope_simps \<open>how the checks of the scope component compute\<close>

lemma endswith_dot_iff: "endswith (CHR ''.'' # d) name \<longleftrightarrow> (\<exists>sub. name = sub @ CHR ''.'' # d)"
  by (simp add: endswith_iff)

lemma is_target_allowed_iff:
  "is_target_allowed e target \<longleftrightarrow>
     norm_domain target \<noteq> [] \<and>
     (case ip_address (norm_domain target) of
        None \<Rightarrow> \<exists>d\<in>set (allowed_domains e). norm_domain target = d \<or>
                  (\<exists>sub. norm_domain target = sub @ CHR ''.'' # d)
      | Some a \<Rightarrow> \<exists>n\<in>set (networks e). in_network a n)"
  by (auto simp: is_target_allowed_def Let_def list_ex_iff endswith_dot_iff split: option.splits)

lemma check_iff [scope_simps]: "check e t = Inr () \<longleftrightarrow> is_target_allowed e t"
  by (simp add: check_def)

lemma check_error: "check e t = Inl x \<Longrightarrow> is_scope_error x"
  by (auto simp: check_def split: if_splits)

lemma check_ports_iff [scope_simps]:
  "check_ports e ps = Inr () \<longleftrightarrow> allowed_ports e = [] \<or> set ps \<subseteq> set (allowed_ports e)"
  by (auto simp: check_ports_def filter_empty_conv)

lemma check_ports_error: "check_ports e ps = Inl x \<Longrightarrow> is_scope_error x"
  by (auto simp: check_ports_def split: if_splits)

lemma mk_enforcer_Inr:
  "mk_enforcer cs ds ps src = Inr e \<longleftrightarrow>
     (\<exists>nets. list_all2 (\<lambda>c n. ip_network c = Some n) cs nets \<and>
        e = \<lparr>networks = nets, allowed_domains = map norm_domain ds, allowed_ports = ps,
             scope_source = src\<rparr>)"
proof -
  have "(parse_network c = Inr n) = (ip_network c = Some n)" for c n
    by (simp add: parse_network_def split: option.splits)
  then show ?thesis by (auto simp: mk_enforcer_def bind_res_eq_Inr map_res_eq_Inr_iff)
qed

lemma mk_enforcer_nets_ok:
  assumes "mk_enforcer cs ds ps src = Inr e"
  shows "list_all net_ok (networks e)"
proof -
  obtain nets where "list_all2 (\<lambda>c n. ip_network c = Some n) cs nets" "networks e = nets"
    using assms by (auto simp: mk_enforcer_Inr)
  then show ?thesis
    by (auto simp: list_all2_conv_all_nth list_all_length intro: ip_network_ok)
qed

text \<open>The first p bits of two addresses agree.\<close>

definition same_prefix :: "nat \<Rightarrow> 'a::len word \<Rightarrow> 'a word \<Rightarrow> bool" where
  "same_prefix p a b \<longleftrightarrow> drop_bit (LENGTH('a) - p) a = drop_bit (LENGTH('a) - p) b"

lemma in_network_prefix4:
  "net_ok (Net4 n p) \<Longrightarrow> in_network (IP4 a) (Net4 n p) \<longleftrightarrow> same_prefix p a n"
  using masked_eq_iff [of p a n] by (simp add: same_prefix_def)

lemma in_network_prefix6:
  "net_ok (Net6 n p sid) \<Longrightarrow> in_network (IP6 a) (Net6 n p sid) \<longleftrightarrow> same_prefix p a n"
  using masked_eq_iff [of p a n] by (simp add: same_prefix_def)

section \<open>What validation guarantees\<close>

definition clean_entry :: "string \<Rightarrow> bool" where
  "clean_entry s \<longleftrightarrow> s \<noteq> [] \<and> s \<noteq> ''*'' \<and> strip s = s"

definition port_ok :: "int \<Rightarrow> bool" where
  "port_ok p \<longleftrightarrow> 1 \<le> p \<and> p \<le> 65535"

definition config_ok :: "scope_config \<Rightarrow> bool" where
  "config_ok c \<longleftrightarrow>
     list_all (\<lambda>d. \<exists>s. clean_entry s \<and> d = rstrip_dots (lower s)) (cfg_domains c) \<and>
     list_all clean_entry (cfg_cidrs c) \<and> list_all port_ok (cfg_ports c)"

lemma strings_of_Inr: "strings_of v = Inr ss \<Longrightarrow> list_all clean_entry ss"
  by (cases v) (auto simp: Let_def clean_entry_def list_all_iff list_ex_iff
      split: if_splits)

lemma port_of_Inr: "port_of v = Inr p \<Longrightarrow> port_ok p"
  by (cases v) (auto simp: port_ok_def split: if_splits)

lemma ports_of_Inr: "ports_of v = Inr ps \<Longrightarrow> list_all port_ok ps"
  by (cases v) (auto simp: map_res_eq_Inr_iff list_all2_conv_all_nth list_all_length
      intro: port_of_Inr)

lemma validate_body_ok: "validate_body b = Inr c \<Longrightarrow> config_ok c"
  by (auto simp: validate_body_def bind_res_eq_Inr config_ok_def list_all_iff
      split: if_splits dest!: strings_of_Inr ports_of_Inr) blast

lemma validate_document_ok: "validate_document v = Inr c \<Longrightarrow> config_ok c"
  by (cases v) (auto simp: split: if_splits pyval.splits intro: validate_body_ok)

lemma validate_error:
  "strings_of v = Inl e \<Longrightarrow> is_scope_error e"
  "ports_of v = Inl e \<Longrightarrow> is_scope_error e"
  "rate_limit_ok v = Inl e \<Longrightarrow> is_scope_error e"
proof -
  have port: "port_of v = Inl e \<Longrightarrow> is_scope_error e" for v e
    by (cases v) (auto simp: split: if_splits)
  have rate: "rate_value_ok v = Inl e \<Longrightarrow> is_scope_error e" for v e
    by (cases v) (auto simp: split: if_splits)
  show "strings_of v = Inl e \<Longrightarrow> is_scope_error e"
    by (cases v) (auto simp: Let_def split: if_splits)
  show "ports_of v = Inl e \<Longrightarrow> is_scope_error e"
    by (cases v) (auto simp: dest!: map_res_Inl intro: port)
  show "rate_limit_ok v = Inl e \<Longrightarrow> is_scope_error e"
    by (cases v) (auto simp: bind_res_eq_Inl dest!: map_res_Inl intro: rate)
qed

lemma validate_body_error: "validate_body b = Inl e \<Longrightarrow> is_scope_error e"
  by (cases "list_all (\<lambda>k. k \<in> set SCOPE_KEYS) (dict_keys b)")
    (auto simp: validate_body_def elim!: bind_res_error intro: validate_error)


lemma validate_document_error: "validate_document v = Inl e \<Longrightarrow> is_scope_error e"
  by (cases v) (auto split: if_split_asm pyval.split_asm intro: validate_body_error)

lemma load_scope_config_ok:
  "load_scope_config rd p = Inr c \<Longrightarrow> config_ok c"
  by (auto simp: load_scope_config_def bind_res_eq_Inr
      split: sum.splits if_splits intro: validate_document_ok)

section \<open>The parser's state\<close>

text \<open>
  Every key of the body is a scope key and holds the container its lines extend, and the current
  key is one of them; so the two branches that would extend the wrong kind of value are dead.
\<close>

definition container_ok :: "string \<Rightarrow> pyval \<Rightarrow> bool" where
  "container_ok k v \<longleftrightarrow>
     k \<in> set SCOPE_KEYS \<and>
     (if k \<in> set NESTED_SCOPE_KEYS then (\<exists>d. v = PDict d) else (\<exists>vs. v = PList vs))"

definition yaml_ok :: "yaml_state \<Rightarrow> bool" where
  "yaml_ok st \<longleftrightarrow>
     (\<forall>k v. dict_get (ybody st) k = Some v \<longrightarrow> container_ok k v) \<and>
     (\<forall>k. cur_key st = Some k \<longrightarrow> dict_get (ybody st) k \<noteq> None)"

lemma yaml_ok_put:
  "yaml_ok st \<Longrightarrow> container_ok k v \<Longrightarrow> yaml_ok (st\<lparr>ybody := dict_set k v (ybody st)\<rparr>)"
  by (auto simp: yaml_ok_def)

lemma yaml_ok_cur:
  "yaml_ok st \<Longrightarrow> cur_key st = Some k \<Longrightarrow> \<exists>v. dget (ybody st) k = v \<and> container_ok k v"
  by (auto simp: yaml_ok_def dget_def)

lemma line_error_simps [simp]:
  "line_error n m \<noteq> Inr x" "Inr x \<noteq> line_error n m"
  "line_error n m = Inl e \<longleftrightarrow> e = ScopeError m (Some n)"
  "Inl e = line_error n m \<longleftrightarrow> e = ScopeError m (Some n)"
  by (auto simp: line_error_def)

lemma yaml_key_ok: "yaml_key st n i s = Inr st' \<Longrightarrow> yaml_ok st \<Longrightarrow> yaml_ok st'"
proof -
  assume a: "yaml_key st n i s = Inr st'" and ok: "yaml_ok st"
  let ?k = "strip (butlast s)"
  let ?v = "if ?k \<in> set NESTED_SCOPE_KEYS then PDict [] else PList []"
  have st': "st' = st\<lparr>ybody := dict_set ?k ?v (ybody st), cur_key := Some ?k\<rparr>" "?k \<in> set SCOPE_KEYS"
    using a by (auto simp: yaml_key_def Let_def split: if_splits)
  then have "container_ok ?k ?v" by (simp add: container_ok_def)
  with ok show "yaml_ok st'" unfolding st'(1) yaml_ok_def by auto
qed

lemma yaml_nested_ok:
  assumes "yaml_nested st cur n i s = Inr st'" and "yaml_ok st" and "cur_key st = Some cur"
    and "cur \<in> set NESTED_SCOPE_KEYS"
  shows "yaml_ok st'"
proof -
  have "\<forall>d. container_ok cur (PDict d)"
    using yaml_ok_cur [OF assms(2,3)] assms(4) by (auto simp: container_ok_def)
  then show ?thesis
    using assms by (auto simp: yaml_nested_def Let_def bind_res_eq_Inr
        intro!: yaml_ok_put split: if_splits option.splits pyval.splits)
qed

lemma yaml_item_ok:
  assumes "yaml_item st n i s = Inr st'" and "yaml_ok st"
    and "\<And>cur. cur_key st = Some cur \<Longrightarrow> cur \<notin> set NESTED_SCOPE_KEYS"
  shows "yaml_ok st'"
proof -
  have "\<forall>cur vs. cur_key st = Some cur \<longrightarrow> container_ok cur (PList vs)"
    using yaml_ok_cur [OF assms(2)] assms(3) by (auto simp: container_ok_def)
  then show ?thesis
    using assms(1,2) by (auto simp: yaml_item_def bind_res_eq_Inr intro: yaml_ok_put
        split: if_splits option.splits pyval.splits)
qed

lemma yaml_ok_seen: "yaml_ok (st\<lparr>seen_scope := b\<rparr>) = yaml_ok st"
  by (simp add: yaml_ok_def)

lemma yaml_line_ok: "yaml_line st nl = Inr st' \<Longrightarrow> yaml_ok st \<Longrightarrow> yaml_ok st'"
  by (cases nl) (auto simp: yaml_line_def Let_def yaml_ok_seen split: if_splits option.splits
      intro: yaml_key_ok yaml_nested_ok yaml_item_ok)

lemma yaml_fold_ok:
  "fold_res yaml_line st nls = Inr st' \<Longrightarrow> yaml_ok st \<Longrightarrow> yaml_ok st'"
  by (rule fold_res_invariant [of yaml_line st nls st' yaml_ok]) (auto intro: yaml_line_ok)

lemma scalar_error: "scalar t n = Inl e \<Longrightarrow> is_value_error e"
  by (auto simp: scalar_def Let_def bind_res_eq_Inl split: list.splits if_splits
      dest: int_of_token_error)

lemma yaml_line_error: "yaml_line st nl = Inl e \<Longrightarrow> yaml_ok st \<Longrightarrow> is_value_error e"
proof (cases nl)
  case (Pair n raw)
  assume a: "yaml_line st nl = Inl e" and ok: "yaml_ok st"
  have key: "yaml_key st n i s = Inl e \<Longrightarrow> is_value_error e" for i s
    by (auto simp: yaml_key_def Let_def split: if_splits)
  have nested: "is_value_error e" if step: "yaml_nested st cur n i s = Inl e"
      and cur: "cur_key st = Some cur" "cur \<in> set NESTED_SCOPE_KEYS" for cur i s
  proof -
    obtain d where d: "dget (ybody st) cur = PDict d"
      using yaml_ok_cur [OF ok] cur by (force simp: container_ok_def)
    show ?thesis
      using step d by (auto simp: yaml_nested_def Let_def bind_res_eq_Inl dest: scalar_error
          split: if_splits option.splits)
  qed
  have item: "is_value_error e" if "yaml_item st n i s = Inl e"
      "\<forall>cur. cur_key st = Some cur \<longrightarrow> cur \<notin> set NESTED_SCOPE_KEYS" for i s
  proof -
    have "\<exists>vs. dget (ybody st) cur = PList vs" if "cur_key st = Some cur" for cur
      using yaml_ok_cur [OF ok that] \<open>\<forall>cur. _\<close> that by (auto simp: container_ok_def)
    with that(1) show ?thesis
      by (cases "cur_key st") (auto simp: yaml_item_def bind_res_eq_Inl dest: scalar_error
          split: if_splits pyval.splits)
  qed
  from a show ?thesis
    by (auto simp: Pair yaml_line_def Let_def split: if_splits option.splits
        intro: key nested item)
qed

lemma yaml_init_ok: "yaml_ok yaml_init"
  by (simp add: yaml_ok_def yaml_init_def)

lemma scope_value_error: "is_scope_error e \<Longrightarrow> is_value_error e"
  by (cases e) simp_all

lemma parse_scope_yaml_error: "parse_scope_yaml t = Inl e \<Longrightarrow> is_value_error e"
  by (auto simp: parse_scope_yaml_def bind_res_eq_Inl split: if_splits
      dest!: fold_res_error [where P = yaml_ok and Q = is_value_error]
      intro: yaml_init_ok yaml_line_ok yaml_line_error)

section \<open>The documented shape round-trips\<close>

text \<open>The file the docstring shows: quoted domains and ranges, ports as plain integers.\<close>

definition quoted :: "string \<Rightarrow> string" where
  "quoted s = dq_char # s @ [dq_char]"

definition section_lines :: "string \<Rightarrow> string list \<Rightarrow> string list" where
  "section_lines k items = (''  '' @ k @ '':'') # map (\<lambda>x. ''    - '' @ x) items"

definition render_lines :: "scope_config \<Rightarrow> string list" where
  "render_lines c =
     ''scope:'' # section_lines ''domains'' (map quoted (cfg_domains c)) @
     section_lines ''cidrs'' (map quoted (cfg_cidrs c)) @
     section_lines ''ports'' (map show_int (cfg_ports c))"

definition render_scope :: "scope_config \<Rightarrow> string" where
  "render_scope c = concat (map (\<lambda>l. l @ [lf_char]) (render_lines c))"

definition line_safe :: "string \<Rightarrow> bool" where
  "line_safe s \<longleftrightarrow> list_all (\<lambda>c. \<not> is_linebreak c \<and> c \<noteq> cr_char) s"

definition renderable :: "scope_config \<Rightarrow> bool" where
  "renderable c \<longleftrightarrow>
     list_all (\<lambda>d. clean_entry d \<and> line_safe d \<and> lower d = d \<and> rstrip_dots d = d) (cfg_domains c) \<and>
     list_all (\<lambda>d. clean_entry d \<and> line_safe d) (cfg_cidrs c) \<and> list_all port_ok (cfg_ports c)"

text \<open>A token that survives the stripping of its line and is not taken for a key.\<close>

definition token_ok :: "string \<Rightarrow> bool" where
  "token_ok x \<longleftrightarrow> x \<noteq> [] \<and> \<not> is_space (hd x) \<and> \<not> is_space (last x) \<and> last x \<noteq> CHR '':''"

lemma space_facts [simp]:
  "is_space (CHR '' '')" "\<not> is_space (CHR ''-'')" "\<not> is_space dq_char" "\<not> is_space (CHR '':'')"
  by (simp_all add: is_space_def ord_of_def dq_char_def)

lemma yaml_line_item:
  assumes x: "token_ok x" and st: "seen_scope st" "cur_key st = Some k" "k \<notin> set NESTED_SCOPE_KEYS"
    "dget (ybody st) k = PList vs" and v: "scalar x n = Inr v"
  shows "yaml_line st (n, ''    - '' @ x) =
    Inr (st\<lparr>ybody := dict_set k (PList (vs @ [v])) (ybody st)\<rparr>)"
proof -
  have raw: "rstrip (''    - '' @ x) = ''    - '' @ x"
    by (rule rstrip_by_last) (use x in \<open>simp_all add: token_ok_def\<close>)
  have "rstrip (''- '' @ x) = ''- '' @ x"
    by (rule rstrip_by_last) (use x in \<open>simp_all add: token_ok_def\<close>)
  then have strip: "strip (''    - '' @ x) = ''- '' @ x"
    by (simp add: strip_by_def lstrip_by_def)
  have nokey: "\<not> endswith '':'' (''- '' @ x)"
    using x by (simp add: endswith_single token_ok_def)
  have tok: "strip x = x" using x by (intro strip_by_id) (auto simp: token_ok_def)
  have "strip (CHR '' '' # x) = x"
    using tok by (simp add: strip_by_def lstrip_by_def)
  with tok show ?thesis
    using st nokey v
    by (simp only: yaml_line_def prod.case Let_def raw strip)
      (simp add: startswith_def yaml_item_def)
qed

lemma yaml_items:
  assumes "\<And>x. x \<in> set xs \<Longrightarrow> token_ok (tk x)"
    and "\<And>x n. x \<in> set xs \<Longrightarrow> scalar (tk x) n = Inr (val x)"
    and "seen_scope st" "cur_key st = Some k" "k \<notin> set NESTED_SCOPE_KEYS"
    and "dget (ybody st) k = PList vs"
  shows "fold_res yaml_line st (enumerate n (map (\<lambda>x. ''    - '' @ x) (map tk xs))) =
    Inr (st\<lparr>ybody := dict_set k (PList (vs @ map val xs)) (ybody st)\<rparr>)"
  using assms
proof (induction xs arbitrary: st vs n)
  case Nil
  then have "dict_get (ybody st) k = Some (PList vs)"
    by (auto simp: dget_def split: option.splits)
  then show ?case by (simp add: dict_set_same)
next
  case (Cons x xs)
  let ?st = "st\<lparr>ybody := dict_set k (PList (vs @ [val x])) (ybody st)\<rparr>"
  have line: "yaml_line st (n, ''    - '' @ tk x) = Inr ?st"
    using Cons.prems by (intro yaml_line_item) auto
  have "fold_res yaml_line ?st (enumerate (Suc n) (map (\<lambda>x. ''    - '' @ x) (map tk xs))) =
    Inr (?st\<lparr>ybody := dict_set k (PList ((vs @ [val x]) @ map val xs)) (ybody ?st)\<rparr>)"
    by (rule Cons.IH) (use Cons.prems in auto)
  with line show ?case by simp
qed

lemma quoted_token: "clean_entry d \<Longrightarrow> token_ok (quoted d)"
  by (simp add: token_ok_def quoted_def) (simp add: dq_char_def)

lemma scalar_quoted: "scalar (quoted d) n = Inr (PStr d)"
  by (simp add: scalar_def quoted_def)

lemma show_int_nonneg: "0 \<le> i \<Longrightarrow> show_int i = show_nat (nat i)"
  by (simp add: show_int_def)

lemma port_token: "port_ok p \<Longrightarrow> token_ok (show_int p)"
proof -
  assume "port_ok p"
  then have eq: "show_int p = show_nat (nat p)" by (simp add: show_int_nonneg port_ok_def)
  have "is_dec (hd (show_nat n))" "is_dec (last (show_nat n))" for n
    by (auto intro!: show_nat_dec [of _ n])
  moreover have "\<not> is_dec (CHR '':'')" by (simp add: is_dec_def ord_of_def)
  ultimately show ?thesis unfolding eq token_ok_def
    by (metis is_dec_not_space show_nat_ne)
qed

lemma no_hash_show_nat: "\<not> contains '' #'' (show_nat n)"
  using show_nat_dec [of "CHR '' ''" n] is_dec_not_space [of "CHR '' ''"]
  by (auto simp: contains_iff)

lemma scalar_port: "port_ok p \<Longrightarrow> scalar (show_int p) n = Inr (PInt p)"
proof -
  assume p: "port_ok p"
  then have eq: "show_int p = show_nat (nat p)" by (simp add: show_int_nonneg port_ok_def)
  have "length (show_nat (nat p)) \<le> 5"
    using p by (intro length_show_nat) (auto simp: port_ok_def)
  then have int: "int_of_token (show_nat (nat p)) = Inr p"
    using p by (subst int_of_token_show_nat) (auto simp: port_ok_def int_max_str_digits_def)
  obtain c t where ct: "show_nat (nat p) = c # t" by (cases "show_nat (nat p)") auto
  have "is_dec c" using show_nat_dec [of c "nat p"] ct by simp
  then have "c \<noteq> dq_char" "c \<noteq> CHR 0x27"
    by (auto simp: is_dec_def ord_of_def dq_char_def)
  moreover have "\<not> contains '' #'' (c # t)" "looks_like_int (c # t)" "int_of_token (c # t) = Inr p"
    using no_hash_show_nat [of "nat p"] looks_like_int_show_nat [of "nat p"] int ct by simp_all
  ultimately show ?thesis unfolding eq ct scalar_def
    by (simp only: list.case Let_def if_False simp_thms if_True bind_res_Inr)
qed

lemma yaml_line_key:
  assumes "seen_scope st" "k \<in> {''domains'', ''cidrs'', ''ports''}" "k \<notin> set (dict_keys (ybody st))"
  shows "yaml_line st (n, ''  '' @ k @ '':'') =
    Inr (st\<lparr>ybody := dict_set k (PList []) (ybody st), cur_key := Some k\<rparr>)"
proof -
  have k: "k \<noteq> []" "\<not> is_space (hd k)" "\<not> is_space (last k)" "k \<in> set SCOPE_KEYS"
    "k \<notin> set NESTED_SCOPE_KEYS" "CHR ''#'' \<noteq> hd k"
    using assms(2) by (auto simp: is_space_def ord_of_def SCOPE_KEYS_def NESTED_SCOPE_KEYS_def)
  have raw: "rstrip (''  '' @ k @ '':'') = ''  '' @ k @ '':''"
    by (rule rstrip_by_last) simp_all
  have "lstrip_by is_space (''  '' @ k @ '':'') = k @ '':''"
    using k(1,2) by (cases k) (auto simp: lstrip_by_def)
  then have strip: "strip (''  '' @ k @ '':'') = k @ '':''"
    by (simp add: strip_by_def rstrip_by_last)
  have indent: "takeWhile (\<lambda>c. c = CHR '' '') (''  '' @ k @ '':'') = ''  ''"
    using k(1,2) by (cases k) auto
  have tok: "strip k = k" using k by (intro strip_by_id) auto
  have nohash: "\<not> startswith ''#'' (k @ '':'')"
    using k(1,6) by (cases k) (auto simp: startswith_def)
  show ?thesis
    using assms(1,3) k tok nohash
    by (simp only: yaml_line_def prod.case Let_def raw strip indent)
      (simp add: endswith_single yaml_key_def)
qed

lemma run_section:
  assumes "seen_scope st" and "k \<in> {''domains'', ''cidrs'', ''ports''}"
    and "k \<notin> set (dict_keys (ybody st))"
    and "\<And>x. x \<in> set xs \<Longrightarrow> token_ok (tk x)"
    and "\<And>x n. x \<in> set xs \<Longrightarrow> scalar (tk x) n = Inr (val x)"
  shows "fold_res yaml_line st (enumerate n (section_lines k (map tk xs))) =
    Inr (st\<lparr>ybody := ybody st @ [(k, PList (map val xs))], cur_key := Some k\<rparr>)"
proof -
  let ?st = "st\<lparr>ybody := dict_set k (PList []) (ybody st), cur_key := Some k\<rparr>"
  have "fold_res yaml_line ?st (enumerate (Suc n) (map (\<lambda>x. ''    - '' @ x) (map tk xs))) =
    Inr (?st\<lparr>ybody := dict_set k (PList ([] @ map val xs)) (ybody ?st)\<rparr>)"
    by (rule yaml_items)
      (use assms in \<open>auto simp: NESTED_SCOPE_KEYS_def\<close>)
  then show ?thesis
    using yaml_line_key [OF assms(1-3), of n] assms(3)
    by (simp add: section_lines_def dict_set_new)
qed

lemma length_section_lines [simp]: "length (section_lines k xs) = Suc (length xs)"
  by (simp add: section_lines_def)

lemma enumerate_append: "enumerate n (xs @ ys) = enumerate n xs @ enumerate (n + length xs) ys"
  by (induction xs arbitrary: n) simp_all

definition config_body :: "scope_config \<Rightarrow> pydict" where
  "config_body c =
     [(''domains'', PList (map PStr (cfg_domains c))), (''cidrs'', PList (map PStr (cfg_cidrs c))),
      (''ports'', PList (map PInt (cfg_ports c)))]"

lemma yaml_scope_line:
  "\<not> seen_scope st \<Longrightarrow> yaml_line st (n, ''scope:'') = Inr (st\<lparr>seen_scope := True\<rparr>)"
proof -
  have "rstrip ''scope:'' = ''scope:''" by (rule rstrip_by_last) simp_all
  moreover have "strip ''scope:'' = ''scope:''"
    by (rule strip_by_id) (simp_all add: is_space_def ord_of_def)
  ultimately show "\<not> seen_scope st \<Longrightarrow> ?thesis"
    by (simp add: yaml_line_def startswith_def)
qed

lemma run_render_lines:
  assumes "renderable c"
  shows "fold_res yaml_line yaml_init (enumerate 1 (render_lines c)) =
    Inr \<lparr>ybody = config_body c, seen_scope = True, cur_key = Some ''ports''\<rparr>"
proof -
  note sec = run_section [where tk = quoted and val = PStr] run_section [where tk = show_int and val = PInt]
  have d: "token_ok (quoted d)" "scalar (quoted d) n = Inr (PStr d)"
    if "d \<in> set (cfg_domains c) \<union> set (cfg_cidrs c)" for d n
    using that assms by (auto simp: renderable_def list_all_iff quoted_token scalar_quoted)
  have p: "token_ok (show_int p)" "scalar (show_int p) n = Inr (PInt p)"
    if "p \<in> set (cfg_ports c)" for p n
    using that assms by (auto simp: renderable_def list_all_iff port_token scalar_port)
  show ?thesis
    by (simp add: render_lines_def yaml_scope_line yaml_init_def enumerate_append fold_res_append
        sec d p config_body_def)
qed

lemma line_safe_append [simp]: "line_safe (a @ b) \<longleftrightarrow> line_safe a \<and> line_safe b"
  by (simp add: line_safe_def)

lemma line_safe_lits [simp]:
  "line_safe ''scope:''" "line_safe ''domains''" "line_safe ''cidrs''" "line_safe ''ports''"
  "line_safe ''    - ''" "line_safe ''  ''" "line_safe '':''" "line_safe [dq_char]" "line_safe []"
  by (simp_all add: line_safe_def is_linebreak_def ord_of_def cr_char_def dq_char_def)

lemma line_safe_port: "port_ok p \<Longrightarrow> line_safe (show_int p)"
  by (auto simp: port_ok_def show_int_nonneg line_safe_def list_all_iff is_dec_def is_linebreak_def
      cr_char_def ord_of_def dest!: show_nat_dec)

lemma line_safe_quoted: "line_safe (quoted s) = line_safe s"
  using line_safe_append [of "[dq_char]" "s @ [dq_char]"] by (simp add: quoted_def)

lemma line_safe_section:
  "line_safe k \<Longrightarrow> (\<And>x. x \<in> set xs \<Longrightarrow> line_safe x) \<Longrightarrow> l \<in> set (section_lines k xs) \<Longrightarrow> line_safe l"
  by (auto simp: section_lines_def simp del: append_Cons append.simps)

lemma render_lines_safe: "renderable c \<Longrightarrow> l \<in> set (render_lines c) \<Longrightarrow> line_safe l"
  by (auto simp: render_lines_def renderable_def list_all_iff line_safe_quoted line_safe_port
      elim!: line_safe_section [rotated 2])

lemma parse_render:
  assumes "renderable c"
  shows "parse_scope_yaml (render_scope c) = Inr (PDict [(''scope'', PDict (config_body c))])"
proof -
  have "splitlines (render_scope c) = render_lines c"
    unfolding render_scope_def
    using render_lines_safe [OF assms] by (intro splitlines_unlines) (auto simp: line_safe_def list_all_iff)
  then show ?thesis
    using run_render_lines [OF assms] by (simp add: parse_scope_yaml_def)
qed

lemma strings_of_clean: "list_all clean_entry ss \<Longrightarrow> strings_of (PList (map PStr ss)) = Inr ss"
proof -
  assume a: "list_all clean_entry ss"
  then have "map (strip \<circ> str_of) (map PStr ss) = ss"
    by (auto simp: list_all_iff clean_entry_def intro: map_idI)
  with a show ?thesis
    by (auto simp: Let_def list_all_iff list_ex_iff clean_entry_def)
qed

lemma ports_of_ok: "list_all port_ok ps \<Longrightarrow> ports_of (PList (map PInt ps)) = Inr ps"
  by (induction ps) (auto simp: port_ok_def)

lemma validate_render:
  assumes "renderable c"
  shows "validate_document (PDict [(''scope'', PDict (config_body c))]) = Inr c"
proof -
  have ds: "strings_of (PList (map PStr (cfg_domains c))) = Inr (cfg_domains c)"
    and cs: "strings_of (PList (map PStr (cfg_cidrs c))) = Inr (cfg_cidrs c)"
    and ps: "ports_of (PList (map PInt (cfg_ports c))) = Inr (cfg_ports c)"
    using assms
    by (intro strings_of_clean ports_of_ok; simp add: renderable_def list_all_iff)+
  have "map (\<lambda>d. rstrip_dots (lower d)) (cfg_domains c) = cfg_domains c"
    using assms by (auto simp: renderable_def list_all_iff intro: map_idI)
  then show ?thesis
    by (simp add: validate_body_def dget_def dget_or_def config_body_def SCOPE_KEYS_def ds cs ps
        del: strings_of.simps ports_of.simps)
qed

section \<open>Properties\<close>

lemma list_all2_Some_set:
  "list_all2 (\<lambda>c n. f c = Some n) cs ns \<Longrightarrow> n \<in> set ns \<longleftrightarrow> (\<exists>c\<in>set cs. f c = Some n)"
  by (induction rule: list_all2_induct) auto

lemma network_of_entry:
  "mk_enforcer cs ds ps src = Inr e \<Longrightarrow>
     n \<in> set (networks e) \<longleftrightarrow> (\<exists>c\<in>set cs. ip_network c = Some n)"
  by (auto simp: mk_enforcer_Inr list_all2_Some_set)

lemma in_network_IP4: "net_ok n \<Longrightarrow> in_network (IP4 a) n \<longleftrightarrow> (\<exists>b p. n = Net4 b p \<and> same_prefix p a b)"
  by (cases n) (auto simp: in_network_prefix4 simp del: in_network.simps(1) net_ok.simps)

lemma in_network_IP6:
  "net_ok n \<Longrightarrow> in_network (IP6 a) n \<longleftrightarrow> (\<exists>b p sid. n = Net6 b p sid \<and> same_prefix p a b)"
  by (cases n) (auto simp: in_network_prefix6 simp del: in_network.simps(2) net_ok.simps)

definition covered :: "string list \<Rightarrow> string list \<Rightarrow> string \<Rightarrow> bool" where
  "covered cs ds name \<longleftrightarrow>
     (case ip_address name of
        None \<Rightarrow> \<exists>d\<in>set ds. name = norm_domain d \<or> (\<exists>sub. name = sub @ CHR ''.'' # norm_domain d)
      | Some (IP4 a) \<Rightarrow> \<exists>c\<in>set cs. \<exists>b p. ip_network c = Some (Net4 b p) \<and> same_prefix p a b
      | Some (IP6 a) \<Rightarrow> \<exists>c\<in>set cs. \<exists>b p sid. ip_network c = Some (Net6 b p sid) \<and> same_prefix p a b)"

lemma mk_enforcer_domains:
  "mk_enforcer cs ds ps src = Inr e \<Longrightarrow> allowed_domains e = map norm_domain ds \<and> allowed_ports e = ps"
  by (auto simp: mk_enforcer_Inr)

lemma is_target_allowed_covered:
  assumes "mk_enforcer cs ds ps src = Inr e"
  shows "is_target_allowed e target \<longleftrightarrow> norm_domain target \<noteq> [] \<and> covered cs ds (norm_domain target)"
proof -
  have ok: "n \<in> set (networks e) \<Longrightarrow> net_ok n" for n
    using mk_enforcer_nets_ok [OF assms] by (auto simp: list_all_iff)
  note nets = network_of_entry [OF assms] and doms = mk_enforcer_domains [OF assms]
  show ?thesis
  proof (cases "ip_address (norm_domain target)")
    case None
    then show ?thesis by (simp add: is_target_allowed_iff covered_def doms)
  next
    case (Some addr)
    show ?thesis
    proof (cases addr)
      case (IP4 a)
      have "(\<exists>n\<in>set (networks e). in_network (IP4 a) n) \<longleftrightarrow>
          (\<exists>c\<in>set cs. \<exists>b p. ip_network c = Some (Net4 b p) \<and> same_prefix p a b)"
      proof -
        have "(\<exists>n\<in>set (networks e). in_network (IP4 a) n) \<longleftrightarrow>
            (\<exists>n\<in>set (networks e). \<exists>b p. n = Net4 b p \<and> same_prefix p a b)"
          by (rule bex_cong [OF refl]) (rule in_network_IP4 [OF ok])
        also have "\<dots> \<longleftrightarrow>
            (\<exists>c\<in>set cs. \<exists>b p. ip_network c = Some (Net4 b p) \<and> same_prefix p a b)"
          unfolding Bex_def nets by blast
        finally show ?thesis .
      qed
      with Some IP4 show ?thesis by (simp only: is_target_allowed_iff covered_def) simp
    next
      case (IP6 a)
      have "(\<exists>n\<in>set (networks e). in_network (IP6 a) n) \<longleftrightarrow>
          (\<exists>c\<in>set cs. \<exists>b p sid. ip_network c = Some (Net6 b p sid) \<and> same_prefix p a b)"
      proof -
        have "(\<exists>n\<in>set (networks e). in_network (IP6 a) n) \<longleftrightarrow>
            (\<exists>n\<in>set (networks e). \<exists>b p sid. n = Net6 b p sid \<and> same_prefix p a b)"
          by (rule bex_cong [OF refl]) (rule in_network_IP6 [OF ok])
        also have "\<dots> \<longleftrightarrow>
            (\<exists>c\<in>set cs. \<exists>b p sid. ip_network c = Some (Net6 b p sid) \<and> same_prefix p a b)"
          unfolding Bex_def nets by blast
        finally show ?thesis .
      qed
      with Some IP6 show ?thesis by (simp only: is_target_allowed_iff covered_def) simp
    qed
  qed
qed

text \<open>
  C1: An enforcer built from allowlists authorises exactly the targets they cover. After trimming,
  lowering and dropping the final dots, an address literal is allowed when it shares the prefix of a
  listed network of its own family, any other name when it equals a listed domain or ends with a dot
  and a listed domain; the empty name never is.
\<close>
theorem scope_decision:
  assumes "mk_enforcer cs ds ps src = Inr e"
  shows "check e target = Inr () \<longleftrightarrow> norm_domain target \<noteq> [] \<and> covered cs ds (norm_domain target)"
  using is_target_allowed_covered [OF assms] by (simp add: check_iff)

definition sample_enforcer :: scope_enforcer where
  "sample_enforcer =
     \<lparr>networks = [Net4 0x0A000000 8], allowed_domains = [''example.com''], allowed_ports = [80],
      scope_source = ''engagement''\<rparr>"

lemma sample_enforcer:
  "mk_enforcer [''10.0.0.0/8''] [''Example.com.''] [80] ''engagement'' = Inr sample_enforcer"
  by code_simp

theorem scope_decision_witness:
  "check sample_enforcer ''API.example.com'' = Inr () \<longleftrightarrow>
     norm_domain ''API.example.com'' \<noteq> [] \<and>
     covered [''10.0.0.0/8''] [''Example.com.''] (norm_domain ''API.example.com'')"
  by (rule scope_decision [OF sample_enforcer])

text \<open>
  C2: Deny by default. An enforcer built without an allowlist refuses every target with a
  \<open>ScopeError\<close>, whatever ports it lists.
\<close>
theorem empty_scope_denies:
  "\<exists>e. mk_enforcer [] [] ps src = Inr e \<and>
     (\<forall>target. \<exists>x. check e target = Inl x \<and> is_scope_error x)"
  by (auto simp: mk_enforcer_def check_def is_target_allowed_def Let_def split: option.split)

text \<open>
  The port allowlist. \<open>check_ports\<close> accepts a request exactly when no port is listed or
  every requested port is, and its only failure is a \<open>ScopeError\<close>.
\<close>
theorem check_ports_spec:
  "check_ports e ps =
     (if allowed_ports e = [] \<or> set ps \<subseteq> set (allowed_ports e) then Inr ()
      else Inl (ScopeError ''ports are outside the authorized scope'' None))"
  by (auto simp: check_ports_def filter_empty_conv)

lemma from_config_Inr:
  assumes "from_config rd df env path = Inr e"
  obtains c where "load_scope_config rd (resolve_scope_path df env path) = Inr c"
    and "mk_enforcer (cfg_cidrs c) (cfg_domains c) (cfg_ports c) (resolve_scope_path df env path) = Inr e"
  using assms by (auto simp: from_config_def Let_def bind_res_eq_Inr)

text \<open>
  An enforcer loaded from a file only holds what a validated file may say: ports from 1 to
  65535, well-formed networks, and domains that come from entries that are neither empty nor the
  lone star.
\<close>
theorem from_config_valid:
  assumes "from_config rd df env path = Inr e"
  shows "list_all port_ok (allowed_ports e) \<and> list_all net_ok (networks e) \<and>
    (\<forall>d\<in>set (allowed_domains e). \<exists>s. clean_entry s \<and> d = norm_domain (rstrip_dots (lower s)))"
proof -
  obtain c where c: "load_scope_config rd (resolve_scope_path df env path) = Inr c"
    and e: "mk_enforcer (cfg_cidrs c) (cfg_domains c) (cfg_ports c) (resolve_scope_path df env path) = Inr e"
    by (rule from_config_Inr [OF assms])
  have "config_ok c" by (rule load_scope_config_ok [OF c])
  then show ?thesis
    using mk_enforcer_nets_ok [OF e] mk_enforcer_domains [OF e]
    by (auto simp: config_ok_def list_all_iff)
qed

definition sample_config :: scope_config where
  "sample_config =
     \<lparr>cfg_domains = [''example.com''], cfg_cidrs = [''10.0.0.0/8''], cfg_ports = [80, 443]\<rparr>"

lemma sample_renderable: "renderable sample_config"
  by code_simp

lemma load_render:
  "renderable c \<Longrightarrow> lower (path_suffix p) \<noteq> ''.json'' \<Longrightarrow>
     load_scope_config (\<lambda>_. Inr (render_scope c)) p = Inr c"
  by (simp add: load_scope_config_def parse_render validate_render del: validate_document.simps)

text \<open>
  C25: Writing a configuration in the documented shape of the scope file and loading it gives the
  same configuration back.
\<close>
theorem scope_file_roundtrip:
  assumes "renderable c" and "lower (path_suffix p) \<noteq> ''.json''"
  shows "load_scope_config (\<lambda>_. Inr (render_scope c)) p = Inr c"
  by (rule load_render [OF assms])

lemma yaml_suffix: "lower (path_suffix ''config/scope.yaml'') \<noteq> ''.json''"
  by code_simp

theorem scope_file_roundtrip_witness:
  "load_scope_config (\<lambda>_. Inr (render_scope sample_config)) ''config/scope.yaml'' = Inr sample_config"
  by (rule scope_file_roundtrip [OF sample_renderable yaml_suffix])

lemma sample_from_config:
  "from_config (\<lambda>_. Inr (render_scope sample_config)) [] None (Some ''config/scope.yaml'') =
     Inr \<lparr>networks = [Net4 0x0A000000 8], allowed_domains = [''example.com''],
          allowed_ports = [80, 443], scope_source = ''config/scope.yaml''\<rparr>"
proof -
  have load: "load_scope_config (\<lambda>_. Inr (render_scope sample_config)) ''config/scope.yaml'' =
      Inr sample_config"
    by (rule load_render [OF sample_renderable yaml_suffix])
  have mk: "mk_enforcer (cfg_cidrs sample_config) (cfg_domains sample_config) (cfg_ports sample_config)
      ''config/scope.yaml'' = Inr \<lparr>networks = [Net4 0x0A000000 8], allowed_domains = [''example.com''],
          allowed_ports = [80, 443], scope_source = ''config/scope.yaml''\<rparr>"
    by code_simp
  show ?thesis
    by (simp only: from_config_def resolve_scope_path_def option.case Let_def load bind_res_Inr mk)
qed

theorem from_config_valid_witness:
  "\<exists>e. from_config (\<lambda>_. Inr (render_scope sample_config)) [] None (Some ''config/scope.yaml'') = Inr e \<and>
     list_all port_ok (allowed_ports e) \<and> list_all net_ok (networks e)"
  using from_config_valid [OF sample_from_config] sample_from_config by blast

text \<open>
  Loading fails closed. When the file system raises nothing but \<open>OSError\<close>, a scope file
  that is not accepted is refused with a \<open>ValueError\<close>, of which \<open>ScopeError\<close> is a
  subclass, and no other exception escapes.
\<close>
theorem load_scope_config_fails_closed:
  assumes "\<And>x. rd p = Inl x \<Longrightarrow> is_os_error x" and "load_scope_config rd p = Inl e"
  shows "is_value_error e \<or> e = OutOfModel"
proof -
  have json: "json_loads t = Inl x \<Longrightarrow> is_value_error x \<or> x = OutOfModel" for t x
    by (rule json_loads_error)
  show ?thesis
    using assms unfolding load_scope_config_def
    by (auto split: sum.split_asm if_split_asm elim!: bind_res_error
        dest: json parse_scope_yaml_error validate_document_error intro: scope_value_error)
qed

theorem load_scope_config_fails_closed_witness:
  "\<exists>e. load_scope_config (\<lambda>_. Inl (FileNotFoundError [])) ''scope.yaml'' = Inl e \<and>
     (is_value_error e \<or> e = OutOfModel)"
proof -
  have "load_scope_config (\<lambda>_. Inl (FileNotFoundError [])) ''scope.yaml'' =
      Inl (ScopeError ''cannot be read'' None)"
    by (simp add: load_scope_config_def)
  then show ?thesis
    using load_scope_config_fails_closed [of "\<lambda>_. Inl (FileNotFoundError [])" "''scope.yaml''"]
    by auto
qed

text \<open>
  Two files the loader does not trust are not refused with a \<open>ScopeError\<close>: a port
  written with two minus signs and a range that is no network both end in a plain
  \<open>ValueError\<close>, although the docstring of \<open>from_config\<close> promises a \<open>ScopeError\<close>.
\<close>
theorem untrusted_scope_plain_value_error:
  "from_config (\<lambda>_. Inr (''scope:'' @ [lf_char] @ ''  ports:'' @ [lf_char] @ ''    - --5''))
       [] None (Some ''scope.yaml'') = Inl (ValueError ''invalid literal for int()'') \<and>
   from_config (\<lambda>_. Inr (''scope:'' @ [lf_char] @ ''  cidrs:'' @ [lf_char] @ ''    - ten/8''))
       [] None (Some ''scope.yaml'') =
     Inl (ValueError ''does not appear to be an IPv4 or IPv6 network'')"
  by code_simp

end
