(* ===== verification/State.thy ===== *)
theory State
  imports PyJson
begin

text \<open>
  \<open>core/state.py\<close>: the campaign record, its status changes and its dictionary form, and the
  local store that keeps one JSON file and one JSONL log per campaign. The campaigns directory is an
  ordered dictionary from file names to their text; an operation of the store is a list of primitive
  file operations, so that a crash is a prefix of it. Clock readings and the fresh identifier are
  arguments.
\<close>

section \<open>The campaign\<close>

record campaign =
  campaign_id :: string
  target :: string
  status :: pyval
  meta :: pyval
  created_at :: pyval
  updated_at :: pyval
  completed_at :: pyval

definition STATUS_CHOICES :: "string list" where
  "STATUS_CHOICES =
     [''idle'', ''planning'', ''scanning'', ''analyzing'', ''executing'', ''done'', ''failed'',
      ''aborted'']"

definition TERMINAL :: "string list" where
  "TERMINAL = [''done'', ''failed'', ''aborted'']"

definition new_campaign ::
  "pyval \<Rightarrow> string \<Rightarrow> pyval \<Rightarrow> pyval \<Rightarrow> pyval \<Rightarrow> exc + campaign" where
  "new_campaign now fresh tgt cid mt =
     (if \<not> truthy tgt then Inl (ValueError ''target cannot be empty'')
      else bind_res (py_str tgt) (\<lambda>t.
        if strip t = [] then Inl (ValueError ''target cannot be empty'')
        else bind_res
          (if truthy cid then (case cid of PStr s \<Rightarrow> Inr s | _ \<Rightarrow> Inl OutOfModel) else Inr fresh)
          (\<lambda>c. Inr \<lparr>campaign_id = c, target = strip t, status = PStr ''idle'',
            meta = (if truthy mt then mt else PDict []), created_at = now, updated_at = now,
            completed_at = PNone\<rparr>)))"

definition to_dict :: "campaign \<Rightarrow> pyval" where
  "to_dict st = PDict
     [(''campaign_id'', PStr (campaign_id st)), (''target'', PStr (target st)),
      (''status'', status st), (''meta'', meta st), (''created_at'', created_at st),
      (''updated_at'', updated_at st), (''completed_at'', completed_at st)]"

fun from_dict :: "pyval \<Rightarrow> string \<Rightarrow> pyval \<Rightarrow> exc + campaign" where
  "from_dict now fresh (PDict d) =
     bind_res (dindex d ''target'') (\<lambda>tgt.
     bind_res (new_campaign now fresh tgt (dget d ''campaign_id'') (dget_or d ''meta'' (PDict [])))
       (\<lambda>obj.
         let created = dget_or d ''created_at'' now
         in Inr (obj\<lparr>status := dget_or d ''status'' (PStr ''idle''), created_at := created,
              updated_at := dget_or d ''updated_at'' created, completed_at := dget d ''completed_at''\<rparr>)))"
| "from_dict now fresh _ = Inl (TypeError ''indices must be integers or slices'')"

definition transition :: "pyval \<Rightarrow> string \<Rightarrow> campaign \<Rightarrow> exc + campaign" where
  "transition now new_status st =
     (if new_status \<notin> set STATUS_CHOICES then Inl (ValueError ''invalid status'')
      else if PStr new_status = status st then Inr st
      else
        let st = st\<lparr>status := PStr new_status, updated_at := now\<rparr>
        in Inr (if new_status \<in> set TERMINAL then st\<lparr>completed_at := updated_at st\<rparr> else st))"

text \<open>What a campaign the code builds satisfies, and what its JSON form carries.\<close>

definition campaign_ok :: "campaign \<Rightarrow> bool" where
  "campaign_ok st \<longleftrightarrow>
     campaign_id st \<noteq> [] \<and> target st \<noteq> [] \<and> strip (target st) = target st \<and>
     (truthy (meta st) \<or> meta st = PDict [])"

definition campaign_json :: "campaign \<Rightarrow> bool" where
  "campaign_json st \<longleftrightarrow> json_ok (status st) \<and> json_ok (meta st) \<and> json_ok (created_at st) \<and>
     json_ok (updated_at st) \<and> json_ok (completed_at st)"

lemma from_dict_to_dict: "campaign_ok st \<Longrightarrow> from_dict now fresh (to_dict st) = Inr st"
  by (cases st) (auto simp: to_dict_def dindex_def dget_def dget_or_def new_campaign_def
      campaign_ok_def Let_def)

lemma json_ok_to_dict: "campaign_json st \<Longrightarrow> json_ok (to_dict st)"
  by (simp add: to_dict_def campaign_json_def dict_ok_def)

lemma new_campaign_ok: "new_campaign now fresh tgt cid mt = Inr st \<Longrightarrow> fresh \<noteq> [] \<Longrightarrow> campaign_ok st"
  by (auto simp: new_campaign_def campaign_ok_def bind_res_eq_Inr split: if_splits pyval.splits)

lemma transition_cases:
  assumes "transition now s st = Inr st'"
  obtains "st' = st" "PStr s = status st"
  | "s \<in> set TERMINAL" "st' = st\<lparr>status := PStr s, updated_at := now, completed_at := now\<rparr>"
  | "s \<in> set STATUS_CHOICES" "s \<notin> set TERMINAL" "st' = st\<lparr>status := PStr s, updated_at := now\<rparr>"
  using assms by (auto simp: transition_def Let_def split: if_splits)

lemma transition_frame:
  "transition now s st = Inr st' \<Longrightarrow>
     campaign_id st' = campaign_id st \<and> target st' = target st \<and> meta st' = meta st \<and>
     created_at st' = created_at st \<and> status st' = PStr s"
  by (erule transition_cases) auto

lemma transition_ok: "transition now s st = Inr st' \<Longrightarrow> campaign_ok st \<Longrightarrow> campaign_ok st'"
  using transition_frame [of now s st st'] by (auto simp: campaign_ok_def)

lemma transition_json:
  "transition now s st = Inr st' \<Longrightarrow> json_ok now \<Longrightarrow> campaign_json st \<Longrightarrow> campaign_json st'"
  by (erule transition_cases) (auto simp: campaign_json_def)

section \<open>The store\<close>

type_synonym files = "(string, string) dict"

datatype fs_op = Write string string | Append string string | Rename string string | Unlink string

fun fs_step :: "files \<Rightarrow> fs_op \<Rightarrow> files" where
  "fs_step fs (Write f t) = dict_set f t fs"
| "fs_step fs (Append f t) =
     dict_set f ((case dict_get fs f of None \<Rightarrow> [] | Some old \<Rightarrow> old) @ t) fs"
| "fs_step fs (Rename a b) =
     (case dict_get fs a of None \<Rightarrow> fs | Some t \<Rightarrow> dict_set b t (dict_del a fs))"
| "fs_step fs (Unlink f) = dict_del f fs"

definition fs_run :: "files \<Rightarrow> fs_op list \<Rightarrow> files" where
  "fs_run fs ops = foldl fs_step fs ops"

definition state_path :: "string \<Rightarrow> string" where
  "state_path cid = cid @ ''.json''"

definition log_path :: "string \<Rightarrow> string" where
  "log_path cid = cid @ ''.log.jsonl''"

definition tmp_path :: "string \<Rightarrow> string" where
  "tmp_path cid = cid @ ''.json.tmp''"

definition save_ops :: "campaign \<Rightarrow> fs_op list" where
  "save_ops st =
     [Write (tmp_path (campaign_id st)) (json_dumps True (Some 2) (to_dict st)),
      Rename (tmp_path (campaign_id st)) (state_path (campaign_id st))]"

definition save :: "files \<Rightarrow> campaign \<Rightarrow> files" where
  "save fs st = fs_run fs (save_ops st)"

definition load_text :: "pyval \<Rightarrow> string \<Rightarrow> string \<Rightarrow> exc + campaign" where
  "load_text now fresh text = bind_res (json_loads text) (from_dict now fresh)"

definition load :: "pyval \<Rightarrow> string \<Rightarrow> files \<Rightarrow> string \<Rightarrow> exc + campaign" where
  "load now fresh fs cid =
     (case dict_get fs (state_path cid) of
        None \<Rightarrow> Inl (FileNotFoundError ''no campaign'')
      | Some text \<Rightarrow> load_text now fresh text)"

text \<open>The exceptions \<open>load_all\<close> swallows; a \<open>TypeError\<close> is not one of them.\<close>

fun skipped_error :: "exc \<Rightarrow> bool" where
  "skipped_error (KeyError _) = True"
| "skipped_error e = is_value_error e"

definition load_all_step ::
  "pyval \<Rightarrow> string \<Rightarrow> files \<Rightarrow> campaign list \<Rightarrow> string \<Rightarrow> exc + campaign list" where
  "load_all_step now fresh fs out name =
     (if endswith ''.tmp'' name then Inr out
      else (case dict_get fs name of
              None \<Rightarrow> Inr out
            | Some text \<Rightarrow>
                (case load_text now fresh text of
                   Inr st \<Rightarrow> Inr (out @ [st])
                 | Inl e \<Rightarrow> if skipped_error e then Inr out else Inl e)))"

definition load_all :: "pyval \<Rightarrow> string \<Rightarrow> files \<Rightarrow> exc + campaign list" where
  "load_all now fresh fs =
     fold_res (load_all_step now fresh fs) []
       (sort (filter (endswith ''.json'') (dict_keys fs)))"

definition delete_ops :: "files \<Rightarrow> string \<Rightarrow> fs_op list" where
  "delete_ops fs cid =
     concat (map (\<lambda>p. if dict_get fs p \<noteq> None then [Unlink p] else [])
       [state_path cid, log_path cid])"

definition delete :: "files \<Rightarrow> string \<Rightarrow> files" where
  "delete fs cid = fs_run fs (delete_ops fs cid)"

definition log_record :: "pyval \<Rightarrow> campaign \<Rightarrow> string \<Rightarrow> pydict \<Rightarrow> pyval" where
  "log_record now st event payload =
     PDict (foldl (\<lambda>d (k, v). dict_set k v d)
       [(''ts'', now), (''campaign_id'', PStr (campaign_id st)), (''event'', PStr event)] payload)"

definition log_event :: "pyval \<Rightarrow> files \<Rightarrow> campaign \<Rightarrow> string \<Rightarrow> pydict \<Rightarrow> files" where
  "log_event now fs st event payload =
     fs_run fs [Append (log_path (campaign_id st))
       (json_dumps True None (log_record now st event payload) @ [lf_char])]"

text \<open>Text mode translates every line ending to a line feed.\<close>

fun translate_newlines :: "bool \<Rightarrow> string \<Rightarrow> string" where
  "translate_newlines after_cr [] = []"
| "translate_newlines after_cr (c # s) =
     (if c = lf_char \<and> after_cr then translate_newlines False s
      else if c = cr_char then lf_char # translate_newlines True s
      else c # translate_newlines False s)"

definition universal_newlines :: "string \<Rightarrow> string" where
  "universal_newlines s = translate_newlines False s"

definition read_log_step :: "pyval list \<Rightarrow> string \<Rightarrow> exc + pyval list" where
  "read_log_step out raw =
     (let line = strip raw
      in if line = [] then Inr out
         else (case json_loads line of
                 Inr v \<Rightarrow> Inr (out @ [v])
               | Inl e \<Rightarrow> if e = JSONDecodeError then Inr out else Inl e))"

definition read_log :: "files \<Rightarrow> string \<Rightarrow> exc + pyval list" where
  "read_log fs cid =
     (case dict_get fs (log_path cid) of
        None \<Rightarrow> Inr []
      | Some text \<Rightarrow> fold_res read_log_step [] (split_char lf_char (universal_newlines text)))"

section \<open>Files and paths\<close>

lemma path_inject [simp]:
  "state_path a = state_path b \<longleftrightarrow> a = b" "log_path a = log_path b \<longleftrightarrow> a = b"
  "tmp_path a = tmp_path b \<longleftrightarrow> a = b"
  by (simp_all add: state_path_def log_path_def tmp_path_def)

lemma last_path:
  "last (state_path a) = CHR ''n''" "last (log_path a) = CHR ''l''" "last (tmp_path a) = CHR ''p''"
  by (simp_all add: state_path_def log_path_def tmp_path_def)

lemma path_distinct [simp]:
  "state_path a \<noteq> log_path b" "state_path a \<noteq> tmp_path b" "log_path a \<noteq> tmp_path b"
  "log_path b \<noteq> state_path a" "tmp_path b \<noteq> state_path a" "tmp_path b \<noteq> log_path a"
  by (auto dest!: arg_cong [where f = last] simp: last_path)

definition fs_ok :: "files \<Rightarrow> bool" where
  "fs_ok fs \<longleftrightarrow> dict_ok fs \<and>
     (\<forall>cid t. dict_get fs (log_path cid) = Some t \<longrightarrow> t = [] \<or> last t = lf_char)"

lemma fs_ok_empty [simp]: "fs_ok []"
  by (simp add: fs_ok_def)

lemma map_of_save:
  "dict_ok fs \<Longrightarrow> map_of (save fs st) =
     (map_of fs)(tmp_path (campaign_id st) := None,
        state_path (campaign_id st) \<mapsto> json_dumps True (Some 2) (to_dict st))"
  by (simp add: save_def save_ops_def fs_run_def fun_eq_iff)

lemma dict_ok_save [simp]: "dict_ok fs \<Longrightarrow> dict_ok (save fs st)"
  by (simp add: save_def save_ops_def fs_run_def)

lemma fs_ok_save: "fs_ok fs \<Longrightarrow> fs_ok (save fs st)"
  by (simp add: fs_ok_def map_of_save)

lemma map_of_delete:
  "dict_ok fs \<Longrightarrow> map_of (delete fs cid) = (map_of fs)(state_path cid := None, log_path cid := None)"
  by (auto simp: delete_def delete_ops_def fs_run_def fun_eq_iff)

lemma dict_ok_delete [simp]: "dict_ok fs \<Longrightarrow> dict_ok (delete fs cid)"
  by (simp add: delete_def delete_ops_def fs_run_def)

lemma fs_ok_delete: "fs_ok fs \<Longrightarrow> fs_ok (delete fs cid)"
  by (simp add: fs_ok_def map_of_delete)

lemma map_of_log_event:
  "map_of (log_event now fs st ev pl) =
     (map_of fs)(log_path (campaign_id st) \<mapsto>
       (case dict_get fs (log_path (campaign_id st)) of None \<Rightarrow> [] | Some old \<Rightarrow> old) @
       json_dumps True None (log_record now st ev pl) @ [lf_char])"
  by (simp add: log_event_def fs_run_def)

lemma fs_ok_log_event: "fs_ok fs \<Longrightarrow> fs_ok (log_event now fs st ev pl)"
  by (auto simp: fs_ok_def map_of_log_event) (simp add: log_event_def fs_run_def)

lemma load_text_dump:
  "campaign_ok st \<Longrightarrow> campaign_json st \<Longrightarrow>
     load_text now fresh (json_dumps ascii ind (to_dict st)) = Inr st"
  by (simp add: load_text_def json_roundtrip json_ok_to_dict from_dict_to_dict)

lemma load_save:
  "fs_ok fs \<Longrightarrow> campaign_ok st \<Longrightarrow> campaign_json st \<Longrightarrow>
     load now fresh (save fs st) (campaign_id st) = Inr st"
  by (simp add: load_def map_of_save fs_ok_def load_text_dump)

lemma load_save_other:
  "fs_ok fs \<Longrightarrow> cid \<noteq> campaign_id st \<Longrightarrow> load now fresh (save fs st) cid = load now fresh fs cid"
  by (simp add: load_def map_of_save fs_ok_def)

lemma load_log_event: "load now fresh (log_event n fs st ev pl) cid = load now fresh fs cid"
  by (simp add: load_def map_of_log_event)

lemma load_delete:
  "fs_ok fs \<Longrightarrow> load now fresh (delete fs cid) cid' =
     (if cid' = cid then Inl (FileNotFoundError ''no campaign'') else load now fresh fs cid')"
  by (simp add: load_def map_of_delete fs_ok_def)

lemma read_log_save: "fs_ok fs \<Longrightarrow> read_log (save fs st) cid = read_log fs cid"
  by (simp add: read_log_def map_of_save fs_ok_def)

lemma read_log_delete:
  "fs_ok fs \<Longrightarrow> read_log (delete fs cid) cid' = (if cid' = cid then Inr [] else read_log fs cid')"
  by (simp add: read_log_def map_of_delete fs_ok_def)

section \<open>Log records are lines\<close>

definition plain_char :: "char \<Rightarrow> bool" where
  "plain_char c \<longleftrightarrow> 32 \<le> ord_of c \<and> ord_of c \<le> 126"

lemma plain_dec: "is_dec c \<Longrightarrow> plain_char c"
  by (simp add: is_dec_def plain_char_def)

lemma plain_hex: "d < 16 \<Longrightarrow> plain_char (hex_char d)"
  by (simp add: hex_char_def plain_char_def ord_of_char_of)

lemma plain_escape: "list_all plain_char (escape_char True c)"
proof -
  have "ord_of c div 16 < 16" "ord_of c mod 16 < 16" using ord_of_less_256 [of c] by simp_all
  moreover have "plain_char bs_char" "plain_char (CHR ''b'')" "plain_char (CHR ''f'')"
    "plain_char (CHR ''n'')" "plain_char (CHR ''r'')" "plain_char (CHR ''t'')" "plain_char (CHR ''u'')"
    "plain_char (CHR ''0'')" "plain_char (CHR 0x22)" "plain_char (CHR 0x5C)"
    by (simp_all add: plain_char_def ord_of_def bs_char_def)
  ultimately show ?thesis
    by (cases "c = CHR 0x22 \<or> c = CHR 0x5C")
      (simp_all add: escape_char_def Let_def plain_hex, auto simp: plain_char_def)
qed

lemma plain_dump_str: "list_all plain_char (dump_str True s)"
proof -
  have "plain_char dq_char" by (simp add: plain_char_def ord_of_def dq_char_def)
  then show ?thesis
    using plain_escape by (auto simp: dump_str_def list_all_iff)
qed

lemma plain_join:
  "list_all plain_char sep \<Longrightarrow> list_all (list_all plain_char) ps \<Longrightarrow> list_all plain_char (join_str sep ps)"
  by (induction sep ps rule: join_str.induct) simp_all

lemma plain_lits:
  "list_all plain_char ''null''" "list_all plain_char ''true''" "list_all plain_char ''false''"
  "list_all plain_char ''[]''" "list_all plain_char ''{}''" "list_all plain_char '': ''"
  "list_all plain_char '', ''"
  "plain_char (CHR ''['')" "plain_char (CHR '']'')" "plain_char (CHR ''{'')" "plain_char (CHR ''}'')"
  "plain_char (CHR ''-'')" "plain_char (CHR ''.'')" "plain_char (CHR ''0'')"
  by (simp_all add: plain_char_def ord_of_def)

lemma plain_show_nat: "list_all plain_char (show_nat n)"
  by (auto simp: list_all_iff intro: plain_dec show_nat_dec)

lemma plain_dump: "list_all plain_char (json_dump True None l v)"
proof (induction True "None :: nat option" l v rule: json_dump.induct)
  case (3 l i)
  then show ?case by (simp add: show_int_def plain_show_nat plain_lits)
next
  case (4 l m k)
  then show ?case
    using plain_show_nat plain_lits
    by (auto simp: show_float_def show_frac_def Let_def list_all_iff)
next
  case (6 l vs)
  then show ?case
    using plain_lits by (auto simp: newline_indent_def item_sep_def list_all_iff [of _ "map _ _"]
        intro!: plain_join)
next
  case (7 l d)
  then show ?case
    using plain_lits by (auto simp: newline_indent_def item_sep_def list_all_iff [of _ "map _ _"]
        plain_dump_str intro!: plain_join)
qed (use plain_lits plain_dump_str in \<open>simp_all add: plain_char_def ord_of_def\<close>)

lemma plain_char_line: "plain_char c \<Longrightarrow> c \<noteq> cr_char \<and> c \<noteq> lf_char"
  by (auto simp: plain_char_def ord_of_def cr_char_def lf_char_def)

lemma translate_newlines_plain:
  "list_all plain_char t \<Longrightarrow> translate_newlines False (t @ [lf_char]) = t @ [lf_char]"
  by (induction t) (auto dest: plain_char_line)

lemma translate_newlines_append:
  "translate_newlines b (s @ t) =
     translate_newlines b s @ translate_newlines (if s = [] then b else last s = cr_char) t"
  by (induction s arbitrary: b) auto

lemma translate_newlines_last:
  "s \<noteq> [] \<Longrightarrow> last s \<in> {lf_char, cr_char} \<Longrightarrow> \<not> (b \<and> s = [lf_char]) \<Longrightarrow>
     translate_newlines b s \<noteq> [] \<and> last (translate_newlines b s) = lf_char"
proof (induction s arbitrary: b)
  case Nil
  then show ?case by simp
next
  case (Cons c s)
  show ?case
  proof (cases "s = [] \<or> s = [lf_char]")
    case True
    with Cons.prems show ?thesis by auto
  next
    case False
    then have "translate_newlines b' s \<noteq> [] \<and> last (translate_newlines b' s) = lf_char" for b'
      using Cons.prems by (intro Cons.IH) auto
    with False show ?thesis by simp
  qed
qed

lemma universal_newlines_Nil [simp]: "universal_newlines [] = []"
  by (simp add: universal_newlines_def)

lemma universal_newlines_plain:
  "list_all plain_char t \<Longrightarrow> universal_newlines (t @ [lf_char]) = t @ [lf_char]"
  by (simp add: universal_newlines_def translate_newlines_plain)

lemma universal_newlines_append:
  "s = [] \<or> last s = lf_char \<Longrightarrow> universal_newlines (s @ t) = universal_newlines s @ universal_newlines t"
  using lf_is_linebreak(2) by (auto simp: universal_newlines_def translate_newlines_append)

lemma universal_newlines_last:
  "s \<noteq> [] \<Longrightarrow> last s = lf_char \<Longrightarrow> universal_newlines s \<noteq> [] \<and> last (universal_newlines s) = lf_char"
  unfolding universal_newlines_def by (rule translate_newlines_last) simp_all

lemma split_char_snoc: "split_char c (w @ [c]) = split_char c w @ [[]]"
  by (induction w) (auto split: list.splits)

lemma split_char_two:
  "c \<notin> set r \<Longrightarrow> split_char c (w @ c # r @ [c]) = split_char c w @ [r, []]"
proof (induction w)
  case Nil
  then show ?case by (simp add: split_char_snoc split_char_no_sep)
next
  case (Cons d w)
  then show ?case by (auto split: list.splits)
qed

lemma fold_read_log_blank: "fold_res read_log_step out [[]] = Inr out"
  by (simp add: read_log_step_def)

lemma fold_res_Inr_append:
  "fold_res f s xs = bind_res (fold_res f s xs) Inr"
  by (cases "fold_res f s xs") simp_all

lemma read_lines_append:
  assumes old: "old = [] \<or> last old = lf_char" and plain: "list_all plain_char r"
    and v: "strip r = r" "r \<noteq> []" "json_loads r = Inr v"
  shows "fold_res read_log_step [] (split_char lf_char (universal_newlines (old @ r @ [lf_char]))) =
    bind_res (fold_res read_log_step [] (split_char lf_char (universal_newlines old)))
      (\<lambda>rs. Inr (rs @ [v]))"
proof -
  have r: "lf_char \<notin> set r" using plain by (auto simp: list_all_iff dest: plain_char_line)
  have step: "read_log_step out r = Inr (out @ [v])" for out
    using v by (simp add: read_log_step_def)
  show ?thesis
  proof (cases "old = []")
    case True
    then show ?thesis
      using r by (simp add: universal_newlines_plain [OF plain] split_char_snoc split_char_no_sep
          fold_res_append step fold_read_log_blank [simplified])
  next
    case False
    then obtain w where w: "universal_newlines old = w @ [lf_char]"
      using old universal_newlines_last [of old] by (metis append_butlast_last_id)
    have "split_char lf_char (universal_newlines (old @ r @ [lf_char])) =
        split_char lf_char w @ [r, []]"
      using universal_newlines_append [OF old] w split_char_two [OF r]
      by (simp add: universal_newlines_plain [OF plain])
    moreover have "split_char lf_char (universal_newlines old) = split_char lf_char w @ [[]]"
      by (simp add: w split_char_snoc)
    ultimately show ?thesis
      by (simp add: fold_res_append bind_res_assoc step) (simp add: read_log_step_def)
  qed
qed

lemma log_record_Dict: "\<exists>p d. log_record now st ev pl = PDict (p # d)"
proof -
  have "\<exists>q e. foldl (\<lambda>d (k, v). dict_set k v d) (p # d) pl = q # e" for p d
  proof (induction pl arbitrary: p d)
    case Nil
    then show ?case by simp
  next
    case (Cons kv pl)
    obtain k v where "kv = (k, v)" by fastforce
    then show ?case using Cons by (cases p) auto
  qed
  then show ?thesis by (simp add: log_record_def)
qed

lemma dump_dict_ends:
  "json_dump ascii ind l (PDict (p # d)) = CHR ''{'' # u \<Longrightarrow> last (CHR ''{'' # u) = CHR ''}''"
  by auto

lemma strip_dump_record:
  "strip (json_dumps ascii ind (PDict (p # d))) = json_dumps ascii ind (PDict (p # d))"
  by (rule strip_by_id) (simp_all add: json_dumps_def is_space_def ord_of_def)

lemma read_log_append:
  assumes "fs_ok fs" and "json_ok (log_record now st ev pl)"
  shows "read_log (log_event now fs st ev pl) (campaign_id st) =
    bind_res (read_log fs (campaign_id st)) (\<lambda>rs. Inr (rs @ [log_record now st ev pl]))"
proof -
  let ?r = "json_dumps True None (log_record now st ev pl)"
  obtain p d where pd: "log_record now st ev pl = PDict (p # d)"
    using log_record_Dict by blast
  have r: "strip ?r = ?r" "?r \<noteq> []" "json_loads ?r = Inr (log_record now st ev pl)"
    using strip_dump_record json_roundtrip [OF assms(2)] by (simp_all add: pd) (simp add: json_dumps_def)
  have plain: "list_all plain_char ?r" by (simp add: json_dumps_def plain_dump)
  note app = read_lines_append [OF _ plain r]
  show ?thesis
  proof (cases "dict_get fs (log_path (campaign_id st))")
    case None
    have "fold_res read_log_step [] (split_char lf_char (universal_newlines [])) = Inr []"
      by (simp add: read_log_step_def)
    with app [of "[]"] None show ?thesis by (simp add: read_log_def map_of_log_event)
  next
    case (Some old)
    then have "old = [] \<or> last old = lf_char" using assms(1) by (auto simp: fs_ok_def)
    from app [OF this] Some show ?thesis by (simp add: read_log_def map_of_log_event)
  qed
qed

section \<open>The contract of a storage backend\<close>

text \<open>
  \<open>StorageBackend\<close> is the protocol the orchestrator is written against. Its laws, for any
  implementation: a saved campaign is loaded back, a log is what was logged in order, and campaigns do
  not disturb each other.
\<close>

locale storage_backend =
  fixes sv :: "'fs \<Rightarrow> campaign \<Rightarrow> 'fs"
    and ld :: "'fs \<Rightarrow> string \<Rightarrow> exc + campaign"
    and dl :: "'fs \<Rightarrow> string \<Rightarrow> 'fs"
    and lg :: "'fs \<Rightarrow> campaign \<Rightarrow> 'ev \<Rightarrow> 'fs"
    and rd :: "'fs \<Rightarrow> string \<Rightarrow> exc + pyval list"
    and entry :: "campaign \<Rightarrow> 'ev \<Rightarrow> pyval"
    and storable :: "campaign \<Rightarrow> bool"
    and loggable :: "campaign \<Rightarrow> 'ev \<Rightarrow> bool"
    and inv :: "'fs \<Rightarrow> bool"
  assumes inv_sv: "inv fs \<Longrightarrow> inv (sv fs st)"
    and inv_dl: "inv fs \<Longrightarrow> inv (dl fs cid)"
    and inv_lg: "inv fs \<Longrightarrow> inv (lg fs st ev)"
    and ld_sv: "inv fs \<Longrightarrow> storable st \<Longrightarrow> ld (sv fs st) (campaign_id st) = Inr st"
    and ld_sv_other: "inv fs \<Longrightarrow> cid \<noteq> campaign_id st \<Longrightarrow> ld (sv fs st) cid = ld fs cid"
    and ld_lg: "inv fs \<Longrightarrow> ld (lg fs st ev) cid = ld fs cid"
    and ld_dl: "inv fs \<Longrightarrow> ld (dl fs cid) cid = Inl (FileNotFoundError ''no campaign'')"
    and ld_dl_other: "inv fs \<Longrightarrow> cid' \<noteq> cid \<Longrightarrow> ld (dl fs cid) cid' = ld fs cid'"
    and rd_sv: "inv fs \<Longrightarrow> rd (sv fs st) cid = rd fs cid"
    and rd_lg: "inv fs \<Longrightarrow> loggable st ev \<Longrightarrow>
      rd (lg fs st ev) (campaign_id st) =
        bind_res (rd fs (campaign_id st)) (\<lambda>rs. Inr (rs @ [entry st ev]))"
    and rd_lg_other: "inv fs \<Longrightarrow> cid \<noteq> campaign_id st \<Longrightarrow> rd (lg fs st ev) cid = rd fs cid"
    and rd_dl: "inv fs \<Longrightarrow> rd (dl fs cid) cid = Inr []"
    and rd_dl_other: "inv fs \<Longrightarrow> cid' \<noteq> cid \<Longrightarrow> rd (dl fs cid) cid' = rd fs cid'"
begin

text \<open>A journal of saves and log entries, applied from the left.\<close>

lemma inv_journal:
  "inv fs \<Longrightarrow> inv (foldl (\<lambda>fs op. case op of Inl st \<Rightarrow> sv fs st | Inr (st, ev) \<Rightarrow> lg fs st ev) fs ops)"
  by (induction ops arbitrary: fs) (auto simp: inv_sv inv_lg split: sum.split)

lemma journal_load:
  assumes "inv fs" and "\<And>st. Inl st \<in> set ops \<Longrightarrow> storable st"
  shows "ld (foldl (\<lambda>fs op. case op of Inl st \<Rightarrow> sv fs st | Inr (st, ev) \<Rightarrow> lg fs st ev) fs ops) cid =
    (case find (\<lambda>st. campaign_id st = cid)
        (rev (List.map_filter (\<lambda>op. case op of Inl st \<Rightarrow> Some st | Inr _ \<Rightarrow> None) ops)) of
       Some st \<Rightarrow> Inr st
     | None \<Rightarrow> ld fs cid)"
  using assms
proof (induction ops rule: rev_induct)
  case Nil
  then show ?case by (simp add: map_filter_def)
next
  case (snoc op ops)
  have IH: "inv (foldl (\<lambda>fs op. case op of Inl st \<Rightarrow> sv fs st | Inr (st, ev) \<Rightarrow> lg fs st ev) fs ops)"
    using snoc.prems(1) by (rule inv_journal)
  show ?case
  proof (cases op)
    case (Inl st)
    then have "storable st" using snoc.prems(2) by simp
    then show ?thesis
      using IH snoc Inl by (cases "campaign_id st = cid") (auto simp: map_filter_def ld_sv ld_sv_other)
  next
    case (Inr p)
    then show ?thesis
      using IH snoc by (cases p) (auto simp: map_filter_def ld_lg)
  qed
qed

lemma journal_read:
  assumes "inv fs" and "\<And>st ev. Inr (st, ev) \<in> set ops \<Longrightarrow> loggable st ev"
  shows "rd (foldl (\<lambda>fs op. case op of Inl st \<Rightarrow> sv fs st | Inr (st, ev) \<Rightarrow> lg fs st ev) fs ops) cid =
    bind_res (rd fs cid) (\<lambda>rs. Inr (rs @
      List.map_filter (\<lambda>op. case op of Inl _ \<Rightarrow> None
        | Inr (st, ev) \<Rightarrow> if campaign_id st = cid then Some (entry st ev) else None) ops))"
  using assms
proof (induction ops rule: rev_induct)
  case Nil
  then show ?case by (cases "rd fs cid") (simp_all add: map_filter_def)
next
  case (snoc op ops)
  let ?fs = "foldl (\<lambda>fs op. case op of Inl st \<Rightarrow> sv fs st | Inr (st, ev) \<Rightarrow> lg fs st ev) fs ops"
  have IH: "inv ?fs" using snoc.prems(1) by (rule inv_journal)
  show ?case
  proof (cases op)
    case (Inl st)
    then show ?thesis using IH snoc by (auto simp: map_filter_def rd_sv)
  next
    case (Inr p)
    obtain st ev where p: "p = (st, ev)" by fastforce
    then have "loggable st ev" using snoc.prems(2) Inr by simp
    then show ?thesis
      using IH snoc Inr p
      by (cases "campaign_id st = cid") (auto simp: map_filter_def rd_lg rd_lg_other bind_res_assoc)
  qed
qed

end

type_synonym log_item = "pyval \<times> string \<times> pydict"

fun entry_of :: "campaign \<Rightarrow> log_item \<Rightarrow> pyval" where
  "entry_of st (now, ev, pl) = log_record now st ev pl"

fun log_entry :: "files \<Rightarrow> campaign \<Rightarrow> log_item \<Rightarrow> files" where
  "log_entry fs st (now, ev, pl) = log_event now fs st ev pl"

interpretation local_store: storage_backend save "load now fresh" delete log_entry read_log entry_of
  "\<lambda>st. campaign_ok st \<and> campaign_json st" "\<lambda>st ev. json_ok (entry_of st ev)" fs_ok
  for now fresh
proof (unfold_locales, goal_cases)
  case (10 fs st ev)
  then show ?case by (cases ev) (simp add: read_log_append)
next
  case (11 fs cid st ev)
  then show ?case by (cases ev) (simp add: read_log_def map_of_log_event)
next
  case (3 fs st ev)
  then show ?case by (cases ev) (simp add: fs_ok_log_event)
next
  case (6 fs st ev cid)
  then show ?case by (cases ev) (simp add: load_log_event)
qed (simp_all add: fs_ok_save fs_ok_delete load_save load_save_other load_delete read_log_save
    read_log_delete)

section \<open>Crashes\<close>

text \<open>
  Where a crash may leave the directory: before the next operation, in the middle of a write, or
  after it.
\<close>

inductive crashed :: "files \<Rightarrow> fs_op list \<Rightarrow> files \<Rightarrow> bool" where
  crash_here: "crashed fs ops fs"
| crash_write: "crashed fs (Write f t # ops) (fs_step fs (Write f (take n t)))"
| crash_append: "crashed fs (Append f t # ops) (fs_step fs (Append f (take n t)))"
| crash_later: "crashed (fs_step fs op) ops fs' \<Longrightarrow> crashed fs (op # ops) fs'"

inductive_cases crashed_NilE: "crashed fs [] fs'"
inductive_cases crashed_WriteE: "crashed fs (Write f t # ops) fs'"
inductive_cases crashed_RenameE: "crashed fs (Rename a b # ops) fs'"

lemma crashed_save:
  assumes "crashed fs (save_ops st) fs'" and "dict_ok fs"
  shows "fs' = save fs st \<or> (\<exists>t. fs' = dict_set (tmp_path (campaign_id st)) t fs) \<or> fs' = fs"
  using assms(1) unfolding save_ops_def
  by (elim crashed_WriteE crashed_RenameE crashed_NilE) (auto simp: save_def save_ops_def fs_run_def)

section \<open>Properties\<close>

definition sample_campaign :: campaign where
  "sample_campaign =
     \<lparr>campaign_id = ''c1'', target = ''example.com'', status = PStr ''scanning'',
      meta = PDict [(''k'', PInt 1)], created_at = PFloat 15 1, updated_at = PFloat 25 1,
      completed_at = PNone\<rparr>"

lemma sample_campaign_ok: "campaign_ok sample_campaign" "campaign_json sample_campaign"
  by (code_simp, code_simp)

text \<open>
  C14: Saving is atomic. Wherever a crash interrupts \<open>save\<close>, loading the campaign afterwards gives
  either what was stored before or the campaign that was being saved, and every other campaign is
  unchanged.
\<close>
theorem save_crash_atomic:
  assumes "crashed fs (save_ops st) fs'" and "fs_ok fs" and "campaign_ok st" and "campaign_json st"
  shows "(load now fresh fs' (campaign_id st) = Inr st \<or>
          load now fresh fs' (campaign_id st) = load now fresh fs (campaign_id st)) \<and>
    (\<forall>cid. cid \<noteq> campaign_id st \<longrightarrow> load now fresh fs' cid = load now fresh fs cid)"
proof -
  have ok: "dict_ok fs" using assms(2) by (simp add: fs_ok_def)
  from crashed_save [OF assms(1) ok] show ?thesis
  proof (elim disjE exE)
    assume "fs' = save fs st"
    then show ?thesis using assms by (simp add: load_save load_save_other)
  next
    fix t assume "fs' = dict_set (tmp_path (campaign_id st)) t fs"
    then show ?thesis by (simp add: load_def)
  qed simp
qed

theorem save_crash_atomic_witness:
  "\<exists>fs'. crashed [] (save_ops sample_campaign) fs' \<and>
     load PNone ''f'' fs' (campaign_id sample_campaign) \<noteq> Inr sample_campaign \<and>
     load PNone ''f'' fs' (campaign_id sample_campaign) =
       load PNone ''f'' [] (campaign_id sample_campaign)"
proof -
  let ?fs = "fs_step [] (Write (tmp_path ''c1'')
    (take 3 (json_dumps True (Some 2) (to_dict sample_campaign))))"
  have c: "crashed [] (save_ops sample_campaign) ?fs"
    unfolding save_ops_def by (simp only: sample_campaign_def campaign.simps) (rule crash_write)
  have "load PNone ''f'' ?fs (campaign_id sample_campaign) \<noteq> Inr sample_campaign"
    by (simp add: load_def sample_campaign_def path_distinct [symmetric])
  with c show ?thesis
    using save_crash_atomic [OF c fs_ok_empty sample_campaign_ok, of PNone "''f''"] by blast
qed

text \<open>
  A campaign written by \<open>save\<close> is read back by \<open>load\<close> exactly as it was, every field
  included, whatever the store held.
\<close>
theorem save_load_roundtrip:
  assumes "fs_ok fs" and "campaign_ok st" and "campaign_json st"
  shows "load now fresh (save fs st) (campaign_id st) = Inr st"
  by (rule local_store.ld_sv) (use assms in auto)

theorem save_load_roundtrip_witness:
  "load PNone ''f'' (save [] sample_campaign) ''c1'' = Inr sample_campaign"
  using save_load_roundtrip [OF fs_ok_empty sample_campaign_ok, of PNone "''f''"]
  by (simp add: sample_campaign_def)

text \<open>
  The status machine. An unknown status raises and changes nothing, the current status is a no-op,
  and any other choice is taken with the clock in \<open>updated_at\<close>; \<open>completed_at\<close> is set
  to the same reading exactly when the campaign ends.
\<close>
theorem transition_spec:
  "transition now s st =
     (if s \<notin> set STATUS_CHOICES then Inl (ValueError ''invalid status'')
      else if status st = PStr s then Inr st
      else Inr (st\<lparr>status := PStr s, updated_at := now,
                   completed_at := (if s \<in> {''done'', ''failed'', ''aborted''} then now
                                    else completed_at st)\<rparr>))"
  by (auto simp: transition_def TERMINAL_def Let_def)

text \<open>
  The audit log is append-only: logging an event adds exactly its record at the end of what
  \<open>read_log\<close> returned before, and leaves the logs of other campaigns and every saved campaign
  alone.
\<close>
theorem log_event_appends:
  assumes "fs_ok fs" and "json_ok (log_record now st ev pl)"
  shows "read_log (log_event now fs st ev pl) cid =
      (if cid = campaign_id st
       then bind_res (read_log fs cid) (\<lambda>rs. Inr (rs @ [log_record now st ev pl]))
       else read_log fs cid) \<and>
    load now' fresh (log_event now fs st ev pl) cid' = load now' fresh fs cid'"
  using assms by (simp add: read_log_append load_log_event) (simp add: read_log_def map_of_log_event)

lemma sample_record_ok: "json_ok (log_record (PFloat 15 1) sample_campaign ''plan_built'' [(''n'', PInt 2)])"
  by code_simp

theorem log_event_appends_witness:
  "read_log (log_event (PFloat 15 1) [] sample_campaign ''plan_built'' [(''n'', PInt 2)]) ''c1'' =
     Inr [log_record (PFloat 15 1) sample_campaign ''plan_built'' [(''n'', PInt 2)]]"
  using log_event_appends [OF fs_ok_empty sample_record_ok, of "''c1''"]
  by (simp add: sample_campaign_def) (simp add: read_log_def)

text \<open>
  One damaged file stops \<open>load_all\<close>. A state file that holds a JSON list is not skipped like
  other malformed files: the \<open>TypeError\<close> it causes escapes, whatever else the directory holds
  after it.
\<close>
theorem load_all_type_error:
  "load_all now fresh [(''a.json'', ''[]''), (''b.json'', ''{'')] =
     Inl (TypeError ''indices must be integers or slices'') \<and>
   load_all now fresh [(''b.json'', ''{'')] = Inr []"
proof -
  have loads: "json_loads ''[]'' = Inr (PList [])" "json_loads ''{'' = Inl JSONDecodeError"
    by (code_simp, code_simp)
  have names: "sort (filter (endswith ''.json'')
      (dict_keys [(''a.json'', ''[]''), (''b.json'', ''{'')])) = [''a.json'', ''b.json'']"
    "sort (filter (endswith ''.json'') (dict_keys [(''b.json'', ''{'')])) = [''b.json'']"
    "\<not> endswith ''.tmp'' ''a.json''" "\<not> endswith ''.tmp'' ''b.json''"
    by (code_simp, code_simp, code_simp, code_simp)
  show ?thesis
    unfolding load_all_def names(1,2)
    by (simp add: load_all_step_def names(3,4) load_text_def loads)
qed

end
