(* ===== verification/Planner.thy ===== *)
theory Planner
  imports PyJson "HOL-Library.Product_Lexorder"
begin

text \<open>
  \<open>core/planner.py\<close>: intelligence items become plan steps with dependencies, and steps become
  waves of at most \<open>max_concurrency\<close> that run in parallel. The step counter of the planner is
  threaded explicitly; the scheduling loop, which does not end for every width, is a partial function
  whose divergence is the value \<open>None\<close>.
\<close>

section \<open>Plan steps\<close>

record plan_step =
  step_id :: int
  step_module :: pyval
  action :: pyval
  step_target :: string
  priority :: pyval
  depends_on :: "int list"
  params :: pydict
  step_status :: pyval

definition step_to_dict :: "plan_step \<Rightarrow> pyval" where
  "step_to_dict s = PDict
     [(''step_id'', PInt (step_id s)), (''module'', step_module s), (''action'', action s),
      (''target'', PStr (step_target s)), (''priority'', priority s),
      (''depends_on'', PList (map PInt (depends_on s))), (''params'', PDict (params s)),
      (''status'', step_status s)]"

definition LEGACY_MODULE_NAMES :: "(string \<times> string) list" where
  "LEGACY_MODULE_NAMES = [(''exfil'', ''collector'')]"

definition canonical_module :: "pydict \<Rightarrow> pydict" where
  "canonical_module item =
     (case dget item ''module'' of
        PStr m \<Rightarrow>
          let canonical = (case map_of LEGACY_MODULE_NAMES m of Some c \<Rightarrow> c | None \<Rightarrow> m)
          in if canonical = m then item else dict_set ''module'' (PStr canonical) item
      | _ \<Rightarrow> item)"

definition MODULE_PRIORITY :: "string \<Rightarrow> pyval" where
  "MODULE_PRIORITY m =
     (case map_of [(''stealth'', 5), (''discovery'', 10), (''asset'', 15), (''recon'', 20),
                   (''collector'', 40 :: int)] m of
        Some p \<Rightarrow> PInt p | None \<Rightarrow> PNone)"

section \<open>Planning\<close>

text \<open>The steps built so far and the planner's counter.\<close>

type_synonym builder = "int \<times> plan_step list"

definition mk_step ::
  "pyval \<Rightarrow> pyval \<Rightarrow> string \<Rightarrow> pyval \<Rightarrow> int list \<Rightarrow> pydict \<Rightarrow> builder \<Rightarrow> builder" where
  "mk_step m a tgt prio deps ps b =
     (case b of (n, steps) \<Rightarrow>
        (n + 1, steps @ [\<lparr>step_id = n + 1, step_module = m, action = a, step_target = tgt,
                          priority = prio, depends_on = deps, params = ps,
                          step_status = PStr ''pending''\<rparr>]))"

text \<open>\<open>dict(v or {})\<close>.\<close>

definition params_of :: "pyval \<Rightarrow> exc + pydict" where
  "params_of v =
     (if \<not> truthy v then Inr []
      else (case v of
              PDict d \<Rightarrow> Inr d
            | PList _ \<Rightarrow> Inl OutOfModel
            | PStr _ \<Rightarrow> Inl (ValueError ''dictionary update sequence element'')
            | _ \<Rightarrow> Inl (TypeError ''object is not iterable'')))"

definition step_ids :: "builder \<Rightarrow> int list" where
  "step_ids b = map step_id (snd b)"

definition items_of :: "string \<Rightarrow> pydict list \<Rightarrow> pydict list" where
  "items_of m items = filter (\<lambda>i. dget i ''module'' = PStr m) items"

definition extra_items :: "pydict list \<Rightarrow> pydict list" where
  "extra_items items = filter (\<lambda>i. dget i ''module'' \<notin>
     set (map PStr [''discovery'', ''asset'', ''recon'', ''stealth'', ''collector''])) items"

definition add_stealth :: "string \<Rightarrow> builder \<Rightarrow> pydict \<Rightarrow> exc + builder" where
  "add_stealth tgt b it =
     bind_res (params_of (dget it ''params'')) (\<lambda>ps.
       Inr (mk_step (PStr ''stealth'') (dget_or it ''action'' (PStr ''pace'')) tgt
              (dget_or it ''priority'' (MODULE_PRIORITY ''stealth'')) [] ps b))"

definition add_discovery :: "string \<Rightarrow> builder \<Rightarrow> pydict \<Rightarrow> exc + builder" where
  "add_discovery tgt b it =
     Inr (mk_step (dget_or it ''module'' (PStr ''discovery'')) (dget_or it ''action'' (PStr ''scan''))
            tgt (dget_or it ''priority'' (MODULE_PRIORITY ''discovery'')) [] [] b)"

definition add_asset :: "string \<Rightarrow> int list \<Rightarrow> builder \<Rightarrow> pydict \<Rightarrow> exc + builder" where
  "add_asset tgt deps b it =
     bind_res (params_of (dget it ''params'')) (\<lambda>ps.
       Inr (mk_step (PStr ''asset'') (dget_or it ''action'' (PStr ''discover'')) tgt
              (dget_or it ''priority'' (MODULE_PRIORITY ''asset'')) deps ps b))"

definition add_recon :: "string \<Rightarrow> builder \<Rightarrow> pydict \<Rightarrow> exc + builder" where
  "add_recon tgt b it =
     Inr (mk_step (dget_or it ''module'' (PStr ''recon'')) (dget_or it ''action'' (PStr ''fingerprint''))
            tgt (dget_or it ''priority'' (MODULE_PRIORITY ''recon'')) (step_ids b) [] b)"

definition add_extra :: "string \<Rightarrow> builder \<Rightarrow> pydict \<Rightarrow> exc + builder" where
  "add_extra tgt b it =
     bind_res (dindex it ''module'') (\<lambda>m.
       Inr (mk_step m (dget_or it ''action'' (PStr ''run'')) tgt (dget_or it ''priority'' (PInt 25))
              (step_ids b) [] b))"

definition build_steps :: "int \<Rightarrow> pydict list \<Rightarrow> string \<Rightarrow> exc + builder" where
  "build_steps n intelligence tgt =
     (let normalised = map canonical_module intelligence;
          discovery = items_of ''discovery'' normalised;
          asset = items_of ''asset'' normalised
      in
      bind_res (fold_res (add_stealth tgt) (n, []) (items_of ''stealth'' normalised)) (\<lambda>b.
      let b = (if discovery = []
               then mk_step (PStr ''discovery'') (PStr ''scan'') tgt (MODULE_PRIORITY ''discovery'') [] [] b
               else b) in
      bind_res (fold_res (add_discovery tgt) b discovery) (\<lambda>b.
      let deps = step_ids b;
          b = (if asset = []
               then mk_step (PStr ''asset'') (PStr ''discover'') tgt (MODULE_PRIORITY ''asset'') deps [] b
               else b) in
      bind_res (fold_res (add_asset tgt deps) b asset) (\<lambda>b.
      bind_res (fold_res (add_recon tgt) b (items_of ''recon'' normalised)) (\<lambda>b.
      bind_res (fold_res (add_extra tgt) b (extra_items normalised)) (\<lambda>b.
      Inr (if snd b \<noteq> []
           then mk_step (PStr ''collector'') (PStr ''collect'') tgt (MODULE_PRIORITY ''collector'')
                  (step_ids b) [] b
           else b)))))))"

text \<open>Priorities are compared as numbers; comparing a number with another kind of value raises.\<close>

definition numeric :: "pyval \<Rightarrow> bool" where
  "numeric v \<longleftrightarrow> num_of v \<noteq> None"

definition prio :: "plan_step \<Rightarrow> rat" where
  "prio s = (case num_of (priority s) of Some q \<Rightarrow> q | None \<Rightarrow> 0)"

definition sort_steps :: "(plan_step \<Rightarrow> 'k::linorder) \<Rightarrow> plan_step list \<Rightarrow> exc + plan_step list" where
  "sort_steps key steps =
     (if length steps \<le> 1 then Inr steps
      else if list_all (\<lambda>s. numeric (priority s)) steps then Inr (sort_key key steps)
      else if list_ex (\<lambda>s. numeric (priority s)) steps then Inl (TypeError ''not supported between instances'')
      else Inl OutOfModel)"

definition plan :: "int \<Rightarrow> pydict list \<Rightarrow> string \<Rightarrow> exc + (int \<times> plan_step list)" where
  "plan n intelligence tgt =
     bind_res (build_steps n intelligence tgt) (\<lambda>b.
     bind_res (sort_steps (\<lambda>s. (prio s, step_id s)) (snd b)) (\<lambda>steps.
     Inr (fst b, steps)))"

section \<open>Scheduling\<close>

definition ready :: "int list \<Rightarrow> (int, plan_step) dict \<Rightarrow> plan_step list" where
  "ready completed remaining =
     filter (\<lambda>s. list_all (\<lambda>d. d \<in> set completed) (depends_on s)) (map snd remaining)"

text \<open>\<open>min(steps, key=step_id)\<close>: the first of the smallest.\<close>

fun min_step :: "plan_step \<Rightarrow> plan_step list \<Rightarrow> plan_step" where
  "min_step m [] = m"
| "min_step m (s # ss) = min_step (if step_id s < step_id m then s else m) ss"

definition next_wave :: "int list \<Rightarrow> (int, plan_step) dict \<Rightarrow> plan_step list" where
  "next_wave completed remaining =
     (case ready completed remaining of
        [] \<Rightarrow> (case map snd remaining of [] \<Rightarrow> [] | s # ss \<Rightarrow> [min_step s ss])
      | w \<Rightarrow> w)"

definition drop_steps :: "plan_step list \<Rightarrow> (int, plan_step) dict \<Rightarrow> (int, plan_step) dict" where
  "drop_steps batch remaining = foldl (\<lambda>d s. dict_del (step_id s) d) remaining batch"

partial_function (option) schedule_loop ::
  "int \<Rightarrow> int list \<Rightarrow> (int, plan_step) dict \<Rightarrow> plan_step list list \<Rightarrow> (exc + plan_step list list) option"
where
  "schedule_loop k completed remaining waves =
     (if remaining = [] then Some (Inr waves)
      else (case sort_steps prio (next_wave completed remaining) of
              Inl e \<Rightarrow> Some (Inl e)
            | Inr wave \<Rightarrow>
                schedule_loop k (completed @ map step_id (slice_to k wave))
                  (drop_steps (slice_to k wave) remaining) (waves @ [slice_to k wave])))"

declare schedule_loop.simps [code]

definition remaining_of :: "plan_step list \<Rightarrow> (int, plan_step) dict" where
  "remaining_of steps = foldl (\<lambda>d s. dict_set (step_id s) s d) [] steps"

definition schedule :: "int \<Rightarrow> plan_step list \<Rightarrow> (exc + plan_step list list) option" where
  "schedule k steps = schedule_loop k [] (remaining_of steps) []"

section \<open>The JSON form\<close>

definition to_json :: "plan_step list \<Rightarrow> string" where
  "to_json steps = json_dumps False (Some 2) (PList (map step_to_dict steps))"

fun int_list_of :: "pyval \<Rightarrow> exc + int list" where
  "int_list_of (PList vs) =
     map_res (\<lambda>v. case v of PInt i \<Rightarrow> Inr i | _ \<Rightarrow> Inl OutOfModel) vs"
| "int_list_of (PStr _) = Inl OutOfModel"
| "int_list_of (PDict _) = Inl OutOfModel"
| "int_list_of _ = Inl (TypeError ''object is not iterable'')"

fun step_of_dict :: "pyval \<Rightarrow> exc + plan_step" where
  "step_of_dict (PDict d) =
     bind_res (dindex d ''step_id'') (\<lambda>i.
     bind_res (dindex d ''module'') (\<lambda>m.
     bind_res (dindex d ''action'') (\<lambda>a.
     bind_res (dindex d ''target'') (\<lambda>t.
     bind_res (int_list_of (dget_or d ''depends_on'' (PList []))) (\<lambda>deps.
     (case (i, t, dget_or d ''params'' (PDict [])) of
        (PInt n, PStr tgt, PDict ps) \<Rightarrow>
          Inr \<lparr>step_id = n, step_module = m, action = a, step_target = tgt,
               priority = dget_or d ''priority'' (PInt 100), depends_on = deps, params = ps,
               step_status = dget_or d ''status'' (PStr ''pending'')\<rparr>
      | _ \<Rightarrow> Inl OutOfModel))))))"
| "step_of_dict (PList _) = Inl (TypeError ''indices must be integers or slices'')"
| "step_of_dict (PStr _) = Inl (TypeError ''indices must be integers'')"
| "step_of_dict _ = Inl (TypeError ''object is not subscriptable'')"

definition from_json :: "string \<Rightarrow> exc + plan_step list" where
  "from_json text =
     bind_res (json_loads text) (\<lambda>v.
       case v of
         PList vs \<Rightarrow> map_res step_of_dict vs
       | PDict _ \<Rightarrow> Inl OutOfModel
       | PStr _ \<Rightarrow> Inl OutOfModel
       | _ \<Rightarrow> Inl (TypeError ''object is not iterable''))"

section \<open>The scheduling loop\<close>

definition remaining_ok :: "(int, plan_step) dict \<Rightarrow> bool" where
  "remaining_ok rem \<longleftrightarrow> dict_ok rem \<and> (\<forall>(i, s)\<in>set rem. step_id s = i) \<and>
     (\<forall>(i, s)\<in>set rem. numeric (priority s))"

lemma remaining_ok_filter: "remaining_ok rem \<Longrightarrow> remaining_ok (filter P rem)"
  by (auto simp: remaining_ok_def)

lemma drop_steps_filter:
  "dict_ok rem \<Longrightarrow> drop_steps batch rem = filter (\<lambda>p. fst p \<notin> step_id ` set batch) rem"
proof (induction batch arbitrary: rem)
  case Nil
  then show ?case by (simp add: drop_steps_def)
next
  case (Cons s batch)
  have "drop_steps (s # batch) rem = drop_steps batch (dict_del (step_id s) rem)"
    by (simp add: drop_steps_def)
  then show ?case
    using Cons by (simp add: dict_del_filter)
qed

lemma min_step_in: "min_step m ss \<in> set (m # ss)"
  by (induction m ss rule: min_step.induct) auto

lemma min_step_le: "s \<in> set (m # ss) \<Longrightarrow> step_id (min_step m ss) \<le> step_id s"
proof (induction m ss arbitrary: s rule: min_step.induct)
  case (1 m)
  then show ?case by simp
next
  case (2 m t ss)
  let ?m = "if step_id t < step_id m then t else m"
  have "step_id (min_step ?m ss) \<le> step_id ?m" by (rule 2(1)) simp
  moreover have "s \<in> set ss \<Longrightarrow> step_id (min_step ?m ss) \<le> step_id s" by (rule 2(1)) simp
  ultimately show ?case using 2(2) by (auto split: if_splits)
qed

lemma next_wave_facts:
  assumes "rem \<noteq> []"
  shows "next_wave completed rem \<noteq> []" "set (next_wave completed rem) \<subseteq> snd ` set rem"
proof -
  obtain p ps where ps: "rem = p # ps" using assms by (cases rem) auto
  show "next_wave completed rem \<noteq> []"
    using ps by (auto simp: next_wave_def split: list.split)
  show "set (next_wave completed rem) \<subseteq> snd ` set rem"
  proof (cases "ready completed rem")
    case Nil
    then show ?thesis
      using ps min_step_in [of "snd p" "map snd ps"] by (auto simp: next_wave_def)
  next
    case (Cons s w)
    then have "set (next_wave completed rem) = set (ready completed rem)"
      by (simp add: next_wave_def)
    then show ?thesis by (auto simp: ready_def)
  qed
qed

lemma next_wave_distinct:
  assumes "remaining_ok rem"
  shows "distinct (next_wave completed rem)"
proof (cases "ready completed rem")
  case Nil
  then show ?thesis by (auto simp: next_wave_def split: list.split)
next
  case (Cons s w)
  have "map step_id (map snd rem) = dict_keys rem"
    unfolding map_map by (rule map_cong) (use assms in \<open>auto simp: remaining_ok_def\<close>)
  moreover have "distinct (dict_keys rem)"
    using assms by (simp only: remaining_ok_def dict_ok_def)
  ultimately have "distinct (map step_id (map snd rem))" by metis
  then have "distinct (map snd rem)" unfolding distinct_map [of step_id] by simp
  then have "distinct (ready completed rem)" by (simp add: ready_def)
  then show ?thesis by (simp add: next_wave_def Cons)
qed

lemma sort_steps_numeric:
  assumes "\<And>s. s \<in> set steps \<Longrightarrow> numeric (priority s)"
  shows "\<exists>out. sort_steps key steps = Inr out \<and> mset out = mset steps \<and> sorted (map key out)"
proof (cases "length steps \<le> 1")
  case True
  then show ?thesis by (cases steps) (auto simp: sort_steps_def)
next
  case False
  then show ?thesis using assms by (auto simp: sort_steps_def list_all_iff)
qed

text \<open>Every step of a wave depends on completed steps only.\<close>

fun ordered :: "int list \<Rightarrow> plan_step list list \<Rightarrow> bool" where
  "ordered completed [] = True"
| "ordered completed (w # ws) =
     (list_all (\<lambda>s. set (depends_on s) \<subseteq> set completed) w \<and> ordered (completed @ map step_id w) ws)"

definition deps_closed :: "int list \<Rightarrow> (int, plan_step) dict \<Rightarrow> bool" where
  "deps_closed completed rem \<longleftrightarrow>
     (\<forall>(i, s)\<in>set rem. \<forall>d\<in>set (depends_on s).
        d \<in> set completed \<or> d \<in> fst ` set rem \<and> d < i)"

lemma closed_next_wave:
  assumes "deps_closed completed rem" and "remaining_ok rem" and "s \<in> set (next_wave completed rem)"
  shows "set (depends_on s) \<subseteq> set completed"
proof (cases "ready completed rem")
  case Nil
  then have "rem \<noteq> []" using assms(3) by (auto simp: next_wave_def)
  then obtain p ps where ps: "rem = p # ps" by (cases rem) auto
  let ?m = "min_step (snd p) (map snd ps)"
  have least: "step_id ?m \<le> i" if "(i, t) \<in> set rem" for i t
  proof -
    have "step_id t = i" using that assms(2) by (auto simp: remaining_ok_def)
    moreover have "t \<in> set (snd p # map snd ps)" using that ps by force
    ultimately show ?thesis using min_step_le by blast
  qed
  have "?m \<in> snd ` set rem" using min_step_in [of "snd p" "map snd ps"] ps by auto
  then obtain i where i: "(i, ?m) \<in> set rem" by force
  then have "step_id ?m = i" using assms(2) by (auto simp: remaining_ok_def)
  then have "set (depends_on ?m) \<subseteq> set completed"
    using assms(1) i least by (force simp: deps_closed_def)
  then have "?m \<in> set (ready completed rem)"
    using i by (force simp: ready_def list_all_iff)
  with Nil show ?thesis by simp
next
  case (Cons t w)
  then have "s \<in> set (ready completed rem)" using assms(3) by (simp add: next_wave_def)
  then show ?thesis by (auto simp: ready_def list_all_iff)
qed

lemma remaining_image: "remaining_ok rem \<Longrightarrow> (i, s) \<in> set rem \<Longrightarrow> step_id s = i"
  by (auto simp: remaining_ok_def)

lemma deps_closed_step:
  assumes "deps_closed completed rem" and "remaining_ok rem" and "set batch \<subseteq> snd ` set rem"
  shows "deps_closed (completed @ map step_id batch) (filter (\<lambda>p. fst p \<notin> step_id ` set batch) rem)"
proof -
  have "d \<in> set completed \<union> step_id ` set batch \<or>
      d \<in> fst ` set (filter (\<lambda>p. fst p \<notin> step_id ` set batch) rem) \<and> d < i"
    if "(i, s) \<in> set rem" "d \<in> set (depends_on s)" for i s d
  proof -
    have "d \<in> set completed \<or> d \<in> fst ` set rem \<and> d < i"
      using assms(1) that by (force simp: deps_closed_def)
    then show ?thesis by force
  qed
  then show ?thesis by (auto simp: deps_closed_def)
qed

lemma mset_filter_split:
  "mset (map snd rem) = mset (map snd (filter P rem)) + mset (map snd (filter (\<lambda>p. \<not> P p) rem))"
  by (induction rem) auto

lemma batch_mset:
  assumes "remaining_ok rem" and "distinct batch" and "set batch \<subseteq> snd ` set rem"
  shows "mset batch = mset (map snd (filter (\<lambda>p. fst p \<in> step_id ` set batch) rem))"
proof -
  let ?sel = "map snd (filter (\<lambda>p. fst p \<in> step_id ` set batch) rem)"
  have keys: "map step_id (map snd rem) = dict_keys rem"
    unfolding map_map by (rule map_cong) (use assms in \<open>auto simp: remaining_ok_def\<close>)
  moreover have "distinct (dict_keys rem)"
    using assms by (simp only: remaining_ok_def dict_ok_def)
  ultimately have dist: "distinct (map step_id (map snd rem))" by metis
  then have inj: "inj_on step_id (snd ` set rem)" by (simp only: distinct_map set_map)
  have "distinct (map snd rem)" using dist unfolding distinct_map [of step_id] by simp
  then have "distinct ?sel" by (rule distinct_map_filter)
  moreover have "set ?sel = set batch"
  proof
    show "set ?sel \<subseteq> set batch"
    proof
      fix s assume "s \<in> set ?sel"
      then obtain i where i: "(i, s) \<in> set rem" "i \<in> step_id ` set batch" by auto
      then obtain t where t: "t \<in> set batch" "step_id t = i" by auto
      have "step_id s = i" using assms(1) i(1) by (rule remaining_image)
      then have "s = t"
        using inj t i(1) assms(3) by (intro inj_onD [OF inj]) force+
      with t show "s \<in> set batch" by simp
    qed
    show "set batch \<subseteq> set ?sel"
    proof
      fix s assume s: "s \<in> set batch"
      then obtain i where i: "(i, s) \<in> set rem" using assms(3) by force
      then have "step_id s = i" using assms(1) by (simp add: remaining_image)
      with s i show "s \<in> set ?sel" by force
    qed
  qed
  ultimately show ?thesis using assms(2) by (metis set_eq_iff_mset_eq_distinct)
qed

text \<open>
  With a width of at least one and numeric priorities the loop ends; what it adds to the waves is
  every remaining step once, in non-empty waves no wider than allowed, each sorted by priority, and in
  dependency order when the dependencies allow one.
\<close>

lemma schedule_loop_total:
  assumes "1 \<le> k" and "remaining_ok rem"
  shows "\<exists>ws. schedule_loop k completed rem acc = Some (Inr (acc @ ws)) \<and>
    mset (concat ws) = mset (map snd rem) \<and>
    (\<forall>w\<in>set ws. w \<noteq> [] \<and> int (length w) \<le> k \<and> sorted (map prio w)) \<and>
    (deps_closed completed rem \<longrightarrow> ordered completed ws)"
  using assms(2)
proof (induction "length rem" arbitrary: completed rem acc rule: less_induct)
  case less
  show ?case
  proof (cases "rem = []")
    case True
    then show ?thesis by (subst schedule_loop.simps) simp
  next
    case False
    let ?w = "next_wave completed rem"
    have num: "numeric (priority s)" if "s \<in> set ?w" for s
    proof -
      have "s \<in> snd ` set rem" using that next_wave_facts(2) [OF False] by auto
      then show ?thesis using less.prems by (auto simp: remaining_ok_def)
    qed
    obtain w where w: "sort_steps prio ?w = Inr w" "mset w = mset ?w" "sorted (map prio w)"
      using sort_steps_numeric [OF num] by blast
    let ?b = "slice_to k w" and ?rem = "drop_steps (slice_to k w) rem"
    have setw: "set w = set ?w" using w(2) by (rule mset_eq_setD)
    have b: "?b = take (nat k) w" using assms(1) by (rule slice_to_pos)
    have ne: "?b \<noteq> []" using assms(1) next_wave_facts(1) [OF False] w(2) by (auto simp: b)
    have sub: "set ?b \<subseteq> snd ` set rem"
      using set_take_subset [of "nat k" w] next_wave_facts(2) [OF False, of completed]
      unfolding b setw by (rule subset_trans)
    have dist: "distinct ?b"
      using next_wave_distinct [OF less.prems] w(2) by (simp add: b) (metis distinct_take mset_eq_imp_distinct_iff)
    have rem: "?rem = filter (\<lambda>p. fst p \<notin> step_id ` set ?b) rem"
      using less.prems by (simp add: remaining_ok_def drop_steps_filter)
    obtain s where s: "s \<in> set ?b" using ne by (cases "?b") auto
    then obtain i where "(i, s) \<in> set rem" using sub by force
    then have "(i, s) \<in> set rem" "i \<in> step_id ` set ?b"
      using s less.prems by (force simp: remaining_image)+
    then have "length ?rem < length rem" unfolding rem by (intro length_filter_less) auto
    moreover have "remaining_ok ?rem" unfolding rem using less.prems by (rule remaining_ok_filter)
    ultimately obtain ws where ws:
      "schedule_loop k (completed @ map step_id ?b) ?rem (acc @ [?b]) = Some (Inr ((acc @ [?b]) @ ws))"
      "mset (concat ws) = mset (map snd ?rem)"
      "\<forall>w\<in>set ws. w \<noteq> [] \<and> int (length w) \<le> k \<and> sorted (map prio w)"
      "deps_closed (completed @ map step_id ?b) ?rem \<longrightarrow> ordered (completed @ map step_id ?b) ws"
      using less.hyps by blast
    have "schedule_loop k completed rem acc = Some (Inr (acc @ ?b # ws))"
      using ws(1) w(1) False by (subst schedule_loop.simps) simp
    moreover have "mset (concat (?b # ws)) = mset (map snd rem)"
      using ws(2) batch_mset [OF less.prems dist sub]
        mset_filter_split [of rem "\<lambda>p. fst p \<in> step_id ` set ?b"] by (simp add: rem)
    moreover have "ordered completed (?b # ws)" if closed: "deps_closed completed rem"
    proof -
      have "set (depends_on s) \<subseteq> set completed" if "s \<in> set ?b" for s
        using closed_next_wave [OF closed less.prems, of s] that setw set_take_subset [of "nat k" w]
        by (auto simp: b)
      moreover have "deps_closed (completed @ map step_id ?b) ?rem"
        unfolding rem by (rule deps_closed_step [OF closed less.prems sub])
      ultimately show ?thesis using ws(4) by (auto simp: list_all_iff)
    qed
    moreover have "int (length ?b) \<le> k" "sorted (map prio ?b)"
      using assms(1) w(3) by (auto simp: b sorted_wrt_take simp flip: take_map)
    ultimately show ?thesis using ws(3) ne by (intro exI [of _ "?b # ws"]) auto
  qed
qed

lemma remaining_of_snoc:
  "remaining_of (steps @ [s]) = dict_set (step_id s) s (remaining_of steps)"
  by (simp add: remaining_of_def)

lemma remaining_of_distinct:
  "distinct (map step_id steps) \<Longrightarrow> remaining_of steps = map (\<lambda>s. (step_id s, s)) steps"
proof (induction steps rule: rev_induct)
  case Nil
  then show ?case by (simp add: remaining_of_def)
next
  case (snoc s steps)
  then have "step_id s \<notin> set (dict_keys (map (\<lambda>s. (step_id s, s)) steps))" by auto
  with snoc show ?case by (simp only: remaining_of_snoc) (simp add: dict_set_new)
qed

lemma remaining_of_ok:
  assumes "distinct (map step_id steps)" and "\<And>s. s \<in> set steps \<Longrightarrow> numeric (priority s)"
  shows "remaining_ok (remaining_of steps)" "map snd (remaining_of steps) = steps"
proof -
  have eq: "remaining_of steps = map (\<lambda>s. (step_id s, s)) steps"
    by (rule remaining_of_distinct [OF assms(1)])
  have "map fst (map (\<lambda>s. (step_id s, s)) steps) = map step_id steps" by simp
  then have "dict_ok (remaining_of steps)"
    unfolding eq dict_ok_def using assms(1) by (simp only:)
  then show "remaining_ok (remaining_of steps)"
    using assms(2) by (auto simp: eq remaining_ok_def)
  show "map snd (remaining_of steps) = steps"
    by (simp add: eq map_idI)
qed

lemma schedule_total:
  assumes "1 \<le> k" and "distinct (map step_id steps)" and "\<And>s. s \<in> set steps \<Longrightarrow> numeric (priority s)"
  shows "\<exists>ws. schedule k steps = Some (Inr ws) \<and> mset (concat ws) = mset steps \<and>
    (\<forall>w\<in>set ws. w \<noteq> [] \<and> int (length w) \<le> k \<and> sorted (map prio w)) \<and>
    (deps_closed [] (remaining_of steps) \<longrightarrow> ordered [] ws)"
  using schedule_loop_total [OF assms(1) remaining_of_ok(1) [OF assms(2,3)], of "[]" "[]"]
    remaining_of_ok(2) [OF assms(2,3)]
  by (simp add: schedule_def)

lemma schedule_loop_zero:
  assumes "schedule_loop k completed rem acc = Some r"
  shows "k = 0 \<longrightarrow> rem \<noteq> [] \<longrightarrow> (\<exists>e. sort_steps prio (next_wave completed rem) = Inl e)"
proof (rule schedule_loop.raw_induct
    [where P = "\<lambda>k completed rem acc r. k = 0 \<longrightarrow> rem \<noteq> [] \<longrightarrow>
       (\<exists>e. sort_steps prio (next_wave completed rem) = Inl e)", OF _ assms])
  fix loop k completed acc r
  fix rem :: "(int, plan_step) dict"
  assume IH: "\<And>k completed rem acc r. loop k completed rem acc = Some r \<Longrightarrow>
      k = 0 \<longrightarrow> rem \<noteq> [] \<longrightarrow> (\<exists>e. sort_steps prio (next_wave completed rem) = Inl e)"
    and step: "(if rem = [] then Some (Inr acc)
      else case sort_steps prio (next_wave completed rem) of Inl e \<Rightarrow> Some (Inl e)
        | Inr wave \<Rightarrow> loop k (completed @ map step_id (slice_to k wave))
            (drop_steps (slice_to k wave) rem) (acc @ [slice_to k wave])) = Some r"
  show "k = 0 \<longrightarrow> rem \<noteq> [] \<longrightarrow> (\<exists>e. sort_steps prio (next_wave completed rem) = Inl e)"
  proof (intro impI)
    assume "k = 0" "rem \<noteq> []"
    with step IH [of 0 completed rem] show "\<exists>e. sort_steps prio (next_wave completed rem) = Inl e"
      by (cases "sort_steps prio (next_wave completed rem)") (auto simp: slice_to_def drop_steps_def)
  qed
qed

section \<open>What planning produces\<close>

definition builder_ok :: "int \<Rightarrow> string \<Rightarrow> builder \<Rightarrow> bool" where
  "builder_ok n0 tgt b \<longleftrightarrow>
     step_ids b = [n0 + 1..fst b] \<and> n0 \<le> fst b \<and>
     (\<forall>s\<in>set (snd b). step_target s = tgt \<and> (\<forall>d\<in>set (depends_on s). n0 < d \<and> d < step_id s))"

lemma builder_ok_init: "builder_ok n tgt (n, [])"
  by (simp add: builder_ok_def step_ids_def)

lemma builder_ok_mk:
  assumes "builder_ok n0 tgt b" and "set deps \<subseteq> set (step_ids b)"
  shows "builder_ok n0 tgt (mk_step m a tgt p deps ps b)"
proof -
  obtain n steps where b: "b = (n, steps)" by fastforce
  have "[n0 + 1..n + 1] = [n0 + 1..n] @ [n + 1]"
    using assms(1) b by (simp add: builder_ok_def upto_rec2)
  then show ?thesis using assms by (auto simp: b mk_step_def builder_ok_def step_ids_def)
qed

lemma step_ids_mk: "set (step_ids b) \<subseteq> set (step_ids (mk_step m a tgt p deps ps b))"
  by (cases b) (auto simp: mk_step_def step_ids_def)

lemma add_stealth_ok: "add_stealth tgt b it = Inr b' \<Longrightarrow> builder_ok n tgt b \<Longrightarrow> builder_ok n tgt b'"
  by (auto simp: add_stealth_def bind_res_eq_Inr intro: builder_ok_mk)

lemma add_discovery_ok:
  "add_discovery tgt b it = Inr b' \<Longrightarrow> builder_ok n tgt b \<Longrightarrow> builder_ok n tgt b'"
  by (auto simp: add_discovery_def intro: builder_ok_mk)

lemma add_asset_ok:
  "add_asset tgt deps b it = Inr b' \<Longrightarrow> builder_ok n tgt b \<and> set deps \<subseteq> set (step_ids b) \<Longrightarrow>
     builder_ok n tgt b' \<and> set deps \<subseteq> set (step_ids b')"
  using step_ids_mk by (fastforce simp: add_asset_def bind_res_eq_Inr intro: builder_ok_mk)

lemma add_recon_ok: "add_recon tgt b it = Inr b' \<Longrightarrow> builder_ok n tgt b \<Longrightarrow> builder_ok n tgt b'"
  by (auto simp: add_recon_def intro: builder_ok_mk)

lemma add_extra_ok: "add_extra tgt b it = Inr b' \<Longrightarrow> builder_ok n tgt b \<Longrightarrow> builder_ok n tgt b'"
  by (auto simp: add_extra_def bind_res_eq_Inr intro: builder_ok_mk)

text \<open>Modules present among the steps so far.\<close>

definition has_module :: "string \<Rightarrow> builder \<Rightarrow> bool" where
  "has_module m b \<longleftrightarrow> (\<exists>s\<in>set (snd b). step_module s = PStr m)"

lemma has_module_mk: "has_module m b \<Longrightarrow> has_module m (mk_step m' a tgt p deps ps b)"
  by (cases b) (auto simp: has_module_def mk_step_def)

lemma has_module_new: "has_module m (mk_step (PStr m) a tgt p deps ps b)"
  by (cases b) (auto simp: has_module_def mk_step_def)

lemma has_module_adds:
  "add_discovery tgt b it = Inr b' \<Longrightarrow> has_module m b \<Longrightarrow> has_module m b'"
  "add_asset tgt deps b it = Inr b' \<Longrightarrow> has_module m b \<Longrightarrow> has_module m b'"
  "add_recon tgt b it = Inr b' \<Longrightarrow> has_module m b \<Longrightarrow> has_module m b'"
  "add_extra tgt b it = Inr b' \<Longrightarrow> has_module m b \<Longrightarrow> has_module m b'"
  by (auto simp: add_discovery_def add_asset_def add_recon_def add_extra_def bind_res_eq_Inr
      has_module_mk)

lemma fold_last_invariant:
  assumes "fold_res f s xs = Inr s'" and "xs \<noteq> []"
    and "\<And>s x s'. x \<in> set xs \<Longrightarrow> f s x = Inr s' \<Longrightarrow> P s'"
  shows "P s'"
  using assms
proof (induction xs arbitrary: s)
  case Nil
  then show ?case by simp
next
  case (Cons x xs)
  then obtain t where t: "f s x = Inr t" "fold_res f t xs = Inr s'"
    by (auto simp: bind_res_eq_Inr)
  show ?case
  proof (cases "xs = []")
    case True
    then show ?thesis using t Cons.prems(3) by auto
  next
    case False
    then show ?thesis using t(2) Cons.IH Cons.prems(3) by auto
  qed
qed

lemma items_of_module: "it \<in> set (items_of m items) \<Longrightarrow> dget it ''module'' = PStr m"
  by (simp add: items_of_def)

lemma dget_or_PStr: "dget d k = PStr v \<Longrightarrow> dget_or d k w = PStr v"
  by (auto simp: dget_def dget_or_def split: option.splits)

lemma add_discovery_module:
  "it \<in> set (items_of ''discovery'' items) \<Longrightarrow> add_discovery tgt b it = Inr b' \<Longrightarrow>
     has_module ''discovery'' b'"
  by (auto simp: add_discovery_def has_module_new dget_or_PStr dest!: items_of_module)

lemma add_asset_module: "add_asset tgt deps b it = Inr b' \<Longrightarrow> has_module ''asset'' b'"
  by (auto simp: add_asset_def bind_res_eq_Inr has_module_new)

definition default_step :: "bool \<Rightarrow> string \<Rightarrow> string \<Rightarrow> string \<Rightarrow> int list \<Rightarrow> builder \<Rightarrow> builder" where
  "default_step absent m a tgt deps b =
     (if absent then mk_step (PStr m) (PStr a) tgt (MODULE_PRIORITY m) deps [] b else b)"

lemma default_step_ok:
  "builder_ok n tgt b \<Longrightarrow> set deps \<subseteq> set (step_ids b) \<Longrightarrow>
     builder_ok n tgt (default_step c m a tgt deps b)"
  by (simp add: default_step_def builder_ok_mk)

lemma default_step_ids: "set (step_ids b) \<subseteq> set (step_ids (default_step c m a tgt deps b))"
  using step_ids_mk by (auto simp: default_step_def)

lemma default_step_module:
  "has_module m b \<Longrightarrow> has_module m (default_step c m' a tgt deps b)"
  "c \<Longrightarrow> has_module m (default_step c m a tgt deps b)"
  by (simp_all add: default_step_def has_module_mk has_module_new)

lemma build_steps_stages:
  assumes "build_steps n intelligence tgt = Inr b"
  obtains b1 b2 b3 b4 b5 where
    "fold_res (add_stealth tgt) (n, []) (items_of ''stealth'' (map canonical_module intelligence)) = Inr b1"
    "fold_res (add_discovery tgt)
       (default_step (items_of ''discovery'' (map canonical_module intelligence) = []) ''discovery'' ''scan'' tgt [] b1)
       (items_of ''discovery'' (map canonical_module intelligence)) = Inr b2"
    "fold_res (add_asset tgt (step_ids b2))
       (default_step (items_of ''asset'' (map canonical_module intelligence) = []) ''asset'' ''discover'' tgt (step_ids b2) b2)
       (items_of ''asset'' (map canonical_module intelligence)) = Inr b3"
    "fold_res (add_recon tgt) b3 (items_of ''recon'' (map canonical_module intelligence)) = Inr b4"
    "fold_res (add_extra tgt) b4 (extra_items (map canonical_module intelligence)) = Inr b5"
    "b = default_step (snd b5 \<noteq> []) ''collector'' ''collect'' tgt (step_ids b5) b5"
  using assms
  by (simp only: build_steps_def Let_def bind_res_eq_Inr default_step_def) auto

lemma build_steps_ok:
  assumes "build_steps n intelligence tgt = Inr b"
  shows "\<exists>b5. builder_ok n tgt b5 \<and> has_module ''discovery'' b5 \<and> has_module ''asset'' b5 \<and>
    b = mk_step (PStr ''collector'') (PStr ''collect'') tgt (MODULE_PRIORITY ''collector'') (step_ids b5) [] b5"
proof -
  let ?items = "map canonical_module intelligence"
  obtain b1 b2 b3 b4 b5 where
    b1: "fold_res (add_stealth tgt) (n, []) (items_of ''stealth'' ?items) = Inr b1"
    and b2: "fold_res (add_discovery tgt)
       (default_step (items_of ''discovery'' ?items = []) ''discovery'' ''scan'' tgt [] b1)
       (items_of ''discovery'' ?items) = Inr b2"
    and b3: "fold_res (add_asset tgt (step_ids b2))
       (default_step (items_of ''asset'' ?items = []) ''asset'' ''discover'' tgt (step_ids b2) b2)
       (items_of ''asset'' ?items) = Inr b3"
    and b4: "fold_res (add_recon tgt) b3 (items_of ''recon'' ?items) = Inr b4"
    and b5: "fold_res (add_extra tgt) b4 (extra_items ?items) = Inr b5"
    and b: "b = default_step (snd b5 \<noteq> []) ''collector'' ''collect'' tgt (step_ids b5) b5"
    by (rule build_steps_stages [OF assms])
  have ok1: "builder_ok n tgt b1"
    by (rule fold_res_invariant [OF b1]) (auto intro: builder_ok_init add_stealth_ok)
  have ok2: "builder_ok n tgt b2"
    by (rule fold_res_invariant [OF b2]) (auto intro: default_step_ok ok1 add_discovery_ok)
  have ok3: "builder_ok n tgt b3 \<and> set (step_ids b2) \<subseteq> set (step_ids b3)"
  proof (rule fold_res_invariant [OF b3])
    show "builder_ok n tgt (default_step (items_of ''asset'' ?items = []) ''asset'' ''discover'' tgt
          (step_ids b2) b2) \<and>
        set (step_ids b2) \<subseteq> set (step_ids (default_step (items_of ''asset'' ?items = []) ''asset''
          ''discover'' tgt (step_ids b2) b2))"
      by (intro conjI default_step_ok default_step_ids ok2) simp
  qed (rule add_asset_ok)
  have ok4: "builder_ok n tgt b4"
    by (rule fold_res_invariant [OF b4]) (auto intro: ok3 [THEN conjunct1] add_recon_ok)
  have ok5: "builder_ok n tgt b5"
    by (rule fold_res_invariant [OF b5]) (auto intro: ok4 add_extra_ok)
  have "has_module ''discovery'' b2"
  proof (cases "items_of ''discovery'' ?items = []")
    case True
    then show ?thesis using b2 by (auto simp: default_step_module(2))
  next
    case False
    show ?thesis by (rule fold_last_invariant [OF b2 False]) (rule add_discovery_module)
  qed
  then have d3: "has_module ''discovery'' b3"
    by - (rule fold_res_invariant [OF b3], auto intro: default_step_module has_module_adds)
  have a3: "has_module ''asset'' b3"
  proof (cases "items_of ''asset'' ?items = []")
    case True
    then show ?thesis using b3 by (auto simp: default_step_module(2))
  next
    case False
    show ?thesis by (rule fold_last_invariant [OF b3 False]) (rule add_asset_module)
  qed
  have 4: "has_module m b3 \<Longrightarrow> has_module m b4" for m
    by (rule fold_res_invariant [OF b4]) (auto intro: has_module_adds)
  have 5: "has_module m b4 \<Longrightarrow> has_module m b5" for m
    by (rule fold_res_invariant [OF b5]) (auto intro: has_module_adds)
  have "snd b5 \<noteq> []" using 5 [OF 4 [OF d3]] by (auto simp: has_module_def)
  then have "b = mk_step (PStr ''collector'') (PStr ''collect'') tgt
      (MODULE_PRIORITY ''collector'') (step_ids b5) [] b5"
    using b by (simp add: default_step_def)
  then show ?thesis using ok5 5 [OF 4 [OF d3]] 5 [OF 4 [OF a3]] by blast
qed

lemma sort_steps_Inr:
  assumes "sort_steps key steps = Inr out"
  shows "mset out = mset steps"
    and "1 < length steps \<Longrightarrow> sorted (map key out) \<and> list_all (\<lambda>s. numeric (priority s)) out"
  using assms by (auto simp: sort_steps_def list_all_iff split: if_splits)

definition plan_ok :: "int \<Rightarrow> string \<Rightarrow> int \<Rightarrow> plan_step list \<Rightarrow> bool" where
  "plan_ok n tgt n' steps \<longleftrightarrow>
     distinct (map step_id steps) \<and> set (map step_id steps) = {n + 1..n'} \<and>
     (\<forall>s\<in>set steps. step_target s = tgt \<and> numeric (priority s) \<and>
        (\<forall>d\<in>set (depends_on s). n < d \<and> d < step_id s)) \<and>
     sorted (map (\<lambda>s. (prio s, step_id s)) steps) \<and>
     (\<exists>s\<in>set steps. step_module s = PStr ''discovery'') \<and>
     (\<exists>s\<in>set steps. step_module s = PStr ''asset'') \<and>
     (\<exists>c\<in>set steps. step_module c = PStr ''collector'' \<and> step_id c = n' \<and>
        set (depends_on c) = {n + 1..<n'})"

lemma plan_sound:
  assumes "plan n intelligence tgt = Inr (n', steps)"
  shows "plan_ok n tgt n' steps"
proof -
  obtain b where b: "build_steps n intelligence tgt = Inr b" and n': "n' = fst b"
    and sorted: "sort_steps (\<lambda>s. (prio s, step_id s)) (snd b) = Inr steps"
    using assms by (auto simp: plan_def bind_res_eq_Inr)
  obtain b5 where b5: "builder_ok n tgt b5" "has_module ''discovery'' b5" "has_module ''asset'' b5"
    and eq: "b = mk_step (PStr ''collector'') (PStr ''collect'') tgt (MODULE_PRIORITY ''collector'')
      (step_ids b5) [] b5"
    using build_steps_ok [OF b] by blast
  obtain m old where old: "b5 = (m, old)" by fastforce
  have ok: "builder_ok n tgt b" unfolding eq by (rule builder_ok_mk [OF b5(1)]) simp
  have mods: "has_module ''discovery'' b" "has_module ''asset'' b"
    unfolding eq by (intro has_module_mk b5)+
  have len: "1 < length (snd b)"
    using b5(2) unfolding eq old by (auto simp: has_module_def mk_step_def)
  have ms: "mset steps = mset (snd b)" by (rule sort_steps_Inr(1) [OF sorted])
  then have set_eq: "set steps = set (snd b)" by (rule mset_eq_setD)
  have ids: "mset (map step_id steps) = mset (map step_id (snd b))"
    using ms by simp
  have upto: "map step_id (snd b) = [n + 1..n']"
    using ok by (simp add: builder_ok_def step_ids_def n')
  have "distinct (map step_id steps)"
    using upto ids by (metis distinct_upto mset_eq_imp_distinct_iff)
  moreover have "set (map step_id steps) = {n + 1..n'}"
    using upto ids by (metis mset_eq_setD set_upto)
  moreover have "\<exists>c\<in>set (snd b). step_module c = PStr ''collector'' \<and> step_id c = n' \<and>
      set (depends_on c) = {n + 1..<n'}"
    using b5(1) unfolding n' eq old
    by (auto simp: mk_step_def builder_ok_def step_ids_def)
  ultimately show ?thesis
    using sort_steps_Inr(2) [OF sorted len] ok mods
    unfolding plan_ok_def set_eq [symmetric] has_module_def builder_ok_def
    by (auto simp: list_all_iff)
qed

lemma plan_ok_closed:
  assumes "plan_ok n tgt n' steps"
  shows "deps_closed [] (remaining_of steps)"
proof -
  have eq: "remaining_of steps = map (\<lambda>s. (step_id s, s)) steps"
    using assms by (intro remaining_of_distinct) (simp add: plan_ok_def)
  have ids: "step_id ` set steps = {n + 1..n'}"
    using assms by (simp add: plan_ok_def)
  have "d \<in> fst ` set (remaining_of steps) \<and> d < step_id s"
    if "s \<in> set steps" "d \<in> set (depends_on s)" for s d
  proof -
    have "n < d" "d < step_id s" using assms that by (auto simp: plan_ok_def)
    moreover have "step_id s \<le> n'" using ids that(1) by fastforce
    ultimately have "d \<in> step_id ` set steps" by (simp add: ids)
    then show ?thesis using \<open>d < step_id s\<close> by (auto simp: eq image_image)
  qed
  then show ?thesis by (auto simp: deps_closed_def eq)
qed

section \<open>Properties\<close>

text \<open>
  C17: What \<open>plan\<close> returns. The steps carry consecutive fresh identifiers and the requested
  target, depend only on steps created before them, are sorted by priority and identifier, always
  contain a discovery and an asset step, and end in a collector that depends on every other step.
\<close>
theorem plan_well_formed:
  assumes "plan n intelligence tgt = Inr (n', steps)"
  shows "plan_ok n tgt n' steps"
  by (rule plan_sound [OF assms])

definition sample_intelligence :: "pydict list" where
  "sample_intelligence =
     [[(''module'', PStr ''recon''), (''priority'', PInt 7)], [(''module'', PStr ''stealth'')]]"

definition sample_plan :: "int \<times> plan_step list" where
  "sample_plan =
     (let mk = \<lambda>i m a p deps. \<lparr>step_id = i, step_module = PStr m, action = PStr a,
        step_target = ''t'', priority = PInt p, depends_on = deps, params = [],
        step_status = PStr ''pending''\<rparr>
      in (5, [mk 1 ''stealth'' ''pace'' 5 [], mk 4 ''recon'' ''fingerprint'' 7 [1, 2, 3],
              mk 2 ''discovery'' ''scan'' 10 [], mk 3 ''asset'' ''discover'' 15 [1, 2],
              mk 5 ''collector'' ''collect'' 40 [1, 2, 3, 4]]))"

lemma sample_plan: "plan 0 sample_intelligence ''t'' = Inr (5, snd sample_plan)"
  by code_simp

theorem plan_well_formed_witness: "plan_ok 0 ''t'' 5 (snd sample_plan)"
  by (rule plan_well_formed [OF sample_plan])

text \<open>
  C23: A plan is always schedulable. With any width of at least one, scheduling what \<open>plan\<close>
  returned ends, and puts every step exactly once into non-empty waves that are no wider than allowed
  and sorted by priority, with every dependency in an earlier wave.
\<close>
theorem plan_schedules:
  assumes "plan n intelligence tgt = Inr (n', steps)" and "1 \<le> k"
  shows "\<exists>ws. schedule k steps = Some (Inr ws) \<and> mset (concat ws) = mset steps \<and>
    (\<forall>w\<in>set ws. w \<noteq> [] \<and> int (length w) \<le> k \<and> sorted (map prio w)) \<and> ordered [] ws"
proof -
  have ok: "plan_ok n tgt n' steps" by (rule plan_sound [OF assms(1)])
  then have "distinct (map step_id steps)" "\<And>s. s \<in> set steps \<Longrightarrow> numeric (priority s)"
    by (simp_all add: plan_ok_def)
  from schedule_total [OF assms(2) this] plan_ok_closed [OF ok] show ?thesis by blast
qed

theorem plan_schedules_witness:
  "\<exists>ws. schedule 2 (snd sample_plan) = Some (Inr ws) \<and> mset (concat ws) = mset (snd sample_plan) \<and>
    ordered [] ws"
  using plan_schedules [OF sample_plan, of 2] by auto

text \<open>
  Scheduling any steps ends. Whatever their dependencies, missing or cyclic ones included, steps
  with distinct identifiers and numeric priorities are each scheduled exactly once, in waves of at most
  the given width.
\<close>
theorem schedule_terminates:
  assumes "1 \<le> k" and "distinct (map step_id steps)"
    and "list_all (\<lambda>s. numeric (priority s)) steps"
  shows "\<exists>ws. schedule k steps = Some (Inr ws) \<and> mset (concat ws) = mset steps \<and>
    (\<forall>w\<in>set ws. w \<noteq> [] \<and> int (length w) \<le> k)"
proof -
  have "numeric (priority s)" if "s \<in> set steps" for s
    using assms(3) that by (simp add: list_all_iff)
  from schedule_total [OF assms(1,2) this] show ?thesis by blast
qed

definition cyclic_steps :: "plan_step list" where
  "cyclic_steps =
     [\<lparr>step_id = 1, step_module = PNone, action = PNone, step_target = ''t'', priority = PInt 1,
       depends_on = [2], params = [], step_status = PNone\<rparr>,
      \<lparr>step_id = 2, step_module = PNone, action = PNone, step_target = ''t'', priority = PInt 1,
       depends_on = [1], params = [], step_status = PNone\<rparr>]"

theorem schedule_terminates_witness:
  "\<exists>ws. schedule 4 cyclic_steps = Some (Inr ws) \<and> mset (concat ws) = mset cyclic_steps"
  using schedule_terminates [of 4 cyclic_steps] by (auto simp: cyclic_steps_def numeric_def)

text \<open>
  A width of zero never returns. The loop of \<open>schedule\<close> then removes nothing from the
  remaining steps, so it diverges on every plan.
\<close>
theorem schedule_zero_width_diverges:
  assumes "plan n intelligence tgt = Inr (n', steps)"
  shows "schedule 0 steps = None"
proof -
  have ok: "plan_ok n tgt n' steps" by (rule plan_sound [OF assms])
  then have d: "distinct (map step_id steps)" and num: "\<And>s. s \<in> set steps \<Longrightarrow> numeric (priority s)"
    by (simp_all add: plan_ok_def)
  have "steps \<noteq> []" using ok by (auto simp: plan_ok_def)
  then have ne: "remaining_of steps \<noteq> []" using remaining_of_ok(2) [OF d num] by auto
  have num': "numeric (priority s)" if "s \<in> set (next_wave [] (remaining_of steps))" for s
  proof -
    have "s \<in> set (map snd (remaining_of steps))"
      using that next_wave_facts(2) [OF ne, of "[]"] by auto
    then show ?thesis using num by (simp only: remaining_of_ok(2) [OF d num])
  qed
  have "sort_steps prio (next_wave [] (remaining_of steps)) \<noteq> Inl e" for e
    using sort_steps_numeric [of "next_wave [] (remaining_of steps)" prio, OF num'] by force
  then show ?thesis
    using schedule_loop_zero ne unfolding schedule_def by (metis option.exhaust)
qed

theorem schedule_zero_width_diverges_witness: "schedule 0 (snd sample_plan) = None"
  by (rule schedule_zero_width_diverges [OF sample_plan])

lemma int_list_of_ints: "int_list_of (PList (map PInt is)) = Inr is"
  by (induction "is") auto

lemma step_of_dict_to_dict: "step_of_dict (step_to_dict s) = Inr s"
  by (cases s) (simp add: step_to_dict_def dindex_def dget_or_def int_list_of_ints del: int_list_of.simps)

text \<open>
  The JSON form of a plan reads back as the plan: identifiers, modules, targets, priorities,
  dependencies, parameters and statuses.
\<close>
theorem plan_json_roundtrip:
  assumes "list_all (\<lambda>s. json_ok (step_to_dict s)) steps"
  shows "from_json (to_json steps) = Inr steps"
proof -
  have "json_ok (PList (map step_to_dict steps))"
    using assms by (simp add: list_all_iff)
  moreover have "map_res step_of_dict (map step_to_dict steps) = Inr steps"
    by (induction steps) (simp_all add: step_of_dict_to_dict)
  ultimately show ?thesis by (simp add: from_json_def to_json_def json_roundtrip)
qed

lemma sample_plan_json: "list_all (\<lambda>s. json_ok (step_to_dict s)) (snd sample_plan)"
  by code_simp

theorem plan_json_roundtrip_witness: "from_json (to_json (snd sample_plan)) = Inr (snd sample_plan)"
  by (rule plan_json_roundtrip [OF sample_plan_json])

end
