(* ===== verification/Utf8.thy ===== *)
theory Utf8
  imports PyVal
begin

text \<open>
  Text as code points and its UTF-8 encoding, for the components whose contract is in bytes: the
  strict encoder, the one that replaces lone surrogates, and the decoder that ignores errors. The
  input guard of \<open>core/input_guard.py\<close> is modelled here on top of them.
\<close>

type_synonym ustr = "nat list"
type_synonym bytes = "nat list"

section \<open>Encoding\<close>

definition is_surrogate :: "nat \<Rightarrow> bool" where
  "is_surrogate c \<longleftrightarrow> 0xD800 \<le> c \<and> c \<le> 0xDFFF"

definition is_scalar :: "nat \<Rightarrow> bool" where
  "is_scalar c \<longleftrightarrow> c \<le> 0x10FFFF \<and> \<not> is_surrogate c"

definition utf8_char :: "nat \<Rightarrow> bytes" where
  "utf8_char c =
     (if c < 0x80 then [c]
      else if c < 0x800 then [0xC0 + c div 64, 0x80 + c mod 64]
      else if c < 0x10000 then [0xE0 + c div 4096, 0x80 + c div 64 mod 64, 0x80 + c mod 64]
      else [0xF0 + c div 262144, 0x80 + c div 4096 mod 64, 0x80 + c div 64 mod 64, 0x80 + c mod 64])"

definition utf8_encode :: "ustr \<Rightarrow> exc + bytes" where
  "utf8_encode s =
     (if list_ex is_surrogate s then Inl (ValueError ''surrogates not allowed'')
      else Inr (concat (map utf8_char s)))"

text \<open>\<open>encode("utf-8", errors="replace")\<close> puts a question mark for a surrogate.\<close>

definition utf8_encode_replace :: "ustr \<Rightarrow> bytes" where
  "utf8_encode_replace s = concat (map (\<lambda>c. if is_surrogate c then [63] else utf8_char c) s)"

section \<open>Decoding with errors ignored\<close>

definition is_cont :: "nat \<Rightarrow> bool" where
  "is_cont b \<longleftrightarrow> 0x80 \<le> b \<and> b \<le> 0xBF"

text \<open>The second byte a lead byte admits, and how many continuation bytes it announces.\<close>

definition second_ok :: "nat \<Rightarrow> nat \<Rightarrow> bool" where
  "second_ok b x \<longleftrightarrow> is_cont x \<and>
     (b = 0xE0 \<longrightarrow> 0xA0 \<le> x) \<and> (b = 0xED \<longrightarrow> x \<le> 0x9F) \<and> (b = 0xF0 \<longrightarrow> 0x90 \<le> x) \<and>
     (b = 0xF4 \<longrightarrow> x \<le> 0x8F)"

fun utf8_decode_ignore :: "bytes \<Rightarrow> ustr" where
  "utf8_decode_ignore [] = []"
| "utf8_decode_ignore (b # bs) =
     (if b < 0x80 then b # utf8_decode_ignore bs
      else if 0xC2 \<le> b \<and> b \<le> 0xDF then
        (case bs of
           x # bs1 \<Rightarrow> if is_cont x then ((b - 0xC0) * 64 + (x - 0x80)) # utf8_decode_ignore bs1
                     else utf8_decode_ignore bs
         | [] \<Rightarrow> [])
      else if 0xE0 \<le> b \<and> b \<le> 0xEF then
        (case bs of
           x # bs1 \<Rightarrow>
             if second_ok b x then
               (case bs1 of
                  y # bs2 \<Rightarrow>
                    if is_cont y
                    then (((b - 0xE0) * 64 + (x - 0x80)) * 64 + (y - 0x80)) # utf8_decode_ignore bs2
                    else utf8_decode_ignore bs1
                | [] \<Rightarrow> [])
             else utf8_decode_ignore bs
         | [] \<Rightarrow> [])
      else if 0xF0 \<le> b \<and> b \<le> 0xF4 then
        (case bs of
           x # bs1 \<Rightarrow>
             if second_ok b x then
               (case bs1 of
                  y # bs2 \<Rightarrow>
                    if is_cont y then
                      (case bs2 of
                         z # bs3 \<Rightarrow>
                           if is_cont z
                           then ((((b - 0xF0) * 64 + (x - 0x80)) * 64 + (y - 0x80)) * 64 + (z - 0x80))
                                  # utf8_decode_ignore bs3
                           else utf8_decode_ignore bs2
                       | [] \<Rightarrow> [])
                    else utf8_decode_ignore bs1
                | [] \<Rightarrow> [])
             else utf8_decode_ignore bs
         | [] \<Rightarrow> [])
      else utf8_decode_ignore bs)"

text \<open>
  \<open>decode("utf-8", errors="replace")\<close>: each maximal part of an invalid sequence becomes one U+FFFD.
\<close>

definition REPLACEMENT :: nat where "REPLACEMENT = 0xFFFD"

fun utf8_decode_replace :: "bytes \<Rightarrow> ustr" where
  "utf8_decode_replace [] = []"
| "utf8_decode_replace (b # bs) =
     (if b < 0x80 then b # utf8_decode_replace bs
      else if 0xC2 \<le> b \<and> b \<le> 0xDF then
        (case bs of
           x # bs1 \<Rightarrow> if is_cont x then ((b - 0xC0) * 64 + (x - 0x80)) # utf8_decode_replace bs1
                     else REPLACEMENT # utf8_decode_replace bs
         | [] \<Rightarrow> [REPLACEMENT])
      else if 0xE0 \<le> b \<and> b \<le> 0xEF then
        (case bs of
           x # bs1 \<Rightarrow>
             if second_ok b x then
               (case bs1 of
                  y # bs2 \<Rightarrow>
                    if is_cont y
                    then (((b - 0xE0) * 64 + (x - 0x80)) * 64 + (y - 0x80)) # utf8_decode_replace bs2
                    else REPLACEMENT # utf8_decode_replace bs1
                | [] \<Rightarrow> [REPLACEMENT])
             else REPLACEMENT # utf8_decode_replace bs
         | [] \<Rightarrow> [REPLACEMENT])
      else if 0xF0 \<le> b \<and> b \<le> 0xF4 then
        (case bs of
           x # bs1 \<Rightarrow>
             if second_ok b x then
               (case bs1 of
                  y # bs2 \<Rightarrow>
                    if is_cont y then
                      (case bs2 of
                         z # bs3 \<Rightarrow>
                           if is_cont z
                           then ((((b - 0xF0) * 64 + (x - 0x80)) * 64 + (y - 0x80)) * 64 + (z - 0x80))
                                  # utf8_decode_replace bs3
                           else REPLACEMENT # utf8_decode_replace bs2
                       | [] \<Rightarrow> [REPLACEMENT])
                    else REPLACEMENT # utf8_decode_replace bs1
                | [] \<Rightarrow> [REPLACEMENT])
             else REPLACEMENT # utf8_decode_replace bs
         | [] \<Rightarrow> [REPLACEMENT])
      else REPLACEMENT # utf8_decode_replace bs)"

text \<open>Strict UTF-8 decoding accepts exactly what encoding produces.\<close>

definition utf8_decode :: "bytes \<Rightarrow> exc + ustr" where
  "utf8_decode bs =
     (let u = utf8_decode_ignore bs
      in if utf8_encode u = Inr bs then Inr u else Inl (ValueError ''invalid utf-8''))"

lemma utf8_char_ne [simp]: "utf8_char c \<noteq> []"
  by (simp add: utf8_char_def)

lemma length_utf8_char: "length (utf8_char c) \<le> 4" "0 < length (utf8_char c)"
  by (simp_all add: utf8_char_def)

lemma base64_digits:
  obtains t u v w where "(c::nat) = 262144 * t + 4096 * u + 64 * v + w" "u < 64" "v < 64" "w < 64"
    "c div 64 = (t * 64 + u) * 64 + v" "c div 4096 = t * 64 + u" "c div 262144 = t" "c mod 64 = w"
    "c div 64 mod 64 = v" "c div 4096 mod 64 = u"
proof -
  define q where "q = c div 64"
  define p where "p = q div 64"
  have div: "c div 4096 = p" "c div 262144 = p div 64"
    unfolding p_def q_def by (simp_all flip: div_mult2_eq)
  have split: "c = q * 64 + c mod 64" "q = p * 64 + q mod 64" "p = p div 64 * 64 + p mod 64"
    unfolding p_def q_def by simp_all
  show ?thesis
  proof (rule that [of "p div 64" "p mod 64" "q mod 64" "c mod 64"])
    show "c = 262144 * (p div 64) + 4096 * (p mod 64) + 64 * (q mod 64) + c mod 64"
      using split by linarith
    show "c div 64 = (p div 64 * 64 + p mod 64) * 64 + q mod 64"
      using split by (simp flip: q_def)
  qed (simp_all add: div flip: q_def)
qed

lemma decode_utf8_char:
  assumes "is_scalar c"
  shows "utf8_decode_ignore (utf8_char c @ bs) = c # utf8_decode_ignore bs"
proof -
  obtain t u v w where c: "c = 262144 * t + 4096 * u + 64 * v + w" "u < 64" "v < 64" "w < 64"
    and div: "c div 64 = (t * 64 + u) * 64 + v" "c div 4096 = t * 64 + u" "c div 262144 = t"
    "c mod 64 = w" "c div 64 mod 64 = v" "c div 4096 mod 64 = u"
    by (rule base64_digits)
  consider "c < 0x80" | "0x80 \<le> c" "c < 0x800" | "0x800 \<le> c" "c < 0x10000" | "0x10000 \<le> c"
    by linarith
  then show ?thesis
  proof cases
    case 1
    then show ?thesis by (simp add: utf8_char_def)
  next
    case 2
    then have "t < 1" using c by linarith
    then have t: "t = 0" by simp
    have "u < 1" using c 2 by linarith
    then have u: "u = 0" by simp
    note t u
    moreover have "2 \<le> v" using c 2 calculation by linarith
    moreover have "v < 32" using c 2 by linarith
    moreover have "utf8_char c = [0xC0 + v, 0x80 + w]"
      using 2 t u by (simp add: utf8_char_def div)
    moreover have "c = v * 64 + w" using c(1) t u by simp
    ultimately show ?thesis using c(2-4) by (simp add: is_cont_def)
  next
    case 3
    have "t < 1" using c 3 by linarith
    then have t: "t = 0" by simp
    moreover have "u < 16" using c 3 by linarith
    moreover have "u = 0 \<Longrightarrow> 32 \<le> v" using c 3 t by linarith
    moreover have "u = 13 \<Longrightarrow> v < 32"
      using assms c t unfolding is_scalar_def is_surrogate_def by linarith
    moreover have "utf8_char c = [0xE0 + u, 0x80 + v, 0x80 + w]"
      using 3 t c(2-4) by (simp add: utf8_char_def div(2-))
    moreover have "c = (u * 64 + v) * 64 + w" using c(1) t by simp
    ultimately show ?thesis using c(2-4) by (auto simp: is_cont_def second_ok_def)
  next
    case 4
    have "t < 5" using assms c unfolding is_scalar_def by linarith
    moreover have "t = 0 \<Longrightarrow> 16 \<le> u" using c 4 by linarith
    moreover have "t = 4 \<Longrightarrow> u < 16" using assms c unfolding is_scalar_def by linarith
    moreover have "utf8_char c = [0xF0 + t, 0x80 + u, 0x80 + v, 0x80 + w]"
      using 4 c(2-4) by (simp add: utf8_char_def div(2-))
    moreover have "c = ((t * 64 + u) * 64 + v) * 64 + w" using c(1) by simp
    ultimately show ?thesis using c(2-4) by (auto simp: is_cont_def second_ok_def)
  qed
qed

lemma decode_truncated:
  assumes "is_scalar c" and "n < length (utf8_char c)"
  shows "utf8_decode_ignore (take n (utf8_char c)) = []"
proof -
  obtain t u v w where c: "c = 262144 * t + 4096 * u + 64 * v + w" "u < 64" "v < 64" "w < 64"
    and div: "c div 64 = (t * 64 + u) * 64 + v" "c div 4096 = t * 64 + u" "c div 262144 = t"
    "c mod 64 = w" "c div 64 mod 64 = v" "c div 4096 mod 64 = u"
    by (rule base64_digits)
  consider "c < 0x80" | "0x80 \<le> c" "c < 0x800" | "0x800 \<le> c" "c < 0x10000" | "0x10000 \<le> c"
    by linarith
  then show ?thesis
  proof cases
    case 1
    then show ?thesis using assms(2) by (simp add: utf8_char_def)
  next
    case 2
    then have enc: "utf8_char c = [0xC0 + c div 64, 0x80 + c mod 64]" by (simp add: utf8_char_def)
    then have "n = 0 \<or> n = 1" using assms(2) by auto
    moreover have "2 \<le> c div 64" "c div 64 < 32" using 2 by auto
    ultimately show ?thesis by (auto simp: enc)
  next
    case 3
    have "t < 1" using c 3 by linarith
    then have t: "t = 0" by simp
    have uv: "u < 16" "u = 0 \<Longrightarrow> 32 \<le> v" using c 3 t by linarith+
    have ud: "u = 13 \<Longrightarrow> v < 32"
      using assms(1) c t unfolding is_scalar_def is_surrogate_def by linarith
    have enc: "utf8_char c = [0xE0 + u, 0x80 + v, 0x80 + w]"
      using 3 t c(2-4) by (simp add: utf8_char_def div(2-))
    then have "n = 0 \<or> n = 1 \<or> n = 2" using assms(2) by auto
    then show ?thesis using uv ud c(2-4) by (auto simp: enc is_cont_def second_ok_def)
  next
    case 4
    have t: "t < 5" using assms(1) c unfolding is_scalar_def by linarith
    have t0: "t = 0 \<Longrightarrow> 16 \<le> u" using c 4 by linarith
    have t4: "t = 4 \<Longrightarrow> u < 16" using assms(1) c unfolding is_scalar_def by linarith
    have enc: "utf8_char c = [0xF0 + t, 0x80 + u, 0x80 + v, 0x80 + w]"
      using 4 c(2-4) by (simp add: utf8_char_def div(2-))
    then have "n = 0 \<or> n = 1 \<or> n = 2 \<or> n = 3" using assms(2) by auto
    then show ?thesis using t t0 t4 c(2-4)
      by (auto simp: enc is_cont_def second_ok_def numeral_2_eq_2 numeral_3_eq_3)
  qed
qed

text \<open>The longest prefix of a text that fits into n bytes.\<close>

fun fit_prefix :: "nat \<Rightarrow> ustr \<Rightarrow> ustr" where
  "fit_prefix n [] = []"
| "fit_prefix n (c # s) =
     (if length (utf8_char c) \<le> n then c # fit_prefix (n - length (utf8_char c)) s else [])"

definition utf8_length :: "ustr \<Rightarrow> nat" where
  "utf8_length s = length (concat (map utf8_char s))"

lemma utf8_length_simps [simp]:
  "utf8_length [] = 0" "utf8_length (c # s) = length (utf8_char c) + utf8_length s"
  by (simp_all add: utf8_length_def)

lemma utf8_length_fit: "utf8_length (fit_prefix n s) \<le> n"
  by (induction n s rule: fit_prefix.induct) auto

lemma prefix_fit: "prefix (fit_prefix n s) s"
  by (induction n s rule: fit_prefix.induct) auto

lemma fit_prefix_maximal:
  "prefix t s \<Longrightarrow> utf8_length t \<le> n \<Longrightarrow> prefix t (fit_prefix n s)"
proof (induction n s arbitrary: t rule: fit_prefix.induct)
  case (1 n)
  then show ?case by simp
next
  case (2 n c s)
  show ?case
  proof (cases t)
    case Nil
    then show ?thesis by simp
  next
    case (Cons d u)
    with 2(2,3) have "d = c" "prefix u s" "length (utf8_char c) + utf8_length u \<le> n" by auto
    then show ?thesis using 2(1) Cons by auto
  qed
qed

lemma fit_prefix_all: "utf8_length s \<le> n \<Longrightarrow> fit_prefix n s = s"
  by (induction n s rule: fit_prefix.induct) auto

lemma decode_take:
  assumes "list_all is_scalar s"
  shows "utf8_decode_ignore (take n (concat (map utf8_char s))) = fit_prefix n s"
  using assms
proof (induction n s rule: fit_prefix.induct)
  case (1 n)
  then show ?case by simp
next
  case (2 n c s)
  show ?case
  proof (cases "length (utf8_char c) \<le> n")
    case True
    then show ?thesis using 2 by (simp add: decode_utf8_char)
  next
    case False
    then show ?thesis using 2(2) by (simp add: decode_truncated)
  qed
qed

lemma encode_replace_scalar:
  "list_all is_scalar s \<Longrightarrow> utf8_encode_replace s = concat (map utf8_char s)"
  by (induction s) (auto simp: utf8_encode_replace_def is_scalar_def)

section \<open>Latin-1 text\<close>

lemma map_char_of_of_char [simp]: "map char_of (map of_char s :: nat list) = s"
  by (simp add: o_def)

lemma latin_scalar: "list_all is_scalar (map of_char s)"
proof -
  have "is_scalar (of_char c)" for c
  proof -
    have "of_char c < (256 :: nat)" by (rule nat_of_char_less_256)
    then show ?thesis unfolding is_scalar_def is_surrogate_def by linarith
  qed
  then show ?thesis by (simp add: list_all_iff)
qed

lemma encode_latin: "utf8_encode (map of_char s) = Inr (concat (map utf8_char (map of_char s)))"
  using latin_scalar [of s] by (auto simp: utf8_encode_def list_ex_iff list_all_iff is_scalar_def)

lemma utf8_decode_latin: "utf8_decode (concat (map utf8_char (map of_char s))) = Inr (map of_char s)"
proof -
  let ?u = "map of_char s :: nat list" and ?b = "concat (map utf8_char (map of_char s))"
  have "utf8_decode_ignore (take (length ?b) ?b) = fit_prefix (length ?b) ?u"
    by (rule decode_take [OF latin_scalar])
  also have "\<dots> = ?u" by (rule fit_prefix_all) (simp add: utf8_length_def)
  finally show ?thesis using encode_latin [of s] by (simp add: utf8_decode_def Let_def)
qed

section \<open>The input guard\<close>

definition MAX_BANNER_BYTES :: int where
  "MAX_BANNER_BYTES = 2048"

text \<open>\<open>str.isprintable\<close> is the Unicode database's, an argument.\<close>

definition sanitize_banner :: "(nat \<Rightarrow> bool) \<Rightarrow> int \<Rightarrow> ustr \<Rightarrow> ustr" where
  "sanitize_banner isprintable max_bytes banner =
     (if banner = [] then []
      else
        let cleaned = filter isprintable banner;
            encoded = utf8_encode_replace cleaned
        in if max_bytes < int (length encoded)
           then utf8_decode_ignore (slice_to max_bytes encoded) else cleaned)"

lemma sanitize_fit:
  assumes "\<And>c. isprintable c \<Longrightarrow> is_scalar c" and "0 \<le> max_bytes"
  shows "sanitize_banner isprintable max_bytes banner =
    fit_prefix (nat max_bytes) (filter isprintable banner)"
proof -
  have sc: "list_all is_scalar (filter isprintable banner)"
    using assms(1) by (auto simp: list_all_iff)
  have len: "length (utf8_encode_replace (filter isprintable banner)) =
      utf8_length (filter isprintable banner)"
    by (simp add: encode_replace_scalar [OF sc] utf8_length_def)
  show ?thesis
  proof (cases "max_bytes < int (utf8_length (filter isprintable banner))")
    case True
    then show ?thesis
      using assms(2) decode_take [OF sc, of "nat max_bytes"]
      by (auto simp: sanitize_banner_def Let_def len slice_to_def)
        (simp add: encode_replace_scalar [OF sc])
  next
    case False
    then show ?thesis
      by (auto simp: sanitize_banner_def Let_def len fit_prefix_all)
  qed
qed

text \<open>
  C38: The input guard bounds what a banner may contribute. When only Unicode scalars are printable,
  the sanitised banner holds printable characters only, encodes to at most \<open>max_bytes\<close> UTF-8
  bytes, never splits a character, and is the longest such prefix of the printable text.
\<close>
theorem sanitize_banner_bounded:
  assumes "\<And>c. isprintable c \<Longrightarrow> is_scalar c" and "0 \<le> max_bytes"
  shows "int (utf8_length (sanitize_banner isprintable max_bytes banner)) \<le> max_bytes \<and>
    prefix (sanitize_banner isprintable max_bytes banner) (filter isprintable banner) \<and>
    (\<forall>t. prefix t (filter isprintable banner) \<and> int (utf8_length t) \<le> max_bytes \<longrightarrow>
       prefix t (sanitize_banner isprintable max_bytes banner))"
  using utf8_length_fit [of "nat max_bytes" "filter isprintable banner"] assms(2)
  by (auto simp: sanitize_fit [OF assms] prefix_fit intro: fit_prefix_maximal)

theorem sanitize_banner_bounded_witness:
  "int (utf8_length (sanitize_banner (\<lambda>c. 32 \<le> c \<and> c < 0x300) 3 [0, 0xE9, 65, 0xE9])) \<le> 3 \<and>
     sanitize_banner (\<lambda>c. 32 \<le> c \<and> c < 0x300) 3 [0, 0xE9, 65, 0xE9] = [0xE9, 65]"
proof -
  have "is_scalar c" if "32 \<le> c \<and> c < 0x300" for c
    using that by (simp add: is_scalar_def is_surrogate_def)
  then have "int (utf8_length (sanitize_banner (\<lambda>c. 32 \<le> c \<and> c < 0x300) 3 [0, 0xE9, 65, 0xE9])) \<le> 3"
    by (intro sanitize_banner_bounded [THEN conjunct1]) simp_all
  moreover have "sanitize_banner (\<lambda>c. 32 \<le> c \<and> c < 0x300) 3 [0, 0xE9, 65, 0xE9] = [0xE9, 65]"
    by (simp add: sanitize_banner_def utf8_encode_replace_def is_surrogate_def utf8_char_def
        slice_to_def is_cont_def numeral_3_eq_3 Let_def)
  ultimately show ?thesis by blast
qed

end
