(* ===== verification/TextCore.thy ===== *)
theory TextCore
  imports Utf8 "HOL-Library.Word" "HOL-Library.Product_Lexorder"
begin

text \<open>
  The pure-Python text core of \<open>core/c_core_bridge.py\<close>: ASCII folding, overlapping search,
  byte offsets, the signature file, the fallback matcher and the three digests. Digests are computed
  on unbounded integers with explicit masks, as the code does, and proved equal to the wrapping word
  arithmetic of the native cores.
\<close>

unbundle bit_operations_syntax

section \<open>Search\<close>

definition fold_ascii :: "ustr \<Rightarrow> ustr" where
  "fold_ascii s = map (\<lambda>c. if 65 \<le> c \<and> c \<le> 90 then c + 32 else c) s"

definition occurs_at :: "ustr \<Rightarrow> ustr \<Rightarrow> nat \<Rightarrow> bool" where
  "occurs_at pat text i \<longleftrightarrow> i + length pat \<le> length text \<and> take (length pat) (drop i text) = pat"

text \<open>\<open>text.find(pat, start)\<close>; \<open>None\<close> is -1.\<close>

definition find_from :: "ustr \<Rightarrow> ustr \<Rightarrow> nat \<Rightarrow> nat option" where
  "find_from pat text start = find (occurs_at pat text) [start..<Suc (length text)]"

lemma find_upt_Some: "find P [a..<b] = Some i \<Longrightarrow> a \<le> i \<and> i < b \<and> P i"
  by (auto dest!: find_Some_set)

text \<open>The \<open>while start >= 0\<close> loop.\<close>

function occurrences :: "ustr \<Rightarrow> ustr \<Rightarrow> nat option \<Rightarrow> nat list" where
  "occurrences pat text None = []"
| "occurrences pat text (Some i) =
     (if length text < i then []
      else i # occurrences pat text (find_from pat text (Suc i)))"
  by pat_completeness auto
termination
  by (relation "measure (\<lambda>(pat, text, st). case st of None \<Rightarrow> 0 | Some i \<Rightarrow> Suc (Suc (length text) - i))")
    (auto simp: find_from_def simp del: upt_Suc split: option.split dest!: find_upt_Some)

definition find_all_occurrences :: "ustr \<Rightarrow> ustr \<Rightarrow> nat list" where
  "find_all_occurrences text pat =
     (if pat = [] then [] else occurrences pat text (find_from pat text 0))"

lemma occurrences_find:
  "occurrences pat text (find_from pat text a) = filter (occurs_at pat text) [a..<Suc (length text)]"
proof (induction "Suc (length text) - a" arbitrary: a rule: less_induct)
  case less
  show ?case
  proof (cases "find_from pat text a")
    case None
    then have "\<forall>x\<in>set [a..<Suc (length text)]. \<not> occurs_at pat text x"
      unfolding find_from_def find_None_iff by blast
    then have "filter (occurs_at pat text) [a..<Suc (length text)] = []"
      by (simp only: filter_empty_conv)
    with None show ?thesis by simp
  next
    case (Some i)
    then have i: "a \<le> i" "i < Suc (length text)" "occurs_at pat text i"
      by (auto simp: find_from_def simp del: upt_Suc dest!: find_upt_Some)
    have before: "\<not> occurs_at pat text j" if "a \<le> j" "j < i" for j
    proof -
      have "find (occurs_at pat text) [a..<Suc (length text)] = Some i"
        using Some by (simp add: find_from_def)
      then obtain k where k: "k < length [a..<Suc (length text)]" "i = [a..<Suc (length text)] ! k"
        "\<forall>l<k. \<not> occurs_at pat text ([a..<Suc (length text)] ! l)"
        unfolding find_Some_iff by blast
      then have "i = a + k" by (simp del: upt_Suc)
      then have "j - a < k" "[a..<Suc (length text)] ! (j - a) = j"
        using that i k(1) by (simp_all del: upt_Suc)
      then show ?thesis using k(3) by metis
    qed
    have "[a..<Suc (length text)] = [a..<i] @ i # [Suc i..<Suc (length text)]"
      using i by (metis upt_conv_Cons upt_add_eq_append le_add_diff_inverse less_imp_le_nat)
    moreover have "filter (occurs_at pat text) [a..<i] = []"
      using before by (auto simp: filter_empty_conv)
    ultimately have "filter (occurs_at pat text) [a..<Suc (length text)] =
        i # filter (occurs_at pat text) [Suc i..<Suc (length text)]"
      using i(3) by simp
    moreover have "occurrences pat text (find_from pat text (Suc i)) =
        filter (occurs_at pat text) [Suc i..<Suc (length text)]"
      by (rule less) (use i in auto)
    ultimately show ?thesis using i by (simp add: Some)
  qed
qed

lemma find_all_occurrences_spec:
  "pat \<noteq> [] \<Longrightarrow> find_all_occurrences text pat = filter (occurs_at pat text) [0..<Suc (length text)]"
  by (simp add: find_all_occurrences_def occurrences_find)

definition byte_offset :: "ustr \<Rightarrow> int \<Rightarrow> exc + int" where
  "byte_offset text char_index =
     (if char_index < 0 then Inr (-1)
      else bind_res (utf8_encode (slice_to char_index text)) (\<lambda>bs. Inr (int (length bs))))"

section \<open>The signature file\<close>

definition strip_blank :: "ustr \<Rightarrow> ustr" where
  "strip_blank s =
     (let blank = (\<lambda>c. c = 32 \<or> c = 9)
      in rev (dropWhile blank (rev (dropWhile blank s))))"

definition rstrip_cr :: "ustr \<Rightarrow> ustr" where
  "rstrip_cr s = rev (dropWhile (\<lambda>c. c = 13) (rev s))"

fun split_lf :: "ustr \<Rightarrow> ustr list" where
  "split_lf [] = [[]]"
| "split_lf (c # s) =
     (if c = 10 then [] # split_lf s
      else (case split_lf s of [] \<Rightarrow> [[c]] | p # ps \<Rightarrow> (c # p) # ps))"

text \<open>One line: \<open>None\<close> for blank lines and comments, otherwise the (name, pattern) pair.\<close>

definition signature_line :: "ustr \<Rightarrow> (ustr \<times> ustr) option" where
  "signature_line raw =
     (let line = strip_blank (rstrip_cr raw)
      in if line = [] \<or> hd line = 35 then None
         else if 9 \<in> set line
         then Some (takeWhile (\<lambda>c. c \<noteq> 9) line, tl (dropWhile (\<lambda>c. c \<noteq> 9) line))
         else Some (line, line))"

definition add_signature :: "(ustr \<times> ustr) list \<Rightarrow> ustr \<Rightarrow> (ustr \<times> ustr) list" where
  "add_signature pairs raw =
     (case signature_line raw of
        None \<Rightarrow> pairs
      | Some p \<Rightarrow> if p \<in> set pairs then pairs else pairs @ [p])"

text \<open>The text read from the file, or \<open>None\<close> for an \<open>OSError\<close>.\<close>

definition load_signatures :: "ustr option \<Rightarrow> (ustr \<times> ustr) list" where
  "load_signatures file =
     (case file of
        None \<Rightarrow> []
      | Some text \<Rightarrow> foldl add_signature [] (split_lf text))"

lemma foldl_add_signature:
  "foldl add_signature pairs ls =
     pairs @ uniq_acc (rev pairs) (List.map_filter signature_line ls)"
proof (induction ls arbitrary: pairs)
  case Nil
  then show ?case by (simp add: map_filter_def)
next
  case (Cons l ls)
  have step: "foldl add_signature pairs (l # ls) = foldl add_signature (add_signature pairs l) ls"
    by simp
  show ?case unfolding step Cons.IH
    by (cases "signature_line l") (simp_all add: add_signature_def map_filter_simps)
qed

lemma load_signatures_uniq:
  "load_signatures (Some text) = uniq (List.map_filter signature_line (split_lf text))"
  by (simp add: load_signatures_def foldl_add_signature uniq_def)

section \<open>Digests\<close>

definition FNV32_OFFSET :: int where "FNV32_OFFSET = 0x811C9DC5"
definition FNV32_PRIME :: int where "FNV32_PRIME = 0x01000193"
definition FNV64_OFFSET :: int where "FNV64_OFFSET = 0xCBF29CE484222325"
definition FNV64_PRIME :: int where "FNV64_PRIME = 0x100000001B3"
definition MASK32 :: int where "MASK32 = 0xFFFFFFFF"
definition MASK64 :: int where "MASK64 = 0xFFFFFFFFFFFFFFFF"

definition fnv1a32 :: "bytes \<Rightarrow> int" where
  "fnv1a32 bs = foldl (\<lambda>digest b. ((digest XOR int b) * FNV32_PRIME) AND MASK32) FNV32_OFFSET bs"

definition fnv1a64 :: "bytes \<Rightarrow> int" where
  "fnv1a64 bs = foldl (\<lambda>digest b. ((digest XOR int b) * FNV64_PRIME) AND MASK64) FNV64_OFFSET bs"

fun crc32_bits :: "nat \<Rightarrow> int \<Rightarrow> int" where
  "crc32_bits 0 crc = crc"
| "crc32_bits (Suc n) crc =
     crc32_bits n (drop_bit 1 crc XOR (if crc AND 1 \<noteq> 0 then 0xEDB88320 else 0))"

definition crc32 :: "bytes \<Rightarrow> int" where
  "crc32 bs = foldl (\<lambda>crc b. crc32_bits 8 (crc XOR int b)) 0xFFFFFFFF bs XOR 0xFFFFFFFF"

definition fnv1a32_py :: "ustr \<Rightarrow> exc + int" where
  "fnv1a32_py text = bind_res (utf8_encode text) (\<lambda>bs. Inr (fnv1a32 bs))"

definition fnv1a64_py :: "ustr \<Rightarrow> exc + int" where
  "fnv1a64_py text = bind_res (utf8_encode text) (\<lambda>bs. Inr (fnv1a64 bs))"

definition crc32_py :: "ustr \<Rightarrow> exc + int" where
  "crc32_py text = bind_res (utf8_encode text) (\<lambda>bs. Inr (crc32 bs))"

text \<open>The same digests in wrapping machine arithmetic, as the native cores compute them.\<close>

definition fnv1a_word :: "'a::len word \<Rightarrow> 'a word \<Rightarrow> bytes \<Rightarrow> 'a word" where
  "fnv1a_word offset prime bs = foldl (\<lambda>digest b. (digest XOR word_of_nat b) * prime) offset bs"

fun crc32_bits_word :: "nat \<Rightarrow> 32 word \<Rightarrow> 32 word" where
  "crc32_bits_word 0 crc = crc"
| "crc32_bits_word (Suc n) crc =
     crc32_bits_word n (drop_bit 1 crc XOR (if crc AND 1 \<noteq> 0 then 0xEDB88320 else 0))"

definition crc32_word :: "bytes \<Rightarrow> 32 word" where
  "crc32_word bs =
     foldl (\<lambda>crc b. crc32_bits_word 8 (crc XOR word_of_nat b)) 0xFFFFFFFF bs XOR 0xFFFFFFFF"

lemma uint_xor_byte:
  assumes "b < 256" and "8 \<le> LENGTH('a)"
  shows "uint (d XOR word_of_nat b :: 'a::len word) = uint d XOR int b"
proof -
  have "(256::nat) \<le> 2 ^ LENGTH('a)"
    using power_increasing [OF assms(2), of "2::nat"] by simp
  then have "take_bit LENGTH('a) b = b" using assms(1) by (simp add: take_bit_nat_eq_self)
  then have "uint (word_of_nat b :: 'a word) = int b" by (simp add: unsigned_of_nat)
  then show ?thesis by (simp add: unsigned_xor_eq)
qed

lemma fnv_step:
  fixes d :: "'a::len word"
  assumes "b < 256" and "8 \<le> LENGTH('a)"
  shows "((uint d XOR int b) * p) AND mask LENGTH('a) = uint ((d XOR word_of_nat b) * word_of_int p)"
  using uint_xor_byte [OF assms, of d]
  by (simp add: uint_word_arith_bintrs take_bit_eq_mask [symmetric])
    (simp add: take_bit_eq_mod uint_word_of_int mod_mult_right_eq)

lemma fnv_fold:
  fixes d :: "'a::len word"
  assumes "8 \<le> LENGTH('a)" and "list_all (\<lambda>b. b < 256) bs"
  shows "foldl (\<lambda>digest b. ((digest XOR int b) * p) AND mask LENGTH('a)) (uint d) bs =
    uint (fnv1a_word d (word_of_int p) bs)"
  using assms(2)
proof (induction bs arbitrary: d)
  case Nil
  then show ?case by (simp add: fnv1a_word_def)
next
  case (Cons b bs)
  have "foldl (\<lambda>digest b. ((digest XOR int b) * p) AND mask LENGTH('a)) (uint d) (b # bs) =
      foldl (\<lambda>digest b. ((digest XOR int b) * p) AND mask LENGTH('a))
        (uint ((d XOR word_of_nat b) * word_of_int p)) bs"
    using fnv_step [of b d p] Cons.prems assms(1) by simp
  also have "\<dots> = uint (fnv1a_word ((d XOR word_of_nat b) * word_of_int p) (word_of_int p) bs)"
    using Cons by simp
  finally show ?case by (simp add: fnv1a_word_def)
qed

lemma fnv1a32_word:
  assumes "list_all (\<lambda>b. b < 256) bs"
  shows "fnv1a32 bs = uint (fnv1a_word (0x811C9DC5 :: 32 word) 0x01000193 bs)"
proof -
  have cs: "MASK32 = mask LENGTH(32)" "FNV32_OFFSET = uint (0x811C9DC5 :: 32 word)"
    by (simp_all add: MASK32_def FNV32_OFFSET_def mask_eq_exp_minus_1)
  have prime: "(word_of_int FNV32_PRIME :: 32 word) = 0x01000193"
    by (simp add: FNV32_PRIME_def)
  show ?thesis
    unfolding fnv1a32_def cs prime [symmetric] by (rule fnv_fold [OF _ assms]) simp
qed

lemma fnv1a64_word:
  assumes "list_all (\<lambda>b. b < 256) bs"
  shows "fnv1a64 bs = uint (fnv1a_word (0xCBF29CE484222325 :: 64 word) 0x100000001B3 bs)"
proof -
  have cs: "MASK64 = mask LENGTH(64)" "FNV64_OFFSET = uint (0xCBF29CE484222325 :: 64 word)"
    by (simp_all add: MASK64_def FNV64_OFFSET_def mask_eq_exp_minus_1)
  have prime: "(word_of_int FNV64_PRIME :: 64 word) = 0x100000001B3"
    by (simp add: FNV64_PRIME_def)
  show ?thesis
    unfolding fnv1a64_def cs prime [symmetric] by (rule fnv_fold [OF _ assms]) simp
qed

lemma uint_crc_step:
  "drop_bit 1 (uint c) XOR (if uint c AND 1 \<noteq> 0 then 0xEDB88320 else 0) =
     uint (drop_bit 1 c XOR (if c AND 1 \<noteq> 0 then 0xEDB88320 else 0) :: 32 word)"
proof -
  have "uint c AND 1 = uint (c AND 1)" by (simp add: unsigned_and_eq)
  then have "uint c AND 1 \<noteq> 0 \<longleftrightarrow> c AND 1 \<noteq> 0" by (simp only: uint_0_iff)
  moreover have "take_bit 32 (uint c) = uint c"
    using uint_lt2p [of c] by (simp add: take_bit_eq_mod mod_pos_pos_trivial)
  ultimately show ?thesis by (simp add: unsigned_xor_eq unsigned_drop_bit_eq)
qed

lemma crc32_bits_uint: "crc32_bits n (uint c) = uint (crc32_bits_word n c)"
  by (induction n arbitrary: c) (simp_all only: crc32_bits.simps crc32_bits_word.simps uint_crc_step)

lemma crc32_loop:
  assumes "list_all (\<lambda>b. b < 256) bs"
  shows "foldl (\<lambda>crc b. crc32_bits 8 (crc XOR int b)) (uint c) bs =
    uint (foldl (\<lambda>crc b. crc32_bits_word 8 (crc XOR word_of_nat b)) c bs)"
  using assms
proof (induction bs arbitrary: c)
  case Nil
  then show ?case by simp
next
  case (Cons b bs)
  have "uint c XOR int b = uint (c XOR word_of_nat b)"
    by (rule uint_xor_byte [symmetric]) (use Cons.prems in auto)
  then show ?case
    using Cons.IH Cons.prems by (simp del: crc32_bits.simps crc32_bits_word.simps add: crc32_bits_uint)
qed

lemma crc32_uint: "list_all (\<lambda>b. b < 256) bs \<Longrightarrow> crc32 bs = uint (crc32_word bs)"
  using crc32_loop [of bs "0xFFFFFFFF"] by (simp add: crc32_def crc32_word_def unsigned_xor_eq)

lemma utf8_char_bytes: "c \<le> 0x10FFFF \<Longrightarrow> list_all (\<lambda>b. b < 256) (utf8_char c)"
proof -
  assume c: "c \<le> 0x10FFFF"
  have "c div 262144 < 5" "c div 4096 mod 64 < 64" "c div 64 mod 64 < 64" "c mod 64 < 64"
    using c by auto
  moreover have "c < 0x800 \<Longrightarrow> c div 64 < 32" "c < 0x10000 \<Longrightarrow> c div 4096 < 16" by auto
  ultimately show ?thesis by (auto simp: utf8_char_def)
qed

lemma utf8_encode_bytes:
  "list_all (\<lambda>c. c \<le> 0x10FFFF) s \<Longrightarrow> utf8_encode s = Inr bs \<Longrightarrow> list_all (\<lambda>b. b < 256) bs"
  using utf8_char_bytes by (fastforce simp: utf8_encode_def list_all_iff split: if_splits)

section \<open>The fallback matcher\<close>

definition hex_digits :: "nat \<Rightarrow> nat \<Rightarrow> string" where
  "hex_digits w n = map (\<lambda>i. char_of (let d = n div 16 ^ (w - Suc i) mod 16
                                    in if d < 10 then 48 + d else 55 + d)) [0..<w]"

definition show_hex0 :: "nat \<Rightarrow> int \<Rightarrow> string" where
  "show_hex0 w n = ''0x'' @ hex_digits w (nat n)"

record scan_hit =
  hit_signature :: ustr
  hit_position :: int

record scan_result =
  scan_banner :: ustr
  fp_fnv1a32 :: string
  fp_fnv1a64 :: string
  fp_crc32 :: string
  scan_matches :: "scan_hit list"
  match_count :: nat

text \<open>The sort tuples of one signature: byte position, pattern bytes, order of the signature, name.\<close>

definition located_hits ::
  "ustr \<Rightarrow> nat \<times> ustr \<times> ustr \<Rightarrow> exc + (int \<times> nat \<times> nat \<times> ustr) list" where
  "located_hits folded osig =
     (case osig of (order, name, pattern) \<Rightarrow>
        if pattern = [] then Inr []
        else map_res (\<lambda>index.
               bind_res (byte_offset folded (int index)) (\<lambda>pos.
               bind_res (utf8_encode pattern) (\<lambda>bs. Inr (pos, length bs, order, name))))
             (find_all_occurrences folded (fold_ascii pattern)))"

definition scan_one :: "(ustr \<times> ustr) list \<Rightarrow> ustr \<Rightarrow> exc + scan_result" where
  "scan_one pairs banner =
     (let folded = fold_ascii banner in
      bind_res (map_res (located_hits folded) (enumerate 0 pairs)) (\<lambda>located.
      bind_res (fnv1a32_py banner) (\<lambda>f32.
      bind_res (fnv1a64_py banner) (\<lambda>f64.
      bind_res (crc32_py banner) (\<lambda>crc.
      let matches = map (\<lambda>(pos, _, _, name). \<lparr>hit_signature = name, hit_position = pos\<rparr>)
                      (sort (concat located))
      in Inr \<lparr>scan_banner = banner, fp_fnv1a32 = show_hex0 8 f32, fp_fnv1a64 = show_hex0 16 f64,
              fp_crc32 = show_hex0 8 crc, scan_matches = matches, match_count = length matches\<rparr>)))))"

definition python_fallback :: "ustr list \<Rightarrow> ustr option \<Rightarrow> exc + scan_result list" where
  "python_fallback banners sig_file =
     (let pairs = load_signatures sig_file in map_res (scan_one pairs) banners)"

lemma is_scalar_fold: "list_all is_scalar s \<Longrightarrow> list_all is_scalar (fold_ascii s)"
  by (auto simp: fold_ascii_def list_all_iff is_scalar_def is_surrogate_def)

lemma utf8_length_fold: "utf8_length (fold_ascii s) = utf8_length s"
  by (induction s) (auto simp: fold_ascii_def utf8_char_def)

lemma fold_ascii_take: "fold_ascii (take n s) = take n (fold_ascii s)"
  by (simp add: fold_ascii_def take_map)

lemma utf8_encode_scalar: "list_all is_scalar s \<Longrightarrow> utf8_encode s = Inr (concat (map utf8_char s))"
  by (auto simp: utf8_encode_def list_ex_iff list_all_iff is_scalar_def)

lemma byte_offset_fold:
  assumes "list_all is_scalar s"
  shows "byte_offset (fold_ascii s) (int i) = Inr (int (utf8_length (take i s)))"
proof -
  have "list_all is_scalar (take i s)"
    using assms by (auto simp: list_all_iff dest: in_set_takeD)
  then have "utf8_encode (fold_ascii (take i s)) = Inr (concat (map utf8_char (fold_ascii (take i s))))"
    by (intro utf8_encode_scalar is_scalar_fold)
  then show ?thesis
    using utf8_length_fold [of "take i s"]
    by (simp add: byte_offset_def slice_to_def fold_ascii_take utf8_length_def)
qed

lemma utf8_length_take_mono: "i \<le> j \<Longrightarrow> utf8_length (take i s) \<le> utf8_length (take j s)"
proof (induction s arbitrary: i j)
  case Nil
  then show ?case by simp
next
  case (Cons c s)
  then show ?case by (cases i; cases j) auto
qed

text \<open>Where a signature occurs in a banner, without case: the byte offsets of its occurrences.\<close>

definition hit_at :: "ustr \<Rightarrow> ustr \<Rightarrow> int \<Rightarrow> bool" where
  "hit_at banner pattern pos \<longleftrightarrow> pattern \<noteq> [] \<and>
     (\<exists>i. occurs_at (fold_ascii pattern) (fold_ascii banner) i \<and>
        pos = int (utf8_length (take i banner)))"

lemma occurs_at_range: "occurs_at pat text i \<Longrightarrow> i \<in> set [0..<Suc (length text)]"
  by (simp add: occurs_at_def del: upt_Suc)

lemma located_hits_scalar:
  assumes "list_all is_scalar banner" and "list_all is_scalar pattern"
  shows "located_hits (fold_ascii banner) (order, name, pattern) =
    Inr (map (\<lambda>i. (int (utf8_length (take i banner)), utf8_length pattern, order, name))
      (find_all_occurrences (fold_ascii banner) (fold_ascii pattern)))"
proof (cases "pattern = []")
  case True
  then show ?thesis by (simp add: located_hits_def find_all_occurrences_def fold_ascii_def)
next
  case False
  then show ?thesis
    by (simp add: located_hits_def byte_offset_fold [OF assms(1)] utf8_encode_scalar [OF assms(2)]
        utf8_length_def map_res_total)
qed

lemma find_all_set:
  "set (find_all_occurrences text pat) = {i. pat \<noteq> [] \<and> occurs_at pat text i}"
proof (cases "pat = []")
  case True
  then show ?thesis by (simp add: find_all_occurrences_def)
next
  case False
  then show ?thesis
    using occurs_at_range by (auto simp: find_all_occurrences_spec simp del: upt_Suc)
qed

definition hit_tuples :: "ustr \<Rightarrow> nat \<times> ustr \<times> ustr \<Rightarrow> (int \<times> nat \<times> nat \<times> ustr) list" where
  "hit_tuples banner osig =
     (case osig of (order, name, pattern) \<Rightarrow>
        map (\<lambda>i. (int (utf8_length (take i banner)), utf8_length pattern, order, name))
          (find_all_occurrences (fold_ascii banner) (fold_ascii pattern)))"

lemma hit_tuples_iff:
  "(pos, len, ord, name) \<in> set (hit_tuples banner (order, name', pattern)) \<longleftrightarrow>
     ord = order \<and> name' = name \<and> len = utf8_length pattern \<and> hit_at banner pattern pos"
proof -
  have "fold_ascii pattern = [] \<longleftrightarrow> pattern = []" by (simp add: fold_ascii_def)
  then show ?thesis by (auto simp: hit_tuples_def hit_at_def find_all_set)
qed

lemma enumerate_mem: "p \<in> set pairs \<longleftrightarrow> (\<exists>i. (i, p) \<in> set (enumerate k pairs))"
proof -
  have "set pairs = snd ` set (enumerate k pairs)" by (metis map_snd_enumerate set_map)
  then show ?thesis by force
qed

lemma hit_tuples_concat:
  "(\<exists>len ord. (pos, len, ord, name) \<in> set (concat (map (hit_tuples banner) (enumerate 0 pairs)))) \<longleftrightarrow>
     (\<exists>pattern. (name, pattern) \<in> set pairs \<and> hit_at banner pattern pos)"
proof -
  have "(\<exists>len ord. (pos, len, ord, name) \<in> set (concat (map (hit_tuples banner) (enumerate 0 pairs)))) \<longleftrightarrow>
      (\<exists>x\<in>set (enumerate 0 pairs). \<exists>len ord. (pos, len, ord, name) \<in> set (hit_tuples banner x))"
    unfolding set_concat set_map by blast
  also have "\<dots> \<longleftrightarrow> (\<exists>order pattern. (order, name, pattern) \<in> set (enumerate 0 pairs) \<and>
      hit_at banner pattern pos)"
    unfolding Bex_def split_paired_Ex hit_tuples_iff by blast
  also have "\<dots> \<longleftrightarrow> (\<exists>pattern. (name, pattern) \<in> set pairs \<and> hit_at banner pattern pos)"
    unfolding enumerate_mem [of _ pairs 0] by blast
  finally show ?thesis .
qed

lemma scan_one_located:
  assumes "list_all is_scalar banner" and "list_all (\<lambda>p. list_all is_scalar (snd p)) pairs"
  shows "map_res (located_hits (fold_ascii banner)) (enumerate 0 pairs) =
    Inr (map (hit_tuples banner) (enumerate 0 pairs))"
proof (rule map_res_total, intro ballI)
  fix x assume mem: "x \<in> set (enumerate 0 pairs)"
  obtain order name pattern where x: "x = (order, name, pattern)" by (metis surj_pair)
  then have "(name, pattern) \<in> set pairs"
    using mem nth_mem [of order pairs] by (auto simp: in_set_enumerate_eq)
  then have "list_all is_scalar pattern" using assms(2) by (auto simp: list_all_iff)
  then show "located_hits (fold_ascii banner) x = Inr (hit_tuples banner x)"
    by (simp add: x located_hits_scalar [OF assms(1)] hit_tuples_def)
qed

lemma scan_one_total:
  assumes "list_all is_scalar banner" and "list_all (\<lambda>p. list_all is_scalar (snd p)) pairs"
  shows "\<exists>r. scan_one pairs banner = Inr r"
  by (simp add: scan_one_def Let_def scan_one_located [OF assms] fnv1a32_py_def fnv1a64_py_def crc32_py_def
      utf8_encode_scalar [OF assms(1)])

section \<open>Properties\<close>

text \<open>
  The search loop finds every occurrence. For a non-empty pattern \<open>find_all_occurrences\<close>
  returns, in ascending order, exactly the positions at which the pattern occurs, overlapping
  occurrences included.
\<close>
theorem find_all_occurrences_complete:
  "find_all_occurrences text pat =
     (if pat = [] then [] else filter (occurs_at pat text) [0..<Suc (length text)])"
  by (simp add: find_all_occurrences_spec find_all_occurrences_def [of "text" "[]"] del: upt_Suc)

text \<open>
  The three digests, computed on unbounded integers with masks, are the wrapping 32-bit and 64-bit
  FNV-1a and the 32-bit reflected CRC of the UTF-8 bytes: the same values as in machine arithmetic.
\<close>
theorem digests_wrap:
  assumes "list_all is_scalar text"
  shows "\<exists>bs. utf8_encode text = Inr bs \<and>
    fnv1a32_py text = Inr (uint (fnv1a_word (0x811C9DC5 :: 32 word) 0x01000193 bs)) \<and>
    fnv1a64_py text = Inr (uint (fnv1a_word (0xCBF29CE484222325 :: 64 word) 0x100000001B3 bs)) \<and>
    crc32_py text = Inr (uint (crc32_word bs))"
proof -
  let ?bs = "concat (map utf8_char text)"
  have enc: "utf8_encode text = Inr ?bs" by (rule utf8_encode_scalar [OF assms])
  moreover have "list_all (\<lambda>c. c \<le> 0x10FFFF) text"
    using assms by (auto simp: list_all_iff is_scalar_def)
  ultimately have "list_all (\<lambda>b. b < 256) ?bs" by (rule utf8_encode_bytes [rotated])
  then show ?thesis
    by (simp add: enc fnv1a32_py_def fnv1a64_py_def crc32_py_def fnv1a32_word fnv1a64_word crc32_uint)
qed

theorem digests_wrap_witness:
  "\<exists>bs. utf8_encode [97] = Inr bs \<and>
    fnv1a32_py [97] = Inr (uint (fnv1a_word (0x811C9DC5 :: 32 word) 0x01000193 bs))"
  using digests_wrap [of "[97]"] by (auto simp: is_scalar_def is_surrogate_def)

text \<open>
  The fallback matcher. On a banner and signatures of Unicode scalars it returns exactly the pairs
  of a signature name and a byte offset at which that signature's pattern occurs, letters A to Z
  compared without case, ordered by offset, and \<open>match_count\<close> is their number.
\<close>
theorem fallback_matches:
  assumes "list_all is_scalar banner" and "list_all (\<lambda>p. list_all is_scalar (snd p)) pairs"
  shows "\<exists>r. scan_one pairs banner = Inr r \<and>
    (\<forall>name pos. \<lparr>hit_signature = name, hit_position = pos\<rparr> \<in> set (scan_matches r) \<longleftrightarrow>
       (\<exists>pattern. (name, pattern) \<in> set pairs \<and> hit_at banner pattern pos)) \<and>
    sorted (map hit_position (scan_matches r)) \<and> match_count r = length (scan_matches r)"
proof -
  let ?located = "map (hit_tuples banner) (enumerate 0 pairs)"
  note loc = scan_one_located [OF assms]
  let ?ms = "map (\<lambda>(pos, _, _, name). \<lparr>hit_signature = name, hit_position = pos\<rparr>)
    (sort (concat ?located))"
  obtain r where r: "scan_one pairs banner = Inr r" "scan_matches r = ?ms"
    "match_count r = length ?ms"
    by (simp add: scan_one_def Let_def loc fnv1a32_py_def fnv1a64_py_def crc32_py_def
        utf8_encode_scalar [OF assms(1)])
  have "\<lparr>hit_signature = name, hit_position = pos\<rparr> \<in> set ?ms \<longleftrightarrow>
      (\<exists>len ord. (pos, len, ord, name) \<in> set (concat ?located))" for name pos
    by (simp add: image_iff Bex_def split_def)
  moreover have "map hit_position ?ms = map fst (sort (concat ?located))"
    by (simp add: split_def)
  moreover have "sorted (map fst (sort (concat ?located)))"
    by (rule sorted_map_mono [OF sorted_sort]) (auto simp: mono_on_def less_eq_prod_def)
  ultimately show ?thesis
    using r by (intro exI [of _ r]) (simp only: hit_tuples_concat simp_thms)
qed

theorem fallback_matches_witness:
  "\<exists>r. scan_one [([110], [97, 97])] [65, 97, 65] = Inr r \<and>
    (\<lparr>hit_signature = [110], hit_position = 1\<rparr> \<in> set (scan_matches r) \<longleftrightarrow>
       (\<exists>pattern. ([110 :: nat], pattern) \<in> set [([110], [97, 97])] \<and> hit_at [65, 97, 65] pattern 1))"
proof -
  have "list_all is_scalar [65, 97, 65]"
    "list_all (\<lambda>p. list_all is_scalar (snd p)) [([110 :: nat], [97, 97])]"
    by (simp_all add: is_scalar_def is_surrogate_def)
  from fallback_matches [OF this] show ?thesis by blast
qed

text \<open>
  The signature file is read as the set of its distinct lines: \<open>load_signatures\<close> keeps, in
  file order, the first occurrence of every (name, pattern) pair, skips blank lines and comments, and
  is empty when the file cannot be read.
\<close>
theorem load_signatures_distinct:
  "load_signatures file =
     (case file of
        None \<Rightarrow> []
      | Some contents \<Rightarrow> uniq (List.map_filter signature_line (split_lf contents))) \<and>
   distinct (load_signatures file)"
  by (cases "file") (simp_all add: load_signatures_uniq, simp add: load_signatures_def)

end
