(* ===== verification/Accel.thy ===== *)
theory Accel
  imports TextCore
begin

text \<open>
  \<open>core/accel.py\<close>: one interface over the native cores and the Python floor. The native cores
  (a C library, a Rust library, a Go binary) are not Python: what their bridges answer is a record of
  functions, the argument \<open>nv\<close> of every operation. The selection policy, the shape of the
  results, the Python implementations and the cross-check between backends are modelled.
\<close>

section \<open>Hits\<close>

datatype sig_match = Match (signature: ustr) (position: int)

text \<open>The order \<open>_normalise\<close> sorts hits by: position first, then signature.\<close>

instantiation sig_match :: linorder
begin

definition less_eq_sig_match :: "sig_match \<Rightarrow> sig_match \<Rightarrow> bool" where
  "less_eq_sig_match m n \<longleftrightarrow> (position m, signature m) \<le> (position n, signature n)"

definition less_sig_match :: "sig_match \<Rightarrow> sig_match \<Rightarrow> bool" where
  "less_sig_match m n \<longleftrightarrow> (position m, signature m) < (position n, signature n)"

instance
proof
  fix a b c :: sig_match
  show "a < b \<longleftrightarrow> a \<le> b \<and> \<not> b \<le> a"
    by (simp add: less_eq_sig_match_def less_sig_match_def less_le_not_le)
  show "a \<le> a"
    by (simp add: less_eq_sig_match_def)
  show "a \<le> c" if "a \<le> b" "b \<le> c"
    using that order_trans unfolding less_eq_sig_match_def by blast
  show "a = b" if "a \<le> b" "b \<le> a"
    using that antisym [of "(position a, signature a)" "(position b, signature b)"]
    unfolding less_eq_sig_match_def by (cases a, cases b) simp
  show "a \<le> b \<or> b \<le> a"
    unfolding less_eq_sig_match_def by (rule linear)
qed

end

definition normalise :: "sig_match list \<Rightarrow> sig_match list" where
  "normalise hits = sort (remdups hits)"

lemma normalise_facts:
  "set (normalise hits) = set hits" "sorted (normalise hits)" "distinct (normalise hits)"
  by (simp_all add: normalise_def)

lemma normalise_cong: "set xs = set ys \<Longrightarrow> normalise xs = normalise ys"
  by (rule sorted_distinct_set_unique) (simp_all add: normalise_def)

section \<open>Backends\<close>

datatype backend = C_core | Rust_core | Go_core | Python_core

definition backend_name :: "backend \<Rightarrow> string" where
  "backend_name b =
     (case b of C_core \<Rightarrow> ''c'' | Rust_core \<Rightarrow> ''rust'' | Go_core \<Rightarrow> ''go'' | Python_core \<Rightarrow> ''python'')"

definition BACKENDS :: "(string \<times> backend) list" where
  "BACKENDS = [(''c'', C_core), (''rust'', Rust_core), (''go'', Go_core), (''python'', Python_core)]"

definition PREFERENCE :: "backend list" where
  "PREFERENCE = [C_core, Rust_core, Python_core]"

definition ALL_BACKENDS :: "backend list" where
  "ALL_BACKENDS = [C_core, Rust_core, Go_core, Python_core]"

definition GRAPH_CAPABILITIES :: "string list" where
  "GRAPH_CAPABILITIES =
     [''graph_degree'', ''graph_betweenness'', ''graph_components'', ''graph_shortest_path'']"

definition SCAN_CAPABILITIES :: "string list" where
  "SCAN_CAPABILITIES = [''scan_ports'']"

record backend_info =
  info_name :: string
  available :: bool
  reason :: string
  capabilities :: "string list"

type_synonym digests = "string \<times> string \<times> string"

text \<open>
  What the bridges to the native cores answer. \<open>c_scan\<close> receives the banner and the text of the
  signature file written for the call and returns the hits of the first result.
\<close>

record native =
  c_available :: bool
  c_note :: string
  c_path :: string
  c_scan :: "ustr \<Rightarrow> ustr \<Rightarrow> exc + (ustr \<times> int) list"
  c_digests :: "ustr \<Rightarrow> exc + digests"
  rust_available :: bool
  rust_match :: "ustr \<Rightarrow> ustr list \<Rightarrow> exc + (ustr \<times> int) list"
  go_available :: bool
  go_error :: string

definition c_info :: "native \<Rightarrow> backend_info" where
  "c_info nv =
     (if \<not> c_available nv
      then \<lparr>info_name = ''c'', available = False,
            reason = (if c_note nv \<noteq> [] then c_note nv else ''the C core binary was not found''),
            capabilities = []\<rparr>
      else \<lparr>info_name = ''c'', available = True, reason = [],
            capabilities = [''match'', ''fingerprint'']\<rparr>)"

definition rust_info :: "native \<Rightarrow> backend_info" where
  "rust_info nv =
     (if \<not> rust_available nv
      then \<lparr>info_name = ''rust'', available = False,
            reason = ''the Rust library was not found in any candidate directory'', capabilities = []\<rparr>
      else \<lparr>info_name = ''rust'', available = True, reason = [],
            capabilities = [''match'', ''fnv1a32''] @ GRAPH_CAPABILITIES\<rparr>)"

definition python_info :: backend_info where
  "python_info =
     \<lparr>info_name = ''python'', available = True,
      reason = ''always available; this is the fallback of last resort'',
      capabilities = [''match'', ''fingerprint''] @ GRAPH_CAPABILITIES @ SCAN_CAPABILITIES\<rparr>"

definition go_info :: "native \<Rightarrow> backend_info" where
  "go_info nv =
     (if \<not> go_available nv
      then \<lparr>info_name = ''go'', available = False,
            reason = (if go_error nv \<noteq> [] then go_error nv else ''the Go core binary was not found''),
            capabilities = []\<rparr>
      else \<lparr>info_name = ''go'', available = True, reason = [], capabilities = SCAN_CAPABILITIES\<rparr>)"

definition backend_info_of :: "native \<Rightarrow> backend \<Rightarrow> backend_info" where
  "backend_info_of nv b =
     (case b of C_core \<Rightarrow> c_info nv | Rust_core \<Rightarrow> rust_info nv | Go_core \<Rightarrow> go_info nv
              | Python_core \<Rightarrow> python_info)"

definition backend_infos :: "native \<Rightarrow> backend_info list" where
  "backend_infos nv = map (backend_info_of nv) ALL_BACKENDS"

definition backend_infos_by_name :: "native \<Rightarrow> (string, backend_info) dict" where
  "backend_infos_by_name nv =
     foldl (\<lambda>d i. dict_set (info_name i) i d) [] (backend_infos nv)"

section \<open>Selection\<close>

text \<open>The class name of an exception, as the reasons carry it.\<close>

fun exc_name :: "exc \<Rightarrow> string" where
  "exc_name (ScopeError _ _) = ''ScopeError''"
| "exc_name (ValueError _) = ''ValueError''"
| "exc_name JSONDecodeError = ''JSONDecodeError''"
| "exc_name (KeyError _) = ''KeyError''"
| "exc_name (TypeError _) = ''TypeError''"
| "exc_name IndexError = ''IndexError''"
| "exc_name (RuntimeError _) = ''RuntimeError''"
| "exc_name RecursionError = ''RecursionError''"
| "exc_name (OSError _) = ''OSError''"
| "exc_name (FileNotFoundError _) = ''FileNotFoundError''"
| "exc_name OutOfModel = ''OutOfModel''"

fun exc_message :: "exc \<Rightarrow> string" where
  "exc_message (ScopeError m _) = m"
| "exc_message (ValueError m) = m"
| "exc_message (KeyError m) = m"
| "exc_message (TypeError m) = m"
| "exc_message (RuntimeError m) = m"
| "exc_message (OSError m) = m"
| "exc_message (FileNotFoundError m) = m"
| "exc_message _ = []"

definition raised_note :: "exc \<Rightarrow> string" where
  "raised_note e = ''raised '' @ exc_name e @ '': '' @ exc_message e"

text \<open>
  The order of a call: the base preference, or the pinned backend first. An unknown name raises.
\<close>

definition order_of :: "backend list \<Rightarrow> string option \<Rightarrow> exc + backend list" where
  "order_of base prefer =
     (case prefer of
        None \<Rightarrow> Inr base
      | Some name \<Rightarrow>
          if name = [] then Inr base
          else (case map_of BACKENDS name of
                  None \<Rightarrow> Inl (ValueError ''unknown backend'')
                | Some b \<Rightarrow> Inr (b # filter (\<lambda>n. n \<noteq> b) base)))"

text \<open>
  The loop every operation shares: the first backend of the order that is available, implements the
  capability and does not raise serves the call; every other one leaves a reason.
\<close>

fun dispatch ::
  "(backend \<Rightarrow> backend_info) \<Rightarrow> string \<Rightarrow> (backend_info \<Rightarrow> string) \<Rightarrow> (backend \<Rightarrow> exc + 'v) \<Rightarrow>
     backend list \<Rightarrow> string list \<Rightarrow> ('v \<times> backend) option \<times> string list" where
  "dispatch info cap lacks run [] reasons = (None, reasons)"
| "dispatch info cap lacks run (b # bs) reasons =
     (let i = info b; note = (\<lambda>msg. backend_name b @ '': '' @ msg)
      in if \<not> available i then dispatch info cap lacks run bs (reasons @ [note (reason i)])
         else if cap \<notin> set (capabilities i)
         then dispatch info cap lacks run bs (reasons @ [note (lacks i)])
         else (case run b of
                 Inl e \<Rightarrow> dispatch info cap lacks run bs (reasons @ [note (raised_note e)])
               | Inr v \<Rightarrow> (Some (v, b), reasons)))"

definition skipped_reason :: "string list \<Rightarrow> string" where
  "skipped_reason reasons = (if reasons = [] then [] else ''skipped '' @ join_str ''; '' reasons)"

definition no_backend :: "string list \<Rightarrow> string" where
  "no_backend reasons = ''no backend could serve the request: '' @ join_str ''; '' reasons"

definition served_by :: "native \<Rightarrow> backend \<Rightarrow> string \<Rightarrow> string" where
  "served_by nv b why =
     (if b = C_core then (if why \<noteq> [] then why @ ''; '' else []) @ ''served by '' @ c_path nv else why)"

section \<open>Matching\<close>

record match_outcome =
  matches :: "sig_match list"
  match_engine :: string
  match_reason :: string

definition python_match :: "ustr \<Rightarrow> ustr list \<Rightarrow> exc + sig_match list" where
  "python_match banner patterns =
     (let folded = fold_ascii banner in
      bind_res
        (map_res (\<lambda>pattern.
           if pattern = [] then Inr []
           else map_res (\<lambda>i. bind_res (byte_offset folded (int i)) (\<lambda>p. Inr (Match pattern p)))
                  (find_all_occurrences folded (fold_ascii pattern))) patterns)
        (\<lambda>hits. Inr (concat hits)))"

definition ascii :: "string \<Rightarrow> ustr" where
  "ascii s = map ord_of s"

text \<open>
  The call into the C core: each pattern is written as a line under a placeholder name, and the names
  of the hits are translated back.
\<close>

definition placeholders :: "ustr list \<Rightarrow> (ustr \<times> ustr) list" where
  "placeholders patterns = map (\<lambda>(i, p). (ascii (CHR ''s'' # show_nat i), p)) (enumerate 0 patterns)"

definition signature_file :: "(ustr \<times> ustr) list \<Rightarrow> ustr" where
  "signature_file ps = concat (map (\<lambda>(name, pattern). name @ [9] @ pattern @ [10]) ps)"

definition c_match :: "native \<Rightarrow> ustr \<Rightarrow> ustr list \<Rightarrow> exc + sig_match list" where
  "c_match nv banner patterns =
     (if \<not> c_available nv then Inl (RuntimeError ''the C core is unavailable'')
      else
        let ps = placeholders patterns in
        bind_res (utf8_encode (signature_file ps)) (\<lambda>_.
        bind_res (c_scan nv banner (signature_file ps)) (\<lambda>hits.
          Inr (map (\<lambda>(s, pos). Match (case map_of ps s of Some p \<Rightarrow> p | None \<Rightarrow> s) pos) hits))))"

definition rust_hits :: "native \<Rightarrow> ustr \<Rightarrow> ustr list \<Rightarrow> exc + sig_match list" where
  "rust_hits nv banner patterns =
     bind_res (rust_match nv banner patterns) (\<lambda>hits. Inr (map (\<lambda>(s, pos). Match s pos) hits))"

definition run_match :: "native \<Rightarrow> ustr \<Rightarrow> ustr list \<Rightarrow> backend \<Rightarrow> exc + sig_match list" where
  "run_match nv banner patterns b =
     (if b = C_core then c_match nv banner patterns
      else if b = Rust_core then rust_hits nv banner patterns
      else python_match banner patterns)"

definition match_engine_name :: "backend \<Rightarrow> string" where
  "match_engine_name b =
     (if b = C_core then ''c-native'' else if b = Rust_core then ''rust-native'' else ''python-fallback'')"

definition match_signatures ::
  "native \<Rightarrow> ustr \<Rightarrow> ustr list \<Rightarrow> string option \<Rightarrow> exc + match_outcome" where
  "match_signatures nv banner patterns prefer =
     (if banner = [] \<or> patterns = []
      then Inr \<lparr>matches = [], match_engine = ''none'',
                match_reason = ''nothing to match: empty text or pattern set''\<rparr>
      else bind_res (order_of PREFERENCE prefer) (\<lambda>order. Inr
        (case dispatch (backend_info_of nv) ''match'' (\<lambda>_. ''does not implement match'')
                (run_match nv banner patterns) order [] of
           (Some (hits, b), reasons) \<Rightarrow>
             \<lparr>matches = normalise hits, match_engine = match_engine_name b,
              match_reason = served_by nv b (skipped_reason reasons)\<rparr>
         | (None, reasons) \<Rightarrow>
             \<lparr>matches = [], match_engine = ''none'', match_reason = no_backend reasons\<rparr>)))"

section \<open>Fingerprints\<close>

record fingerprint_outcome =
  fnv32 :: string
  fnv64 :: string
  crc :: string
  fp_engine :: string
  fp_reason :: string

definition python_fingerprint :: "ustr \<Rightarrow> exc + digests" where
  "python_fingerprint t =
     bind_res (fnv1a32_py t) (\<lambda>a. bind_res (fnv1a64_py t) (\<lambda>b. bind_res (crc32_py t) (\<lambda>c.
       Inr (show_hex0 8 a, show_hex0 16 b, show_hex0 8 c))))"

definition run_fingerprint :: "native \<Rightarrow> ustr \<Rightarrow> backend \<Rightarrow> exc + digests" where
  "run_fingerprint nv t b =
     (if b = C_core
      then (if \<not> c_available nv then Inl (RuntimeError ''the C core is unavailable'')
            else c_digests nv t)
      else python_fingerprint t)"

definition lacks_digests :: "backend_info \<Rightarrow> string" where
  "lacks_digests i =
     ''implements only ['' @ join_str '', '' (map (\<lambda>c. [CHR 0x27] @ c @ [CHR 0x27]) (sort (capabilities i)))
       @ ''], not a full digest set''"

definition fingerprint :: "native \<Rightarrow> ustr \<Rightarrow> string option \<Rightarrow> exc + fingerprint_outcome" where
  "fingerprint nv t prefer =
     (if t = []
      then Inr \<lparr>fnv32 = [], fnv64 = [], crc = [], fp_engine = ''none'', fp_reason = ''empty text has no digest''\<rparr>
      else bind_res (order_of PREFERENCE prefer) (\<lambda>order. Inr
        (case dispatch (backend_info_of nv) ''fingerprint''
                lacks_digests
                (run_fingerprint nv t) order [] of
           (Some ((a, b, c), be), reasons) \<Rightarrow>
             \<lparr>fnv32 = a, fnv64 = b, crc = c,
              fp_engine = (if be = C_core then ''c-native'' else ''python-fallback''),
              fp_reason = served_by nv be (skipped_reason reasons)\<rparr>
         | (None, reasons) \<Rightarrow>
             \<lparr>fnv32 = [], fnv64 = [], crc = [], fp_engine = ''none'', fp_reason = no_backend reasons\<rparr>)))"

section \<open>Graph operations\<close>

record 'v graph_outcome =
  graph_value :: "'v option"
  graph_engine :: string
  graph_reason :: string

definition GRAPH_PREFERENCE :: "backend list" where
  "GRAPH_PREFERENCE = filter (\<lambda>b. b \<in> {Rust_core, Python_core}) PREFERENCE"

text \<open>\<open>native\<close> and \<open>fallback\<close> are the two closures; \<open>graph_value\<close> is None when none served.\<close>

definition graph_dispatch ::
  "native \<Rightarrow> string \<Rightarrow> exc + 'v \<Rightarrow> exc + 'v \<Rightarrow> string option \<Rightarrow> exc + 'v graph_outcome" where
  "graph_dispatch nv capability native_op fallback prefer =
     bind_res (order_of GRAPH_PREFERENCE prefer) (\<lambda>order. Inr
       (case dispatch (backend_info_of nv) capability (\<lambda>_. ''does not implement '' @ capability)
               (\<lambda>b. if b = Rust_core then native_op else fallback) order [] of
          (Some (v, b), reasons) \<Rightarrow>
            \<lparr>graph_value = Some v,
             graph_engine = (if b = Rust_core then ''rust-native'' else ''python-fallback''),
             graph_reason = skipped_reason reasons\<rparr>
        | (None, reasons) \<Rightarrow>
            \<lparr>graph_value = None, graph_engine = ''none'', graph_reason = no_backend reasons\<rparr>))"

section \<open>Port scans\<close>

text \<open>
  What a TCP connection attempt came to. An exception that is no \<open>OSError\<close>, such as the \<open>OverflowError\<close> of
  a port above 65535, leaves the probe.
\<close>

datatype connect_outcome = Connected | Connection_refused | Connect_os_error | Connect_raises exc

definition probe_state :: "connect_outcome \<Rightarrow> exc + string" where
  "probe_state c =
     (case c of Connected \<Rightarrow> Inr ''open'' | Connection_refused \<Rightarrow> Inr ''closed'' | Connect_os_error \<Rightarrow> Inr ''filtered''
              | Connect_raises e \<Rightarrow> Inl e)"

definition probe_row :: "string \<Rightarrow> int \<times> string \<Rightarrow> pydict" where
  "probe_row host ps =
     [(''module'', PStr ''discovery''), (''host'', PStr host), (''port'', PInt (fst ps)),
      (''open'', PBool (snd ps = ''open'')), (''state'', PStr (snd ps)), (''service'', PNone)]"

text \<open>
  \<open>pool.map\<close> yields the states in the order of the ports, whatever order the probes end in, and raises what
  the first probe of that order raised.
\<close>

definition port_and_state :: "(int \<Rightarrow> connect_outcome) \<Rightarrow> int \<Rightarrow> exc + (int \<times> string)" where
  "port_and_state connect p = bind_res (probe_state (connect p)) (\<lambda>s. Inr (p, s))"

definition python_scan_ports :: "(int \<Rightarrow> connect_outcome) \<Rightarrow> string \<Rightarrow> int list \<Rightarrow> exc + pydict list" where
  "python_scan_ports connect host ports =
     bind_res (map_res (port_and_state connect) ports) (\<lambda>states.
       Inr (map (probe_row host) (filter (\<lambda>ps. snd ps = ''open'') (sort states))))"

text \<open>
  \<open>run_go\<close> is the bridge to the Go core: the rows of the run and what it left in
  \<open>LAST_ERROR\<close>, which an empty result alone would hide.
\<close>

definition go_scan ::
  "native \<Rightarrow> (string \<Rightarrow> string \<Rightarrow> exc + (pydict list \<times> string)) \<Rightarrow> string \<Rightarrow> int list \<Rightarrow>
     exc + pydict list" where
  "go_scan nv run_go host ports =
     (if \<not> go_available nv then Inl (RuntimeError ''the Go core binary was not found'')
      else bind_res (run_go host (join_str '','' (map show_int ports))) (\<lambda>(rows, last_error).
        if last_error \<noteq> [] then Inl (RuntimeError last_error) else Inr rows))"

record scan_outcome =
  scan_ports_open :: "int list"
  scan_rows :: "pydict list"
  scan_engine :: string
  scan_reason :: string

definition int_of_pyval :: "pyval \<Rightarrow> exc + int" where
  "int_of_pyval v =
     (case v of PInt i \<Rightarrow> Inr i | PBool b \<Rightarrow> Inr (if b then 1 else 0)
      | PNone \<Rightarrow> Inl (TypeError ''int() argument'') | PList _ \<Rightarrow> Inl (TypeError ''int() argument'')
      | PDict _ \<Rightarrow> Inl (TypeError ''int() argument'') | _ \<Rightarrow> Inl OutOfModel)"

definition row_ports :: "pydict list \<Rightarrow> exc + int list" where
  "row_ports rows = map_res (\<lambda>r. int_of_pyval (dget r ''port''))
     (filter (\<lambda>r. ''port'' \<in> set (dict_keys r)) rows)"

definition scan_ports ::
  "native \<Rightarrow> (string \<Rightarrow> string \<Rightarrow> exc + (pydict list \<times> string)) \<Rightarrow> (int \<Rightarrow> connect_outcome) \<Rightarrow>
     string \<Rightarrow> int list \<Rightarrow> string option \<Rightarrow> exc + scan_outcome" where
  "scan_ports nv run_go connect host ports prefer =
     (if host = [] \<or> ports = []
      then Inr \<lparr>scan_ports_open = [], scan_rows = [], scan_engine = ''none'',
                scan_reason = ''nothing to probe: no host or no ports''\<rparr>
      else bind_res (order_of [Go_core, Python_core] prefer) (\<lambda>order.
        case dispatch (backend_info_of nv) ''scan_ports'' (\<lambda>_. ''does not implement scan_ports'')
               (\<lambda>b. if b = Go_core then go_scan nv run_go host ports
                     else python_scan_ports connect host ports) order [] of
          (Some (rows, b), reasons) \<Rightarrow>
            bind_res (row_ports rows) (\<lambda>open_ports.
              Inr \<lparr>scan_ports_open = sort open_ports, scan_rows = rows,
                   scan_engine = (if b = Go_core then ''go-native'' else ''python-fallback''),
                   scan_reason = skipped_reason reasons\<rparr>)
        | (None, reasons) \<Rightarrow>
            Inr \<lparr>scan_ports_open = [], scan_rows = [], scan_engine = ''none'',
                 scan_reason = no_backend reasons\<rparr>))"

section \<open>Cross-checking\<close>

record comparison =
  cmp_backends :: "(string, sig_match list) dict"
  cmp_skipped :: "(string, string) dict"
  agree :: "bool option"
  corroborated :: "bool option"
  disagreements :: "(string, (ustr \<times> int) list \<times> (ustr \<times> int) list \<times> string) dict"

definition hit_key :: "sig_match list \<Rightarrow> (ustr \<times> int) list" where
  "hit_key found = sort (map (\<lambda>m. (signature m, position m)) found)"

definition compare_step ::
  "native \<Rightarrow> ustr \<Rightarrow> ustr list \<Rightarrow> (string, sig_match list) dict \<times> (string, string) dict \<Rightarrow> backend \<Rightarrow>
     (string, sig_match list) dict \<times> (string, string) dict" where
  "compare_step nv banner patterns st b =
     (case st of (per_backend, skipped) \<Rightarrow>
        let i = backend_info_of nv b in
        if \<not> available i then (per_backend, dict_set (backend_name b) (reason i) skipped)
        else (case match_signatures nv banner patterns (Some (backend_name b)) of
                Inl e \<Rightarrow> (per_backend, dict_set (backend_name b) (raised_note e) skipped)
              | Inr out \<Rightarrow> (dict_set (backend_name b) (matches out) per_backend, skipped)))"

definition compare_backends :: "native \<Rightarrow> ustr \<Rightarrow> ustr list \<Rightarrow> comparison" where
  "compare_backends nv banner patterns =
     (case foldl (compare_step nv banner patterns) ([], []) PREFERENCE of (per_backend, skipped) \<Rightarrow>
        case per_backend of
          [] \<Rightarrow> \<lparr>cmp_backends = [], cmp_skipped = skipped, agree = None, corroborated = None,
                disagreements = []\<rparr>
        | (reference_name, reference) # _ \<Rightarrow>
            let bad = map (\<lambda>(name, found). (name, hit_key found, hit_key reference, reference_name))
                        (filter (\<lambda>(name, found). hit_key found \<noteq> hit_key reference) per_backend);
                both = 2 \<le> length per_backend
            in \<lparr>cmp_backends = per_backend, cmp_skipped = skipped,
                agree = (if both then Some (bad = []) else None), corroborated = Some both,
                disagreements = bad\<rparr>)"

section \<open>Facts\<close>

definition serves ::
  "(backend \<Rightarrow> backend_info) \<Rightarrow> string \<Rightarrow> (backend \<Rightarrow> exc + 'v) \<Rightarrow> backend \<Rightarrow> 'v option" where
  "serves info cap run b =
     (if available (info b) \<and> cap \<in> set (capabilities (info b))
      then (case run b of Inl _ \<Rightarrow> None | Inr v \<Rightarrow> Some v) else None)"

lemma dispatch_result:
  "fst (dispatch info cap lacks run order reasons) =
     map_option (\<lambda>b. (the (serves info cap run b), b)) (find (\<lambda>b. serves info cap run b \<noteq> None) order)"
  by (induction order arbitrary: reasons) (auto simp: Let_def serves_def split: sum.splits)

lemma dispatch_reasons:
  "length (snd (dispatch info cap lacks run order reasons)) =
     length reasons + length (takeWhile (\<lambda>b. serves info cap run b = None) order)"
  by (induction order arbitrary: reasons) (auto simp: Let_def serves_def split: sum.splits)

text \<open>A dispatch is one attempt per backend, in order, until one serves.\<close>

lemma dispatch_cases:
  obtains (served) pre b post v reasons where
      "order = pre @ b # post" "\<forall>c\<in>set pre. serves info cap run c = None" "serves info cap run b = Some v"
      "dispatch info cap lacks run order [] = (Some (v, b), reasons)" "length reasons = length pre"
  | (none) reasons where "\<forall>c\<in>set order. serves info cap run c = None"
      "dispatch info cap lacks run order [] = (None, reasons)" "length reasons = length order"
proof (cases "find (\<lambda>b. serves info cap run b \<noteq> None) order")
  case None
  then have no: "\<forall>c\<in>set order. serves info cap run c = None" by (simp add: find_None_iff)
  obtain r reasons where d: "dispatch info cap lacks run order [] = (r, reasons)" by fastforce
  have "length reasons = length order"
    using dispatch_reasons [of info cap lacks run order "[]"] no
    by (simp add: d takeWhile_eq_all_conv [THEN iffD2])
  moreover have "r = None"
    using dispatch_result [of info cap lacks run order "[]"] None by (simp add: d)
  ultimately show ?thesis using none [OF no] d by simp
next
  case (Some b)
  then obtain i where i: "i < length order" "order ! i = b" "serves info cap run b \<noteq> None"
      "\<forall>j<i. serves info cap run (order ! j) = None"
    by (auto simp: find_Some_iff)
  have pre: "\<forall>c\<in>set (take i order). serves info cap run c = None"
    using i by (auto simp: in_set_conv_nth)
  have split: "order = take i order @ b # drop (Suc i) order"
    using id_take_nth_drop [OF i(1)] i(2) by simp
  have "takeWhile (\<lambda>b. serves info cap run b = None) order = take i order"
    using i pre by (subst split) (auto simp: takeWhile_append2)
  moreover obtain r reasons where d: "dispatch info cap lacks run order [] = (r, reasons)" by fastforce
  ultimately have "length reasons = length (take i order)"
    using dispatch_reasons [of info cap lacks run order "[]"] by (simp add: d)
  moreover obtain v where v: "serves info cap run b = Some v" using i(3) by auto
  moreover have "r = Some (v, b)"
    using dispatch_result [of info cap lacks run order "[]"] Some v by (simp add: d)
  ultimately show ?thesis using served [OF split pre v] d by simp
qed

lemma map_res_Inr [simp]: "map_res (\<lambda>x. Inr (f x)) xs = Inr (map f xs)"
  by (rule map_res_total) simp

lemma python_match_scalar:
  assumes "list_all is_scalar banner"
  shows "\<exists>v. python_match banner patterns = Inr v \<and>
           set v = {Match p pos | p pos. p \<in> set patterns \<and> hit_at banner p pos}"
proof -
  let ?at = "\<lambda>p i. Match p (int (utf8_length (take i banner)))"
  let ?hits = "\<lambda>p. if p = [] then [] else
      map (?at p) (find_all_occurrences (fold_ascii banner) (fold_ascii p))"
  have one: "(if p = [] then Inr []
      else map_res (\<lambda>i. bind_res (byte_offset (fold_ascii banner) (int i)) (\<lambda>pos. Inr (Match p pos)))
             (find_all_occurrences (fold_ascii banner) (fold_ascii p))) = (Inr (?hits p) :: exc + sig_match list)" for p
    by (simp add: byte_offset_fold [OF assms] map_res_total)
  have eq: "python_match banner patterns = Inr (concat (map ?hits patterns))"
    unfolding python_match_def Let_def one map_res_Inr by (simp del: map_res.simps)
  have "set (?hits p) = {Match p pos | pos. hit_at banner p pos}" for p
    by (auto simp: find_all_set hit_at_def fold_ascii_def)
  then have "set (concat (map ?hits patterns)) =
      {Match p pos | p pos. p \<in> set patterns \<and> hit_at banner p pos}"
    unfolding set_concat set_map by blast
  with eq show ?thesis by blast
qed

lemma python_serves_match:
  assumes "list_all is_scalar banner"
  shows "serves (backend_info_of nv) ''match'' (run_match nv banner patterns) Python_core \<noteq> None"
  using python_match_scalar [OF assms, of patterns]
  by (auto simp: serves_def backend_info_of_def python_info_def run_match_def)

lemma order_of_python: "order_of base prefer = Inr order \<Longrightarrow> Python_core \<in> set base \<Longrightarrow> Python_core \<in> set order"
  by (auto simp: order_of_def split: option.splits if_splits)

text \<open>
  C26: A match request over encodable text with any valid preference is always answered, and by
  exactly one backend: the first of its order that serves it. The hits are that backend's alone,
  deduplicated and sorted, the engine names it, and every backend before it left one reason.
\<close>
theorem match_signatures_served:
  assumes "list_all is_scalar banner" and "banner \<noteq> []" and "patterns \<noteq> []"
    and "order_of PREFERENCE prefer = Inr order"
  shows "\<exists>pre b post v reasons. order = pre @ b # post \<and>
     (\<forall>c\<in>set pre. serves (backend_info_of nv) ''match'' (run_match nv banner patterns) c = None) \<and>
     serves (backend_info_of nv) ''match'' (run_match nv banner patterns) b = Some v \<and>
     length reasons = length pre \<and>
     match_signatures nv banner patterns prefer =
       Inr \<lparr>matches = sort (remdups v), match_engine = match_engine_name b,
            match_reason = served_by nv b (skipped_reason reasons)\<rparr>"
proof (rule dispatch_cases [of order "backend_info_of nv" "''match''" "run_match nv banner patterns"
      "\<lambda>_. ''does not implement match''"])
  fix pre b post v reasons
  assume "order = pre @ b # post" "length reasons = length pre"
    "\<forall>c\<in>set pre. serves (backend_info_of nv) ''match'' (run_match nv banner patterns) c = None"
    "serves (backend_info_of nv) ''match'' (run_match nv banner patterns) b = Some v"
    "dispatch (backend_info_of nv) ''match'' (\<lambda>_. ''does not implement match'')
       (run_match nv banner patterns) order [] = (Some (v, b), reasons)"
  moreover from this have "match_signatures nv banner patterns prefer =
       Inr \<lparr>matches = sort (remdups v), match_engine = match_engine_name b,
            match_reason = served_by nv b (skipped_reason reasons)\<rparr>"
    using assms by (simp add: match_signatures_def normalise_def)
  ultimately show ?thesis by blast
next
  assume none: "\<forall>c\<in>set order. serves (backend_info_of nv) ''match'' (run_match nv banner patterns) c = None"
  have "Python_core \<in> set order"
    using order_of_python [OF assms(4)] by (simp add: PREFERENCE_def)
  with none have "serves (backend_info_of nv) ''match'' (run_match nv banner patterns) Python_core = None"
    by (rule bspec)
  with python_serves_match [OF assms(1), of nv patterns] show ?thesis by (rule notE)
qed

definition no_cores :: native where
  "no_cores = \<lparr>c_available = False, c_note = [], c_path = [], c_scan = (\<lambda>_ _. Inr []),
     c_digests = (\<lambda>_. Inr ([], [], [])), rust_available = False, rust_match = (\<lambda>_ _. Inr []),
     go_available = False, go_error = []\<rparr>"

theorem match_signatures_served_witness:
  "\<exists>pre b post v reasons. [Go_core, C_core, Rust_core, Python_core] = pre @ b # post \<and>
     (\<forall>c\<in>set pre. serves (backend_info_of no_cores) ''match'' (run_match no_cores [65] [[97]]) c = None) \<and>
     serves (backend_info_of no_cores) ''match'' (run_match no_cores [65] [[97]]) b = Some v \<and>
     length reasons = length pre \<and>
     match_signatures no_cores [65] [[97]] (Some ''go'') =
       Inr \<lparr>matches = sort (remdups v), match_engine = match_engine_name b,
            match_reason = served_by no_cores b (skipped_reason reasons)\<rparr>"
  by (rule match_signatures_served)
    (simp_all add: is_scalar_def is_surrogate_def order_of_def BACKENDS_def PREFERENCE_def)

lemma match_signatures_only_python:
  assumes "list_all is_scalar banner" "banner \<noteq> []" "patterns \<noteq> []"
    and "order_of PREFERENCE prefer = Inr order"
    and "\<And>b. b \<noteq> Python_core \<Longrightarrow>
      serves (backend_info_of nv) ''match'' (run_match nv banner patterns) b = None"
  shows "\<exists>v why. python_match banner patterns = Inr v \<and>
     match_signatures nv banner patterns prefer =
       Inr \<lparr>matches = normalise v, match_engine = ''python-fallback'', match_reason = why\<rparr>"
proof -
  let ?s = "serves (backend_info_of nv) ''match'' (run_match nv banner patterns)"
  obtain v where v: "python_match banner patterns = Inr v"
    using python_match_scalar [OF assms(1)] by blast
  have s: "?s Python_core = Some v"
    by (simp add: serves_def backend_info_of_def python_info_def run_match_def v)
  have "find (\<lambda>b. ?s b \<noteq> None) order = Some Python_core"
  proof (cases "find (\<lambda>b. ?s b \<noteq> None) order")
    case None
    then show ?thesis
      using s order_of_python [OF assms(4)] by (auto simp: find_None_iff PREFERENCE_def)
  next
    case (Some b)
    then have "?s b \<noteq> None" by (auto simp: find_Some_iff)
    with assms(5) Some show ?thesis by metis
  qed
  then have "fst (dispatch (backend_info_of nv) ''match'' (\<lambda>_. ''does not implement match'')
       (run_match nv banner patterns) order []) = Some (v, Python_core)"
    unfolding dispatch_result using s by simp
  then obtain why where "dispatch (backend_info_of nv) ''match'' (\<lambda>_. ''does not implement match'')
       (run_match nv banner patterns) order [] = (Some (v, Python_core), why)"
    by (metis prod.collapse)
  then show ?thesis
    using assms v by (simp add: match_signatures_def match_engine_name_def)
qed

text \<open>
  On a host with no native core the Python floor answers, and its hits are exactly the byte
  offsets at which a non-empty pattern occurs without case, each once, ordered by position.
\<close>
theorem python_floor_complete:
  assumes "list_all is_scalar banner" and "banner \<noteq> []" and "patterns \<noteq> []"
    and "\<not> c_available nv" and "\<not> rust_available nv"
  shows "\<exists>ms why. match_signatures nv banner patterns None =
       Inr \<lparr>matches = ms, match_engine = ''python-fallback'', match_reason = why\<rparr> \<and>
     set ms = {Match p pos | p pos. p \<in> set patterns \<and> hit_at banner p pos} \<and>
     distinct ms \<and> sorted (map position ms)"
proof -
  have no: "serves (backend_info_of nv) ''match'' (run_match nv banner patterns) b = None"
    if "b \<noteq> Python_core" for b
    using that assms(4,5)
    by (cases b) (simp_all add: serves_def backend_info_of_def c_info_def rust_info_def go_info_def SCAN_CAPABILITIES_def)
  have "order_of PREFERENCE None = Inr PREFERENCE" by (simp add: order_of_def)
  with match_signatures_only_python [OF assms(1-3) _ no] obtain v why
    where "python_match banner patterns = Inr v" "match_signatures nv banner patterns None =
       Inr \<lparr>matches = normalise v, match_engine = ''python-fallback'', match_reason = why\<rparr>"
    by blast
  moreover have "sorted (map position (normalise v))"
    by (rule sorted_map [THEN iffD2], rule sorted_wrt_mono_rel [OF _ normalise_facts(2)])
      (auto simp: less_eq_sig_match_def)
  ultimately show ?thesis
    using python_match_scalar [OF assms(1), of patterns] normalise_facts [of v] by auto
qed

theorem python_floor_complete_witness:
  "\<exists>ms why. match_signatures no_cores [65, 233, 66] [[98]] None =
       Inr \<lparr>matches = ms, match_engine = ''python-fallback'', match_reason = why\<rparr> \<and>
     set ms = {Match p pos | p pos. p \<in> set [[98]] \<and> hit_at [65, 233, 66] p pos} \<and>
     distinct ms \<and> sorted (map position ms)"
  by (rule python_floor_complete) (simp_all add: is_scalar_def is_surrogate_def no_cores_def)

text \<open>
  When the C core is available but fails on the input and there is no Rust core,
  \<open>compare_backends\<close> reports the C core's entry from the Python fallback and calls the
  two entries a corroborated agreement.
\<close>
theorem compare_backends_masks_failure:
  assumes "list_all is_scalar banner" and "banner \<noteq> []" and "patterns \<noteq> []"
    and "c_available nv" and "c_match nv banner patterns = Inl e" and "\<not> rust_available nv"
  shows "\<exists>v. python_match banner patterns = Inr v \<and>
     cmp_backends (compare_backends nv banner patterns) = [(''c'', normalise v), (''python'', normalise v)] \<and>
     agree (compare_backends nv banner patterns) = Some True \<and>
     corroborated (compare_backends nv banner patterns) = Some True"
proof -
  have no: "serves (backend_info_of nv) ''match'' (run_match nv banner patterns) b = None"
    if "b \<noteq> Python_core" for b
    using that assms(4-6)
    by (cases b) (simp_all add: serves_def backend_info_of_def c_info_def rust_info_def go_info_def
        SCAN_CAPABILITIES_def run_match_def)
  have order: "\<exists>order. order_of PREFERENCE (Some (backend_name b)) = Inr order" for b
    by (cases b) (simp_all add: order_of_def backend_name_def BACKENDS_def)
  obtain v where v: "python_match banner patterns = Inr v"
    using python_match_scalar [OF assms(1)] by blast
  have out: "\<exists>why. match_signatures nv banner patterns (Some (backend_name b)) =
       Inr \<lparr>matches = normalise v, match_engine = ''python-fallback'', match_reason = why\<rparr>" for b
    using match_signatures_only_python [OF assms(1-3) _ no] order [of b] v by fastforce
  have step: "compare_step nv banner patterns (per, sk) b =
      (if available (backend_info_of nv b) then (dict_set (backend_name b) (normalise v) per, sk)
       else (per, dict_set (backend_name b) (reason (backend_info_of nv b)) sk))" for per sk b
    using out [of b] by (auto simp: compare_step_def Let_def)
  have avail: "available (backend_info_of nv C_core)" "\<not> available (backend_info_of nv Rust_core)"
      "available (backend_info_of nv Python_core)"
    using assms(4,6) by (simp_all add: backend_info_of_def c_info_def rust_info_def python_info_def)
  have "compare_backends nv banner patterns =
     \<lparr>cmp_backends = [(''c'', normalise v), (''python'', normalise v)],
      cmp_skipped = [(''rust'', reason (backend_info_of nv Rust_core))],
      agree = Some True, corroborated = Some True, disagreements = []\<rparr>"
    by (simp add: compare_backends_def PREFERENCE_def step avail backend_name_def)
  with v show ?thesis by simp
qed

definition failing_c :: native where
  "failing_c = no_cores\<lparr>c_available := True, c_scan := (\<lambda>_ _. Inl (RuntimeError ''crashed''))\<rparr>"

theorem compare_backends_masks_failure_witness:
  "\<exists>v. python_match [65] [[97]] = Inr v \<and>
     cmp_backends (compare_backends failing_c [65] [[97]]) = [(''c'', normalise v), (''python'', normalise v)] \<and>
     agree (compare_backends failing_c [65] [[97]]) = Some True \<and>
     corroborated (compare_backends failing_c [65] [[97]]) = Some True"
  by (rule compare_backends_masks_failure [where e = "RuntimeError ''crashed''"])
    (simp_all add: is_scalar_def is_surrogate_def failing_c_def no_cores_def c_match_def Let_def
      utf8_encode_def signature_file_def placeholders_def ascii_def show_nat_0 ord_of_def)

definition no_surprise :: "(int \<Rightarrow> connect_outcome) \<Rightarrow> int list \<Rightarrow> bool" where
  "no_surprise connect ports \<longleftrightarrow> (\<forall>p\<in>set ports. \<forall>e. connect p \<noteq> Connect_raises e)"

lemma port_states:
  "no_surprise connect ports \<Longrightarrow> \<exists>states. map_res (port_and_state connect) ports = Inr states \<and>
     filter (\<lambda>ps. snd ps = ''open'') states = map (\<lambda>p. (p, ''open'')) (filter (\<lambda>p. connect p = Connected) ports)"
proof (induction ports)
  case (Cons p ports)
  then show ?case
    by (cases "connect p") (auto simp: no_surprise_def port_and_state_def probe_state_def)
qed simp

lemma row_ports_probe: "row_ports (map (probe_row host) ps) = Inr (map fst ps)"
  by (induction ps) (simp_all add: row_ports_def probe_row_def int_of_pyval_def dget_def)

text \<open>
  When the Go core is missing, refuses to run or reports an error, a port scan is answered by
  the socket probe, unless that raises as well: the open ports are exactly the requested ports that accepted
  a connection, in ascending order, so a failed native run is never read as closed ports.
\<close>
theorem scan_ports_falls_back:
  assumes "host \<noteq> []" and "ports \<noteq> []"
    and "\<not> go_available nv \<or> (\<exists>e. run_go host (join_str '','' (map show_int ports)) = Inl e) \<or>
      (\<exists>rows err. run_go host (join_str '','' (map show_int ports)) = Inr (rows, err) \<and> err \<noteq> [])"
    and "no_surprise connect ports"
  shows "\<exists>out. scan_ports nv run_go connect host ports None = Inr out \<and>
     scan_engine out = ''python-fallback'' \<and>
     scan_ports_open out = sort (filter (\<lambda>p. connect p = Connected) ports)"
proof -
  let ?run = "\<lambda>b. if b = Go_core then go_scan nv run_go host ports else python_scan_ports connect host ports"
  let ?s = "serves (backend_info_of nv) ''scan_ports'' ?run"
  obtain states where states: "map_res (port_and_state connect) ports = Inr states"
    "filter (\<lambda>ps. snd ps = ''open'') states = map (\<lambda>p. (p, ''open'')) (filter (\<lambda>p. connect p = Connected) ports)"
    using port_states [OF assms(4)] by blast
  let ?open = "filter (\<lambda>ps. snd ps = ''open'') (sort states)"
  have rows: "python_scan_ports connect host ports = Inr (map (probe_row host) ?open)"
    by (simp add: python_scan_ports_def states(1))
  have "?s Go_core = None"
    using assms(3) by (auto simp: serves_def backend_info_of_def go_info_def go_scan_def)
  moreover have "?s Python_core = Some (map (probe_row host) ?open)"
    by (simp add: serves_def backend_info_of_def python_info_def SCAN_CAPABILITIES_def rows)
  ultimately have "fst (dispatch (backend_info_of nv) ''scan_ports'' (\<lambda>_. ''does not implement scan_ports'') ?run
       [Go_core, Python_core] []) = Some (map (probe_row host) ?open, Python_core)"
    unfolding dispatch_result by simp
  then obtain why where
    "dispatch (backend_info_of nv) ''scan_ports'' (\<lambda>_. ''does not implement scan_ports'') ?run
       [Go_core, Python_core] [] = (Some (map (probe_row host) ?open, Python_core), why)"
    by (metis prod.collapse)
  moreover have "row_ports (map (probe_row host) ?open) = Inr (map fst ?open)"
    by (rule row_ports_probe)
  moreover have "sort (map fst ?open) = sort (filter (\<lambda>p. connect p = Connected) ports)"
  proof (rule properties_for_sort)
    have "mset ?open = mset (filter (\<lambda>ps. snd ps = ''open'') states)" by simp
    then have "mset ?open = mset (map (\<lambda>p. (p, ''open'')) (filter (\<lambda>p. connect p = Connected) ports))"
      by (simp only: states(2))
    then have "mset (map fst ?open) = mset (map fst (map (\<lambda>p. (p, ''open'')) (filter (\<lambda>p. connect p = Connected) ports)))"
      by (simp only: mset_map)
    then show "mset (sort (filter (\<lambda>p. connect p = Connected) ports)) = mset (map fst ?open)"
      by (simp add: comp_def)
  qed simp
  ultimately show ?thesis
    using assms(1,2) by (simp add: scan_ports_def order_of_def)
qed

theorem scan_ports_falls_back_witness:
  "\<exists>out. scan_ports no_cores (\<lambda>_ _. Inr ([], [])) (\<lambda>p. if p = 22 then Connected else Connect_os_error)
       ''h'' [80, 22] None = Inr out \<and> scan_engine out = ''python-fallback'' \<and>
     scan_ports_open out = sort (filter (\<lambda>p. (if p = 22 then Connected else Connect_os_error) = Connected) [80, 22])"
  by (rule scan_ports_falls_back) (simp_all add: no_cores_def no_surprise_def)

end
