(* ===== verification/PyFloat.thy ===== *)
theory PyFloat
  imports Prelude "HOL-Library.Log_Nat"
begin

text \<open>
  IEEE double arithmetic as the code uses it: a finite float is the rational it stands for, and
  every operation rounds the exact result to the nearest double, ties to even. Infinities, NaN and
  overflow are outside the model; the values the modelled code computes are far below 2^1024.
\<close>

named_theorems float_simps \<open>exact results of float operations\<close>

type_synonym float = rat

section \<open>Rounding\<close>

definition round_even :: "rat \<Rightarrow> int" where
  "round_even q =
     (let f = \<lfloor>q\<rfloor>; d = q - of_int f
      in if d < 1 / 2 then f else if 1 / 2 < d then f + 1 else if even f then f else f + 1)"

lemma round_even_int [simp, float_simps]: "round_even (of_int n) = n"
  by (simp add: round_even_def)

lemma round_even_bounds: "of_int (round_even q) - q \<le> 1 / 2" "q - of_int (round_even q) \<le> 1 / 2"
proof -
  have f: "of_int \<lfloor>q\<rfloor> \<le> q" "q < of_int \<lfloor>q\<rfloor> + 1" by linarith+
  let ?d = "q - of_int \<lfloor>q\<rfloor>"
  have *: "of_int (round_even q) = (of_int \<lfloor>q\<rfloor> + (if ?d < 1 / 2 \<or> ?d = 1 / 2 \<and> even \<lfloor>q\<rfloor> then 0 else 1) :: rat)"
    by (auto simp: round_even_def Let_def)
  have "of_int (round_even q) - q \<le> 1 / 2 \<and> q - of_int (round_even q) \<le> 1 / 2"
  proof (cases "?d < 1 / 2 \<or> ?d = 1 / 2 \<and> even \<lfloor>q\<rfloor>")
    case True
    then have "of_int (round_even q) = (of_int \<lfloor>q\<rfloor> :: rat)" using * by simp
    moreover have "?d \<le> 1 / 2" using True by linarith
    ultimately show ?thesis using f by linarith
  next
    case False
    then have "of_int (round_even q) = (of_int \<lfloor>q\<rfloor> + 1 :: rat)" using * by simp
    moreover have "1 / 2 \<le> ?d" using False by linarith
    ultimately show ?thesis using f by linarith
  qed
  then show "of_int (round_even q) - q \<le> 1 / 2" "q - of_int (round_even q) \<le> 1 / 2" by simp_all
qed

lemma round_even_mono: "p \<le> q \<Longrightarrow> round_even p \<le> round_even q"
proof -
  assume le: "p \<le> q"
  consider "\<lfloor>p\<rfloor> = \<lfloor>q\<rfloor>" | "\<lfloor>p\<rfloor> + 1 \<le> \<lfloor>q\<rfloor>"
    using floor_mono [OF le] by linarith
  then show ?thesis
  proof cases
    case 1
    then show ?thesis using le by (simp add: round_even_def Let_def)
  next
    case 2
    moreover have "round_even p \<le> \<lfloor>p\<rfloor> + 1" "\<lfloor>q\<rfloor> \<le> round_even q"
      by (simp_all add: round_even_def Let_def)
    ultimately show ?thesis by linarith
  qed
qed

lemma round_even_near:
  assumes "\<bar>q - of_int n\<bar> < 1 / 2"
  shows "round_even q = n"
proof -
  have "\<bar>of_int (round_even q) - of_int n :: rat\<bar> < 1"
    using round_even_bounds [of q] assms by linarith
  then have "\<bar>of_int (round_even q - n) :: rat\<bar> < 1" by simp
  then show ?thesis by linarith
qed

lemma round_even_minus: "round_even (- q) = - round_even q"
proof (cases "of_int \<lfloor>q\<rfloor> = q")
  case True
  then obtain n where "q = of_int n" by metis
  then show ?thesis by (metis of_int_minus round_even_int)
next
  case False
  then have "\<lfloor>- q\<rfloor> = - \<lfloor>q\<rfloor> - 1"
    by (simp add: floor_minus ceiling_altdef)
  then show ?thesis by (auto simp: round_even_def Let_def)
qed

section \<open>Binades\<close>

definition pow2 :: "int \<Rightarrow> rat" where
  "pow2 e = (if 0 \<le> e then 2 ^ nat e else 1 / 2 ^ nat (- e))"

lemma pow2_powi: "pow2 e = 2 powi e"
  by (simp add: pow2_def power_int_def inverse_eq_divide power_one_over)

lemma pow2_pos [simp]: "0 < pow2 e"
  by (simp add: pow2_def)

lemma pow2_add: "pow2 (a + b) = pow2 a * pow2 b"
  by (simp add: pow2_powi power_int_add)

lemma pow2_mono: "a \<le> b \<Longrightarrow> pow2 a \<le> pow2 b"
  by (simp add: pow2_powi power_int_increasing)

lemma pow2_ge_2: "0 < a \<Longrightarrow> 2 \<le> pow2 a"
proof -
  assume "0 < a"
  then have "pow2 1 \<le> pow2 a" by (intro pow2_mono) simp
  then show ?thesis by (simp add: pow2_def)
qed

lemma pow2_nz [simp]: "pow2 a \<noteq> 0"
  using pow2_pos [of a] by linarith

lemma pow2_not_neg [simp]: "\<not> pow2 a < 0"
  using pow2_pos [of a] by linarith

lemma pow2_less_iff: "pow2 a < pow2 b \<longleftrightarrow> a < b"
  using pow2_mono [of b a] pow2_add [of "a" "b - a"] pow2_pos [of a] pow2_ge_2 [of "b - a"]
  by (cases "a < b") (auto simp: not_less)

text \<open>The exponent of a positive rational: pow2 e is at most q, and q is below pow2 (e + 1).\<close>

definition binade :: "rat \<Rightarrow> int" where
  "binade q =
     (case quotient_of q of (a, b) \<Rightarrow>
        let n = bitlen a - bitlen b in if pow2 n \<le> q then n else n - 1)"

lemma binade_bounds:
  assumes "0 < q"
  shows "pow2 (binade q) \<le> q" "q < pow2 (binade q + 1)"
proof -
  obtain a b where ab: "quotient_of q = (a, b)" by fastforce
  have b: "0 < b" using quotient_of_denom_pos [OF ab] .
  have q: "q = of_int a / of_int b" using quotient_of_div [OF ab] .
  have a: "0 < a" using assms b by (simp add: q zero_less_divide_iff)
  let ?p = "\<lambda>x. pow2 (bitlen x)"
  have bl: "of_int x < ?p x" "?p x \<le> 2 * of_int x" if "0 < x" for x
  proof -
    have l: "0 < bitlen x" using bitlen_bounds [OF that] that by (cases "0 < bitlen x") auto
    have *: "2 ^ nat (bitlen x - 1) \<le> x" "x < 2 ^ nat (bitlen x)"
      using bitlen_bounds [OF that] by simp_all
    have "(of_int x :: rat) < of_int (2 ^ nat (bitlen x))" using *(2) by (simp only: of_int_less_iff)
    then show "of_int x < ?p x" using l by (simp add: pow2_def)
    have "(2 :: int) ^ nat (bitlen x) = 2 * 2 ^ nat (bitlen x - 1)"
      using l by (metis Suc_nat_eq_nat_zadd1 add.commute diff_add_cancel diff_ge_0_iff_ge int_one_le_iff_zero_less power_Suc)
    then have "(2 :: int) ^ nat (bitlen x) \<le> 2 * x" using *(1) by linarith
    then have "(of_int (2 ^ nat (bitlen x)) :: rat) \<le> of_int (2 * x)" by (simp only: of_int_le_iff)
    then show "?p x \<le> 2 * of_int x" using l by (simp add: pow2_def)
  qed
  let ?n = "bitlen a - bitlen b"
  have pn: "pow2 ?n = ?p a / ?p b"
    using pow2_add [of ?n "bitlen b"] by (simp add: field_simps)
  have up: "q < 2 * pow2 ?n"
  proof -
    have "of_int a * ?p b < ?p a * (2 * of_int b)"
      using bl [OF a] bl [OF b] a b by (intro mult_less_le_imp_less) auto
    then show ?thesis using b by (simp add: q pn field_simps)
  qed
  have low: "pow2 ?n \<le> 2 * q"
  proof -
    have "?p a * of_int b \<le> (2 * of_int a) * ?p b"
      using bl [OF a] bl [OF b] a b by (intro mult_mono) auto
    then show ?thesis using b by (simp add: q pn field_simps)
  qed
  have s: "pow2 (?n - 1) = pow2 ?n / 2" "pow2 (?n + 1) = 2 * pow2 ?n"
    using pow2_add [of "?n - 1" 1] pow2_add [of ?n 1] by (simp_all add: pow2_def)
  show "pow2 (binade q) \<le> q" "q < pow2 (binade q + 1)"
    using up low s by (auto simp: binade_def ab Let_def)
qed

lemma binade_unique: "pow2 e \<le> q \<Longrightarrow> q < pow2 (e + 1) \<Longrightarrow> binade q = e"
proof -
  assume *: "pow2 e \<le> q" "q < pow2 (e + 1)"
  then have "0 < q" using pow2_pos [of e] by linarith
  note b = binade_bounds [OF this]
  have "pow2 e < pow2 (binade q + 1)" "pow2 (binade q) < pow2 (e + 1)" using * b by linarith+
  then show ?thesis by (simp add: pow2_less_iff)
qed

lemma binade_mono: "0 < p \<Longrightarrow> p \<le> q \<Longrightarrow> binade p \<le> binade q"
proof -
  assume "0 < p" "p \<le> q"
  then have "pow2 (binade p) < pow2 (binade q + 1)"
    using binade_bounds [of p] binade_bounds [of q] by linarith
  then show ?thesis by (simp add: pow2_less_iff)
qed

section \<open>Rounding to a double\<close>

definition ulp :: "rat \<Rightarrow> rat" where
  "ulp q = pow2 (max (binade q - 52) (- 1074))"

definition fl_pos :: "rat \<Rightarrow> float" where
  "fl_pos q = of_int (round_even (q / ulp q)) * ulp q"

definition fl :: "rat \<Rightarrow> float" where
  "fl q = (if q = 0 then 0 else if 0 < q then fl_pos q else - fl_pos (- q))"

lemma ulp_pos [simp]: "0 < ulp q" "ulp q \<noteq> 0" "0 \<le> ulp q"
  by (simp_all add: ulp_def less_imp_le)

lemma fl_0 [simp, float_simps]: "fl 0 = 0"
  by (simp add: fl_def)

lemma fl_minus: "fl (- q) = - fl q"
  by (simp add: fl_def)

lemma fl_error: "\<bar>fl q - q\<bar> \<le> ulp \<bar>q\<bar> / 2"
proof -
  have pos: "\<bar>fl_pos p - p\<bar> \<le> ulp p / 2" for p
  proof -
    have "fl_pos p - p = (of_int (round_even (p / ulp p)) - p / ulp p) * ulp p"
      using ulp_pos [of p] by (simp add: fl_pos_def field_simps)
    then have "\<bar>fl_pos p - p\<bar> = \<bar>of_int (round_even (p / ulp p)) - p / ulp p\<bar> * ulp p"
      using ulp_pos [of p] by (simp add: abs_mult)
    moreover have "\<bar>of_int (round_even (p / ulp p)) - p / ulp p\<bar> \<le> 1 / 2"
      using round_even_bounds [of "p / ulp p"] by linarith
    ultimately show ?thesis using ulp_pos [of p] mult_right_mono by fastforce
  qed
  show ?thesis
  proof (cases "0 < q \<or> q = 0")
    case True
    then show ?thesis using pos [of q] by (auto simp: fl_def less_imp_le)
  next
    case False
    then have "\<bar>fl q - q\<bar> = \<bar>fl_pos (- q) - - q\<bar>" by (simp add: fl_def)
    also have "\<dots> \<le> ulp (- q) / 2" by (rule pos)
    finally show ?thesis using False by simp
  qed
qed

text \<open>Rationals a double represents exactly.\<close>

definition is_double :: "rat \<Rightarrow> bool" where
  "is_double q \<longleftrightarrow> (\<exists>m e. - 1074 \<le> e \<and> \<bar>m\<bar> \<le> 2 ^ 53 \<and> q = of_int m * pow2 e)"

lemma pow2_53: "pow2 53 = 2 ^ 53"
  by (simp add: pow2_def)

lemma fl_pos_exact:
  assumes "0 < q" "- 1074 \<le> e" "\<bar>m\<bar> \<le> 2 ^ 53" "q = of_int m * pow2 e"
  shows "fl_pos q = q"
proof (cases "\<bar>m\<bar> = 2 ^ 53")
  case True
  moreover have m: "0 < m" using assms(1,4) by (simp add: zero_less_mult_iff)
  ultimately have q: "q = pow2 (e + 53)" by (simp add: assms(4) pow2_add pow2_53)
  then have "binade q = e + 53" by (intro binade_unique) (simp_all add: pow2_less_iff)
  then have u: "ulp q = pow2 (e + 1)" using assms(2) by (simp add: ulp_def add.commute)
  have "q / ulp q = pow2 52"
    unfolding u using pow2_add [of 52 "e + 1"] by (simp add: q add.commute)
  then have "q / ulp q = of_int (2 ^ 52)" by (simp add: pow2_def)
  then have "fl_pos q = of_int (2 ^ 52) * ulp q" by (simp only: fl_pos_def round_even_int)
  with \<open>q / ulp q = of_int (2 ^ 52)\<close> show ?thesis using ulp_pos [of q] by (simp add: field_simps)
next
  case False
  have m: "0 < m" using assms(1,4) by (simp add: zero_less_mult_iff)
  with False assms(3) have "m < 2 ^ 53" by linarith
  then have "(of_int m :: rat) < of_int (2 ^ 53)" by (simp only: of_int_less_iff)
  then have "q < pow2 (e + 53)"
    using pow2_pos [of e] by (simp add: assms(4) pow2_add pow2_53 mult.commute)
  then have "pow2 (binade q) < pow2 (e + 53)" using binade_bounds [OF assms(1)] by linarith
  then have le: "max (binade q - 52) (- 1074) \<le> e" using assms(2) by (simp add: pow2_less_iff)
  let ?d = "e - max (binade q - 52) (- 1074)"
  have "pow2 e = pow2 ?d * ulp q" by (simp add: ulp_def flip: pow2_add)
  then have "q / ulp q = of_int m * pow2 ?d" using ulp_pos [of q] by (simp add: assms(4) field_simps)
  also have "\<dots> = of_int (m * 2 ^ nat ?d)" using le by (simp add: pow2_def)
  finally have *: "q / ulp q = of_int (m * 2 ^ nat ?d)" .
  then have "fl_pos q = of_int (m * 2 ^ nat ?d) * ulp q" by (simp only: fl_pos_def round_even_int)
  then show ?thesis using * ulp_pos [of q] by (simp add: field_simps)
qed

lemma fl_exact: "is_double q \<Longrightarrow> fl q = q"
proof -
  assume "is_double q"
  then obtain m e where *: "- 1074 \<le> e" "\<bar>m\<bar> \<le> 2 ^ 53" "q = of_int m * pow2 e"
    by (auto simp: is_double_def)
  then show ?thesis
    using fl_pos_exact [of q e m] fl_pos_exact [of "- q" e "- m"]
    by (cases "0 < q"; cases "q = 0") (simp_all add: fl_def)
qed

lemma fl_int [float_simps]: "\<bar>n\<bar> \<le> 2 ^ 53 \<Longrightarrow> fl (of_int n) = of_int n"
  by (rule fl_exact, unfold is_double_def, rule exI [of _ n], rule exI [of _ 0]) (simp add: pow2_def)

lemma fl_1 [simp, float_simps]: "fl 1 = 1"
  using fl_int [of 1] by simp

lemma fl_pow2: "- 1074 \<le> e \<Longrightarrow> fl (pow2 e) = pow2 e"
  by (rule fl_exact, unfold is_double_def, rule exI [of _ 1], rule exI [of _ e]) simp

lemma fl_pos_mono:
  assumes "0 < p" "p \<le> q"
  shows "fl_pos p \<le> fl_pos q"
proof (cases "ulp p = ulp q")
  case True
  have "p / ulp q \<le> q / ulp q" using assms(2) by (simp add: divide_right_mono less_imp_le)
  then have "(of_int (round_even (p / ulp q)) :: rat) \<le> of_int (round_even (q / ulp q))"
    using round_even_mono by (simp only: of_int_le_iff)
  then show ?thesis by (simp add: fl_pos_def True mult_right_mono less_imp_le)
next
  case False
  have q: "0 < q" using assms by linarith
  have less: "binade p < binade q" "- 1074 < binade q - 52"
    using False binade_mono [OF assms] by (auto simp: ulp_def max_def order.order_iff_strict split: if_splits)
  let ?t = "pow2 (binade q)"
  have pt: "p < ?t"
    using binade_bounds(2) [OF assms(1)] pow2_mono [of "binade p + 1" "binade q"] less by linarith
  have grid: "\<exists>k::int. ?t = of_int k * ulp x" if "ulp x = pow2 e" "e \<le> binade q" for x e
  proof -
    have "?t = pow2 (binade q - e) * ulp x" by (simp add: that(1) flip: pow2_add)
    moreover have "pow2 (binade q - e) = of_int (2 ^ nat (binade q - e))"
      using that(2) by (simp add: pow2_def)
    ultimately show ?thesis by metis
  qed
  obtain k where k: "?t = of_int k * ulp p"
    using grid [of p "max (binade p - 52) (- 1074)"] less by (auto simp: ulp_def)
  have "p / ulp p \<le> of_int k" using pt by (simp add: k divide_le_eq)
  then have "round_even (p / ulp p) \<le> k" using round_even_mono round_even_int by metis
  then have "fl_pos p \<le> ?t" by (simp add: fl_pos_def k)
  also obtain l where l: "?t = of_int l * ulp q"
    using grid [of q "max (binade q - 52) (- 1074)"] less by (auto simp: ulp_def)
  have "of_int l \<le> q / ulp q" using binade_bounds(1) [OF q] by (simp add: l le_divide_eq)
  then have "l \<le> round_even (q / ulp q)" using round_even_mono round_even_int by metis
  then have "?t \<le> fl_pos q" by (simp add: fl_pos_def l)
  finally show ?thesis .
qed

lemma fl_pos_nonneg: "0 < q \<Longrightarrow> 0 \<le> fl_pos q"
  using round_even_mono [of 0 "q / ulp q"] round_even_int [of 0]
  by (simp add: fl_pos_def mult_nonneg_nonneg)

lemma fl_mono: "p \<le> q \<Longrightarrow> fl p \<le> fl q"
  using fl_pos_mono [of p q] fl_pos_mono [of "- q" "- p"] fl_pos_nonneg [of q] fl_pos_nonneg [of "- p"]
  by (auto simp: fl_def)

lemma fl_nonneg: "0 \<le> q \<Longrightarrow> 0 \<le> fl q"
  using fl_mono [of 0 q] by simp

lemma fl_le_1: "q \<le> 1 \<Longrightarrow> fl q \<le> 1"
  using fl_mono [of q 1] by simp

lemma fl_pos_value: "pow2 (- 1074) \<le> q \<Longrightarrow> 0 < fl q"
  using fl_mono [of "pow2 (- 1074)" q] fl_pow2 [of "- 1074"] pow2_pos [of "- 1074"] by linarith

section \<open>Operations\<close>

definition fadd :: "float \<Rightarrow> float \<Rightarrow> float" where "fadd x y = fl (x + y)"
definition fsub :: "float \<Rightarrow> float \<Rightarrow> float" where "fsub x y = fl (x - y)"
definition fmul :: "float \<Rightarrow> float \<Rightarrow> float" where "fmul x y = fl (x * y)"
definition fdiv :: "float \<Rightarrow> float \<Rightarrow> float" where "fdiv x y = fl (x / y)"

text \<open>\<open>round(x, k)\<close>: the decimal with k digits nearest to the double, as a double.\<close>

definition round_digits :: "nat \<Rightarrow> float \<Rightarrow> float" where
  "round_digits k x = fl (of_int (round_even (x * 10 ^ k)) / 10 ^ k)"

lemma round_digits_0 [simp]: "round_digits k 0 = 0"
  using round_even_int [of 0] by (simp add: round_digits_def)

lemma round_digits_mono: "x \<le> y \<Longrightarrow> round_digits k x \<le> round_digits k y"
  by (simp add: round_digits_def fl_mono divide_right_mono round_even_mono)

lemma binade_one: "binade 1 = 0"
  by (rule binade_unique) (simp_all add: pow2_def)

lemma ulp_unit: "0 \<le> q \<Longrightarrow> q \<le> 1 \<Longrightarrow> ulp q \<le> pow2 (- 52) \<or> q = 0"
  using binade_mono [of q 1] binade_unique [of 0 1]
  by (cases "q = 0") (auto simp: ulp_def binade_one intro!: pow2_mono)

text \<open>Rounding twice changes nothing, for scores between 0 and 1 and up to twelve digits.\<close>

lemma round_digits_idem:
  assumes "0 \<le> x" "x \<le> 1" "k \<le> 12"
  shows "round_digits k (round_digits k x) = round_digits k x"
proof -
  let ?t = "10 ^ k :: rat"
  let ?n = "round_even (x * ?t)"
  let ?y = "of_int ?n / ?t :: rat"
  have t: "1 \<le> ?t" "?t \<le> 10 ^ 12"
    using assms(3) power_increasing [of k 12 "10 :: rat"] by simp_all
  have "x * ?t \<le> of_int (10 ^ k)" using assms(2) t by (simp add: mult_le_cancel_right1)
  then have n1: "?n \<le> 10 ^ k" using round_even_mono round_even_int by metis
  have n0: "0 \<le> ?n" using round_even_mono [of 0 "x * ?t"] round_even_int [of 0] assms(1) t by simp
  have y0: "0 \<le> ?y" using n0 t by simp
  have "(of_int ?n :: rat) \<le> of_int (10 ^ k)" using n1 by (simp only: of_int_le_iff)
  then have y1: "?y \<le> 1" using t by (simp add: divide_le_eq)
  have err: "\<bar>fl ?y - ?y\<bar> \<le> pow2 (- 52) / 2"
  proof (cases "?y = 0")
    case True
    then show ?thesis by (simp add: less_imp_le)
  next
    case False
    then have "ulp \<bar>?y\<bar> \<le> pow2 (- 52)" using ulp_unit [OF y0 y1] abs_of_nonneg [OF y0] by metis
    then show ?thesis using fl_error [of ?y] by linarith
  qed
  have "\<bar>fl ?y * ?t - of_int ?n\<bar> = \<bar>fl ?y - ?y\<bar> * ?t"
  proof -
    have "fl ?y * ?t - of_int ?n = (fl ?y - ?y) * ?t" by (simp add: left_diff_distrib)
    then show ?thesis by (simp add: abs_mult)
  qed
  also have "\<dots> \<le> pow2 (- 52) / 2 * 10 ^ 12"
    using err t by (intro mult_mono) (auto simp: less_imp_le)
  also have "\<dots> < 1 / 2" by (simp add: pow2_def)
  finally have "round_even (fl ?y * ?t) = ?n" by (rule round_even_near)
  then show ?thesis by (simp add: round_digits_def)
qed

lemma round_digits_unit:
  assumes "0 \<le> x" "x \<le> 1"
  shows "0 \<le> round_digits k x \<and> round_digits k x \<le> 1"
proof -
  have "round_digits k 1 = 1"
    using round_even_int [of "10 ^ k"] by (simp add: round_digits_def)
  then show ?thesis
    using round_digits_mono [of 0 x k] round_digits_mono [of x 1 k] assms by simp
qed

end
