(* ===== verification/Search.thy ===== *)
theory Search
  imports Prelude
begin

text \<open>
  The two traversals of the asset graph over an arbitrary node type: breadth-first search for a
  fewest-hop path and flooding for connected components, with the correctness of both.
\<close>

section \<open>The loops\<close>

text \<open>One round over the neighbours of a node: unseen ones are marked and queued.\<close>

fun queue_new :: "'a list \<Rightarrow> 'a list \<Rightarrow> 'a list \<Rightarrow> 'a list \<times> 'a list" where
  "queue_new [] seen q = (seen, q)"
| "queue_new (nb # nbs) seen q =
     (if nb \<in> set seen then queue_new nbs seen q else queue_new nbs (nb # seen) (q @ [nb]))"

text \<open>The same round of the path search, which records predecessors and stops at the target.\<close>

fun scan_target ::
  "'a \<Rightarrow> 'a \<Rightarrow> 'a list \<Rightarrow> 'a list \<Rightarrow> ('a, 'a) dict \<Rightarrow> 'a list \<Rightarrow> bool \<times> 'a list \<times> ('a, 'a) dict \<times> 'a list"
where
  "scan_target t cur [] seen prev q = (False, seen, prev, q)"
| "scan_target t cur (nb # nbs) seen prev q =
     (if nb \<in> set seen then scan_target t cur nbs seen prev q
      else if nb = t then (True, nb # seen, dict_set nb cur prev, q)
      else scan_target t cur nbs (nb # seen) (dict_set nb cur prev) (q @ [nb]))"

text \<open>None: the loop does not end. Some None: the queue ran empty.\<close>

partial_function (option) bfs_loop ::
  "('a \<Rightarrow> 'a list) \<Rightarrow> 'a \<Rightarrow> 'a list \<Rightarrow> ('a, 'a) dict \<Rightarrow> 'a list \<Rightarrow> ('a, 'a) dict option option"
where
  "bfs_loop nbrs t seen prev q =
     (case q of
        [] \<Rightarrow> Some None
      | cur # rest \<Rightarrow>
          (case scan_target t cur (nbrs cur) seen prev rest of
             (found, seen', prev', q') \<Rightarrow>
               if found then Some (Some prev') else bfs_loop nbrs t seen' prev' q'))"

text \<open>\<open>while path[-1] != source: path.append(prev[path[-1]])\<close>; Some None is a missing key.\<close>

partial_function (option) walk_back ::
  "('a, 'a) dict \<Rightarrow> 'a \<Rightarrow> 'a list \<Rightarrow> 'a list option option"
where
  "walk_back prev s path =
     (if last path = s then Some (Some path)
      else (case dict_get prev (last path) of
              None \<Rightarrow> Some None
            | Some p \<Rightarrow> walk_back prev s (path @ [p])))"

datatype 'a path_result = Path "'a list" | No_path | Broken_chain

definition search_path :: "('a \<Rightarrow> 'a list) \<Rightarrow> 'a \<Rightarrow> 'a \<Rightarrow> 'a path_result option" where
  "search_path nbrs s t =
     (if s = t then Some (Path [s])
      else (case bfs_loop nbrs t [s] [] [s] of
              None \<Rightarrow> None
            | Some None \<Rightarrow> Some No_path
            | Some (Some prev) \<Rightarrow>
                (case walk_back prev s [t] of
                   None \<Rightarrow> None
                 | Some None \<Rightarrow> Some Broken_chain
                 | Some (Some path) \<Rightarrow> Some (Path (rev path)))))"

partial_function (option) flood ::
  "('a \<Rightarrow> 'a list) \<Rightarrow> 'a list \<Rightarrow> 'a list \<Rightarrow> 'a list \<Rightarrow> ('a list \<times> 'a list) option"
where
  "flood nbrs seen grp q =
     (case q of
        [] \<Rightarrow> Some (seen, grp)
      | cur # rest \<Rightarrow>
          (case queue_new (nbrs cur) seen rest of
             (seen', q') \<Rightarrow> flood nbrs seen' (grp @ [cur]) q'))"

fun flood_all :: "('a \<Rightarrow> 'a list) \<Rightarrow> 'a list \<Rightarrow> 'a list \<Rightarrow> 'a list list option" where
  "flood_all nbrs seen [] = Some []"
| "flood_all nbrs seen (start # rest) =
     (if start \<in> set seen then flood_all nbrs seen rest
      else (case flood nbrs (start # seen) [] [start] of
              None \<Rightarrow> None
            | Some (seen', grp) \<Rightarrow> map_option (\<lambda>cs. grp # cs) (flood_all nbrs seen' rest)))"

section \<open>One round\<close>

lemma queue_new_spec:
  assumes "distinct q" "set q \<subseteq> set seen"
  shows "\<exists>new seen'. queue_new nbs seen q = (seen', q @ new) \<and> set seen' = set seen \<union> set nbs \<and>
     set new = set nbs - set seen \<and> distinct (q @ new)"
  using assms
proof (induction nbs arbitrary: seen q)
  case Nil
  then show ?case by auto
next
  case (Cons nb nbs)
  show ?case
  proof (cases "nb \<in> set seen")
    case True
    then show ?thesis using Cons.IH [OF Cons.prems] by auto
  next
    case False
    then have "distinct (q @ [nb])" "set (q @ [nb]) \<subseteq> set (nb # seen)" using Cons.prems by auto
    from Cons.IH [OF this] obtain new seen' where
      "queue_new nbs (nb # seen) (q @ [nb]) = (seen', (q @ [nb]) @ new)"
      "set seen' = set (nb # seen) \<union> set nbs" "set new = set nbs - set (nb # seen)"
      "distinct ((q @ [nb]) @ new)" by blast
    then show ?thesis using False by (intro exI [of _ "nb # new"] exI [of _ seen']) auto
  qed
qed

text \<open>What a round of the path search leaves when it does not meet the target.\<close>

lemma scan_target_False:
  assumes "scan_target t cur nbs seen prev q = (False, seen', prev', q')" and "t \<notin> set seen"
  shows "\<exists>new. q' = q @ new \<and> set seen' = set seen \<union> set nbs \<and> set new = set nbs - set seen \<and>
     length new = card (set new) \<and> t \<notin> set seen' \<and>
     map_of prev' = (\<lambda>x. if x \<in> set new then Some cur else map_of prev x)"
  using assms
proof (induction nbs arbitrary: seen prev q)
  case Nil
  then show ?case by auto
next
  case (Cons nb nbs)
  show ?case
  proof (cases "nb \<in> set seen")
    case True
    then show ?thesis using Cons.IH [of seen prev q] Cons.prems by auto
  next
    case False
    then have nt: "nb \<noteq> t" using Cons.prems by (auto split: if_splits)
    then obtain new where new: "q' = (q @ [nb]) @ new" "set seen' = set (nb # seen) \<union> set nbs"
        "set new = set nbs - set (nb # seen)" "length new = card (set new)" "t \<notin> set seen'"
        "map_of prev' = (\<lambda>x. if x \<in> set new then Some cur else map_of (dict_set nb cur prev) x)"
      using Cons.IH [of "nb # seen" "dict_set nb cur prev" "q @ [nb]"] Cons.prems False by auto
    then show ?thesis
      using False by (intro exI [of _ "nb # new"]) (auto simp: fun_eq_iff)
  qed
qed

lemma scan_target_True:
  assumes "scan_target t cur nbs seen prev q = (True, seen', prev', q')"
  shows "t \<in> set nbs \<and> t \<notin> set seen \<and> map_of prev' t = Some cur \<and>
     (\<forall>x\<in>set seen. map_of prev' x = map_of prev x)"
  using assms
proof (induction nbs arbitrary: seen prev q)
  case Nil
  then show ?case by simp
next
  case (Cons nb nbs)
  consider "nb \<in> set seen" | "nb \<notin> set seen" "nb = t" | "nb \<notin> set seen" "nb \<noteq> t" by blast
  then show ?case
  proof cases
    case 3
    then show ?thesis
      using Cons.IH [of "nb # seen" "dict_set nb cur prev" "q @ [nb]"] Cons.prems by auto
  qed (use Cons in auto)
qed

section \<open>Reachability in a finite graph\<close>

definition edge_rel :: "('a \<Rightarrow> 'a list) \<Rightarrow> ('a \<times> 'a) set" where
  "edge_rel nbrs = {(x, y). y \<in> set (nbrs x)}"

text \<open>A walk: every node is followed by one of its neighbours.\<close>

fun is_walk :: "('a \<Rightarrow> 'a list) \<Rightarrow> 'a list \<Rightarrow> bool" where
  "is_walk nbrs [] = False"
| "is_walk nbrs [x] = True"
| "is_walk nbrs (x # y # xs) = (y \<in> set (nbrs x) \<and> is_walk nbrs (y # xs))"

text \<open>The nodes within n hops of s.\<close>

fun ball :: "('a \<Rightarrow> 'a list) \<Rightarrow> 'a \<Rightarrow> nat \<Rightarrow> 'a set" where
  "ball nbrs s 0 = {s}"
| "ball nbrs s (Suc n) = ball nbrs s n \<union> (\<Union>x\<in>ball nbrs s n. set (nbrs x))"

lemma ball_mono: "m \<le> n \<Longrightarrow> ball nbrs s m \<subseteq> ball nbrs s n"
  by (induction rule: dec_induct) auto

lemma is_walk_snoc:
  "is_walk nbrs xs \<Longrightarrow> y \<in> set (nbrs (last xs)) \<Longrightarrow> is_walk nbrs (xs @ [y])"
proof (induction nbrs xs rule: is_walk.induct)
  case (3 nbrs x z xs)
  then show ?case by auto
qed auto

lemma walk_ball: "is_walk nbrs xs \<Longrightarrow> last xs \<in> ball nbrs (hd xs) (length xs - 1)"
proof (induction xs rule: rev_induct)
  case Nil
  then show ?case by simp
next
  case (snoc y xs)
  show ?case
  proof (cases "xs = []")
    case True
    then show ?thesis by simp
  next
    case False
    have w: "is_walk nbrs xs \<and> y \<in> set (nbrs (last xs))"
      using snoc.prems False by (induction nbrs xs rule: is_walk.induct) (auto split: if_splits)
    then have "last xs \<in> ball nbrs (hd xs) (length xs - 1)" using snoc.IH by simp
    then have "y \<in> ball nbrs (hd xs) (Suc (length xs - 1))" using w by auto
    then show ?thesis using False by (simp add: hd_append)
  qed
qed

lemma ball_closed: "(\<Union>x\<in>ball nbrs s n. set (nbrs x)) \<subseteq> ball nbrs s n \<Longrightarrow> ball nbrs s m \<subseteq> ball nbrs s n"
proof (induction m)
  case 0
  then show ?case using ball_mono [of 0 n nbrs s] by simp
next
  case (Suc m)
  then show ?case by auto
qed

text \<open>The interface of both traversals: neighbours stay within a finite set of nodes.\<close>

locale finite_graph =
  fixes nbrs :: "'a \<Rightarrow> 'a list" and V :: "'a set"
  assumes finite_V: "finite V"
    and closed_V: "x \<in> V \<Longrightarrow> set (nbrs x) \<subseteq> V"
begin

lemma unseen_less:
  assumes "set seen \<subseteq> V" "set new = set nbs - set seen" "length new = card (set new)"
    and "set seen' = set seen \<union> set nbs" "set nbs \<subseteq> V"
  shows "2 * card (V - set seen') + length new \<le> 2 * card (V - set seen)"
proof -
  have "V - set seen = (V - set seen') \<union> set new" "(V - set seen') \<inter> set new = {}"
    using assms by auto
  then have "card (V - set seen) = card (V - set seen') + card (set new)"
    using finite_V by (metis card_Un_disjoint finite_Diff List.finite_set)
  then show ?thesis using assms(3) by simp
qed

text \<open>The predecessor chain of a node found at distance j.\<close>

definition chained :: "'a \<Rightarrow> ('a, 'a) dict \<Rightarrow> 'a \<Rightarrow> bool" where
  "chained s prev x \<longleftrightarrow> x = s \<or>
     (\<exists>y j. map_of prev x = Some y \<and> x \<in> set (nbrs y) \<and> y \<in> ball nbrs s j \<and> x \<notin> ball nbrs s j)"

lemma walk_back_spec:
  assumes "\<forall>y\<in>ball nbrs s j. y \<noteq> s \<longrightarrow> chained s prev y" and "x \<in> ball nbrs s j"
    and "path \<noteq> []" and "last path = x"
  shows "\<exists>rest. walk_back prev s path = Some (Some (path @ rest)) \<and> length rest \<le> j \<and>
     is_walk nbrs (rev (x # rest)) \<and> last (x # rest) = s"
  using assms
proof (induction j arbitrary: x path rule: less_induct)
  case (less j)
  show ?case
  proof (cases "x = s")
    case True
    then show ?thesis
      using less.prems by (intro exI [of _ "[]"]) (simp add: walk_back.simps)
  next
    case False
    then obtain y i where y: "map_of prev x = Some y" "x \<in> set (nbrs y)" "y \<in> ball nbrs s i" "x \<notin> ball nbrs s i"
      using less.prems by (auto simp: chained_def)
    have ij: "i < j"
      using ball_mono [of j i nbrs s] less.prems(2) y(4) by (meson in_mono not_less)
    then have "\<forall>z\<in>ball nbrs s i. z \<noteq> s \<longrightarrow> chained s prev z"
      using less.prems(1) ball_mono [of i j nbrs s] by auto
    from less.IH [OF ij this y(3), of "path @ [y]"] obtain rest where rest:
      "walk_back prev s (path @ [y]) = Some (Some ((path @ [y]) @ rest))" "length rest \<le> i"
      "is_walk nbrs (rev (y # rest))" "last (y # rest) = s" by auto
    have "walk_back prev s path = walk_back prev s (path @ [y])"
      using False less.prems(4) y(1) by (subst walk_back.simps) simp
    then show ?thesis
      using rest ij y(2) is_walk_snoc [of nbrs "rev (y # rest)" x]
      by (intro exI [of _ "y # rest"]) auto
  qed
qed

text \<open>
  The state of the search at level k: A is what remains of the level, B what was found of the next.
\<close>

definition level_inv :: "'a \<Rightarrow> 'a \<Rightarrow> nat \<Rightarrow> 'a list \<Rightarrow> 'a list \<Rightarrow> 'a list \<Rightarrow> ('a, 'a) dict \<Rightarrow> bool" where
  "level_inv s t k A B seen prev \<longleftrightarrow>
     set seen \<subseteq> V \<and> t \<notin> set seen \<and> set seen = ball nbrs s k \<union> set B \<and> set A \<subseteq> ball nbrs s k \<and>
     set B \<subseteq> ball nbrs s (Suc k) \<and> set B \<inter> ball nbrs s k = {} \<and>
     (\<forall>x\<in>ball nbrs s k - set A. set (nbrs x) \<subseteq> set seen) \<and> (\<forall>x\<in>set seen. chained s prev x)"

lemma level_inv_advance:
  assumes "level_inv s t k [] B seen prev"
  shows "level_inv s t (Suc k) B [] seen prev"
proof -
  have "ball nbrs s (Suc k) = set seen"
    using assms unfolding level_inv_def by (auto; blast)
  then show ?thesis using assms by (auto simp: level_inv_def)
qed

lemma level_inv_step:
  assumes inv: "level_inv s t k (cur # A) B seen prev"
    and scan: "scan_target t cur (nbrs cur) seen prev (A @ B) = (False, seen', prev', q')"
  shows "\<exists>new. q' = A @ B @ new \<and> level_inv s t k A (B @ new) seen' prev' \<and>
     2 * card (V - set seen') + length new \<le> 2 * card (V - set seen)"
proof -
  have cur: "cur \<in> ball nbrs s k" "cur \<in> V" "t \<notin> set seen" "set seen \<subseteq> V"
    using inv by (auto simp: level_inv_def)
  obtain new where new: "q' = (A @ B) @ new" "set seen' = set seen \<union> set (nbrs cur)"
      "set new = set (nbrs cur) - set seen" "length new = card (set new)" "t \<notin> set seen'"
      "map_of prev' = (\<lambda>x. if x \<in> set new then Some cur else map_of prev x)"
    using scan_target_False [OF scan cur(3)] by auto
  have ch: "chained s prev' x" if "x \<in> set seen'" for x
  proof (cases "x \<in> set new")
    case True
    then have "map_of prev' x = Some cur" "x \<in> set (nbrs cur)" "x \<notin> ball nbrs s k"
      using new inv by (auto simp: level_inv_def)
    then show ?thesis using cur(1) by (auto simp: chained_def)
  next
    case False
    then have "x \<in> set seen" using that new by auto
    then show ?thesis using inv False new(6) by (auto simp: level_inv_def chained_def)
  qed
  have processed: "set (nbrs x) \<subseteq> set seen'" if "x \<in> ball nbrs s k - set A" for x
  proof (cases "x = cur")
    case False
    moreover have "\<forall>x\<in>ball nbrs s k - set (cur # A). set (nbrs x) \<subseteq> set seen"
      using inv unfolding level_inv_def by (elim conjE)
    ultimately have "set (nbrs x) \<subseteq> set seen" using that by simp
    then show ?thesis using new(2) by blast
  qed (simp add: new(2))
  have "level_inv s t k A (B @ new) seen' prev'"
    unfolding level_inv_def
  proof (intro conjI)
    show "set seen' \<subseteq> V" using new(2) cur closed_V [OF cur(2)] by auto
    show "set seen' = ball nbrs s k \<union> set (B @ new)" using inv new(2,3) by (auto simp: level_inv_def)
    show "set (B @ new) \<subseteq> ball nbrs s (Suc k)" using inv new(3) cur(1) by (auto simp: level_inv_def)
    show "set (B @ new) \<inter> ball nbrs s k = {}" using inv new(3) by (auto simp: level_inv_def)
  qed (use inv new(5) ch processed in \<open>auto simp: level_inv_def\<close>)
  moreover have "2 * card (V - set seen') + length new \<le> 2 * card (V - set seen)"
    using unseen_less [OF cur(4) new(3,4,2)] closed_V [OF cur(2)] by simp
  ultimately show ?thesis using new(1) by auto
qed

lemma level_inv_end:
  assumes "level_inv s t k [] [] seen prev"
  shows "t \<notin> ball nbrs s m"
proof -
  have e: "set seen = ball nbrs s k" using assms by (simp add: level_inv_def)
  moreover have "t \<notin> set seen" using assms unfolding level_inv_def by (elim conjE)
  moreover have "set (nbrs x) \<subseteq> set seen" if "x \<in> set seen" for x
    using assms that e by (auto simp: level_inv_def)
  ultimately have "(\<Union>x\<in>ball nbrs s k. set (nbrs x)) \<subseteq> ball nbrs s k" "t \<notin> ball nbrs s k" by auto
  then show ?thesis using ball_closed [of nbrs s k m] by auto
qed

text \<open>The search ends; it finds the target exactly when there is a path, at its true distance.\<close>

definition bfs_result :: "'a \<Rightarrow> 'a \<Rightarrow> ('a, 'a) dict option \<Rightarrow> bool" where
  "bfs_result s t r \<longleftrightarrow>
     (case r of
        None \<Rightarrow> \<forall>n. t \<notin> ball nbrs s n
      | Some prev \<Rightarrow> \<exists>k. t \<in> ball nbrs s (Suc k) \<and> t \<notin> ball nbrs s k \<and>
          (\<exists>y\<in>ball nbrs s k. map_of prev t = Some y \<and> t \<in> set (nbrs y)) \<and>
          (\<forall>x\<in>ball nbrs s k. chained s prev x))"

lemma bfs_loop_spec:
  assumes "level_inv s t k A B seen prev"
  shows "\<exists>r. bfs_loop nbrs t seen prev (A @ B) = Some r \<and> bfs_result s t r"
  using assms
proof (induction "2 * card (V - set seen) + length (A @ B)" arbitrary: k A B seen prev rule: less_induct)
  case less
  consider (empty) "A = []" "B = []" | (pop) cur A' B' k' where "A @ B = cur # A' @ B'"
      "level_inv s t k' (cur # A') B' seen prev"
  proof (cases A)
    case Nil
    show ?thesis
    proof (cases B)
      case (Cons cur B')
      have "level_inv s t (Suc k) (cur # B') [] seen prev"
        using level_inv_advance [of s t k B seen prev] less.prems unfolding Nil Cons by blast
      then show ?thesis using that(2) [of cur B' "[]" "Suc k"] Nil Cons by simp
    qed (use Nil that(1) in simp)
  next
    case (Cons cur A')
    then show ?thesis using less.prems that by simp
  qed
  then show ?case
  proof cases
    case empty
    have "\<forall>m. t \<notin> ball nbrs s m"
      using level_inv_end [of s t k seen prev] less.prems unfolding empty by blast
    then have "bfs_result s t None" by (simp add: bfs_result_def)
    moreover have "bfs_loop nbrs t seen prev (A @ B) = Some None"
      by (subst bfs_loop.simps) (simp add: empty)
    ultimately show ?thesis by blast
  next
    case pop
    obtain found seen' prev' q' where
      scan: "scan_target t cur (nbrs cur) seen prev (A' @ B') = (found, seen', prev', q')"
      by (metis prod_cases4)
    show ?thesis
    proof (cases found)
      case True
      then have found: "scan_target t cur (nbrs cur) seen prev (A' @ B') = (True, seen', prev', q')"
        using scan by simp
      have l: "bfs_loop nbrs t seen prev (A @ B) = Some (Some prev')"
        by (subst bfs_loop.simps) (simp add: pop(1) found)
      note f = scan_target_True [OF found]
      have b: "cur \<in> ball nbrs s k'" "ball nbrs s k' \<subseteq> set seen" "\<forall>x\<in>set seen. chained s prev x"
        using pop(2) by (auto simp: level_inv_def)
      have "\<forall>x\<in>ball nbrs s k'. chained s prev' x"
      proof
        fix x assume "x \<in> ball nbrs s k'"
        then have "chained s prev x" "map_of prev' x = map_of prev x" using b f by blast+
        then show "chained s prev' x" by (simp add: chained_def)
      qed
      moreover have "t \<in> ball nbrs s (Suc k')" "t \<notin> ball nbrs s k'" using b f by auto
      ultimately have "bfs_result s t (Some prev')"
        using b(1) f unfolding bfs_result_def option.case by blast
      then show ?thesis using l by simp
    next
      case False
      then obtain new where new: "q' = A' @ B' @ new" "level_inv s t k' A' (B' @ new) seen' prev'"
          "2 * card (V - set seen') + length new \<le> 2 * card (V - set seen)"
        using level_inv_step [OF pop(2)] scan by auto
      have eq: "bfs_loop nbrs t seen prev (A @ B) = bfs_loop nbrs t seen' prev' (A' @ B' @ new)"
        using scan False by (subst bfs_loop.simps) (simp add: pop(1) new(1))
      have "length (A @ B) = Suc (length (A' @ B'))" by (simp only: pop(1) list.size(4))
      then have "2 * card (V - set seen') + length (A' @ B' @ new) < 2 * card (V - set seen) + length (A @ B)"
        using new(3) by (simp only: length_append)
      from less.hyps [OF this new(2)] show ?thesis by (simp only: eq)
    qed
  qed
qed

lemma search_path_spec:
  assumes "s \<in> V"
  shows "(\<exists>path. search_path nbrs s t = Some (Path path) \<and> is_walk nbrs path \<and> hd path = s \<and> last path = t \<and>
       (\<forall>ys. is_walk nbrs ys \<and> hd ys = s \<and> last ys = t \<longrightarrow> length path \<le> length ys)) \<or>
     (search_path nbrs s t = Some No_path \<and> (\<nexists>ys. is_walk nbrs ys \<and> hd ys = s \<and> last ys = t))"
proof (cases "s = t")
  case True
  have "1 \<le> length ys" if "is_walk nbrs ys" for ys
    using that by (cases ys) auto
  then show ?thesis using True by (intro disjI1 exI [of _ "[s]"]) (auto simp: search_path_def)
next
  case False
  have "level_inv s t 0 [s] [] [s] []"
    using assms False by (auto simp: level_inv_def chained_def)
  then obtain r where r: "bfs_loop nbrs t [s] [] [s] = Some r" "bfs_result s t r"
    using bfs_loop_spec [of s t 0 "[s]" "[]"] by auto
  show ?thesis
  proof (cases r)
    case None
    then have "t \<notin> ball nbrs s n" for n using r by (auto simp: bfs_result_def)
    then show ?thesis
      using r None False walk_ball [of nbrs] by (auto simp: search_path_def)
  next
    case (Some prev)
    then obtain k y where k: "t \<in> ball nbrs s (Suc k)" "t \<notin> ball nbrs s k" "y \<in> ball nbrs s k"
        "map_of prev t = Some y" "t \<in> set (nbrs y)" "\<forall>x\<in>ball nbrs s k. chained s prev x"
      using r by (auto simp: bfs_result_def)
    obtain rest where rest: "walk_back prev s [t, y] = Some (Some ([t, y] @ rest))" "length rest \<le> k"
        "is_walk nbrs (rev (y # rest))" "last (y # rest) = s"
      using walk_back_spec [of s k prev y "[t, y]"] k by auto
    have "walk_back prev s [t] = walk_back prev s [t, y]"
      using False k(4) by (subst walk_back.simps) simp
    then have sp: "search_path nbrs s t = Some (Path (rev (t # y # rest)))"
      using r Some False rest by (simp add: search_path_def)
    have "Suc (Suc k) \<le> length ys" if ys: "is_walk nbrs ys" "hd ys = s" "last ys = t" for ys
    proof (rule ccontr)
      assume "\<not> ?thesis"
      then have "length ys - 1 \<le> k" by simp
      then have "t \<in> ball nbrs s k"
        using walk_ball [OF ys(1)] ball_mono [of "length ys - 1" k nbrs s] ys by auto
      then show False using k(2) by simp
    qed
    moreover have "is_walk nbrs (rev (t # y # rest))"
      using is_walk_snoc [OF rest(3)] k(5) by simp
    moreover have "hd (rev (t # y # rest)) = s"
      using rest(4) by (auto simp: hd_append hd_rev split: if_splits)
    ultimately show ?thesis
      using sp rest(2) by (intro disjI1 exI [of _ "rev (t # y # rest)"]) fastforce
  qed
qed

text \<open>Flooding from a queue reaches everything reachable, each node once.\<close>

abbreviation reach :: "('a \<times> 'a) set" where
  "reach \<equiv> (edge_rel nbrs)\<^sup>*"

lemma flood_spec:
  assumes "set seen \<subseteq> V" "set q \<subseteq> set seen" "distinct (grp @ q)"
    and "set grp \<subseteq> set seen" "\<forall>x\<in>set seen - set q. set (nbrs x) \<subseteq> set seen"
  shows "\<exists>seen' grp'. flood nbrs seen grp q = Some (seen', grp') \<and> set seen \<subseteq> set seen' \<and>
     set seen' \<subseteq> V \<and> set grp' = set grp \<union> set q \<union> (set seen' - set seen) \<and> distinct grp' \<and>
     (\<forall>x\<in>set seen'. set (nbrs x) \<subseteq> set seen') \<and> set seen' \<subseteq> set seen \<union> reach `` set q"
  using assms
proof (induction "2 * card (V - set seen) + length q" arbitrary: seen grp q rule: less_induct)
  case less
  show ?case
  proof (cases q)
    case Nil
    have "flood nbrs seen grp q = Some (seen, grp)" by (subst flood.simps) (simp add: Nil)
    then show ?thesis using less.prems Nil by auto
  next
    case (Cons cur rest)
    have cur: "cur \<in> V" using less.prems Cons by auto
    have r: "distinct rest" "set rest \<subseteq> set seen" using less.prems Cons by auto
    from queue_new_spec [OF r, of "nbrs cur"] obtain new seen1 where new:
      "queue_new (nbrs cur) seen rest = (seen1, rest @ new)" "set seen1 = set seen \<union> set (nbrs cur)"
      "set new = set (nbrs cur) - set seen" "distinct (rest @ new)" by blast
    have fl: "flood nbrs seen grp q = flood nbrs seen1 (grp @ [cur]) (rest @ new)"
      using new(1) by (subst flood.simps) (simp add: Cons)
    have len: "length new = card (set new)" using new(4) by (simp add: distinct_card)
    have "2 * card (V - set seen1) + length new \<le> 2 * card (V - set seen)"
      using unseen_less [OF less.prems(1) new(3) len new(2)] closed_V [OF cur] by simp
    then have less_m: "2 * card (V - set seen1) + length (rest @ new) < 2 * card (V - set seen) + length q"
      by (simp add: Cons)
    have p1: "set seen1 \<subseteq> V" using less.prems(1) new(2) closed_V [OF cur] by simp
    have p2: "set (rest @ new) \<subseteq> set seen1" using r new(2,3) by auto
    have p3: "distinct ((grp @ [cur]) @ rest @ new)"
      using less.prems(2-4) new(3,4) by (auto simp: Cons)
    have p4: "set (grp @ [cur]) \<subseteq> set seen1" using less.prems(2,4) new(2) by (auto simp: Cons)
    have p5: "\<forall>x\<in>set seen1 - set (rest @ new). set (nbrs x) \<subseteq> set seen1"
    proof
      fix x assume x: "x \<in> set seen1 - set (rest @ new)"
      then have "x = cur \<or> x \<in> set seen - set q" using new(2,3) by (auto simp: Cons)
      then show "set (nbrs x) \<subseteq> set seen1" using less.prems(5) new(2) by auto
    qed
    from less.hyps [OF less_m p1 p2 p3 p4 p5] obtain seen' grp' where res:
      "flood nbrs seen1 (grp @ [cur]) (rest @ new) = Some (seen', grp')" "set seen1 \<subseteq> set seen'"
      "set seen' \<subseteq> V" "set grp' = set (grp @ [cur]) \<union> set (rest @ new) \<union> (set seen' - set seen1)"
      "distinct grp'" "\<forall>x\<in>set seen'. set (nbrs x) \<subseteq> set seen'"
      "set seen' \<subseteq> set seen1 \<union> reach `` set (rest @ new)" by blast
    have "set grp' = set grp \<union> set q \<union> (set seen' - set seen)"
      using res(2,4) new(2,3) Cons by auto
    moreover have step: "(cur, y) \<in> reach" if "y \<in> set (nbrs cur)" for y
      using that by (intro r_into_rtrancl) (simp add: edge_rel_def)
    have "set seen1 \<subseteq> set seen \<union> reach `` set q"
      using new(2) step Cons by auto
    moreover have "reach `` set (rest @ new) \<subseteq> reach `` set q"
      using step new(3) by (auto simp: Cons intro: rtrancl_trans)
    ultimately have "set seen' \<subseteq> set seen \<union> reach `` set q" using res(7) by (meson Un_least Un_upper1 Un_upper2 order_trans)
    moreover have "set seen \<subseteq> set seen'" using res(2) new(2) by simp
    ultimately show ?thesis
      using res(1,3,5,6) fl \<open>set grp' = set grp \<union> set q \<union> (set seen' - set seen)\<close> by simp
  qed
qed

lemma closed_reach:
  assumes "\<forall>x\<in>S. set (nbrs x) \<subseteq> S"
  shows "reach `` S \<subseteq> S"
proof -
  have "y \<in> S" if "(x, y) \<in> reach" "x \<in> S" for x y
    using that by (induction rule: rtrancl_induct) (use assms in \<open>auto simp: edge_rel_def\<close>)
  then show ?thesis by auto
qed

text \<open>On an undirected graph the groups are the classes of mutual reachability.\<close>

lemma flood_all_spec:
  assumes sym: "\<And>x y. y \<in> set (nbrs x) \<Longrightarrow> x \<in> set (nbrs y)"
    and "set starts \<subseteq> V" "set seen \<subseteq> V" "\<forall>x\<in>set seen. set (nbrs x) \<subseteq> set seen"
  shows "\<exists>groups. flood_all nbrs seen starts = Some groups \<and>
     (\<forall>g\<in>set groups. distinct g \<and> (\<exists>x\<in>set starts - set seen. set g = reach `` {x})) \<and>
     (\<Union>g\<in>set groups. set g) \<inter> set seen = {} \<and> set starts \<subseteq> set seen \<union> (\<Union>g\<in>set groups. set g) \<and>
     distinct (map set groups)"
  using assms(2-4)
proof (induction starts arbitrary: seen)
  case Nil
  then show ?case by simp
next
  case (Cons start rest)
  show ?case
  proof (cases "start \<in> set seen")
    case True
    then show ?thesis using Cons.IH [of seen] Cons.prems by auto
  next
    case False
    have p5: "\<forall>x\<in>set (start # seen) - set [start]. set (nbrs x) \<subseteq> set (start # seen)"
      using Cons.prems(3) by auto
    have p1: "set (start # seen) \<subseteq> V" using Cons.prems by auto
    obtain seen' grp where f: "flood nbrs (start # seen) [] [start] = Some (seen', grp)"
      "set (start # seen) \<subseteq> set seen'" "set seen' \<subseteq> V"
      "set grp = set [] \<union> set [start] \<union> (set seen' - set (start # seen))" "distinct grp"
      "\<forall>x\<in>set seen'. set (nbrs x) \<subseteq> set seen'" "set seen' \<subseteq> set (start # seen) \<union> reach `` set [start]"
      using flood_spec [OF p1 _ _ _ p5, of "[]"] by auto
    have symr: "(y, x) \<in> reach" if "(x, y) \<in> reach" for x y
    proof -
      have "sym (edge_rel nbrs)" using sym by (auto simp: sym_def edge_rel_def)
      then show ?thesis using that by (meson sym_rtrancl symD)
    qed
    have out: "reach `` {start} \<inter> set seen = {}"
      using closed_reach [OF Cons.prems(3)] symr False by auto
    have "reach `` {start} \<subseteq> set seen'" using closed_reach [OF f(6)] f(2) by auto
    then have grp: "set grp = reach `` {start}" "set seen' = set seen \<union> reach `` {start}"
      using f(2,4,7) out False by auto
    have "set rest \<subseteq> V" using Cons.prems by simp
    from Cons.IH [OF this f(3,6)] obtain groups where g: "flood_all nbrs seen' rest = Some groups"
      "\<forall>g\<in>set groups. distinct g \<and> (\<exists>x\<in>set rest - set seen'. set g = reach `` {x})"
      "(\<Union>g\<in>set groups. set g) \<inter> set seen' = {}" "set rest \<subseteq> set seen' \<union> (\<Union>g\<in>set groups. set g)"
      "distinct (map set groups)" by blast
    have "set grp \<notin> set ` set groups" using g(3) grp by fastforce
    moreover have "\<forall>h\<in>set (grp # groups). distinct h \<and> (\<exists>x\<in>set (start # rest) - set seen. set h = reach `` {x})"
    proof
      fix h assume "h \<in> set (grp # groups)"
      then consider "h = grp" | "h \<in> set groups" by auto
      then show "distinct h \<and> (\<exists>x\<in>set (start # rest) - set seen. set h = reach `` {x})"
      proof cases
        case 1
        then show ?thesis using f(5) grp(1) False by auto
      next
        case 2
        then obtain x where "distinct h" "x \<in> set rest - set seen'" "set h = reach `` {x}"
          using g(2) by blast
        then show ?thesis using grp(2) by auto
      qed
    qed
    moreover have "start \<in> set grp" using grp by auto
    ultimately show ?thesis
      using f(1) g(1,3-5) grp out False by (intro exI [of _ "grp # groups"]) auto
  qed
qed

end

end
