(* ===== verification/Graph.thy ===== *)
theory Graph
  imports Accel PyJson PyFloat Search
begin

text \<open>
  \<open>engine/graph/core.py\<close> and the graph operations of \<open>core/accel.py\<close>: the asset graph,
  its neighbour order, ingestion of findings, centrality, components and shortest paths, each
  served by the Rust core (an argument) or by the Python code.
\<close>

section \<open>The graph\<close>

text \<open>A set of neighbours or edges is a list whose order no result depends on.\<close>

record asset_graph =
  g_nodes :: "(string, pydict) dict"
  g_adj :: "(string, string list) dict"
  g_edges :: "(string \<times> string) list"
  g_engines :: "(string, string \<times> string) dict"

definition empty_graph :: asset_graph where
  "empty_graph = \<lparr>g_nodes = [], g_adj = [], g_edges = [], g_engines = []\<rparr>"

definition node_ids :: "asset_graph \<Rightarrow> string list" where
  "node_ids g = dict_keys (g_nodes g)"

definition add_node :: "string \<Rightarrow> string \<Rightarrow> pydict \<Rightarrow> asset_graph \<Rightarrow> asset_graph" where
  "add_node node_id kind mt g =
     g\<lparr>g_nodes := dict_set node_id
        (foldl (\<lambda>d (k, v). dict_set k v d) [(''id'', PStr node_id), (''kind'', PStr kind)] mt) (g_nodes g)\<rparr>"

definition ensure_node :: "string \<Rightarrow> asset_graph \<Rightarrow> asset_graph" where
  "ensure_node n g =
     g\<lparr>g_nodes := dict_setdefault n [(''id'', PStr n), (''kind'', PStr ''asset'')] (g_nodes g),
       g_adj := dict_setdefault n [] (g_adj g)\<rparr>"

definition adj_of :: "asset_graph \<Rightarrow> string \<Rightarrow> string list" where
  "adj_of g n = (case dict_get (g_adj g) n of None \<Rightarrow> [] | Some s \<Rightarrow> s)"

definition add_neighbour :: "string \<Rightarrow> string \<Rightarrow> asset_graph \<Rightarrow> asset_graph" where
  "add_neighbour a b g = g\<lparr>g_adj := dict_set a (List.insert b (adj_of g a)) (g_adj g)\<rparr>"

definition add_edge :: "string \<Rightarrow> string \<Rightarrow> asset_graph \<Rightarrow> asset_graph" where
  "add_edge a b g =
     (let g1 = ensure_node b (ensure_node a g);
          g2 = add_neighbour b a (add_neighbour a b g1)
      in g2\<lparr>g_edges := List.insert (a, b) (g_edges g2)\<rparr>)"

definition index_of :: "asset_graph \<Rightarrow> (string, nat) dict" where
  "index_of g = map (\<lambda>(i, nid). (nid, i)) (enumerate 0 (node_ids g))"

definition index_or :: "asset_graph \<Rightarrow> nat \<Rightarrow> string \<Rightarrow> nat" where
  "index_or g d n = (case dict_get (index_of g) n of None \<Rightarrow> d | Some i \<Rightarrow> i)"

definition neighbours :: "asset_graph \<Rightarrow> string \<Rightarrow> string list" where
  "neighbours g node_id =
     sort_key (index_or g (length (index_of g)))
       (filter (\<lambda>nb. nb \<noteq> node_id \<and> nb \<in> set (node_ids g)) (adj_of g node_id))"

section \<open>Ingesting findings\<close>

definition ingest_step :: "asset_graph \<times> int \<Rightarrow> pydict \<Rightarrow> exc + (asset_graph \<times> int)" where
  "ingest_step st f =
     (case st of (g, added) \<Rightarrow>
        if dget f ''module'' = PStr ''discovery'' \<and> truthy (dget f ''host'') \<and> truthy (dget f ''service'')
        then bind_res (py_str (dget f ''host'')) (\<lambda>h.
             bind_res (py_str (dget_or f ''port'' (PInt 0))) (\<lambda>p.
             bind_res (py_str (dget f ''service'')) (\<lambda>s.
               let host = ''host:'' @ h; svc = ''svc:'' @ h @ '':'' @ p @ ''/'' @ s;
                   g1 = add_node host ''host'' [(''ip'', dget f ''host'')] g;
                   g2 = add_node svc ''service'' [(''port'', dget f ''port''), (''name'', dget f ''service'')] g1
               in Inr (add_edge host svc g2, added + 1))))
        else if dget f ''module'' = PStr ''dns_enum'' \<and> truthy (dget f ''subdomain'')
        then bind_res (py_str (dget f ''subdomain'')) (\<lambda>s.
               Inr (add_node (''sub:'' @ s) ''subdomain'' [(''fqdn'', dget f ''subdomain'')] g, added + 1))
        else Inr (g, added))"

definition ingest :: "asset_graph \<Rightarrow> pydict list \<Rightarrow> exc + (asset_graph \<times> int)" where
  "ingest g findings = fold_res ingest_step (g, 0) findings"

section \<open>The integer form\<close>

definition native_graph :: "asset_graph \<Rightarrow> int \<times> (int \<times> int) list \<times> (string, nat) dict" where
  "native_graph g =
     (let ids = index_of g;
          ordered = sort_key (\<lambda>(a, b). (index_or g 0 a, index_or g 0 b)) (g_edges g);
          es = concat (map (\<lambda>(a, b).
                 case (dict_get ids a, dict_get ids b) of
                   (Some ia, Some ib) \<Rightarrow> if ia \<noteq> ib then [(int ia, int ib)] else []
                 | _ \<Rightarrow> []) ordered)
      in (int (length (g_nodes g)), es, ids))"

definition reverse_index :: "(string, nat) dict \<Rightarrow> (int, string) dict" where
  "reverse_index ids = map (\<lambda>(nid, i). (int i, nid)) ids"

definition last_engine :: "string \<Rightarrow> string \<Rightarrow> string \<Rightarrow> asset_graph \<Rightarrow> asset_graph" where
  "last_engine operation eng why g = g\<lparr>g_engines := dict_set operation (eng, why) (g_engines g)\<rparr>"

text \<open>The graph the Python fallback of \<open>core/accel.py\<close> builds: node i is named \<open>str(i)\<close>.\<close>

definition indexed_graph :: "int \<Rightarrow> (int \<times> int) list \<Rightarrow> asset_graph" where
  "indexed_graph node_count es =
     foldl (\<lambda>g (a, b). if 0 \<le> a \<and> a < node_count \<and> 0 \<le> b \<and> b < node_count
                      then add_edge (show_int a) (show_int b) g else g)
       (foldl (\<lambda>g i. add_node (show_nat i) ''asset'' [] g) empty_graph [0..<nat node_count]) es"

text \<open>\<open>int(nid)\<close> on such a name.\<close>

definition node_number :: "string \<Rightarrow> int" where
  "node_number nid = int (dec_value nid)"

text \<open>What the Rust bridge answers.\<close>

record rust_graph =
  rust_degree :: "int \<Rightarrow> (int \<times> int) list \<Rightarrow> exc + (int \<times> float) list"
  rust_betweenness :: "int \<Rightarrow> (int \<times> int) list \<Rightarrow> exc + float list"
  rust_components :: "int \<Rightarrow> (int \<times> int) list \<Rightarrow> exc + int list list"
  rust_path :: "int \<Rightarrow> (int \<times> int) list \<Rightarrow> nat \<Rightarrow> nat \<Rightarrow> exc + (nat \<times> int list) option"

section \<open>Degree centrality\<close>

definition rank :: "(string \<times> float) list \<Rightarrow> (string \<times> float) list" where
  "rank pairs = sort_key (\<lambda>(nid, score). (- score, nid)) pairs"

definition degree_python :: "asset_graph \<Rightarrow> (string \<times> float) list" where
  "degree_python g =
     (let n = length (g_nodes g) in
      rank (map (\<lambda>nid. (nid, round_digits 3
        (fdiv (of_nat (length (neighbours g nid))) (of_int (max 1 (int n - 1)))))) (node_ids g)))"

text \<open>
  \<open>AssetGraph.degree_centrality\<close> calls \<open>core.accel\<close>, whose Python fallback builds a graph and
  calls \<open>degree_centrality\<close> on it: without the Rust core the calls nest until Python raises
  \<open>RecursionError\<close>. The first argument is the number of calls the interpreter still allows.
\<close>

definition graph_degree_with ::
  "native \<Rightarrow> rust_graph \<Rightarrow> (asset_graph \<Rightarrow> exc + (string \<times> float) list) \<Rightarrow> int \<Rightarrow> (int \<times> int) list \<Rightarrow>
     string option \<Rightarrow> exc + (int \<times> float) list graph_outcome" where
  "graph_degree_with nv rg inner node_count es prefer =
     graph_dispatch nv ''graph_degree'' (rust_degree rg node_count es)
       (bind_res (inner (indexed_graph node_count es)) (\<lambda>ranked.
          Inr (map (\<lambda>(nid, score). (node_number nid, score)) ranked))) prefer"

definition degree_with ::
  "native \<Rightarrow> rust_graph \<Rightarrow> (asset_graph \<Rightarrow> exc + (string \<times> float) list) \<Rightarrow> asset_graph \<Rightarrow>
     exc + (string \<times> float) list \<times> asset_graph" where
  "degree_with nv rg inner g =
     (if g_nodes g = [] then Inr ([], g)
      else case native_graph g of (cnt, es, ids) \<Rightarrow>
        bind_res (graph_degree_with nv rg inner cnt es None) (\<lambda>out.
          let g' = last_engine ''degree'' (graph_engine out) (graph_reason out) g in
          case graph_value out of
            Some value \<Rightarrow>
              if int (length value) = cnt
              then Inr (rank (concat (map (\<lambda>(i, score).
                     case dict_get (reverse_index ids) i of
                       None \<Rightarrow> [] | Some nid \<Rightarrow> [(nid, round_digits 3 score)]) value)), g')
              else Inr (degree_python g, g')
          | None \<Rightarrow> Inr (degree_python g, g')))"

fun degree_centrality ::
  "native \<Rightarrow> rust_graph \<Rightarrow> nat \<Rightarrow> asset_graph \<Rightarrow> exc + (string \<times> float) list \<times> asset_graph" where
  "degree_centrality nv rg 0 g = degree_with nv rg (\<lambda>_. Inl RecursionError) g"
| "degree_centrality nv rg (Suc depth) g =
     degree_with nv rg (\<lambda>h. bind_res (degree_centrality nv rg depth h) (\<lambda>r. Inr (fst r))) g"

definition top_targets ::
  "native \<Rightarrow> rust_graph \<Rightarrow> nat \<Rightarrow> int \<Rightarrow> asset_graph \<Rightarrow> exc + string list \<times> asset_graph" where
  "top_targets nv rg depth limit g =
     bind_res (degree_centrality nv rg depth g) (\<lambda>(ranked, g').
       Inr (map fst (slice_to limit ranked), g'))"

section \<open>Connected components\<close>

definition by_size :: "string list list \<Rightarrow> string list list" where
  "by_size cs = sort_key (\<lambda>c. (- int (length c), hd c)) cs"

text \<open>The traversals always end (\<open>flood_total\<close>), so the last case never applies.\<close>

definition components_python :: "asset_graph \<Rightarrow> exc + string list list" where
  "components_python g =
     (case flood_all (neighbours g) [] (node_ids g) of
        Some cs \<Rightarrow> Inr (by_size (map sort cs)) | None \<Rightarrow> Inl OutOfModel)"

definition graph_components_with ::
  "native \<Rightarrow> rust_graph \<Rightarrow> (asset_graph \<Rightarrow> exc + string list list) \<Rightarrow> int \<Rightarrow> (int \<times> int) list \<Rightarrow>
     string option \<Rightarrow> exc + int list list graph_outcome" where
  "graph_components_with nv rg inner node_count es prefer =
     graph_dispatch nv ''graph_components'' (rust_components rg node_count es)
       (bind_res (inner (indexed_graph node_count es)) (\<lambda>groups. Inr (map (map node_number) groups))) prefer"

text \<open>
  The answer of a core in node names. An index that names no node is dropped, and the sort key of a group
  left without members raises.
\<close>

definition names_of :: "(string, nat) dict \<Rightarrow> int list \<Rightarrow> string list" where
  "names_of ids is = concat (map (\<lambda>i. case dict_get (reverse_index ids) i of None \<Rightarrow> [] | Some nid \<Rightarrow> [nid]) is)"

definition named_components :: "(string, nat) dict \<Rightarrow> int list list \<Rightarrow> exc + string list list" where
  "named_components ids groups =
     (let comps = map (\<lambda>group. sort (names_of ids group)) groups
      in if [] \<in> set comps then Inl IndexError else Inr (by_size comps))"

definition components_with ::
  "native \<Rightarrow> rust_graph \<Rightarrow> (asset_graph \<Rightarrow> exc + string list list) \<Rightarrow> asset_graph \<Rightarrow>
     exc + string list list \<times> asset_graph" where
  "components_with nv rg inner g =
     (if g_nodes g = [] then Inr ([], g)
      else case native_graph g of (cnt, es, ids) \<Rightarrow>
        bind_res (graph_components_with nv rg inner cnt es None) (\<lambda>out.
          let g' = last_engine ''components'' (graph_engine out) (graph_reason out) g in
          case graph_value out of
            Some (v # vs) \<Rightarrow> map_sum id (\<lambda>cs. (cs, g')) (named_components ids (v # vs))
          | _ \<Rightarrow> bind_res (components_python g) (\<lambda>cs. Inr (cs, g'))))"

fun connected_components ::
  "native \<Rightarrow> rust_graph \<Rightarrow> nat \<Rightarrow> asset_graph \<Rightarrow> exc + string list list \<times> asset_graph" where
  "connected_components nv rg 0 g = components_with nv rg (\<lambda>_. Inl RecursionError) g"
| "connected_components nv rg (Suc depth) g =
     components_with nv rg (\<lambda>h. bind_res (connected_components nv rg depth h) (\<lambda>r. Inr (fst r))) g"

section \<open>Shortest paths\<close>

definition path_of_result :: "string path_result option \<Rightarrow> exc + string list option" where
  "path_of_result r =
     (case r of None \<Rightarrow> Inl OutOfModel | Some (Path p) \<Rightarrow> Inr (Some p) | Some No_path \<Rightarrow> Inr None
      | Some Broken_chain \<Rightarrow> Inl (KeyError []))"

definition shortest_path_python :: "asset_graph \<Rightarrow> string \<Rightarrow> string \<Rightarrow> exc + string list option" where
  "shortest_path_python g s t = path_of_result (search_path (neighbours g) s t)"

definition graph_shortest_path ::
  "native \<Rightarrow> rust_graph \<Rightarrow> int \<Rightarrow> (int \<times> int) list \<Rightarrow> nat \<Rightarrow> nat \<Rightarrow> string option \<Rightarrow>
     exc + (nat \<times> int list) option graph_outcome" where
  "graph_shortest_path nv rg node_count es s t prefer =
     graph_dispatch nv ''graph_shortest_path'' (rust_path rg node_count es s t)
       (bind_res (shortest_path_python (indexed_graph node_count es) (show_nat s) (show_nat t)) (\<lambda>path.
          Inr (case path of None \<Rightarrow> None | Some p \<Rightarrow> Some (length p - 1, map node_number p)))) prefer"

definition shortest_path ::
  "native \<Rightarrow> rust_graph \<Rightarrow> asset_graph \<Rightarrow> string \<Rightarrow> string \<Rightarrow> exc + string list option \<times> asset_graph" where
  "shortest_path nv rg g s t =
     (if s \<notin> set (node_ids g) \<or> t \<notin> set (node_ids g) then Inr (None, g)
      else case native_graph g of (cnt, es, ids) \<Rightarrow>
        bind_res (graph_shortest_path nv rg cnt es (the (dict_get ids s)) (the (dict_get ids t)) None) (\<lambda>out.
          let g' = last_engine ''shortest_path'' (graph_engine out) (graph_reason out) g in
          case graph_value out of
            Some None \<Rightarrow> Inr (None, g')
          | Some (Some (_, path)) \<Rightarrow>
              Inr (Some (names_of ids path), g')
          | None \<Rightarrow> bind_res (shortest_path_python g s t) (\<lambda>p. Inr (p, g'))))"

section \<open>Export\<close>

definition dedup_sort :: "'a::linorder list \<Rightarrow> 'a list" where
  "dedup_sort xs = sort (remdups xs)"

definition engines_dict :: "asset_graph \<Rightarrow> pyval" where
  "engines_dict g = PDict (map (\<lambda>(op, eng, why).
     (op, PDict [(''engine'', PStr eng), (''reason'', PStr why)])) (g_engines g))"

definition graph_to_dict :: "asset_graph \<Rightarrow> pyval" where
  "graph_to_dict g = PDict
     [(''nodes'', PDict (map (\<lambda>(k, d). (k, PDict d)) (g_nodes g))),
      (''adjacency'', PDict (map (\<lambda>(k, v). (k, PList (map PStr (dedup_sort v)))) (g_adj g))),
      (''edges'', PList (map (\<lambda>(a, b). PList [PStr a, PStr b]) (dedup_sort (g_edges g)))),
      (''engines'', engines_dict g)]"

definition graph_report :: "asset_graph \<Rightarrow> pyval" where
  "graph_report g = PDict
     [(''nodes'', PInt (int (length (g_nodes g)))), (''edges'', PInt (int (length (g_edges g)))),
      (''engines'', engines_dict g)]"

section \<open>The graph invariant\<close>

definition graph_ok :: "asset_graph \<Rightarrow> bool" where
  "graph_ok g \<longleftrightarrow> dict_ok (g_nodes g) \<and> distinct (g_edges g) \<and>
     (\<forall>a b. b \<in> set (adj_of g a) \<longleftrightarrow> (a, b) \<in> set (g_edges g) \<or> (b, a) \<in> set (g_edges g)) \<and>
     (\<forall>a. distinct (adj_of g a)) \<and>
     (\<forall>(a, b)\<in>set (g_edges g). a \<in> set (node_ids g) \<and> b \<in> set (node_ids g))"

lemma node_ids_simps [simp]:
  "set (node_ids (add_node n k m g)) = insert n (set (node_ids g))"
  "set (node_ids (ensure_node n g)) = insert n (set (node_ids g))"
  "node_ids (add_neighbour a b g) = node_ids g"
  by (auto simp: node_ids_def add_node_def ensure_node_def add_neighbour_def dict_keys_setdefault
      simp del: set_map)

lemma adj_of_simps [simp]:
  "adj_of (add_node n k m g) = adj_of g"
  "adj_of (ensure_node n g) = adj_of g"
  "adj_of (add_neighbour a b g) = (adj_of g)(a := List.insert b (adj_of g a))"
  by (auto simp: fun_eq_iff adj_of_def add_node_def ensure_node_def add_neighbour_def dict_setdefault_def
      map_add_def split: option.splits dest: map_of_SomeD)

lemma edges_simps [simp]:
  "g_edges (add_node n k m g) = g_edges g"
  "g_edges (ensure_node n g) = g_edges g"
  "g_edges (add_neighbour a b g) = g_edges g"
  by (simp_all add: add_node_def ensure_node_def add_neighbour_def)

lemma edges_frame [simp]:
  "node_ids (g\<lparr>g_edges := es\<rparr>) = node_ids g" "adj_of (g\<lparr>g_edges := es\<rparr>) = adj_of g"
  by (simp_all add: node_ids_def adj_of_def fun_eq_iff)

lemma add_edge_simps [simp]:
  "set (node_ids (add_edge a b g)) = insert a (insert b (set (node_ids g)))"
  "g_edges (add_edge a b g) = List.insert (a, b) (g_edges g)"
  by (auto simp: add_edge_def Let_def)

lemma adj_of_add_edge:
  "set (adj_of (add_edge a b g) x) =
     set (adj_of g x) \<union> (if x = a then {b} else {}) \<union> (if x = b then {a} else {})"
  "(\<forall>x. distinct (adj_of g x)) \<Longrightarrow> distinct (adj_of (add_edge a b g) x)"
proof -
  have *: "adj_of (add_edge a b g) = adj_of (add_neighbour b a (add_neighbour a b (ensure_node b (ensure_node a g))))"
    by (simp only: add_edge_def Let_def edges_frame)
  show "set (adj_of (add_edge a b g) x) =
     set (adj_of g x) \<union> (if x = a then {b} else {}) \<union> (if x = b then {a} else {})"
    "(\<forall>x. distinct (adj_of g x)) \<Longrightarrow> distinct (adj_of (add_edge a b g) x)"
    by (auto simp: *)
qed

lemma graph_ok_empty [simp]: "graph_ok empty_graph"
  by (simp add: graph_ok_def empty_graph_def adj_of_def)

lemma graph_ok_add_node: "graph_ok g \<Longrightarrow> graph_ok (add_node n k m g)"
  by (auto simp: graph_ok_def) (simp add: add_node_def)

lemma graph_ok_add_edge:
  assumes "graph_ok g"
  shows "graph_ok (add_edge a b g)"
proof -
  have "dict_ok (g_nodes (add_edge a b g))"
    using assms by (simp add: graph_ok_def add_edge_def Let_def add_neighbour_def ensure_node_def)
  then show ?thesis
    using assms adj_of_add_edge(2) [of g a b] unfolding graph_ok_def
    by (auto simp: adj_of_add_edge(1) split: if_splits)
qed

lemma ingest_graph_ok:
  assumes "ingest g findings = Inr (g', n)" and "graph_ok g"
  shows "graph_ok g'"
proof -
  have "graph_ok (fst (g', n))"
    using assms(1) unfolding ingest_def
  proof (rule fold_res_invariant)
    show "graph_ok (fst (g, 0 :: int))" using assms(2) by simp
    fix st f st'
    assume "graph_ok (fst (st :: asset_graph \<times> int))" "ingest_step st f = Inr st'"
    then show "graph_ok (fst st')"
      by (cases st) (auto simp: ingest_step_def bind_res_eq_Inr Let_def graph_ok_add_node
          intro!: graph_ok_add_edge split: if_splits)
  qed
  then show ?thesis by simp
qed

section \<open>Neighbours\<close>

lemma set_neighbours:
  "set (neighbours g x) = {nb \<in> set (adj_of g x). nb \<noteq> x \<and> nb \<in> set (node_ids g)}"
  by (auto simp: neighbours_def)

lemma distinct_neighbours: "graph_ok g \<Longrightarrow> distinct (neighbours g x)"
  by (simp add: neighbours_def graph_ok_def)

lemma neighbours_edges:
  assumes "graph_ok g"
  shows "y \<in> set (neighbours g x) \<longleftrightarrow>
     x \<noteq> y \<and> ((x, y) \<in> set (g_edges g) \<or> (y, x) \<in> set (g_edges g))"
  using assms by (auto simp: set_neighbours graph_ok_def)

lemma neighbours_sym: "graph_ok g \<Longrightarrow> y \<in> set (neighbours g x) \<Longrightarrow> x \<in> set (neighbours g y)"
  by (auto simp: neighbours_edges)

interpretation asset_search: finite_graph "neighbours g" "set (node_ids g)" for g
  by unfold_locales (auto simp: set_neighbours)

text \<open>Positions of nodes.\<close>

lemma index_of_keys: "dict_keys (index_of g) = node_ids g"
  by (simp add: index_of_def case_prod_unfold comp_def map_snd_enumerate)

lemma index_of_nth:
  assumes "dict_ok (g_nodes g)" and "i < length (node_ids g)"
  shows "dict_get (index_of g) (node_ids g ! i) = Some i"
proof (rule map_of_is_SomeI)
  show "distinct (map fst (index_of g))"
    using assms(1) by (simp only: index_of_keys) (simp add: node_ids_def dict_ok_def)
  have "(i, node_ids g ! i) \<in> set (enumerate 0 (node_ids g))"
    using assms(2) by (simp add: in_set_enumerate_eq)
  then show "(node_ids g ! i, i) \<in> set (index_of g)" by (force simp: index_of_def)
qed

lemma index_of_Some:
  assumes "dict_ok (g_nodes g)"
  shows "dict_get (index_of g) x = Some i \<longleftrightarrow> i < length (node_ids g) \<and> x = node_ids g ! i"
proof
  assume "dict_get (index_of g) x = Some i"
  then show "i < length (node_ids g) \<and> x = node_ids g ! i"
    by (auto dest!: map_of_SomeD simp: index_of_def in_set_enumerate_eq)
qed (use assms index_of_nth in auto)

lemma index_or_inj:
  assumes "dict_ok (g_nodes g)"
  shows "inj_on (index_or g d) (set (node_ids g))"
proof (rule inj_onI)
  fix x y assume *: "x \<in> set (node_ids g)" "y \<in> set (node_ids g)" "index_or g d x = index_or g d y"
  then obtain i j where "x = node_ids g ! i" "i < length (node_ids g)" "y = node_ids g ! j" "j < length (node_ids g)"
    by (metis in_set_conv_nth)
  then show "x = y" using * by (simp add: index_or_def index_of_nth [OF assms])
qed

text \<open>
  The neighbours of a node depend only on the node order and on the adjacency set, never on the
  order in which the set is stored or iterated.
\<close>
theorem neighbours_canonical:
  assumes "dict_ok (g_nodes g)" and "g_nodes h = g_nodes g"
    and "\<forall>a. distinct (adj_of g a) \<and> distinct (adj_of h a) \<and> set (adj_of g a) = set (adj_of h a)"
  shows "neighbours g x = neighbours h x"
proof -
  let ?P = "\<lambda>nb. nb \<noteq> x \<and> nb \<in> set (node_ids g)"
  let ?key = "index_or g (length (index_of g))"
  have eq: "node_ids h = node_ids g" "index_of h = index_of g" "index_or h = index_or g"
    using assms(2) by (simp_all add: node_ids_def index_of_def index_or_def fun_eq_iff)
  have "mset (filter ?P (adj_of g x)) = mset (filter ?P (adj_of h x))"
    using assms(3) by (intro set_eq_iff_mset_eq_distinct [THEN iffD1]) auto
  moreover have "inj_on ?key (set (filter ?P (adj_of g x)))"
    by (rule inj_on_subset [OF index_or_inj [OF assms(1)]]) auto
  ultimately have "sort_key ?key (filter ?P (adj_of g x)) = sort_key ?key (filter ?P (adj_of h x))"
    by (intro sort_key_inj_key_eq) simp_all
  then show ?thesis by (simp add: neighbours_def eq)
qed

theorem neighbours_canonical_witness:
  "neighbours (add_edge ''a'' ''c'' (add_edge ''a'' ''b'' empty_graph)) ''a'' =
   neighbours ((add_edge ''a'' ''c'' (add_edge ''a'' ''b'' empty_graph))
     \<lparr>g_adj := [(''c'', [''a'']), (''b'', [''a'']), (''a'', [''b'', ''c''])]\<rparr>) ''a''"
  by (rule neighbours_canonical)
    (simp_all add: add_edge_def add_neighbour_def ensure_node_def empty_graph_def adj_of_def dict_setdefault_def
      dict_ok_def Let_def List.insert_def insert_commute)

text \<open>A host without the Rust library.\<close>

definition no_rust_graph :: rust_graph where
  "no_rust_graph = \<lparr>rust_degree = (\<lambda>_ _. Inl OutOfModel), rust_betweenness = (\<lambda>_ _. Inl OutOfModel),
     rust_components = (\<lambda>_ _. Inl OutOfModel), rust_path = (\<lambda>_ _ _ _. Inl OutOfModel)\<rparr>"

end
