(* ===== verification/GraphFacts.thy ===== *)
theory GraphFacts
  imports Graph
begin

text \<open>
  What the graph analyses compute: the integer form has the same edges as the graph, and every
  analysis ends and gives its specified result unless the Rust core answers something else. Nothing is
  assumed of that core: each statement says what the analysis makes of the answer to its call.
\<close>

section \<open>The integer form has the same edges\<close>

definition node_name :: "asset_graph \<Rightarrow> nat \<Rightarrow> string" where
  "node_name g i = node_ids g ! i"

lemma node_count: "length (node_ids g) = length (g_nodes g)"
  by (simp add: node_ids_def)

lemma node_name_in: "i < length (g_nodes g) \<Longrightarrow> node_name g i \<in> set (node_ids g)"
  by (simp add: node_name_def node_count)

lemma node_name_ex: "x \<in> set (node_ids g) \<Longrightarrow> \<exists>i<length (g_nodes g). x = node_name g i"
  by (auto simp: node_name_def node_count in_set_conv_nth)

lemma node_name_inj:
  "graph_ok g \<Longrightarrow> i < length (g_nodes g) \<Longrightarrow> j < length (g_nodes g) \<Longrightarrow>
     node_name g i = node_name g j \<longleftrightarrow> i = j"
  by (simp add: node_name_def graph_ok_def dict_ok_def nth_eq_iff_index_eq flip: node_ids_def node_count)

lemma index_name:
  "graph_ok g \<Longrightarrow> dict_get (index_of g) x = Some i \<longleftrightarrow> i < length (g_nodes g) \<and> x = node_name g i"
  by (simp add: index_of_Some graph_ok_def node_name_def node_count)

lemma native_graph_count: "fst (native_graph g) = int (length (g_nodes g))"
  by (simp add: native_graph_def Let_def)

lemma native_graph_ids: "snd (snd (native_graph g)) = index_of g"
  by (simp add: native_graph_def Let_def)

lemma native_graph_edges:
  assumes "graph_ok g"
  shows "(p, q) \<in> set (fst (snd (native_graph g))) \<longleftrightarrow>
     (\<exists>i j. p = int i \<and> q = int j \<and> i \<noteq> j \<and> i < length (g_nodes g) \<and> j < length (g_nodes g) \<and>
        (node_name g i, node_name g j) \<in> set (g_edges g))"
proof -
  let ?f = "\<lambda>(a, b). case (dict_get (index_of g) a, dict_get (index_of g) b) of
      (Some ia, Some ib) \<Rightarrow> if ia \<noteq> ib then [(int ia, int ib)] else [] | _ \<Rightarrow> []"
  have one: "(p, q) \<in> set (?f (a, b)) \<longleftrightarrow> (\<exists>i j. dict_get (index_of g) a = Some i \<and>
        dict_get (index_of g) b = Some j \<and> i \<noteq> j \<and> p = int i \<and> q = int j)" for a b
    by (cases "dict_get (index_of g) a"; cases "dict_get (index_of g) b") auto
  have "(p, q) \<in> set (fst (snd (native_graph g))) \<longleftrightarrow> (\<exists>(a, b)\<in>set (g_edges g). (p, q) \<in> set (?f (a, b)))"
    by (simp add: native_graph_def Let_def case_prod_unfold)
  then have "(p, q) \<in> set (fst (snd (native_graph g))) \<longleftrightarrow>
     (\<exists>a b i j. (a, b) \<in> set (g_edges g) \<and> dict_get (index_of g) a = Some i \<and>
        dict_get (index_of g) b = Some j \<and> i \<noteq> j \<and> p = int i \<and> q = int j)"
    unfolding one by blast
  then show ?thesis unfolding index_name [OF assms] by metis
qed

lemma reverse_get:
  assumes "graph_ok g"
  shows "dict_get (reverse_index (index_of g)) (int i) =
     (if i < length (g_nodes g) then Some (node_name g i) else None)"
proof -
  have eq: "reverse_index (index_of g) = map (\<lambda>(i, nid). (int i, nid)) (enumerate 0 (node_ids g))"
    by (simp add: reverse_index_def index_of_def case_prod_unfold comp_def)
  have "distinct (map fst (reverse_index (index_of g)))"
    by (simp add: eq case_prod_unfold comp_def distinct_map inj_on_def flip: map_map)
      (metis (no_types, lifting) distinct_enumerate distinct_map map_fst_enumerate distinct_upt inj_onI in_set_enumerate_eq prod_eqI)
  moreover have "(int i, node_name g i) \<in> set (reverse_index (index_of g))" if "i < length (g_nodes g)"
    using that by (force simp: eq in_set_enumerate_eq node_name_def node_count)
  moreover have "int i \<notin> fst ` set (reverse_index (index_of g))" if "\<not> i < length (g_nodes g)"
    using that by (auto simp: eq in_set_enumerate_eq node_count)
  ultimately show ?thesis by (auto simp: map_of_eq_None_iff)
qed

text \<open>The graph of the fallback.\<close>

lemma fold_add_nodes:
  "g_edges (foldl (\<lambda>g i. add_node (show_nat i) k [] g) g ks) = g_edges g \<and>
   set (node_ids (foldl (\<lambda>g i. add_node (show_nat i) k [] g) g ks)) = set (node_ids g) \<union> show_nat ` set ks \<and>
   (graph_ok g \<longrightarrow> graph_ok (foldl (\<lambda>g i. add_node (show_nat i) k [] g) g ks))"
  by (induction ks arbitrary: g) (auto simp: graph_ok_add_node)

lemma fold_add_nodes_ids:
  "distinct ks \<Longrightarrow> set (node_ids g) \<inter> show_nat ` set ks = {} \<Longrightarrow>
   node_ids (foldl (\<lambda>g i. add_node (show_nat i) k [] g) g ks) = node_ids g @ map show_nat ks"
proof (induction ks arbitrary: g)
  case Nil
  then show ?case by simp
next
  case (Cons i ks)
  then have "node_ids (add_node (show_nat i) k [] g) = node_ids g @ [show_nat i]"
    by (simp add: add_node_def node_ids_def dict_set_new)
  moreover have "set (node_ids (add_node (show_nat i) k [] g)) \<inter> show_nat ` set ks = {}"
    using Cons.prems by auto
  ultimately show ?case using Cons.IH [of "add_node (show_nat i) k [] g"] Cons.prems by simp
qed

lemma add_edge_ids:
  "a \<in> set (node_ids g) \<Longrightarrow> b \<in> set (node_ids g) \<Longrightarrow> node_ids (add_edge a b g) = node_ids g"
proof -
  assume *: "a \<in> set (node_ids g)" "b \<in> set (node_ids g)"
  have e: "node_ids (ensure_node x h) = node_ids h" if "x \<in> set (node_ids h)" for x h
    using that by (simp add: ensure_node_def node_ids_def dict_keys_setdefault)
  show ?thesis using * by (simp add: add_edge_def Let_def e)
qed

lemma fold_add_edges:
  assumes "graph_ok g" "set (node_ids g) = show_nat ` {..<n}"
  shows "let h = foldl (\<lambda>g (a, b). if 0 \<le> a \<and> a < int n \<and> 0 \<le> b \<and> b < int n
                 then add_edge (show_int a) (show_int b) g else g) g es
    in graph_ok h \<and> node_ids h = node_ids g \<and>
       set (g_edges h) = set (g_edges g) \<union>
         {(show_nat i, show_nat j) | i j. i < n \<and> j < n \<and> (int i, int j) \<in> set es}"
  using assms
proof (induction es arbitrary: g)
  case Nil
  then show ?case by simp
next
  case (Cons e es)
  obtain a b where e: "e = (a, b)" by fastforce
  show ?case
  proof (cases "0 \<le> a \<and> a < int n \<and> 0 \<le> b \<and> b < int n")
    case True
    then obtain i j where ij: "a = int i" "b = int j" "i < n" "j < n"
      by (metis nonneg_int_cases of_nat_less_iff)
    let ?g = "add_edge (show_nat i) (show_nat j) g"
    have "node_ids ?g = node_ids g" using Cons.prems ij by (intro add_edge_ids) auto
    moreover have "graph_ok ?g" using Cons.prems(1) by (rule graph_ok_add_edge)
    ultimately show ?thesis
      using Cons.IH [of ?g] Cons.prems ij by (auto simp: e Let_def show_int_def)
  next
    case False
    then show ?thesis using Cons.IH [of g] Cons.prems by (auto simp: e Let_def)
  qed
qed

lemma indexed_graph_facts:
  shows "graph_ok (indexed_graph (int n) es)"
    and "node_ids (indexed_graph (int n) es) = map show_nat [0..<n]"
    and "set (g_edges (indexed_graph (int n) es)) =
      {(show_nat i, show_nat j) | i j. i < n \<and> j < n \<and> (int i, int j) \<in> set es}"
proof -
  let ?g = "foldl (\<lambda>g i. add_node (show_nat i) ''asset'' [] g) empty_graph [0..<n]"
  have g: "graph_ok ?g" "g_edges ?g = []" "node_ids ?g = map show_nat [0..<n]"
    using fold_add_nodes [of "''asset''" empty_graph "[0..<n]"]
      fold_add_nodes_ids [of "[0..<n]" empty_graph "''asset''"]
    by (simp_all add: empty_graph_def node_ids_def graph_ok_def adj_of_def)
  have s: "set (node_ids ?g) = show_nat ` {..<n}" by (simp add: g(3) atLeast0LessThan)
  show "graph_ok (indexed_graph (int n) es)"
    "node_ids (indexed_graph (int n) es) = map show_nat [0..<n]"
    "set (g_edges (indexed_graph (int n) es)) =
      {(show_nat i, show_nat j) | i j. i < n \<and> j < n \<and> (int i, int j) \<in> set es}"
    using fold_add_edges [OF g(1) s, of es] g(2,3) by (simp_all add: indexed_graph_def Let_def)
qed

definition indexed :: "asset_graph \<Rightarrow> asset_graph" where
  "indexed g = indexed_graph (int (length (g_nodes g))) (fst (snd (native_graph g)))"

lemma indexed_ok: "graph_ok (indexed g)"
  and indexed_ids: "node_ids (indexed g) = map show_nat [0..<length (g_nodes g)]"
  by (simp_all add: indexed_def indexed_graph_facts)

lemma indexed_neighbours:
  assumes "graph_ok g" "i < length (g_nodes g)"
  shows "x \<in> set (neighbours (indexed g) (show_nat i)) \<longleftrightarrow>
     (\<exists>j<length (g_nodes g). x = show_nat j \<and> node_name g j \<in> set (neighbours g (node_name g i)))"
proof -
  have "((show_nat i, show_nat j) \<in> set (g_edges (indexed g)) \<longleftrightarrow>
       i \<noteq> j \<and> i < length (g_nodes g) \<and> j < length (g_nodes g) \<and> (node_name g i, node_name g j) \<in> set (g_edges g))" for i j
    using native_graph_edges [OF assms(1), of "int i" "int j"]
    by (auto simp: indexed_def indexed_graph_facts)
  moreover have "x \<in> set (node_ids (indexed g))" if "x \<in> set (neighbours (indexed g) (show_nat i))"
    using that by (simp add: set_neighbours)
  ultimately show ?thesis
    using assms node_name_inj [OF assms(1)]
    by (auto simp: neighbours_edges indexed_ok neighbours_edges [OF assms(1)] indexed_ids)
qed

text \<open>The integer form is in order, so its own integer form is the same.\<close>

lemma native_graph_sorted:
  assumes "graph_ok g"
  shows "sorted (fst (snd (native_graph g)))" and "distinct (fst (snd (native_graph g)))"
proof -
  let ?i = "index_or g 0"
  let ?key = "\<lambda>(a, b). (?i a, ?i b)"
  let ?es = "filter (\<lambda>(a, b). ?i a \<noteq> ?i b) (sort_key ?key (g_edges g))"
  let ?num = "\<lambda>(i, j). (int i, int j)"
  have ends: "a \<in> set (node_ids g) \<and> b \<in> set (node_ids g)" if "(a, b) \<in> set (g_edges g)" for a b
    using assms that by (auto simp: graph_ok_def)
  have idx: "dict_get (index_of g) x = Some (?i x)" if "x \<in> set (node_ids g)" for x
  proof -
    obtain i where "i < length (g_nodes g)" "x = node_name g i" using node_name_ex \<open>x \<in> set (node_ids g)\<close> by blast
    then have "dict_get (index_of g) x = Some i" using index_name [OF assms, of x i] by blast
    then show ?thesis by (simp add: index_or_def)
  qed
  have flat: "concat (map (\<lambda>(a, b). case (dict_get (index_of g) a, dict_get (index_of g) b) of
        (Some ia, Some ib) \<Rightarrow> if ia \<noteq> ib then [(int ia, int ib)] else [] | _ \<Rightarrow> []) es) =
      map ?num (map ?key (filter (\<lambda>(a, b). ?i a \<noteq> ?i b) es))" if "set es \<subseteq> set (g_edges g)" for es
    using that
  proof (induction es)
    case (Cons e es)
    obtain a b where e: "e = (a, b)" by fastforce
    have "a \<in> set (node_ids g)" "b \<in> set (node_ids g)" using Cons.prems ends [of a b] by (simp_all add: e)
    then show ?case using Cons by (simp add: e idx)
  qed simp
  have eq: "fst (snd (native_graph g)) = map ?num (map ?key ?es)"
    using flat [of "sort_key ?key (g_edges g)"] by (simp add: native_graph_def Let_def)
  have "sorted (map ?key ?es)" by (rule sorted_filter) (rule sorted_sort_key)
  then show "sorted (fst (snd (native_graph g)))"
    unfolding eq sorted_map [of ?num] by (rule sorted_wrt_mono_rel [rotated]) (auto simp: less_eq_prod_def)
  have "inj_on ?i (set (node_ids g))" using assms by (intro index_or_inj) (simp add: graph_ok_def)
  then have "inj_on ?key (set (g_edges g))"
    using ends by (intro inj_onI) (auto dest: inj_onD)
  then have "distinct (map ?key ?es)"
    using assms by (auto simp: distinct_map graph_ok_def elim!: inj_on_subset)
  then show "distinct (fst (snd (native_graph g)))"
    unfolding eq by (subst distinct_map) (auto simp: inj_on_def)
qed

lemma native_indexed:
  assumes "graph_ok g"
  shows "fst (snd (native_graph (indexed g))) = fst (snd (native_graph g))"
proof (rule sorted_distinct_set_unique)
  let ?n = "length (g_nodes g)"
  have n: "length (g_nodes (indexed g)) = ?n" by (simp add: indexed_ids flip: node_count)
  have nm: "node_name (indexed g) i = show_nat i" if "i < ?n" for i
    using that by (simp add: node_name_def indexed_ids)
  show "set (fst (snd (native_graph (indexed g)))) = set (fst (snd (native_graph g)))"
    by (auto simp: native_graph_edges [OF indexed_ok] native_graph_edges [OF assms] n nm)
      (auto simp: indexed_def indexed_graph_facts native_graph_edges [OF assms] nm)
qed (simp_all add: native_graph_sorted [OF indexed_ok] native_graph_sorted [OF assms])

lemma node_number_show [simp]: "node_number (show_nat i) = int i"
  by (simp add: node_number_def)

section \<open>Serving a graph operation\<close>

declare dispatch.simps [simp del]

text \<open>What the Rust core answers to one call: None when it is missing or the call raises.\<close>

definition rust_answers :: "native \<Rightarrow> exc + 'v \<Rightarrow> 'v option" where
  "rust_answers nv r =
     (if rust_available nv then case r of Inl _ \<Rightarrow> None | Inr v \<Rightarrow> Some v else None)"

lemma graph_dispatch_value:
  assumes "cap \<in> set GRAPH_CAPABILITIES"
  shows "\<exists>out. graph_dispatch nv cap native_op fallback None = Inr out \<and>
     graph_value out = (case rust_answers nv native_op of Some v \<Rightarrow> Some v
       | None \<Rightarrow> (case fallback of Inl e \<Rightarrow> None | Inr v \<Rightarrow> Some v))"
proof -
  let ?run = "\<lambda>b. if b = Rust_core then native_op else fallback"
  let ?d = "dispatch (backend_info_of nv) cap (\<lambda>_. ''does not implement '' @ cap) ?run [Rust_core, Python_core] []"
  define sv where "sv = serves (backend_info_of nv) cap ?run"
  have s: "sv Rust_core = rust_answers nv native_op"
      "sv Python_core = (case fallback of Inl _ \<Rightarrow> None | Inr v \<Rightarrow> Some v)"
    using assms by (auto simp: sv_def serves_def backend_info_of_def rust_info_def python_info_def rust_answers_def)
  obtain r reasons where d: "?d = (r, reasons)" by fastforce
  have "fst ?d = map_option (\<lambda>b. (the (sv b), b)) (find (\<lambda>b. sv b \<noteq> None) [Rust_core, Python_core])"
    unfolding sv_def by (rule dispatch_result)
  then have "map_option fst r = (case rust_answers nv native_op of Some v \<Rightarrow> Some v
       | None \<Rightarrow> (case fallback of Inl e \<Rightarrow> None | Inr v \<Rightarrow> Some v))"
    unfolding d fst_conv find.simps by (cases "rust_answers nv native_op"; cases fallback) (auto simp: s)
  moreover have p: "order_of GRAPH_PREFERENCE None = Inr [Rust_core, Python_core]"
    by (simp add: order_of_def GRAPH_PREFERENCE_def PREFERENCE_def)
  ultimately show ?thesis
    unfolding graph_dispatch_def p bind_res_Inr d by (cases r) auto
qed

section \<open>Shortest paths\<close>

text \<open>A fewest-hop answer: a walk no other walk is shorter than, or none when there is no walk.\<close>

definition fewest_hops :: "('a \<Rightarrow> 'a list) \<Rightarrow> 'a \<Rightarrow> 'a \<Rightarrow> 'a list option \<Rightarrow> bool" where
  "fewest_hops nbrs s t r \<longleftrightarrow>
     (case r of
        None \<Rightarrow> \<nexists>ys. is_walk nbrs ys \<and> hd ys = s \<and> last ys = t
      | Some p \<Rightarrow> is_walk nbrs p \<and> hd p = s \<and> last p = t \<and>
          (\<forall>ys. is_walk nbrs ys \<and> hd ys = s \<and> last ys = t \<longrightarrow> length p \<le> length ys))"

lemma shortest_path_python_spec:
  assumes "s \<in> set (node_ids g)"
  shows "\<exists>r. shortest_path_python g s t = Inr r \<and> fewest_hops (neighbours g) s t r"
  using asset_search.search_path_spec [OF assms, of t]
  by (auto simp: shortest_path_python_def path_of_result_def fewest_hops_def)

lemma walk_nodes:
  "is_walk (neighbours g) xs \<Longrightarrow> hd xs \<in> set (node_ids g) \<Longrightarrow> set xs \<subseteq> set (node_ids g)"
  by (induction "neighbours g" xs rule: is_walk.induct) (auto simp: set_neighbours)

lemma walk_indexed:
  assumes "graph_ok g" "set ks \<subseteq> {..<length (g_nodes g)}"
  shows "is_walk (neighbours (indexed g)) (map show_nat ks) \<longleftrightarrow> is_walk (neighbours g) (map (node_name g) ks)"
  using assms(2)
proof (induction ks rule: induct_list012)
  case (3 i j ks)
  then show ?case by (auto simp: indexed_neighbours [OF assms(1)])
qed simp_all

lemma walk_as_indices:
  assumes "graph_ok g" "i < length (g_nodes g)" "is_walk (neighbours g) xs" "hd xs = node_name g i"
  shows "\<exists>ks. xs = map (node_name g) ks \<and> set ks \<subseteq> {..<length (g_nodes g)} \<and> ks \<noteq> []"
proof -
  have "\<forall>x\<in>set xs. \<exists>i<length (g_nodes g). x = node_name g i"
    using walk_nodes [OF assms(3)] node_name_in [OF assms(2)] node_name_ex [of _ g] assms(4) by auto
  then obtain f where "\<forall>x\<in>set xs. f x < length (g_nodes g) \<and> x = node_name g (f x)" by metis
  then have "xs = map (node_name g) (map f xs)" "set (map f xs) \<subseteq> {..<length (g_nodes g)}"
    by (auto simp: map_idI)
  moreover have "xs \<noteq> []" using assms(3) by auto
  ultimately show ?thesis by (metis map_is_Nil_conv)
qed

lemma walk_of_indexed:
  assumes "i < length (g_nodes g)" "is_walk (neighbours (indexed g)) (map show_nat ks)"
    "hd (map show_nat ks) = show_nat i"
  shows "set ks \<subseteq> {..<length (g_nodes g)}"
proof -
  have "set (map show_nat ks) \<subseteq> set (node_ids (indexed g))"
    using walk_nodes [OF assms(2)] assms(1,3) by (auto simp: indexed_ids)
  then show ?thesis by (auto simp: indexed_ids)
qed

lemma fewest_hops_indexed:
  assumes ok: "graph_ok g" and ij: "i < length (g_nodes g)" "j < length (g_nodes g)"
    and f: "fewest_hops (neighbours (indexed g)) (show_nat i) (show_nat j) (map_option (map show_nat) r)"
  shows "fewest_hops (neighbours g) (node_name g i) (node_name g j) (map_option (map (node_name g)) r) \<and>
     (\<forall>ks. r = Some ks \<longrightarrow> set ks \<subseteq> {..<length (g_nodes g)})"
proof -
  have bw: "\<exists>ks. ys = map (node_name g) ks \<and> is_walk (neighbours (indexed g)) (map show_nat ks) \<and>
      hd (map show_nat ks) = show_nat i \<and> last (map show_nat ks) = show_nat j \<and> set ks \<subseteq> {..<length (g_nodes g)}"
    if ys: "is_walk (neighbours g) ys" "hd ys = node_name g i" "last ys = node_name g j" for ys
  proof -
    obtain ks where ks: "ys = map (node_name g) ks" "set ks \<subseteq> {..<length (g_nodes g)}" "ks \<noteq> []"
      using walk_as_indices [OF ok ij(1) ys(1,2)] by blast
    have "hd ks < length (g_nodes g)" "last ks < length (g_nodes g)"
      using ks(2,3) by (auto dest: hd_in_set last_in_set)
    then have "hd ks = i" "last ks = j"
      using ys(2,3) ks(1,3) node_name_inj [OF ok] ij by (auto simp: hd_map last_map)
    then show ?thesis using ks walk_indexed [OF ok ks(2)] ys(1) by (auto simp: hd_map last_map)
  qed
  show ?thesis
  proof (cases r)
    case None
    then show ?thesis using f bw unfolding fewest_hops_def by (auto; blast)
  next
    case (Some js)
    then have w: "is_walk (neighbours (indexed g)) (map show_nat js)" "hd (map show_nat js) = show_nat i"
      "last (map show_nat js) = show_nat j" using f by (simp_all add: fewest_hops_def)
    have sub: "set js \<subseteq> {..<length (g_nodes g)}" using walk_of_indexed [OF ij(1) w(1,2)] .
    have ne: "js \<noteq> []" using w(1) by auto
    have ends: "hd js = i" "last js = j" using w(2,3) ne by (simp_all add: hd_map last_map)
    have "length js \<le> length ys"
      if "is_walk (neighbours g) ys" "hd ys = node_name g i" "last ys = node_name g j" for ys
      using bw [OF that] f Some by (auto simp: fewest_hops_def)
    then show ?thesis
      using walk_indexed [OF ok sub] w(1) ends ne sub by (simp add: Some fewest_hops_def hd_map last_map)
  qed
qed

lemma names_of_ints:
  assumes "graph_ok g" "set ks \<subseteq> {..<length (g_nodes g)}"
  shows "names_of (index_of g) (map int ks) = map (node_name g) ks"
  using assms(2) by (induction ks) (auto simp: names_of_def reverse_get [OF assms(1)])

text \<open>The answer of the Rust core to the call \<open>shortest_path\<close> makes of it.\<close>

definition core_path :: "native \<Rightarrow> rust_graph \<Rightarrow> asset_graph \<Rightarrow> nat \<Rightarrow> nat \<Rightarrow> (nat \<times> int list) option option" where
  "core_path nv rg g i j =
     rust_answers nv (rust_path rg (int (length (g_nodes g))) (fst (snd (native_graph g))) i j)"

text \<open>A right answer to it: a fewest-hop path of the integer graph.\<close>

definition path_answer_ok :: "asset_graph \<Rightarrow> nat \<Rightarrow> nat \<Rightarrow> (nat \<times> int list) option \<Rightarrow> bool" where
  "path_answer_ok g i j v \<longleftrightarrow>
     (\<exists>ks. map_option snd v = map_option (map int) ks \<and>
        fewest_hops (neighbours (indexed g)) (show_nat i) (show_nat j) (map_option (map show_nat) ks))"

lemma python_path_indexed:
  assumes "i < length (g_nodes g)"
  shows "\<exists>v. bind_res (shortest_path_python (indexed g) (show_nat i) (show_nat j)) (\<lambda>path.
      Inr (case path of None \<Rightarrow> None | Some p \<Rightarrow> Some (length p - 1, map node_number p))) = Inr v \<and> path_answer_ok g i j v"
proof -
  have "show_nat i \<in> set (node_ids (indexed g))" using assms by (simp add: indexed_ids)
  then obtain r where r: "shortest_path_python (indexed g) (show_nat i) (show_nat j) = Inr r"
      "fewest_hops (neighbours (indexed g)) (show_nat i) (show_nat j) r"
    using shortest_path_python_spec by blast
  obtain ks where ks: "r = map_option (map show_nat) ks"
  proof (cases r)
    case (Some p)
    then have "is_walk (neighbours (indexed g)) p" "hd p = show_nat i"
      using r(2) by (simp_all add: fewest_hops_def)
    then have "set p \<subseteq> set (node_ids (indexed g))"
      using walk_nodes [of "indexed g" p] assms by (simp add: indexed_ids)
    then have "\<exists>js. p = map show_nat js" by (auto simp: indexed_ids ex_map_conv)
    then obtain js where "p = map show_nat js" ..
    then show ?thesis using that [of "Some js"] Some by simp
  qed (use that [of None] in simp)
  have "path_answer_ok g i j (map_option (\<lambda>js. (length js - 1, map int js)) ks)"
    using r(2) unfolding path_answer_ok_def ks by (intro exI [of _ ks]) (cases ks; simp)
  then show ?thesis by (cases ks) (auto simp: r(1) ks comp_def)
qed

text \<open>What \<open>shortest_path\<close> makes of an answer, the core's or the fallback's.\<close>

lemma shortest_path_serves:
  assumes ok: "graph_ok g" and ij: "i < length (g_nodes g)" "j < length (g_nodes g)"
  shows "\<exists>v g'. shortest_path nv rg g (node_name g i) (node_name g j) =
       Inr (map_option (\<lambda>hp. names_of (index_of g) (snd hp)) v, g') \<and>
     (case core_path nv rg g i j of Some w \<Rightarrow> v = w | None \<Rightarrow> path_answer_ok g i j v)"
proof -
  let ?n = "int (length (g_nodes g))" and ?es = "fst (snd (native_graph g))"
  define fb where "fb = bind_res (shortest_path_python (indexed g) (show_nat i) (show_nat j)) (\<lambda>path.
      Inr (case path of None \<Rightarrow> None | Some p \<Rightarrow> Some (length p - 1, map node_number p)))"
  obtain u where u: "fb = Inr u" "path_answer_ok g i j u" using python_path_indexed [OF ij(1)] unfolding fb_def by blast
  have "''graph_shortest_path'' \<in> set GRAPH_CAPABILITIES" by (simp add: GRAPH_CAPABILITIES_def)
  from graph_dispatch_value [OF this, of nv "rust_path rg ?n ?es i j" fb] obtain out where
    out: "graph_shortest_path nv rg ?n ?es i j None = Inr out"
    "graph_value out = (case core_path nv rg g i j of Some v \<Rightarrow> Some v | None \<Rightarrow> Some u)"
    unfolding graph_shortest_path_def fb_def [unfolded indexed_def, symmetric] core_path_def u(1) sum.case by blast
  define v where "v = (case core_path nv rg g i j of Some w \<Rightarrow> w | None \<Rightarrow> u)"
  have v: "graph_value out = Some v" using out(2) by (simp add: v_def split: option.splits)
  have ng: "native_graph g = (?n, ?es, index_of g)"
    by (simp add: prod_eq_iff native_graph_count native_graph_ids)
  have idx: "dict_get (index_of g) (node_name g i) = Some i" "dict_get (index_of g) (node_name g j) = Some j"
    using ij by (simp_all add: index_name [OF ok])
  have "shortest_path nv rg g (node_name g i) (node_name g j) = Inr (map_option (\<lambda>hp. names_of (index_of g) (snd hp)) v,
      last_engine ''shortest_path'' (graph_engine out) (graph_reason out) g)"
    unfolding shortest_path_def using node_name_in [OF ij(1)] node_name_in [OF ij(2)]
    by (subst ng) (cases v; simp add: idx out(1) v Let_def case_prod_unfold)
  moreover have "case core_path nv rg g i j of Some w \<Rightarrow> v = w | None \<Rightarrow> path_answer_ok g i j v"
    using u(2) by (simp add: v_def split: option.splits)
  ultimately show ?thesis by blast
qed

text \<open>A right answer over the indices is a right answer over the assets.\<close>

lemma path_answer_names:
  assumes "graph_ok g" "i < length (g_nodes g)" "j < length (g_nodes g)" "path_answer_ok g i j v"
  shows "fewest_hops (neighbours g) (node_name g i) (node_name g j) (map_option (\<lambda>hp. names_of (index_of g) (snd hp)) v)"
proof -
  obtain ks where ks: "map_option snd v = map_option (map int) ks"
    "fewest_hops (neighbours (indexed g)) (show_nat i) (show_nat j) (map_option (map show_nat) ks)"
    using assms(4) unfolding path_answer_ok_def by blast
  note f = fewest_hops_indexed [OF assms(1-3) ks(2)]
  have "map_option (\<lambda>hp. names_of (index_of g) (snd hp)) v = map_option (names_of (index_of g)) (map_option snd v)"
    by (simp add: option.map_comp comp_def)
  also have "\<dots> = map_option (map (node_name g)) ks"
    using f by (cases ks) (auto simp: ks(1) names_of_ints [OF assms(1)])
  finally show ?thesis using f by simp
qed


definition sample_graph :: asset_graph where
  "sample_graph = add_edge ''b'' ''c'' (add_edge ''a'' ''b'' empty_graph)"

lemma sample_graph_ok: "graph_ok sample_graph"
  unfolding sample_graph_def by (intro graph_ok_add_edge graph_ok_empty)

text \<open>A host whose Rust core answers the calls the sample makes.\<close>

definition rust_host :: native where
  "rust_host = no_cores\<lparr>rust_available := True\<rparr>"

definition sample_rust :: rust_graph where
  "sample_rust = no_rust_graph\<lparr>rust_degree := (\<lambda>n _. Inr [(1, 1), (0, 1/2), (2, 1/2)]),
     rust_components := (\<lambda>_ _. Inr [[2, 0, 1]]), rust_path := (\<lambda>_ _ _ _. Inr (Some (2, [0, 1, 2])))\<rparr>"

lemma sample_path: "path_answer_ok sample_graph 0 2 (Some (2, [0, 1, 2]))"
proof -
  let ?nb = "neighbours (indexed sample_graph)"
  have nb: "?nb ''0'' = [''1'']" "?nb ''1'' = [''0'', ''2'']" and num: "map show_nat [0, 1, 2] = [''0'', ''1'', ''2'']"
    by code_simp+
  have "3 \<le> length ys" if "is_walk ?nb ys" "hd ys = ''0''" "last ys = ''2''" for ys
    using that nb by (cases ys rule: remdups_adj.cases) (auto simp: Suc_le_eq)
  then have "fewest_hops ?nb (show_nat 0) (show_nat 2) (Some (map show_nat [0, 1, 2]))"
    unfolding fewest_hops_def num using num by (simp add: nb) (metis numeral_3_eq_3)
  then show ?thesis unfolding path_answer_ok_def by (intro exI [of _ "Some [0, 1, 2]"]) simp
qed


text \<open>
  The bridge answers None for a call of the library that fails, which reads as an unreachable asset: the fallback
  is not asked and two connected assets are reported as not connected.
\<close>
theorem failed_path_call_hides_path:
  "\<exists>g'. shortest_path rust_host (no_rust_graph\<lparr>rust_path := (\<lambda>_ _ _ _. Inr None)\<rparr>) sample_graph ''a'' ''c'' = Inr (None, g') \<and>
     \<not> fewest_hops (neighbours sample_graph) ''a'' ''c'' None"
proof -
  have "is_walk (neighbours sample_graph) [''a'', ''b'', ''c'']" by code_simp
  then have "\<not> fewest_hops (neighbours sample_graph) ''a'' ''c'' None"
    by (auto simp: fewest_hops_def intro: exI [of _ "[''a'', ''b'', ''c'']"])
  moreover have "fst (projr (shortest_path rust_host (no_rust_graph\<lparr>rust_path := (\<lambda>_ _ _ _. Inr None)\<rparr>) sample_graph ''a'' ''c'')) = None \<and>
      \<not> isl (shortest_path rust_host (no_rust_graph\<lparr>rust_path := (\<lambda>_ _ _ _. Inr None)\<rparr>) sample_graph ''a'' ''c'')"
    by code_simp
  ultimately show ?thesis by (metis prod.collapse sum.collapse(2))
qed

section \<open>Degree centrality\<close>

definition degree_score :: "asset_graph \<Rightarrow> string \<Rightarrow> float" where
  "degree_score g x = fdiv (of_nat (length (neighbours g x))) (of_int (max 1 (int (length (g_nodes g)) - 1)))"

lemma degree_python_eq:
  "degree_python g = rank (map (\<lambda>nid. (nid, round_digits 3 (degree_score g nid))) (node_ids g))"
  by (simp add: degree_python_def degree_score_def Let_def)

lemma mset_concat_map: "mset (concat (map f xs)) = (\<Sum>x\<in>#mset xs. mset (f x))"
  by (induction xs) simp_all

lemma rank_cong:
  assumes "mset xs = mset ys" and "distinct (map fst xs)"
  shows "rank xs = rank ys"
  unfolding rank_def
proof (rule sort_key_inj_key_eq)
  let ?f = "\<lambda>(nid :: string, score :: float). (- score, nid)"
  show "mset xs = mset (sort_key ?f ys)" using assms(1) by simp
  show "inj_on ?f (set xs)"
    using assms(2) by (auto simp: inj_on_def distinct_map)
qed simp

lemma degree_score_unit:
  assumes "graph_ok g" "x \<in> set (node_ids g)"
  shows "0 \<le> degree_score g x \<and> degree_score g x \<le> 1"
proof -
  let ?n = "length (g_nodes g)"
  have sub: "set (neighbours g x) \<subseteq> set (node_ids g) - {x}" by (auto simp: set_neighbours)
  have "distinct (node_ids g)" using assms(1) by (simp add: graph_ok_def dict_ok_def node_ids_def)
  then have "card (set (node_ids g) - {x}) = ?n - 1"
    using assms(2) by (simp add: distinct_card node_count)
  then have "length (neighbours g x) \<le> ?n - 1"
    using card_mono [OF _ sub] distinct_neighbours [OF assms(1), of x] by (simp add: distinct_card)
  then have "int (length (neighbours g x)) \<le> max 1 (int ?n - 1)" by linarith
  then have "(of_int (int (length (neighbours g x))) :: rat) \<le> of_int (max 1 (int ?n - 1))"
    by (simp only: of_int_le_iff)
  moreover have "(0 :: rat) < of_int (max 1 (int ?n - 1))" by simp
  ultimately have "0 \<le> (of_nat (length (neighbours g x)) :: rat) / of_int (max 1 (int ?n - 1))"
    "(of_nat (length (neighbours g x)) :: rat) / of_int (max 1 (int ?n - 1)) \<le> 1"
    by (simp_all add: divide_le_eq)
  then show ?thesis unfolding degree_score_def fdiv_def by (simp add: fl_nonneg fl_le_1)
qed

lemma degree_score_indexed:
  assumes "graph_ok g" "i < length (g_nodes g)"
  shows "degree_score (indexed g) (show_nat i) = degree_score g (node_name g i)"
proof -
  let ?J = "{j. j < length (g_nodes g) \<and> node_name g j \<in> set (neighbours g (node_name g i))}"
  have "set (neighbours (indexed g) (show_nat i)) = show_nat ` ?J"
    by (auto simp: indexed_neighbours [OF assms])
  moreover have "set (neighbours g (node_name g i)) = node_name g ` ?J"
    using node_name_ex [of _ g] by (auto simp: set_neighbours)
  moreover have "inj_on (node_name g) ?J" using node_name_inj [OF assms(1)] by (auto simp: inj_on_def)
  moreover have "inj_on show_nat ?J" by (auto simp: inj_on_def)
  ultimately have "card (set (neighbours (indexed g) (show_nat i))) = card (set (neighbours g (node_name g i)))"
    by (metis card_image)
  then have "length (neighbours (indexed g) (show_nat i)) = length (neighbours g (node_name g i))"
    using distinct_neighbours [OF indexed_ok] distinct_neighbours [OF assms(1)] by (simp add: distinct_card)
  moreover have "length (g_nodes (indexed g)) = length (g_nodes g)"
    by (simp add: indexed_ids flip: node_count)
  ultimately show ?thesis by (simp add: degree_score_def)
qed

text \<open>
  The ranking \<open>degree_centrality\<close> serves: the scores of the Rust core when it answers one for every node, the
  degree scores otherwise.
\<close>

definition core_degree :: "native \<Rightarrow> rust_graph \<Rightarrow> asset_graph \<Rightarrow> (int \<times> float) list option" where
  "core_degree nv rg g = rust_answers nv (rust_degree rg (int (length (g_nodes g))) (fst (snd (native_graph g))))"

definition named_scores :: "asset_graph \<Rightarrow> (int \<times> float) list \<Rightarrow> (string \<times> float) list" where
  "named_scores g v = concat (map (\<lambda>(i, score). case dict_get (reverse_index (index_of g)) i of
      None \<Rightarrow> [] | Some nid \<Rightarrow> [(nid, round_digits 3 score)]) v)"

definition served_degree :: "native \<Rightarrow> rust_graph \<Rightarrow> asset_graph \<Rightarrow> (string \<times> float) list" where
  "served_degree nv rg g =
     (case core_degree nv rg g of
        Some v \<Rightarrow> if length v = length (g_nodes g) then rank (named_scores g v) else degree_python g
      | None \<Rightarrow> degree_python g)"

text \<open>What the outer call does with scores of the node indices, rounded already or not.\<close>

lemma degree_pairs:
  assumes "graph_ok g"
    and "mset v = mset (map (\<lambda>i. (int i, h (degree_score g (node_name g i)))) [0..<length (g_nodes g)])"
    and h: "\<And>x. 0 \<le> x \<Longrightarrow> x \<le> 1 \<Longrightarrow> round_digits 3 (h x) = round_digits 3 x"
  shows "rank (named_scores g v) = degree_python g"
proof -
  let ?f = "\<lambda>(i, score). case dict_get (reverse_index (index_of g)) i of
      None \<Rightarrow> [] | Some nid \<Rightarrow> [(nid, round_digits 3 score)]"
  let ?u = "map (\<lambda>i. (int i, h (degree_score g (node_name g i)))) [0..<length (g_nodes g)]"
  let ?w = "map (\<lambda>nid. (nid, round_digits 3 (degree_score g nid))) (node_ids g)"
  have "concat (map ?f (map (\<lambda>i. (int i, h (degree_score g (node_name g i)))) is)) =
      map (\<lambda>i. (node_name g i, round_digits 3 (degree_score g (node_name g i)))) is"
    if "set is \<subseteq> {..<length (g_nodes g)}" for "is"
    using that degree_score_unit [OF assms(1) node_name_in]
    by (induction "is") (auto simp: reverse_get [OF assms(1)] h)
  from this [of "[0..<length (g_nodes g)]"]
  have "concat (map ?f ?u) = map (\<lambda>i. (node_name g i, round_digits 3 (degree_score g (node_name g i)))) [0..<length (g_nodes g)]"
    by (simp add: atLeast0LessThan)
  also have "\<dots> = ?w"
    by (rule nth_equalityI) (simp_all add: node_count node_name_def)
  finally have u: "concat (map ?f ?u) = ?w" .
  have "mset (concat (map ?f v)) = mset (concat (map ?f ?u))"
    by (simp only: mset_concat_map assms(2))
  then have "mset ?w = mset (concat (map ?f v))" by (simp only: u)
  moreover have "distinct (map fst ?w)"
    using assms(1) by (simp add: comp_def graph_ok_def dict_ok_def node_ids_def)
  ultimately have "rank ?w = rank (concat (map ?f v))" by (rule rank_cong)
  then show ?thesis by (simp add: degree_python_eq named_scores_def)
qed

lemma degree_python_numbers:
  assumes "graph_ok g"
  shows "mset (map (\<lambda>(nid, score). (node_number nid, score)) (degree_python (indexed g))) =
    mset (map (\<lambda>i. (int i, round_digits 3 (degree_score g (node_name g i)))) [0..<length (g_nodes g)])"
proof -
  let ?n = "length (g_nodes g)" and ?num = "\<lambda>(nid, score). (node_number nid, score)"
  let ?ps = "map (\<lambda>i. (show_nat i, round_digits 3 (degree_score (indexed g) (show_nat i)))) [0..<?n]"
  have "mset (degree_python (indexed g)) = mset ?ps"
    by (simp add: degree_python_eq rank_def indexed_ids comp_def)
  then have "mset (map ?num (degree_python (indexed g))) = mset (map ?num ?ps)"
    by (simp only: mset_map)
  also have "map ?num ?ps = map (\<lambda>i. (int i, round_digits 3 (degree_score g (node_name g i)))) [0..<?n]"
    by (simp add: degree_score_indexed [OF assms])
  finally show ?thesis .
qed

lemma graph_degree_value:
  assumes ok: "graph_ok g" and inner: "core_degree nv rg g = None \<Longrightarrow>
      (\<exists>e. inner (indexed g) = Inl e) \<or> inner (indexed g) = Inr (degree_python (indexed g))"
  shows "\<exists>out. graph_degree_with nv rg inner (int (length (g_nodes g))) (fst (snd (native_graph g))) None = Inr out \<and>
    (case core_degree nv rg g of
       Some v \<Rightarrow> graph_value out = Some v
     | None \<Rightarrow> graph_value out = None \<or>
         graph_value out = Some (map (\<lambda>(nid, score). (node_number nid, score)) (degree_python (indexed g))))"
proof -
  let ?n = "length (g_nodes g)" and ?es = "fst (snd (native_graph g))"
  define fb where "fb = bind_res (inner (indexed g)) (\<lambda>ranked. Inr (map (\<lambda>(nid, score). (node_number nid, score)) ranked))"
  have "''graph_degree'' \<in> set GRAPH_CAPABILITIES" by (simp add: GRAPH_CAPABILITIES_def)
  from graph_dispatch_value [OF this, of nv "rust_degree rg (int ?n) ?es" fb] obtain out where
    out: "graph_degree_with nv rg inner (int ?n) ?es None = Inr out"
    "graph_value out = (case core_degree nv rg g of Some v \<Rightarrow> Some v
       | None \<Rightarrow> (case fb of Inl e \<Rightarrow> None | Inr v \<Rightarrow> Some v))"
    unfolding graph_degree_with_def fb_def indexed_def core_degree_def by blast
  show ?thesis
  proof (cases "core_degree nv rg g")
    case None
    then show ?thesis using out inner by (auto simp: fb_def)
  next
    case (Some v)
    then show ?thesis using out by simp
  qed
qed

lemma degree_with_serves:
  assumes ok: "graph_ok g" and inner: "core_degree nv rg g = None \<Longrightarrow>
      (\<exists>e. inner (indexed g) = Inl e) \<or> inner (indexed g) = Inr (degree_python (indexed g))"
  shows "\<exists>g'. degree_with nv rg inner g = Inr (served_degree nv rg g, g')"
proof (cases "g_nodes g = []")
  case True
  then have "served_degree nv rg g = []"
    by (auto simp: served_degree_def degree_python_def rank_def node_ids_def named_scores_def split: option.splits)
  then show ?thesis using True by (simp add: degree_with_def)
next
  case False
  let ?n = "int (length (g_nodes g))" and ?es = "fst (snd (native_graph g))"
  have ng: "native_graph g = (?n, ?es, index_of g)"
    by (simp add: prod_eq_iff native_graph_count native_graph_ids)
  obtain out where out: "graph_degree_with nv rg inner ?n ?es None = Inr out"
    and vals: "case core_degree nv rg g of
       Some v \<Rightarrow> graph_value out = Some v
     | None \<Rightarrow> graph_value out = None \<or>
         graph_value out = Some (map (\<lambda>(nid, score). (node_number nid, score)) (degree_python (indexed g)))"
    using graph_degree_value [OF ok, where nv = nv and rg = rg and inner = inner] inner by blast
  have served: "\<exists>g'. degree_with nv rg inner g = Inr (case graph_value out of
      Some v \<Rightarrow> if int (length v) = ?n then rank (named_scores g v) else degree_python g | None \<Rightarrow> degree_python g, g')"
    using False by (subst degree_with_def, subst ng) (auto simp: out Let_def named_scores_def split: option.splits)
  show ?thesis
  proof (cases "core_degree nv rg g")
    case (Some v)
    then show ?thesis using served vals by (simp add: served_degree_def)
  next
    case None
    let ?v = "map (\<lambda>(nid, score). (node_number nid, score)) (degree_python (indexed g))"
    have "round_digits 3 (round_digits 3 x) = round_digits 3 x" if "0 \<le> x" "x \<le> 1" for x
      using round_digits_idem [OF that, of 3] by simp
    then have "rank (named_scores g ?v) = degree_python g"
      by (rule degree_pairs [OF ok degree_python_numbers [OF ok]])
    then show ?thesis using served vals None by (auto simp: served_degree_def)
  qed
qed

text \<open>
  Degree centrality ends at every nesting depth with the same ranking: that of the Rust core when it answers a score
  for every node, otherwise every node once with its rounded degree score, best first, ties by name.
\<close>
theorem degree_centrality_served:
  assumes "graph_ok g"
  shows "\<exists>g'. degree_centrality nv rg depth g = Inr (served_degree nv rg g, g')"
  using assms
proof (induction depth arbitrary: g)
  case 0
  then show ?case using degree_with_serves [of g nv rg "\<lambda>_. Inl RecursionError"] by simp
next
  case (Suc depth)
  obtain h where h: "degree_centrality nv rg depth (indexed g) = Inr (served_degree nv rg (indexed g), h)"
    using Suc.IH [OF indexed_ok] by blast
  have "length (g_nodes (indexed g)) = length (g_nodes g)" by (simp add: indexed_ids flip: node_count)
  then have "core_degree nv rg (indexed g) = core_degree nv rg g"
    by (simp add: core_degree_def native_indexed [OF Suc.prems])
  then have "bind_res (degree_centrality nv rg depth (indexed g)) (\<lambda>r. Inr (fst r)) = Inr (degree_python (indexed g))"
    if "core_degree nv rg g = None" using that by (simp add: h served_degree_def)
  then show ?case
    using degree_with_serves [OF Suc.prems, of nv rg "\<lambda>h. bind_res (degree_centrality nv rg depth h) (\<lambda>r. Inr (fst r))"]
    by simp
qed

theorem degree_centrality_served_witness:
  "\<exists>g'. degree_centrality rust_host sample_rust 5 sample_graph = Inr (served_degree rust_host sample_rust sample_graph, g')"
  by (rule degree_centrality_served [OF sample_graph_ok])

end
