(* ===== verification/GraphParts.thy ===== *)
theory GraphParts
  imports GraphFacts
begin

text \<open>The connected components of the asset graph, on every backend and whatever the Rust core answers.\<close>

abbreviation reach_of :: "asset_graph \<Rightarrow> (string \<times> string) set" where
  "reach_of g \<equiv> (edge_rel (neighbours g))\<^sup>*"

text \<open>The classes of connected nodes: each once, sorted by name, largest first, ties by first name.\<close>

definition is_partition :: "('a \<Rightarrow> 'a list) \<Rightarrow> 'a set \<Rightarrow> 'a list list \<Rightarrow> bool" where
  "is_partition nbrs V cs \<longleftrightarrow>
     set (map set cs) = (\<lambda>x. (edge_rel nbrs)\<^sup>* `` {x}) ` V \<and> distinct (map set cs) \<and> (\<forall>c\<in>set cs. distinct c)"

definition components_spec :: "asset_graph \<Rightarrow> string list list \<Rightarrow> bool" where
  "components_spec g cs \<longleftrightarrow> is_partition (neighbours g) (set (node_ids g)) cs \<and>
     (\<forall>c\<in>set cs. sorted c) \<and> sorted (map (\<lambda>c. (- int (length c), hd c)) cs)"

lemma is_partition_perm:
  assumes "is_partition nbrs V cs"
  shows "is_partition nbrs V (sort_key f (map sort cs))"
proof -
  have sets: "map set (map sort cs) = map set cs" by simp
  have "mset (map set (sort_key f (map sort cs))) = mset (map set cs)"
    by (metis mset_map mset_sort sets)
  then have "set (map set (sort_key f (map sort cs))) = set (map set cs)"
    "distinct (map set (sort_key f (map sort cs))) = distinct (map set cs)"
    using mset_eq_setD mset_eq_imp_distinct_iff by blast+
  moreover have "\<forall>c\<in>set (sort_key f (map sort cs)). distinct c"
    using assms by (auto simp: is_partition_def)
  ultimately show ?thesis using assms unfolding is_partition_def by simp
qed

lemma components_spec_by_size:
  "is_partition (neighbours g) (set (node_ids g)) cs \<Longrightarrow> components_spec g (by_size (map sort cs))"
  unfolding components_spec_def by_size_def
  by (auto simp: is_partition_perm)

lemma components_python_spec:
  assumes "graph_ok g"
  shows "\<exists>cs. components_python g = Inr cs \<and> components_spec g cs"
proof -
  have sym: "x \<in> set (neighbours g y)" if "y \<in> set (neighbours g x)" for x y
    using neighbours_sym [OF assms that] .
  obtain groups where g: "flood_all (neighbours g) [] (node_ids g) = Some groups"
    "\<forall>c\<in>set groups. distinct c \<and> (\<exists>x\<in>set (node_ids g) - set []. set c = reach_of g `` {x})"
    "set (node_ids g) \<subseteq> set [] \<union> (\<Union>c\<in>set groups. set c)" "distinct (map set groups)"
    using asset_search.flood_all_spec [of g "node_ids g" "[]"] sym by auto
  have symr: "sym (edge_rel (neighbours g))" using sym by (auto simp: sym_def edge_rel_def)
  have "reach_of g `` {x} \<in> set (map set groups)" if x: "x \<in> set (node_ids g)" for x
  proof -
    obtain c where c0: "c \<in> set groups" "x \<in> set c" using g(3) x by auto
    then obtain y where c: "c \<in> set groups" "x \<in> set c" "set c = reach_of g `` {y}" using g(2) by blast
    then have "(y, x) \<in> reach_of g" "(x, y) \<in> reach_of g"
      using symD [OF sym_rtrancl [OF symr]] by auto
    then have "reach_of g `` {x} = reach_of g `` {y}" by (auto intro: rtrancl_trans)
    then show ?thesis using c by auto
  qed
  then have "set (map set groups) = (\<lambda>x. reach_of g `` {x}) ` set (node_ids g)" using g(2) by auto
  then have "is_partition (neighbours g) (set (node_ids g)) groups"
    using g(2,4) by (simp add: is_partition_def)
  then show ?thesis using g(1) components_spec_by_size by (auto simp: components_python_def)
qed

text \<open>Reachability in the integer form.\<close>

lemma reach_nodes: "(x, y) \<in> reach_of g \<Longrightarrow> x \<in> set (node_ids g) \<Longrightarrow> y \<in> set (node_ids g)"
  by (induction rule: rtrancl_induct) (auto simp: edge_rel_def set_neighbours)

lemma reach_indexed:
  assumes ok: "graph_ok g" and ij: "i < length (g_nodes g)" "j < length (g_nodes g)"
  shows "(show_nat i, show_nat j) \<in> reach_of (indexed g) \<longleftrightarrow> (node_name g i, node_name g j) \<in> reach_of g"
proof
  have fwd: "\<exists>k<length (g_nodes g). y = show_nat k \<and> (node_name g i, node_name g k) \<in> reach_of g"
    if "(show_nat i, y) \<in> reach_of (indexed g)" for y
    using that
  proof (induction rule: rtrancl_induct)
    case base
    then show ?case using ij(1) by auto
  next
    case (step y z)
    then obtain k where k: "k < length (g_nodes g)" "y = show_nat k" "(node_name g i, node_name g k) \<in> reach_of g"
      by blast
    then obtain l where "l < length (g_nodes g)" "z = show_nat l" "node_name g l \<in> set (neighbours g (node_name g k))"
      using step.hyps(2) by (auto simp: edge_rel_def indexed_neighbours [OF ok])
    then show ?case using k(3) by (auto simp: edge_rel_def intro: rtrancl_into_rtrancl)
  qed
  assume "(show_nat i, show_nat j) \<in> reach_of (indexed g)"
  from fwd [OF this] show "(node_name g i, node_name g j) \<in> reach_of g" by auto
next
  have bwd: "\<exists>k<length (g_nodes g). y = node_name g k \<and> (show_nat i, show_nat k) \<in> reach_of (indexed g)"
    if "(node_name g i, y) \<in> reach_of g" for y
    using that
  proof (induction rule: rtrancl_induct)
    case base
    then show ?case using ij(1) by auto
  next
    case (step y z)
    then obtain k where k: "k < length (g_nodes g)" "y = node_name g k" "(show_nat i, show_nat k) \<in> reach_of (indexed g)"
      by blast
    have "z \<in> set (node_ids g)" using step.hyps(2) by (simp add: edge_rel_def set_neighbours)
    then obtain l where l: "l < length (g_nodes g)" "z = node_name g l" using node_name_ex [of z g] by auto
    then have "show_nat l \<in> set (neighbours (indexed g) (show_nat k))"
      using step.hyps(2) k by (auto simp: edge_rel_def indexed_neighbours [OF ok])
    then show ?case using k(3) l by (auto simp: edge_rel_def intro: rtrancl_into_rtrancl)
  qed
  assume "(node_name g i, node_name g j) \<in> reach_of g"
  from bwd [OF this] obtain k where "k < length (g_nodes g)" "node_name g j = node_name g k"
    "(show_nat i, show_nat k) \<in> reach_of (indexed g)" by blast
  then show "(show_nat i, show_nat j) \<in> reach_of (indexed g)" using node_name_inj [OF ok ij(2)] by simp
qed

text \<open>A partition of the integer form, renamed, is a partition of the graph.\<close>

lemma class_indexed:
  assumes ok: "graph_ok g" and i: "i < length (g_nodes g)"
    and "show_nat ` K = reach_of (indexed g) `` {show_nat i}"
  shows "K \<subseteq> {..<length (g_nodes g)} \<and> node_name g ` K = reach_of g `` {node_name g i}"
proof
  show K: "K \<subseteq> {..<length (g_nodes g)}"
  proof
    fix k assume "k \<in> K"
    then have "(show_nat i, show_nat k) \<in> reach_of (indexed g)" using assms(3) by auto
    then have "show_nat k \<in> set (node_ids (indexed g))"
      using reach_nodes [of "show_nat i" "show_nat k" "indexed g"] i by (auto simp: indexed_ids)
    then show "k \<in> {..<length (g_nodes g)}" by (auto simp: indexed_ids)
  qed
  have in_K: "k \<in> K \<longleftrightarrow> (show_nat i, show_nat k) \<in> reach_of (indexed g)" for k
    using assms(3) by (metis Image_singleton_iff image_iff show_nat_inject)
  show "node_name g ` K = reach_of g `` {node_name g i}"
  proof (intro set_eqI iffI)
    fix y assume "y \<in> node_name g ` K"
    then show "y \<in> reach_of g `` {node_name g i}" using K in_K reach_indexed [OF ok i] by auto
  next
    fix y assume y: "y \<in> reach_of g `` {node_name g i}"
    then have "y \<in> set (node_ids g)" using reach_nodes [of "node_name g i" y g] node_name_in [OF i] by simp
    then obtain k where "k < length (g_nodes g)" "y = node_name g k" using node_name_ex [of y g] by auto
    then show "y \<in> node_name g ` K" using y in_K reach_indexed [OF ok i, of k] by auto
  qed
qed

lemma partition_indexed:
  assumes ok: "graph_ok g"
    and p: "is_partition (neighbours (indexed g)) (set (node_ids (indexed g))) (map (map show_nat) ks)"
  shows "is_partition (neighbours g) (set (node_ids g)) (map (map (node_name g)) ks) \<and>
     (\<forall>k\<in>set ks. set k \<subseteq> {..<length (g_nodes g)})"
proof -
  let ?n = "length (g_nodes g)"
  have sets: "(`) show_nat ` set ` set ks = (\<lambda>i. reach_of (indexed g) `` {show_nat i}) ` {..<?n}"
    using p by (simp add: is_partition_def indexed_ids image_image atLeast0LessThan)
  have cls: "\<exists>i<?n. set k \<subseteq> {..<?n} \<and> node_name g ` set k = reach_of g `` {node_name g i} \<and>
      show_nat ` set k = reach_of (indexed g) `` {show_nat i}" if "k \<in> set ks" for k
  proof -
    have "show_nat ` set k \<in> (\<lambda>i. reach_of (indexed g) `` {show_nat i}) ` {..<?n}"
      using that by (subst sets [symmetric]) auto
    then obtain i where "i < ?n" "show_nat ` set k = reach_of (indexed g) `` {show_nat i}" by auto
    then show ?thesis using class_indexed [OF ok, of i "set k"] by auto
  qed
  have sub: "\<forall>k\<in>set ks. set k \<subseteq> {..<?n}" using cls by blast
  have "reach_of g `` {x} \<in> (\<lambda>k. node_name g ` set k) ` set ks" if x: "x \<in> set (node_ids g)" for x
  proof -
    obtain i where i: "i < ?n" "x = node_name g i" using node_name_ex [OF x] by auto
    then have "reach_of (indexed g) `` {show_nat i} \<in> (`) show_nat ` set ` set ks"
      by (subst sets) auto
    then obtain k where k: "k \<in> set ks" "show_nat ` set k = reach_of (indexed g) `` {show_nat i}" by auto
    then have "node_name g ` set k = reach_of g `` {x}" using class_indexed [OF ok i(1), of "set k"] i(2) by auto
    then show ?thesis using k(1) by auto
  qed
  then have up: "(\<lambda>x. reach_of g `` {x}) ` set (node_ids g) \<subseteq> (\<lambda>k. node_name g ` set k) ` set ks" by blast
  have "node_name g ` set k \<in> (\<lambda>x. reach_of g `` {x}) ` set (node_ids g)" if k: "k \<in> set ks" for k
  proof -
    obtain i where "i < ?n" "node_name g ` set k = reach_of g `` {node_name g i}" using cls [OF k] by blast
    then show ?thesis using node_name_in by blast
  qed
  then have down: "(\<lambda>k. node_name g ` set k) ` set ks \<subseteq> (\<lambda>x. reach_of g `` {x}) ` set (node_ids g)" by blast
  have "set (map set (map (map (node_name g)) ks)) = (\<lambda>k. node_name g ` set k) ` set ks"
    by (simp only: set_map image_image)
  also have "\<dots> = (\<lambda>x. reach_of g `` {x}) ` set (node_ids g)" using up down by (rule equalityI [rotated])
  finally have "set (map set (map (map (node_name g)) ks)) = (\<lambda>x. reach_of g `` {x}) ` set (node_ids g)" .
  moreover have "distinct (map set (map (map (node_name g)) ks))"
  proof -
    have "distinct (map (\<lambda>k. show_nat ` set k) ks)" using p by (simp add: is_partition_def comp_def)
    then have "distinct ks" "inj_on (\<lambda>k. show_nat ` set k) (set ks)" by (simp_all add: distinct_map)
    moreover have "inj_on (\<lambda>k. node_name g ` set k) (set ks)"
    proof (rule inj_onI)
      fix k l assume *: "k \<in> set ks" "l \<in> set ks" "node_name g ` set k = node_name g ` set l"
      have "inj_on (node_name g) {..<?n}" using node_name_inj [OF ok] by (auto simp: inj_on_def)
      then have "set k = set l" using * sub inj_on_image_eq_iff by metis
      then have "show_nat ` set k = show_nat ` set l" by simp
      then show "k = l" using \<open>inj_on (\<lambda>k. show_nat ` set k) (set ks)\<close> * by (auto dest: inj_onD)
    qed
    ultimately show ?thesis by (simp add: distinct_map comp_def)
  qed
  moreover have "\<forall>c\<in>set (map (map (node_name g)) ks). distinct c"
  proof -
    have "distinct k" if "k \<in> set ks" for k using p that by (auto simp: is_partition_def distinct_map)
    moreover have "inj_on (node_name g) (set k)" if k: "k \<in> set ks" for k
    proof (rule inj_onI)
      fix a b assume "a \<in> set k" "b \<in> set k" "node_name g a = node_name g b"
      moreover from this have "a < ?n" "b < ?n" using sub k by auto
      ultimately show "a = b" using node_name_inj [OF ok] by simp
    qed
    ultimately show ?thesis by (simp add: distinct_map)
  qed
  ultimately show ?thesis using sub unfolding is_partition_def by blast
qed

text \<open>
  The answer of the Rust core to the call \<open>connected_components\<close> makes of it, which the empty graph does not
  make; and a right answer to it, a partition of the node indices into components.
\<close>

definition core_groups :: "native \<Rightarrow> rust_graph \<Rightarrow> asset_graph \<Rightarrow> int list list option" where
  "core_groups nv rg g =
     (if g_nodes g = [] then None
      else rust_answers nv (rust_components rg (int (length (g_nodes g))) (fst (snd (native_graph g)))))"

definition groups_answer_ok :: "asset_graph \<Rightarrow> int list list \<Rightarrow> bool" where
  "groups_answer_ok g v \<longleftrightarrow>
     (\<exists>ks. v = map (map int) ks \<and>
        is_partition (neighbours (indexed g)) (set (node_ids (indexed g))) (map (map show_nat) ks))"

lemma partition_as_indices:
  assumes "is_partition (neighbours (indexed g)) (set (node_ids (indexed g))) cs"
  shows "\<exists>ks. cs = map (map show_nat) ks"
proof -
  have "\<exists>k. c = map show_nat k" if "c \<in> set cs" for c
  proof -
    have "set c \<in> (\<lambda>x. reach_of (indexed g) `` {x}) ` set (node_ids (indexed g))"
      using assms that unfolding is_partition_def by (metis image_eqI list.set_map)
    then have "set c \<subseteq> set (node_ids (indexed g))" using reach_nodes by blast
    then have "\<forall>x\<in>set c. \<exists>i. x = show_nat i" by (auto simp: indexed_ids)
    then show ?thesis by (auto simp: ex_map_conv)
  qed
  then show ?thesis by (auto simp: ex_map_conv)
qed

text \<open>A right answer over the indices is, renamed, a right answer over the assets.\<close>

lemma named_components_spec:
  assumes ok: "graph_ok g" and v: "groups_answer_ok g v"
  shows "\<exists>cs. named_components (index_of g) v = Inr cs \<and> components_spec g cs"
proof -
  obtain ks where ks: "v = map (map int) ks"
    "is_partition (neighbours (indexed g)) (set (node_ids (indexed g))) (map (map show_nat) ks)"
    using v unfolding groups_answer_ok_def by blast
  note p = partition_indexed [OF ok ks(2)]
  have names: "map (\<lambda>group. sort (names_of (index_of g) group)) v = map sort (map (map (node_name g)) ks)"
    using p by (auto simp: ks(1) names_of_ints [OF ok])
  have "[] \<notin> set (map (map (node_name g)) ks)"
  proof
    assume "[] \<in> set (map (map (node_name g)) ks)"
    then have "{} \<in> set (map set (map (map (node_name g)) ks))" by force
    then show False using p by (auto simp: is_partition_def)
  qed
  then have "named_components (index_of g) v = Inr (by_size (map sort (map (map (node_name g)) ks)))"
    unfolding named_components_def names Let_def by (auto dest!: arg_cong [of _ _ set])
  then show ?thesis using p components_spec_by_size by blast
qed

text \<open>What one call makes of the answer of the core, or of the nested calls without one.\<close>

lemma graph_components_value:
  assumes ne: "g_nodes g \<noteq> []"
    and inner: "core_groups nv rg g = None \<Longrightarrow> (\<exists>e. inner (indexed g) = Inl e) \<or>
      (\<exists>cs. inner (indexed g) = Inr cs \<and> components_spec (indexed g) cs)"
  shows "\<exists>out. graph_components_with nv rg inner (int (length (g_nodes g))) (fst (snd (native_graph g))) None = Inr out \<and>
    (case core_groups nv rg g of
       Some v \<Rightarrow> graph_value out = Some v
     | None \<Rightarrow> graph_value out = None \<or> (\<exists>v. graph_value out = Some v \<and> groups_answer_ok g v))"
proof -
  let ?n = "int (length (g_nodes g))" and ?es = "fst (snd (native_graph g))"
  define fb where "fb = bind_res (inner (indexed g)) (\<lambda>groups. Inr (map (map node_number) groups))"
  have "''graph_components'' \<in> set GRAPH_CAPABILITIES" by (simp add: GRAPH_CAPABILITIES_def)
  from graph_dispatch_value [OF this, of nv "rust_components rg ?n ?es" fb] obtain out where
    out: "graph_components_with nv rg inner ?n ?es None = Inr out"
    "graph_value out = (case core_groups nv rg g of Some v \<Rightarrow> Some v
       | None \<Rightarrow> (case fb of Inl e \<Rightarrow> None | Inr v \<Rightarrow> Some v))"
    using ne unfolding graph_components_with_def fb_def indexed_def core_groups_def by auto
  show ?thesis
  proof (cases "core_groups nv rg g")
    case (Some v)
    then show ?thesis using out by simp
  next
    case None
    have "\<exists>v. graph_value out = Some v \<and> groups_answer_ok g v"
      if cs: "inner (indexed g) = Inr cs" "components_spec (indexed g) cs" for cs
    proof -
      have p: "is_partition (neighbours (indexed g)) (set (node_ids (indexed g))) cs"
        using cs(2) by (simp add: components_spec_def)
      then obtain ks where ks: "cs = map (map show_nat) ks" using partition_as_indices by blast
      have "graph_value out = Some (map (map int) ks)"
        by (simp add: out(2) None fb_def cs(1) ks comp_def)
      then show ?thesis using p unfolding groups_answer_ok_def ks by blast
    qed
    then show ?thesis using inner [OF None] out None by (auto simp: fb_def)
  qed
qed

lemma components_with_spec:
  assumes ok: "graph_ok g" and inner: "core_groups nv rg g = None \<Longrightarrow> (\<exists>e. inner (indexed g) = Inl e) \<or>
      (\<exists>cs. inner (indexed g) = Inr cs \<and> components_spec (indexed g) cs)"
  shows "\<exists>r. map_sum id fst (components_with nv rg inner g) = r \<and>
     (if core_groups nv rg g \<in> {None, Some []} then \<exists>cs. r = Inr cs \<and> components_spec g cs
      else r = named_components (index_of g) (the (core_groups nv rg g)))"
proof (cases "g_nodes g = []")
  case True
  then show ?thesis
    by (simp add: components_with_def core_groups_def components_spec_def is_partition_def node_ids_def)
next
  case False
  have ng: "native_graph g = (int (length (g_nodes g)), fst (snd (native_graph g)), index_of g)"
    by (simp add: prod_eq_iff native_graph_count native_graph_ids)
  obtain out where out: "graph_components_with nv rg inner (int (length (g_nodes g))) (fst (snd (native_graph g))) None = Inr out"
    and vals: "case core_groups nv rg g of
       Some v \<Rightarrow> graph_value out = Some v
     | None \<Rightarrow> graph_value out = None \<or> (\<exists>v. graph_value out = Some v \<and> groups_answer_ok g v)"
    using graph_components_value [OF False, of nv rg inner] inner by blast
  obtain cs where py: "components_python g = Inr cs" "components_spec g cs"
    using components_python_spec [OF ok] by blast
  have eq: "map_sum id fst (components_with nv rg inner g) =
      (if graph_value out \<in> {None, Some []} then Inr cs else named_components (index_of g) (the (graph_value out)))"
    using False by (subst components_with_def, subst ng)
      (auto simp: out py(1) Let_def sum.map_comp comp_def map_sum.id [unfolded id_def] id_def split: option.splits list.splits)
  show ?thesis
  proof (cases "core_groups nv rg g")
    case (Some v)
    then show ?thesis using vals eq py(2) by auto
  next
    case None
    then show ?thesis using vals eq py(2) named_components_spec [OF ok] by (auto split: if_splits)
  qed
qed



end
