(* ===== verification/Betweenness.thy ===== *)
theory Betweenness
  imports GraphFacts
begin

text \<open>
  Betweenness centrality: Brandes' algorithm as \<open>AssetGraph\<close> runs it, in float arithmetic, and
  its dispatch over the native cores.
\<close>

section \<open>One source\<close>

record brandes =
  bs_stack :: "string list"
  bs_preds :: "(string, string list) dict"
  bs_sigma :: "(string, float) dict"
  bs_dist :: "(string, int) dict"
  bs_queue :: "string list"

text \<open>\<open>d[k]\<close> on the dictionaries of the algorithm, whose keys are all the nodes.\<close>

definition dict_at :: "('k, 'v) dict \<Rightarrow> 'k \<Rightarrow> 'v" where
  "dict_at d k = the (dict_get d k)"

definition all_nodes :: "asset_graph \<Rightarrow> 'v \<Rightarrow> (string, 'v) dict" where
  "all_nodes g v = map (\<lambda>nid. (nid, v)) (node_ids g)"

definition brandes_init :: "asset_graph \<Rightarrow> string \<Rightarrow> brandes" where
  "brandes_init g source =
     \<lparr>bs_stack = [], bs_preds = all_nodes g [], bs_sigma = dict_set source 1 (all_nodes g 0),
      bs_dist = dict_set source 0 (all_nodes g (- 1)), bs_queue = [source]\<rparr>"

definition discover :: "string \<Rightarrow> brandes \<Rightarrow> string \<Rightarrow> brandes" where
  "discover v st w =
     (if dict_at (bs_dist st) w < 0
      then st\<lparr>bs_dist := dict_set w (dict_at (bs_dist st) v + 1) (bs_dist st), bs_queue := bs_queue st @ [w]\<rparr>
      else st)"

definition count_path :: "string \<Rightarrow> brandes \<Rightarrow> string \<Rightarrow> brandes" where
  "count_path v st w =
     (if dict_at (bs_dist st) w = dict_at (bs_dist st) v + 1
      then st\<lparr>bs_sigma := dict_set w (fadd (dict_at (bs_sigma st) w) (dict_at (bs_sigma st) v)) (bs_sigma st),
              bs_preds := dict_set w (dict_at (bs_preds st) w @ [v]) (bs_preds st)\<rparr>
      else st)"

definition relax :: "string \<Rightarrow> brandes \<Rightarrow> string \<Rightarrow> brandes" where
  "relax v st w = count_path v (discover v st w) w"

partial_function (option) forward :: "(string \<Rightarrow> string list) \<Rightarrow> brandes \<Rightarrow> brandes option" where
  "forward nbrs st =
     (case bs_queue st of
        [] \<Rightarrow> Some st
      | v # q \<Rightarrow> forward nbrs (foldl (relax v) (st\<lparr>bs_queue := q, bs_stack := bs_stack st @ [v]\<rparr>) (nbrs v)))"

definition push_delta :: "brandes \<Rightarrow> string \<Rightarrow> (string, float) dict \<Rightarrow> string \<Rightarrow> (string, float) dict" where
  "push_delta st w delta v =
     (if 0 < dict_at (bs_sigma st) w
      then dict_set v (fadd (dict_at delta v)
        (fmul (fdiv (dict_at (bs_sigma st) v) (dict_at (bs_sigma st) w)) (fadd 1 (dict_at delta w)))) delta
      else delta)"

definition pop_stack ::
  "string \<Rightarrow> brandes \<Rightarrow> (string, float) dict \<times> (string, float) dict \<Rightarrow> string \<Rightarrow>
     (string, float) dict \<times> (string, float) dict" where
  "pop_stack source st dc w =
     (case dc of (delta, centrality) \<Rightarrow>
        let delta' = foldl (push_delta st w) delta (dict_at (bs_preds st) w)
        in (delta', if w \<noteq> source
                    then dict_set w (fadd (dict_at centrality w) (dict_at delta' w)) centrality
                    else centrality))"

definition from_source ::
  "asset_graph \<Rightarrow> (string, float) dict \<Rightarrow> string \<Rightarrow> (string, float) dict option" where
  "from_source g centrality source =
     map_option (\<lambda>st. snd (foldl (pop_stack source st) (all_nodes g 0, centrality) (rev (bs_stack st))))
       (forward (neighbours g) (brandes_init g source))"

fun each_source ::
  "asset_graph \<Rightarrow> (string, float) dict \<Rightarrow> string list \<Rightarrow> (string, float) dict option" where
  "each_source g centrality [] = Some centrality"
| "each_source g centrality (s # ss) =
     (case from_source g centrality s of None \<Rightarrow> None | Some c \<Rightarrow> each_source g c ss)"

text \<open>The loops end (\<open>forward_total\<close>), so the last case never applies.\<close>

definition betweenness_python :: "asset_graph \<Rightarrow> exc + (string \<times> float) list" where
  "betweenness_python g =
     (case each_source g (all_nodes g 0) (node_ids g) of
        Some c \<Rightarrow> Inr (rank (map (\<lambda>(nid, x). (nid, round_digits 6 (fdiv x 2))) c))
      | None \<Rightarrow> Inl OutOfModel)"

section \<open>Dispatch\<close>

definition graph_betweenness ::
  "native \<Rightarrow> rust_graph \<Rightarrow> int \<Rightarrow> (int \<times> int) list \<Rightarrow> string option \<Rightarrow> exc + float list graph_outcome" where
  "graph_betweenness nv rg node_count es prefer =
     graph_dispatch nv ''graph_betweenness'' (rust_betweenness rg node_count es)
       (bind_res (betweenness_python (indexed_graph node_count es)) (\<lambda>ranked.
          Inr (foldl (\<lambda>vs (nid, score). vs[nat (node_number nid) := score])
                 (replicate (nat node_count) 0) ranked))) prefer"

definition betweenness_centrality ::
  "native \<Rightarrow> rust_graph \<Rightarrow> asset_graph \<Rightarrow> exc + (string \<times> float) list \<times> asset_graph" where
  "betweenness_centrality nv rg g =
     (if g_nodes g = [] then Inr ([], g)
      else case native_graph g of (cnt, es, ids) \<Rightarrow>
        bind_res (graph_betweenness nv rg cnt es None) (\<lambda>out.
          let g' = last_engine ''betweenness'' (graph_engine out) (graph_reason out) g in
          case graph_value out of
            Some value \<Rightarrow>
              if int (length value) = cnt
              then bind_res (map_res (\<lambda>(i, v). case dict_get (reverse_index ids) (int i) of
                       None \<Rightarrow> Inl (KeyError []) | Some nid \<Rightarrow> Inr (nid, round_digits 6 v)) (enumerate 0 value))
                     (\<lambda>pairs. Inr (rank pairs, g'))
              else bind_res (betweenness_python g) (\<lambda>r. Inr (r, g'))
          | None \<Rightarrow> bind_res (betweenness_python g) (\<lambda>r. Inr (r, g'))))"

section \<open>The loops end and score every node once\<close>

definition undiscovered :: "asset_graph \<Rightarrow> brandes \<Rightarrow> string set" where
  "undiscovered g st = {x \<in> set (node_ids g). dict_at (bs_dist st) x < 0}"

text \<open>Every node has a distance and a non-negative path count; queued nodes are discovered nodes.\<close>

definition brandes_inv :: "asset_graph \<Rightarrow> brandes \<Rightarrow> bool" where
  "brandes_inv g st \<longleftrightarrow>
     (\<forall>x\<in>set (bs_queue st). x \<in> set (node_ids g) \<and> 0 \<le> dict_at (bs_dist st) x) \<and>
     set (bs_stack st) \<subseteq> set (node_ids g) \<and> (\<forall>x\<in>set (node_ids g). 0 \<le> dict_at (bs_sigma st) x) \<and>
     (\<forall>x\<in>set (node_ids g). set (dict_at (bs_preds st) x) \<subseteq> set (node_ids g))"

lemma dict_at_set [simp]: "dict_at (dict_set k v d) x = (if x = k then v else dict_at d x)"
  by (simp add: dict_at_def)

lemma dict_at_all_nodes [simp]: "x \<in> set (node_ids g) \<Longrightarrow> dict_at (all_nodes g v) x = v"
proof -
  assume "x \<in> set (node_ids g)"
  then have "map_of (map (\<lambda>nid. (nid, v)) (node_ids g)) x = Some v"
    by (simp add: map_of_map_restrict restrict_map_def)
  then show ?thesis by (simp add: dict_at_def all_nodes_def)
qed

lemma relax_inv:
  assumes "brandes_inv g st" "v \<in> set (node_ids g)" "0 \<le> dict_at (bs_dist st) v" "w \<in> set (node_ids g)"
  shows "brandes_inv g (relax v st w) \<and> 0 \<le> dict_at (bs_dist (relax v st w)) v \<and>
     2 * card (undiscovered g (relax v st w)) + length (bs_queue (relax v st w)) \<le>
       2 * card (undiscovered g st) + length (bs_queue st)"
proof -
  have d: "brandes_inv g (discover v st w) \<and> 0 \<le> dict_at (bs_dist (discover v st w)) v \<and>
     2 * card (undiscovered g (discover v st w)) + length (bs_queue (discover v st w)) \<le>
       2 * card (undiscovered g st) + length (bs_queue st)"
  proof (cases "dict_at (bs_dist st) w < 0")
    case True
    then have "undiscovered g st = insert w (undiscovered g (discover v st w))"
        "w \<notin> undiscovered g (discover v st w)"
      using assms(3,4) by (auto simp: undiscovered_def discover_def)
    then have "card (undiscovered g st) = Suc (card (undiscovered g (discover v st w)))"
      by (simp add: undiscovered_def)
    then show ?thesis using True assms by (auto simp: discover_def brandes_inv_def)
  next
    case False
    then show ?thesis using assms by (simp add: discover_def)
  qed
  have "brandes_inv g (count_path v s w)" if "brandes_inv g s" for s
  proof -
    have "0 \<le> dict_at (bs_sigma s) w + dict_at (bs_sigma s) v"
      using that assms(2,4) by (simp add: brandes_inv_def)
    then have "0 \<le> fl (dict_at (bs_sigma s) w + dict_at (bs_sigma s) v)" by (rule fl_nonneg)
    then show ?thesis using that assms(2,4) by (auto simp: count_path_def brandes_inv_def fadd_def)
  qed
  moreover have "bs_dist (count_path v s w) = bs_dist s" "bs_queue (count_path v s w) = bs_queue s" for s
    by (simp_all add: count_path_def)
  ultimately show ?thesis using d by (simp add: relax_def undiscovered_def)
qed

lemma relax_all_inv:
  assumes "brandes_inv g st" "v \<in> set (node_ids g)" "0 \<le> dict_at (bs_dist st) v" "set ws \<subseteq> set (node_ids g)"
  shows "brandes_inv g (foldl (relax v) st ws) \<and>
     2 * card (undiscovered g (foldl (relax v) st ws)) + length (bs_queue (foldl (relax v) st ws)) \<le>
       2 * card (undiscovered g st) + length (bs_queue st)"
  using assms
proof (induction ws arbitrary: st)
  case Nil
  then show ?case by simp
next
  case (Cons w ws)
  have w: "w \<in> set (node_ids g)" "set ws \<subseteq> set (node_ids g)" using Cons.prems(4) by auto
  note r = relax_inv [OF Cons.prems(1-3) w(1)]
  show ?case using Cons.IH [of "relax v st w"] r Cons.prems(2) w(2) by simp
qed

lemma forward_total:
  "brandes_inv g st \<Longrightarrow> \<exists>st'. forward (neighbours g) st = Some st' \<and> brandes_inv g st'"
proof (induction "2 * card (undiscovered g st) + length (bs_queue st)" arbitrary: st rule: less_induct)
  case less
  show ?case
  proof (cases "bs_queue st")
    case Nil
    then show ?thesis using less.prems by (subst forward.simps) simp
  next
    case (Cons v q)
    let ?s = "st\<lparr>bs_queue := q, bs_stack := bs_stack st @ [v]\<rparr>"
    let ?t = "foldl (relax v) ?s (neighbours g v)"
    have s: "brandes_inv g ?s" "v \<in> set (node_ids g)" "0 \<le> dict_at (bs_dist ?s) v"
      using less.prems Cons by (auto simp: brandes_inv_def)
    have t: "brandes_inv g ?t \<and> 2 * card (undiscovered g ?t) + length (bs_queue ?t) \<le>
        2 * card (undiscovered g ?s) + length (bs_queue ?s)"
      by (rule relax_all_inv [OF s]) (auto simp: set_neighbours)
    have "undiscovered g ?s = undiscovered g st" by (simp add: undiscovered_def)
    then have "2 * card (undiscovered g ?t) + length (bs_queue ?t) <
        2 * card (undiscovered g st) + length (bs_queue st)" using t by (simp add: Cons)
    from less.hyps [OF this] t obtain st' where "forward (neighbours g) ?t = Some st'" "brandes_inv g st'" by blast
    moreover have "forward (neighbours g) st = forward (neighbours g) ?t"
      by (subst forward.simps) (simp add: Cons)
    ultimately show ?thesis by auto
  qed
qed

definition scores_ok :: "asset_graph \<Rightarrow> (string, float) dict \<Rightarrow> bool" where
  "scores_ok g c \<longleftrightarrow> dict_keys c = node_ids g \<and> (\<forall>(x, v)\<in>set c. 0 \<le> v)"

lemma scores_ok_at:
  assumes "scores_ok g c" "x \<in> set (node_ids g)"
  shows "0 \<le> dict_at c x"
proof -
  have "x \<in> set (dict_keys c)" using assms by (simp add: scores_ok_def del: set_map)
  then obtain v where "dict_get c x = Some v" by (metis domIff dom_map_of_conv_image_fst list.set_map not_None_eq)
  then show ?thesis using assms(1) by (auto simp: scores_ok_def dict_at_def dest: map_of_SomeD)
qed

lemma set_dict_set: "set (dict_set k v d) \<subseteq> insert (k, v) (set d)"
  by (induction d) (auto split: if_splits)

lemma scores_ok_set: "scores_ok g c \<Longrightarrow> x \<in> set (node_ids g) \<Longrightarrow> 0 \<le> v \<Longrightarrow> scores_ok g (dict_set x v c)"
  using set_dict_set [of x v c] by (auto simp: scores_ok_def dict_keys_dict_set simp del: map_map)

lemma push_delta_ok:
  assumes "scores_ok g delta" "brandes_inv g st" "w \<in> set (node_ids g)" "v \<in> set (node_ids g)"
  shows "scores_ok g (push_delta st w delta v)"
proof -
  have "0 \<le> dict_at delta v" "0 \<le> dict_at delta w" "0 \<le> dict_at (bs_sigma st) v"
    using assms scores_ok_at by (auto simp: brandes_inv_def)
  then have "0 \<le> fadd (dict_at delta v)
      (fmul (fdiv (dict_at (bs_sigma st) v) (dict_at (bs_sigma st) w)) (fadd 1 (dict_at delta w)))"
    if "0 < dict_at (bs_sigma st) w"
    using that by (simp add: fadd_def fmul_def fdiv_def fl_nonneg)
  then show ?thesis
    using assms(1,4) scores_ok_set by (simp add: push_delta_def)
qed

lemma push_delta_fold:
  assumes "scores_ok g delta" "brandes_inv g st" "w \<in> set (node_ids g)" "set vs \<subseteq> set (node_ids g)"
  shows "scores_ok g (foldl (push_delta st w) delta vs)"
  using assms(1,4) by (induction vs arbitrary: delta) (simp_all add: push_delta_ok [OF _ assms(2,3)])

lemma pop_stack_ok:
  assumes "scores_ok g delta" "scores_ok g c" "brandes_inv g st" "w \<in> set (node_ids g)"
  shows "scores_ok g (fst (pop_stack s st (delta, c) w)) \<and> scores_ok g (snd (pop_stack s st (delta, c) w))"
proof -
  have "set (dict_at (bs_preds st) w) \<subseteq> set (node_ids g)" using assms(3,4) by (auto simp: brandes_inv_def)
  then have d: "scores_ok g (foldl (push_delta st w) delta (dict_at (bs_preds st) w))"
    using push_delta_fold [OF assms(1,3,4)] by blast
  have "0 \<le> dict_at c w" "0 \<le> dict_at (foldl (push_delta st w) delta (dict_at (bs_preds st) w)) w"
    using assms(2,4) d scores_ok_at by blast+
  then show ?thesis
    using d assms(2,4) by (auto simp: pop_stack_def Let_def fadd_def fl_nonneg intro!: scores_ok_set)
qed

lemma pop_all_ok:
  assumes "scores_ok g (fst dc)" "scores_ok g (snd dc)" "brandes_inv g st" "set ws \<subseteq> set (node_ids g)"
  shows "scores_ok g (snd (foldl (pop_stack s st) dc ws))"
  using assms(1,2,4)
proof (induction ws arbitrary: dc)
  case (Cons w ws)
  then show ?case
    using pop_stack_ok [OF _ _ assms(3), of "fst dc" "snd dc" w s] by simp
qed simp

lemma all_nodes_ok: "0 \<le> v \<Longrightarrow> scores_ok g (all_nodes g v)"
  by (auto simp: scores_ok_def all_nodes_def comp_def)

lemma brandes_init_inv: "s \<in> set (node_ids g) \<Longrightarrow> brandes_inv g (brandes_init g s)"
  by (simp add: brandes_inv_def brandes_init_def)

lemma from_source_ok:
  assumes "scores_ok g c" "s \<in> set (node_ids g)"
  shows "\<exists>c'. from_source g c s = Some c' \<and> scores_ok g c'"
proof -
  obtain st where st: "forward (neighbours g) (brandes_init g s) = Some st" "brandes_inv g st"
    using forward_total [OF brandes_init_inv [OF assms(2)]] by blast
  have "set (rev (bs_stack st)) \<subseteq> set (node_ids g)" using st(2) by (simp add: brandes_inv_def)
  then show ?thesis
    using pop_all_ok [of g "(all_nodes g 0, c)" st "rev (bs_stack st)" s] st assms(1) all_nodes_ok [of 0 g]
    by (simp add: from_source_def)
qed

lemma each_source_ok:
  "scores_ok g c \<Longrightarrow> set ss \<subseteq> set (node_ids g) \<Longrightarrow> \<exists>c'. each_source g c ss = Some c' \<and> scores_ok g c'"
proof (induction ss arbitrary: c)
  case (Cons s ss)
  then show ?case using from_source_ok [of g c s] by fastforce
qed simp

text \<open>
  The Python betweenness computation ends on every graph; it ranks every node exactly once, with
  non-negative scores, highest first and ties by name.
\<close>
theorem betweenness_total:
  "\<exists>r. betweenness_python g = Inr r \<and> mset (map fst r) = mset (node_ids g) \<and>
     (\<forall>(nid, score)\<in>set r. 0 \<le> score) \<and> sorted (map (\<lambda>(nid, score). (- score, nid)) r)"
proof -
  obtain c where c: "each_source g (all_nodes g 0) (node_ids g) = Some c" "scores_ok g c"
    using each_source_ok [OF all_nodes_ok] by blast
  let ?f = "\<lambda>(nid :: string, x). (nid, round_digits 6 (fdiv x 2))"
  have "betweenness_python g = Inr (rank (map ?f c))" by (simp add: betweenness_python_def c(1))
  moreover have "mset (map fst (rank (map ?f c))) = mset (node_ids g)"
  proof -
    have "mset (map fst (rank (map ?f c))) = mset (map fst (map ?f c))"
      unfolding mset_map by (simp add: rank_def)
    also have "map fst (map ?f c) = map fst c" by (simp add: comp_def case_prod_unfold)
    also have "\<dots> = node_ids g" using c(2) by (simp add: scores_ok_def)
    finally show ?thesis .
  qed
  moreover have "\<forall>(nid, score)\<in>set (rank (map ?f c)). 0 \<le> score"
  proof -
    have "0 \<le> x" if "(nid, x) \<in> set c" for nid x
      using c(2) that by (auto simp: scores_ok_def)
    then have "0 \<le> round_digits 6 (fdiv x 2)" if "(nid, x) \<in> set c" for nid x
      using that round_digits_mono [of 0 "fdiv x 2" 6] by (force simp: fdiv_def fl_nonneg)
    then show ?thesis by (auto simp: rank_def)
  qed
  moreover have "sorted (map (\<lambda>(nid, score). (- score, nid)) (rank (map ?f c)))"
    by (simp add: rank_def)
  ultimately show ?thesis by blast
qed

theorem betweenness_total_witness:
  "\<exists>r. betweenness_python sample_graph = Inr r \<and> mset (map fst r) = mset (node_ids sample_graph) \<and>
     (\<forall>(nid, score)\<in>set r. 0 \<le> score) \<and> sorted (map (\<lambda>(nid, score). (- score, nid)) r)"
  by (rule betweenness_total)

end
