(* ===== verification/Wave.thy ===== *)
theory Wave
  imports State Planner Scope Graph
begin

text \<open>
  The execution part of \<open>core/orchestrator.py\<close>: a wave of steps runs on a thread pool, each
  thread logging and calling its module in turn. The interleaving is chosen by a scheduler that picks
  the next of the enabled actions, so a statement for every scheduler covers every interleaving.
\<close>

section \<open>State\<close>

text \<open>The shared context the modules receive; they may change findings, reports and the rest.\<close>

record context_data =
  ctx_findings :: "pydict list"
  ctx_reports :: "pyval list"
  ctx_extra :: pydict
  ctx_plan :: "plan_step list"

text \<open>A registered module, the n-th effect of the run, as it changes the context.\<close>

type_synonym runner = "nat \<Rightarrow> plan_step \<Rightarrow> context_data \<Rightarrow> (exc + pyval) \<times> context_data"

text \<open>What the run cannot know: the clock and the scheduler, indexed by the effects so far.\<close>

record environment =
  now_at :: "nat \<Rightarrow> pyval"
  pick :: "nat \<Rightarrow> nat"

text \<open>
  \<open>orch_journal\<close> is what was written to the store: campaign saves and log entries, in order. The
  status of a step lives in \<open>orch_status\<close>, because the plan and the waves share the step objects.
\<close>

type_synonym journal = "(campaign + campaign \<times> log_item) list"

record orch =
  orch_journal :: journal
  orch_scope :: scope_enforcer
  orch_registry :: "(string, runner) dict"
  orch_workers :: int
  orch_counter :: int
  orch_context :: context_data
  orch_status :: "(int, string) dict"
  orch_clock :: nat

definition apply_journal :: "files \<Rightarrow> journal \<Rightarrow> files" where
  "apply_journal = foldl (\<lambda>fs op. case op of Inl st \<Rightarrow> save fs st | Inr (st, ev) \<Rightarrow> log_entry fs st ev)"

definition register :: "string \<Rightarrow> runner \<Rightarrow> orch \<Rightarrow> orch" where
  "register name r orc = orc\<lparr>orch_registry := dict_set name r (orch_registry orc)\<rparr>"

definition emit :: "environment \<Rightarrow> campaign \<Rightarrow> string \<Rightarrow> pydict \<Rightarrow> orch \<Rightarrow> orch" where
  "emit env st event payload orc =
     orc\<lparr>orch_journal := orch_journal orc @ [Inr (st, (now_at env (orch_clock orc), event, payload))],
         orch_clock := Suc (orch_clock orc)\<rparr>"

definition store_save :: "campaign \<Rightarrow> orch \<Rightarrow> orch" where
  "store_save st orc = orc\<lparr>orch_journal := orch_journal orc @ [Inl st]\<rparr>"

definition set_status :: "plan_step \<Rightarrow> string \<Rightarrow> orch \<Rightarrow> orch" where
  "set_status s v orc = orc\<lparr>orch_status := dict_set (step_id s) v (orch_status orc)\<rparr>"

text \<open>
  \<open>self._registry.get(step.module)\<close>: the names are strings, every other hashable value is no key, and a list
  or a dictionary is not hashable.
\<close>

definition unhashable :: "string \<Rightarrow> exc" where
  "unhashable kind = TypeError (''unhashable type: '' @ [CHR 0x27] @ kind @ [CHR 0x27])"

definition runner_of :: "orch \<Rightarrow> plan_step \<Rightarrow> exc + runner option" where
  "runner_of orc s =
     (case step_module s of
        PStr m \<Rightarrow> Inr (dict_get (orch_registry orc) m)
      | PList _ \<Rightarrow> Inl (unhashable ''list'')
      | PDict _ \<Rightarrow> Inl (unhashable ''dict'')
      | _ \<Rightarrow> Inr None)"

section \<open>One thread\<close>

text \<open>A step whose lookup raised has \<open>Escaped\<close>: its future holds the exception until it is collected.\<close>

datatype phase =
    Waiting
  | Escaped exc
  | Running
  | Ran "exc + pyval"
  | Returned "pyval option"
  | Collected

record wave =
  wv_orch :: orch
  wv_steps :: "(plan_step \<times> phase) list"

definition set_phase :: "nat \<Rightarrow> phase \<Rightarrow> wave \<Rightarrow> wave" where
  "set_phase i p wv = wv\<lparr>wv_steps := (wv_steps wv)[i := (fst (wv_steps wv ! i), p)]\<rparr>"

definition set_orch :: "orch \<Rightarrow> wave \<Rightarrow> wave" where
  "set_orch orc wv = wv\<lparr>wv_orch := orc\<rparr>"

definition step_payload :: "plan_step \<Rightarrow> pydict" where
  "step_payload s =
     [(''module'', step_module s), (''action'', action s), (''step_id'', PInt (step_id s))]"

definition failure_payload :: "plan_step \<Rightarrow> exc \<Rightarrow> pydict" where
  "failure_payload s e =
     [(''module'', step_module s), (''action'', action s), (''error'', PStr (exc_message e))]"

text \<open>
  \<open>_safe_run\<close>, cut where another thread can run in between, and the collection of its result. The lookup
  stands outside the handler of \<open>_safe_run\<close>: what it raises is logged by the collection.
\<close>

definition act :: "environment \<Rightarrow> campaign \<Rightarrow> nat \<Rightarrow> wave \<Rightarrow> wave" where
  "act env st i wv =
     (case wv_steps wv ! i of (s, p) \<Rightarrow>
        let orc = wv_orch wv in
        case p of
          Waiting \<Rightarrow>
            (case runner_of orc s of
               Inl e \<Rightarrow> set_phase i (Escaped e) wv
             | Inr None \<Rightarrow> set_phase i (Returned None)
                 (set_orch (emit env st ''module_missing'' [(''module'', step_module s)] orc) wv)
             | Inr (Some r) \<Rightarrow> set_phase i Running
                 (set_orch (emit env st ''step_start'' (step_payload s) (set_status s ''running'' orc)) wv))
        | Running \<Rightarrow>
            (case runner_of orc s of
               Inl e \<Rightarrow> set_phase i (Returned None) wv
             | Inr None \<Rightarrow> set_phase i (Returned None) wv
             | Inr (Some r) \<Rightarrow>
                 (case r (orch_clock orc) s (orch_context orc) of (res, ctx) \<Rightarrow>
                    set_phase i (Ran res)
                      (set_orch (orc\<lparr>orch_context := ctx, orch_clock := Suc (orch_clock orc)\<rparr>) wv)))
        | Ran (Inr v) \<Rightarrow> set_phase i (Returned (Some v))
            (set_orch (emit env st ''step_done'' (step_payload s) (set_status s ''done'' orc)) wv)
        | Ran (Inl e) \<Rightarrow> set_phase i (Returned None)
            (set_orch (emit env st ''step_failed'' (failure_payload s e) (set_status s ''failed'' orc)) wv)
        | Escaped e \<Rightarrow> set_phase i Collected
            (set_orch (emit env st ''step_failed'' (failure_payload s e) (set_status s ''failed'' orc)) wv)
        | Returned v \<Rightarrow> set_phase i Collected
            (case v of
               Some r \<Rightarrow>
                 if truthy r
                 then set_orch (orc\<lparr>orch_context := (orch_context orc)\<lparr>ctx_reports := ctx_reports (orch_context orc) @ [r]\<rparr>\<rparr>) wv
                 else wv
             | None \<Rightarrow> wv)
        | Collected \<Rightarrow> wv)"

section \<open>The pool\<close>

fun is_active :: "phase \<Rightarrow> bool" where
  "is_active Running = True"
| "is_active (Ran _) = True"
| "is_active _ = False"

text \<open>A waiting step starts when it is next in the queue and a worker is free.\<close>

definition enabled :: "wave \<Rightarrow> nat \<Rightarrow> bool" where
  "enabled wv i \<longleftrightarrow>
     (case snd (wv_steps wv ! i) of
        Collected \<Rightarrow> False
      | Waiting \<Rightarrow> list_all (\<lambda>(s, p). p \<noteq> Waiting) (take i (wv_steps wv)) \<and>
          int (length (filter (\<lambda>(s, p). is_active p) (wv_steps wv))) < orch_workers (wv_orch wv)
      | _ \<Rightarrow> True)"

definition enabled_list :: "wave \<Rightarrow> nat list" where
  "enabled_list wv = filter (enabled wv) [0..<length (wv_steps wv)]"

fun todo :: "phase \<Rightarrow> nat" where
  "todo Waiting = 4"
| "todo Running = 3"
| "todo (Ran _) = 2"
| "todo (Returned _) = 1"
| "todo (Escaped _) = 1"
| "todo Collected = 0"

definition wave_todo :: "wave \<Rightarrow> nat" where
  "wave_todo wv = sum_list (map (todo \<circ> snd) (wv_steps wv))"

definition next_action :: "environment \<Rightarrow> wave \<Rightarrow> nat" where
  "next_action env wv =
     enabled_list wv ! (pick env (orch_clock (wv_orch wv) + wave_todo wv) mod length (enabled_list wv))"

lemma next_action_enabled:
  assumes "enabled_list wv \<noteq> []"
  shows "next_action env wv < length (wv_steps wv)" "enabled wv (next_action env wv)"
proof -
  have "next_action env wv \<in> set (enabled_list wv)"
    using assms unfolding next_action_def by (intro nth_mem) simp
  then show "next_action env wv < length (wv_steps wv)" "enabled wv (next_action env wv)"
    by (simp_all add: enabled_list_def)
qed

lemma phase_steps [simp]: "wv_steps (set_orch orc wv) = wv_steps wv" "wv_orch (set_phase i p wv) = wv_orch wv"
  "wv_orch (set_orch orc wv) = orc"
  "wv_steps (set_phase i p wv) = (wv_steps wv)[i := (fst (wv_steps wv ! i), p)]"
  by (simp_all add: set_orch_def set_phase_def)

text \<open>What an action does to the phase of its step.\<close>

definition moves :: "orch \<Rightarrow> plan_step \<Rightarrow> phase \<Rightarrow> phase \<Rightarrow> bool" where
  "moves orc s p p' \<longleftrightarrow>
     (case p of
        Waiting \<Rightarrow> p' = (case runner_of orc s of Inl e \<Rightarrow> Escaped e | Inr None \<Rightarrow> Returned None | Inr (Some r) \<Rightarrow> Running)
      | Running \<Rightarrow> p' = Returned None \<or> (\<exists>r. p' = Ran r)
      | Ran (Inr v) \<Rightarrow> p' = Returned (Some v)
      | Ran (Inl e) \<Rightarrow> p' = Returned None
      | Returned v \<Rightarrow> p' = Collected
      | Escaped e \<Rightarrow> p' = Collected
      | Collected \<Rightarrow> p' = Collected)"

lemma act_moves:
  "\<exists>p'. wv_steps (act env st i wv) = (wv_steps wv)[i := (fst (wv_steps wv ! i), p')] \<and>
     moves (wv_orch wv) (fst (wv_steps wv ! i)) (snd (wv_steps wv ! i)) p'"
proof -
  obtain s p where sp: "wv_steps wv ! i = (s, p)" by fastforce
  show ?thesis
  proof (cases p)
    case (Ran r)
    then show ?thesis by (cases r) (auto simp: act_def sp moves_def Let_def)
  next
    case Collected
    then show ?thesis using sp list_update_id [of "wv_steps wv" i]
      by (auto simp: act_def sp moves_def intro!: exI [of _ Collected])
  qed (auto simp: act_def sp moves_def Let_def split: option.splits prod.splits sum.splits)
qed

lemma moves_todo: "moves orc s p p' \<Longrightarrow> p \<noteq> Collected \<Longrightarrow> todo p' < todo p"
  by (cases p) (auto simp: moves_def split: sum.splits option.splits)

lemma wave_todo_update:
  assumes "i < length (wv_steps wv)" "wv_steps wv' = (wv_steps wv)[i := (s, p')]" "todo p' < todo (snd (wv_steps wv ! i))"
  shows "wave_todo wv' < wave_todo wv"
proof -
  have "sum_list ((map (todo \<circ> snd) (wv_steps wv))[i := todo p']) + (todo \<circ> snd) (wv_steps wv ! i) =
      sum_list (map (todo \<circ> snd) (wv_steps wv)) + todo p'"
    using assms(1) elem_le_sum_list [of i "map (todo \<circ> snd) (wv_steps wv)"] by (simp add: sum_list_update)
  then show ?thesis using assms by (simp add: wave_todo_def map_update)
qed

lemma enabled_not_collected: "enabled wv i \<Longrightarrow> snd (wv_steps wv ! i) \<noteq> Collected"
  by (auto simp: enabled_def)

lemma act_todo:
  assumes "enabled_list wv \<noteq> []"
  shows "wave_todo (act env st (next_action env wv) wv) < wave_todo wv"
proof -
  let ?i = "next_action env wv"
  note n = next_action_enabled [OF assms, of env]
  obtain p' where p': "wv_steps (act env st ?i wv) = (wv_steps wv)[?i := (fst (wv_steps wv ! ?i), p')]"
    "moves (wv_orch wv) (fst (wv_steps wv ! ?i)) (snd (wv_steps wv ! ?i)) p'"
    using act_moves [of env st ?i wv] by blast
  show ?thesis
    using wave_todo_update [OF n(1) p'(1)] moves_todo [OF p'(2) enabled_not_collected [OF n(2)]] by blast
qed

function run_pool :: "environment \<Rightarrow> campaign \<Rightarrow> wave \<Rightarrow> wave" where
  "run_pool env st wv =
     (if enabled_list wv = [] then wv else run_pool env st (act env st (next_action env wv) wv))"
  by pat_completeness auto
termination
  by (relation "measure (\<lambda>(env, st, wv). wave_todo wv)") (auto simp: act_todo)

declare run_pool.simps [simp del]

definition wave_of :: "plan_step list \<Rightarrow> orch \<Rightarrow> wave" where
  "wave_of steps orc = \<lparr>wv_orch = orc, wv_steps = map (\<lambda>s. (s, Waiting)) steps\<rparr>"

text \<open>\<open>ThreadPoolExecutor\<close> refuses a pool without workers.\<close>

definition run_wave :: "environment \<Rightarrow> campaign \<Rightarrow> orch \<Rightarrow> plan_step list \<Rightarrow> exc + orch" where
  "run_wave env st orc steps =
     (if orch_workers orc \<le> 0 then Inl (ValueError ''max_workers must be greater than 0'')
      else Inr (wv_orch (run_pool env st (wave_of steps orc))))"

section \<open>Every schedule finishes the wave\<close>

lemma act_workers [simp]: "orch_workers (wv_orch (act env st i wv)) = orch_workers (wv_orch wv)"
proof -
  obtain s p where sp: "wv_steps wv ! i = (s, p)" by fastforce
  show ?thesis
  proof (cases p)
    case (Ran r)
    then show ?thesis by (cases r) (simp_all add: act_def sp Let_def emit_def set_status_def)
  qed (auto simp: act_def sp Let_def emit_def set_status_def split: option.splits prod.splits sum.splits)
qed

lemma run_pool_invariant:
  assumes "P wv" and "\<And>wv i. P wv \<Longrightarrow> i < length (wv_steps wv) \<Longrightarrow> enabled wv i \<Longrightarrow> P (act env st i wv)"
  shows "P (run_pool env st wv) \<and> enabled_list (run_pool env st wv) = []"
  using assms(1)
proof (induction "wave_todo wv" arbitrary: wv rule: less_induct)
  case less
  show ?case
  proof (cases "enabled_list wv = []")
    case True
    then show ?thesis using less.prems by (simp add: run_pool.simps)
  next
    case False
    have "P (act env st (next_action env wv) wv)"
      using assms(2) [OF less.prems] next_action_enabled [OF False] by blast
    then have "P (run_pool env st (act env st (next_action env wv) wv)) \<and>
        enabled_list (run_pool env st (act env st (next_action env wv) wv)) = []"
      using less.hyps act_todo [OF False] by blast
    then show ?thesis using False by (subst (1 2) run_pool.simps) simp
  qed
qed

text \<open>With a worker, an unfinished wave can always go on.\<close>

lemma enabled_progress:
  assumes "0 < orch_workers (wv_orch wv)" and "enabled_list wv = []" and "i < length (wv_steps wv)"
  shows "snd (wv_steps wv ! i) = Collected"
proof -
  let ?ps = "wv_steps wv"
  have no: "\<not> enabled wv j" if "j < length ?ps" for j
    using assms(2) that by (auto simp: enabled_list_def filter_empty_conv)
  have wc: "snd (?ps ! j) \<in> {Waiting, Collected}" if "j < length ?ps" for j
    using no [OF that] by (auto simp: enabled_def split: phase.splits)
  then have "\<forall>x\<in>set ?ps. snd x \<in> {Waiting, Collected}" by (simp add: all_set_conv_all_nth)
  then have active: "filter (\<lambda>(s, p). is_active p) ?ps = []" by (auto simp: filter_empty_conv)
  show ?thesis
  proof (rule ccontr)
    assume "\<not> ?thesis"
    then have ex: "\<exists>j. j < length ?ps \<and> snd (?ps ! j) = Waiting" using wc assms(3) by blast
    define j where "j = (LEAST j. j < length ?ps \<and> snd (?ps ! j) = Waiting)"
    have j: "j < length ?ps" "snd (?ps ! j) = Waiting"
      using LeastI_ex [OF ex] by (simp_all add: j_def)
    have "snd (?ps ! k) \<noteq> Waiting" if "k < j" for k
      using not_less_Least [of k "\<lambda>j. j < length ?ps \<and> snd (?ps ! j) = Waiting"] that j(1) by (auto simp: j_def)
    then have "list_all (\<lambda>(s, p). p \<noteq> Waiting) (take j ?ps)"
      using j(1) by (auto simp: list_all_length case_prod_unfold)
    then have "enabled wv j" using j(2) active assms(1) by (simp add: enabled_def)
    then show False using no [OF j(1)] by simp
  qed
qed

section \<open>What a wave logs\<close>

text \<open>The events of a kind among the entries of a campaign.\<close>

definition events :: "string \<Rightarrow> log_item list \<Rightarrow> nat" where
  "events ev items = length (filter (\<lambda>(t, e, pl). e = ev) items)"

lemma events_snoc [simp]: "events ev (items @ [(t, e, pl)]) = events ev items + (if e = ev then 1 else 0)"
  by (simp add: events_def)

lemma events_Nil [simp]: "events ev [] = 0"
  by (simp add: events_def)

text \<open>The three ways a lookup can go.\<close>

definition has_runner :: "orch \<Rightarrow> plan_step \<Rightarrow> bool" where
  "has_runner orc s \<longleftrightarrow> (\<exists>r. runner_of orc s = Inr (Some r))"

definition lookup_raises :: "orch \<Rightarrow> plan_step \<Rightarrow> bool" where
  "lookup_raises orc s \<longleftrightarrow> (\<exists>e. runner_of orc s = Inl e)"

definition no_runner :: "orch \<Rightarrow> plan_step \<Rightarrow> bool" where
  "no_runner orc s \<longleftrightarrow> runner_of orc s = Inr None"

text \<open>The steps that end as done or failed.\<close>

definition concludes :: "orch \<Rightarrow> plan_step \<Rightarrow> bool" where
  "concludes orc s \<longleftrightarrow> has_runner orc s \<or> lookup_raises orc s"

lemma lookup_code [code]:
  "has_runner orc s = (case runner_of orc s of Inr (Some _) \<Rightarrow> True | _ \<Rightarrow> False)"
  "lookup_raises orc s = (case runner_of orc s of Inl _ \<Rightarrow> True | _ \<Rightarrow> False)"
  "no_runner orc s = (case runner_of orc s of Inr None \<Rightarrow> True | _ \<Rightarrow> False)"
  by (simp_all add: has_runner_def lookup_raises_def no_runner_def split: sum.split option.split)

lemma concludes_iff: "concludes orc s \<longleftrightarrow> \<not> no_runner orc s"
  by (cases "runner_of orc s") (auto simp: concludes_def has_runner_def lookup_raises_def no_runner_def)

fun past_end :: "phase \<Rightarrow> bool" where
  "past_end (Returned _) = True"
| "past_end Collected = True"
| "past_end _ = False"

text \<open>A step that has logged how it ended, and the phases a step can be in.\<close>

definition ended :: "orch \<Rightarrow> plan_step \<Rightarrow> phase \<Rightarrow> bool" where
  "ended orc s p \<longleftrightarrow> has_runner orc s \<and> past_end p \<or> lookup_raises orc s \<and> p = Collected"

definition phase_ok :: "orch \<Rightarrow> plan_step \<Rightarrow> phase \<Rightarrow> bool" where
  "phase_ok orc s p \<longleftrightarrow>
     (case runner_of orc s of
        Inl _ \<Rightarrow> (case p of Waiting \<Rightarrow> True | Escaped _ \<Rightarrow> True | Collected \<Rightarrow> True | _ \<Rightarrow> False)
      | Inr None \<Rightarrow> p = Waiting \<or> past_end p
      | Inr (Some _) \<Rightarrow> (case p of Escaped _ \<Rightarrow> False | _ \<Rightarrow> True))"

definition how_many :: "(plan_step \<times> phase \<Rightarrow> bool) \<Rightarrow> wave \<Rightarrow> nat" where
  "how_many P wv = length (filter P (wv_steps wv))"

lemma how_many_update:
  assumes "i < length (wv_steps wv)" "wv_steps wv' = (wv_steps wv)[i := x]"
  shows "how_many P wv' + (if P (wv_steps wv ! i) then 1 else 0) = how_many P wv + (if P x then 1 else 0)"
proof -
  have split: "wv_steps wv = take i (wv_steps wv) @ (wv_steps wv ! i) # drop (Suc i) (wv_steps wv)"
    using assms(1) by (rule id_take_nth_drop)
  have "how_many P wv = length (filter P (take i (wv_steps wv) @ (wv_steps wv ! i) # drop (Suc i) (wv_steps wv)))"
    using split by (simp add: how_many_def)
  moreover have "how_many P wv' = length (filter P (take i (wv_steps wv) @ x # drop (Suc i) (wv_steps wv)))"
    using assms by (simp add: how_many_def upd_conv_take_nth_drop)
  ultimately show ?thesis by simp
qed

text \<open>
  The invariant of a running wave: its entries so far are the starts, ends and missing modules of its
  steps, and a step past its end is done or failed.
\<close>

definition wave_inv :: "orch \<Rightarrow> campaign \<Rightarrow> plan_step list \<Rightarrow> wave \<Rightarrow> bool" where
  "wave_inv orc st steps wv \<longleftrightarrow>
     map fst (wv_steps wv) = steps \<and>
     orch_registry (wv_orch wv) = orch_registry orc \<and> orch_scope (wv_orch wv) = orch_scope orc \<and>
     orch_workers (wv_orch wv) = orch_workers orc \<and>
     (\<exists>items. orch_journal (wv_orch wv) = orch_journal orc @ map (\<lambda>e. Inr (st, e)) items \<and>
        events ''step_start'' items = how_many (\<lambda>(s, p). has_runner orc s \<and> p \<noteq> Waiting) wv \<and>
        events ''step_done'' items + events ''step_failed'' items = how_many (\<lambda>(s, p). ended orc s p) wv \<and>
        events ''module_missing'' items = how_many (\<lambda>(s, p). no_runner orc s \<and> p \<noteq> Waiting) wv \<and>
        length items = events ''step_start'' items + events ''step_done'' items + events ''step_failed'' items +
          events ''module_missing'' items) \<and>
     (\<forall>(s, p)\<in>set (wv_steps wv). ended orc s p \<longrightarrow>
        dict_get (orch_status (wv_orch wv)) (step_id s) \<in> {Some ''done'', Some ''failed''}) \<and>
     (\<forall>(s, p)\<in>set (wv_steps wv). phase_ok orc s p)"

lemma runner_of_cong: "orch_registry orc = orch_registry orc' \<Longrightarrow> runner_of orc s = runner_of orc' s"
  by (simp add: runner_of_def split: pyval.split)

text \<open>The effect of one action on the parts of the state the invariant speaks of.\<close>

lemma act_cases:
  assumes "wv_steps wv ! i = (s, p)" "snd (wv_steps wv ! i) \<noteq> Collected"
  obtains (start) r where "p = Waiting" "runner_of (wv_orch wv) s = Inr (Some r)"
      "act env st i wv = set_phase i Running
         (set_orch (emit env st ''step_start'' (step_payload s) (set_status s ''running'' (wv_orch wv))) wv)"
  | (missing) "p = Waiting" "runner_of (wv_orch wv) s = Inr None"
      "act env st i wv = set_phase i (Returned None)
         (set_orch (emit env st ''module_missing'' [(''module'', step_module s)] (wv_orch wv)) wv)"
  | (ran) r res ctx where "p = Running" "runner_of (wv_orch wv) s = Inr (Some r)"
      "act env st i wv = set_phase i (Ran res)
         (set_orch ((wv_orch wv)\<lparr>orch_context := ctx, orch_clock := Suc (orch_clock (wv_orch wv))\<rparr>) wv)"
  | (lost) "p = Running" "\<not> has_runner (wv_orch wv) s" "act env st i wv = set_phase i (Returned None) wv"
  | (ended) v w ev pl fin where "p = Ran v" "fin \<in> {''done'', ''failed''}" "ev = ''step_'' @ fin"
      "act env st i wv = set_phase i (Returned w)
         (set_orch (emit env st ev pl (set_status s fin (wv_orch wv))) wv)"
  | (collect) v ctx where "p = Returned v"
      "act env st i wv = set_phase i Collected (set_orch ((wv_orch wv)\<lparr>orch_context := ctx\<rparr>) wv)"
  | (raises) e where "p = Waiting" "runner_of (wv_orch wv) s = Inl e" "act env st i wv = set_phase i (Escaped e) wv"
  | (escaped) e where "p = Escaped e"
      "act env st i wv = set_phase i Collected
         (set_orch (emit env st ''step_failed'' (failure_payload s e) (set_status s ''failed'' (wv_orch wv))) wv)"
proof (cases p)
  case Waiting
  consider (e) e where "runner_of (wv_orch wv) s = Inl e" | (n) "runner_of (wv_orch wv) s = Inr None"
    | (r) r where "runner_of (wv_orch wv) s = Inr (Some r)"
    by (metis option.exhaust sum.exhaust)
  then show ?thesis
    by cases (use Waiting assms(1) that(1,2,7) in \<open>simp_all add: act_def Let_def\<close>)
next
  case (Escaped e)
  then show ?thesis using assms(1) that(8) by (simp add: act_def Let_def)
next
  case Running
  show ?thesis
  proof (cases "has_runner (wv_orch wv) s")
    case False
    then have "act env st i wv = set_phase i (Returned None) wv"
      using Running assms(1) by (auto simp: act_def has_runner_def Let_def split: sum.split option.split)
    then show ?thesis using Running False that(4) by blast
  next
    case True
    then obtain r where r: "runner_of (wv_orch wv) s = Inr (Some r)" by (auto simp: has_runner_def)
    obtain res ctx where "r (orch_clock (wv_orch wv)) s (orch_context (wv_orch wv)) = (res, ctx)" by fastforce
    then show ?thesis using Running r assms(1) that(3) by (simp add: act_def Let_def)
  qed
next
  case (Ran v)
  show ?thesis
  proof (cases v)
    case (Inl e)
    then show ?thesis
      using Ran assms(1) by (intro that(5) [of v "''failed''"]) (simp_all add: act_def Let_def)
  next
    case (Inr r)
    then show ?thesis
      using Ran assms(1) by (intro that(5) [of v "''done''"]) (simp_all add: act_def Let_def)
  qed
next
  case (Returned v)
  have "set_orch (wv_orch wv) wv = wv" "(wv_orch wv)\<lparr>orch_context := orch_context (wv_orch wv)\<rparr> = wv_orch wv"
    by (simp_all add: set_orch_def)
  then have "act env st i wv = set_phase i Collected (set_orch ((wv_orch wv)\<lparr>orch_context :=
      (case v of Some r \<Rightarrow> if truthy r
         then (orch_context (wv_orch wv))\<lparr>ctx_reports := ctx_reports (orch_context (wv_orch wv)) @ [r]\<rparr>
         else orch_context (wv_orch wv) | None \<Rightarrow> orch_context (wv_orch wv))\<rparr>) wv)"
    using assms(1) Returned by (auto simp: act_def Let_def split: option.splits)
  then show ?thesis using that(6) Returned by blast
next
  case Collected
  then show ?thesis using assms by simp
qed

lemma wave_inv_update:
  assumes inv: "wave_inv orc st steps wv" and i: "i < length (wv_steps wv)" "wv_steps wv ! i = (s, p)"
    and ids: "distinct (map step_id steps)"
    and steps': "wv_steps wv' = (wv_steps wv)[i := (s, p')]"
    and frame: "orch_registry (wv_orch wv') = orch_registry (wv_orch wv)"
      "orch_scope (wv_orch wv') = orch_scope (wv_orch wv)" "orch_workers (wv_orch wv') = orch_workers (wv_orch wv)"
    and journal: "orch_journal (wv_orch wv') = orch_journal (wv_orch wv) @ map (\<lambda>e. Inr (st, e)) es"
    and starts: "events ''step_start'' es + (if has_runner orc s \<and> p \<noteq> Waiting then 1 else 0) =
        (if has_runner orc s \<and> p' \<noteq> Waiting then 1 else 0)"
    and ends: "events ''step_done'' es + events ''step_failed'' es + (if ended orc s p then 1 else 0) =
        (if ended orc s p' then 1 else 0)"
    and missing: "events ''module_missing'' es + (if no_runner orc s \<and> p \<noteq> Waiting then 1 else 0) =
        (if no_runner orc s \<and> p' \<noteq> Waiting then 1 else 0)"
    and len: "length es = events ''step_start'' es + events ''step_done'' es + events ''step_failed'' es +
        events ''module_missing'' es"
    and status: "\<And>k. k \<noteq> step_id s \<Longrightarrow> dict_get (orch_status (wv_orch wv')) k = dict_get (orch_status (wv_orch wv)) k"
      "ended orc s p' \<Longrightarrow> dict_get (orch_status (wv_orch wv')) (step_id s) \<in> {Some ''done'', Some ''failed''}"
    and past: "phase_ok orc s p'"
  shows "wave_inv orc st steps wv'"
proof -
  obtain items where items: "orch_journal (wv_orch wv) = orch_journal orc @ map (\<lambda>e. Inr (st, e)) items"
    "events ''step_start'' items = how_many (\<lambda>(s, p). has_runner orc s \<and> p \<noteq> Waiting) wv"
    "events ''step_done'' items + events ''step_failed'' items = how_many (\<lambda>(s, p). ended orc s p) wv"
    "events ''module_missing'' items = how_many (\<lambda>(s, p). no_runner orc s \<and> p \<noteq> Waiting) wv"
    "length items = events ''step_start'' items + events ''step_done'' items + events ''step_failed'' items +
       events ''module_missing'' items"
    using inv by (auto simp: wave_inv_def)
  have ev: "events k (items @ es) = events k items + events k es" for k by (simp add: events_def)
  note hm = how_many_update [OF i(1) steps']
  have fsts: "map fst (wv_steps wv') = steps"
    using inv i steps' by (simp add: wave_inv_def map_update list_update_id)
      (metis fst_conv list_update_id nth_map)
  have other: "step_id s2 \<noteq> step_id s" if "j < length (wv_steps wv)" "j \<noteq> i" "wv_steps wv ! j = (s2, p2)" for j s2 p2
  proof -
    have "map step_id (map fst (wv_steps wv)) = map step_id steps" using inv by (simp add: wave_inv_def)
    then have "distinct (map (step_id \<circ> fst) (wv_steps wv))" using ids by simp
    then have "(step_id \<circ> fst) (wv_steps wv ! j) \<noteq> (step_id \<circ> fst) (wv_steps wv ! i)"
      using that(1,2) i(1) unfolding distinct_conv_nth by (metis length_map nth_map)
    then show ?thesis using that(3) i(2) by simp
  qed
  have mem: "x = (s, p') \<or> (\<exists>j<length (wv_steps wv). j \<noteq> i \<and> x = wv_steps wv ! j)" if "x \<in> set (wv_steps wv')" for x
    using that i(1) by (auto simp: steps' in_set_conv_nth nth_list_update split: if_splits)
  have st': "ended orc s2 p2 \<longrightarrow>
      dict_get (orch_status (wv_orch wv')) (step_id s2) \<in> {Some ''done'', Some ''failed''}"
    if "(s2, p2) \<in> set (wv_steps wv')" for s2 p2
    using mem [OF that]
  proof
    assume "\<exists>j<length (wv_steps wv). j \<noteq> i \<and> (s2, p2) = wv_steps wv ! j"
    then obtain j where j: "j < length (wv_steps wv)" "j \<noteq> i" "wv_steps wv ! j = (s2, p2)" by auto
    then have "(s2, p2) \<in> set (wv_steps wv)" by (metis nth_mem)
    then show ?thesis using inv status(1) [OF other [OF j]] by (auto simp: wave_inv_def)
  qed (use status(2) in auto)
  have past': "phase_ok orc s2 p2" if "(s2, p2) \<in> set (wv_steps wv')" for s2 p2
    using mem [OF that]
  proof
    assume "\<exists>j<length (wv_steps wv). j \<noteq> i \<and> (s2, p2) = wv_steps wv ! j"
    then have "(s2, p2) \<in> set (wv_steps wv)" by (metis nth_mem)
    then show ?thesis using inv by (auto simp: wave_inv_def)
  qed (use past in auto)
  have "\<exists>items. orch_journal (wv_orch wv') = orch_journal orc @ map (\<lambda>e. Inr (st, e)) items \<and>
     events ''step_start'' items = how_many (\<lambda>(s, p). has_runner orc s \<and> p \<noteq> Waiting) wv' \<and>
     events ''step_done'' items + events ''step_failed'' items = how_many (\<lambda>(s, p). ended orc s p) wv' \<and>
     events ''module_missing'' items = how_many (\<lambda>(s, p). no_runner orc s \<and> p \<noteq> Waiting) wv' \<and>
     length items = events ''step_start'' items + events ''step_done'' items + events ''step_failed'' items +
       events ''module_missing'' items"
  proof (intro exI [of _ "items @ es"] conjI)
    show "orch_journal (wv_orch wv') = orch_journal orc @ map (\<lambda>e. Inr (st, e)) (items @ es)"
      by (simp add: journal items(1))
    show "events ''step_start'' (items @ es) = how_many (\<lambda>(s, p). has_runner orc s \<and> p \<noteq> Waiting) wv'"
      using hm [of "\<lambda>(s, p). has_runner orc s \<and> p \<noteq> Waiting"] items(2) starts
      unfolding ev i(2) prod.case by linarith
    show "events ''step_done'' (items @ es) + events ''step_failed'' (items @ es) =
        how_many (\<lambda>(s, p). ended orc s p) wv'"
      using hm [of "\<lambda>(s, p). ended orc s p"] items(3) ends
      unfolding ev i(2) prod.case by linarith
    show "events ''module_missing'' (items @ es) = how_many (\<lambda>(s, p). no_runner orc s \<and> p \<noteq> Waiting) wv'"
      using hm [of "\<lambda>(s, p). no_runner orc s \<and> p \<noteq> Waiting"] items(4) missing
      unfolding ev i(2) prod.case by linarith
    show "length (items @ es) = events ''step_start'' (items @ es) + events ''step_done'' (items @ es) +
        events ''step_failed'' (items @ es) + events ''module_missing'' (items @ es)"
      using items(5) len by (simp add: ev)
  qed
  moreover have "orch_registry (wv_orch wv') = orch_registry orc" "orch_scope (wv_orch wv') = orch_scope orc"
    "orch_workers (wv_orch wv') = orch_workers orc"
    using inv frame by (simp_all add: wave_inv_def)
  ultimately show ?thesis
    using fsts st' past' unfolding wave_inv_def by blast
qed

lemma wave_inv_act:
  assumes inv: "wave_inv orc st steps wv" and ids: "distinct (map step_id steps)"
    and i: "i < length (wv_steps wv)" and en: "enabled wv i"
  shows "wave_inv orc st steps (act env st i wv)"
proof -
  obtain s p where sp: "wv_steps wv ! i = (s, p)" by fastforce
  have r: "runner_of (wv_orch wv) s = runner_of orc s"
    using inv by (intro runner_of_cong) (simp add: wave_inv_def)
  have old: "ended orc s p \<Longrightarrow> dict_get (orch_status (wv_orch wv)) (step_id s) \<in> {Some ''done'', Some ''failed''}"
    "phase_ok orc s p"
    using inv i sp nth_mem [OF i] by (auto simp: wave_inv_def)
  note preds = has_runner_def lookup_raises_def no_runner_def ended_def phase_ok_def
  note upd = wave_inv_update [OF inv i sp ids]
  have nc: "snd (wv_steps wv ! i) \<noteq> Collected" using enabled_not_collected [OF en] .
  show ?thesis
  proof (rule act_cases [OF sp nc, where env = env and st = st])
    assume "p = Waiting" "runner_of (wv_orch wv) s = Inr None"
      and a: "act env st i wv = set_phase i (Returned None)
         (set_orch (emit env st ''module_missing'' [(''module'', step_module s)] (wv_orch wv)) wv)"
    then show ?thesis
      unfolding a using r sp
      by (intro upd [where p' = "Returned None" and
            es = "[(now_at env (orch_clock (wv_orch wv)), ''module_missing'', [(''module'', step_module s)])]"])
        (simp_all add: emit_def preds events_def)
  next
    fix rn
    assume "p = Waiting" "runner_of (wv_orch wv) s = Inr (Some rn)"
      and a: "act env st i wv = set_phase i Running
         (set_orch (emit env st ''step_start'' (step_payload s) (set_status s ''running'' (wv_orch wv))) wv)"
    then show ?thesis
      unfolding a using r sp
      by (intro upd [where p' = Running and
            es = "[(now_at env (orch_clock (wv_orch wv)), ''step_start'', step_payload s)]"])
        (simp_all add: emit_def set_status_def preds events_def)
  next
    fix rn res ctx
    assume "p = Running" "runner_of (wv_orch wv) s = Inr (Some rn)"
      and a: "act env st i wv = set_phase i (Ran res)
         (set_orch ((wv_orch wv)\<lparr>orch_context := ctx, orch_clock := Suc (orch_clock (wv_orch wv))\<rparr>) wv)"
    then show ?thesis
      unfolding a using r sp
      by (intro upd [where p' = "Ran res" and es = "[]"]) (simp_all add: preds)
  next
    assume "p = Running" "\<not> has_runner (wv_orch wv) s"
    then show ?thesis using old(2) r by (auto simp: preds split: sum.splits option.splits)
  next
    fix v w ev pl fin
    assume p: "p = Ran v" and fin: "fin \<in> {''done'', ''failed''}" "ev = ''step_'' @ fin"
      and a: "act env st i wv = set_phase i (Returned w)
         (set_orch (emit env st ev pl (set_status s fin (wv_orch wv))) wv)"
    have "has_runner orc s" using old(2) p by (auto simp: preds split: sum.splits option.splits)
    then show ?thesis
      unfolding a using r sp p fin
      by (intro upd [where p' = "Returned w" and es = "[(now_at env (orch_clock (wv_orch wv)), ev, pl)]"])
        (auto simp: emit_def set_status_def preds events_def)
  next
    fix v ctx
    assume p: "p = Returned v"
      and a: "act env st i wv = set_phase i Collected (set_orch ((wv_orch wv)\<lparr>orch_context := ctx\<rparr>) wv)"
    have "\<not> lookup_raises orc s" using old(2) p by (auto simp: preds)
    then show ?thesis
      unfolding a using sp old p
      by (intro upd [where p' = Collected and es = "[]"]) (auto simp: preds split: sum.splits option.splits)
  next
    fix e
    assume p: "p = Waiting" "runner_of (wv_orch wv) s = Inl e" and a: "act env st i wv = set_phase i (Escaped e) wv"
    then show ?thesis
      unfolding a using r sp by (intro upd [where p' = "Escaped e" and es = "[]"]) (simp_all add: preds)
  next
    fix e
    assume p: "p = Escaped e"
      and a: "act env st i wv = set_phase i Collected
         (set_orch (emit env st ''step_failed'' (failure_payload s e) (set_status s ''failed'' (wv_orch wv))) wv)"
    have "lookup_raises orc s" using old(2) p by (auto simp: preds split: sum.splits option.splits)
    then show ?thesis
      unfolding a using sp p
      by (intro upd [where p' = Collected and
            es = "[(now_at env (orch_clock (wv_orch wv)), ''step_failed'', failure_payload s e)]"])
        (auto simp: emit_def set_status_def preds events_def)
  qed
qed

lemma wave_inv_init: "wave_inv orc st steps (wave_of steps orc)"
proof -
  have "how_many P (wave_of steps orc) = 0" if "\<And>s. \<not> P (s, Waiting)" for P
    using that by (auto simp: how_many_def wave_of_def filter_empty_conv)
  then show ?thesis
    by (auto simp: wave_inv_def wave_of_def comp_def ended_def phase_ok_def intro!: exI [of _ "[]"] split: sum.split option.split)
qed

lemma how_many_all:
  assumes "map fst (wv_steps wv) = steps" "\<forall>x\<in>set (wv_steps wv). snd x = Collected"
    and "\<And>s. P (s, Collected) \<longleftrightarrow> Q s"
  shows "how_many P wv = length (filter Q steps)"
proof -
  have "filter P (wv_steps wv) = filter (Q \<circ> fst) (wv_steps wv)"
    using assms(2,3) by (intro filter_cong) (auto simp: prod_eq_iff)
  then show ?thesis by (simp add: how_many_def filter_map flip: assms(1))
qed

text \<open>What a finished wave leaves: one start and one end per step with a module, and its outcome.\<close>

definition wave_done :: "orch \<Rightarrow> campaign \<Rightarrow> plan_step list \<Rightarrow> orch \<Rightarrow> bool" where
  "wave_done orc st steps orc' \<longleftrightarrow>
     ((\<exists>items. orch_journal orc' = orch_journal orc @ map (\<lambda>e. Inr (st, e)) items \<and>
         events ''step_start'' items = length (filter (has_runner orc) steps) \<and>
         events ''step_done'' items + events ''step_failed'' items = length (filter (concludes orc) steps) \<and>
         events ''module_missing'' items = length (filter (no_runner orc) steps) \<and>
         length items = length steps + length (filter (has_runner orc) steps)) \<and>
      (\<forall>s\<in>set steps. concludes orc s \<longrightarrow>
         dict_get (orch_status orc') (step_id s) \<in> {Some ''done'', Some ''failed''}) \<and>
      orch_registry orc' = orch_registry orc \<and> orch_scope orc' = orch_scope orc \<and>
      orch_workers orc' = orch_workers orc)"

lemma wave_inv_done:
  assumes inv: "wave_inv orc st steps wv" and col: "\<forall>x\<in>set (wv_steps wv). snd x = Collected"
  shows "wave_done orc st steps (wv_orch wv)"
proof -
  have fsts: "map fst (wv_steps wv) = steps"
    and reg: "orch_registry (wv_orch wv) = orch_registry orc" "orch_scope (wv_orch wv) = orch_scope orc"
      "orch_workers (wv_orch wv) = orch_workers orc"
    and st: "\<forall>(s, p)\<in>set (wv_steps wv). ended orc s p \<longrightarrow>
      dict_get (orch_status (wv_orch wv)) (step_id s) \<in> {Some ''done'', Some ''failed''}"
    using inv unfolding wave_inv_def by - (elim conjE, assumption)+
  note all = how_many_all [OF fsts col]
  have n: "length (filter (concludes orc) steps) + length (filter (no_runner orc) steps) = length steps"
    using sum_length_filter_compl [of "concludes orc" steps] by (simp add: concludes_iff)
  have h: "how_many (\<lambda>(s, p). has_runner orc s \<and> p \<noteq> Waiting) wv = length (filter (has_runner orc) steps)"
    "how_many (\<lambda>(s, p). ended orc s p) wv = length (filter (concludes orc) steps)"
    "how_many (\<lambda>(s, p). no_runner orc s \<and> p \<noteq> Waiting) wv = length (filter (no_runner orc) steps)"
    by (rule all; simp add: ended_def concludes_def)+
  obtain items where items: "orch_journal (wv_orch wv) = orch_journal orc @ map (\<lambda>e. Inr (st, e)) items"
    "events ''step_start'' items = length (filter (has_runner orc) steps)"
    "events ''step_done'' items + events ''step_failed'' items = length (filter (concludes orc) steps)"
    "events ''module_missing'' items = length (filter (no_runner orc) steps)"
    "length items = events ''step_start'' items + events ''step_done'' items + events ''step_failed'' items +
       events ''module_missing'' items"
    using inv unfolding wave_inv_def h by blast
  have len: "length items = length steps + length (filter (has_runner orc) steps)"
    using items n by linarith
  have status: "\<forall>s\<in>set steps. concludes orc s \<longrightarrow>
     dict_get (orch_status (wv_orch wv)) (step_id s) \<in> {Some ''done'', Some ''failed''}"
  proof (intro ballI impI)
    fix s
    assume s: "s \<in> set steps" "concludes orc s"
    obtain p where p: "(s, p) \<in> set (wv_steps wv)" using s(1) unfolding fsts [symmetric] by auto
    then have "p = Collected" using col by auto
    then show "dict_get (orch_status (wv_orch wv)) (step_id s) \<in> {Some ''done'', Some ''failed''}"
      using bspec [OF st p] s(2) by (auto simp: ended_def concludes_def)
  qed
  show ?thesis
    unfolding wave_done_def using items(1-4) len status reg by blast
qed

lemma run_wave_done:
  assumes "0 < orch_workers orc" and "distinct (map step_id steps)"
  shows "\<exists>orc'. run_wave env st orc steps = Inr orc' \<and> wave_done orc st steps orc'"
proof -
  let ?w = "run_pool env st (wave_of steps orc)"
  have "wave_inv orc st steps ?w \<and> enabled_list ?w = []"
    by (rule run_pool_invariant [where P = "wave_inv orc st steps", OF wave_inv_init wave_inv_act [OF _ assms(2)]])
  then have inv: "wave_inv orc st steps ?w" and "enabled_list ?w = []" by simp_all
  moreover from inv have "0 < orch_workers (wv_orch ?w)" using assms(1) by (simp add: wave_inv_def)
  ultimately have "\<forall>x\<in>set (wv_steps ?w). snd x = Collected"
    using enabled_progress [of ?w] by (simp add: all_set_conv_all_nth)
  from wave_inv_done [OF inv this] show ?thesis using assms(1) by (simp add: run_wave_def)
qed

text \<open>
  C30: Failures are isolated. Under every scheduler and whatever the modules do or raise, a wave ends:
  each step with a module logs one start and one end and is left done or failed, each step whose module
  cannot be looked up, being a list or a dictionary, logs that it failed and is left failed, each step without
  a module logs that it is missing, and nothing else is written.
\<close>
theorem wave_isolated:
  assumes "0 < orch_workers orc" and "distinct (map step_id steps)"
  shows "\<exists>orc' items. run_wave env st orc steps = Inr orc' \<and>
     orch_journal orc' = orch_journal orc @ map (\<lambda>e. Inr (st, e)) items \<and>
     events ''step_start'' items = length (filter (has_runner orc) steps) \<and>
     events ''step_done'' items + events ''step_failed'' items = length (filter (concludes orc) steps) \<and>
     events ''module_missing'' items = length (filter (no_runner orc) steps) \<and>
     length items = length steps + length (filter (has_runner orc) steps) \<and>
     (\<forall>s\<in>set steps. concludes orc s \<longrightarrow>
        dict_get (orch_status orc') (step_id s) \<in> {Some ''done'', Some ''failed''})"
  using run_wave_done [OF assms, of env st] by (auto simp: wave_done_def)

definition raising_module :: runner where
  "raising_module n s ctx = (Inl (RuntimeError ''boom''), ctx)"

definition sample_orch :: orch where
  "sample_orch =
     \<lparr>orch_journal = [], orch_scope = sample_enforcer, orch_registry = [(''discovery'', raising_module)],
      orch_workers = 2, orch_counter = 0,
      orch_context = \<lparr>ctx_findings = [], ctx_reports = [], ctx_extra = [], ctx_plan = []\<rparr>,
      orch_status = [], orch_clock = 0\<rparr>"

definition sample_env :: environment where
  "sample_env = \<lparr>now_at = (\<lambda>n. PFloat (int n * 10) 1), pick = (\<lambda>n. n)\<rparr>"

text \<open>The sample plan and a step whose module is a list.\<close>

definition odd_steps :: "plan_step list" where
  "odd_steps = (hd (snd sample_plan))\<lparr>step_id := 99, step_module := PList []\<rparr> # snd sample_plan"

lemma odd_lookups:
  "distinct (map step_id odd_steps)" "length (filter (has_runner sample_orch) odd_steps) = 1"
  "length (filter (concludes sample_orch) odd_steps) = 2" "length (filter (no_runner sample_orch) odd_steps) = 4"
  "concludes sample_orch (hd odd_steps)" "step_id (hd odd_steps) = 99" "length odd_steps = 6"
  by code_simp+

theorem wave_isolated_witness:
  "\<exists>orc' items. run_wave sample_env sample_campaign sample_orch odd_steps = Inr orc' \<and>
     orch_journal orc' = orch_journal sample_orch @ map (\<lambda>e. Inr (sample_campaign, e)) items \<and>
     events ''step_start'' items = 1 \<and> events ''step_done'' items + events ''step_failed'' items = 2 \<and>
     events ''module_missing'' items = 4 \<and> length items = 7 \<and>
     dict_get (orch_status orc') 99 \<in> {Some ''done'', Some ''failed''}"
proof -
  have w: "0 < orch_workers sample_orch" by (simp add: sample_orch_def)
  have h: "hd odd_steps \<in> set odd_steps" by (simp add: odd_steps_def)
  obtain orc' items where r: "run_wave sample_env sample_campaign sample_orch odd_steps = Inr orc'"
    "orch_journal orc' = orch_journal sample_orch @ map (\<lambda>e. Inr (sample_campaign, e)) items"
    "events ''step_start'' items = 1" "events ''step_done'' items + events ''step_failed'' items = 2"
    "events ''module_missing'' items = 4" "length items = 7"
    "\<forall>s\<in>set odd_steps. concludes sample_orch s \<longrightarrow> dict_get (orch_status orc') (step_id s) \<in> {Some ''done'', Some ''failed''}"
    using wave_isolated [OF w odd_lookups(1), of sample_env sample_campaign] unfolding odd_lookups(2-4,7) by auto
  from r(7) h have "dict_get (orch_status orc') 99 \<in> {Some ''done'', Some ''failed''}"
    using odd_lookups(5,6) by (metis (no_types, lifting))
  with r(1-6) show ?thesis by blast
qed

end
