(* ===== verification/Orchestrator.thy ===== *)
theory Orchestrator
  imports Wave
begin

text \<open>
  \<open>core/orchestrator.py\<close>: a campaign from the scope check to its report. The result of
  \<open>run_campaign\<close> is the returned campaign or the exception, beside the orchestrator with
  everything it wrote; None means that the planner's scheduling loop does not end.
\<close>

section \<open>Authorisation\<close>

text \<open>\<open>int(port)\<close> over \<open>requested\<close>.\<close>

definition port_int :: "pyval \<Rightarrow> exc + int" where
  "port_int v =
     (case v of
        PInt i \<Rightarrow> Inr i
      | PBool b \<Rightarrow> Inr (if b then 1 else 0)
      | PFloat m k \<Rightarrow> Inr (if 0 \<le> m then m div 10 ^ k else - (- m div 10 ^ k))
      | PStr s \<Rightarrow> if s \<noteq> [] \<and> list_all is_dec s then int_of_token s else Inl OutOfModel
      | _ \<Rightarrow> Inl (TypeError ''int() argument must be a string or a number''))"

definition ports_requested :: "pyval \<Rightarrow> exc + int list" where
  "ports_requested v =
     (case v of
        PList vs \<Rightarrow> map_res port_int vs
      | PStr s \<Rightarrow> map_res (\<lambda>c. port_int (PStr [c])) s
      | PDict d \<Rightarrow> map_res (\<lambda>(k, _). port_int (PStr k)) d
      | _ \<Rightarrow> Inl (TypeError ''object is not iterable''))"

definition authorize_step :: "scope_enforcer \<Rightarrow> unit \<Rightarrow> plan_step \<Rightarrow> exc + unit" where
  "authorize_step e u s =
     bind_res (check e (step_target s)) (\<lambda>_.
       let requested = dget (params s) ''ports'' in
       if truthy requested then bind_res (ports_requested requested) (check_ports e) else Inr ())"

definition authorize_steps :: "scope_enforcer \<Rightarrow> plan_step list \<Rightarrow> exc + unit" where
  "authorize_steps e steps = fold_res (authorize_step e) () steps"

section \<open>Waves\<close>

definition execute_waves :: "environment \<Rightarrow> campaign \<Rightarrow> orch \<Rightarrow> plan_step list list \<Rightarrow> exc + orch" where
  "execute_waves env st orc waves =
     (if status st = PStr ''aborted'' then Inr orc else fold_res (run_wave env st) orc waves)"

text \<open>An exception of a wave keeps what the earlier waves wrote.\<close>

fun waves_done :: "environment \<Rightarrow> campaign \<Rightarrow> orch \<Rightarrow> plan_step list list \<Rightarrow> orch" where
  "waves_done env st orc [] = orc"
| "waves_done env st orc (w # ws) =
     (case run_wave env st orc w of Inl _ \<Rightarrow> orc | Inr orc' \<Rightarrow> waves_done env st orc' ws)"

section \<open>The asset graph of a campaign\<close>

definition meta_set :: "string \<Rightarrow> pyval \<Rightarrow> campaign \<Rightarrow> campaign" where
  "meta_set k v st =
     st\<lparr>meta := (case meta st of PDict d \<Rightarrow> PDict (dict_set k v d) | m \<Rightarrow> m)\<rparr>"

definition meta_dict :: "campaign \<Rightarrow> pydict" where
  "meta_dict st = (case meta st of PDict d \<Rightarrow> d | _ \<Rightarrow> [])"

definition finding_dicts :: "pyval \<Rightarrow> exc + pydict list" where
  "finding_dicts v =
     (case v of PList vs \<Rightarrow> map_res (\<lambda>f. case f of PDict d \<Rightarrow> Inr d | _ \<Rightarrow> Inl OutOfModel) vs
              | _ \<Rightarrow> Inl OutOfModel)"

definition finalize_graph ::
  "native \<Rightarrow> rust_graph \<Rightarrow> nat \<Rightarrow> context_data \<Rightarrow> campaign \<Rightarrow> campaign" where
  "finalize_graph nv rg depth ctx st =
     (let own = dget_or (meta_dict st) ''findings'' (PList []);
          failed = (\<lambda>e. meta_set ''graph_error'' (PStr (exc_message e))) in
      case bind_res (if truthy own then finding_dicts own else Inr (ctx_findings ctx)) (ingest empty_graph) of
        Inl e \<Rightarrow> failed e st
      | Inr (g, _) \<Rightarrow>
          let st1 = meta_set ''graph_edges'' (PInt (int (length (g_adj g))))
                (meta_set ''graph_nodes'' (PInt (int (length (g_nodes g)))) st) in
          case top_targets nv rg depth 8 g of
            Inl e \<Rightarrow> failed e st1
          | Inr (names, g') \<Rightarrow>
              meta_set ''graph_engines'' (engines_dict g') (meta_set ''top_targets'' (PList (map PStr names)) st1))"

section \<open>A campaign\<close>

record host =
  host_env :: environment
  host_fresh :: string
  host_native :: native
  host_rust :: rust_graph
  host_depth :: nat

definition clock :: "host \<Rightarrow> orch \<Rightarrow> pyval" where
  "clock h orc = now_at (host_env h) (orch_clock orc)"

definition move_to :: "host \<Rightarrow> string \<Rightarrow> campaign \<Rightarrow> orch \<Rightarrow> exc + (campaign \<times> orch)" where
  "move_to h s st orc =
     bind_res (transition (clock h orc) s st) (\<lambda>st'.
       Inr (st', store_save st' (orc\<lparr>orch_clock := Suc (orch_clock orc)\<rparr>)))"

definition log :: "host \<Rightarrow> campaign \<Rightarrow> string \<Rightarrow> pydict \<Rightarrow> orch \<Rightarrow> orch" where
  "log h = emit (host_env h)"

definition campaign_failed :: "host \<Rightarrow> exc \<Rightarrow> campaign \<Rightarrow> orch \<Rightarrow> (exc + campaign) \<times> orch" where
  "campaign_failed h e st orc =
     (case move_to h ''failed'' st orc of
        Inl e' \<Rightarrow> (Inl e', orc)
      | Inr (st', orc') \<Rightarrow>
          (Inl e, log h st' ''campaign_failed''
             [(''error'', PStr (exc_message e)), (''ts'', clock h orc')] orc'))"

definition campaign_finished :: "host \<Rightarrow> plan_step list \<Rightarrow> campaign \<Rightarrow> orch \<Rightarrow> (exc + campaign) \<times> orch" where
  "campaign_finished h steps st orc =
     (case transition (clock h orc) ''done'' st of
        Inl e \<Rightarrow> (Inl e, orc)
      | Inr st1 \<Rightarrow>
          let ctx = orch_context orc;
              st2 = meta_set ''plan'' (PStr (to_json steps))
                (meta_set ''report_count'' (PInt (int (length (ctx_reports ctx))))
                (meta_set ''findings_count'' (PInt (int (length (ctx_findings ctx)))) st1));
              st3 = finalize_graph (host_native h) (host_rust h) (host_depth h) ctx st2;
              orc1 = store_save st3 (orc\<lparr>orch_clock := Suc (orch_clock orc)\<rparr>)
          in (Inr st3, log h st3 ''campaign_done''
                [(''findings'', dget_or (meta_dict st3) ''findings_count'' PNone)] orc1))"

text \<open>From the authorised plan on: scanning, the waves, and the end of the campaign.\<close>

definition run_steps ::
  "host \<Rightarrow> plan_step list \<Rightarrow> plan_step list list \<Rightarrow> campaign \<Rightarrow> orch \<Rightarrow> (exc + campaign) \<times> orch" where
  "run_steps h steps waves st orc =
     (case move_to h ''scanning'' st orc of
        Inl e \<Rightarrow> (Inl e, orc)
      | Inr (st1, orc1) \<Rightarrow>
          let orc2 = log h st1 ''plan_built'' [(''steps'', PStr (to_json steps))]
                (orc1\<lparr>orch_context := (orch_context orc1)\<lparr>ctx_plan := steps\<rparr>\<rparr>) in
          case execute_waves (host_env h) st1 orc2 waves of
            Inl e \<Rightarrow> campaign_failed h e st1 (waves_done (host_env h) st1 orc2 waves)
          | Inr orc3 \<Rightarrow> campaign_finished h steps st1 orc3)"

definition run_campaign ::
  "host \<Rightarrow> orch \<Rightarrow> string \<Rightarrow> pydict list \<Rightarrow> ((exc + campaign) \<times> orch) option" where
  "run_campaign h orc tgt intelligence =
     (case check (orch_scope orc) tgt of
        Inl e \<Rightarrow> Some (Inl e, orc)
      | Inr _ \<Rightarrow>
     case new_campaign (clock h orc) (host_fresh h) (PStr tgt) PNone (PDict []) of
        Inl e \<Rightarrow> Some (Inl e, orc)
      | Inr st \<Rightarrow>
     case move_to h ''planning'' st (orc\<lparr>orch_clock := Suc (orch_clock orc)\<rparr>) of
        Inl e \<Rightarrow> Some (Inl e, orc)
      | Inr (st1, orc1) \<Rightarrow>
     let orc2 = log h st1 ''campaign_start'' [(''target'', PStr tgt)] orc1 in
     case plan (orch_counter orc2) intelligence tgt of
        Inl e \<Rightarrow> Some (Inl e, orc2)
      | Inr (n, steps) \<Rightarrow>
     let orc3 = orc2\<lparr>orch_counter := n\<rparr> in
     case authorize_steps (orch_scope orc3) steps of
        Inl e \<Rightarrow> Some (Inl e, orc3)
      | Inr _ \<Rightarrow>
     case schedule (orch_workers orc3) steps of
        None \<Rightarrow> None
      | Some (Inl e) \<Rightarrow> Some (Inl e, orc3)
      | Some (Inr waves) \<Rightarrow> Some (run_steps h steps waves st1 orc3))"

definition recover :: "host \<Rightarrow> files \<Rightarrow> string \<Rightarrow> orch \<Rightarrow> exc + (campaign \<times> orch)" where
  "recover h fs cid orc =
     bind_res (load (clock h orc) (host_fresh h) fs cid) (\<lambda>st.
       Inr (st, log h st ''campaign_recovered'' [] orc))"

definition report :: "files \<Rightarrow> campaign \<Rightarrow> exc + pyval" where
  "report fs st =
     bind_res (read_log fs (campaign_id st)) (\<lambda>timeline.
       Inr (PDict [(''campaign_id'', PStr (campaign_id st)), (''target'', PStr (target st)),
         (''status'', status st), (''summary'', meta st), (''timeline'', PList timeline)]))"

section \<open>Facts\<close>

lemma waves_done_ok: "fold_res (run_wave env st) orc waves = Inr orc' \<Longrightarrow> waves_done env st orc waves = orc'"
  by (induction waves arbitrary: orc) (auto simp: bind_res_eq_Inr)

lemma meta_set_frame [simp]:
  "campaign_id (meta_set k v st) = campaign_id st" "status (meta_set k v st) = status st"
  "target (meta_set k v st) = target st"
  by (simp_all add: meta_set_def)

lemma finalize_graph_frame [simp]:
  "campaign_id (finalize_graph nv rg d ctx st) = campaign_id st"
  "status (finalize_graph nv rg d ctx st) = status st"
  "target (finalize_graph nv rg d ctx st) = target st"
  by (simp_all add: finalize_graph_def Let_def split: sum.split prod.split)

lemma authorize_steps_iff:
  "authorize_steps e steps = Inr () \<longleftrightarrow>
     (\<forall>s\<in>set steps. is_target_allowed e (step_target s) \<and>
        (truthy (dget (params s) ''ports'') \<longrightarrow>
           (\<exists>ps. ports_requested (dget (params s) ''ports'') = Inr ps \<and>
              (allowed_ports e = [] \<or> set ps \<subseteq> set (allowed_ports e)))))"
  unfolding authorize_steps_def
  by (induction steps) (auto simp: bind_res_eq_Inr authorize_step_def Let_def check_iff check_ports_iff)

text \<open>The registry, scope and workers never change; a wave's entries accumulate.\<close>

lemma lookups_cong:
  "orch_registry orc = orch_registry orc' \<Longrightarrow>
     has_runner orc = has_runner orc' \<and> concludes orc = concludes orc' \<and> no_runner orc = no_runner orc'"
  using runner_of_cong [of orc orc']
  by (simp add: fun_eq_iff has_runner_def concludes_def lookup_raises_def no_runner_def)

lemma run_waves_done:
  assumes "0 < orch_workers orc" and "distinct (map step_id (concat waves))"
  shows "\<exists>orc' items. fold_res (run_wave env st) orc waves = Inr orc' \<and>
     orch_journal orc' = orch_journal orc @ map (\<lambda>e. Inr (st, e)) items \<and>
     events ''step_start'' items = length (filter (has_runner orc) (concat waves)) \<and>
     events ''step_done'' items + events ''step_failed'' items = length (filter (concludes orc) (concat waves)) \<and>
     events ''module_missing'' items = length (filter (no_runner orc) (concat waves))"
  using assms
proof (induction waves arbitrary: orc)
  case Nil
  then show ?case by (auto intro!: exI [of _ "[]"])
next
  case (Cons w ws)
  have "distinct (map step_id w)" using Cons.prems(2) by simp
  from run_wave_done [OF Cons.prems(1) this, of env st] obtain o1 where
    o1: "run_wave env st orc w = Inr o1" "wave_done orc st w o1" by blast
  then obtain items where items: "orch_journal o1 = orch_journal orc @ map (\<lambda>e. Inr (st, e)) items"
    "events ''step_start'' items = length (filter (has_runner orc) w)"
    "events ''step_done'' items + events ''step_failed'' items = length (filter (concludes orc) w)"
    "events ''module_missing'' items = length (filter (no_runner orc) w)"
    by (auto simp: wave_done_def)
  have reg: "has_runner o1 = has_runner orc" "concludes o1 = concludes orc" "no_runner o1 = no_runner orc"
    using o1(2) lookups_cong [of o1 orc] by (simp_all add: wave_done_def)
  have "0 < orch_workers o1" "distinct (map step_id (concat ws))"
    using o1(2) Cons.prems by (simp_all add: wave_done_def)
  from Cons.IH [OF this] obtain orc' items' where IH: "fold_res (run_wave env st) o1 ws = Inr orc'"
    "orch_journal orc' = orch_journal o1 @ map (\<lambda>e. Inr (st, e)) items'"
    "events ''step_start'' items' = length (filter (has_runner orc) (concat ws))"
    "events ''step_done'' items' + events ''step_failed'' items' = length (filter (concludes orc) (concat ws))"
    "events ''module_missing'' items' = length (filter (no_runner orc) (concat ws))"
    unfolding reg by blast
  have ev: "events k (items @ items') = events k items + events k items'" for k by (simp add: events_def)
  show ?case
    using o1(1) IH items
    by (intro exI [of _ orc'] exI [of _ "items @ items'"]) (simp add: ev)
qed

lemma move_to_Inr:
  assumes "move_to h s st orc = Inr (st', orc')"
  shows "status st' = PStr s \<and> campaign_id st' = campaign_id st \<and> target st' = target st \<and> meta st' = meta st \<and>
     orch_journal orc' = orch_journal orc @ [Inl st'] \<and> orch_context orc' = orch_context orc \<and>
     orch_status orc' = orch_status orc \<and> orch_registry orc' = orch_registry orc \<and>
     orch_workers orc' = orch_workers orc \<and> orch_scope orc' = orch_scope orc \<and> orch_counter orc' = orch_counter orc"
  using assms transition_frame [of "clock h orc" s st] by (auto simp: move_to_def bind_res_eq_Inr store_save_def)

lemma move_to_total: "s \<in> set STATUS_CHOICES \<Longrightarrow> \<exists>st' orc'. move_to h s st orc = Inr (st', orc')"
  by (auto simp: move_to_def transition_def Let_def)

lemma log_frame [simp]:
  "orch_context (log h st ev pl orc) = orch_context orc" "orch_status (log h st ev pl orc) = orch_status orc"
  "orch_registry (log h st ev pl orc) = orch_registry orc" "orch_workers (log h st ev pl orc) = orch_workers orc"
  "orch_scope (log h st ev pl orc) = orch_scope orc" "orch_counter (log h st ev pl orc) = orch_counter orc"
  "orch_journal (log h st ev pl orc) = orch_journal orc @ [Inr (st, (clock h orc, ev, pl))]"
  by (simp_all add: log_def emit_def clock_def)

text \<open>Everything a campaign writes is about its own target, and it starts steps of its plan only.\<close>

fun entry_about :: "string \<Rightarrow> plan_step set \<Rightarrow> campaign + campaign \<times> log_item \<Rightarrow> bool" where
  "entry_about t S (Inl st) \<longleftrightarrow> target st = t"
| "entry_about t S (Inr (st, _, event, payload)) \<longleftrightarrow>
     target st = t \<and> (event = ''step_start'' \<longrightarrow> payload \<in> step_payload ` S)"

definition journal_about :: "string \<Rightarrow> plan_step set \<Rightarrow> journal \<Rightarrow> bool" where
  "journal_about t S j \<longleftrightarrow> list_all (entry_about t S) j"

lemma journal_about_simps [simp]:
  "journal_about t S []" "journal_about t S (j @ k) \<longleftrightarrow> journal_about t S j \<and> journal_about t S k"
  "journal_about t S (op # j) \<longleftrightarrow> entry_about t S op \<and> journal_about t S j"
  by (simp_all add: journal_about_def)

definition wave_about :: "campaign \<Rightarrow> plan_step set \<Rightarrow> wave \<Rightarrow> bool" where
  "wave_about st S wv \<longleftrightarrow> journal_about (target st) S (orch_journal (wv_orch wv)) \<and> fst ` set (wv_steps wv) \<subseteq> S"

lemma act_about:
  assumes "wave_about st S wv" "i < length (wv_steps wv)" "enabled wv i"
  shows "wave_about st S (act env st i wv)"
proof -
  obtain s p where sp: "wv_steps wv ! i = (s, p)" by fastforce
  have s: "s \<in> S" using assms(1) nth_mem [OF assms(2)] by (force simp: wave_about_def sp)
  have nc: "snd (wv_steps wv ! i) \<noteq> Collected" using enabled_not_collected [OF assms(3)] .
  obtain p' where "wv_steps (act env st i wv) = (wv_steps wv)[i := (s, p')]"
    using act_moves [of env st i wv] by (auto simp: sp)
  moreover have "fst ` set ((wv_steps wv)[i := (s, p')]) \<subseteq> fst ` insert (s, p') (set (wv_steps wv))"
    by (rule image_mono) (rule set_update_subset_insert)
  ultimately have "fst ` set (wv_steps (act env st i wv)) \<subseteq> S"
    using assms(1) s by (auto simp: wave_about_def)
  moreover have "journal_about (target st) S (orch_journal (wv_orch (act env st i wv)))"
    using sp nc by (rule act_cases [where env = env and st = st])
      (use assms(1) s in \<open>auto simp: wave_about_def emit_def set_status_def\<close>)
  ultimately show ?thesis by (simp add: wave_about_def)
qed

lemma run_wave_about:
  assumes "run_wave env st orc steps = Inr orc'" "journal_about (target st) S (orch_journal orc)" "set steps \<subseteq> S"
  shows "journal_about (target st) S (orch_journal orc')"
proof -
  have "orc' = wv_orch (run_pool env st (wave_of steps orc))" using assms(1) by (simp add: run_wave_def split: if_splits)
  moreover have "wave_about st S (wave_of steps orc)" using assms(2,3) by (auto simp: wave_of_def wave_about_def)
  then have "wave_about st S (run_pool env st (wave_of steps orc))" 
    using run_pool_invariant [where P = "wave_about st S"] act_about by blast
  ultimately show ?thesis by (simp add: wave_about_def)
qed

lemma waves_about:
  "journal_about (target st) S (orch_journal orc) \<Longrightarrow> set (concat waves) \<subseteq> S \<Longrightarrow>
     journal_about (target st) S (orch_journal (waves_done env st orc waves))"
  by (induction waves arbitrary: orc) (auto split: sum.split dest: run_wave_about)

lemma execute_waves_done: "execute_waves env st orc waves = Inr orc' \<Longrightarrow> orc' = orc \<or> orc' = waves_done env st orc waves"
  using waves_done_ok by (auto simp: execute_waves_def split: if_splits)

text \<open>The start of a campaign, up to the authorisation of its plan.\<close>

lemma campaign_start:
  assumes "check (orch_scope orc) tgt = Inr ()" and "host_fresh h \<noteq> []"
  shows "\<exists>st st1 orc1. new_campaign (clock h orc) (host_fresh h) (PStr tgt) PNone (PDict []) = Inr st \<and>
     move_to h ''planning'' st (orc\<lparr>orch_clock := Suc (orch_clock orc)\<rparr>) = Inr (st1, orc1) \<and>
     status st1 = PStr ''planning'' \<and> campaign_id st1 = host_fresh h \<and> target st1 = strip tgt \<and>
     meta st1 = PDict [] \<and> orch_journal orc1 = orch_journal orc @ [Inl st1] \<and>
     orch_context orc1 = orch_context orc \<and> orch_status orc1 = orch_status orc \<and>
     orch_registry orc1 = orch_registry orc \<and> orch_workers orc1 = orch_workers orc \<and>
     orch_scope orc1 = orch_scope orc \<and> orch_counter orc1 = orch_counter orc"
proof -
  have "norm_domain tgt \<noteq> []"
    using assms(1) by (auto simp: check_iff is_target_allowed_def Let_def)
  then have ne: "strip tgt \<noteq> []" by (auto simp: norm_domain_def)
  then have "tgt \<noteq> []" by auto
  with ne obtain st where st: "new_campaign (clock h orc) (host_fresh h) (PStr tgt) PNone (PDict []) = Inr st"
    "campaign_id st = host_fresh h" "target st = strip tgt" "meta st = PDict []"
    by (simp add: new_campaign_def)
  obtain st1 orc1 where m: "move_to h ''planning'' st (orc\<lparr>orch_clock := Suc (orch_clock orc)\<rparr>) = Inr (st1, orc1)"
    using move_to_total [of "''planning''" h st "orc\<lparr>orch_clock := Suc (orch_clock orc)\<rparr>"]
    by (auto simp: STATUS_CHOICES_def)
  then show ?thesis using move_to_Inr [OF m] st by auto
qed

text \<open>
  C8: A target outside the authorised scope is refused before anything happens: \<open>run_campaign\<close>
  raises the \<open>ScopeError\<close> and leaves the orchestrator, its store and its context as they were.
\<close>
theorem out_of_scope_untouched:
  assumes "\<not> is_target_allowed (orch_scope orc) tgt"
  shows "\<exists>e. run_campaign h orc tgt intelligence = Some (Inl e, orc) \<and> is_scope_error e"
  using assms by (simp add: run_campaign_def check_def)

text \<open>
  C10: No module runs unless every step of the plan is authorised. When a step leaves the scope the
  campaign raises before its first wave: nothing but its creation was stored, the context is untouched,
  and the stored campaign stays in \<open>planning\<close>.
\<close>
theorem unauthorised_plan_runs_nothing:
  assumes "is_target_allowed (orch_scope orc) tgt" and "host_fresh h \<noteq> []"
    and "plan (orch_counter orc) intelligence tgt = Inr (n, steps)"
    and "authorize_steps (orch_scope orc) steps = Inl e"
  shows "\<exists>st orc' entry. run_campaign h orc tgt intelligence = Some (Inl e, orc') \<and>
     orch_context orc' = orch_context orc \<and> orch_status orc' = orch_status orc \<and>
     orch_journal orc' = orch_journal orc @ [Inl st, Inr (st, entry)] \<and>
     status st = PStr ''planning'' \<and> fst (snd entry) = ''campaign_start''"
proof -
  have c: "check (orch_scope orc) tgt = Inr ()" using assms(1) by (simp add: check_iff)
  obtain st st1 orc1 where s: "new_campaign (clock h orc) (host_fresh h) (PStr tgt) PNone (PDict []) = Inr st"
    "move_to h ''planning'' st (orc\<lparr>orch_clock := Suc (orch_clock orc)\<rparr>) = Inr (st1, orc1)"
    "status st1 = PStr ''planning''" "orch_journal orc1 = orch_journal orc @ [Inl st1]"
    "orch_context orc1 = orch_context orc" "orch_status orc1 = orch_status orc"
    "orch_scope orc1 = orch_scope orc" "orch_counter orc1 = orch_counter orc"
    using campaign_start [OF c assms(2)] by blast
  show ?thesis
    using s assms(3,4) by (simp add: run_campaign_def c Let_def)
qed

definition sample_host :: host where
  "sample_host =
     \<lparr>host_env = sample_env, host_fresh = ''c1'', host_native = no_cores, host_rust = no_rust_graph, host_depth = 3\<rparr>"

lemma sample_target: "is_target_allowed (orch_scope sample_orch) ''example.com''"
  by code_simp

theorem out_of_scope_untouched_witness:
  "\<exists>e. run_campaign sample_host sample_orch ''example.org'' [] = Some (Inl e, sample_orch) \<and> is_scope_error e"
  by (rule out_of_scope_untouched) code_simp

text \<open>An asset step asking for port 80 in an engagement that covers port 443 only.\<close>

definition port_intelligence :: "pydict list" where
  "port_intelligence = [[(''module'', PStr ''asset''), (''params'', PDict [(''ports'', PList [PInt 80])])]]"

definition narrow_orch :: orch where
  "narrow_orch = sample_orch\<lparr>orch_scope := sample_enforcer\<lparr>allowed_ports := [443]\<rparr>\<rparr>"

theorem unauthorised_plan_runs_nothing_witness:
  "\<exists>e st orc' entry. run_campaign sample_host narrow_orch ''example.com'' port_intelligence = Some (Inl e, orc') \<and>
     orch_context orc' = orch_context narrow_orch \<and> orch_status orc' = orch_status narrow_orch \<and>
     orch_journal orc' = orch_journal narrow_orch @ [Inl st, Inr (st, entry)] \<and>
     status st = PStr ''planning'' \<and> fst (snd entry) = ''campaign_start''"
proof -
  have run: "case plan (orch_counter narrow_orch) port_intelligence ''example.com'' of
      Inl _ \<Rightarrow> False
    | Inr (_, steps) \<Rightarrow> isl (authorize_steps (orch_scope narrow_orch) steps)"
    by code_simp
  then obtain n steps e where "plan (orch_counter narrow_orch) port_intelligence ''example.com'' = Inr (n, steps)"
    "authorize_steps (orch_scope narrow_orch) steps = Inl e"
    by (auto split: sum.splits prod.splits simp: isl_def)
  moreover have "is_target_allowed (orch_scope narrow_orch) ''example.com''" by code_simp
  ultimately show ?thesis
    using unauthorised_plan_runs_nothing [of narrow_orch "''example.com''" sample_host port_intelligence n steps e]
    by (auto simp: sample_host_def)
qed

text \<open>What an entry of the journal is: the name of the event, or \<open>save\<close>, with the campaign's status.\<close>

fun entry_kind :: "campaign + campaign \<times> log_item \<Rightarrow> string \<times> pyval" where
  "entry_kind (Inl st) = (''save'', status st)"
| "entry_kind (Inr (st, _, event, _)) = (event, status st)"

lemma campaign_finished_ok:
  "\<exists>st' orc' e. campaign_finished h steps st orc = (Inr st', orc') \<and> status st' = PStr ''done'' \<and>
     campaign_id st' = campaign_id st \<and> target st' = target st \<and>
     orch_journal orc' = orch_journal orc @ [Inl st', Inr (st', e)] \<and> fst (snd e) = ''campaign_done''"
proof -
  obtain s o1 where d: "move_to h ''done'' st orc = Inr (s, o1)"
    using move_to_total [of "''done''" h st orc] by (auto simp: STATUS_CHOICES_def)
  note m = move_to_Inr [OF this]
  from d have "transition (clock h orc) ''done'' st = Inr s"
    by (auto simp: move_to_def bind_res_eq_Inr)
  then show ?thesis
    using m by (simp add: campaign_finished_def Let_def store_save_def)
qed

text \<open>
  C11: An authorised campaign runs to its end, whatever its modules do and in whatever order the pool
  picks them. It returns a campaign in \<open>done\<close> under the fresh identifier; the store holds, in order, its
  creation, the built plan, one start and one end for every step whose module is registered, one failure for
  every step whose module cannot be looked up, one \<open>module_missing\<close> for every other step of the plan, and the
  final state.
\<close>
theorem campaign_completes:
  assumes "is_target_allowed (orch_scope orc) tgt" and "host_fresh h \<noteq> []"
    and "plan (orch_counter orc) intelligence tgt = Inr (n, steps)"
    and "authorize_steps (orch_scope orc) steps = Inr ()" and "0 < orch_workers orc"
  shows "\<exists>st orc' pre s items e. run_campaign h orc tgt intelligence = Some (Inr st, orc') \<and>
     status st = PStr ''done'' \<and> campaign_id st = host_fresh h \<and> target st = strip tgt \<and>
     orch_journal orc' = orch_journal orc @ pre @ map (\<lambda>e. Inr (s, e)) items @ [Inl st, Inr (st, e)] \<and>
     map entry_kind pre = [(''save'', PStr ''planning''), (''campaign_start'', PStr ''planning''),
       (''save'', PStr ''scanning''), (''plan_built'', PStr ''scanning'')] \<and>
     events ''step_start'' items = length (filter (has_runner orc) steps) \<and>
     events ''step_done'' items + events ''step_failed'' items = length (filter (concludes orc) steps) \<and>
     events ''module_missing'' items = length (filter (no_runner orc) steps) \<and>
     fst (snd e) = ''campaign_done''"
proof -
  have c: "check (orch_scope orc) tgt = Inr ()" using assms(1) by (simp add: check_iff)
  obtain st st1 orc1 where s: "new_campaign (clock h orc) (host_fresh h) (PStr tgt) PNone (PDict []) = Inr st"
    "move_to h ''planning'' st (orc\<lparr>orch_clock := Suc (orch_clock orc)\<rparr>) = Inr (st1, orc1)"
    "status st1 = PStr ''planning''" "campaign_id st1 = host_fresh h" "target st1 = strip tgt"
    "orch_journal orc1 = orch_journal orc @ [Inl st1]"
    "orch_registry orc1 = orch_registry orc" "orch_workers orc1 = orch_workers orc"
    "orch_scope orc1 = orch_scope orc" "orch_counter orc1 = orch_counter orc"
    using campaign_start [OF c assms(2)] by blast
  have ok: "plan_ok (orch_counter orc) tgt n steps" by (rule plan_sound [OF assms(3)])
  then have d: "distinct (map step_id steps)" and pr: "\<And>s. s \<in> set steps \<Longrightarrow> numeric (priority s)"
    by (simp_all add: plan_ok_def)
  have "1 \<le> orch_workers orc" using assms(5) by simp
  from schedule_total [OF this d pr] obtain ws where
    ws: "schedule (orch_workers orc) steps = Some (Inr ws)" "mset (concat ws) = mset steps" by blast
  have "mset (map step_id (concat ws)) = mset (map step_id steps)" using ws(2) by simp
  then have ids: "distinct (map step_id (concat ws))"
    using d mset_eq_imp_distinct_iff by blast
  have len: "length (filter P (concat ws)) = length (filter P steps)" for P
    using ws(2) by (metis mset_filter size_mset)
  define orc2 where "orc2 = log h st1 ''campaign_start'' [(''target'', PStr tgt)] orc1"
  define orc3 where "orc3 = orc2\<lparr>orch_counter := n\<rparr>"
  obtain st4 orc4 where m4: "move_to h ''scanning'' st1 orc3 = Inr (st4, orc4)"
    using move_to_total [of "''scanning''" h st1 orc3] by (auto simp: STATUS_CHOICES_def)
  note f4 = move_to_Inr [OF m4]
  define orc5 where "orc5 = log h st4 ''plan_built'' [(''steps'', PStr (to_json steps))]
      (orc4\<lparr>orch_context := (orch_context orc4)\<lparr>ctx_plan := steps\<rparr>\<rparr>)"
  have w5: "0 < orch_workers orc5" using assms(5) f4 s by (simp add: orc5_def orc3_def orc2_def)
  have r5: "has_runner orc5 = has_runner orc" "concludes orc5 = concludes orc" "no_runner orc5 = no_runner orc"
    using f4 s lookups_cong [of orc5 orc] by (simp_all add: orc5_def orc3_def orc2_def)
  from run_waves_done [OF w5 ids, of "host_env h" st4] obtain orc6 items where
    r: "fold_res (run_wave (host_env h) st4) orc5 ws = Inr orc6"
    "orch_journal orc6 = orch_journal orc5 @ map (\<lambda>e. Inr (st4, e)) items"
    "events ''step_start'' items = length (filter (has_runner orc) steps)"
    "events ''step_done'' items + events ''step_failed'' items = length (filter (concludes orc) steps)"
    "events ''module_missing'' items = length (filter (no_runner orc) steps)"
    unfolding r5 len by blast
  obtain st7 orc7 e where fin: "campaign_finished h steps st4 orc6 = (Inr st7, orc7)"
    "status st7 = PStr ''done''" "campaign_id st7 = campaign_id st4" "target st7 = target st4"
    "orch_journal orc7 = orch_journal orc6 @ [Inl st7, Inr (st7, e)]" "fst (snd e) = ''campaign_done''"
    using campaign_finished_ok by blast
  have ex: "execute_waves (host_env h) st4 orc5 ws = Inr orc6"
    using r(1) f4 by (simp add: execute_waves_def)
  have "run_steps h steps ws st1 orc3 = (Inr st7, orc7)"
    using ex fin(1) by (simp add: run_steps_def m4 Let_def flip: orc5_def)
  then have run: "run_campaign h orc tgt intelligence = Some (Inr st7, orc7)"
    using s assms(3,4) ws(1) by (simp add: run_campaign_def c Let_def orc3_def orc2_def)
  define pre where "pre = [Inl st1, Inr (st1, clock h orc1, ''campaign_start'', [(''target'', PStr tgt)]), Inl st4,
       Inr (st4, clock h (orc4\<lparr>orch_context := (orch_context orc4)\<lparr>ctx_plan := steps\<rparr>\<rparr>), ''plan_built'',
         [(''steps'', PStr (to_json steps))])]"
  have "orch_journal orc5 = orch_journal orc @ pre"
    using f4 s by (simp add: orc5_def orc3_def orc2_def pre_def)
  then have "orch_journal orc7 = orch_journal orc @ pre @ map (\<lambda>e. Inr (st4, e)) items @ [Inl st7, Inr (st7, e)]"
    using fin(5) r(2) by simp
  moreover have "map entry_kind pre = [(''save'', PStr ''planning''), (''campaign_start'', PStr ''planning''),
       (''save'', PStr ''scanning''), (''plan_built'', PStr ''scanning'')]"
    using f4 s by (simp add: pre_def)
  moreover have "campaign_id st7 = host_fresh h" "target st7 = strip tgt" using fin f4 s by simp_all
  ultimately show ?thesis
    using run fin(2,6) r(3-5)
    by (intro exI [of _ st7] exI [of _ orc7] exI [of _ pre] exI [of _ st4] exI [of _ items] exI [of _ e] conjI)
qed

lemma sample_campaign_plan:
  "\<exists>n steps. plan 0 [] ''example.com'' = Inr (n, steps) \<and> authorize_steps sample_enforcer steps = Inr ()"
proof -
  have "case plan 0 [] ''example.com'' of Inl _ \<Rightarrow> False
    | Inr (_, steps) \<Rightarrow> authorize_steps sample_enforcer steps = Inr ()"
    by code_simp
  then show ?thesis by (auto split: sum.splits)
qed

theorem campaign_completes_witness:
  "\<exists>st orc'. run_campaign sample_host sample_orch ''example.com'' [] = Some (Inr st, orc') \<and>
     status st = PStr ''done'' \<and> campaign_id st = ''c1'' \<and> target st = ''example.com''"
proof -
  obtain n steps where p: "plan (orch_counter sample_orch) [] ''example.com'' = Inr (n, steps)"
    "authorize_steps (orch_scope sample_orch) steps = Inr ()"
    using sample_campaign_plan by (auto simp: sample_orch_def)
  have "strip ''example.com'' = ''example.com''" by code_simp
  then show ?thesis
    using campaign_completes [OF sample_target _ p, of sample_host]
    by (auto simp: sample_host_def sample_orch_def)
qed

lemma failed_about:
  assumes "campaign_failed h e st orc = (r, orc')" "journal_about (target st) S (orch_journal orc)"
  shows "journal_about (target st) S (orch_journal orc')"
proof (cases "move_to h ''failed'' st orc")
  case (Inl e')
  then show ?thesis using assms by (simp add: campaign_failed_def)
next
  case (Inr m)
  obtain st' o' where m: "m = (st', o')" by fastforce
  note f = move_to_Inr [OF Inr [unfolded m]]
  have "orc' = log h st' ''campaign_failed'' [(''error'', PStr (exc_message e)), (''ts'', clock h o')] o'"
    using assms(1) by (simp add: campaign_failed_def Inr m)
  then show ?thesis using f assms(2) by simp
qed

lemma finished_about:
  assumes "campaign_finished h steps st orc = (r, orc')" "journal_about (target st) S (orch_journal orc)"
  shows "journal_about (target st) S (orch_journal orc')"
proof -
  obtain st' orc'' e where "campaign_finished h steps st orc = (Inr st', orc'')" "target st' = target st"
    "orch_journal orc'' = orch_journal orc @ [Inl st', Inr (st', e)]" "fst (snd e) = ''campaign_done''"
    using campaign_finished_ok by blast
  then show ?thesis using assms by (cases e) simp
qed

lemma run_steps_about:
  assumes "run_steps h steps waves st orc = (r, orc')" "journal_about (target st) S (orch_journal orc)"
    and "set (concat waves) \<subseteq> S"
  shows "journal_about (target st) S (orch_journal orc')"
proof (cases "move_to h ''scanning'' st orc")
  case (Inl e)
  then show ?thesis using assms by (simp add: run_steps_def)
next
  case (Inr m)
  obtain st1 orc1 where m: "m = (st1, orc1)" by fastforce
  note f = move_to_Inr [OF Inr [unfolded m]]
  define orc2 where "orc2 = log h st1 ''plan_built'' [(''steps'', PStr (to_json steps))]
      (orc1\<lparr>orch_context := (orch_context orc1)\<lparr>ctx_plan := steps\<rparr>\<rparr>)"
  have 2: "journal_about (target st1) S (orch_journal orc2)" using f assms(2) by (simp add: orc2_def)
  note waves = waves_about [OF 2 assms(3)]
  have rest: "(case execute_waves (host_env h) st1 orc2 waves of
            Inl e \<Rightarrow> campaign_failed h e st1 (waves_done (host_env h) st1 orc2 waves)
          | Inr orc3 \<Rightarrow> campaign_finished h steps st1 orc3) = (r, orc')"
    using assms(1) unfolding run_steps_def Inr m Let_def sum.case prod.case orc2_def .
  have "journal_about (target st1) S (orch_journal orc')"
  proof (cases "execute_waves (host_env h) st1 orc2 waves")
    case (Inl e)
    then show ?thesis using rest failed_about waves by fastforce
  next
    case (Inr orc3)
    then have "journal_about (target st1) S (orch_journal orc3)"
      using execute_waves_done waves 2 by blast
    then show ?thesis using rest Inr finished_about by fastforce
  qed
  then show ?thesis using f by simp
qed

text \<open>The steps a campaign may start: those of its plan, and none when the plan is not authorised.\<close>

definition startable :: "orch \<Rightarrow> string \<Rightarrow> pydict list \<Rightarrow> plan_step set" where
  "startable orc tgt intelligence =
     (case plan (orch_counter orc) intelligence tgt of
        Inl e \<Rightarrow> {}
      | Inr (n, steps) \<Rightarrow> if authorize_steps (orch_scope orc) steps = Inr () then set steps else {})"

text \<open>
  What a campaign writes: nothing unless its target is inside the scope, entries about that target only, and
  starts of authorised steps of its plan only.
\<close>

lemma run_campaign_about:
  assumes "run_campaign h orc tgt intelligence = Some (r, orc')" "orch_journal orc = []" "0 < orch_workers orc"
  shows "(orch_journal orc' \<noteq> [] \<longrightarrow> is_target_allowed (orch_scope orc) tgt) \<and>
     journal_about (strip tgt) (startable orc tgt intelligence) (orch_journal orc')"
proof (cases "check (orch_scope orc) tgt")
  case (Inl e)
  then show ?thesis using assms by (simp add: run_campaign_def)
next
  case (Inr u)
  let ?S = "startable orc tgt intelligence"
  have "is_target_allowed (orch_scope orc) tgt" using Inr by (simp add: check_def split: if_splits)
  moreover have "journal_about (strip tgt) ?S (orch_journal orc')"
  proof (cases "new_campaign (clock h orc) (host_fresh h) (PStr tgt) PNone (PDict [])")
    case (Inl e)
    then show ?thesis using assms Inr by (simp add: run_campaign_def)
  next
    case new: (Inr st)
    then have t: "target st = strip tgt" by (auto simp: new_campaign_def bind_res_eq_Inr split: if_splits)
    let ?o = "orc\<lparr>orch_clock := Suc (orch_clock orc)\<rparr>"
    show ?thesis
    proof (cases "move_to h ''planning'' st ?o")
      case (Inl e)
      then show ?thesis using assms Inr new by (simp add: run_campaign_def)
    next
      case mv: (Inr m)
      obtain st1 orc1 where m: "m = (st1, orc1)" by fastforce
      note f = move_to_Inr [OF mv [unfolded m]]
      define orc2 where "orc2 = log h st1 ''campaign_start'' [(''target'', PStr tgt)] orc1"
      have 2: "target st1 = strip tgt" "journal_about (target st1) ?S (orch_journal orc2)"
        using f t assms(2) by (simp_all add: orc2_def)
      have same: "orch_counter orc2 = orch_counter orc" "orch_scope orc2 = orch_scope orc" "orch_workers orc2 = orch_workers orc"
        using f by (simp_all add: orc2_def)
      have "orc' = orc2 \<or> (\<exists>k. orc' = orc2\<lparr>orch_counter := k\<rparr>) \<or>
          (\<exists>k steps waves. plan (orch_counter orc) intelligence tgt = Inr (k, steps) \<and>
             authorize_steps (orch_scope orc) steps = Inr () \<and> schedule (orch_workers orc) steps = Some (Inr waves) \<and>
             run_steps h steps waves st1 (orc2\<lparr>orch_counter := k\<rparr>) = (r, orc'))"
        using assms(1) Inr new mv m same unfolding orc2_def
        by (auto simp: run_campaign_def Let_def split: sum.splits option.splits prod.splits)
      then show ?thesis
      proof (elim disjE exE conjE)
        fix k steps waves
        assume p: "plan (orch_counter orc) intelligence tgt = Inr (k, steps)" "authorize_steps (orch_scope orc) steps = Inr ()"
          and w: "schedule (orch_workers orc) steps = Some (Inr waves)"
          and run: "run_steps h steps waves st1 (orc2\<lparr>orch_counter := k\<rparr>) = (r, orc')"
        have ok: "plan_ok (orch_counter orc) tgt k steps" by (rule plan_sound [OF p(1)])
        then have "\<exists>ws. schedule (orch_workers orc) steps = Some (Inr ws) \<and> mset (concat ws) = mset steps"
          using schedule_total [of "orch_workers orc" steps] assms(3) by (auto simp: plan_ok_def)
        then have "mset (concat waves) = mset steps" using w by auto
        then have "set (concat waves) = set steps" by (rule mset_eq_setD)
        also have "\<dots> = ?S" by (simp add: startable_def p)
        finally have "set (concat waves) = ?S" .
        then show ?thesis using run_steps_about [OF run] 2 by simp
      qed (use 2 in simp_all)
    qed
  qed
  ultimately show ?thesis by blast
qed

lemma run_steps_journal:
  assumes "run_steps h steps waves st orc = (Inr st', orc')"
  shows "\<exists>pre e. orch_journal orc' = pre @ [Inl st', Inr (st', e)]"
proof -
  have fin: "\<exists>pre e. orch_journal orc' = pre @ [Inl st', Inr (st', e)]"
    if "campaign_finished h steps s o1 = (Inr st', orc')" for s o1
    using campaign_finished_ok [of h steps s o1] that by auto
  show ?thesis
    using assms fin
    by (auto simp: run_steps_def campaign_failed_def Let_def split: sum.splits prod.splits)
qed

text \<open>
  C12: A finished campaign can be recovered. Applied to any store, the writes of \<open>run_campaign\<close> leave the
  returned campaign as what \<open>recover\<close> loads under its identifier, unless a value in it cannot be written
  as JSON.
\<close>
theorem campaign_recoverable:
  assumes "run_campaign h orc tgt intelligence = Some (Inr st, orc')" and "fs_ok fs"
    and "\<And>s. Inl s \<in> set (orch_journal orc') \<Longrightarrow> campaign_ok s \<and> campaign_json s"
  shows "\<exists>orc''. recover h' (apply_journal fs (orch_journal orc')) (campaign_id st) orc = Inr (st, orc'')"
proof -
  have "\<exists>pre e. orch_journal orc' = pre @ [Inl st, Inr (st, e)]"
    using assms(1) by (auto simp: run_campaign_def Let_def split: sum.splits option.splits prod.splits dest: run_steps_journal)
  then obtain pre e where j: "orch_journal orc' = pre @ [Inl st, Inr (st, e)]" by blast
  have "load now fresh (apply_journal fs (orch_journal orc')) (campaign_id st) = Inr st" for now fresh
    using local_store.journal_load [OF assms(2,3), where ops = "orch_journal orc'" and cid = "campaign_id st"]
    unfolding apply_journal_def by (simp add: j map_filter_def)
  then show ?thesis by (simp add: recover_def)
qed

lemma sample_run_storable:
  "case run_campaign sample_host sample_orch ''example.com'' [] of
     Some (Inr _, orc') \<Rightarrow> list_all (\<lambda>op. case op of Inl s \<Rightarrow> campaign_ok s \<and> campaign_json s | Inr _ \<Rightarrow> True)
       (orch_journal orc')
   | _ \<Rightarrow> False"
  by code_simp

theorem campaign_recoverable_witness:
  "\<exists>st orc' orc''. run_campaign sample_host sample_orch ''example.com'' [] = Some (Inr st, orc') \<and>
     recover sample_host (apply_journal [] (orch_journal orc')) (campaign_id st) sample_orch = Inr (st, orc'')"
proof -
  obtain st orc' where run: "run_campaign sample_host sample_orch ''example.com'' [] = Some (Inr st, orc')"
    and ok: "\<And>s. Inl s \<in> set (orch_journal orc') \<Longrightarrow> campaign_ok s \<and> campaign_json s"
    using sample_run_storable
    by (auto simp: list_all_iff split: option.splits sum.splits prod.splits) (metis sum.exhaust)+
  from campaign_recoverable [OF run fs_ok_empty ok] run show ?thesis by blast
qed

text \<open>
  The metadata of one finished campaign: a single service finding gives one edge, and \<open>graph_edges\<close>
  holds two, the number of nodes that have a neighbour.
\<close>

definition one_service :: context_data where
  "one_service =
     \<lparr>ctx_findings = [[(''module'', PStr ''discovery''), (''host'', PStr ''h''), (''service'', PStr ''http'')]],
      ctx_reports = [], ctx_extra = [], ctx_plan = []\<rparr>"

lemma meta_set_dict: "meta st = PDict d \<Longrightarrow> meta (meta_set k v st) = PDict (dict_set k v d)"
  by (simp add: meta_set_def)

lemma finalize_graph_edges:
  assumes "meta st = PDict d" and "\<not> truthy (dget_or d ''findings'' (PList []))"
    and "ingest empty_graph (ctx_findings ctx) = Inr (g, n)"
  shows "dget (meta_dict (finalize_graph nv rg depth ctx st)) ''graph_edges'' = PInt (int (length (g_adj g)))"
  using assms
  by (auto simp: finalize_graph_def meta_dict_def Let_def meta_set_dict dget_def split: sum.split prod.split)

lemma graph_edges_counts_nodes:
  "\<exists>g n. ingest empty_graph (ctx_findings one_service) = Inr (g, n) \<and> length (g_edges g) = 1 \<and>
     dget (meta_dict (finalize_graph no_cores no_rust_graph 0 one_service sample_campaign)) ''graph_edges'' = PInt 2"
proof -
  have "case ingest empty_graph (ctx_findings one_service) of Inl _ \<Rightarrow> False
    | Inr (g, _) \<Rightarrow> length (g_edges g) = 1 \<and> length (g_adj g) = 2"
    by code_simp
  then obtain g n where g: "ingest empty_graph (ctx_findings one_service) = Inr (g, n)"
    "length (g_edges g) = 1" "length (g_adj g) = 2"
    by (auto split: sum.splits prod.splits)
  have "\<not> truthy (dget_or [(''k'', PInt 1)] ''findings'' (PList []))" by code_simp
  from finalize_graph_edges [OF _ this g(1), of sample_campaign no_cores no_rust_graph 0] g
  show ?thesis by (simp add: sample_campaign_def)
qed

end
