(* ===== verification/Wal.thy ===== *)
theory Wal
  imports PyJson Sha256
begin

text \<open>
  \<open>core/wal.py\<close>: the encrypted write-ahead log. The file is its bytes; a crash leaves a prefix
  of them. \<open>os.urandom\<close> is a stream of bytes per call, counted by \<open>wal_draws\<close>.
\<close>

section \<open>Bytes\<close>

definition be_val :: "bytes \<Rightarrow> nat" where
  "be_val bs = foldl (\<lambda>v b. 256 * v + b) 0 bs"

definition MAGIC :: bytes where "MAGIC = [72, 87, 76, 50]"

definition MAGIC_V3 :: bytes where "MAGIC_V3 = [72, 87, 76, 51]"

definition V3_HEADER_LEN :: nat where "V3_HEADER_LEN = 20"

definition MAX_RECORD_BYTES :: nat where "MAX_RECORD_BYTES = 67108864"

definition KEYSTREAM_LABEL :: bytes where
  "KEYSTREAM_LABEL = map of_char ''helios-wal-v2-keystream''"

definition KEYSTREAM_LABEL_V3 :: bytes where
  "KEYSTREAM_LABEL_V3 = map of_char ''helios-wal-v3-keystream''"

type_synonym entropy = "nat \<Rightarrow> nat \<Rightarrow> nat"

definition urandom :: "entropy \<Rightarrow> nat \<Rightarrow> nat \<Rightarrow> bytes" where
  "urandom env draw n = map (env draw) [0..<n]"

section \<open>The log object\<close>

record wal =
  wal_file :: "bytes option"
  wal_key :: bytes
  wal_salt :: "bytes option"
  wal_enc :: "bytes option"
  wal_mac :: "bytes option"
  wal_v3 :: bool
  wal_legacy :: bool
  wal_lsn :: int
  wal_active :: bool
  wal_buffer :: "bytes list"
  wal_draws :: nat

definition content :: "wal \<Rightarrow> bytes" where
  "content w = (case wal_file w of None \<Rightarrow> [] | Some f \<Rightarrow> f)"

definition derive_keys :: "bytes \<Rightarrow> bytes \<Rightarrow> bytes \<times> bytes" where
  "derive_keys key salt =
     (let material = pbkdf2_sha256 key salt 100000 64 in (take 32 material, drop 32 material))"

definition install_salt :: "bytes \<Rightarrow> wal \<Rightarrow> wal" where
  "install_salt salt w =
     w\<lparr>wal_salt := Some salt, wal_enc := Some (fst (derive_keys (wal_key w) salt)),
       wal_mac := Some (snd (derive_keys (wal_key w) salt))\<rparr>"

definition load_v3_header :: "wal \<Rightarrow> wal" where
  "load_v3_header w =
     (case wal_file w of
        None \<Rightarrow> w
      | Some f \<Rightarrow>
          if length f < V3_HEADER_LEN then w
          else let header = take V3_HEADER_LEN f in
            if length header = V3_HEADER_LEN \<and> take 4 header = MAGIC_V3
            then (install_salt (drop 4 header) w)\<lparr>wal_v3 := True\<rparr>
            else w\<lparr>wal_legacy := True\<rparr>)"

definition write_disk :: "bytes list \<Rightarrow> wal \<Rightarrow> wal" where
  "write_disk items w = w\<lparr>wal_file := Some (content w @ concat items)\<rparr>"

definition start_v3 :: "entropy \<Rightarrow> wal \<Rightarrow> wal" where
  "start_v3 env w =
     (let salt = urandom env (wal_draws w) 16 in
      write_disk [MAGIC_V3 @ salt] ((install_salt salt w)\<lparr>wal_v3 := True, wal_draws := Suc (wal_draws w)\<rparr>))"

section \<open>Records\<close>

text \<open>The keystream grows by one digest per counter until it covers the record.\<close>

function keystream_loop :: "bytes \<Rightarrow> bytes \<Rightarrow> nat \<Rightarrow> nat \<Rightarrow> bytes \<Rightarrow> bytes" where
  "keystream_loop key label n counter ks =
     (if length ks < n
      then keystream_loop key label n (Suc counter) (ks @ hmac_sha256 key (label @ be_bytes 8 counter))
      else ks)"
  by pat_completeness auto
termination by (relation "measure (\<lambda>(_, _, n, _, ks). n - length ks)") auto

definition generate_v3_keystream :: "bytes \<Rightarrow> bytes \<Rightarrow> nat \<Rightarrow> bytes" where
  "generate_v3_keystream enc nonce n = take n (keystream_loop enc (KEYSTREAM_LABEL_V3 @ nonce) n 0 [])"

definition generate_keystream :: "bytes \<Rightarrow> bytes \<Rightarrow> nat \<Rightarrow> bytes" where
  "generate_keystream enc salt n = take n (keystream_loop enc (KEYSTREAM_LABEL @ salt) n 0 [])"

function legacy_loop :: "bytes \<Rightarrow> nat \<Rightarrow> nat \<Rightarrow> bytes \<Rightarrow> bytes" where
  "legacy_loop pre n counter ks =
     (if length ks < n
      then legacy_loop pre n (Suc counter) (ks @ sha256 (pre @ be_bytes 4 counter))
      else ks)"
  by pat_completeness auto
termination by (relation "measure (\<lambda>(_, n, _, ks). n - length ks)") auto

definition seal_v3 :: "bytes \<Rightarrow> bytes \<Rightarrow> bytes \<Rightarrow> bytes \<Rightarrow> bytes" where
  "seal_v3 enc mac nonce plaintext =
     (let ciphertext = xor_bytes plaintext (generate_v3_keystream enc nonce (length plaintext));
          sig = hmac_sha256 mac (MAGIC_V3 @ nonce @ ciphertext)
      in nonce @ sig @ ciphertext)"

definition seal_v2 :: "bytes \<Rightarrow> bytes \<Rightarrow> bytes \<Rightarrow> bytes" where
  "seal_v2 key salt plaintext =
     (case derive_keys key salt of
        (enc, mac) \<Rightarrow>
          let ciphertext = xor_bytes plaintext (generate_keystream enc salt (length plaintext));
              sig = hmac_sha256 mac (MAGIC @ salt @ ciphertext)
          in MAGIC @ sig @ salt @ ciphertext)"

definition encrypt_v2 :: "entropy \<Rightarrow> bytes \<Rightarrow> wal \<Rightarrow> exc + (bytes \<times> wal)" where
  "encrypt_v2 env plaintext w =
     Inr (seal_v2 (wal_key w) (urandom env (wal_draws w) 16) plaintext, w\<lparr>wal_draws := Suc (wal_draws w)\<rparr>)"

definition encrypt_v3 :: "entropy \<Rightarrow> bytes \<Rightarrow> wal \<Rightarrow> exc + (bytes \<times> wal)" where
  "encrypt_v3 env plaintext w =
     (case (wal_mac w, wal_enc w) of
        (Some mac, Some enc) \<Rightarrow>
          Inr (seal_v3 enc mac (urandom env (wal_draws w) 16) plaintext, w\<lparr>wal_draws := Suc (wal_draws w)\<rparr>)
      | _ \<Rightarrow> Inl (RuntimeError ''WAL keys are not initialized''))"

definition encrypt :: "entropy \<Rightarrow> bytes \<Rightarrow> wal \<Rightarrow> exc + (bytes \<times> wal)" where
  "encrypt env plaintext w =
     (if wal_legacy w then encrypt_v2 env plaintext w
      else if \<not> wal_v3 w then
        (if content w \<noteq> [] then encrypt_v2 env plaintext (w\<lparr>wal_legacy := True\<rparr>)
         else encrypt_v3 env plaintext (start_v3 env w))
      else encrypt_v3 env plaintext w)"

definition unseal_v3 :: "bytes \<Rightarrow> bytes \<Rightarrow> bytes \<Rightarrow> bytes option" where
  "unseal_v3 enc mac raw =
     (if length raw < 48 then None
      else let nonce = take 16 raw; sig = take 32 (drop 16 raw); ciphertext = drop 48 raw in
        if sig \<noteq> hmac_sha256 mac (MAGIC_V3 @ nonce @ ciphertext) then None
        else Some (xor_bytes ciphertext (generate_v3_keystream enc nonce (length ciphertext))))"

definition decrypt_v3 :: "wal \<Rightarrow> bytes \<Rightarrow> bytes option" where
  "decrypt_v3 w raw =
     (case (wal_mac w, wal_enc w) of (Some mac, Some enc) \<Rightarrow> unseal_v3 enc mac raw | _ \<Rightarrow> None)"

definition decrypt_v2 :: "bytes \<Rightarrow> bytes \<Rightarrow> bytes option" where
  "decrypt_v2 key raw =
     (let body = drop (length MAGIC) raw in
      if length body < 48 then None
      else let sig = take 32 body; salt = take 16 (drop 32 body); ciphertext = drop 48 body in
        case derive_keys key salt of
          (enc, mac) \<Rightarrow>
            if sig \<noteq> hmac_sha256 mac (MAGIC @ salt @ ciphertext) then None
            else Some (xor_bytes ciphertext (generate_keystream enc salt (length ciphertext))))"

definition decrypt_legacy :: "bytes \<Rightarrow> bytes \<Rightarrow> bytes option" where
  "decrypt_legacy key raw =
     (if length raw < 48 then None
      else let sig = take 32 raw; salt = take 16 (drop 32 raw); ciphertext = drop 48 raw;
               derived = pbkdf2_sha256 key salt 100000 32 in
        if sig \<noteq> hmac_sha256 derived (salt @ ciphertext) then None
        else Some (xor_bytes ciphertext
          (take (length ciphertext) (legacy_loop (derived @ salt) (length ciphertext) 0 []))))"

definition decrypt :: "bytes \<Rightarrow> bytes \<Rightarrow> bytes option" where
  "decrypt key raw = (if take 4 raw = MAGIC then decrypt_v2 key raw else decrypt_legacy key raw)"

section \<open>Replay\<close>

definition record_of :: "bytes option \<Rightarrow> exc + pyval list" where
  "record_of plain =
     (case plain of
        None \<Rightarrow> Inr []
      | Some p \<Rightarrow>
          if p = [] then Inr []
          else bind_res (utf8_decode p) (\<lambda>u.
            if list_ex (\<lambda>c. 255 < c) u then Inl OutOfModel
            else (case json_loads (map char_of u) of
                    Inl JSONDecodeError \<Rightarrow> Inr []
                  | Inl e \<Rightarrow> Inl e
                  | Inr v \<Rightarrow> Inr [v])))"

function scan_records :: "(bytes \<Rightarrow> bytes option) \<Rightarrow> bytes \<Rightarrow> exc + pyval list" where
  "scan_records dec bs =
     (if length bs < 4 then Inr []
      else let n = be_val (take 4 bs); rest = drop 4 bs in
        if n = 0 \<or> MAX_RECORD_BYTES < n \<or> length rest < n then Inr []
        else bind_res (record_of (dec (take n rest))) (\<lambda>r.
          bind_res (scan_records dec (drop n rest)) (\<lambda>rs. Inr (r @ rs))))"
  by pat_completeness auto
termination by (relation "measure (\<lambda>(_, bs). length bs)") auto

definition replay :: "wal \<Rightarrow> exc + (pyval list \<times> wal)" where
  "replay w =
     (case wal_file w of
        None \<Rightarrow> Inr ([], w)
      | Some f \<Rightarrow>
          let head = take V3_HEADER_LEN f in
          if length head = V3_HEADER_LEN \<and> take 4 head = MAGIC_V3 then
            let salt = drop 4 head;
                w' = (if wal_salt w \<noteq> Some salt then install_salt salt w else w)\<lparr>wal_v3 := True\<rparr>
            in bind_res (scan_records (decrypt_v3 w') (drop V3_HEADER_LEN f)) (\<lambda>rs. Inr (rs, w'))
          else bind_res (scan_records (decrypt (wal_key w)) f) (\<lambda>rs. Inr (rs, w)))"

definition lsn_of :: "pyval \<Rightarrow> exc + int" where
  "lsn_of r =
     (case r of
        PDict d \<Rightarrow> (case dict_get d ''lsn'' of None \<Rightarrow> Inr 0 | Some (PInt i) \<Rightarrow> Inr i | Some _ \<Rightarrow> Inl OutOfModel)
      | _ \<Rightarrow> Inl OutOfModel)"

definition init_lsn :: "wal \<Rightarrow> exc + wal" where
  "init_lsn w =
     (case wal_file w of
        None \<Rightarrow> Inr w
      | Some _ \<Rightarrow>
          bind_res (replay w) (\<lambda>(rs, w').
            if rs = [] then Inr w'
            else bind_res (map_res lsn_of rs) (\<lambda>ns. Inr (w'\<lparr>wal_lsn := Max (set ns)\<rparr>))))"

definition fresh_wal :: "bytes \<Rightarrow> bytes option \<Rightarrow> nat \<Rightarrow> wal" where
  "fresh_wal key file draws =
     \<lparr>wal_file = file, wal_key = key, wal_salt = None, wal_enc = None, wal_mac = None, wal_v3 = False,
      wal_legacy = False, wal_lsn = 0, wal_active = False, wal_buffer = [], wal_draws = draws\<rparr>"

definition open_wal :: "bytes \<Rightarrow> bytes option \<Rightarrow> nat \<Rightarrow> exc + wal" where
  "open_wal key file draws = init_lsn (load_v3_header (fresh_wal key file draws))"

section \<open>Transactions\<close>

definition begin_txn :: "wal \<Rightarrow> wal" where
  "begin_txn w = w\<lparr>wal_active := True, wal_buffer := []\<rparr>"

definition frame :: "bytes \<Rightarrow> bytes" where
  "frame e = be_bytes 4 (length e) @ e"

definition plain_record :: "int \<Rightarrow> string \<Rightarrow> pydict \<Rightarrow> pyval" where
  "plain_record lsn op data = PDict [(''lsn'', PInt lsn), (''op'', PStr op), (''data'', PDict data)]"

definition plain_bytes :: "pyval \<Rightarrow> exc + bytes" where
  "plain_bytes r = utf8_encode (map of_char (json_dumps False None r))"

text \<open>\<open>struct.pack\<close> raises for a record of four gigabytes or more, which is left out.\<close>

definition wal_append :: "entropy \<Rightarrow> string \<Rightarrow> pydict \<Rightarrow> wal \<Rightarrow> exc + (int \<times> wal)" where
  "wal_append env op data w =
     (let w1 = w\<lparr>wal_lsn := wal_lsn w + 1\<rparr> in
      bind_res (plain_bytes (plain_record (wal_lsn w1) op data)) (\<lambda>raw.
      bind_res (encrypt env raw w1) (\<lambda>(payload, w2).
        if 2 ^ 32 \<le> length payload then Inl OutOfModel
        else Inr (wal_lsn w1,
          if wal_active w2 then w2\<lparr>wal_buffer := wal_buffer w2 @ [frame payload]\<rparr>
          else write_disk [frame payload] w2))))"

definition commit :: "wal \<Rightarrow> wal" where
  "commit w =
     (if \<not> wal_active w then w
      else (write_disk (wal_buffer w) w)\<lparr>wal_active := False, wal_buffer := []\<rparr>)"

definition rollback :: "wal \<Rightarrow> wal" where
  "rollback w = w\<lparr>wal_active := False, wal_buffer := []\<rparr>"

section \<open>The master key\<close>

definition MIN_KEY_BYTES :: nat where "MIN_KEY_BYTES = 16"

fun from_hex :: "string \<Rightarrow> bytes option" where
  "from_hex [] = Some []"
| "from_hex (a # cs) =
     (if ord_of a \<in> {9, 10, 11, 12, 13, 32} then from_hex cs
      else (case cs of
              [] \<Rightarrow> None
            | b # rest \<Rightarrow>
                (case (hex_val a, hex_val b) of
                   (Some x, Some y) \<Rightarrow> map_option (\<lambda>bs. (16 * x + y) # bs) (from_hex rest)
                 | _ \<Rightarrow> None)))"

text \<open>
  What the key file holds, and what another process wrote to it between the check that it is absent
  and the exclusive creation.
\<close>

record key_host =
  key_file :: "bytes option"
  key_raced :: "bytes option"
  key_fresh :: bytes
  log_holds :: bool

definition load_or_create_key :: "key_host \<Rightarrow> exc + (bytes \<times> bytes)" where
  "load_or_create_key h =
     (case key_file h of
        None \<Rightarrow>
          (case key_raced h of
             None \<Rightarrow> Inr (key_fresh h, key_fresh h)
           | Some raced \<Rightarrow>
               if length raced < MIN_KEY_BYTES then Inl (ValueError ''key file was created concurrently but is unusable'')
               else Inr (raced, raced))
      | Some existing \<Rightarrow>
          if MIN_KEY_BYTES \<le> length existing then Inr (existing, existing)
          else if log_holds h then Inl (ValueError ''key file is unusable but the log already holds records'')
          else Inr (key_fresh h, key_fresh h))"

text \<open>The key, and what the key file holds afterwards.\<close>

definition resolve_key :: "bytes option \<Rightarrow> string option \<Rightarrow> key_host \<Rightarrow> exc + (bytes \<times> bytes option)" where
  "resolve_key master from_env h =
     (case master of
        Some k \<Rightarrow> if length k < MIN_KEY_BYTES then Inl (ValueError ''master_key is too short'') else Inr (k, key_file h)
      | None \<Rightarrow>
          (case from_env of
             Some v \<Rightarrow>
               if v \<noteq> [] then
                 (case from_hex (strip v) of
                    Some k \<Rightarrow> Inr (k, key_file h)
                  | None \<Rightarrow> Inl (ValueError ''the key variable must be hex-encoded bytes''))
               else bind_res (load_or_create_key h) (\<lambda>(k, f). Inr (k, Some f))
           | None \<Rightarrow> bind_res (load_or_create_key h) (\<lambda>(k, f). Inr (k, Some f))))"

declare keystream_loop.simps [simp del] legacy_loop.simps [simp del] scan_records.simps [simp del]

end
