(* ===== verification/WalFacts.thy ===== *)
theory WalFacts
  imports Wal
begin

text \<open>
  What the write-ahead log promises: its records survive the frames they are written in, replay reads
  back exactly the committed entries, and a crash leaves a prefix of them.
\<close>

section \<open>Records\<close>

lemma length_keystream_loop: "n \<le> length (keystream_loop key label n c ks)"
proof (induction key label n c ks rule: keystream_loop.induct)
  case (1 key label n c ks)
  then show ?case by (subst keystream_loop.simps) auto
qed

lemma length_keystream [simp]:
  "length (generate_v3_keystream enc nonce n) = n" "length (generate_keystream enc nonce n) = n"
  by (simp_all add: generate_v3_keystream_def generate_keystream_def length_keystream_loop min_absorb2)

lemma be_val_snoc: "be_val (bs @ [b]) = 256 * be_val bs + b"
  by (simp add: be_val_def)

lemma be_val_be_bytes: "v < 256 ^ n \<Longrightarrow> be_val (be_bytes n v) = v"
proof (induction n arbitrary: v)
  case 0
  then show ?case by (simp add: be_val_def be_bytes_def)
next
  case (Suc n)
  have "rev [0..<Suc n] = map Suc (rev [0..<n]) @ [0]"
    by (simp only: rev_map [symmetric] map_Suc_upt upt_conv_Cons rev.simps zero_less_Suc)
  then have "be_bytes (Suc n) v = be_bytes n (v div 256) @ [v mod 256]"
    by (simp add: be_bytes_def div_mult2_eq)
  moreover have "v div 256 < 256 ^ n" using Suc.prems by (simp add: less_mult_imp_div_less mult.commute)
  ultimately show ?case using Suc.IH [of "v div 256"] by (simp add: be_val_snoc)
qed

locale record_codec =
  fixes seal :: "bytes \<Rightarrow> bytes \<Rightarrow> bytes"
    and unseal :: "bytes \<Rightarrow> bytes option"
    and overhead :: nat
  assumes unseal_seal: "length nonce = 16 \<Longrightarrow> unseal (seal nonce p) = Some p"
    and length_seal: "length nonce = 16 \<Longrightarrow> length (seal nonce p) = overhead + length p"
    and overhead_pos: "0 < overhead"

interpretation v3: record_codec "seal_v3 enc mac" "unseal_v3 enc mac" 48 for enc mac
  by unfold_locales (simp_all add: seal_v3_def unseal_v3_def Let_def xor_bytes_cancel)

interpretation v2: record_codec "seal_v2 key" "decrypt key" 52 for key
proof (unfold_locales, goal_cases)
  case (1 nonce p)
  then show ?case
    by (cases "derive_keys key nonce")
      (simp add: seal_v2_def decrypt_def decrypt_v2_def MAGIC_def Let_def xor_bytes_cancel)
next
  case (2 nonce p)
  then show ?case by (cases "derive_keys key nonce") (simp add: seal_v2_def MAGIC_def Let_def)
qed simp

section \<open>Frames\<close>

text \<open>What a frame carries for a decoder: a record, in a payload that replay does not refuse.\<close>

definition carries :: "(bytes \<Rightarrow> bytes option) \<Rightarrow> bytes \<Rightarrow> pyval \<Rightarrow> bool" where
  "carries dec e r \<longleftrightarrow> e \<noteq> [] \<and> length e \<le> MAX_RECORD_BYTES \<and> record_of (dec e) = Inr [r]"

lemma length_frame [simp]: "length (frame e) = 4 + length e"
  by (simp add: frame_def)

lemma scan_frame:
  assumes "carries dec e r"
  shows "scan_records dec (frame e @ bs) = bind_res (scan_records dec bs) (\<lambda>rs. Inr (r # rs))"
proof -
  have "be_val (be_bytes 4 (length e)) = length e"
    using assms by (intro be_val_be_bytes) (simp add: carries_def MAX_RECORD_BYTES_def)
  then show ?thesis
    using assms by (subst scan_records.simps) (simp add: carries_def frame_def Let_def)
qed

lemma scan_torn:
  assumes "e \<noteq> []" "length e \<le> MAX_RECORD_BYTES" and "n < length (frame e)"
  shows "scan_records dec (take n (frame e)) = Inr []"
proof (cases "n < 4")
  case True
  then show ?thesis by (subst scan_records.simps) simp
next
  case False
  have "be_val (be_bytes 4 (length e)) = length e"
    using assms by (intro be_val_be_bytes) (simp add: MAX_RECORD_BYTES_def)
  moreover have "take n (frame e) = be_bytes 4 (length e) @ take (n - 4) e"
    using False by (simp add: frame_def)
  moreover have "n - 4 < length e" using assms(3) False by simp
  ultimately show ?thesis
    using assms False by (subst scan_records.simps) (simp add: Let_def)
qed

lemma scan_frames:
  assumes "list_all2 (carries dec) es rs"
  shows "scan_records dec (concat (map frame es) @ bs) = bind_res (scan_records dec bs) (\<lambda>rs'. Inr (rs @ rs'))"
  using assms
proof (induction es rs rule: list_all2_induct)
  case Nil
  then show ?case by (cases "scan_records dec bs") simp_all
next
  case (Cons e es r rs)
  then show ?case by (simp add: scan_frame bind_res_assoc)
qed

lemma scan_Nil [simp]: "scan_records dec [] = Inr []"
  by (subst scan_records.simps) simp

text \<open>A log cut at any point replays a prefix of its records.\<close>

lemma scan_cut:
  assumes "list_all2 (carries dec) es rs"
  shows "\<exists>m. scan_records dec (take n (concat (map frame es))) = Inr (take m rs)"
  using assms
proof (induction es rs arbitrary: n rule: list_all2_induct)
  case Nil
  then show ?case by simp
next
  case (Cons e es r rs)
  show ?case
  proof (cases "n < length (frame e)")
    case True
    then have "scan_records dec (take n (concat (map frame (e # es)))) = Inr (take 0 (r # rs))"
      using Cons.hyps(1) scan_torn [of e n dec] by (simp add: carries_def)
    then show ?thesis by blast
  next
    case False
    obtain m where "scan_records dec (take (n - length (frame e)) (concat (map frame es))) = Inr (take m rs)"
      using Cons.IH by blast
    then have "scan_records dec (take n (concat (map frame (e # es)))) = Inr (take (Suc m) (r # rs))"
      using False scan_frame [OF Cons.hyps(1)] by simp
    then show ?thesis by blast
  qed
qed

section \<open>The abstract log\<close>

text \<open>An entry is its number, operation and data; the abstract log is what is committed and pending.\<close>

type_synonym log_entry3 = "int \<times> string \<times> pydict"

record tlog =
  tl_committed :: "log_entry3 list"
  tl_pending :: "log_entry3 list"
  tl_active :: bool
  tl_lsn :: int

datatype wal_op = Begin | Append string pydict | Commit | Rollback | Reopen

fun entry_record :: "log_entry3 \<Rightarrow> pyval" where
  "entry_record (n, op, data) = plain_record n op data"

definition entry_fits :: "log_entry3 \<Rightarrow> bool" where
  "entry_fits en \<longleftrightarrow> json_ok (entry_record en) \<and>
     (case plain_bytes (entry_record en) of Inl _ \<Rightarrow> False | Inr p \<Rightarrow> 48 + length p \<le> MAX_RECORD_BYTES)"

definition tlog_empty :: tlog where
  "tlog_empty = \<lparr>tl_committed = [], tl_pending = [], tl_active = False, tl_lsn = 0\<rparr>"

text \<open>An entry that cannot be written or that replay would refuse is outside the contract.\<close>

fun spec_step :: "tlog \<Rightarrow> wal_op \<Rightarrow> unit + tlog" where
  "spec_step t Begin = Inr (t\<lparr>tl_active := True, tl_pending := []\<rparr>)"
| "spec_step t (Append op data) =
     (let en = (tl_lsn t + 1, op, data);
          t' = t\<lparr>tl_lsn := tl_lsn t + 1\<rparr>
      in if \<not> entry_fits en then Inl ()
         else if tl_active t then Inr (t'\<lparr>tl_pending := tl_pending t @ [en]\<rparr>)
         else Inr (t'\<lparr>tl_committed := tl_committed t @ [en]\<rparr>))"
| "spec_step t Commit =
     Inr (if tl_active t
          then t\<lparr>tl_committed := tl_committed t @ tl_pending t, tl_pending := [], tl_active := False\<rparr> else t)"
| "spec_step t Rollback = Inr (t\<lparr>tl_pending := [], tl_active := False\<rparr>)"
| "spec_step t Reopen =
     Inr (t\<lparr>tl_pending := [], tl_active := False,
            tl_lsn := (if tl_committed t = [] then 0 else Max (fst ` set (tl_committed t)))\<rparr>)"

fun wal_step :: "entropy \<Rightarrow> wal \<Rightarrow> wal_op \<Rightarrow> exc + wal" where
  "wal_step env w Begin = Inr (begin_txn w)"
| "wal_step env w (Append op data) = bind_res (wal_append env op data w) (\<lambda>(_, w'). Inr w')"
| "wal_step env w Commit = Inr (commit w)"
| "wal_step env w Rollback = Inr (rollback w)"
| "wal_step env w Reopen = open_wal (wal_key w) (wal_file w) (wal_draws w)"

section \<open>Refinement\<close>

lemma json_dumps_dict_ne: "json_dumps ascii ind (PDict d) \<noteq> []"
  by (simp add: json_dumps_def)

lemma record_of_plain:
  assumes "json_ok (PDict d)" and "plain_bytes (PDict d) = Inr p"
  shows "record_of (Some p) = Inr [PDict d]"
proof -
  let ?s = "json_dumps False None (PDict d)"
  have p: "p = concat (map utf8_char (map of_char ?s))"
    using assms(2) by (simp add: plain_bytes_def encode_latin)
  have "p \<noteq> []" using json_dumps_dict_ne [of False None d] by (cases ?s) (auto simp: p)
  moreover have "utf8_decode p = Inr (map of_char ?s)" unfolding p by (rule utf8_decode_latin)
  moreover have "\<not> list_ex (\<lambda>c. 255 < c) (map of_char ?s :: nat list)"
    using nat_of_char_less_256 by (auto simp: list_ex_iff not_less less_Suc_eq_le [symmetric])
  moreover have "json_loads ?s = Inr (PDict d)"
    using json_roundtrip [OF assms(1), of False None] by simp
  ultimately show ?thesis by (simp only: record_of_def option.case if_False bind_res_Inr map_char_of_of_char sum.case)
qed

text \<open>The decoder of a version 3 log, and how the log object stands for an abstract log.\<close>

definition v3_dec :: "bytes \<Rightarrow> bytes \<Rightarrow> bytes \<Rightarrow> bytes option" where
  "v3_dec key salt = unseal_v3 (fst (derive_keys key salt)) (snd (derive_keys key salt))"

definition wal_rel :: "wal \<Rightarrow> tlog \<Rightarrow> bool" where
  "wal_rel w t \<longleftrightarrow>
     \<not> wal_legacy w \<and> wal_lsn w = tl_lsn t \<and> wal_active w = tl_active t \<and>
     (if wal_v3 w then
        (\<exists>salt es ps. length salt = 16 \<and> wal_salt w = Some salt \<and>
           wal_enc w = Some (fst (derive_keys (wal_key w) salt)) \<and>
           wal_mac w = Some (snd (derive_keys (wal_key w) salt)) \<and>
           wal_file w = Some (MAGIC_V3 @ salt @ concat (map frame es)) \<and>
           list_all2 (carries (v3_dec (wal_key w) salt)) es (map entry_record (tl_committed t)) \<and>
           wal_buffer w = map frame ps \<and>
           list_all2 (carries (v3_dec (wal_key w) salt)) ps (map entry_record (tl_pending t)))
      else content w = [] \<and> wal_buffer w = [] \<and> tl_committed t = [] \<and> tl_pending t = [])"

lemma wal_relE:
  assumes "wal_rel w t"
  obtains (fresh) "\<not> wal_v3 w" "\<not> wal_legacy w" "content w = []" "wal_buffer w = []" "tl_committed t = []"
      "tl_pending t = []" "wal_lsn w = tl_lsn t" "wal_active w = tl_active t"
  | (v3) salt es ps where "wal_v3 w" "\<not> wal_legacy w" "length salt = 16" "wal_salt w = Some salt"
      "wal_enc w = Some (fst (derive_keys (wal_key w) salt))" "wal_mac w = Some (snd (derive_keys (wal_key w) salt))"
      "wal_file w = Some (MAGIC_V3 @ salt @ concat (map frame es))"
      "list_all2 (carries (v3_dec (wal_key w) salt)) es (map entry_record (tl_committed t))"
      "wal_buffer w = map frame ps"
      "list_all2 (carries (v3_dec (wal_key w) salt)) ps (map entry_record (tl_pending t))"
      "wal_lsn w = tl_lsn t" "wal_active w = tl_active t"
  using assms unfolding wal_rel_def by (cases "wal_v3 w") auto

lemma wal_rel_v3I:
  assumes "wal_v3 w" "\<not> wal_legacy w" "length salt = 16" "wal_salt w = Some salt"
      "wal_enc w = Some (fst (derive_keys (wal_key w) salt))" "wal_mac w = Some (snd (derive_keys (wal_key w) salt))"
      "wal_file w = Some (MAGIC_V3 @ salt @ concat (map frame es))"
      "list_all2 (carries (v3_dec (wal_key w) salt)) es (map entry_record (tl_committed t))"
      "wal_buffer w = map frame ps"
      "list_all2 (carries (v3_dec (wal_key w) salt)) ps (map entry_record (tl_pending t))"
      "wal_lsn w = tl_lsn t" "wal_active w = tl_active t"
  shows "wal_rel w t"
  using assms unfolding wal_rel_def by auto

lemma v3_header:
  assumes "length salt = 16"
  shows "take V3_HEADER_LEN (MAGIC_V3 @ salt @ body) = MAGIC_V3 @ salt"
    "drop V3_HEADER_LEN (MAGIC_V3 @ salt @ body) = body"
    "take 4 (MAGIC_V3 @ salt) = MAGIC_V3" "drop 4 (MAGIC_V3 @ salt) = salt"
    "length (MAGIC_V3 @ salt @ body) = V3_HEADER_LEN + length body"
    "length (MAGIC_V3 @ salt) = V3_HEADER_LEN"
  using assms by (simp_all add: V3_HEADER_LEN_def MAGIC_V3_def)

lemma decrypt_v3_dec:
  assumes "wal_enc w = Some (fst (derive_keys key salt))" "wal_mac w = Some (snd (derive_keys key salt))"
  shows "decrypt_v3 w = v3_dec key salt"
  using assms by (simp add: fun_eq_iff decrypt_v3_def v3_dec_def)

lemma replay_v3:
  assumes "wal_v3 w" "length salt = 16" "wal_salt w = Some salt"
    and "wal_enc w = Some (fst (derive_keys (wal_key w) salt))" "wal_mac w = Some (snd (derive_keys (wal_key w) salt))"
    and "wal_file w = Some (MAGIC_V3 @ salt @ body)"
  shows "replay w = bind_res (scan_records (v3_dec (wal_key w) salt) body) (\<lambda>rs. Inr (rs, w))"
proof -
  have "w\<lparr>wal_v3 := True\<rparr> = w" using assms(1) by simp
  then show ?thesis
    unfolding replay_def assms(6) option.case Let_def v3_header [OF assms(2)]
    by (simp add: assms(3) decrypt_v3_dec [OF assms(4,5)])
qed

lemma scan_empty_log: "content w = [] \<Longrightarrow> replay w = Inr ([], w)"
  by (auto simp: content_def replay_def V3_HEADER_LEN_def split: option.splits)

lemma replay_rel:
  assumes "wal_rel w t"
  shows "replay w = Inr (map entry_record (tl_committed t), w)"
  using assms
proof (cases rule: wal_relE)
  case fresh
  then show ?thesis by (simp add: scan_empty_log)
next
  case (v3 salt es ps)
  then show ?thesis
    using replay_v3 [of w salt "concat (map frame es)"] scan_frames [OF v3(8), of "[]"] by simp
qed

section \<open>Opening a log\<close>

definition v3_log :: "bytes \<Rightarrow> bytes \<Rightarrow> bytes \<Rightarrow> nat \<Rightarrow> int \<Rightarrow> wal" where
  "v3_log key salt body draws lsn =
     \<lparr>wal_file = Some (MAGIC_V3 @ salt @ body), wal_key = key, wal_salt = Some salt,
      wal_enc = Some (fst (derive_keys key salt)), wal_mac = Some (snd (derive_keys key salt)), wal_v3 = True,
      wal_legacy = False, wal_lsn = lsn, wal_active = False, wal_buffer = [], wal_draws = draws\<rparr>"

definition max_lsn :: "log_entry3 list \<Rightarrow> int" where
  "max_lsn ens = (if ens = [] then 0 else Max (fst ` set ens))"

lemma lsn_of_entry [simp]: "lsn_of (entry_record en) = Inr (fst en)"
  by (cases en) (simp add: lsn_of_def plain_record_def)

lemma map_lsn_entries [simp]: "map_res lsn_of (map entry_record ens) = Inr (map fst ens)"
  by (induction ens) simp_all

lemma load_header_v3:
  assumes "length salt = 16"
  shows "load_v3_header (fresh_wal key (Some (MAGIC_V3 @ salt @ body)) d) = v3_log key salt body d 0"
  using v3_header(1,3-6) [OF assms] v3_header(1,5) [OF assms, of body]
  by (simp add: load_v3_header_def fresh_wal_def Let_def v3_log_def install_salt_def del: take_append drop_append)

lemma open_v3:
  assumes "length salt = 16" and "scan_records (v3_dec key salt) body = Inr (map entry_record ens)"
  shows "open_wal key (Some (MAGIC_V3 @ salt @ body)) d = Inr (v3_log key salt body d (max_lsn ens))"
proof -
  have "replay (v3_log key salt body d 0) = Inr (map entry_record ens, v3_log key salt body d 0)"
    using replay_v3 [of "v3_log key salt body d 0" salt body] assms by (simp add: v3_log_def)
  then show ?thesis
    unfolding open_wal_def load_header_v3 [OF assms(1)] init_lsn_def
    by (simp add: v3_log_def max_lsn_def)
qed

text \<open>A file too short for its header, cut inside the header a log starts with.\<close>

lemma scan_short_header:
  assumes "length salt = 16" and "n < V3_HEADER_LEN"
  shows "scan_records dec (take n (MAGIC_V3 @ salt @ body)) = Inr []"
proof (cases "n < 4")
  case True
  then have "length (take n (MAGIC_V3 @ salt @ body)) < 4" by (simp only: length_take min_less_iff_conj simp_thms)
  then show ?thesis by (subst scan_records.simps) (simp only: if_True)
next
  case False
  then have "take 4 (take n (MAGIC_V3 @ salt @ body)) = MAGIC_V3" by (simp add: MAGIC_V3_def min_absorb1)
  moreover have "MAX_RECORD_BYTES < be_val MAGIC_V3"
    by (simp add: MAX_RECORD_BYTES_def be_val_def MAGIC_V3_def)
  ultimately show ?thesis by (subst scan_records.simps) (simp only: Let_def simp_thms if_True if_cancel)
qed

lemma open_short:
  assumes "length salt = 16" and "n < V3_HEADER_LEN"
  shows "open_wal key (Some (take n (MAGIC_V3 @ salt @ body))) d =
     Inr (fresh_wal key (Some (take n (MAGIC_V3 @ salt @ body))) d)"
    and "replay (fresh_wal key (Some (take n (MAGIC_V3 @ salt @ body))) d) =
     Inr ([], fresh_wal key (Some (take n (MAGIC_V3 @ salt @ body))) d)"
proof -
  let ?f = "take n (MAGIC_V3 @ salt @ body)"
  have len: "length ?f < V3_HEADER_LEN" using assms(2) by (simp only: length_take min_less_iff_conj simp_thms)
  then have "take V3_HEADER_LEN ?f = ?f" by (intro take_all less_imp_le)
  with len have "length (take V3_HEADER_LEN ?f) \<noteq> V3_HEADER_LEN" by (simp only: nat_neq_iff simp_thms)
  then show r: "replay (fresh_wal key (Some ?f) d) = Inr ([], fresh_wal key (Some ?f) d)"
    unfolding replay_def by (simp add: fresh_wal_def Let_def scan_short_header [OF assms] del: take_append)
  have "load_v3_header (fresh_wal key (Some ?f) d) = fresh_wal key (Some ?f) d"
    using len by (simp add: load_v3_header_def fresh_wal_def del: take_append)
  then show "open_wal key (Some ?f) d = Inr (fresh_wal key (Some ?f) d)"
    unfolding open_wal_def init_lsn_def using r by (simp add: fresh_wal_def)
qed

lemma open_empty:
  assumes "content w = []"
  shows "open_wal key (wal_file w) d = Inr (fresh_wal key (wal_file w) d)"
proof -
  have "load_v3_header (fresh_wal key (wal_file w) d) = fresh_wal key (wal_file w) d"
    using assms by (cases "wal_file w") (simp_all add: load_v3_header_def fresh_wal_def content_def V3_HEADER_LEN_def)
  moreover have "content (fresh_wal key (wal_file w) d) = []"
    using assms by (simp add: content_def fresh_wal_def)
  ultimately show ?thesis
    using scan_empty_log [of "fresh_wal key (wal_file w) d"]
    by (cases "wal_file w") (simp_all add: open_wal_def init_lsn_def fresh_wal_def)
qed

text \<open>What an append writes: a frame that carries the entry.\<close>

lemma entry_fits_plain:
  assumes "entry_fits en"
  obtains p where "plain_bytes (entry_record en) = Inr p" "p \<noteq> []" "48 + length p \<le> MAX_RECORD_BYTES"
    "record_of (Some p) = Inr [entry_record en]"
proof -
  obtain n op data where en: "en = (n, op, data)" by (cases en)
  obtain p where p: "plain_bytes (entry_record en) = Inr p" "48 + length p \<le> MAX_RECORD_BYTES"
    using assms by (auto simp: entry_fits_def split: sum.splits)
  moreover have r: "record_of (Some p) = Inr [entry_record en]"
    using assms p(1) record_of_plain unfolding en entry_fits_def entry_record.simps plain_record_def by blast
  moreover have "p \<noteq> []" using r by (auto simp: record_of_def)
  ultimately show ?thesis using that by blast
qed

lemma carries_sealed:
  assumes "entry_fits en" and "plain_bytes (entry_record en) = Inr p" and "length nonce = 16"
  shows "carries (v3_dec key salt)
     (seal_v3 (fst (derive_keys key salt)) (snd (derive_keys key salt)) nonce p) (entry_record en)"
proof -
  obtain q where "plain_bytes (entry_record en) = Inr q" "48 + length q \<le> MAX_RECORD_BYTES"
    "record_of (Some q) = Inr [entry_record en]"
    using entry_fits_plain [OF assms(1)] by blast
  moreover have len: "length (seal_v3 e m nonce p) = 48 + length p" for e m
    by (rule v3.length_seal [OF assms(3)])
  moreover have "seal_v3 e m nonce p \<noteq> []" for e m
    unfolding length_greater_0_conv [symmetric] len by simp
  ultimately show ?thesis
    using assms(2) by (auto simp: carries_def v3_dec_def v3.unseal_seal [OF assms(3)])
qed

text \<open>Encryption in a version 3 log, started if it is not, leaves the rest of the object alone.\<close>

lemma encrypt_rel:
  assumes rel: "wal_rel w t" and fits: "entry_fits en" and p: "plain_bytes (entry_record en) = Inr p"
  shows "\<exists>e w' salt. encrypt env p w = Inr (e, w') \<and> wal_rel w' t \<and> wal_v3 w' \<and> wal_key w' = wal_key w \<and>
     wal_salt w' = Some salt \<and> carries (v3_dec (wal_key w) salt) e (entry_record en)"
  using rel
proof (cases rule: wal_relE)
  case fresh
  let ?salt = "urandom env (wal_draws w) 16"
  let ?w = "start_v3 env w"
  have salt: "length ?salt = 16" by (simp add: urandom_def)
  have f: "wal_enc ?w = Some (fst (derive_keys (wal_key w) ?salt))" "wal_mac ?w = Some (snd (derive_keys (wal_key w) ?salt))"
    "wal_salt ?w = Some ?salt" "wal_file ?w = Some (MAGIC_V3 @ ?salt @ concat (map frame []))" "wal_v3 ?w"
    "wal_key ?w = wal_key w" "\<not> wal_legacy ?w" "wal_lsn ?w = tl_lsn t" "wal_active ?w = tl_active t"
    "wal_buffer ?w = map frame []"
    using fresh by (simp_all add: start_v3_def write_disk_def install_salt_def Let_def content_def)
  let ?e = "seal_v3 (fst (derive_keys (wal_key w) ?salt)) (snd (derive_keys (wal_key w) ?salt))
      (urandom env (wal_draws ?w) 16) p"
  let ?w' = "?w\<lparr>wal_draws := Suc (wal_draws ?w)\<rparr>"
  have "encrypt env p w = Inr (?e, ?w')"
    using fresh(1-3) f(1,2) by (simp add: encrypt_def encrypt_v3_def)
  moreover have "carries (v3_dec (wal_key w) ?salt) ?e (entry_record en)"
    by (rule carries_sealed [OF fits p]) (simp add: urandom_def)
  moreover have "wal_rel ?w' t"
    by (rule wal_rel_v3I [where salt = ?salt and es = "[]" and ps = "[]"]) (use f salt fresh in simp_all)
  ultimately show ?thesis using f by auto
next
  case (v3 salt es ps)
  let ?e = "seal_v3 (fst (derive_keys (wal_key w) salt)) (snd (derive_keys (wal_key w) salt))
      (urandom env (wal_draws w) 16) p"
  let ?w' = "w\<lparr>wal_draws := Suc (wal_draws w)\<rparr>"
  have "encrypt env p w = Inr (?e, ?w')"
    using v3 by (simp add: encrypt_def encrypt_v3_def)
  moreover have "carries (v3_dec (wal_key w) salt) ?e (entry_record en)"
    by (rule carries_sealed [OF fits p]) (simp add: urandom_def)
  moreover have "wal_rel ?w' t"
    by (rule wal_rel_v3I [where salt = salt and es = es and ps = ps]) (use v3 in simp_all)
  ultimately show ?thesis using v3 by auto
qed

lemma append_rel:
  assumes rel: "wal_rel w t" and spec: "spec_step t (Append op data) = Inr t'"
  shows "\<exists>w'. wal_append env op data w = Inr (tl_lsn t', w') \<and> wal_rel w' t'"
proof -
  let ?en = "(tl_lsn t + 1, op, data)" and ?w1 = "w\<lparr>wal_lsn := wal_lsn w + 1\<rparr>"
    and ?t1 = "t\<lparr>tl_lsn := tl_lsn t + 1\<rparr>"
  have fits: "entry_fits ?en" using spec by (auto simp: Let_def split: if_splits)
  obtain p where p: "plain_bytes (entry_record ?en) = Inr p" using entry_fits_plain [OF fits] by blast
  have "wal_rel ?w1 ?t1"
    using rel by (cases rule: wal_relE) (auto simp: wal_rel_def content_def)
  from encrypt_rel [OF this fits p, of env] obtain e w2 salt where
    e: "encrypt env p ?w1 = Inr (e, w2)" "wal_rel w2 ?t1" "wal_v3 w2" "wal_salt w2 = Some salt"
      "carries (v3_dec (wal_key w2) salt) e (entry_record ?en)"
    by auto
  have size: "\<not> 2 ^ 32 \<le> length e" using e(5) by (simp add: carries_def MAX_RECORD_BYTES_def)
  have lsn: "wal_lsn w = tl_lsn t" using rel by (simp add: wal_rel_def)
  from e(2) show ?thesis
  proof (cases rule: wal_relE)
    case fresh
    then show ?thesis using e(3) by simp
  next
    case (v3 salt' es ps)
    have s: "salt' = salt" using v3(4) e(4) by simp
    have run: "wal_append env op data w = Inr (tl_lsn t + 1,
        if tl_active t then w2\<lparr>wal_buffer := wal_buffer w2 @ [frame e]\<rparr> else write_disk [frame e] w2)"
      using e(1) p size v3(12) by (simp add: wal_append_def Let_def lsn)
    show ?thesis
    proof (cases "tl_active t")
      case True
      then have t': "t' = ?t1\<lparr>tl_pending := tl_pending t @ [?en]\<rparr>"
        using spec fits by (simp add: Let_def)
      have "wal_rel (w2\<lparr>wal_buffer := wal_buffer w2 @ [frame e]\<rparr>) t'"
        by (rule wal_rel_v3I [where salt = salt and es = es and ps = "ps @ [e]"])
          (use v3 e(5) s in \<open>simp_all add: t' list_all2_appendI\<close>)
      then show ?thesis using run True by (simp add: t')
    next
      case False
      then have t': "t' = ?t1\<lparr>tl_committed := tl_committed t @ [?en]\<rparr>"
        using spec fits by (simp add: Let_def)
      have "wal_rel (write_disk [frame e] w2) t'"
        by (rule wal_rel_v3I [where salt = salt and es = "es @ [e]" and ps = ps])
          (use v3 e(5) s in \<open>simp_all add: t' write_disk_def content_def list_all2_appendI\<close>)
      then show ?thesis using run False by (simp add: t')
    qed
  qed
qed

lemma reopen_rel:
  assumes rel: "wal_rel w t" and spec: "spec_step t Reopen = Inr t'"
  shows "\<exists>w'. open_wal (wal_key w) (wal_file w) (wal_draws w) = Inr w' \<and> wal_rel w' t'"
  using rel
proof (cases rule: wal_relE)
  case fresh
  then show ?thesis
    using spec open_empty [OF fresh(3), of "wal_key w" "wal_draws w"]
    by (auto simp: wal_rel_def fresh_wal_def content_def)
next
  case (v3 salt es ps)
  have "scan_records (v3_dec (wal_key w) salt) (concat (map frame es)) = Inr (map entry_record (tl_committed t))"
    using scan_frames [OF v3(8), of "[]"] by simp
  from open_v3 [OF v3(3) this, of "wal_draws w"]
  have "open_wal (wal_key w) (wal_file w) (wal_draws w) =
      Inr (v3_log (wal_key w) salt (concat (map frame es)) (wal_draws w) (max_lsn (tl_committed t)))"
    by (simp add: v3(7))
  moreover have "wal_rel (v3_log (wal_key w) salt (concat (map frame es)) (wal_draws w) (max_lsn (tl_committed t))) t'"
    by (rule wal_rel_v3I [where salt = salt and es = es and ps = "[]"])
      (use v3 spec in \<open>auto simp: v3_log_def max_lsn_def\<close>)
  ultimately show ?thesis by blast
qed

lemma wal_step_rel:
  assumes rel: "wal_rel w t" and spec: "spec_step t op = Inr t'"
  shows "\<exists>w'. wal_step env w op = Inr w' \<and> wal_rel w' t'"
proof (cases op)
  case Begin
  then show ?thesis
    using rel spec by (cases rule: wal_relE [OF rel]) (auto simp: wal_rel_def begin_txn_def content_def)
next
  case (Append op' data)
  then show ?thesis using append_rel [OF rel, of op' data t' env] spec by auto
next
  case Commit
  show ?thesis
    using rel
  proof (cases rule: wal_relE)
    case fresh
    then show ?thesis
      using spec Commit by (auto simp: wal_rel_def commit_def write_disk_def content_def)
  next
    case (v3 salt es ps)
    show ?thesis
    proof (cases "tl_active t")
      case True
      have "wal_rel (commit w) t'"
        by (rule wal_rel_v3I [where salt = salt and es = "es @ ps" and ps = "[]"])
          (use v3 spec Commit True in \<open>auto simp: commit_def write_disk_def content_def list_all2_appendI\<close>)
      then show ?thesis using Commit by simp
    next
      case False
      then show ?thesis using v3 spec Commit rel by (simp add: commit_def)
    qed
  qed
next
  case Rollback
  then show ?thesis
    using rel spec by (cases rule: wal_relE [OF rel]) (auto simp: wal_rel_def rollback_def content_def)
next
  case Reopen
  then show ?thesis using reopen_rel [OF rel, of t'] spec by auto
qed

lemma wal_run_rel:
  assumes "wal_rel w t" and "fold_res spec_step t ops = Inr t'"
  shows "\<exists>w'. fold_res (wal_step env) w ops = Inr w' \<and> wal_rel w' t'"
  using assms
proof (induction ops arbitrary: w t)
  case Nil
  then show ?case by simp
next
  case (Cons op ops)
  then obtain t1 where t1: "spec_step t op = Inr t1" "fold_res spec_step t1 ops = Inr t'"
    by (auto simp: bind_res_eq_Inr)
  then obtain w1 where "wal_step env w op = Inr w1" "wal_rel w1 t1"
    using wal_step_rel [OF Cons.prems(1)] by blast
  with Cons.IH [OF _ t1(2)] show ?case by auto
qed

lemma wal_rel_fresh: "wal_rel (fresh_wal key None d) tlog_empty"
  by (simp add: wal_rel_def fresh_wal_def tlog_empty_def content_def)

section \<open>Crashes\<close>

text \<open>After a crash the file is a prefix of what was written.\<close>

lemma crash_rel:
  assumes "wal_rel w t"
  shows "\<exists>w' m. open_wal (wal_key w) (map_option (take n) (wal_file w)) d = Inr w' \<and>
     replay w' = Inr (map entry_record (take m (tl_committed t)), w')"
  using assms
proof (cases rule: wal_relE)
  case fresh
  define w0 where "w0 = w\<lparr>wal_file := map_option (take n) (wal_file w)\<rparr>"
  have c: "content w0 = []"
    using fresh(3) by (cases "wal_file w") (simp_all add: w0_def content_def)
  have f: "wal_file w0 = map_option (take n) (wal_file w)" by (simp add: w0_def)
  have "content (fresh_wal (wal_key w) (wal_file w0) d) = []"
    using c by (simp add: content_def fresh_wal_def)
  from scan_empty_log [OF this] open_empty [OF c, of "wal_key w" d] show ?thesis
    unfolding f by (intro exI conjI) (assumption, simp add: fresh(5))
next
  case (v3 salt es ps)
  show ?thesis
  proof (cases "n < V3_HEADER_LEN")
    case True
    from open_short [OF v3(3) True, of "wal_key w" "concat (map frame es)" d] show ?thesis
      unfolding v3(7) option.map by (intro exI [of _ 0] exI conjI) (assumption, simp)
  next
    case False
    define cut where "cut = take (n - V3_HEADER_LEN) (concat (map frame es))"
    obtain k where "scan_records (v3_dec (wal_key w) salt) cut = Inr (take k (map entry_record (tl_committed t)))"
      using scan_cut [OF v3(8)] unfolding cut_def by blast
    then have k: "scan_records (v3_dec (wal_key w) salt) cut = Inr (map entry_record (take k (tl_committed t)))"
      by (simp add: take_map)
    have cut_file: "take n (MAGIC_V3 @ salt @ concat (map frame es)) = MAGIC_V3 @ salt @ cut"
      using False v3(3) by (simp add: cut_def V3_HEADER_LEN_def MAGIC_V3_def take_Cons')
    let ?w = "v3_log (wal_key w) salt cut d (max_lsn (take k (tl_committed t)))"
    have "replay ?w = Inr (map entry_record (take k (tl_committed t)), ?w)"
      using replay_v3 [of ?w salt cut] v3(3) k by (simp add: v3_log_def)
    with open_v3 [OF v3(3) k, of d] show ?thesis
      unfolding v3(7) option.map cut_file by blast
  qed
qed

section \<open>Properties\<close>

text \<open>
  C15: The log implements the abstract transaction log. From an empty file, under any sequence of
  begin, append, commit, rollback and reopening whose entries fit a record, every operation succeeds
  and \<open>replay\<close> reads back exactly the committed entries, in order, with consistent numbering: nothing
  of an open or rolled-back transaction is ever seen.
\<close>
theorem wal_refines_log:
  assumes "fold_res spec_step tlog_empty ops = Inr t"
  shows "\<exists>w. fold_res (wal_step env) (fresh_wal key None 0) ops = Inr w \<and>
     replay w = Inr (map entry_record (tl_committed t), w) \<and> wal_lsn w = tl_lsn t \<and>
     wal_active w = tl_active t"
proof -
  obtain w where "fold_res (wal_step env) (fresh_wal key None 0) ops = Inr w" and rel: "wal_rel w t"
    using wal_run_rel [OF wal_rel_fresh assms] by blast
  then show ?thesis using replay_rel [OF rel] by (simp add: wal_rel_def)
qed

definition sample_wal_ops :: "wal_op list" where
  "sample_wal_ops =
     [Append ''a'' [(''k'', PInt 1)], Begin, Append ''b'' [], Rollback, Begin, Append ''c'' [], Append ''d'' [],
      Commit, Reopen, Append ''e'' []]"

definition sample_tlog :: tlog where
  "sample_tlog =
     \<lparr>tl_committed = [(1, ''a'', [(''k'', PInt 1)]), (3, ''c'', []), (4, ''d'', []), (5, ''e'', [])],
      tl_pending = [], tl_active = False, tl_lsn = 5\<rparr>"

text \<open>A bound that evaluation reaches quickly: a character takes at most two bytes.\<close>

definition entry_small :: "log_entry3 \<Rightarrow> bool" where
  "entry_small en \<longleftrightarrow> json_ok (entry_record en) \<and> length (json_dumps False None (entry_record en)) < 400"

lemma plain_bytes_length:
  "\<exists>p. plain_bytes r = Inr p \<and> length (json_dumps False None r) \<le> length p \<and>
     length p \<le> 2 * length (json_dumps False None r)"
proof -
  have one: "1 \<le> length (utf8_char (of_char c)) \<and> length (utf8_char (of_char c)) \<le> 2" for c
    using nat_of_char_less_256 [of c] by (auto simp: utf8_char_def simp del: nat_of_char_less_256)
  have "length s \<le> length (concat (map utf8_char (map of_char s))) \<and>
      length (concat (map utf8_char (map of_char s))) \<le> 2 * length s" for s
  proof (induction s)
    case (Cons c s)
    then show ?case using one [of c] by simp
  qed simp
  then show ?thesis by (auto simp: plain_bytes_def encode_latin)
qed

lemma entry_small_fits: "entry_small en \<Longrightarrow> entry_fits en"
  using plain_bytes_length [of "entry_record en"]
  by (auto simp: entry_small_def entry_fits_def MAX_RECORD_BYTES_def)

lemma sample_entries:
  "list_all entry_small [(1, ''a'', [(''k'', PInt 1)]), (2, ''b'', []), (3, ''c'', []), (4, ''d'', []), (5, ''e'', [])]"
  by code_simp

lemma sample_wal_run: "fold_res spec_step tlog_empty sample_wal_ops = Inr sample_tlog"
  using sample_entries
  by (simp add: sample_wal_ops_def tlog_empty_def sample_tlog_def Let_def entry_small_fits)

theorem wal_refines_log_witness:
  "\<exists>w. fold_res (wal_step (\<lambda>_ _. 7)) (fresh_wal [1, 2, 3] None 0) sample_wal_ops = Inr w \<and>
     replay w = Inr (map entry_record (tl_committed sample_tlog), w) \<and> wal_lsn w = 5 \<and> \<not> wal_active w"
  using wal_refines_log [OF sample_wal_run, of "\<lambda>_ _. 7" "[1, 2, 3]"] by (simp add: sample_tlog_def)

text \<open>
  C16: Crash recovery. Cut the file of such a log at any byte: opening what is left succeeds, and replay
  gives a prefix of the committed entries. A torn record or header is never read as an entry.
\<close>
theorem wal_crash_prefix:
  assumes "fold_res spec_step tlog_empty ops = Inr t"
    and "fold_res (wal_step env) (fresh_wal key None 0) ops = Inr w"
  shows "\<exists>w' m. open_wal (wal_key w) (map_option (take n) (wal_file w)) d = Inr w' \<and>
     replay w' = Inr (map entry_record (take m (tl_committed t)), w')"
proof -
  have "wal_rel w t" using wal_run_rel [OF wal_rel_fresh assms(1), of env key 0] assms(2) by auto
  then show ?thesis by (rule crash_rel)
qed

theorem wal_crash_prefix_witness:
  "\<exists>w w' m. fold_res (wal_step (\<lambda>_ _. 7)) (fresh_wal [1, 2, 3] None 0) sample_wal_ops = Inr w \<and>
     open_wal (wal_key w) (map_option (take 90) (wal_file w)) 0 = Inr w' \<and>
     replay w' = Inr (map entry_record (take m (tl_committed sample_tlog)), w')"
proof -
  obtain w where w: "fold_res (wal_step (\<lambda>_ _. 7)) (fresh_wal [1, 2, 3] None 0) sample_wal_ops = Inr w"
    using wal_run_rel [OF wal_rel_fresh sample_wal_run] by blast
  from wal_crash_prefix [OF sample_wal_run w, of 90 0] w show ?thesis by blast
qed

text \<open>Every number of entries can be what a crash leaves, also inside a transaction.\<close>

lemma crash_reaches:
  assumes "wal_rel w t" and "m \<le> length (tl_committed t)"
  shows "\<exists>n w'. open_wal (wal_key w) (map_option (take n) (wal_file w)) d = Inr w' \<and>
     replay w' = Inr (map entry_record (take m (tl_committed t)), w')"
  using assms(1)
proof (cases rule: wal_relE)
  case fresh
  obtain w' where "open_wal (wal_key w) (map_option (take 0) (wal_file w)) d = Inr w'" "replay w' = Inr ([], w')"
    using crash_rel [OF assms(1), of 0 d] fresh(5) by auto
  then show ?thesis using fresh(5) by (intro exI conjI) (assumption, simp)
next
  case (v3 salt es ps)
  let ?cut = "concat (map frame (take m es))" and ?ens = "take m (tl_committed t)"
  have "list_all2 (carries (v3_dec (wal_key w) salt)) (take m es) (map entry_record ?ens)"
    using v3(8) unfolding take_map [symmetric] by (rule list_all2_takeI)
  from scan_frames [OF this, of "[]"]
  have scan: "scan_records (v3_dec (wal_key w) salt) ?cut = Inr (map entry_record ?ens)" by simp
  have "concat (map frame es) = ?cut @ concat (map frame (drop m es))"
    by (simp flip: concat_append map_append)
  then have "(MAGIC_V3 @ salt @ ?cut) @ concat (map frame (drop m es)) = MAGIC_V3 @ salt @ concat (map frame es)"
    by simp
  from append_eq_conv_conj [THEN iffD1, THEN conjunct1, OF this]
  have cut_file: "take (V3_HEADER_LEN + length ?cut) (MAGIC_V3 @ salt @ concat (map frame es)) = MAGIC_V3 @ salt @ ?cut"
    unfolding v3_header(5) [OF v3(3)] by (rule sym)
  let ?w = "v3_log (wal_key w) salt ?cut d (max_lsn ?ens)"
  have "replay ?w = Inr (map entry_record ?ens, ?w)"
    using replay_v3 [of ?w salt ?cut] v3(3) scan by (simp add: v3_log_def)
  with open_v3 [OF v3(3) scan, of d] cut_file show ?thesis unfolding v3(7) option.map by metis
qed

definition two_entry_txn :: "wal_op list" where
  "two_entry_txn = [Begin, Append ''debit'' [], Append ''credit'' [], Commit]"

lemma two_entries: "list_all entry_small [(1, ''debit'', []), (2, ''credit'', [])]"
  by code_simp

text \<open>
  A commit is not atomic. Whatever the key, a crash during the commit of two entries can leave a log
  that opens without error and replays the first entry alone.
\<close>
theorem commit_not_atomic:
  "\<exists>w n w'. fold_res (wal_step env) (fresh_wal key None 0) two_entry_txn = Inr w \<and>
     open_wal (wal_key w) (map_option (take n) (wal_file w)) d = Inr w' \<and>
     replay w' = Inr ([plain_record 1 ''debit'' []], w')"
proof -
  let ?t = "\<lparr>tl_committed = [(1, ''debit'', []), (2, ''credit'', [])], tl_pending = [], tl_active = False, tl_lsn = 2\<rparr>"
  have "fold_res spec_step tlog_empty two_entry_txn = Inr ?t"
    using two_entries by (simp add: two_entry_txn_def tlog_empty_def Let_def entry_small_fits)
  from wal_run_rel [OF wal_rel_fresh this] obtain w where
    w: "fold_res (wal_step env) (fresh_wal key None 0) two_entry_txn = Inr w" "wal_rel w ?t" by blast
  from crash_reaches [OF w(2), of 1 d] w(1) show ?thesis by auto
qed

text \<open>A torn frame whose missing part is longer than what follows hides it.\<close>

lemma scan_torn_swallows:
  assumes "length e \<le> MAX_RECORD_BYTES" and "length bs < length e"
  shows "scan_records dec (be_bytes 4 (length e) @ bs) = Inr []"
proof -
  have "be_val (be_bytes 4 (length e)) = length e"
    using assms by (intro be_val_be_bytes) (simp add: MAX_RECORD_BYTES_def)
  then show ?thesis using assms by (subst scan_records.simps) (simp add: Let_def)
qed

definition long_op :: string where
  "long_op = replicate 130 (CHR ''a'')"

lemma long_entries: "list_all entry_small [(1, long_op, []), (1, ''b'', [])]"
  and long_length: "60 + 2 * length (json_dumps False None (entry_record (1, ''b'', []))) <
    length (json_dumps False None (entry_record (1, long_op, [])))"
  by code_simp+

lemma append_fresh:
  assumes "plain_bytes (plain_record 1 op data) = Inr p" and "48 + length p \<le> MAX_RECORD_BYTES"
  shows "\<exists>w salt e. wal_append env op data (fresh_wal key None 0) = Inr (1, w) \<and> length salt = 16 \<and>
     wal_file w = Some (MAGIC_V3 @ salt @ frame e) \<and> length e = 48 + length p"
proof -
  let ?salt = "urandom env 0 16"
  let ?e = "seal_v3 (fst (derive_keys key ?salt)) (snd (derive_keys key ?salt)) (urandom env 1 16) p"
  have len: "length ?e = 48 + length p" by (rule v3.length_seal) (simp add: urandom_def)
  moreover have "length ?salt = 16" by (simp add: urandom_def)
  moreover have "wal_append env op data (fresh_wal key None 0) = Inr (1, write_disk [frame ?e]
      ((start_v3 env (fresh_wal key None 0))\<lparr>wal_lsn := 1, wal_draws := Suc (Suc 0)\<rparr>))"
    using assms len
    by (simp add: wal_append_def Let_def encrypt_def encrypt_v3_def start_v3_def write_disk_def install_salt_def
        content_def fresh_wal_def MAX_RECORD_BYTES_def)
  moreover have "wal_file (write_disk [frame ?e] ((start_v3 env (fresh_wal key None 0))\<lparr>wal_lsn := 1, wal_draws := Suc (Suc 0)\<rparr>)) =
      Some (MAGIC_V3 @ ?salt @ frame ?e)"
    by (simp add: start_v3_def write_disk_def install_salt_def content_def fresh_wal_def Let_def)
  ultimately show ?thesis by blast
qed

lemma append_v3_log:
  assumes "plain_bytes (plain_record (lsn + 1) op data) = Inr p" and "48 + length p \<le> MAX_RECORD_BYTES"
  shows "\<exists>e. wal_append env op data (v3_log key salt body d lsn) =
     Inr (lsn + 1, v3_log key salt (body @ frame e) (Suc d) (lsn + 1)) \<and> length e = 48 + length p"
proof -
  let ?e = "seal_v3 (fst (derive_keys key salt)) (snd (derive_keys key salt)) (urandom env d 16) p"
  have "length ?e = 48 + length p" by (rule v3.length_seal) (simp add: urandom_def)
  then show ?thesis
    using assms
    by (intro exI [of _ ?e])
      (simp add: wal_append_def Let_def encrypt_def encrypt_v3_def write_disk_def content_def v3_log_def
        MAX_RECORD_BYTES_def)
qed

text \<open>
  Appending after a crash can lose the new entry. A crash that leaves only the length of a record is
  recovered without error, the next append reports success, and replay does not see it: the torn record
  is not cut off, so it swallows what is written behind it.
\<close>
theorem append_after_torn_tail_lost:
  "\<exists>w w' w2. wal_append env long_op [] (fresh_wal key None 0) = Inr (1, w) \<and>
     open_wal key (map_option (take 24) (wal_file w)) d = Inr w' \<and>
     wal_append env ''b'' [] w' = Inr (1, w2) \<and> replay w2 = Inr ([], w2)"
proof -
  obtain p q where p: "plain_bytes (plain_record 1 long_op []) = Inr p" "48 + length p \<le> MAX_RECORD_BYTES"
    and q: "plain_bytes (plain_record 1 ''b'' []) = Inr q" "48 + length q \<le> MAX_RECORD_BYTES"
    and le: "4 + length q < length p"
    using plain_bytes_length [of "entry_record (1, long_op, [])"] plain_bytes_length [of "entry_record (1, ''b'', [])"]
      long_length long_entries
    by (auto simp: entry_small_def MAX_RECORD_BYTES_def)
  obtain w salt e where w: "wal_append env long_op [] (fresh_wal key None 0) = Inr (1, w)" "length salt = 16"
    "wal_file w = Some (MAGIC_V3 @ salt @ frame e)" "length e = 48 + length p"
    using append_fresh [OF p] by blast
  let ?body = "be_bytes 4 (length e)"
  have e: "length e \<le> MAX_RECORD_BYTES" "0 < length e" using w(4) p(2) by simp_all
  have cut_file: "take 24 (MAGIC_V3 @ salt @ frame e) = MAGIC_V3 @ salt @ ?body"
    using w(2) by (simp add: MAGIC_V3_def frame_def)
  have "scan_records (v3_dec key salt) (?body @ []) = Inr []"
    by (rule scan_torn_swallows) (use e in simp_all)
  then have "open_wal key (map_option (take 24) (wal_file w)) d = Inr (v3_log key salt ?body d (max_lsn []))"
    unfolding w(3) option.map cut_file using open_v3 [OF w(2), of key ?body "[]"] by simp
  then have o: "open_wal key (map_option (take 24) (wal_file w)) d = Inr (v3_log key salt ?body d 0)"
    by (simp add: max_lsn_def)
  obtain e2 where a: "wal_append env ''b'' [] (v3_log key salt ?body d 0) =
      Inr (1, v3_log key salt (?body @ frame e2) (Suc d) 1)" "length e2 = 48 + length q"
    using append_v3_log [of 0 "''b''" "[]" q env key salt ?body d] q by auto
  have "scan_records (v3_dec key salt) (?body @ frame e2) = Inr []"
    by (rule scan_torn_swallows) (use e w(4) a(2) le in simp_all)
  then have "replay (v3_log key salt (?body @ frame e2) (Suc d) 1) =
      Inr ([], v3_log key salt (?body @ frame e2) (Suc d) 1)"
    using replay_v3 [of "v3_log key salt (?body @ frame e2) (Suc d) 1" salt "?body @ frame e2"] w(2)
    by (simp add: v3_log_def)
  then show ?thesis using w(1) o a(1) by blast
qed

text \<open>
  The key of a log survives a restart. Whatever the key file held and whatever another process did
  meanwhile, the key that is resolved without a configured one is the key the next start resolves; an
  unusable key file is never replaced while the log holds records.
\<close>
theorem key_survives_restart:
  assumes "resolve_key None None h = Inr (k, f)" and "MIN_KEY_BYTES \<le> length (key_fresh h)"
    and "key_file h' = f"
  shows "resolve_key None None h' = Inr (k, f) \<and> MIN_KEY_BYTES \<le> length k \<and>
     (log_holds h \<longrightarrow> key_file h \<noteq> None \<longrightarrow> f = key_file h)"
  using assms
  by (cases h; cases h') (auto simp: resolve_key_def load_or_create_key_def split: option.splits if_splits)

theorem key_survives_restart_witness:
  "resolve_key None None \<lparr>key_file = Some (replicate 32 7), key_raced = None, key_fresh = replicate 32 9, log_holds = True\<rparr>
     = Inr (replicate 32 7, Some (replicate 32 7))"
proof -
  let ?h = "\<lparr>key_file = None, key_raced = None, key_fresh = replicate 32 7, log_holds = False\<rparr>"
  have "resolve_key None None ?h = Inr (replicate 32 7, Some (replicate 32 7))"
    by (simp add: resolve_key_def load_or_create_key_def)
  from key_survives_restart [OF this] show ?thesis by (simp add: MIN_KEY_BYTES_def)
qed

text \<open>The environment variable is not held to the minimum length.\<close>

lemma environment_key_unchecked: "resolve_key None (Some ''ff'') h = Inr ([255], key_file h)"
proof -
  have "from_hex (strip ''ff'') = Some [255]" by code_simp
  then show ?thesis by (simp add: resolve_key_def)
qed

end
