(* ===== verification/Ct.thy ===== *)
theory Ct
  imports PyJson PyIp "HOL-Library.List_Lexorder" "HOL-Library.Char_ord"
begin

text \<open>
  \<open>modules/discovery/ct.py\<close>: names from Certificate Transparency logs. The payload is the decoded
  text of the answer and the fetcher an argument, as it is in the code.
\<close>

section \<open>Host names\<close>

definition is_lower_alnum :: "char \<Rightarrow> bool" where
  "is_lower_alnum c \<longleftrightarrow> (48 \<le> ord_of c \<and> ord_of c \<le> 57) \<or> (97 \<le> ord_of c \<and> ord_of c \<le> 122)"

text \<open>The label of \<open>_LABEL\<close>: up to 63 characters, a hyphen neither first nor last.\<close>

definition valid_label :: "string \<Rightarrow> bool" where
  "valid_label l \<longleftrightarrow> l \<noteq> [] \<and> length l \<le> 63 \<and> is_lower_alnum (hd l) \<and> is_lower_alnum (last l) \<and>
     list_all (\<lambda>c. is_lower_alnum c \<or> c = CHR ''-'') l"

definition is_valid_hostname :: "string \<Rightarrow> bool" where
  "is_valid_hostname name \<longleftrightarrow>
     (let labels = split_char (CHR ''.'') name in 2 \<le> length labels \<and> list_all valid_label labels) \<and>
     length name \<le> 253"

definition normalise_name :: "string \<Rightarrow> string option" where
  "normalise_name raw =
     (let name = rstrip_dots (lower (strip raw));
          name = (if startswith ''*.'' name then drop 2 name else name)
      in if name = [] \<or> \<not> is_valid_hostname name then None else Some name)"

section \<open>Payloads\<close>

definition entry_names :: "pyval \<Rightarrow> string list" where
  "entry_names entry =
     (case entry of
        PDict d \<Rightarrow>
          (case dget d ''name_value'' of
             PStr s \<Rightarrow> List.map_filter normalise_name (split_char lf_char s)
           | PList vs \<Rightarrow>
               List.map_filter (\<lambda>v. case v of PStr s \<Rightarrow> normalise_name s | _ \<Rightarrow> None) vs
           | _ \<Rightarrow> [])
      | _ \<Rightarrow> [])"

text \<open>Only \<open>JSONDecodeError\<close> and \<open>TypeError\<close> are caught around \<open>json.loads\<close>.\<close>

definition parse_ct_payload :: "string \<Rightarrow> exc + string list" where
  "parse_ct_payload payload =
     (case json_loads payload of
        Inl e \<Rightarrow> (case e of JSONDecodeError \<Rightarrow> Inr [] | TypeError _ \<Rightarrow> Inr [] | _ \<Rightarrow> Inl e)
      | Inr document \<Rightarrow>
          let entries = (case document of PDict _ \<Rightarrow> [document] | PList vs \<Rightarrow> vs | _ \<Rightarrow> [])
          in Inr (sort (remdups (concat (map entry_names entries)))))"

definition CRTSH_URL :: "string \<Rightarrow> string" where
  "CRTSH_URL domain = ''https://crt.sh/?q=%25.'' @ domain @ ''&output=json''"

definition fetch_ct_names :: "(string \<Rightarrow> exc + string) \<Rightarrow> string \<Rightarrow> exc + string list" where
  "fetch_ct_names fetch domain =
     (case normalise_name domain of
        None \<Rightarrow> Inr []
      | Some name \<Rightarrow>
          if ip_address name \<noteq> None then Inr []
          else (case fetch (CRTSH_URL name) of
                  Inl _ \<Rightarrow> Inr []
                | Inr payload \<Rightarrow> parse_ct_payload payload))"

section \<open>Facts\<close>

lemma str_item_name:
  "(case v of PStr s \<Rightarrow> normalise_name s | _ \<Rightarrow> None) = Some n \<Longrightarrow> \<exists>s. v = PStr s \<and> normalise_name s = Some n"
  by (cases v) simp_all

lemma split_char_set: "x \<in> set s \<Longrightarrow> x \<noteq> c \<Longrightarrow> \<exists>l\<in>set (split_char c s). x \<in> set l"
  by (induction s) (auto split: list.splits)

lemma hd_split_char: "hd (split_char c s) \<noteq> [] \<Longrightarrow> s \<noteq> [] \<and> hd s = hd (hd (split_char c s))"
  by (cases s) (auto split: list.splits)

lemma last_split_char: "last (split_char c s) \<noteq> [] \<Longrightarrow> s \<noteq> [] \<and> last s = last (last (split_char c s))"
proof (induction s)
  case (Cons d s)
  show ?case
  proof (cases "split_char c s")
    case Nil
    then show ?thesis by simp
  next
    case (Cons p ps)
    show ?thesis
    proof (cases "ps = [] \<and> p = []")
      case True
      then have "s = []" using Cons by (cases s) (auto split: if_splits list.splits)
      then show ?thesis using Cons.prems by (auto split: if_splits)
    next
      case False
      then show ?thesis using Cons Cons.IH Cons.prems by (auto split: if_splits)
    qed
  qed
qed simp

lemma lower_alnum_facts:
  assumes "is_lower_alnum c"
  shows "\<not> is_space c" "lower_char c = c" "c \<noteq> CHR ''.''" "c \<noteq> CHR ''*''"
  using assms by (auto simp: is_lower_alnum_def is_space_def lower_char_def Let_def ord_of_def)

lemma hostname_facts:
  assumes "is_valid_hostname n"
  shows "n \<noteq> []" "is_lower_alnum (hd n)" "is_lower_alnum (last n)"
    "\<And>c. c \<in> set n \<Longrightarrow> is_lower_alnum c \<or> c = CHR ''-'' \<or> c = CHR ''.''"
proof -
  let ?ls = "split_char (CHR ''.'') n"
  have ls: "\<And>l. l \<in> set ?ls \<Longrightarrow> valid_label l"
    using assms by (simp add: is_valid_hostname_def list_all_iff Let_def)
  have "hd ?ls \<in> set ?ls" "last ?ls \<in> set ?ls" by simp_all
  then have v: "valid_label (hd ?ls)" "valid_label (last ?ls)" by (blast intro: ls)+
  then show "n \<noteq> []" "is_lower_alnum (hd n)" "is_lower_alnum (last n)"
    using hd_split_char [of "CHR ''.''" n] last_split_char [of "CHR ''.''" n]
    by (auto simp: valid_label_def)
  show "is_lower_alnum c \<or> c = CHR ''-'' \<or> c = CHR ''.''" if "c \<in> set n" for c
    using split_char_set [OF that, of "CHR ''.''"] ls by (auto simp: valid_label_def list_all_iff)
qed

lemma normalise_valid:
  assumes "is_valid_hostname n"
  shows "normalise_name n = Some n"
proof -
  note f = hostname_facts [OF assms]
  have "strip n = n" using f lower_alnum_facts(1) by (intro strip_by_id) auto
  moreover have "lower n = n"
    unfolding lower_def
  proof (rule map_idI)
    fix c
    assume "c \<in> set n"
    then consider "is_lower_alnum c" | "c = CHR ''-''" | "c = CHR ''.''" using f(4) by blast
    then show "lower_char c = c"
    proof cases
      case 1
      then show ?thesis by (rule lower_alnum_facts(2))
    qed (simp_all add: lower_char_def Let_def ord_of_def)
  qed
  moreover have "rstrip_dots n = n" using f lower_alnum_facts(3) by (intro rstrip_by_last) auto
  moreover have "\<not> startswith ''*.'' n" using lower_alnum_facts(4) [OF f(2)] by (auto simp: startswith_iff)
  ultimately show ?thesis using assms f(1) by (simp add: normalise_name_def Let_def)
qed

lemma normalise_some: "normalise_name raw = Some n \<Longrightarrow> is_valid_hostname n"
  by (auto simp: normalise_name_def Let_def split: if_splits)

lemma set_map_filter: "y \<in> set (List.map_filter f xs) \<longleftrightarrow> (\<exists>x\<in>set xs. f x = Some y)"
  by (force simp: map_filter_def)

lemma entry_names_valid: "n \<in> set (entry_names e) \<Longrightarrow> is_valid_hostname n"
proof -
  assume n: "n \<in> set (entry_names e)"
  then obtain d where e: "e = PDict d" by (cases e) (simp_all add: entry_names_def)
  then obtain raw where "normalise_name raw = Some n"
    using n by (cases "dget d ''name_value''")
      (auto simp: entry_names_def set_map_filter dest!: str_item_name)
  then show ?thesis by (rule normalise_some)
qed

lemma parse_ct_valid:
  assumes "parse_ct_payload payload = Inr names"
  shows "sorted names \<and> distinct names \<and> list_all is_valid_hostname names"
  using assms by (auto simp: parse_ct_payload_def Let_def list_all_iff entry_names_valid
      split: sum.splits exc.splits)

lemma fetch_ct_valid:
  assumes "fetch_ct_names fetch domain = Inr names"
  shows "sorted names \<and> distinct names \<and> list_all is_valid_hostname names"
  using assms parse_ct_valid by (auto simp: fetch_ct_names_def split: option.splits if_splits sum.splits)

section \<open>Properties\<close>

text \<open>
  C40: Names from a log cannot smuggle anything. Whatever the fetcher returns, every name that
  \<open>fetch_ct_names\<close> gives is in normal form and consists of lower-case letters, digits, hyphens and dots,
  starting and ending with a letter or digit; the list is sorted and free of duplicates.
\<close>
theorem ct_names_well_formed:
  assumes "fetch_ct_names fetch domain = Inr names"
  shows "sorted names \<and> distinct names \<and>
     (\<forall>n\<in>set names. normalise_name n = Some n \<and> length n \<le> 253 \<and>
        is_lower_alnum (hd n) \<and> is_lower_alnum (last n) \<and>
        (\<forall>c\<in>set n. is_lower_alnum c \<or> c = CHR ''-'' \<or> c = CHR ''.''))"
proof (intro conjI ballI)
  note v = fetch_ct_valid [OF assms]
  show "sorted names" "distinct names" using v by simp_all
  fix n
  assume "n \<in> set names"
  then have n: "is_valid_hostname n" using v by (simp add: list_all_iff)
  show "normalise_name n = Some n" by (rule normalise_valid [OF n])
  show "length n \<le> 253" using n by (simp add: is_valid_hostname_def)
  show "is_lower_alnum (hd n)" "is_lower_alnum (last n)" by (rule hostname_facts [OF n])+
  show "is_lower_alnum c \<or> c = CHR ''-'' \<or> c = CHR ''.''" if "c \<in> set n" for c
    using hostname_facts(4) [OF n that] .
qed

definition sample_payload :: string where
  "sample_payload =
     json_dumps False None
       (PList [PDict [(''name_value'', PStr ''B.Example.test'')],
               PDict [(''name_value'', PStr ''*.a.example.test'')],
               PDict [(''name_value'', PStr ''evil.test/path'')], PInt 3])"

lemma sample_names: "fetch_ct_names (\<lambda>_. Inr sample_payload) ''example.test'' = Inr [''a.example.test'', ''b.example.test'']"
  by code_simp

theorem ct_names_well_formed_witness:
  "fetch_ct_names (\<lambda>_. Inr sample_payload) ''example.test'' = Inr [''a.example.test'', ''b.example.test''] \<and>
   normalise_name ''a.example.test'' = Some ''a.example.test'' \<and> normalise_name ''b.example.test'' = Some ''b.example.test''"
  using ct_names_well_formed [OF sample_names] sample_names by simp

text \<open>A number with more digits than CPython converts, as the whole payload.\<close>

definition long_number :: string where
  "long_number = replicate 4301 (CHR ''1'')"

lemma long_number_Cons: "long_number = CHR ''1'' # replicate 4300 (CHR ''1'')"
  unfolding long_number_def by (simp flip: replicate_Suc)

lemma replicate_dec: "dropWhile is_dec (replicate n (CHR ''1'')) = []" "takeWhile is_dec (replicate n (CHR ''1'')) = replicate n (CHR ''1'')"
  by (induction n) (simp_all add: is_dec_def ord_of_def)

lemma next_token_long:
  "next_token long_number = Some (TScalar (Inl (ValueError ''int string too long'')), [])"
proof -
  have "list_all is_dec long_number" "length long_number = 4301" "long_number \<noteq> []"
    by (simp_all add: long_number_def list_all_length is_dec_def ord_of_def)
  then have "unsigned_int long_number = Inl (ValueError ''int string too long'')"
    by (simp add: unsigned_int_def int_max_str_digits_def)
  then have i: "int_of_token long_number = Inl (ValueError ''int string too long'')"
    unfolding int_of_token_def long_number_Cons by simp
  have "scan_nat long_number = (long_number, [])"
    using replicate_dec [of 4300] unfolding scan_nat_def long_number_Cons
    by (simp add: is_dec_def ord_of_def)
  with i have "lex_number False long_number = (TScalar (Inl (ValueError ''int string too long'')), [])"
    by (simp add: lex_number_def scan_frac_def has_exponent_def)
  then show ?thesis
    unfolding next_token_def by (simp add: long_number_Cons is_json_ws_def is_dec_def ord_of_def dq_char_def)
qed

lemma json_loads_long_number: "json_loads long_number = Inl (ValueError ''int string too long'')"
  by (simp add: json_loads_def json_run.simps [of _ long_number] next_token_long json_value_def)

text \<open>
  One malformed payload does raise. When a log answers with an integer of more digits than Python
  converts, \<open>fetch_ct_names\<close> raises a \<open>ValueError\<close> instead of giving an empty list.
\<close>
theorem ct_long_number_raises:
  "\<exists>payload m. fetch_ct_names (\<lambda>_. Inr payload) ''example.test'' = Inl (ValueError m)"
proof (intro exI)
  have n: "normalise_name ''example.test'' = Some ''example.test''" "ip_address ''example.test'' = None"
    by code_simp+
  with json_loads_long_number show "fetch_ct_names (\<lambda>_. Inr long_number) ''example.test'' = Inl (ValueError ''int string too long'')"
    by (simp add: fetch_ct_names_def parse_ct_payload_def)
qed

end
