(* ===== verification/Probe.thy ===== *)
theory Probe
  imports Ct Utf8
begin

text \<open>
  The HTTP probe of \<open>modules/discovery/assets.py\<close>: what it records of one response. Connecting,
  the TLS library and the certificate decoder are arguments; strings are Latin-1.
\<close>

section \<open>Text\<close>

text \<open>\<open>str.isprintable\<close> on Latin-1, and the input guard on strings.\<close>

definition latin_printable :: "nat \<Rightarrow> bool" where
  "latin_printable n \<longleftrightarrow> 32 \<le> n \<and> n \<le> 126 \<or> 161 \<le> n \<and> n \<le> 255 \<and> n \<noteq> 173"

definition guard :: "string \<Rightarrow> string" where
  "guard s = map char_of (sanitize_banner latin_printable MAX_BANNER_BYTES (map of_char s))"

definition MAX_TITLE_CHARS :: nat where "MAX_TITLE_CHARS = 120"

definition MAX_DOCUMENT_CHARS :: nat where "MAX_DOCUMENT_CHARS = 400"

text \<open>What precedes the first occurrence of a pattern, ignoring case.\<close>

fun before_nocase :: "string \<Rightarrow> string \<Rightarrow> string option" where
  "before_nocase p [] = (if p = [] then Some [] else None)"
| "before_nocase p (c # s) =
     (if startswith p (lower (c # s)) then Some [] else map_option (\<lambda>t. c # t) (before_nocase p s))"

text \<open>The title pattern: an opening tag up to its first closing bracket, then up to the closing tag.\<close>

fun title_match :: "string \<Rightarrow> string option" where
  "title_match [] = None"
| "title_match (c # s) =
     (if startswith ''<title'' (lower (c # s)) then
        (case partition_char (CHR ''>'') (drop 6 (c # s)) of
           None \<Rightarrow> title_match s
         | Some (_, rest) \<Rightarrow>
             (case before_nocase ''</title>'' rest of None \<Rightarrow> title_match s | Some t \<Rightarrow> Some t))
      else title_match s)"

text \<open>Runs of white space become one blank.\<close>

fun collapse_ws :: "string \<Rightarrow> string" where
  "collapse_ws [] = []"
| "collapse_ws (c # s) =
     (if is_space c then (case s of
          d # _ \<Rightarrow> if is_space d then collapse_ws s else CHR '' '' # collapse_ws s
        | [] \<Rightarrow> '' '')
      else c # collapse_ws s)"

definition page_title :: "string \<Rightarrow> string" where
  "page_title body =
     (case title_match body of
        None \<Rightarrow> []
      | Some t \<Rightarrow> take MAX_TITLE_CHARS (guard (strip (collapse_ws t))))"

definition TECH_MARKERS :: "(string \<times> string) list" where
  "TECH_MARKERS =
     [(''nginx'', ''nginx''), (''apache'', ''apache''), (''microsoft-iis'', ''iis''), (''cloudflare'', ''cloudflare''),
      (''wordpress'', ''wp-content''), (''drupal'', ''drupal''), (''joomla'', ''joomla''), (''php'', ''php''),
      (''asp.net'', ''asp.net''), (''react'', ''react''), (''angular'', ''angular''), (''vue'', ''vue.js'')]"

definition technologies :: "string \<Rightarrow> string \<Rightarrow> string \<Rightarrow> string list" where
  "technologies server powered body =
     (let haystack = lower (server @ '' '' @ powered @ '' '' @ take 4096 body)
      in sort (remdups (map fst (filter (\<lambda>(_, marker). contains marker haystack) TECH_MARKERS))))"

section \<open>Certificates\<close>

definition is_common_name :: "pyval \<Rightarrow> bool" where
  "is_common_name v = (case v of PList [PStr l, _] \<Rightarrow> l = ''commonName'' | _ \<Rightarrow> False)"

fun flatten_name :: "pyval \<Rightarrow> exc + string" where
  "flatten_name (PList entries) =
     (case find is_common_name entries of
        Some e \<Rightarrow> (case e of PList [_, v] \<Rightarrow> (case v of PStr s \<Rightarrow> Inr s | _ \<Rightarrow> py_str v) | _ \<Rightarrow> Inr [])
      | None \<Rightarrow>
          fold_res (\<lambda>found r. if found \<noteq> [] then Inr found else r) [] (map flatten_name entries))"
| "flatten_name _ = Inr []"

text \<open>
  The decoder may be absent or raise; every exception of the code gives an empty mapping. The result is
  an exception only when a field is no value of these theories.
\<close>

definition certificate_fields :: "pydict \<Rightarrow> exc + pydict" where
  "certificate_fields info =
     bind_res (flatten_name (dget info ''subject'')) (\<lambda>subject.
     bind_res (flatten_name (dget info ''issuer'')) (\<lambda>issuer.
     bind_res (py_str (dget_or info ''notBefore'' (PStr []))) (\<lambda>not_before.
     bind_res (py_str (dget_or info ''notAfter'' (PStr []))) (\<lambda>not_after.
       Inr [(''subject'', PStr subject), (''issuer'', PStr issuer),
            (''not_before'', PStr not_before), (''not_after'', PStr not_after)]))))"

definition decode_certificate :: "(bytes \<Rightarrow> exc + pyval) option \<Rightarrow> bytes \<Rightarrow> exc + pydict" where
  "decode_certificate decoder der =
     (case decoder of
        None \<Rightarrow> Inr []
      | Some dec \<Rightarrow>
          if der = [] then Inr []
          else (case dec der of Inr (PDict info) \<Rightarrow> certificate_fields info | _ \<Rightarrow> Inr []))"

text \<open>What the TLS socket reports; \<open>tls_der\<close> is None when the certificate cannot be read.\<close>

record tls_socket =
  tls_version :: "string option"
  tls_cipher :: "string option"
  tls_der :: "bytes option"

record tls_library =
  tls_decoder :: "(bytes \<Rightarrow> exc + pyval) option"
  cert_seconds :: "string \<Rightarrow> exc + int"
  tls_now :: rat

definition text_or_empty :: "string option \<Rightarrow> string" where
  "text_or_empty v = (case v of None \<Rightarrow> [] | Some s \<Rightarrow> s)"

definition update_dict :: "pydict \<Rightarrow> pydict \<Rightarrow> pydict" where
  "update_dict d new = foldl (\<lambda>d (k, v). dict_set k v d) d new"

definition tls_info :: "tls_library \<Rightarrow> tls_socket option \<Rightarrow> exc + pydict" where
  "tls_info lib sock =
     (case sock of
        None \<Rightarrow> Inr []
      | Some s \<Rightarrow>
          bind_res (decode_certificate (tls_decoder lib) (case tls_der s of None \<Rightarrow> [] | Some der \<Rightarrow> der)) (\<lambda>cert.
            let info = update_dict
                  [(''version'', PStr (text_or_empty (tls_version s))), (''cipher'', PStr (text_or_empty (tls_cipher s))),
                   (''verified'', PBool False),
                   (''note'', PStr ''certificate chain was not validated; metadata only'')] cert
            in (case dget_or info ''not_after'' (PStr []) of
                  PStr na \<Rightarrow>
                    if na = [] then Inr info
                    else (case cert_seconds lib na of
                            Inr expires \<Rightarrow>
                              Inr (dict_set ''days_left'' (PInt \<lfloor>(of_int expires - tls_now lib) / 86400\<rfloor>) info)
                          | Inl e \<Rightarrow> if is_value_error e then Inr info else Inl e)
                | _ \<Rightarrow> Inl OutOfModel)))"

section \<open>The probe\<close>

record http_response =
  rsp_status :: int
  rsp_headers :: "(string \<times> string) list"
  rsp_body :: string
  rsp_tls :: "tls_socket option"

text \<open>\<open>HTTPResponse.getheader\<close>: the values of a header joined by a comma.\<close>

definition getheader :: "http_response \<Rightarrow> string \<Rightarrow> string option" where
  "getheader r name =
     (let vs = map snd (filter (\<lambda>(k, _). lower k = lower name) (rsp_headers r))
      in if vs = [] then None else Some (join_str '', '' vs))"

record probe_call =
  pc_host :: string
  pc_ip :: string
  pc_port :: int
  pc_scheme :: "string option"
  pc_header :: "string option"
  pc_path :: string
  pc_capture :: bool

definition plain_call :: "string \<Rightarrow> string \<Rightarrow> int \<Rightarrow> probe_call" where
  "plain_call host ip port =
     \<lparr>pc_host = host, pc_ip = ip, pc_port = port, pc_scheme = None, pc_header = None, pc_path = ''/'',
      pc_capture = False\<rparr>"

text \<open>
  One exchange: the address and port connected to, whether through TLS, the \<open>Host\<close> header and the
  path. It fails with an exception the probe catches, given by class name and text, or with another.
\<close>

datatype http_failure = Caught string string | Escapes exc

type_synonym http_client = "string \<times> int \<Rightarrow> string option \<Rightarrow> string \<Rightarrow> string \<Rightarrow> http_failure + http_response"

definition SECURITY_HEADERS :: "string list" where
  "SECURITY_HEADERS =
     [''Strict-Transport-Security'', ''Content-Security-Policy'', ''X-Frame-Options'', ''X-Content-Type-Options'',
      ''Referrer-Policy'', ''Permissions-Policy'', ''Cross-Origin-Opener-Policy'']"

definition security_headers :: "http_response \<Rightarrow> pydict" where
  "security_headers r =
     map (\<lambda>name. (name, PStr (take 200 (guard (text_or_empty (getheader r name))))))
       (filter (\<lambda>name. text_or_empty (getheader r name) \<noteq> []) SECURITY_HEADERS)"

definition cookie_names :: "http_response \<Rightarrow> string list" where
  "cookie_names r =
     sort (remdups (map (\<lambda>(_, value). strip (hd (split_char (CHR ''='') value)))
       (filter (\<lambda>(key, _). lower key = ''set-cookie'') (rsp_headers r))))"

definition probe_http :: "tls_library \<Rightarrow> http_client \<Rightarrow> probe_call \<Rightarrow> exc + pydict" where
  "probe_http lib client c =
     (let scheme = (case pc_scheme c of
            Some s \<Rightarrow> if s \<noteq> [] then s else if pc_port c \<in> {443, 8443} then ''https'' else ''http''
          | None \<Rightarrow> if pc_port c \<in> {443, 8443} then ''https'' else ''http'');
          result = [(''host'', PStr (pc_host c)), (''ip'', PStr (pc_ip c)), (''port'', PInt (pc_port c)),
            (''scheme'', PStr scheme), (''path'', PStr (pc_path c)), (''open'', PBool False),
            (''source'', PStr ''asset-discovery'')];
          header = (case pc_header c of Some h \<Rightarrow> if h \<noteq> [] then h else pc_host c | None \<Rightarrow> pc_host c)
      in
      case client (pc_ip c, pc_port c) (if scheme = ''https'' then Some (pc_host c) else None) header (pc_path c) of
        Inl (Caught name msg) \<Rightarrow> Inr (dict_set ''error'' (PStr (name @ '': '' @ msg)) result)
      | Inl (Escapes e) \<Rightarrow> Inl e
      | Inr r \<Rightarrow>
          let server = guard (text_or_empty (getheader r ''Server''));
              powered = guard (text_or_empty (getheader r ''X-Powered-By''));
              sec = security_headers r;
              result = update_dict result
                [(''open'', PBool True), (''state'', PStr ''open''), (''status'', PInt (rsp_status r)),
                 (''server'', PStr server), (''title'', PStr (page_title (rsp_body r))),
                 (''technologies'', PList (map PStr (technologies server powered (rsp_body r)))),
                 (''content_type'', PStr (guard (text_or_empty (getheader r ''Content-Type'')))),
                 (''content_length'', PStr (guard (text_or_empty (getheader r ''Content-Length'')))),
                 (''security_headers'', PDict sec), (''security_headers_count'', PInt (int (length sec))),
                 (''cookies'', PList (map PStr (cookie_names r)))];
              location = text_or_empty (getheader r ''Location'');
              result = (if location \<noteq> [] then dict_set ''location'' (PStr (take 300 (guard location))) result else result);
              result = (if pc_capture c
                then dict_set ''body_excerpt'' (PStr (take MAX_DOCUMENT_CHARS (guard (rsp_body r)))) result else result)
          in if scheme = ''https'' then bind_res (tls_info lib (rsp_tls r)) (\<lambda>t. Inr (dict_set ''tls'' (PDict t) result))
             else Inr result)"

section \<open>Interpreting a response\<close>

definition page_fingerprint :: "pydict \<Rightarrow> pyval \<times> pyval \<times> pyval" where
  "page_fingerprint meta = (dget meta ''status'', dget meta ''server'', dget meta ''title'')"

definition is_vhost :: "pydict \<Rightarrow> pydict \<Rightarrow> bool" where
  "is_vhost candidate baseline \<longleftrightarrow>
     (if \<not> truthy (dget candidate ''open'') then False
      else if \<not> truthy (dget baseline ''open'') then True
      else page_fingerprint candidate \<noteq> page_fingerprint baseline)"

definition contact_of :: "string \<Rightarrow> string option" where
  "contact_of line =
     (case partition_char (CHR '':'') line of
        None \<Rightarrow> None
      | Some (key, v) \<Rightarrow>
          if lower (strip key) \<in> {''contact'', ''security-contact''} \<and> strip v \<noteq> []
          then (let contact = take 200 (guard (strip v)) in if contact = [] then None else Some contact)
          else None)"

definition contacts :: "string \<Rightarrow> string list" where
  "contacts excerpt = take 5 (uniq (List.map_filter contact_of (splitlines excerpt)))"

text \<open>
  \<open>urllib.parse.urlsplit\<close> on what a \<open>Location\<close> header may hold: scheme, authority, path and query. An
  authority with brackets or characters outside ASCII is left out.
\<close>

record url_parts =
  u_scheme :: string
  u_netloc :: string
  u_path :: string
  u_query :: string

definition is_scheme_char :: "char \<Rightarrow> bool" where
  "is_scheme_char c \<longleftrightarrow> is_lower_alnum (lower_char c) \<and> ord_of c < 128 \<or> c \<in> set ''+-.''"

definition split_scheme :: "string \<Rightarrow> string \<times> string" where
  "split_scheme url =
     (case partition_char (CHR '':'') url of
        Some (s, rest) \<Rightarrow>
          if s \<noteq> [] \<and> ord_of (hd s) < 128 \<and> is_lower_alnum (lower_char (hd s)) \<and> \<not> is_dec (hd s) \<and>
             list_all is_scheme_char s
          then (lower s, rest) else ([], url)
      | None \<Rightarrow> ([], url))"

definition urlsplit :: "string \<Rightarrow> exc + url_parts" where
  "urlsplit location =
     (let url = filter (\<lambda>c. c \<notin> {tab_char, cr_char, lf_char}) (lstrip_by (\<lambda>c. ord_of c \<le> 32) location);
          (scheme, url) = split_scheme url;
          (netloc, url) = (if startswith ''//'' url
            then (takeWhile (\<lambda>c. c \<notin> set ''/?#'') (drop 2 url), dropWhile (\<lambda>c. c \<notin> set ''/?#'') (drop 2 url))
            else ([], url));
          url = takeWhile (\<lambda>c. c \<noteq> CHR ''#'') url
      in if list_ex (\<lambda>c. c \<in> set ''[]'' \<or> 128 \<le> ord_of c) netloc then Inl OutOfModel
         else Inr \<lparr>u_scheme = scheme, u_netloc = netloc, u_path = takeWhile (\<lambda>c. c \<noteq> CHR ''?'') url,
                u_query = drop 1 (dropWhile (\<lambda>c. c \<noteq> CHR ''?'') url)\<rparr>)"

text \<open>The host and the port text of an authority, after the user information.\<close>

definition hostinfo :: "string \<Rightarrow> string \<times> string" where
  "hostinfo netloc =
     (let hi = last (split_char (CHR ''@'') netloc)
      in case partition_char (CHR '':'') hi of None \<Rightarrow> (hi, []) | Some (h, p) \<Rightarrow> (h, p))"

definition url_hostname :: "url_parts \<Rightarrow> string" where
  "url_hostname u =
     (let h = fst (hostinfo (u_netloc u))
      in case partition_char (CHR ''%'') h of
           None \<Rightarrow> lower h
         | Some (name, zone) \<Rightarrow> lower name @ ''%'' @ zone)"

definition url_port :: "url_parts \<Rightarrow> exc + int" where
  "url_port u =
     (let p = snd (hostinfo (u_netloc u))
      in if p = [] then Inr 0
         else if \<not> list_all is_dec p then Inl (ValueError ''Port could not be cast to integer value'')
         else bind_res (int_of_token p) (\<lambda>n.
           if n \<le> 65535 then Inr n else Inl (ValueError ''Port out of range 0-65535'')))"

text \<open>Only the parsing is guarded; reading the port is not.\<close>

definition redirect_target ::
  "string \<Rightarrow> string \<Rightarrow> int \<Rightarrow> string \<Rightarrow> exc + (string \<times> int \<times> string \<times> string) option" where
  "redirect_target location host port scheme =
     (case urlsplit location of
        Inl e \<Rightarrow> if is_value_error e then Inr None else Inl e
      | Inr parts \<Rightarrow>
          let next_scheme = (if u_scheme parts \<noteq> [] then u_scheme parts else scheme);
              h = url_hostname parts;
              next_host = rstrip_dots (lower (strip (if h \<noteq> [] then h else host)))
          in bind_res (url_port parts) (\<lambda>p.
            let next_port = (if p \<noteq> 0 then p else if next_scheme = ''https'' then 443 else 80);
                path = (if u_path parts \<noteq> [] then u_path parts else ''/'');
                path = (if u_query parts \<noteq> [] then path @ ''?'' @ u_query parts else path)
            in Inr (Some (next_host, next_port, next_scheme, path))))"

text \<open>\<open>socket.getaddrinfo\<close> is an argument; its addresses are reported once each.\<close>

definition resolve_host :: "(string \<Rightarrow> exc + string list) \<Rightarrow> string \<Rightarrow> exc + string list" where
  "resolve_host getaddrinfo name =
     (case getaddrinfo name of
        Inl e \<Rightarrow> if is_os_error e then Inr [] else Inl e
      | Inr addresses \<Rightarrow> Inr (uniq addresses))"

end
