(* ===== verification/Assets.thy ===== *)
theory Assets
  imports Probe Scope
begin

text \<open>
  \<open>discover_assets\<close> of \<open>modules/discovery/assets.py\<close>: the walk over the authorised surface. The
  resolver, the probe and the log fetcher are arguments that may answer differently at every point of
  the run; what the walk does to the network is its trace.
\<close>

section \<open>Network effects\<close>

datatype net_event = Resolved string | Probed probe_call | Paced | Expanded string

type_synonym 'a net = "net_event list \<Rightarrow> (exc + 'a) \<times> net_event list"

record asset_env =
  ae_resolve :: "net_event list \<Rightarrow> string \<Rightarrow> exc + string list"
  ae_probe :: "net_event list \<Rightarrow> probe_call \<Rightarrow> exc + pydict"
  ae_fetch :: "net_event list \<Rightarrow> string \<Rightarrow> exc + string"
  ae_pace :: bool

definition lift_net :: "exc + 'a \<Rightarrow> 'a net" where
  "lift_net r = (\<lambda>t. (r, t))"

abbreviation ret_net :: "'a \<Rightarrow> 'a net" where
  "ret_net x \<equiv> lift_net (Inr x)"

definition bind_net :: "'a net \<Rightarrow> ('a \<Rightarrow> 'b net) \<Rightarrow> 'b net" where
  "bind_net m f = (\<lambda>t. case m t of (Inl e, t') \<Rightarrow> (Inl e, t') | (Inr x, t') \<Rightarrow> f x t')"

definition resolve_net :: "asset_env \<Rightarrow> string \<Rightarrow> string list net" where
  "resolve_net env name = (\<lambda>t. (ae_resolve env t name, t @ [Resolved name]))"

text \<open>The optional pacing call and the probe behind it.\<close>

definition paced_probe :: "asset_env \<Rightarrow> probe_call \<Rightarrow> pydict net" where
  "paced_probe env c =
     (\<lambda>t. let t' = (if ae_pace env then t @ [Paced] else t) in (ae_probe env t' c, t' @ [Probed c]))"

definition ct_net :: "asset_env \<Rightarrow> string \<Rightarrow> string list net" where
  "ct_net env name = (\<lambda>t. (fetch_ct_names (ae_fetch env t) name, t @ [Expanded name]))"

section \<open>Redirects\<close>

definition MAX_REDIRECTS :: nat where "MAX_REDIRECTS = 2"

definition status_int :: "pyval \<Rightarrow> exc + int" where
  "status_int v =
     (if \<not> truthy v then Inr 0
      else (case v of PInt i \<Rightarrow> Inr i | PBool _ \<Rightarrow> Inr 1 | _ \<Rightarrow> Inl OutOfModel))"

definition str_or_empty :: "pyval \<Rightarrow> exc + string" where
  "str_or_empty v = (if truthy v then py_str v else Inr [])"

definition location_of :: "string \<Rightarrow> string \<Rightarrow> int \<Rightarrow> string" where
  "location_of scheme host port = scheme @ ''://'' @ host @ '':'' @ show_int port"

record hop =
  hop_meta :: pydict
  hop_host :: string
  hop_ip :: string
  hop_port :: int
  hop_scheme :: string

record redirects =
  rd_chain :: "pydict list"
  rd_blocked :: "pydict list"
  rd_used :: int

definition block_redirect :: "string \<Rightarrow> string \<Rightarrow> pydict \<Rightarrow> redirects \<Rightarrow> redirects" where
  "block_redirect name location details rd =
     rd\<lparr>rd_blocked := rd_blocked rd @ [(''host'', PStr name) # details]\<rparr>"

text \<open>One redirect: it is blocked, or taken to a probe, whose answer the walk goes on from when it is open.\<close>

definition take_hop ::
  "asset_env \<Rightarrow> scope_enforcer \<Rightarrow> string \<Rightarrow> hop \<Rightarrow> string \<Rightarrow> (string \<times> int \<times> string \<times> string) option \<Rightarrow>
     redirects \<Rightarrow> (redirects \<times> hop option) net" where
  "take_hop env sc name h location tgt rd =
     (case tgt of
        None \<Rightarrow>
          ret_net (block_redirect name location
            [(''reason'', PStr ''redirect-unparseable''), (''location'', PStr location)] rd, None)
      | Some (next_host, next_port, next_scheme, path) \<Rightarrow>
          bind_net (if next_host \<noteq> hop_host h then resolve_net env next_host else ret_net [hop_ip h]) (\<lambda>addresses.
          let allowed = filter (is_target_allowed sc) addresses in
          if addresses = [] \<or> allowed = [] \<or> \<not> is_target_allowed sc next_host then
            ret_net (block_redirect name location
              [(''reason'', PStr ''redirect-outside-scope''), (''location'', PStr location),
               (''target_host'', PStr next_host)] rd, None)
          else bind_net
            (paced_probe env \<lparr>pc_host = next_host, pc_ip = hd allowed, pc_port = next_port,
               pc_scheme = Some next_scheme, pc_header = None, pc_path = path, pc_capture = False\<rparr>) (\<lambda>current.
            ret_net (rd\<lparr>rd_used := rd_used rd + 1,
                 rd_chain := rd_chain rd @
                   [[(''from'', PStr (location_of (hop_scheme h) (hop_host h) (hop_port h))),
                     (''to'', PStr (location_of next_scheme next_host next_port @ path)),
                     (''status'', dget current ''status'')]]\<rparr>,
               if truthy (dget current ''open'')
               then Some \<lparr>hop_meta = current, hop_host = next_host, hop_ip = hd allowed, hop_port = next_port,
                      hop_scheme = next_scheme\<rparr>
               else None))))"

fun follow_hops ::
  "asset_env \<Rightarrow> scope_enforcer \<Rightarrow> string \<Rightarrow> bool \<Rightarrow> nat \<Rightarrow> hop \<Rightarrow> redirects \<Rightarrow> redirects net" where
  "follow_hops env sc name budget 0 h rd = ret_net rd"
| "follow_hops env sc name budget (Suc n) h rd =
     bind_net (lift_net (status_int (dget (hop_meta h) ''status''))) (\<lambda>status.
     bind_net (lift_net (str_or_empty (dget (hop_meta h) ''location''))) (\<lambda>location.
     if status \<notin> {301, 302, 303, 307, 308} \<or> location = [] \<or> \<not> budget then ret_net rd
     else bind_net (lift_net (redirect_target location (hop_host h) (hop_port h) (hop_scheme h))) (\<lambda>tgt.
     bind_net (take_hop env sc name h location tgt rd) (\<lambda>(rd, next_hop).
     case next_hop of None \<Rightarrow> ret_net rd | Some h' \<Rightarrow> follow_hops env sc name budget n h' rd))))"

definition follow_redirects :: "asset_env \<Rightarrow> scope_enforcer \<Rightarrow> hop \<Rightarrow> bool \<Rightarrow> redirects net" where
  "follow_redirects env sc h budget =
     follow_hops env sc (hop_host h) budget MAX_REDIRECTS h \<lparr>rd_chain = [], rd_blocked = [], rd_used = 0\<rparr>"

section \<open>Well-known documents\<close>

fun fetch_documents ::
  "asset_env \<Rightarrow> hop \<Rightarrow> bool \<Rightarrow> string list \<Rightarrow> pydict \<times> int \<Rightarrow> (pydict \<times> int) net" where
  "fetch_documents env h budget [] (docs, used) = ret_net (docs, used)"
| "fetch_documents env h budget (path # paths) (docs, used) =
     (if \<not> budget then ret_net (docs, used)
      else bind_net
        (paced_probe env \<lparr>pc_host = hop_host h, pc_ip = hop_ip h, pc_port = hop_port h,
           pc_scheme = Some (hop_scheme h), pc_header = None, pc_path = path, pc_capture = True\<rparr>) (\<lambda>document.
        if \<not> truthy (dget document ''open'') then fetch_documents env h budget paths (docs, used + 1)
        else bind_net (lift_net (str_or_empty (dget document ''body_excerpt''))) (\<lambda>excerpt.
          let entry = [(''status'', dget document ''status''),
                       (''content_type'', dget_or document ''content_type'' (PStr []))];
              entry = (if endswith ''security.txt'' path
                then dict_set ''contacts'' (PList (map PStr (contacts excerpt))) entry else entry)
          in fetch_documents env h budget paths (dict_set path (PDict entry) docs, used + 1))))"

definition probe_documents :: "asset_env \<Rightarrow> hop \<Rightarrow> bool \<Rightarrow> (pydict \<times> int) net" where
  "probe_documents env h budget =
     fetch_documents env h budget [''/.well-known/security.txt'', ''/robots.txt''] ([], 0)"

section \<open>The walk\<close>

record asset_opts =
  ao_ct :: bool
  ao_depth :: int
  ao_max_hosts :: int
  ao_max_requests :: int
  ao_ports :: "int list option"
  ao_deep :: bool

record survey =
  sv_queue :: "(string \<times> int) list"
  sv_seen :: "string list"
  sv_hosts :: "string list"
  sv_findings :: "pydict list"
  sv_blocked :: "pydict list"
  sv_requests :: int

definition WEB_PORTS :: "int list" where "WEB_PORTS = [80, 443, 8080, 8443]"

definition add_blocked :: "pydict list \<Rightarrow> survey \<Rightarrow> survey" where
  "add_blocked bs sv = sv\<lparr>sv_blocked := sv_blocked sv @ bs\<rparr>"

definition add_requests :: "int \<Rightarrow> survey \<Rightarrow> survey" where
  "add_requests n sv = sv\<lparr>sv_requests := sv_requests sv + n\<rparr>"

definition finding_keys :: "string list" where
  "finding_keys =
     [''status'', ''server'', ''title'', ''technologies'', ''tls'', ''vhost'', ''content_type'', ''content_length'',
      ''security_headers'', ''security_headers_count'', ''cookies'', ''redirects'', ''documents'']"

definition finding_of :: "string \<Rightarrow> string \<Rightarrow> int \<Rightarrow> pyval \<Rightarrow> pydict \<Rightarrow> pydict" where
  "finding_of name ip port scheme candidate =
     foldl (\<lambda>d k. if dget candidate k \<notin> {PNone, PStr [], PList []} then dict_set k (dget candidate k) d else d)
       [(''module'', PStr ''asset''), (''host'', PStr name), (''ip'', PStr ip), (''port'', PInt port),
        (''open'', PBool True), (''state'', PStr ''open''), (''service'', scheme),
        (''engine'', PStr ''stdlib-http''), (''source'', PStr ''asset-discovery'')]
       finding_keys"

text \<open>
  One port of one address: the candidate, its baseline under the address as host name, its redirects and
  its documents.
\<close>

definition check_vhost ::
  "asset_env \<Rightarrow> asset_opts \<Rightarrow> string \<Rightarrow> string \<Rightarrow> int \<Rightarrow> survey \<Rightarrow> pydict \<Rightarrow> (survey \<times> pydict) net" where
  "check_vhost env opt name ip port sv candidate =
     (if sv_requests sv < ao_max_requests opt then
        bind_net (paced_probe env ((plain_call name ip port)\<lparr>pc_header := Some ip\<rparr>)) (\<lambda>baseline.
          ret_net (add_requests 1 sv,
            if is_vhost candidate baseline then dict_set ''vhost'' (PBool True) candidate else candidate))
      else ret_net (sv, candidate))"

definition check_redirects ::
  "asset_env \<Rightarrow> scope_enforcer \<Rightarrow> asset_opts \<Rightarrow> hop \<Rightarrow> survey \<Rightarrow> (survey \<times> pydict) net" where
  "check_redirects env sc opt h sv =
     bind_net (follow_redirects env sc h (sv_requests sv < ao_max_requests opt)) (\<lambda>rd.
       ret_net (add_blocked (rd_blocked rd) (add_requests (rd_used rd) sv),
         if rd_chain rd \<noteq> [] then dict_set ''redirects'' (PList (map PDict (rd_chain rd))) (hop_meta h)
         else hop_meta h))"

definition check_documents ::
  "asset_env \<Rightarrow> asset_opts \<Rightarrow> hop \<Rightarrow> survey \<Rightarrow> pydict \<Rightarrow> (survey \<times> pydict) net" where
  "check_documents env opt h sv candidate =
     (if ao_deep opt \<and> sv_requests sv < ao_max_requests opt then
        bind_net (probe_documents env h (sv_requests sv < ao_max_requests opt)) (\<lambda>(docs, used).
          ret_net (add_requests used sv,
            if docs \<noteq> [] then dict_set ''documents'' (PDict docs) candidate else candidate))
      else ret_net (sv, candidate))"

definition inspect ::
  "asset_env \<Rightarrow> scope_enforcer \<Rightarrow> asset_opts \<Rightarrow> string \<Rightarrow> string \<Rightarrow> int \<Rightarrow> survey \<Rightarrow> survey net" where
  "inspect env sc opt name ip port sv =
     bind_net (paced_probe env (plain_call name ip port)) (\<lambda>candidate.
     if \<not> truthy (dget candidate ''open'') then ret_net (add_requests 1 sv)
     else bind_net (check_vhost env opt name ip port (add_requests 1 sv) candidate) (\<lambda>(sv, candidate).
     bind_net (lift_net (bind_res (dindex candidate ''scheme'') py_str)) (\<lambda>scheme.
     let h = \<lparr>hop_meta = candidate, hop_host = name, hop_ip = ip, hop_port = port, hop_scheme = scheme\<rparr> in
     bind_net (check_redirects env sc opt h sv) (\<lambda>(sv, candidate).
     bind_net (check_documents env opt h sv candidate) (\<lambda>(sv, candidate).
     ret_net (sv\<lparr>sv_findings := sv_findings sv @ [finding_of name ip port (dget candidate ''scheme'') candidate]\<rparr>))))))"

fun inspect_ports ::
  "asset_env \<Rightarrow> scope_enforcer \<Rightarrow> asset_opts \<Rightarrow> string \<Rightarrow> string \<Rightarrow> int list \<Rightarrow> survey \<Rightarrow> survey net" where
  "inspect_ports env sc opt name ip [] sv = ret_net sv"
| "inspect_ports env sc opt name ip (p # ps) sv =
     (if ao_max_requests opt \<le> sv_requests sv then ret_net sv
      else bind_net (inspect env sc opt name ip p sv) (inspect_ports env sc opt name ip ps))"

fun inspect_ips ::
  "asset_env \<Rightarrow> scope_enforcer \<Rightarrow> asset_opts \<Rightarrow> int list \<Rightarrow> string \<Rightarrow> string list \<Rightarrow> survey \<Rightarrow> survey net" where
  "inspect_ips env sc opt ports name [] sv = ret_net sv"
| "inspect_ips env sc opt ports name (ip # ips) sv =
     bind_net (inspect_ports env sc opt name ip ports sv) (inspect_ips env sc opt ports name ips)"

definition add_children :: "scope_enforcer \<Rightarrow> int \<Rightarrow> string list \<Rightarrow> survey \<Rightarrow> survey" where
  "add_children sc level children sv =
     foldl (\<lambda>sv child.
       if child \<in> set (sv_seen sv) then sv
       else if \<not> is_target_allowed sc child
       then add_blocked [[(''host'', PStr child), (''reason'', PStr ''name-outside-scope'')]] sv
       else sv\<lparr>sv_queue := sv_queue sv @ [(child, level + 1)]\<rparr>) sv children"

definition visit ::
  "asset_env \<Rightarrow> scope_enforcer \<Rightarrow> asset_opts \<Rightarrow> int list \<Rightarrow> string \<Rightarrow> int \<Rightarrow> survey \<Rightarrow> survey net" where
  "visit env sc opt ports name level sv =
     (if \<not> is_target_allowed sc name
      then ret_net (add_blocked [[(''host'', PStr name), (''reason'', PStr ''name-outside-scope'')]] sv)
      else bind_net (resolve_net env name) (\<lambda>addresses.
        let allowed = filter (is_target_allowed sc) addresses in
        if addresses \<noteq> [] \<and> allowed = [] then
          ret_net (add_blocked [[(''host'', PStr name), (''reason'', PStr ''resolved-outside-scope''),
            (''addresses'', PList (map PStr addresses))]] sv)
        else bind_net
          (if allowed = [] then ret_net (add_blocked [[(''host'', PStr name), (''reason'', PStr ''unresolved'')]] sv)
           else inspect_ips env sc opt ports name allowed (sv\<lparr>sv_hosts := sv_hosts sv @ [name]\<rparr>)) (\<lambda>sv.
        if ao_ct opt \<and> level < ao_depth opt \<and>
           int (length (sv_seen sv)) + int (length (sv_queue sv)) < ao_max_hosts opt
        then bind_net (ct_net env name) (\<lambda>children. ret_net (add_children sc level children sv))
        else ret_net sv)))"

definition walk_step :: "asset_env \<Rightarrow> scope_enforcer \<Rightarrow> asset_opts \<Rightarrow> int list \<Rightarrow> survey \<Rightarrow> survey net" where
  "walk_step env sc opt ports sv =
     (case sv_queue sv of
        [] \<Rightarrow> ret_net sv
      | (name, level) # rest \<Rightarrow>
          if name \<in> set (sv_seen sv) then ret_net (sv\<lparr>sv_queue := rest\<rparr>)
          else visit env sc opt ports name level (sv\<lparr>sv_queue := rest, sv_seen := sv_seen sv @ [name]\<rparr>))"

definition walking :: "asset_opts \<Rightarrow> survey \<Rightarrow> bool" where
  "walking opt sv \<longleftrightarrow> sv_queue sv \<noteq> [] \<and> int (length (sv_seen sv)) < ao_max_hosts opt \<and>
     sv_requests sv < ao_max_requests opt"

section \<open>Reasoning about effects\<close>

text \<open>From traces in \<open>P\<close>, a result with its trace is in \<open>Q\<close> and an exception leaves a trace in \<open>E\<close>.\<close>

definition triple ::
  "(net_event list \<Rightarrow> bool) \<Rightarrow> 'a net \<Rightarrow> ('a \<Rightarrow> net_event list \<Rightarrow> bool) \<Rightarrow> (net_event list \<Rightarrow> bool) \<Rightarrow> bool" where
  "triple P m Q E \<longleftrightarrow> (\<forall>t. P t \<longrightarrow> (case m t of (Inl _, t') \<Rightarrow> E t' | (Inr x, t') \<Rightarrow> Q x t'))"

lemma triple_ret: "(\<And>t. P t \<Longrightarrow> Q x t) \<Longrightarrow> triple P (ret_net x) Q E"
  by (simp add: triple_def lift_net_def)

lemma triple_lift:
  "(\<And>t x. P t \<Longrightarrow> r = Inr x \<Longrightarrow> Q x t) \<Longrightarrow> (\<And>t. P t \<Longrightarrow> E t) \<Longrightarrow> triple P (lift_net r) Q E"
  by (simp add: triple_def lift_net_def split: sum.split)

lemma triple_bind:
  assumes "triple P m R E" and "\<And>x. triple (R x) (f x) Q E"
  shows "triple P (bind_net m f) Q E"
  using assms by (fastforce simp: triple_def bind_net_def split: prod.splits sum.splits)

lemma triple_if:
  "(c \<Longrightarrow> triple P a Q E) \<Longrightarrow> (\<not> c \<Longrightarrow> triple P b Q E) \<Longrightarrow> triple P (if c then a else b) Q E"
  by simp

lemma triple_conseq:
  "triple P' m Q' E' \<Longrightarrow> (\<And>t. P t \<Longrightarrow> P' t) \<Longrightarrow> (\<And>x t. Q' x t \<Longrightarrow> Q x t) \<Longrightarrow> (\<And>t. E' t \<Longrightarrow> E t) \<Longrightarrow>
     triple P m Q E"
  by (fastforce simp: triple_def split: prod.splits sum.splits)

lemma tripleD:
  assumes "triple P m Q E" "P t"
  shows "m t = (Inr x, t') \<Longrightarrow> Q x t'" "m t = (Inl e, t') \<Longrightarrow> E t'"
proof -
  have *: "case m t of (Inl _, t') \<Rightarrow> E t' | (Inr x, t') \<Rightarrow> Q x t'" using assms by (simp add: triple_def)
  show "m t = (Inr x, t') \<Longrightarrow> Q x t'" "m t = (Inl e, t') \<Longrightarrow> E t'" using * by simp_all
qed

text \<open>A result that satisfies \<open>Q\<close>, whatever the network does.\<close>

abbreviation yields :: "'a net \<Rightarrow> ('a \<Rightarrow> bool) \<Rightarrow> bool" where
  "yields m Q \<equiv> triple (\<lambda>_. True) m (\<lambda>x _. Q x) (\<lambda>_. True)"

lemma yields_any: "yields m (\<lambda>_. True)"
  by (simp add: triple_def split: prod.split sum.split)

lemma yields_bind: "yields m R \<Longrightarrow> (\<And>x. R x \<Longrightarrow> yields (f x) Q) \<Longrightarrow> yields (bind_net m f) Q"
  by (fastforce simp: triple_def bind_net_def split: prod.splits sum.splits)

lemma triple_bind_pair:
  assumes "triple P m (\<lambda>(a, b). R a b) E" and "\<And>a b. triple (R a b) (f a b) Q E"
  shows "triple P (bind_net m (\<lambda>(a, b). f a b)) Q E"
  by (rule triple_bind [OF assms(1)]) (auto intro: assms(2))

lemma yields_bind_pair:
  assumes "yields m (\<lambda>(a, b). R a b)" and "\<And>a b. R a b \<Longrightarrow> yields (f a b) Q"
  shows "yields (bind_net m (\<lambda>(a, b). f a b)) Q"
  by (rule yields_bind [OF assms(1)]) (auto intro: assms(2))

section \<open>The loop\<close>

text \<open>It ends because every round shortens the queue or sees a new name, of which there are few.\<close>

definition same_walk :: "survey \<Rightarrow> survey \<Rightarrow> bool" where
  "same_walk sv sv' \<longleftrightarrow> sv_seen sv' = sv_seen sv \<and> sv_queue sv' = sv_queue sv"

lemma same_walk_simps [simp]:
  "same_walk sv sv" "same_walk sv (add_blocked b sv') = same_walk sv sv'"
  "same_walk sv (add_requests n sv') = same_walk sv sv'"
  "same_walk sv (sv'\<lparr>sv_findings := fs\<rparr>) = same_walk sv sv'"
  "same_walk sv (sv'\<lparr>sv_hosts := hs\<rparr>) = same_walk sv sv'"
  by (simp_all add: same_walk_def add_blocked_def add_requests_def)

lemma same_walk_trans: "same_walk a b \<Longrightarrow> same_walk b c \<Longrightarrow> same_walk a c"
  by (simp add: same_walk_def)

lemma check_same_walk:
  "yields (check_vhost env opt name ip port sv c) (\<lambda>(sv', _). same_walk sv sv')"
  "yields (check_redirects env sc opt h sv) (\<lambda>(sv', _). same_walk sv sv')"
  "yields (check_documents env opt h sv c) (\<lambda>(sv', _). same_walk sv sv')"
  unfolding check_vhost_def check_redirects_def check_documents_def
  by (auto intro!: triple_if triple_ret yields_bind [OF yields_any])

lemma inspect_same_walk: "yields (inspect env sc opt name ip p sv) (same_walk sv)"
  unfolding inspect_def Let_def
  by (rule yields_bind [OF yields_any], rule triple_if, rule triple_ret, simp,
      rule yields_bind_pair [OF check_same_walk(1)], rule yields_bind [OF yields_any],
      rule yields_bind_pair [OF check_same_walk(2)], rule yields_bind_pair [OF check_same_walk(3)],
      rule triple_ret, simp add: same_walk_def add_requests_def)

lemma inspect_ports_same_walk: "yields (inspect_ports env sc opt name ip ps sv) (same_walk sv)"
proof (induction ps arbitrary: sv)
  case (Cons p ps)
  then show ?case
    by (auto intro!: triple_if triple_ret yields_bind [OF inspect_same_walk]
        triple_conseq [OF Cons.IH] intro: same_walk_trans)
qed (simp add: triple_ret)

lemma inspect_ips_same_walk: "yields (inspect_ips env sc opt ports name ips sv) (same_walk sv)"
proof (induction ips arbitrary: sv)
  case (Cons ip ips)
  then show ?case
    by (auto intro!: yields_bind [OF inspect_ports_same_walk] triple_conseq [OF Cons.IH] intro: same_walk_trans)
qed (simp add: triple_ret)

lemma add_children_seen: "sv_seen (add_children sc level cs sv) = sv_seen sv"
  unfolding add_children_def by (induction cs arbitrary: sv) (simp_all add: add_blocked_def)

lemma visit_seen: "yields (visit env sc opt ports name level sv) (\<lambda>sv'. sv_seen sv' = sv_seen sv)"
proof -
  have ips: "yields (if al = [] then ret_net (add_blocked b sv)
      else inspect_ips env sc opt ports name al (sv\<lparr>sv_hosts := hs\<rparr>)) (same_walk sv)" for al b hs
    by (intro triple_if triple_ret triple_conseq [OF inspect_ips_same_walk]) (simp_all add: same_walk_def add_blocked_def)
  show ?thesis
    unfolding visit_def Let_def
    by (intro triple_if triple_ret yields_bind [OF yields_any] yields_bind [OF ips])
      (simp_all add: add_blocked_def add_children_seen same_walk_def)
qed

lemma walk_step_progress:
  assumes "walking opt sv" and "walk_step env sc opt ports sv t = (Inr sv', t')"
  shows "sv_seen sv' = sv_seen sv \<and> length (sv_queue sv') < length (sv_queue sv) \<or>
     length (sv_seen sv') = Suc (length (sv_seen sv))"
proof -
  obtain name level rest where q: "sv_queue sv = (name, level) # rest"
    using assms(1) by (cases "sv_queue sv") (auto simp: walking_def)
  show ?thesis
  proof (cases "name \<in> set (sv_seen sv)")
    case True
    then show ?thesis using assms(2) by (auto simp: walk_step_def q lift_net_def)
  next
    case False
    then have "visit env sc opt ports name level (sv\<lparr>sv_queue := rest, sv_seen := sv_seen sv @ [name]\<rparr>) t = (Inr sv', t')"
      using assms(2) by (simp add: walk_step_def q)
    from tripleD(1) [OF visit_seen _ this] show ?thesis by simp
  qed
qed

function walk_loop ::
  "asset_env \<Rightarrow> scope_enforcer \<Rightarrow> asset_opts \<Rightarrow> int list \<Rightarrow> survey \<Rightarrow> net_event list \<Rightarrow> (exc + survey) \<times> net_event list" where
  "walk_loop env sc opt ports sv t =
     (if walking opt sv then
        (case walk_step env sc opt ports sv t of
           (Inl e, t') \<Rightarrow> (Inl e, t')
         | (Inr sv', t') \<Rightarrow> walk_loop env sc opt ports sv' t')
      else (Inr sv, t))"
  by pat_completeness auto
termination
proof (relation "measures [\<lambda>(env, sc, opt, ports, sv, t). nat (ao_max_hosts opt - int (length (sv_seen sv))),
    \<lambda>(env, sc, opt, ports, sv, t). length (sv_queue sv)]", goal_cases)
  case (2 env sc opt ports sv t r t' sv')
  then have "walk_step env sc opt ports sv t = (Inr sv', t')" by simp
  from walk_step_progress [OF 2(1) this] show ?case using 2(1) by (auto simp: walking_def)
qed simp

declare walk_loop.simps [simp del]

definition seed_queue :: "string list \<Rightarrow> (string \<times> int) list" where
  "seed_queue seeds =
     List.map_filter (\<lambda>seed. let name = rstrip_dots (lower (strip seed)) in if name \<noteq> [] then Some (name, 0) else None) seeds"

definition clamp_opts :: "asset_opts \<Rightarrow> asset_opts" where
  "clamp_opts opt =
     opt\<lparr>ao_depth := max 0 (ao_depth opt), ao_max_hosts := max 1 (ao_max_hosts opt),
         ao_max_requests := max 0 (ao_max_requests opt)\<rparr>"

definition web_ports :: "scope_enforcer \<Rightarrow> asset_opts \<Rightarrow> int list" where
  "web_ports sc opt =
     uniq (case ao_ports opt of
             Some ps \<Rightarrow> ps
           | None \<Rightarrow> filter (\<lambda>p. allowed_ports sc = [] \<or> p \<in> set (allowed_ports sc)) WEB_PORTS)"

definition discover_assets :: "asset_env \<Rightarrow> scope_enforcer \<Rightarrow> string list \<Rightarrow> asset_opts \<Rightarrow> survey net" where
  "discover_assets env sc seeds opt =
     walk_loop env sc (clamp_opts opt) (web_ports sc opt)
       \<lparr>sv_queue = seed_queue seeds, sv_seen = [], sv_hosts = [], sv_findings = [], sv_blocked = [], sv_requests = 0\<rparr>"

text \<open>The summary the caller receives.\<close>

definition survey_summary :: "survey \<Rightarrow> pydict" where
  "survey_summary sv =
     [(''module'', PStr ''asset''), (''source'', PStr ''asset-discovery''),
      (''hosts'', PList (map PStr (sv_hosts sv))), (''assets'', PInt (int (length (sv_findings sv)))),
      (''requests'', PInt (sv_requests sv)), (''blocked'', PList (map PDict (sv_blocked sv))),
      (''findings'', PList (map PDict (sv_findings sv)))]"

end
