(* ===== verification/AssetsFacts.thy ===== *)
theory AssetsFacts
  imports Assets
begin

text \<open>
  The discovery walk never leaves the scope, paces every probe and is bounded; the three findings at the
  end are concrete runs.
\<close>

section \<open>Traces\<close>

fun is_probe :: "net_event \<Rightarrow> bool" where
  "is_probe (Probed _) = True"
| "is_probe _ = False"

definition probes :: "net_event list \<Rightarrow> int" where
  "probes t = int (length (filter is_probe t))"

definition in_scope :: "scope_enforcer \<Rightarrow> net_event list \<Rightarrow> bool" where
  "in_scope sc t \<longleftrightarrow>
     (\<forall>c. Probed c \<in> set t \<longrightarrow> is_target_allowed sc (pc_ip c) \<and> is_target_allowed sc (pc_host c))"

fun paced_from :: "bool \<Rightarrow> net_event list \<Rightarrow> bool" where
  "paced_from ok [] = True"
| "paced_from ok (e # t) = ((is_probe e \<longrightarrow> ok) \<and> paced_from (e = Paced) t)"

definition well_paced :: "net_event list \<Rightarrow> bool" where
  "well_paced t = paced_from False t"

definition good_trace :: "asset_env \<Rightarrow> scope_enforcer \<Rightarrow> int \<Rightarrow> net_event list \<Rightarrow> bool" where
  "good_trace env sc n t \<longleftrightarrow> in_scope sc t \<and> (ae_pace env \<longrightarrow> well_paced t) \<and> probes t = n"

definition good_upto :: "asset_env \<Rightarrow> scope_enforcer \<Rightarrow> int \<Rightarrow> net_event list \<Rightarrow> bool" where
  "good_upto env sc n t \<longleftrightarrow> (\<exists>k\<le>n. good_trace env sc k t)"

lemma good_upto_I: "good_trace env sc k t \<Longrightarrow> k \<le> n \<Longrightarrow> good_upto env sc n t"
  by (auto simp: good_upto_def)

lemma good_upto_mono: "good_upto env sc k t \<Longrightarrow> k \<le> n \<Longrightarrow> good_upto env sc n t"
  unfolding good_upto_def by (meson order_trans)

lemma paced_from_snoc:
  "paced_from ok (t @ [e]) \<longleftrightarrow> paced_from ok t \<and> (is_probe e \<longrightarrow> (if t = [] then ok else last t = Paced))"
  by (induction t arbitrary: ok) auto

lemma well_paced_snoc: "well_paced (t @ [e]) \<longleftrightarrow> well_paced t \<and> (is_probe e \<longrightarrow> t \<noteq> [] \<and> last t = Paced)"
  by (simp add: well_paced_def paced_from_snoc)

lemma good_event: "good_trace env sc n t \<Longrightarrow> \<not> is_probe e \<Longrightarrow> good_trace env sc n (t @ [e])"
  by (auto simp: good_trace_def in_scope_def well_paced_snoc probes_def)

lemma good_probe:
  assumes "good_trace env sc n t" "is_target_allowed sc (pc_ip c)" "is_target_allowed sc (pc_host c)"
    and "ae_pace env \<Longrightarrow> t \<noteq> [] \<and> last t = Paced"
  shows "good_trace env sc (n + 1) (t @ [Probed c])"
  using assms by (auto simp: good_trace_def in_scope_def well_paced_snoc probes_def)

lemma triple_pre: "triple P' m Q E \<Longrightarrow> (\<And>t. P t \<Longrightarrow> P' t) \<Longrightarrow> triple P m Q E"
  by (simp add: triple_def)

text \<open>An effect that leaves a good trace whatever it answers.\<close>

lemma triple_effect:
  assumes "\<And>t. good_trace env sc n t \<Longrightarrow> good_trace env sc n' (snd (m t))" and "n' \<le> k"
  shows "triple (good_trace env sc n) m (\<lambda>_. good_trace env sc n') (good_upto env sc k)"
  unfolding triple_def
proof (intro allI impI)
  fix t
  assume "good_trace env sc n t"
  then have "good_trace env sc n' (snd (m t))" by (rule assms(1))
  then show "case m t of (Inl _, t') \<Rightarrow> good_upto env sc k t' | (Inr x, t') \<Rightarrow> good_trace env sc n' t'"
    using assms(2) by (cases "m t"; cases "fst (m t)") (auto intro: good_upto_I)
qed

lemma paced_probe_good:
  assumes "is_target_allowed sc (pc_ip c)" "is_target_allowed sc (pc_host c)" and "n + 1 \<le> m"
  shows "triple (good_trace env sc n) (paced_probe env c) (\<lambda>_. good_trace env sc (n + 1)) (good_upto env sc m)"
proof (rule triple_effect [OF _ assms(3)])
  fix t
  assume t: "good_trace env sc n t"
  have "good_trace env sc (n + 1) ((if ae_pace env then t @ [Paced] else t) @ [Probed c])"
    by (rule good_probe) (use t assms in \<open>auto intro: good_event\<close>)
  then show "good_trace env sc (n + 1) (snd (paced_probe env c t))" by (simp add: paced_probe_def Let_def)
qed

lemma resolve_good:
  "n \<le> m \<Longrightarrow> triple (good_trace env sc n) (resolve_net env name) (\<lambda>_. good_trace env sc n) (good_upto env sc m)"
  by (rule triple_effect) (simp_all add: resolve_net_def good_event)

lemma ct_good:
  "n \<le> m \<Longrightarrow> triple (good_trace env sc n) (ct_net env name) (\<lambda>_. good_trace env sc n) (good_upto env sc m)"
  by (rule triple_effect) (simp_all add: ct_net_def good_event)

lemma lift_good:
  "n \<le> m \<Longrightarrow> triple (good_trace env sc n) (lift_net r) (\<lambda>_. good_trace env sc n) (good_upto env sc m)"
  by (rule triple_effect) (simp_all add: lift_net_def)

lemma lift_good_result:
  "n \<le> m \<Longrightarrow> triple (good_trace env sc n) (lift_net r) (\<lambda>x t. good_trace env sc n t \<and> r = Inr x) (good_upto env sc m)"
  by (rule triple_lift) (auto intro: good_upto_I)

section \<open>Redirects and documents\<close>

lemma allowed_hd: "filter P xs \<noteq> [] \<Longrightarrow> P (hd (filter P xs))"
  using hd_in_set [of "filter P xs"] by simp

lemma take_hop_good:
  assumes "k + rd_used rd + 1 \<le> m"
  shows "triple (good_trace env sc (k + rd_used rd)) (take_hop env sc name h location tgt rd)
     (\<lambda>(rd', _) t. good_trace env sc (k + rd_used rd') t \<and> rd_used rd' \<le> rd_used rd + 1) (good_upto env sc m)"
proof -
  let ?Q = "\<lambda>(rd', _) t. good_trace env sc (k + rd_used rd') t \<and> rd_used rd' \<le> rd_used rd + 1"
  have addr: "triple (good_trace env sc (k + rd_used rd))
      (if c then resolve_net env a else ret_net b) (\<lambda>_. good_trace env sc (k + rd_used rd)) (good_upto env sc m)" for c a b
    using assms by (intro triple_if resolve_good triple_ret) simp_all
  have probe: "triple (good_trace env sc (k + rd_used rd)) (bind_net (paced_probe env c) (\<lambda>current.
        ret_net (rd\<lparr>rd_used := rd_used rd + 1, rd_chain := f current\<rparr>, g current))) ?Q (good_upto env sc m)"
    if "is_target_allowed sc (pc_ip c)" "is_target_allowed sc (pc_host c)" for c f and g :: "pydict \<Rightarrow> hop option"
    using assms by (intro triple_bind [OF paced_probe_good [OF that]] triple_ret) (simp_all add: add.assoc)
  show ?thesis
  proof (cases tgt)
    case None
    then show ?thesis by (simp add: take_hop_def block_redirect_def triple_ret)
  next
    case (Some x)
    obtain nh np ns path where x: "x = (nh, np, ns, path)" by (cases x)
    show ?thesis
      unfolding take_hop_def Some x option.case prod.case Let_def
      by (rule triple_bind [OF addr], rule triple_if, rule triple_ret, simp add: block_redirect_def,
          rule probe) (auto intro: allowed_hd)
  qed
qed

lemma follow_hops_good:
  assumes "k + rd_used rd + (if budget then int n else 0) \<le> m"
  shows "triple (good_trace env sc (k + rd_used rd)) (follow_hops env sc name budget n h rd)
     (\<lambda>rd' t. good_trace env sc (k + rd_used rd') t \<and> k + rd_used rd' \<le> m) (good_upto env sc m)"
  using assms
proof (induction n arbitrary: h rd)
  case 0
  then show ?case unfolding follow_hops.simps by (intro triple_ret) (simp split: if_splits)
next
  case (Suc n)
  have m: "k + rd_used rd \<le> m" using Suc.prems by (simp split: if_splits)
  have rest: "triple (\<lambda>t. good_trace env sc (k + rd_used rd') t \<and> rd_used rd' \<le> rd_used rd + 1)
      (case next_hop of None \<Rightarrow> ret_net rd' | Some h' \<Rightarrow> follow_hops env sc name budget n h' rd')
      (\<lambda>rd' t. good_trace env sc (k + rd_used rd') t \<and> k + rd_used rd' \<le> m) (good_upto env sc m)"
    if budget for rd' next_hop
  proof (cases "rd_used rd' \<le> rd_used rd + 1")
    case True
    then have fits: "k + rd_used rd' + (if budget then int n else 0) \<le> m" using Suc.prems that by simp
    then have le: "k + rd_used rd' \<le> m" by (simp split: if_splits)
    show ?thesis
    proof (cases next_hop)
      case None
      show ?thesis unfolding None option.case by (rule triple_ret) (simp add: le)
    next
      case (Some h')
      show ?thesis unfolding Some option.case by (rule triple_pre [OF Suc.IH [OF fits]]) simp
    qed
  next
    case False
    then show ?thesis by (simp add: triple_def)
  qed
  show ?case
    unfolding follow_hops.simps
    by (rule triple_bind [OF lift_good [OF m]], rule triple_bind [OF lift_good [OF m]],
        rule triple_if, rule triple_ret, simp add: m, rule triple_bind [OF lift_good [OF m]],
        rule triple_bind_pair [OF take_hop_good])
      (use Suc.prems rest in \<open>auto split: if_splits\<close>)
qed

text \<open>The account of a survey: its requests are the probes of the trace.\<close>

definition booked :: "asset_env \<Rightarrow> scope_enforcer \<Rightarrow> int \<Rightarrow> survey \<Rightarrow> net_event list \<Rightarrow> bool" where
  "booked env sc m sv t \<longleftrightarrow> good_trace env sc (sv_requests sv) t \<and> sv_requests sv \<le> m"

lemma sv_requests_simps [simp]:
  "sv_requests (add_requests n sv) = sv_requests sv + n" "sv_requests (add_blocked b sv) = sv_requests sv"
  by (simp_all add: add_requests_def add_blocked_def)

lemma fetch_documents_good:
  assumes "k + used + int (length paths) \<le> m" and "is_target_allowed sc (hop_ip h)" "is_target_allowed sc (hop_host h)"
  shows "triple (good_trace env sc (k + used)) (fetch_documents env h budget paths (docs, used))
     (\<lambda>(_, used') t. good_trace env sc (k + used') t \<and> k + used' \<le> m) (good_upto env sc m)"
  using assms(1)
proof (induction paths arbitrary: docs used)
  case Nil
  then show ?case by (simp add: triple_ret)
next
  case (Cons path paths)
  have IH: "triple (good_trace env sc (k + used + 1)) (fetch_documents env h budget paths (d, used + 1))
     (\<lambda>(_, used') t. good_trace env sc (k + used') t \<and> k + used' \<le> m) (good_upto env sc m)" for d
    using Cons.IH [of "used + 1" d] Cons.prems by (simp add: add.assoc)
  have m: "k + used + 1 \<le> m" "k + used \<le> m" using Cons.prems by simp_all
  show ?case
    unfolding fetch_documents.simps Let_def
    by (rule triple_if, rule triple_ret, simp add: m, rule triple_bind [OF paced_probe_good [OF _ _ m(1)]],
        simp add: assms(2), simp add: assms(3), rule triple_if, rule IH, rule triple_bind [OF lift_good [OF m(1)]],
        rule IH)
qed

lemma check_vhost_good:
  assumes "is_target_allowed sc name" "is_target_allowed sc ip" and "sv_requests sv \<le> ao_max_requests opt"
  shows "triple (good_trace env sc (sv_requests sv)) (check_vhost env opt name ip port sv candidate)
     (\<lambda>(sv', _). booked env sc (ao_max_requests opt) sv') (good_upto env sc (ao_max_requests opt + 1))"
  unfolding check_vhost_def
proof (intro triple_if)
  assume "sv_requests sv < ao_max_requests opt"
  then show "triple (good_trace env sc (sv_requests sv))
     (bind_net (paced_probe env ((plain_call name ip port)\<lparr>pc_header := Some ip\<rparr>)) (\<lambda>baseline.
        ret_net (add_requests 1 sv, if is_vhost candidate baseline then dict_set ''vhost'' (PBool True) candidate else candidate)))
     (\<lambda>(sv', _). booked env sc (ao_max_requests opt) sv') (good_upto env sc (ao_max_requests opt + 1))"
    using assms by (intro triple_bind [OF paced_probe_good] triple_ret) (simp_all add: plain_call_def booked_def)
qed (use assms in \<open>auto intro!: triple_ret simp: booked_def\<close>)

lemma check_redirects_good:
  "triple (booked env sc (ao_max_requests opt) sv) (check_redirects env sc opt h sv)
     (\<lambda>(sv', _). booked env sc (ao_max_requests opt + 1) sv') (good_upto env sc (ao_max_requests opt + 1))"
proof (cases "sv_requests sv \<le> ao_max_requests opt")
  case True
  let ?rd = "\<lparr>rd_chain = [], rd_blocked = [], rd_used = 0\<rparr>"
  have "triple (good_trace env sc (sv_requests sv + rd_used ?rd))
      (follow_hops env sc (hop_host h) (sv_requests sv < ao_max_requests opt) MAX_REDIRECTS h ?rd)
      (\<lambda>rd' t. good_trace env sc (sv_requests sv + rd_used rd') t \<and> sv_requests sv + rd_used rd' \<le> ao_max_requests opt + 1)
      (good_upto env sc (ao_max_requests opt + 1))"
    using True by (intro follow_hops_good) (simp add: MAX_REDIRECTS_def)
  from triple_pre [OF this, of "booked env sc (ao_max_requests opt) sv"] show ?thesis
    unfolding check_redirects_def follow_redirects_def
    by (rule triple_bind) (auto intro!: triple_ret simp: booked_def)
qed (simp add: triple_def booked_def)

lemma check_documents_good:
  assumes "is_target_allowed sc (hop_ip h)" "is_target_allowed sc (hop_host h)"
  shows "triple (booked env sc (ao_max_requests opt + 1) sv) (check_documents env opt h sv candidate)
     (\<lambda>(sv', _). booked env sc (ao_max_requests opt + 1) sv') (good_upto env sc (ao_max_requests opt + 1))"
  unfolding check_documents_def
proof (intro triple_if)
  let ?m = "ao_max_requests opt + 1"
  assume c: "ao_deep opt \<and> sv_requests sv < ao_max_requests opt"
  have "triple (good_trace env sc (sv_requests sv + 0))
      (fetch_documents env h (sv_requests sv < ao_max_requests opt) [''/.well-known/security.txt'', ''/robots.txt''] ([], 0))
      (\<lambda>(_, used') t. good_trace env sc (sv_requests sv + used') t \<and> sv_requests sv + used' \<le> ?m) (good_upto env sc ?m)"
    using c by (intro fetch_documents_good assms) simp
  from triple_pre [OF this, of "booked env sc ?m sv"] show "triple (booked env sc ?m sv)
      (bind_net (probe_documents env h (sv_requests sv < ao_max_requests opt)) (\<lambda>(docs, used).
        ret_net (add_requests used sv, if docs \<noteq> [] then dict_set ''documents'' (PDict docs) candidate else candidate)))
      (\<lambda>(sv', _). booked env sc ?m sv') (good_upto env sc ?m)"
    unfolding probe_documents_def
    by (rule triple_bind_pair) (auto intro!: triple_ret simp del: fetch_documents.simps simp: booked_def)
qed (auto intro!: triple_ret)

lemma inspect_good:
  assumes "is_target_allowed sc name" "is_target_allowed sc ip" and r: "sv_requests sv < ao_max_requests opt"
  shows "triple (good_trace env sc (sv_requests sv)) (inspect env sc opt name ip port sv)
     (booked env sc (ao_max_requests opt + 1)) (good_upto env sc (ao_max_requests opt + 1))"
proof -
  let ?m = "ao_max_requests opt"
  have start: "triple (good_trace env sc (sv_requests sv)) (paced_probe env (plain_call name ip port))
      (\<lambda>_. good_trace env sc (sv_requests (add_requests 1 sv))) (good_upto env sc (?m + 1))"
    using paced_probe_good [of sc "plain_call name ip port" "sv_requests sv" "?m + 1" env] assms
    by (simp add: plain_call_def)
  have vhost: "triple (good_trace env sc (sv_requests (add_requests 1 sv)))
      (check_vhost env opt name ip port (add_requests 1 sv) c)
      (\<lambda>(sv', _). booked env sc ?m sv') (good_upto env sc (?m + 1))" for c
    using assms by (intro check_vhost_good) simp_all
  have scheme: "triple (booked env sc ?m s) (lift_net x) (\<lambda>_. booked env sc ?m s) (good_upto env sc (?m + 1))"
    for s and x :: "exc + string"
    by (rule triple_lift) (auto simp: booked_def intro: good_upto_I)
  show ?thesis
    unfolding inspect_def Let_def
    by (rule triple_bind [OF start], rule triple_if, rule triple_ret, simp add: booked_def, use r in linarith,
        rule triple_bind_pair [OF vhost], rule triple_bind [OF scheme], rule triple_bind_pair [OF check_redirects_good],
        rule triple_bind_pair [OF check_documents_good], simp add: assms, simp add: assms,
        rule triple_ret, simp add: booked_def)
qed

lemma inspect_ports_good:
  assumes "is_target_allowed sc name" "is_target_allowed sc ip"
  shows "triple (booked env sc (ao_max_requests opt + 1) sv) (inspect_ports env sc opt name ip ps sv)
     (booked env sc (ao_max_requests opt + 1)) (good_upto env sc (ao_max_requests opt + 1))"
proof (induction ps arbitrary: sv)
  case Nil
  then show ?case by (simp add: triple_ret)
next
  case (Cons p ps)
  show ?case
    unfolding inspect_ports.simps
    by (rule triple_if, rule triple_ret, assumption, rule triple_bind [OF _ Cons.IH],
        rule triple_pre [OF inspect_good [OF assms]]) (simp_all add: booked_def)
qed

lemma inspect_ips_good:
  assumes "is_target_allowed sc name" and "list_all (is_target_allowed sc) ips"
  shows "triple (booked env sc (ao_max_requests opt + 1) sv) (inspect_ips env sc opt ports name ips sv)
     (booked env sc (ao_max_requests opt + 1)) (good_upto env sc (ao_max_requests opt + 1))"
  using assms(2)
proof (induction ips arbitrary: sv)
  case Nil
  then show ?case by (simp add: triple_ret)
next
  case (Cons ip ips)
  have "is_target_allowed sc ip" "list_all (is_target_allowed sc) ips" using Cons.prems by simp_all
  then show ?case
    unfolding inspect_ips.simps
    by (intro triple_bind [OF inspect_ports_good [OF assms(1)] Cons.IH])
qed

lemma add_children_requests [simp]: "sv_requests (add_children sc level cs sv) = sv_requests sv"
  unfolding add_children_def by (induction cs arbitrary: sv) simp_all

lemma booked_simps [simp]:
  "booked env sc m (add_blocked b sv) = booked env sc m sv"
  "booked env sc m (sv\<lparr>sv_hosts := hs\<rparr>) = booked env sc m sv"
  "booked env sc m (sv\<lparr>sv_queue := q\<rparr>) = booked env sc m sv"
  "booked env sc m (sv\<lparr>sv_queue := q, sv_seen := s\<rparr>) = booked env sc m sv"
  "booked env sc m (add_children sc' level cs sv) = booked env sc m sv"
  by (simp_all add: booked_def fun_eq_iff)

lemma net_booked:
  assumes "\<And>n m. n \<le> m \<Longrightarrow> triple (good_trace env sc n) c (\<lambda>_. good_trace env sc n) (good_upto env sc m)"
  shows "triple (booked env sc m sv) c (\<lambda>_. booked env sc m sv) (good_upto env sc m)"
proof (cases "sv_requests sv \<le> m")
  case True
  then have eq: "booked env sc m sv = good_trace env sc (sv_requests sv)" by (simp add: booked_def fun_eq_iff)
  show ?thesis unfolding eq by (rule assms [OF True])
qed (simp add: triple_def booked_def)

lemma resolve_booked:
  "triple (booked env sc m sv) (resolve_net env name) (\<lambda>_. booked env sc m sv) (good_upto env sc m)"
  by (rule net_booked) (rule resolve_good)

lemma ct_booked:
  "triple (booked env sc m sv) (ct_net env name) (\<lambda>_. booked env sc m sv) (good_upto env sc m)"
  by (rule net_booked) (rule ct_good)

lemma visit_good:
  "triple (booked env sc (ao_max_requests opt + 1) sv) (visit env sc opt ports name level sv)
     (booked env sc (ao_max_requests opt + 1)) (good_upto env sc (ao_max_requests opt + 1))"
proof (cases "is_target_allowed sc name")
  case False
  then show ?thesis by (simp add: visit_def triple_ret)
next
  case True
  let ?B = "booked env sc (ao_max_requests opt + 1)" and ?E = "good_upto env sc (ao_max_requests opt + 1)"
  have ips: "triple (?B sv) (if filter (is_target_allowed sc) al = [] then ret_net (add_blocked b sv)
      else inspect_ips env sc opt ports name (filter (is_target_allowed sc) al) (sv\<lparr>sv_hosts := hs\<rparr>)) ?B ?E" for al b hs
  proof (rule triple_if)
    show "triple (?B sv) (ret_net (add_blocked b sv)) ?B ?E" by (rule triple_ret) (simp)
    have "list_all (is_target_allowed sc) (filter (is_target_allowed sc) al)" by (simp add: list_all_iff)
    from triple_pre [OF inspect_ips_good [OF True this, of env opt "sv\<lparr>sv_hosts := hs\<rparr>"], of "?B sv"]
    show "triple (?B sv) (inspect_ips env sc opt ports name (filter (is_target_allowed sc) al) (sv\<lparr>sv_hosts := hs\<rparr>)) ?B ?E"
      by (simp)
  qed
  show ?thesis
    unfolding visit_def Let_def
    by (rule triple_if, simp add: True, rule triple_bind [OF resolve_booked], rule triple_if,
        rule triple_ret, simp, rule triple_bind [OF ips], rule triple_if,
        rule triple_bind [OF ct_booked], rule triple_ret, simp, rule triple_ret)
qed

lemma walk_step_good:
  "triple (booked env sc (ao_max_requests opt + 1) sv) (walk_step env sc opt ports sv)
     (booked env sc (ao_max_requests opt + 1)) (good_upto env sc (ao_max_requests opt + 1))"
proof (cases "sv_queue sv")
  case Nil
  then show ?thesis by (simp add: walk_step_def triple_ret)
next
  case (Cons p rest)
  obtain name level where p: "p = (name, level)" by fastforce
  show ?thesis
    unfolding walk_step_def Cons p list.case prod.case
    by (rule triple_if, rule triple_ret, simp, rule triple_pre [OF visit_good])
      (simp)
qed

lemma walk_loop_good:
  assumes "booked env sc (ao_max_requests opt + 1) sv t"
  shows "case walk_loop env sc opt ports sv t of
      (Inl _, t') \<Rightarrow> good_upto env sc (ao_max_requests opt + 1) t'
    | (Inr sv', t') \<Rightarrow> booked env sc (ao_max_requests opt + 1) sv' t'"
  using assms
proof (induction env sc opt ports sv t rule: walk_loop.induct)
  case (1 env sc opt ports sv t)
  show ?case
  proof (cases "walking opt sv")
    case False
    then show ?thesis using 1 by (simp add: walk_loop.simps [of _ _ _ _ sv])
  next
    case True
    obtain r t' where r: "walk_step env sc opt ports sv t = (r, t')" by fastforce
    show ?thesis
    proof (cases r)
      case (Inl e)
      then show ?thesis
        using True r tripleD(2) [OF walk_step_good 1(2), of ports e t'] by (simp add: walk_loop.simps [of _ _ _ _ sv])
    next
      case (Inr sv')
      have "booked env sc (ao_max_requests opt + 1) sv' t'"
        using tripleD(1) [OF walk_step_good 1(2), of ports sv' t'] r Inr by simp
      then show ?thesis
        using 1(1) [OF True r [symmetric] Inr] True r Inr by (simp add: walk_loop.simps [of _ _ _ _ sv])
    qed
  qed
qed

lemma discover_good:
  "case discover_assets env sc seeds opt [] of
     (Inl _, t) \<Rightarrow> good_upto env sc (max 0 (ao_max_requests opt) + 1) t
   | (Inr sv, t) \<Rightarrow> booked env sc (max 0 (ao_max_requests opt) + 1) sv t"
proof -
  let ?sv = "\<lparr>sv_queue = seed_queue seeds, sv_seen = [], sv_hosts = [], sv_findings = [], sv_blocked = [], sv_requests = 0\<rparr>"
  have "booked env sc (ao_max_requests (clamp_opts opt) + 1) ?sv []"
    by (simp add: booked_def good_trace_def in_scope_def well_paced_def probes_def clamp_opts_def)
  moreover have "ao_max_requests (clamp_opts opt) = max 0 (ao_max_requests opt)" by (simp add: clamp_opts_def)
  ultimately show ?thesis
    using walk_loop_good [of env sc "clamp_opts opt" ?sv "[]" "web_ports sc opt"]
    by (auto simp: discover_assets_def split: prod.splits sum.splits)
qed

section \<open>Properties\<close>

text \<open>
  C5: Discovery never leaves the scope. Whatever the resolver, the probed servers and the certificate
  logs answer, and however the walk ends, every probe goes to an address and under a host name that the
  scope allows, directly behind a pacing call when one is given; there are at most \<open>max_requests + 1\<close>
  probes, and a finished walk reports exactly their number.
\<close>
theorem discovery_stays_in_scope:
  "case discover_assets env sc seeds opt [] of (r, t) \<Rightarrow>
     in_scope sc t \<and> (ae_pace env \<longrightarrow> well_paced t) \<and> probes t \<le> max 0 (ao_max_requests opt) + 1 \<and>
     (case r of Inr sv \<Rightarrow> sv_requests sv = probes t | Inl _ \<Rightarrow> True)"
  using discover_good [where env = env and sc = sc and seeds = seeds and opt = opt]
  by (auto simp: good_upto_def good_trace_def booked_def split: prod.splits sum.splits)

section \<open>Concrete runs\<close>

text \<open>One host in the scope, whose server redirects to a given location; pacing is on.\<close>

definition redirecting :: "string \<Rightarrow> asset_env" where
  "redirecting location =
     \<lparr>ae_resolve = (\<lambda>_ _. Inr [''10.0.0.5'']),
      ae_probe = (\<lambda>_ _. Inr [(''open'', PBool True), (''scheme'', PStr ''http''), (''status'', PInt 302),
        (''location'', PStr location)]),
      ae_fetch = (\<lambda>_ _. Inl (OSError ''no log'')), ae_pace = True\<rparr>"

definition sample_opts :: asset_opts where
  "sample_opts =
     \<lparr>ao_ct = False, ao_depth = 1, ao_max_hosts = 5, ao_max_requests = 3, ao_ports = None, ao_deep = False\<rparr>"

lemma sample_scope:
  "is_target_allowed sample_enforcer ''example.com''" "is_target_allowed sample_enforcer ''10.0.0.5''"
  "web_ports sample_enforcer sample_opts = [80]" "seed_queue [''example.com''] = [(''example.com'', 0)]"
  by code_simp+

lemma sample_redirects:
  "redirect_target ''/next'' ''example.com'' 80 ''http'' = Inr (Some (''example.com'', 80, ''http'', ''/next''))"
  "redirect_target ''http://example.com:22/'' ''example.com'' 80 ''http'' = Inr (Some (''example.com'', 22, ''http'', ''/''))"
  "redirect_target ''http://example.com:22/'' ''example.com'' 22 ''http'' = Inr (Some (''example.com'', 22, ''http'', ''/''))"
  "redirect_target ''http://example.com:8o80/'' ''example.com'' 80 ''http'' =
     Inl (ValueError ''Port could not be cast to integer value'')"
  by code_simp+

text \<open>One step of evaluation of the walk.\<close>

lemmas walk_eval = discover_assets_def walk_loop.simps walking_def walk_step_def visit_def inspect_def Let_def
  check_vhost_def check_redirects_def check_documents_def follow_redirects_def take_hop_def paced_probe_def
  resolve_net_def bind_net_def lift_net_def clamp_opts_def redirecting_def plain_call_def status_int_def
  str_or_empty_def dget_def dindex_def is_vhost_def page_fingerprint_def add_requests_def add_blocked_def
  MAX_REDIRECTS_def numeral_2_eq_2

lemma redirected_run:
  "\<exists>sv t. discover_assets (redirecting ''/next'') sample_enforcer [''example.com''] sample_opts [] = (Inr sv, t) \<and>
     t \<noteq> [] \<and> sv_requests sv = 4"
  unfolding discover_assets_def sample_scope
  by (simp add: walk_eval sample_scope sample_redirects sample_opts_def)

lemma redirected_to_ssh:
  "\<exists>sv t c. discover_assets (redirecting ''http://example.com:22/'') sample_enforcer [''example.com''] sample_opts [] =
     (Inr sv, t) \<and> Probed c \<in> set t \<and> pc_port c = 22"
  unfolding discover_assets_def sample_scope
  by (simp add: walk_eval sample_scope sample_redirects sample_opts_def)
    (auto simp: conj_disj_distribR ex_disj_distrib)

theorem discovery_stays_in_scope_witness:
  "\<exists>sv t. discover_assets (redirecting ''/next'') sample_enforcer [''example.com''] sample_opts [] = (Inr sv, t) \<and>
     t \<noteq> [] \<and> in_scope sample_enforcer t \<and> well_paced t"
proof -
  let ?env = "redirecting ''/next''"
  have "ae_pace ?env" by (simp add: redirecting_def)
  then show ?thesis
    using redirected_run
      discovery_stays_in_scope [where env = ?env and sc = sample_enforcer and seeds = "[''example.com'']" and opt = sample_opts]
    by auto
qed

text \<open>
  The request limit can be exceeded, and a redirect can leave the listed ports. With a limit of
  three, two redirects are followed after the second request; and in a scope of port 80 alone a redirect
  to port 22 of the same host is probed.
\<close>
theorem discovery_limits_leak:
  "(\<exists>sv t. discover_assets (redirecting ''/next'') sample_enforcer [''example.com''] sample_opts [] = (Inr sv, t) \<and>
      sv_requests sv = ao_max_requests sample_opts + 1) \<and>
   allowed_ports sample_enforcer = [80] \<and>
   (\<exists>sv t c. discover_assets (redirecting ''http://example.com:22/'') sample_enforcer [''example.com''] sample_opts [] =
      (Inr sv, t) \<and> Probed c \<in> set t \<and> pc_port c = 22)"
  using redirected_run redirected_to_ssh by (auto simp: sample_opts_def sample_enforcer_def)

text \<open>
  A redirect can stop the campaign step. A \<open>Location\<close> whose port is no number raises a
  \<open>ValueError\<close> out of \<open>discover_assets\<close>, although the walk promises to record what it cannot parse.
\<close>
theorem discovery_raises_on_bad_port:
  "\<exists>m t. discover_assets (redirecting ''http://example.com:8o80/'') sample_enforcer [''example.com''] sample_opts [] =
     (Inl (ValueError m), t)"
  unfolding discover_assets_def sample_scope
  by (simp add: walk_eval sample_scope sample_redirects sample_opts_def)

text \<open>
  A relative redirect does not stay on the current authority: the port it came from is never used, so
  a relative \<open>Location\<close> of a server on port 8080 is followed to port 80.
\<close>
theorem relative_redirect_loses_port:
  "redirect_target location host port scheme = redirect_target location host port' scheme \<and>
   redirect_target ''/login'' ''example.com'' 8080 ''http'' = Inr (Some (''example.com'', 80, ''http'', ''/login''))"
proof
  show "redirect_target location host port scheme = redirect_target location host port' scheme"
    by (simp only: redirect_target_def)
  show "redirect_target ''/login'' ''example.com'' 8080 ''http'' = Inr (Some (''example.com'', 80, ''http'', ''/login''))"
    by code_simp
qed

end
