(* ===== verification/Findings.thy ===== *)
theory Findings
  imports PyJson PyFloat
begin

text \<open>
  What is done with findings: the rules of \<open>engine/verdict.py\<close>, the collector of
  \<open>modules/exfil/collector.py\<close>, the comparison of two campaigns in \<open>core/drift.py\<close> and the
  error envelopes of the native cores in \<open>core/envelope.py\<close>.
\<close>

section \<open>Rules\<close>

text \<open>The test of a rule may raise; \<open>OutOfModel\<close> is passed on, every exception counts as not applying.\<close>

record rule =
  rule_name :: pyval
  rule_weight :: rat
  rule_test :: "pydict \<Rightarrow> exc + bool"
  rule_note :: pyval

definition applies :: "rule \<Rightarrow> pydict \<Rightarrow> exc + bool" where
  "applies r f =
     (case rule_test r f of
        Inl e \<Rightarrow> if e = OutOfModel then Inl e else Inr False
      | Inr b \<Rightarrow> Inr b)"

record verdict =
  vd_finding :: pydict
  vd_hits :: "pyval list"
  vd_weight :: rat

definition judge_step :: "pydict \<Rightarrow> verdict \<Rightarrow> rule \<Rightarrow> exc + verdict" where
  "judge_step f v r =
     bind_res (applies r f) (\<lambda>b.
       Inr (if b then v\<lparr>vd_hits := vd_hits v @ [rule_name r], vd_weight := max (vd_weight v) (rule_weight r)\<rparr>
            else v))"

definition judge :: "rule list \<Rightarrow> pydict \<Rightarrow> exc + verdict" where
  "judge rules f = fold_res (judge_step f) \<lparr>vd_finding = f, vd_hits = [], vd_weight = 0\<rparr> rules"

definition judge_all :: "rule list \<Rightarrow> pydict list \<Rightarrow> exc + verdict list" where
  "judge_all rules fs = map_res (judge rules) fs"

definition severity :: "rat \<Rightarrow> string" where
  "severity w = (if fl (7 / 10) \<le> w then ''high'' else if fl (4 / 10) \<le> w then ''medium'' else ''low'')"

record verdict_sheet =
  vs_source :: pyval
  vs_target :: pyval
  vs_finding :: pydict
  vs_hits :: "pyval list"
  vs_weight :: rat
  vs_severity :: string

definition verdict_dict :: "verdict \<Rightarrow> verdict_sheet" where
  "verdict_dict v =
     \<lparr>vs_source = dget_or (vd_finding v) ''module'' (PStr ''unknown''), vs_target = dget (vd_finding v) ''target'',
      vs_finding = vd_finding v, vs_hits = vd_hits v, vs_weight = round_digits 3 (vd_weight v),
      vs_severity = severity (vd_weight v)\<rparr>"

definition field_text :: "pydict \<Rightarrow> string \<Rightarrow> exc + string" where
  "field_text f k = bind_res (py_str (dget_or f k (PStr []))) (\<lambda>s. Inr (lower s))"

definition mentions :: "string \<Rightarrow> string list \<Rightarrow> pydict \<Rightarrow> exc + bool" where
  "mentions k words f = bind_res (field_text f k) (\<lambda>s. Inr (list_ex (\<lambda>w. contains w s) words))"

definition mk_rule :: "string \<Rightarrow> rat \<Rightarrow> (pydict \<Rightarrow> exc + bool) \<Rightarrow> string \<Rightarrow> rule" where
  "mk_rule name w test note =
     \<lparr>rule_name = PStr name, rule_weight = fl w, rule_test = test, rule_note = PStr note\<rparr>"

definition default_rules :: "rule list" where
  "default_rules =
     [mk_rule ''open_service'' (3 / 10) (\<lambda>f. Inr (dget f ''open'' = PBool True \<or> dget f ''port'' \<noteq> PNone))
        ''Open service that is suspicious/worth inspecting.'',
      mk_rule ''unpatched_hint'' (6 / 10) (mentions ''service'' [''old'', ''deprecated'', ''eol''])
        ''Indicates an old, unpatched version.'',
      mk_rule ''admin_interface'' (7 / 10) (mentions ''service'' [''admin'', ''management'', ''ssh'', ''rdp''])
        ''Admin/management interface - priority for inspection.'',
      mk_rule ''default_credentials_hint'' (8 / 10) (mentions ''finding_note'' [''default'', ''factory'', ''weak''])
        ''Indicates default/weak credentials.'',
      mk_rule ''plaintext_telnet_risk'' (85 / 100)
        (\<lambda>f. if eq_int (dget f ''port'') 23 then Inr True else mentions ''service'' [''telnet''] f)
        ''Unencrypted plaintext telnet service - high interception risk.'']"

text \<open>The engine's list of rules grows by single rules and by the factories of the plugin registry; a factory
that raises ends the loading, and the rules made before it stay.\<close>

definition add_rule :: "rule \<Rightarrow> rule list \<Rightarrow> rule list" where
  "add_rule r rules = rules @ [r]"

fun load_plugins :: "(string \<times> (exc + rule)) list \<Rightarrow> rule list \<Rightarrow> exc option \<times> rule list" where
  "load_plugins [] rules = (None, rules)"
| "load_plugins ((name, made) # rest) rules =
     (case made of
        Inl e \<Rightarrow> (Some e, rules)
      | Inr r \<Rightarrow> load_plugins rest (add_rule r rules))"

section \<open>Rules from a file\<close>

text \<open>\<open>float(v)\<close> of a JSON value; text and numbers beyond double range are left out.\<close>

definition weight_of :: "pyval \<Rightarrow> exc + rat" where
  "weight_of v =
     (case v of
        PStr _ \<Rightarrow> Inl OutOfModel
      | _ \<Rightarrow> (case num_of v of
               Some q \<Rightarrow> if \<bar>q\<bar> < 10 ^ 300 then Inr (fl q) else Inl OutOfModel
             | None \<Rightarrow> Inl (TypeError ''float() argument must be a string or a real number'')))"

definition json_test :: "pyval \<Rightarrow> string \<Rightarrow> pydict \<Rightarrow> exc + bool" where
  "json_test key val f =
     (case key of
        PStr k \<Rightarrow> bind_res (field_text f k) (\<lambda>s. Inr (contains val s))
      | PList _ \<Rightarrow> Inl (TypeError ''unhashable type'')
      | PDict _ \<Rightarrow> Inl (TypeError ''unhashable type'')
      | _ \<Rightarrow> Inr (contains val []))"

definition rule_of_json :: "pyval \<Rightarrow> exc + rule" where
  "rule_of_json v =
     (case v of
        PDict d \<Rightarrow>
          bind_res (case dict_get d ''weight'' of None \<Rightarrow> Inr (1 / 2) | Some w \<Rightarrow> weight_of w) (\<lambda>w.
          (case dget_or d ''match'' (PStr []) of
             PStr m \<Rightarrow> Inr \<lparr>rule_name = dget_or d ''name'' (PStr ''custom_rule''), rule_weight = w,
                 rule_test = json_test (dget_or d ''field'' (PStr ''service'')) (lower m),
                 rule_note = dget_or d ''note'' (PStr [])\<rparr>
           | _ \<Rightarrow> Inl (TypeError ''object has no attribute lower'')))
      | _ \<Rightarrow> Inl (TypeError ''object has no attribute get''))"

text \<open>A rule that cannot be read ends the loading with 0; the rules appended before it stay.\<close>

fun load_entries :: "pyval list \<Rightarrow> rule list \<Rightarrow> nat \<Rightarrow> exc + (nat \<times> rule list)" where
  "load_entries [] rules n = Inr (n, rules)"
| "load_entries (v # vs) rules n =
     (case rule_of_json v of
        Inl e \<Rightarrow> if e = OutOfModel then Inl e else Inr (0, rules)
      | Inr r \<Rightarrow> load_entries vs (add_rule r rules) (Suc n))"

text \<open>The file: absent, or what reading it as text gives.\<close>

definition load_from_json :: "(exc + string) option \<Rightarrow> rule list \<Rightarrow> exc + (nat \<times> rule list)" where
  "load_from_json content rules =
     (case content of
        None \<Rightarrow> Inr (0, rules)
      | Some (Inl e) \<Rightarrow> Inr (0, rules)
      | Some (Inr s) \<Rightarrow>
          (case json_loads s of
             Inl e \<Rightarrow> if e = OutOfModel then Inl e else Inr (0, rules)
           | Inr (PDict d) \<Rightarrow>
               (case dget_or d ''rules'' (PList []) of
                  PList vs \<Rightarrow> load_entries vs rules 0
                | _ \<Rightarrow> Inr (0, rules))
           | Inr _ \<Rightarrow> Inr (0, rules)))"

section \<open>The collector\<close>

text \<open>Equality and hashing of Python values: numbers are equal across their types.\<close>

definition py_key :: "pyval \<Rightarrow> exc + (rat + pyval)" where
  "py_key v =
     (case v of
        PList _ \<Rightarrow> Inl (TypeError ''unhashable type'')
      | PDict _ \<Rightarrow> Inl (TypeError ''unhashable type'')
      | _ \<Rightarrow> Inr (case num_of v of Some q \<Rightarrow> Inl q | None \<Rightarrow> Inr v))"

record collector =
  col_campaign :: string
  col_findings :: "pydict list"
  col_seen :: "(rat + pyval) list set"

definition new_collector :: "string option \<Rightarrow> string \<Rightarrow> collector" where
  "new_collector cid fresh =
     \<lparr>col_campaign = (case cid of Some c \<Rightarrow> if c \<noteq> [] then c else fresh | None \<Rightarrow> fresh),
      col_findings = [], col_seen = {}\<rparr>"

definition natural_id :: "pydict \<Rightarrow> exc + (rat + pyval) list" where
  "natural_id f = map_res (\<lambda>k. py_key (dget f k)) [''module'', ''host'', ''port'', ''service'']"

definition collector_add :: "pyval \<Rightarrow> collector \<Rightarrow> pydict \<Rightarrow> exc + (bool \<times> collector)" where
  "collector_add now c f =
     bind_res (natural_id f) (\<lambda>i.
       if i \<in> col_seen c then Inr (False, c)
       else Inr (True, c\<lparr>col_seen := insert i (col_seen c),
              col_findings := col_findings c @
                [dict_setdefault ''campaign_id'' (PStr (col_campaign c)) (dict_setdefault ''ts'' now f)]\<rparr>))"

fun collector_extend :: "pyval \<Rightarrow> collector \<Rightarrow> pydict list \<Rightarrow> exc + (nat \<times> collector)" where
  "collector_extend now c [] = Inr (0, c)"
| "collector_extend now c (f # fs) =
     bind_res (collector_add now c f) (\<lambda>(b, c).
     bind_res (collector_extend now c fs) (\<lambda>(n, c).
       Inr ((if b then 1 else 0) + n, c)))"

definition collector_json :: "nat option \<Rightarrow> collector \<Rightarrow> string" where
  "collector_json indent c = json_dumps False indent (PList (map PDict (col_findings c)))"

section \<open>Drift\<close>

text \<open>The pairs are listed in the order of their first appearance; the code's order is that of a set.\<close>

definition asset_key :: "pydict \<Rightarrow> exc + (rat + pyval) \<times> (rat + pyval)" where
  "asset_key f =
     bind_res (py_key (dget f ''host'')) (\<lambda>h. bind_res (py_key (dget f ''port'')) (\<lambda>p. Inr (h, p)))"

record drift =
  new_assets :: "((rat + pyval) \<times> (rat + pyval)) list"
  removed_assets :: "((rat + pyval) \<times> (rat + pyval)) list"
  stable_assets :: "((rat + pyval) \<times> (rat + pyval)) list"
  drift_detected :: bool

definition compute_surface_drift :: "pydict list \<Rightarrow> pydict list \<Rightarrow> exc + drift" where
  "compute_surface_drift previous current =
     bind_res (map_res asset_key previous) (\<lambda>prev.
     bind_res (map_res asset_key current) (\<lambda>curr.
       let new = filter (\<lambda>a. a \<notin> set prev) (uniq curr);
           removed = filter (\<lambda>a. a \<notin> set curr) (uniq prev)
       in Inr \<lparr>new_assets = new, removed_assets = removed,
              stable_assets = filter (\<lambda>a. a \<in> set prev) (uniq curr),
              drift_detected = (0 < length new \<or> 0 < length removed)\<rparr>))"

section \<open>Error envelopes\<close>

definition REQUIRED_KEYS :: "string list" where
  "REQUIRED_KEYS = [''status'', ''code'', ''message'']"

definition parse_envelope :: "string option \<Rightarrow> exc + pydict option" where
  "parse_envelope line =
     (case line of
        None \<Rightarrow> Inr None
      | Some l \<Rightarrow>
          if l = [] then Inr None
          else (let l = strip l in
            if \<not> startswith ''{'' l then Inr None
            else (case json_loads l of
                    Inl e \<Rightarrow> if is_value_error e then Inr None else Inl e
                  | Inr (PDict d) \<Rightarrow>
                      Inr (if \<not> list_all (\<lambda>k. dict_get d k \<noteq> None) REQUIRED_KEYS then None
                           else if dget d ''status'' \<noteq> PStr ''error'' then None else Some d)
                  | Inr _ \<Rightarrow> Inr None)))"

section \<open>Facts\<close>

lemma judge_fold:
  "fold_res (judge_step f) v rules = Inr v' \<Longrightarrow>
     vd_finding v' = vd_finding v \<and>
     vd_hits v' = vd_hits v @ map rule_name (filter (\<lambda>r. applies r f = Inr True) rules) \<and>
     vd_weight v' = Max (insert (vd_weight v) (rule_weight ` set (filter (\<lambda>r. applies r f = Inr True) rules)))"
proof (induction rules arbitrary: v)
  case Nil
  then show ?case by simp
next
  case (Cons r rules)
  obtain v1 where v1: "judge_step f v r = Inr v1" "fold_res (judge_step f) v1 rules = Inr v'"
    using Cons.prems by (auto simp: bind_res_eq_Inr)
  then obtain b where b: "applies r f = Inr b"
    and rest: "fold_res (judge_step f) (if b then v\<lparr>vd_hits := vd_hits v @ [rule_name r],
      vd_weight := max (vd_weight v) (rule_weight r)\<rparr> else v) rules = Inr v'"
    unfolding judge_step_def bind_res_eq_Inr by blast
  show ?case
  proof (cases b)
    case False
    then show ?thesis using Cons.IH rest b by simp
  next
    case True
    have "Max (insert (max a w) A) = Max (insert a (insert w A))" if "finite A" for a w :: rat and A
      using that by (cases "A = {}") (simp_all add: max.assoc)
    then show ?thesis using Cons.IH [of "v\<lparr>vd_hits := vd_hits v @ [rule_name r],
      vd_weight := max (vd_weight v) (rule_weight r)\<rparr>"] rest b True by simp
  qed
qed

lemma load_entries_prefix:
  "load_entries vs rules n = Inr (k, rules') \<Longrightarrow> \<exists>new. rules' = rules @ new \<and> (k = n + length new \<or> k = 0)"
proof (induction vs arbitrary: rules n)
  case (Cons v vs)
  show ?case
  proof (cases "rule_of_json v")
    case (Inl e)
    then show ?thesis using Cons.prems by (auto split: if_splits)
  next
    case (Inr r)
    then have "load_entries vs (rules @ [r]) (Suc n) = Inr (k, rules')" using Cons.prems by (simp add: add_rule_def)
    from Cons.IH [OF this] show ?thesis by auto
  qed
qed simp

definition half_bad_rules :: string where
  "half_bad_rules =
     ''{'' @ dump_str False ''rules'' @ '': [{'' @ dump_str False ''match'' @ '': '' @ dump_str False ''ssh'' @ ''}, {'' @
     dump_str False ''match'' @ '': 3}]}''"

text \<open>A file whose second rule is malformed reports no rule and leaves the first one loaded.\<close>

lemma load_reports_zero_but_keeps:
  "map_prod id (map rule_name) (case load_from_json (Some (Inr half_bad_rules)) [] of Inr r \<Rightarrow> r | Inl _ \<Rightarrow> (7, []))
     = (0, [PStr ''custom_rule''])"
  by code_simp

lemma dget_setdefault: "k' \<noteq> k \<Longrightarrow> dget (dict_setdefault k v d) k' = dget d k'"
  by (simp add: dget_def dict_setdefault_def map_add_def split: option.split)

lemma natural_id_setdefault [simp]:
  "natural_id (dict_setdefault ''campaign_id'' v (dict_setdefault ''ts'' w f)) = natural_id f"
  by (simp add: natural_id_def dget_setdefault)

definition collector_ok :: "collector \<Rightarrow> bool" where
  "collector_ok c \<longleftrightarrow> distinct (map natural_id (col_findings c)) \<and>
     Inr ` col_seen c = natural_id ` set (col_findings c)"

lemma collector_add_ok:
  assumes "collector_ok c" and "collector_add now c f = Inr (b, c')"
  shows "collector_ok c' \<and> natural_id f \<in> natural_id ` set (col_findings c') \<and>
     natural_id ` set (col_findings c') = insert (natural_id f) (natural_id ` set (col_findings c)) \<and>
     length (col_findings c') = (if b then 1 else 0) + length (col_findings c)"
proof -
  obtain i where i: "natural_id f = Inr i" using assms(2) by (auto simp: collector_add_def bind_res_eq_Inr)
  have seen: "i \<in> col_seen c \<longleftrightarrow> Inr i \<in> natural_id ` set (col_findings c)"
    using assms(1) by (auto simp: collector_ok_def)
  show ?thesis
  proof (cases "i \<in> col_seen c")
    case True
    then show ?thesis using assms i seen by (auto simp: collector_add_def)
  next
    case False
    then have new: "Inr i \<notin> natural_id ` set (col_findings c)" using seen by simp
    have c': "b" "col_seen c' = insert i (col_seen c)"
      "map natural_id (col_findings c') = map natural_id (col_findings c) @ [Inr i]"
      using assms(2) i False by (auto simp: collector_add_def)
    then have "natural_id ` set (col_findings c') = insert (Inr i) (natural_id ` set (col_findings c))"
      by (metis Un_insert_right list.set_map set_append list.simps(15) empty_set sup_bot.right_neutral)
    moreover have "length (col_findings c') = Suc (length (col_findings c))"
      using arg_cong [OF c'(3), of length] by simp
    ultimately show ?thesis using assms(1) c' new i by (simp add: collector_ok_def)
  qed
qed

lemma collector_extend_ok:
  "collector_ok c \<Longrightarrow> collector_extend now c fs = Inr (n, c') \<Longrightarrow>
     collector_ok c' \<and> length (col_findings c') = n + length (col_findings c) \<and>
     natural_id ` set (col_findings c') = natural_id ` set (col_findings c) \<union> natural_id ` set fs"
proof (induction fs arbitrary: c n)
  case (Cons f fs)
  then obtain b c1 m where s: "collector_add now c f = Inr (b, c1)" "collector_extend now c1 fs = Inr (m, c')"
    "n = (if b then 1 else 0) + m"
    by (auto simp: bind_res_eq_Inr)
  from collector_add_ok [OF Cons.prems(1) s(1)] Cons.IH [OF _ s(2)] s(3) show ?case by auto
qed simp

section \<open>Properties\<close>

text \<open>
  The verdict of a finding. Judging lists, in the order of the rules, exactly the names of the rules
  that apply, and its weight is the greatest of their weights, or zero when none applies.
\<close>
theorem judge_spec:
  assumes "judge rules f = Inr v"
  shows "vd_finding v = f \<and> vd_hits v = map rule_name (filter (\<lambda>r. applies r f = Inr True) rules) \<and>
     vd_weight v = Max (insert 0 (rule_weight ` {r \<in> set rules. applies r f = Inr True}))"
  using judge_fold [OF assms [unfolded judge_def]] by simp

definition telnet_finding :: pydict where
  "telnet_finding = [(''module'', PStr ''discovery''), (''port'', PInt 23), (''service'', PStr ''Telnet'')]"

theorem judge_spec_witness:
  "\<exists>v. judge default_rules telnet_finding = Inr v \<and> vd_hits v = [PStr ''open_service'', PStr ''plaintext_telnet_risk''] \<and>
     vd_hits v = map rule_name (filter (\<lambda>r. applies r telnet_finding = Inr True) default_rules)"
proof -
  have "case judge default_rules telnet_finding of Inl _ \<Rightarrow> False
    | Inr v \<Rightarrow> vd_hits v = [PStr ''open_service'', PStr ''plaintext_telnet_risk'']"
    by code_simp
  then obtain v where v: "judge default_rules telnet_finding = Inr v"
    "vd_hits v = [PStr ''open_service'', PStr ''plaintext_telnet_risk'']"
    by (auto split: sum.splits)
  from judge_spec [OF v(1)] v show ?thesis by blast
qed

text \<open>
  The collector keeps one finding of each kind. Whatever is added, its findings have pairwise
  different natural identifiers (module, host, port and service, numbers compared as numbers), every
  added finding is represented, and \<open>extend\<close> returns how many were kept.
\<close>
theorem collector_unique:
  assumes "collector_extend now (new_collector cid fresh) fs = Inr (n, c)"
  shows "distinct (map natural_id (col_findings c)) \<and> n = length (col_findings c) \<and>
     natural_id ` set (col_findings c) = natural_id ` set fs"
proof -
  have "collector_ok (new_collector cid fresh)" by (simp add: collector_ok_def new_collector_def)
  from collector_extend_ok [OF this assms] show ?thesis
    by (simp add: collector_ok_def new_collector_def)
qed

theorem collector_unique_witness:
  "\<exists>c. collector_extend PNone (new_collector None ''c'') [telnet_finding, telnet_finding] = Inr (1, c) \<and>
     length (col_findings c) = 1"
proof -
  have "case collector_extend PNone (new_collector None ''c'') [telnet_finding, telnet_finding] of
      Inl _ \<Rightarrow> False | Inr (n, _) \<Rightarrow> n = 1"
    by code_simp
  then obtain c where c: "collector_extend PNone (new_collector None ''c'') [telnet_finding, telnet_finding] = Inr (1, c)"
    by (auto split: sum.splits)
  from collector_unique [OF c] c show ?thesis by auto
qed

text \<open>
  Drift is the difference of the two surfaces. The new, removed and stable assets are exactly the
  pairs of host and port found only now, only before and both times, each listed once; drift is detected
  exactly when the two sets of pairs differ.
\<close>
theorem drift_spec:
  assumes "compute_surface_drift previous current = Inr d"
    and "map_res asset_key previous = Inr ps" and "map_res asset_key current = Inr cs"
  shows "set (new_assets d) = set cs - set ps \<and> set (removed_assets d) = set ps - set cs \<and>
     set (stable_assets d) = set cs \<inter> set ps \<and> distinct (new_assets d @ removed_assets d @ stable_assets d) \<and>
     drift_detected d = (set cs \<noteq> set ps)"
proof -
  have d: "set (uniq xs) = set xs" "distinct (uniq xs)" for xs :: "((rat + pyval) \<times> (rat + pyval)) list"
    by (simp_all add: uniq_def set_uniq_acc distinct_uniq_acc)
  show ?thesis
    using assms(1) unfolding compute_surface_drift_def assms(2,3)
    by (auto simp: Let_def d filter_empty_conv)
qed

theorem drift_spec_witness:
  "\<exists>d. compute_surface_drift [telnet_finding] [telnet_finding] = Inr d \<and> \<not> drift_detected d"
proof -
  have "case map_res asset_key [telnet_finding] of Inl _ \<Rightarrow> False | Inr _ \<Rightarrow> True" by code_simp
  then obtain ks where ks: "map_res asset_key [telnet_finding] = Inr ks" by (auto split: sum.splits)
  then obtain d where "compute_surface_drift [telnet_finding] [telnet_finding] = Inr d"
    by (simp add: compute_surface_drift_def Let_def)
  with drift_spec [OF this ks ks] show ?thesis by blast
qed

text \<open>
  A native fault never aborts a campaign here. \<open>parse_envelope\<close> raises nothing on any line, and what it
  returns is an error object with all the required keys.
\<close>
theorem envelope_total:
  "(\<forall>e. parse_envelope line = Inl e \<longrightarrow> e = OutOfModel) \<and>
   (\<forall>d. parse_envelope line = Inr (Some d) \<longrightarrow>
      dget d ''status'' = PStr ''error'' \<and> list_all (\<lambda>k. dict_get d k \<noteq> None) REQUIRED_KEYS)"
  using json_loads_error
  by (auto simp: parse_envelope_def Let_def split: option.splits sum.splits pyval.splits if_splits)

theorem envelope_total_witness:
  "parse_envelope (Some ''not an envelope'') = Inr None \<and>
   (\<forall>e. parse_envelope (Some ''not an envelope'') = Inl e \<longrightarrow> e = OutOfModel)"
proof
  show "parse_envelope (Some ''not an envelope'') = Inr None" by code_simp
  show "\<forall>e. parse_envelope (Some ''not an envelope'') = Inl e \<longrightarrow> e = OutOfModel"
    using envelope_total [of "Some ''not an envelope''"] by blast
qed

end
