(* ===== verification/CBridge.thy ===== *)
theory CBridge
  imports TextCore Accel Sha256 Findings
begin

text \<open>
  The front ends of \<open>core/c_core_bridge.py\<close> to the native C core: the shared library, the executable and
  the Python fallback of \<open>TextCore\<close>. The host (files, the loader, running a command) and the library's
  functions are arguments; which of them is asked, what is believed of their answers and what is cached is
  modelled. Text the core prints is Latin-1.
\<close>

section \<open>The host\<close>

text \<open>An \<open>OSError\<close> with its two codes and its text.\<close>

record os_failure =
  osf_winerror :: "int option"
  osf_errno :: "int option"
  osf_text :: string

text \<open>A library that loaded: whether it exports the interface, and its functions. A null pointer is None.\<close>

record dll =
  dll_missing :: "string option"
  dll_version :: "bytes option"
  dll_open :: "string \<Rightarrow> bytes \<Rightarrow> nat option"
  dll_match :: "nat \<Rightarrow> bytes \<Rightarrow> bytes option"
  dll_fp :: "bytes \<Rightarrow> bytes option"
  dll_selftest :: "bytes option"

datatype run_result = Ran int string | Run_refused os_failure | Run_failed string

record c_host =
  ch_exists :: "string \<Rightarrow> bool"
  ch_mtime :: "string \<Rightarrow> int"
  ch_sources :: "string list"
  ch_read :: "string \<Rightarrow> bytes option"
  ch_text :: "string \<Rightarrow> ustr option"
  ch_env_binary :: "string option"
  ch_env_library :: "string option"
  ch_binaries :: "string list"
  ch_libraries :: "string list"
  ch_load :: "string \<Rightarrow> os_failure + dll"
  ch_run :: "string list \<Rightarrow> ustr \<Rightarrow> run_result"

section \<open>Locating the core\<close>

definition newest_source :: "c_host \<Rightarrow> int option" where
  "newest_source h = (if ch_sources h = [] then None else Some (Max (set (map (ch_mtime h) (ch_sources h)))))"

definition is_stale :: "c_host \<Rightarrow> string \<Rightarrow> bool" where
  "is_stale h p = (case newest_source h of None \<Rightarrow> False | Some t \<Rightarrow> ch_mtime h p < t)"

text \<open>The override names the executable without a look at its age.\<close>

definition locate_binary :: "c_host \<Rightarrow> string option" where
  "locate_binary h =
     (let usable = find (\<lambda>p. ch_exists h p \<and> \<not> is_stale h p) (ch_binaries h) in
      case ch_env_binary h of
        Some p \<Rightarrow> if p \<noteq> [] \<and> ch_exists h p then Some p else usable
      | None \<Rightarrow> usable)"

definition staleness_note :: "c_host \<Rightarrow> string" where
  "staleness_note h =
     (case find (ch_exists h) (ch_binaries h) of
        None \<Rightarrow> []
      | Some p \<Rightarrow> if is_stale h p then p @ '' predates its sources; rebuild before trusting the native core'' else [])"

definition locate_library :: "c_host \<Rightarrow> string option" where
  "locate_library h =
     find (\<lambda>p. ch_exists h p \<and> \<not> is_stale h p)
       ((case ch_env_library h of Some p \<Rightarrow> if p \<noteq> [] then [p] else [] | None \<Rightarrow> []) @ ch_libraries h)"

definition failure_code :: "os_failure \<Rightarrow> int option" where
  "failure_code e = (case osf_winerror e of None \<Rightarrow> osf_errno e | Some c \<Rightarrow> Some c)"

definition describe_startup_failure :: "os_failure \<Rightarrow> string" where
  "describe_startup_failure e =
     (if failure_code e = Some 4551
      then ''the host application-control policy refused to execute the C core (WinError 4551)''
      else if failure_code e = Some 2 then ''the C core binary was not found at the recorded path''
      else ''the C core could not be started: '' @ osf_text e)"

section \<open>Cached state\<close>

record c_cache =
  probe_result :: "bool option"
  probe_reason :: string
  probe_ffi :: "bool option"
  probe_ffi_reason :: string
  lib_cache :: "(dll option \<times> string option \<times> string) option"
  lib_handles :: "(string, string \<times> nat) dict"

definition no_cache :: c_cache where
  "no_cache = \<lparr>probe_result = None, probe_reason = [], probe_ffi = None, probe_ffi_reason = [],
     lib_cache = None, lib_handles = []\<rparr>"

definition reset_availability :: "c_cache \<Rightarrow> c_cache" where
  "reset_availability c = c\<lparr>probe_result := None, probe_reason := [], probe_ffi := None, probe_ffi_reason := []\<rparr>"

text \<open>An operation reads and changes the caches and may raise.\<close>

type_synonym 'a cm = "c_cache \<Rightarrow> (exc + 'a) \<times> c_cache"

definition ret_c :: "'a \<Rightarrow> 'a cm" where
  "ret_c x c = (Inr x, c)"

definition lift_c :: "exc + 'a \<Rightarrow> 'a cm" where
  "lift_c r c = (r, c)"

definition bind_c :: "'a cm \<Rightarrow> ('a \<Rightarrow> 'b cm) \<Rightarrow> 'b cm" where
  "bind_c m f c = (case m c of (Inl e, c') \<Rightarrow> (Inl e, c') | (Inr x, c') \<Rightarrow> f x c')"

definition load_library :: "c_host \<Rightarrow> dll option \<times> string option \<times> string" where
  "load_library h =
     (case locate_library h of
        None \<Rightarrow> (None, None, ''the native shared library was not found'')
      | Some p \<Rightarrow>
          (case ch_load h p of
             Inl e \<Rightarrow> (None, Some p, describe_startup_failure e)
           | Inr l \<Rightarrow>
               (case dll_missing l of
                  Some m \<Rightarrow> (None, Some p, ''the native shared library does not export the expected interface: '' @ m)
                | None \<Rightarrow> (Some l, Some p, []))))"

definition c_library :: "c_host \<Rightarrow> dll option cm" where
  "c_library h c =
     (case lib_cache c of
        Some (l, _) \<Rightarrow> (Inr l, c)
      | None \<Rightarrow> let r = load_library h in (Inr (fst r), c\<lparr>lib_cache := Some r\<rparr>))"

definition lib_path :: "c_cache \<Rightarrow> string option" where
  "lib_path c = (case lib_cache c of None \<Rightarrow> None | Some (_, p, _) \<Rightarrow> p)"

definition lib_reason :: "c_cache \<Rightarrow> string" where
  "lib_reason c = (case lib_cache c of None \<Rightarrow> [] | Some (_, _, r) \<Rightarrow> r)"

definition library_note :: "c_host \<Rightarrow> string cm" where
  "library_note h = bind_c (c_library h) (\<lambda>_ c. (Inr (lib_reason c), c))"

definition library_present :: "c_host \<Rightarrow> bool cm" where
  "library_present h = bind_c (c_library h) (\<lambda>_ c. (Inr (lib_path c \<noteq> None), c))"

section \<open>Answers of the library\<close>

definition latin1 :: "ustr \<Rightarrow> exc + string" where
  "latin1 u = (if list_all (\<lambda>n. n < 256) u then Inr (map char_of u) else Inl OutOfModel)"

text \<open>An object parsed from the bytes of an answer; anything malformed is None.\<close>

definition decode_object :: "bytes \<Rightarrow> exc + pydict option" where
  "decode_object raw =
     (case bind_res (utf8_decode raw) (\<lambda>u. bind_res (latin1 u) json_loads) of
        Inl e \<Rightarrow> if is_value_error e then Inr None else Inl e
      | Inr (PDict d) \<Rightarrow> Inr (Some d)
      | Inr _ \<Rightarrow> Inr None)"

definition status_ok :: "pydict \<Rightarrow> bool" where
  "status_ok d \<longleftrightarrow> dget d ''status'' = PStr ''ok''"

definition ffi_selftest :: "c_host \<Rightarrow> pydict option cm" where
  "ffi_selftest h =
     bind_c (c_library h) (\<lambda>lib.
       case lib of
         None \<Rightarrow> ret_c None
       | Some l \<Rightarrow> (case dll_selftest l of None \<Rightarrow> ret_c None | Some raw \<Rightarrow> lift_c (decode_object raw)))"

text \<open>\<open>int(result.get("failures", 1) or 0) == 0\<close>; a failure of the conversion is unhealthy.\<close>

definition no_failures :: "pydict \<Rightarrow> exc + bool" where
  "no_failures d =
     (let v = dget_or d ''failures'' (PInt 1) in
      case v of
        PFloat m k \<Rightarrow> Inr (\<bar>m\<bar> div 10 ^ k = 0)
      | _ \<Rightarrow> (case int_of_pyval (if truthy v then v else PInt 0) of
                Inl (TypeError _) \<Rightarrow> Inr False
              | Inl e \<Rightarrow> Inl e
              | Inr i \<Rightarrow> Inr (i = 0)))"

definition ffi_available :: "c_host \<Rightarrow> bool cm" where
  "ffi_available h c =
     (case probe_ffi c of
        Some b \<Rightarrow> (Inr b, c)
      | None \<Rightarrow>
          bind_c (c_library h) (\<lambda>lib.
            case lib of
              None \<Rightarrow> (\<lambda>c. (Inr False, c\<lparr>probe_ffi := Some False\<rparr>))
            | Some _ \<Rightarrow>
                bind_c (ffi_selftest h) (\<lambda>result.
                bind_c (lift_c (case result of
                          None \<Rightarrow> Inr False
                        | Some d \<Rightarrow> if status_ok d then no_failures d else Inr False)) (\<lambda>healthy c.
                  (Inr healthy,
                   if healthy then c\<lparr>probe_ffi := Some True\<rparr>
                   else c\<lparr>probe_ffi := Some False, probe_ffi_reason :=
                     (if result \<noteq> None \<and> result \<noteq> Some []
                      then ''the native shared library failed its built-in consistency checks''
                      else ''the native shared library returned no usable selftest result'')\<rparr>)))) c)"

definition ffi_version :: "c_host \<Rightarrow> string cm" where
  "ffi_version h =
     bind_c (c_library h) (\<lambda>lib.
       case lib of
         None \<Rightarrow> ret_c ''unavailable''
       | Some l \<Rightarrow>
           (case dll_version l of
              None \<Rightarrow> ret_c ''unknown''
            | Some raw \<Rightarrow>
                if raw = [] then ret_c ''unknown''
                else (case utf8_decode raw of
                        Inl _ \<Rightarrow> ret_c ''unknown''
                      | Inr u \<Rightarrow> lift_c (latin1 u))))"

text \<open>A signature file is opened once per content: the key of the cache is a digest of the bytes.\<close>

definition hexdigest :: "bytes \<Rightarrow> string" where
  "hexdigest bs = concat (map (\<lambda>b. [hex_char (b div 16), hex_char (b mod 16)]) (sha256 bs))"

definition reopen_signatures :: "dll \<Rightarrow> string \<Rightarrow> bytes \<Rightarrow> nat option cm" where
  "reopen_signatures l path content c =
     (case dll_open l path content of
        None \<Rightarrow> (Inr None, c)
      | Some hdl \<Rightarrow>
          (Inr (Some hdl), c\<lparr>lib_handles := dict_set path (hexdigest content, hdl) (lib_handles c)\<rparr>))"

definition open_signatures :: "c_host \<Rightarrow> string \<Rightarrow> nat option cm" where
  "open_signatures h path =
     bind_c (c_library h) (\<lambda>lib.
       case lib of
         None \<Rightarrow> ret_c None
       | Some l \<Rightarrow>
       case ch_read h path of
         None \<Rightarrow> ret_c None
       | Some content \<Rightarrow> (\<lambda>c.
           case dict_get (lib_handles c) path of
             None \<Rightarrow> reopen_signatures l path content c
           | Some (stamp, hdl) \<Rightarrow>
               if stamp = hexdigest content then (Inr (Some hdl), c)
               else reopen_signatures l path content (c\<lparr>lib_handles := dict_del path (lib_handles c)\<rparr>)))"

definition ffi_match :: "c_host \<Rightarrow> nat \<Rightarrow> ustr \<Rightarrow> pydict option cm" where
  "ffi_match h handle banner =
     bind_c (c_library h) (\<lambda>lib.
       case lib of
         None \<Rightarrow> ret_c None
       | Some l \<Rightarrow>
           bind_c (lift_c (utf8_encode banner)) (\<lambda>bs.
           case dll_match l handle bs of
             None \<Rightarrow> ret_c None
           | Some raw \<Rightarrow>
               bind_c (lift_c (decode_object raw)) (\<lambda>r.
                 ret_c (case r of Some d \<Rightarrow> if status_ok d then Some d else None | None \<Rightarrow> None))))"

text \<open>A missing digest of an answer is an exception here.\<close>

definition ffi_fingerprint :: "c_host \<Rightarrow> ustr \<Rightarrow> (pyval \<times> pyval \<times> pyval) option cm" where
  "ffi_fingerprint h banner =
     bind_c (c_library h) (\<lambda>lib.
       case lib of
         None \<Rightarrow> ret_c None
       | Some l \<Rightarrow>
           bind_c (lift_c (utf8_encode banner)) (\<lambda>bs.
           case dll_fp l bs of
             None \<Rightarrow> ret_c None
           | Some raw \<Rightarrow>
               bind_c (lift_c (decode_object raw)) (\<lambda>r.
               case r of
                 None \<Rightarrow> ret_c None
               | Some d \<Rightarrow>
                   if \<not> status_ok d then ret_c None
                   else
                     bind_c (lift_c (bind_res (dindex d ''fp_fnv1a32'') py_str)) (\<lambda>a.
                     bind_c (lift_c (bind_res (dindex d ''fp_fnv1a64'') py_str)) (\<lambda>b.
                     bind_c (lift_c (bind_res (dindex d ''fp_crc32'') py_str)) (\<lambda>k.
                       ret_c (Some (PStr a, PStr b, PStr k))))))))"

section \<open>Availability\<close>

definition settle :: "bool \<Rightarrow> string \<Rightarrow> bool cm" where
  "settle b why c = (Inr b, c\<lparr>probe_result := Some b, probe_reason := why\<rparr>)"

definition or_text :: "string \<Rightarrow> string \<Rightarrow> string" where
  "or_text a b = (if a \<noteq> [] then a else b)"

text \<open>Only a library that was found can explain anything.\<close>

definition library_reason :: "c_host \<Rightarrow> string cm" where
  "library_reason h c =
     (if probe_ffi_reason c \<noteq> [] then (Inr (probe_ffi_reason c), c)
      else bind_c (library_present h) (\<lambda>present. if present then library_note h else ret_c []) c)"

definition version_probe :: "c_host \<Rightarrow> string \<Rightarrow> string \<Rightarrow> bool cm" where
  "version_probe h p why =
     (case ch_run h [p, ''version''] [] of
        Run_refused e \<Rightarrow> settle False (or_text why (describe_startup_failure e))
      | Run_failed m \<Rightarrow> settle False (''the C core did not complete a version probe: '' @ m)
      | Ran code _ \<Rightarrow>
          if code \<noteq> 0 then settle False (''the C core version probe exited '' @ show_int code)
          else settle True [])"

definition core_available :: "c_host \<Rightarrow> bool cm" where
  "core_available h c =
     (case probe_result c of
        Some b \<Rightarrow> (Inr b, c)
      | None \<Rightarrow>
          bind_c (ffi_available h) (\<lambda>ffi.
            if ffi then settle True []
            else bind_c (library_reason h) (\<lambda>why.
              case locate_binary h of
                None \<Rightarrow> settle False (or_text why ''the native C core was not found'')
              | Some p \<Rightarrow> version_probe h p why)) c)"

definition availability_note :: "c_host \<Rightarrow> string cm" where
  "availability_note h = bind_c (core_available h) (\<lambda>_ c. (Inr (probe_reason c), c))"

definition native_path :: "c_host \<Rightarrow> string cm" where
  "native_path h =
     bind_c (ffi_available h) (\<lambda>ffi.
       if ffi then ret_c ''ffi''
       else bind_c (core_available h) (\<lambda>b. ret_c (if b then ''process'' else ''python'')))"

text \<open>\<open>json.loads(stdout).get\<close> on something else than an object is an \<open>AttributeError\<close>, written as a
  \<open>TypeError\<close> here.\<close>

definition c_core_version :: "c_host \<Rightarrow> string cm" where
  "c_core_version h =
     bind_c (ffi_available h) (\<lambda>ffi.
       if ffi then ffi_version h
       else case locate_binary h of
         None \<Rightarrow> ret_c ''unavailable''
       | Some p \<Rightarrow>
           (case ch_run h [p, ''version''] [] of
              Run_refused _ \<Rightarrow> ret_c ''unavailable''
            | Run_failed _ \<Rightarrow> ret_c ''unknown''
            | Ran _ out \<Rightarrow>
                (case json_loads out of
                   Inl e \<Rightarrow> if is_value_error e then ret_c ''unknown'' else lift_c (Inl e)
                 | Inr (PDict d) \<Rightarrow> lift_c (py_str (dget_or d ''version'' (PStr ''unknown'')))
                 | Inr _ \<Rightarrow> lift_c (Inl (TypeError ''object has no attribute get'')))))"

definition failed_selftest :: "string \<Rightarrow> pydict" where
  "failed_selftest m = [(''ok'', PBool False), (''failures'', PNone), (''error'', PStr m)]"

text \<open>A refused start is passed on as it is (\<open>Inl\<close> in the result); everything else is a report.\<close>

definition c_selftest :: "c_host \<Rightarrow> (os_failure + pydict) cm" where
  "c_selftest h =
     bind_c (ffi_available h) (\<lambda>ffi.
     bind_c (if ffi then ffi_selftest h else ret_c None) (\<lambda>inproc.
       case inproc of
         Some d \<Rightarrow> ret_c (Inr d)
       | None \<Rightarrow>
       case locate_binary h of
         None \<Rightarrow> ret_c (Inr (failed_selftest ''binary not found''))
       | Some p \<Rightarrow>
           (case ch_run h [p, ''selftest''] [] of
              Run_refused e \<Rightarrow> ret_c (Inl e)
            | Run_failed m \<Rightarrow> ret_c (Inr (failed_selftest (''subprocess error: '' @ m)))
            | Ran _ out \<Rightarrow>
                (case json_loads out of
                   Inl e \<Rightarrow> if is_value_error e then ret_c (Inr (failed_selftest ''unparseable selftest output''))
                            else lift_c (Inl e)
                 | Inr (PDict d) \<Rightarrow> ret_c (Inr d)
                 | Inr _ \<Rightarrow> ret_c (Inr (failed_selftest ''selftest output was not an object''))))))"

section \<open>Scanning\<close>

text \<open>A result comes from the native core, as it was parsed, or from the Python fallback.\<close>

datatype scan_row = Native_row pydict | Python_row scan_result

fun ffi_batch :: "c_host \<Rightarrow> nat \<Rightarrow> ustr list \<Rightarrow> pydict list option cm" where
  "ffi_batch h handle [] = ret_c (Some [])"
| "ffi_batch h handle (b # bs) =
     bind_c (ffi_match h handle b) (\<lambda>r.
       case r of
         None \<Rightarrow> ret_c None
       | Some d \<Rightarrow> bind_c (ffi_batch h handle bs) (\<lambda>ds. ret_c (map_option (\<lambda>ds. d # ds) ds)))"

definition one_line :: "ustr \<Rightarrow> ustr" where
  "one_line b = map (\<lambda>c. if c = 10 \<or> c = 13 then 32 else c) b"

definition batch_payload :: "ustr list \<Rightarrow> ustr" where
  "batch_payload bs = concat (map (\<lambda>b. one_line b @ [10]) bs)"

text \<open>The lines of the output that are result objects; \<open>splitlines\<close> also splits at \<open>U+0085\<close>.\<close>

fun process_rows :: "string list \<Rightarrow> exc + pydict list" where
  "process_rows [] = Inr []"
| "process_rows (l # ls) =
     (let t = strip l in
      if t = [] then process_rows ls
      else case json_loads t of
             Inl e \<Rightarrow> if e = JSONDecodeError then process_rows ls else Inl e
           | Inr (PDict d) \<Rightarrow>
               if status_ok d then bind_res (process_rows ls) (\<lambda>ds. Inr (d # ds)) else process_rows ls
           | Inr _ \<Rightarrow> process_rows ls)"

definition process_batch :: "c_host \<Rightarrow> string \<Rightarrow> ustr list \<Rightarrow> exc + pydict list" where
  "process_batch h path bs =
     (case locate_binary h of
        None \<Rightarrow> Inr []
      | Some p \<Rightarrow>
          (case ch_run h [p, ''match'', path] (batch_payload bs) of
             Ran _ out \<Rightarrow> process_rows (splitlines out)
           | _ \<Rightarrow> Inr []))"

definition fallback_batch :: "c_host \<Rightarrow> string \<Rightarrow> ustr list \<Rightarrow> exc + scan_row list" where
  "fallback_batch h path bs =
     bind_res (python_fallback bs (ch_text h path)) (\<lambda>rs. Inr (map Python_row rs))"

definition batch_without_library :: "c_host \<Rightarrow> string \<Rightarrow> ustr list \<Rightarrow> exc + scan_row list" where
  "batch_without_library h path bs =
     bind_res (process_batch h path bs) (\<lambda>ds.
       if ds \<noteq> [] then Inr (map Native_row ds) else fallback_batch h path bs)"

definition scan_banners :: "c_host \<Rightarrow> string \<Rightarrow> ustr list \<Rightarrow> scan_row list cm" where
  "scan_banners h path bs =
     (if bs = [] \<or> \<not> ch_exists h path then ret_c []
      else
        bind_c (ffi_available h) (\<lambda>ffi.
        bind_c (if ffi then open_signatures h path else ret_c None) (\<lambda>handle.
        bind_c (case handle of None \<Rightarrow> ret_c None | Some hdl \<Rightarrow> ffi_batch h hdl bs) (\<lambda>native.
          case native of
            Some ds \<Rightarrow> ret_c (map Native_row ds)
          | None \<Rightarrow> lift_c (batch_without_library h path bs)))))"

section \<open>Digests\<close>

definition python_digests :: "ustr \<Rightarrow> exc + pyval \<times> pyval \<times> pyval" where
  "python_digests b =
     bind_res (fnv1a32_py b) (\<lambda>x. bind_res (fnv1a64_py b) (\<lambda>y. bind_res (crc32_py b) (\<lambda>z.
       Inr (PStr (show_hex0 8 x), PStr (show_hex0 16 y), PStr (show_hex0 8 z)))))"

text \<open>The answer of the executable; a failure of any kind is None.\<close>

definition process_digests :: "c_host \<Rightarrow> ustr \<Rightarrow> exc + (pyval \<times> pyval \<times> pyval) option" where
  "process_digests h banner =
     (case locate_binary h of
        None \<Rightarrow> Inr None
      | Some p \<Rightarrow>
          (case ch_run h [p, ''fp''] (banner @ [10]) of
             Ran _ out \<Rightarrow>
               (case json_loads (if strip out \<noteq> [] then strip out else ''{}'') of
                  Inl e \<Rightarrow> if is_value_error e then Inr None else Inl e
                | Inr (PDict d) \<Rightarrow>
                    if \<not> status_ok d then Inr None
                    else Inr (case (dict_get d ''fp_fnv1a32'', dict_get d ''fp_fnv1a64'', dict_get d ''fp_crc32'') of
                                (Some a, Some b, Some c) \<Rightarrow> Some (a, b, c)
                              | _ \<Rightarrow> None)
                | Inr _ \<Rightarrow> Inr None)
           | _ \<Rightarrow> Inr None))"

definition c_fingerprint :: "c_host \<Rightarrow> ustr \<Rightarrow> (pyval \<times> pyval \<times> pyval) cm" where
  "c_fingerprint h banner =
     bind_c (ffi_available h) (\<lambda>ffi.
     bind_c (if ffi then ffi_fingerprint h banner else ret_c None) (\<lambda>inproc.
       case inproc of
         Some r \<Rightarrow> ret_c r
       | None \<Rightarrow>
           bind_c (lift_c (process_digests h banner)) (\<lambda>native.
             case native of Some r \<Rightarrow> ret_c r | None \<Rightarrow> lift_c (python_digests banner))))"

section \<open>Facts\<close>

lemma bind_c_Inr: "bind_c m f c = (Inr y, c') \<longleftrightarrow> (\<exists>x c1. m c = (Inr x, c1) \<and> f x c1 = (Inr y, c'))"
  by (auto simp: bind_c_def split: prod.splits sum.splits)

lemma bind_c_cases:
  assumes "bind_c m f c = (Inr y, c')"
  obtains x c1 where "m c = (Inr x, c1)" "f x c1 = (Inr y, c')"
  using assms by (auto simp: bind_c_Inr)

lemma ret_c_simp [simp]: "ret_c x c = (Inr y, c') \<longleftrightarrow> y = x \<and> c' = c"
  by (auto simp: ret_c_def)

lemma lift_c_simp [simp]: "lift_c r c = (Inr y, c') \<longleftrightarrow> r = Inr y \<and> c' = c"
  by (auto simp: lift_c_def)

lemma settle_simp [simp]:
  "settle b why c = (Inr y, c') \<longleftrightarrow> y = b \<and> c' = c\<lparr>probe_result := Some b, probe_reason := why\<rparr>"
  by (auto simp: settle_def)

lemma describe_ne [simp]: "describe_startup_failure e \<noteq> []"
  by (simp add: describe_startup_failure_def)

lemma or_text_ne: "b \<noteq> [] \<Longrightarrow> or_text a b \<noteq> []"
  by (simp add: or_text_def)

lemma version_probe_verdict:
  assumes "version_probe h p why c = (Inr b, c')"
  shows "probe_result c' = Some b \<and> (b \<longleftrightarrow> probe_reason c' = []) \<and> (b \<longleftrightarrow> (\<exists>out. ch_run h [p, ''version''] [] = Ran 0 out))"
  using assms by (cases "ch_run h [p, ''version''] []") (auto simp: version_probe_def or_text_ne split: if_splits)

lemma ffi_batch_length: "ffi_batch h hdl bs c = (Inr (Some ds), c') \<Longrightarrow> length ds = length bs"
  by (induction bs arbitrary: ds c) (auto simp: bind_c_Inr eq_commute [of "Some _" "map_option _ _"] split: option.splits)

lemma ffi_match_ok: "ffi_match h hdl b c = (Inr (Some d), c') \<Longrightarrow> status_ok d"
  by (auto simp: ffi_match_def bind_c_Inr split: option.splits if_splits)

lemma ffi_batch_ok: "ffi_batch h hdl bs c = (Inr (Some ds), c') \<Longrightarrow> list_all status_ok ds"
proof (induction bs arbitrary: ds c)
  case (Cons b bs)
  then obtain d c1 ds' where "ffi_match h hdl b c = (Inr (Some d), c1)" "ffi_batch h hdl bs c1 = (Inr (Some ds'), c')"
    "ds = d # ds'"
    by (auto simp: bind_c_Inr eq_commute [of "Some _" "map_option _ _"] split: option.splits)
  then show ?case using Cons.IH ffi_match_ok by auto
qed simp

lemma process_rows_ok: "process_rows ls = Inr ds \<Longrightarrow> list_all status_ok ds"
  by (induction ls arbitrary: ds rule: process_rows.induct)
    (auto simp: Let_def bind_res_eq_Inr split: if_splits sum.splits pyval.splits)

lemma map_res_length: "map_res f xs = Inr ys \<Longrightarrow> length ys = length xs"
  by (induction xs arbitrary: ys) (auto simp: bind_res_eq_Inr)

text \<open>Every handle of the cache was opened on contents with the digest it is filed under.\<close>

definition handles_ok :: "dll \<Rightarrow> c_cache \<Rightarrow> bool" where
  "handles_ok l c \<longleftrightarrow> dict_ok (lib_handles c) \<and>
     (\<forall>path stamp hdl. dict_get (lib_handles c) path = Some (stamp, hdl) \<longrightarrow>
        (\<exists>old. stamp = hexdigest old \<and> dll_open l path old = Some hdl))"

lemma handles_ok_set:
  "handles_ok l c \<Longrightarrow> dll_open l path content = Some hdl \<Longrightarrow>
     handles_ok l (c\<lparr>lib_handles := dict_set path (hexdigest content, hdl) (lib_handles c)\<rparr>)"
  by (auto simp: handles_ok_def)

lemma handles_ok_del: "handles_ok l c \<Longrightarrow> handles_ok l (c\<lparr>lib_handles := dict_del path (lib_handles c)\<rparr>)"
  by (auto simp: handles_ok_def)

lemma open_signatures_ok:
  assumes "handles_ok l c" and "lib_cache c = Some (Some l, p)"
    and "open_signatures h path c = (Inr r, c')"
  shows "handles_ok l c' \<and> lib_cache c' = Some (Some l, p) \<and>
     (\<forall>hdl. r = Some hdl \<longrightarrow> (\<exists>old content. ch_read h path = Some content \<and>
        hexdigest old = hexdigest content \<and> dll_open l path old = Some hdl))"
proof (cases "ch_read h path")
  case None
  then show ?thesis using assms by (auto simp: open_signatures_def bind_c_def c_library_def)
next
  case (Some content)
  let ?stamp = "hexdigest content" and ?reopen = "reopen_signatures l path content"
  have reopen: "handles_ok l c2 \<and> lib_cache c2 = Some (Some l, p) \<and>
      (\<forall>hdl. x = Some hdl \<longrightarrow> dll_open l path content = Some hdl)"
    if "?reopen c1 = (Inr x, c2)" "handles_ok l c1" "lib_cache c1 = Some (Some l, p)" for c1 c2 x
    using that handles_ok_set [of l c1 path content] by (auto simp: reopen_signatures_def split: option.splits)
  have open_eq: "open_signatures h path c =
      (case dict_get (lib_handles c) path of
         None \<Rightarrow> ?reopen c
       | Some (s, hdl) \<Rightarrow> if s = ?stamp then (Inr (Some hdl), c)
           else ?reopen (c\<lparr>lib_handles := dict_del path (lib_handles c)\<rparr>))"
    using Some assms(2) by (simp add: open_signatures_def bind_c_def c_library_def)
  show ?thesis
  proof (cases "\<exists>hdl. dict_get (lib_handles c) path = Some (?stamp, hdl)")
    case True
    then obtain hdl where hdl: "dict_get (lib_handles c) path = Some (?stamp, hdl)" by blast
    then have "r = Some hdl" "c' = c" using assms(3) open_eq by auto
    moreover obtain old where "?stamp = hexdigest old" "dll_open l path old = Some hdl"
      using assms(1) hdl unfolding handles_ok_def by blast
    ultimately show ?thesis using assms Some by auto
  next
    case False
    then have "\<exists>c1. ?reopen c1 = (Inr r, c') \<and> handles_ok l c1 \<and> lib_cache c1 = Some (Some l, p)"
      using assms open_eq handles_ok_del [of l c path] by (auto split: option.splits if_splits)
    then show ?thesis using reopen Some by blast
  qed
qed

section \<open>Properties\<close>

text \<open>
  A core is never trusted when it is older than its sources. The library that is located is at least as
  new as every source file, and so is the executable unless the operator named it in the environment.
\<close>
theorem stale_core_skipped:
  assumes "src \<in> set (ch_sources h)"
  shows "(locate_library h = Some lib \<longrightarrow> ch_exists h lib \<and> ch_mtime h src \<le> ch_mtime h lib) \<and>
     (locate_binary h = Some bin \<longrightarrow> ch_exists h bin \<and>
        (ch_mtime h src \<le> ch_mtime h bin \<or> ch_env_binary h = Some bin))"
proof -
  have fresh: "ch_mtime h src \<le> ch_mtime h p" if "\<not> is_stale h p" for p
  proof -
    have "ch_mtime h src \<le> Max (set (map (ch_mtime h) (ch_sources h)))" using assms by simp
    moreover have "Max (set (map (ch_mtime h) (ch_sources h))) \<le> ch_mtime h p"
      using that assms by (auto simp: is_stale_def newest_source_def not_less split: if_splits)
    ultimately show ?thesis by (rule order_trans)
  qed
  have found: "ch_exists h p \<and> ch_mtime h src \<le> ch_mtime h p"
    if "find (\<lambda>p. ch_exists h p \<and> \<not> is_stale h p) ps = Some p" for ps p
    using that fresh by (auto simp: find_Some_iff)
  show ?thesis
    by (auto simp: locate_library_def locate_binary_def Let_def dest: found intro: fresh split: option.splits if_splits)
qed

text \<open>
  The answer about the core is always explained. On a cache without a verdict, \<open>core_available\<close>
  says yes exactly when the library passed its own checks or the executable answered a version probe with 0;
  the reason it records is empty exactly when it said yes, and asking again gives the same verdict.
\<close>
theorem availability_explained:
  assumes "probe_result c = None" and "core_available h c = (Inr b, c')"
  shows "(b \<longleftrightarrow> probe_reason c' = []) \<and> core_available h c' = (Inr b, c') \<and>
     (b \<longleftrightarrow> fst (ffi_available h c) = Inr True \<or>
        (\<exists>p out. locate_binary h = Some p \<and> ch_run h [p, ''version''] [] = Ran 0 out))"
proof -
  obtain ffi c1 where ffi: "ffi_available h c = (Inr ffi, c1)"
    and rest: "(if ffi then settle True [] else bind_c (library_reason h) (\<lambda>why.
        case locate_binary h of None \<Rightarrow> settle False (or_text why ''the native C core was not found'')
        | Some p \<Rightarrow> version_probe h p why)) c1 = (Inr b, c')"
    using assms by (auto simp: core_available_def bind_c_Inr)
  have v: "probe_result c' = Some b \<and> (b \<longleftrightarrow> probe_reason c' = []) \<and>
      (b \<longleftrightarrow> ffi \<or> (\<exists>p out. locate_binary h = Some p \<and> ch_run h [p, ''version''] [] = Ran 0 out))"
  proof (cases ffi)
    case True
    then show ?thesis using rest by simp
  next
    case False
    then obtain why c2 where r: "(case locate_binary h of None \<Rightarrow> settle False (or_text why ''the native C core was not found'')
        | Some p \<Rightarrow> version_probe h p why) c2 = (Inr b, c')"
      using rest by (auto simp: bind_c_Inr)
    show ?thesis
      using r False version_probe_verdict [of h _ why c2 b c'] by (cases "locate_binary h") (auto simp: or_text_ne)
  qed
  then have "core_available h c' = (Inr b, c')" by (simp add: core_available_def)
  then show ?thesis using v by (simp only: ffi fst_conv sum.inject) blast
qed

lemma open_history_ok:
  assumes "fold_res (\<lambda>c (path, content). case open_signatures (h\<lparr>ch_read := \<lambda>_. content\<rparr>) path c of
      (Inl e, _) \<Rightarrow> Inl e | (Inr _, c') \<Rightarrow> Inr c') c history = Inr c1"
    and "handles_ok l c" and "lib_cache c = Some (Some l, p)"
  shows "handles_ok l c1 \<and> lib_cache c1 = Some (Some l, p)"
  using assms
proof (induction history arbitrary: c)
  case (Cons o1 history)
  obtain path content where o1: "o1 = (path, content)" by fastforce
  obtain r c' where step: "open_signatures (h\<lparr>ch_read := \<lambda>_. content\<rparr>) path c = (Inr r, c')"
    and rest: "fold_res (\<lambda>c (path, content). case open_signatures (h\<lparr>ch_read := \<lambda>_. content\<rparr>) path c of
      (Inl e, _) \<Rightarrow> Inl e | (Inr _, c') \<Rightarrow> Inr c') c' history = Inr c1"
    using Cons.prems(1) by (auto simp: o1 bind_res_eq_Inr split: prod.splits sum.splits)
  from open_signatures_ok [OF Cons.prems(2,3) step] rest show ?case by (intro Cons.IH) auto
qed simp

text \<open>
  A handle never belongs to other signatures. Start without handles and open signature files in any
  order while their contents change: every handle returned was opened by the library on contents with the
  same SHA-256 digest as the file has at that moment.
\<close>
theorem signatures_never_stale:
  assumes "lib_handles c = []" and "lib_cache c = Some (Some l, p)"
    and "fold_res (\<lambda>c (path, content). case open_signatures (h\<lparr>ch_read := \<lambda>_. content\<rparr>) path c of
           (Inl e, _) \<Rightarrow> Inl e | (Inr _, c') \<Rightarrow> Inr c') c history = Inr c1"
    and "open_signatures (h\<lparr>ch_read := \<lambda>_. Some content\<rparr>) path c1 = (Inr (Some hdl), c2)"
  shows "\<exists>old. hexdigest old = hexdigest content \<and> dll_open l path old = Some hdl"
proof -
  have "handles_ok l c" using assms(1) by (simp add: handles_ok_def)
  note ok = open_history_ok [OF assms(3) this assms(2)]
  from open_signatures_ok [OF conjunct1 [OF ok] conjunct2 [OF ok] assms(4)] show ?thesis by auto
qed

text \<open>The bytes of a Latin-1 text, and what an object printed as JSON is read back as.\<close>

definition text_bytes :: "string \<Rightarrow> bytes" where
  "text_bytes s = concat (map utf8_char (map of_char s))"

lemma decode_object_text:
  assumes "json_ok (PDict d)"
  shows "decode_object (text_bytes (json_dumps True None (PDict d))) = Inr (Some d)"
proof -
  have "latin1 (map of_char s) = Inr s" for s
  proof -
    have "of_char c < (256 :: nat)" for c by (rule nat_of_char_less_256)
    then show ?thesis by (simp add: latin1_def list_all_iff)
  qed
  then show ?thesis using json_roundtrip [OF assms] by (simp add: decode_object_def text_bytes_def utf8_decode_latin del: map_map)
qed

definition sample_dll :: dll where
  "sample_dll =
     \<lparr>dll_missing = None, dll_version = None, dll_open = (\<lambda>_ content. Some (length content)), dll_match = (\<lambda>_ _. None),
      dll_fp = (\<lambda>_. Some (text_bytes (json_dumps True None (PDict [(''status'', PStr ''ok'')])))),
      dll_selftest = Some (text_bytes (json_dumps True None (PDict [(''status'', PStr ''ok''), (''failures'', PInt 0)])))\<rparr>"

definition sample_c_host :: c_host where
  "sample_c_host =
     \<lparr>ch_exists = (\<lambda>_. True), ch_mtime = (\<lambda>_. 0), ch_sources = [''main.c''], ch_read = (\<lambda>_. Some [1]),
      ch_text = (\<lambda>_. Some []), ch_env_binary = None, ch_env_library = None, ch_binaries = [''core''],
      ch_libraries = [''lib''], ch_load = (\<lambda>_. Inr sample_dll), ch_run = (\<lambda>_ _. Ran 1 [])\<rparr>"

text \<open>Without a library the probe says no.\<close>

lemma no_cache_simps [simp]:
  "probe_result no_cache = None" "probe_ffi no_cache = None" "probe_ffi_reason no_cache = []"
  "lib_cache no_cache = None" "lib_handles no_cache = []"
  by (simp_all add: no_cache_def)

lemma no_library_ffi:
  "locate_library h = None \<Longrightarrow> ffi_available h no_cache =
     (Inr False, no_cache\<lparr>lib_cache := Some (None, None, ''the native shared library was not found''), probe_ffi := Some False\<rparr>)"
  by (simp add: ffi_available_def no_cache_def bind_c_def c_library_def load_library_def)

definition loaded_cache :: c_cache where
  "loaded_cache = no_cache\<lparr>lib_cache := Some (Some sample_dll, Some ''lib'', [])\<rparr>"

theorem signatures_never_stale_witness:
  "\<exists>old. hexdigest old = hexdigest [1, 2] \<and> dll_open sample_dll ''s'' old = Some 2"
proof (rule signatures_never_stale)
  show "lib_handles loaded_cache = []" "lib_cache loaded_cache = Some (Some sample_dll, Some ''lib'', [])"
    by (simp_all add: loaded_cache_def no_cache_def)
  show "fold_res (\<lambda>c (path, content). case open_signatures (sample_c_host\<lparr>ch_read := \<lambda>_. content\<rparr>) path c of
      (Inl e, _) \<Rightarrow> Inl e | (Inr _, c') \<Rightarrow> Inr c') loaded_cache [] = Inr loaded_cache"
    by simp
  show "open_signatures (sample_c_host\<lparr>ch_read := \<lambda>_. Some [1, 2]\<rparr>) ''s'' loaded_cache =
      (Inr (Some 2), loaded_cache\<lparr>lib_handles := [(''s'', hexdigest [1, 2], 2)]\<rparr>)"
    by (simp add: open_signatures_def bind_c_def c_library_def loaded_cache_def no_cache_def
        reopen_signatures_def sample_dll_def)
qed

theorem stale_core_skipped_witness:
  "locate_library sample_c_host = Some ''lib'' \<and> ch_mtime sample_c_host ''main.c'' \<le> ch_mtime sample_c_host ''lib''"
proof -
  have l: "locate_library sample_c_host = Some ''lib''" by code_simp
  from stale_core_skipped [of "''main.c''" sample_c_host "''lib''"] l show ?thesis by (simp add: sample_c_host_def)
qed

theorem availability_explained_witness:
  "\<exists>b c. core_available (sample_c_host\<lparr>ch_exists := \<lambda>_. False\<rparr>) no_cache = (Inr b, c) \<and> \<not> b \<and> probe_reason c \<noteq> []"
proof -
  have "locate_library (sample_c_host\<lparr>ch_exists := \<lambda>_. False\<rparr>) = None"
    "locate_binary (sample_c_host\<lparr>ch_exists := \<lambda>_. False\<rparr>) = None"
    by code_simp+
  then have "\<exists>c. core_available (sample_c_host\<lparr>ch_exists := \<lambda>_. False\<rparr>) no_cache = (Inr False, c)"
    by (simp add: core_available_def no_library_ffi bind_c_def library_reason_def library_present_def c_library_def
        lib_path_def settle_def ret_c_def)
  then obtain b c where c: "core_available (sample_c_host\<lparr>ch_exists := \<lambda>_. False\<rparr>) no_cache = (Inr b, c)" "\<not> b"
    by blast
  moreover have "probe_result no_cache = None" by (simp add: no_cache_def)
  ultimately show ?thesis using availability_explained [of no_cache] by blast
qed

text \<open>
  One backend serves a batch. What \<open>scan_banners\<close> returns is either the library's answers, one for
  each banner and all of status ok, or the result lines of one run of the executable, or one result of the
  Python fallback for each banner; answers are never mixed.
\<close>
theorem batch_has_one_backend:
  assumes "scan_banners h path bs c = (Inr rows, c')" and "bs \<noteq> []" and "ch_exists h path"
  shows "(\<exists>ds. rows = map Native_row ds \<and> length ds = length bs \<and> list_all status_ok ds) \<or>
     (\<exists>p n out ds. locate_binary h = Some p \<and> ch_run h [p, ''match'', path] (batch_payload bs) = Ran n out \<and>
        process_rows (splitlines out) = Inr ds \<and> ds \<noteq> [] \<and> rows = map Native_row ds) \<or>
     (\<exists>rs. python_fallback bs (ch_text h path) = Inr rs \<and> length rs = length bs \<and> rows = map Python_row rs)"
proof -
  have "bind_c (ffi_available h) (\<lambda>ffi.
      bind_c (if ffi then open_signatures h path else ret_c None) (\<lambda>handle.
      bind_c (case handle of None \<Rightarrow> ret_c None | Some hdl \<Rightarrow> ffi_batch h hdl bs) (\<lambda>native.
        case native of Some ds \<Rightarrow> ret_c (map Native_row ds) | None \<Rightarrow> lift_c (batch_without_library h path bs)))) c
      = (Inr rows, c')"
    using assms by (simp add: scan_banners_def)
  then have "(\<exists>hdl ds c0 c1. ffi_batch h hdl bs c0 = (Inr (Some ds), c1) \<and> rows = map Native_row ds) \<or>
      batch_without_library h path bs = Inr rows"
    by (elim bind_c_cases) (auto split: option.splits)
  then show ?thesis
  proof (elim disjE exE conjE)
    fix hdl ds c0 c1
    assume "ffi_batch h hdl bs c0 = (Inr (Some ds), c1)" "rows = map Native_row ds"
    then show ?thesis using ffi_batch_length ffi_batch_ok by (intro disjI1) auto
  next
    assume "batch_without_library h path bs = Inr rows"
    then obtain ds where ds: "process_batch h path bs = Inr ds"
      and r: "if ds \<noteq> [] then rows = map Native_row ds else fallback_batch h path bs = Inr rows"
      by (auto simp: batch_without_library_def bind_res_eq_Inr split: if_splits)
    show ?thesis
    proof (cases "ds = []")
      case True
      then obtain rs where "python_fallback bs (ch_text h path) = Inr rs" "rows = map Python_row rs"
        using r by (auto simp: fallback_batch_def bind_res_eq_Inr)
      moreover from this(1) have "length rs = length bs"
        unfolding python_fallback_def Let_def by (rule map_res_length)
      ultimately show ?thesis by blast
    next
      case False
      then show ?thesis using r ds by (auto simp: process_batch_def split: option.splits run_result.splits)
    qed
  qed
qed

definition no_core_host :: c_host where
  "no_core_host = sample_c_host\<lparr>ch_libraries := [], ch_binaries := []\<rparr>"

text \<open>The executable's output for two banners, the first holding \<open>U+0085\<close>.\<close>

definition two_results :: string where
  "two_results = concat (map (\<lambda>b. ''{'' @ dump_str False ''status'' @ '': '' @ dump_str False ''ok'' @ '', '' @
     dump_str False ''banner'' @ '': '' @ dump_str False b @ ''}'' @ [lf_char]) [[CHR 0x85], ''A''])"

definition process_host :: c_host where
  "process_host = no_core_host\<lparr>ch_binaries := [''core''], ch_run := \<lambda>_ _. Ran 0 two_results\<rparr>"

lemma process_host_scan:
  "\<exists>d c. scan_banners process_host ''sigs'' [[0x85], [65]] no_cache = (Inr [Native_row d], c) \<and>
     dget d ''banner'' = PStr ''A''"
proof -
  have l: "locate_library process_host = None" "ch_exists process_host ''sigs''" by code_simp+
  have "case process_batch process_host ''sigs'' [[0x85], [65]] of Inl _ \<Rightarrow> False
    | Inr ds \<Rightarrow> length ds = 1 \<and> dget (hd ds) ''banner'' = PStr ''A''"
    by code_simp
  then obtain d where "process_batch process_host ''sigs'' [[0x85], [65]] = Inr [d]" "dget d ''banner'' = PStr ''A''"
    by (auto simp: length_Suc_conv split: sum.splits)
  then show ?thesis
    using l by (simp add: scan_banners_def bind_c_def no_library_ffi ret_c_def lift_c_def batch_without_library_def)
qed

theorem batch_has_one_backend_witness:
  "\<exists>d c p n out. scan_banners process_host ''sigs'' [[0x85], [65]] no_cache = (Inr [Native_row d], c) \<and>
     ch_run process_host [p, ''match'', ''sigs''] (batch_payload [[0x85], [65]]) = Ran n out \<and>
     process_rows (splitlines out) = Inr [d]"
proof -
  obtain d c where s: "scan_banners process_host ''sigs'' [[0x85], [65]] no_cache = (Inr [Native_row d], c)"
    using process_host_scan by blast
  have "ch_exists process_host ''sigs''" by code_simp
  from batch_has_one_backend [OF s _ this] s show ?thesis by (auto simp: length_Suc_conv)
qed

text \<open>
  A batch can lose a banner. The executable prints one JSON object per line; \<open>splitlines\<close> also splits
  at \<open>U+0085\<close>, which JSON does not escape, so the result of a banner containing it is dropped and the
  results that are left stand for other banners than their positions say.
\<close>
theorem process_batch_drops_banner:
  "\<exists>h rows c. scan_banners h ''sigs'' [[0x85], [65]] no_cache = (Inr rows, c) \<and> length rows = 1 \<and>
     (case hd rows of Native_row d \<Rightarrow> dget d ''banner'' = PStr ''A'' | Python_row _ \<Rightarrow> False)"
proof -
  obtain d c where "scan_banners process_host ''sigs'' [[0x85], [65]] no_cache = (Inr [Native_row d], c)"
    "dget d ''banner'' = PStr ''A''"
    using process_host_scan by blast
  then show ?thesis by (intro exI conjI) auto
qed

text \<open>
  An incomplete answer of the library escapes. A fingerprint answer of status ok without a digest makes
  \<open>fingerprint\<close> raise a \<open>KeyError\<close> although both other front ends could still answer.
\<close>
theorem ffi_fingerprint_raises:
  "\<exists>h k. fst (c_fingerprint h [65] no_cache) = Inl (KeyError k)"
proof (intro exI)
  have l: "load_library sample_c_host = (Some sample_dll, Some ''lib'', [])"
    by (simp add: load_library_def locate_library_def is_stale_def newest_source_def sample_c_host_def sample_dll_def)
  have "json_ok (PDict [(''status'', PStr ''ok''), (''failures'', PInt 0)])" "json_ok (PDict [(''status'', PStr ''ok'')])"
    by code_simp+
  note d = decode_object_text [OF this(1)] decode_object_text [OF this(2)]
  obtain st fp where raw: "dll_selftest sample_dll = Some st" "dll_fp sample_dll [65] = Some fp"
    and "decode_object st = Inr (Some [(''status'', PStr ''ok''), (''failures'', PInt 0)])"
    and "decode_object fp = Inr (Some [(''status'', PStr ''ok'')])"
    using d by (simp add: sample_dll_def)
  moreover have "utf8_encode [65] = Inr [65]" by (simp add: utf8_encode_def is_surrogate_def utf8_char_def)
  ultimately show "fst (c_fingerprint sample_c_host [65] no_cache) = Inl (KeyError ''fp_fnv1a32'')"
    by (simp add: c_fingerprint_def ffi_available_def c_library_def l bind_c_def ffi_selftest_def lift_c_def
        status_ok_def dget_def no_failures_def dget_or_def int_of_pyval_def ffi_fingerprint_def dindex_def ret_c_def)
qed

end
