(* ===== verification/GoBridge.thy ===== *)
theory GoBridge
  imports CBridge Probe
begin

text \<open>
  \<open>modules/discovery/goscan_bridge.py\<close>: the bridge to the Go scanner. The binary is outside the
  program; what a call meets of it (whether it starts, what it answers, how it exits) is a record of
  the call. The worker process, the request counter, the checks on an answer, the one-shot fallback and
  \<open>LAST_ERROR\<close> are modelled. Strings are Latin-1; messages keep their fixed part and the text of the
  exception they quote.
\<close>

section \<open>Errors and rows\<close>

text \<open>\<open>GoscanError\<close> is a class of the bridge; everything else is an exception of the interpreter.\<close>

datatype go_exc = GoscanError string | Raised exc

definition or_empty :: "pyval \<Rightarrow> pyval" where
  "or_empty v = (if truthy v then v else PStr [])"

definition banner_of :: "pydict \<Rightarrow> string" where
  "banner_of d = (case dget_or d ''banner'' (PStr []) of PStr s \<Rightarrow> guard s | _ \<Rightarrow> guard [])"

text \<open>The row both paths make of a record the scanner reported.\<close>

definition go_row :: "string \<Rightarrow> pydict \<Rightarrow> pydict" where
  "go_row tgt d =
     [(''module'', PStr ''discovery''), (''host'', PStr tgt), (''port'', dget d ''port''),
      (''service'', or_empty (dget d ''service'')), (''banner'', PStr (banner_of d)),
      (''latency_ms'', dget d ''latency_ms''), (''time'', dget_or d ''time'' (PStr [])),
      (''open'', PBool True), (''source'', PStr ''native(Go-Goroutines-NDJSON)'')]"

text \<open>\<open>isinstance(port, int) and 1 <= port <= 65535\<close>; a Boolean is an int.\<close>

definition port_ok :: "pyval \<Rightarrow> bool" where
  "port_ok v = (case v of PInt i \<Rightarrow> 1 \<le> i \<and> i \<le> 65535 | PBool b \<Rightarrow> b | _ \<Rightarrow> False)"

fun open_record :: "pyval \<Rightarrow> pydict option" where
  "open_record (PDict d) = (if truthy (dget d ''open'') then Some d else None)"
| "open_record _ = None"

definition serve_rows :: "string \<Rightarrow> pyval list \<Rightarrow> pydict list" where
  "serve_rows tgt results =
     map (go_row tgt) (filter (\<lambda>d. port_ok (dget d ''port'')) (List.map_filter open_record results))"

section \<open>The long-lived worker\<close>

record worker =
  wk_running :: bool
  wk_bin :: string
  wk_seq :: int

definition new_worker :: worker where
  "new_worker = \<lparr>wk_running = False, wk_bin = [], wk_seq = 0\<rparr>"

text \<open>
  What one call meets: the configured binary, whether a process already running is still alive, an
  exception of \<open>Popen\<close>, whether the pipes are there, an exception of the write, and the line read
  before the deadline (None when the deadline passes, the empty line at the end of the stream).
\<close>

record serve_turn =
  turn_bin :: string
  turn_alive :: bool
  turn_spawn :: "exc option"
  turn_pipes :: bool
  turn_write :: "exc option"
  turn_line :: "string \<Rightarrow> string option"

definition stop_worker :: "worker \<Rightarrow> worker" where
  "stop_worker w = w\<lparr>wk_running := False\<rparr>"

definition start_worker :: "serve_turn \<Rightarrow> worker \<Rightarrow> exc option \<times> worker" where
  "start_worker turn w =
     (case turn_spawn turn of
        Some e \<Rightarrow> (Some e, w)
      | None \<Rightarrow> (None, \<lparr>wk_running = True, wk_bin = turn_bin turn, wk_seq = 0\<rparr>))"

definition ensure_worker :: "serve_turn \<Rightarrow> worker \<Rightarrow> exc option \<times> worker" where
  "ensure_worker turn w =
     (if \<not> wk_running w \<or> \<not> turn_alive turn \<or> wk_bin w \<noteq> turn_bin turn
      then start_worker turn (stop_worker w) else (None, w))"

definition serve_request :: "int \<Rightarrow> string \<Rightarrow> string \<Rightarrow> string" where
  "serve_request n tgt port_arg =
     json_dumps True None
       (PDict [(''id'', PInt n), (''target'', PStr tgt), (''ports'', PStr port_arg)]) @ [lf_char]"

text \<open>What an answer amounts to, and whether the process is stopped for it.\<close>

definition serve_answer :: "string \<Rightarrow> int \<Rightarrow> string \<Rightarrow> (go_exc + pydict list) \<times> bool" where
  "serve_answer tgt n line =
     (case json_loads line of
        Inl e \<Rightarrow> if e = JSONDecodeError then (Inl (GoscanError ''Go serve worker sent invalid JSON''), True)
                 else (Inl (Raised e), False)
      | Inr (PDict reply) \<Rightarrow>
          if \<not> eq_int (dget reply ''id'') n
          then (Inl (GoscanError ''Go serve worker answered a different request''), True)
          else if truthy (dget reply ''error'')
          then (case py_str (dget reply ''error'') of
                  Inl e \<Rightarrow> (Inl (Raised e), False)
                | Inr m \<Rightarrow> (Inl (GoscanError (''Go serve worker failed: '' @ m)), False))
          else (case dget reply ''results'' of
                  PList results \<Rightarrow> (Inr (serve_rows tgt results), False)
                | _ \<Rightarrow> (Inl (GoscanError ''Go serve worker sent a non-list results field''), True))
      | Inr _ \<Rightarrow> (Inl (GoscanError ''Go serve worker sent a non-object response''), True))"

definition exchange :: "serve_turn \<Rightarrow> string \<Rightarrow> string \<Rightarrow> int \<Rightarrow> (go_exc + pydict list) \<times> bool" where
  "exchange turn tgt port_arg n =
     (case turn_write turn of
        Some e \<Rightarrow>
          if is_os_error e \<or> is_value_error e
          then (Inl (GoscanError (''Go serve worker refused the request: '' @ exc_message e)), True)
          else (Inl (Raised e), False)
      | None \<Rightarrow>
          (case turn_line turn (serve_request n tgt port_arg) of
             None \<Rightarrow> (Inl (GoscanError ''Go serve worker timed out''), True)
           | Some line \<Rightarrow>
               if line = [] then (Inl (GoscanError ''Go serve worker exited without a response''), True)
               else serve_answer tgt n line))"

definition worker_scan ::
  "serve_turn \<Rightarrow> string \<Rightarrow> string \<Rightarrow> worker \<Rightarrow> (go_exc + pydict list) \<times> worker" where
  "worker_scan turn tgt port_arg w =
     (case ensure_worker turn w of
        (Some e, w1) \<Rightarrow> (Inl (Raised e), w1)
      | (None, w1) \<Rightarrow>
          if \<not> turn_pipes turn then (Inl (GoscanError ''Go serve worker did not start''), w1)
          else
            let w2 = w1\<lparr>wk_seq := wk_seq w1 + 1\<rparr>; (r, stop) = exchange turn tgt port_arg (wk_seq w2)
            in (r, if stop then stop_worker w2 else w2))"

section \<open>The bridge's state\<close>

record go_state =
  gs_worker :: worker
  gs_error :: "string option"

definition close_worker :: "go_state \<Rightarrow> go_state" where
  "close_worker st = st\<lparr>gs_worker := stop_worker (gs_worker st)\<rparr>"

definition not_found :: "string \<Rightarrow> string" where
  "not_found path = ''Go core binary not found at '' @ path"

definition go_exc_name :: "go_exc \<Rightarrow> string" where
  "go_exc_name e = (case e of GoscanError _ \<Rightarrow> ''GoscanError'' | Raised x \<Rightarrow> exc_name x)"

definition go_exc_message :: "go_exc \<Rightarrow> string" where
  "go_exc_message e = (case e of GoscanError m \<Rightarrow> m | Raised x \<Rightarrow> exc_message x)"

text \<open>A failure with a reason: raised in strict mode, an empty result otherwise.\<close>

definition give_up ::
  "bool \<Rightarrow> string \<Rightarrow> pydict list \<Rightarrow> go_state \<Rightarrow> (go_exc + pydict list) \<times> go_state" where
  "give_up strict m rows st =
     (if strict then Inl (GoscanError m) else Inr rows, st\<lparr>gs_error := Some m\<rparr>)"

definition run_go_scan_persistent ::
  "bool \<Rightarrow> serve_turn \<Rightarrow> string \<Rightarrow> string \<Rightarrow> bool \<Rightarrow> go_state \<Rightarrow> (go_exc + pydict list) \<times> go_state" where
  "run_go_scan_persistent exists turn tgt port_arg strict st =
     (let st = st\<lparr>gs_error := None\<rparr> in
      if \<not> exists then give_up strict (not_found (turn_bin turn)) [] st
      else case worker_scan turn tgt port_arg (gs_worker st) of (r, w) \<Rightarrow>
        let st = st\<lparr>gs_worker := w\<rparr> in
        case r of
          Inr rows \<Rightarrow> (Inr rows, st)
        | Inl (GoscanError m) \<Rightarrow> give_up strict m [] st
        | Inl (Raised e) \<Rightarrow>
            if is_os_error e
            then give_up strict (''Go serve worker could not be executed: '' @ exc_message e) [] st
            else (Inl (Raised e), st))"

section \<open>The one-shot process\<close>

text \<open>
  What a run of the binary does: an exception of its start, what reading its two streams line by line
  gives (a line, or an exception that ends the reading), its exit code, and what the attached mutation
  engine raises on an envelope.
\<close>

record oneshot =
  os_spawn :: "exc option"
  os_out :: "(exc + string) list"
  os_err :: "(exc + string) list"
  os_exit :: int
  os_adapt :: "pydict \<Rightarrow> exc option"

fun drain_out :: "string \<Rightarrow> (exc + string) list \<Rightarrow> pydict list \<Rightarrow> exc option \<times> pydict list" where
  "drain_out tgt [] rows = (None, rows)"
| "drain_out tgt (Inl e # ls) rows = (Some e, rows)"
| "drain_out tgt (Inr line # ls) rows =
     (let t = strip line in
      if t = [] then drain_out tgt ls rows
      else case json_loads t of
             Inl e \<Rightarrow> if e = JSONDecodeError then drain_out tgt ls rows else (Some e, rows)
           | Inr v \<Rightarrow> (case open_record v of
                         None \<Rightarrow> drain_out tgt ls rows
                       | Some d \<Rightarrow> drain_out tgt ls (rows @ [go_row tgt d])))"

fun drain_errors ::
  "(pydict \<Rightarrow> exc option) \<Rightarrow> (exc + string) list \<Rightarrow> pydict list \<Rightarrow> exc option \<times> pydict list" where
  "drain_errors adapt [] envs = (None, envs)"
| "drain_errors adapt (Inl e # ls) envs = (Some e, envs)"
| "drain_errors adapt (Inr line # ls) envs =
     (case parse_envelope (Some (strip line)) of
        Inl e \<Rightarrow> (Some e, envs)
      | Inr None \<Rightarrow> drain_errors adapt ls envs
      | Inr (Some d) \<Rightarrow>
          (case adapt d of
             Some e \<Rightarrow> (Some e, envs @ [d])
           | None \<Rightarrow> drain_errors adapt ls (envs @ [d])))"

definition exit_reason :: "int \<Rightarrow> pydict list \<Rightarrow> exc + string" where
  "exit_reason code envs =
     bind_res (case envs of [] \<Rightarrow> Inr [] | d # _ \<Rightarrow> py_str (dget_or d ''message'' (PStr []))) (\<lambda>m.
       Inr (strip (''Go core exited '' @ show_int code @ '': '' @ m)))"

definition failed_with :: "exc \<Rightarrow> string" where
  "failed_with e =
     (if is_os_error e then ''Go core could not be executed: '' @ exc_message e
      else ''Go core failed: '' @ exc_name e @ '': '' @ exc_message e)"

definition run_go_scan_async ::
  "bool \<Rightarrow> string \<Rightarrow> oneshot \<Rightarrow> string \<Rightarrow> bool \<Rightarrow> go_state \<Rightarrow> (go_exc + pydict list) \<times> go_state" where
  "run_go_scan_async exists path run tgt strict st =
     (let st = st\<lparr>gs_error := None\<rparr> in
      if \<not> exists then give_up strict (not_found path) [] st
      else case os_spawn run of
        Some e \<Rightarrow> give_up strict (failed_with e) [] st
      | None \<Rightarrow>
      case drain_out tgt (os_out run) [] of
        (Some e, rows) \<Rightarrow> give_up strict (failed_with e) rows st
      | (None, rows) \<Rightarrow>
      case drain_errors (os_adapt run) (os_err run) [] of
        (Some e, _) \<Rightarrow> give_up strict (failed_with e) rows st
      | (None, envs) \<Rightarrow>
      if os_exit run = 0 then (Inr rows, st)
      else case exit_reason (os_exit run) envs of
        Inl e \<Rightarrow> (Inl (Raised e), st)
      | Inr m \<Rightarrow> give_up strict m rows st)"

text \<open>
  \<open>run_go_scan\<close>: the worker first, then the one-shot process. \<open>no_loop\<close> is what
  \<open>asyncio.run\<close> raises before it runs anything (when a loop is already running).
\<close>

definition caught_from_worker :: "go_exc \<Rightarrow> bool" where
  "caught_from_worker e = (case e of GoscanError _ \<Rightarrow> True | Raised x \<Rightarrow> is_os_error x)"

definition run_go_scan ::
  "bool \<Rightarrow> serve_turn \<Rightarrow> exc option \<Rightarrow> oneshot \<Rightarrow> string \<Rightarrow> string \<Rightarrow> bool \<Rightarrow> go_state \<Rightarrow>
     (go_exc + pydict list) \<times> go_state" where
  "run_go_scan exists turn no_loop run tgt port_arg strict st =
     (let (r, w) = (if exists then worker_scan turn tgt port_arg (gs_worker st)
                    else (Inl (GoscanError []), gs_worker st));
          st1 = st\<lparr>gs_worker := w\<rparr>
      in case r of
           Inr rows \<Rightarrow> (Inr rows, st1\<lparr>gs_error := None\<rparr>)
         | Inl e \<Rightarrow>
             if \<not> caught_from_worker e then (Inl e, st1)
             else case no_loop of
               None \<Rightarrow> run_go_scan_async exists (turn_bin turn) run tgt strict st1
             | Some x \<Rightarrow>
                 give_up strict
                   (''Go core failed: '' @ exc_name x @ '': '' @ exc_message x @
                    (if exists then ''; persistent worker: '' @ go_exc_name e @ '': '' @ go_exc_message e else []))
                   [] st1)"

text \<open>How \<open>core/accel.py\<close> calls the bridge: strictly, reading \<open>LAST_ERROR\<close> afterwards.\<close>

definition accel_run_go ::
  "serve_turn \<Rightarrow> exc option \<Rightarrow> oneshot \<Rightarrow> go_state \<Rightarrow> string \<Rightarrow> string \<Rightarrow> exc + (pydict list \<times> string)" where
  "accel_run_go turn no_loop run st tgt port_arg =
     (case run_go_scan True turn no_loop run tgt port_arg True st of
        (Inl (GoscanError m), _) \<Rightarrow> Inl (RuntimeError m)
      | (Inl (Raised e), _) \<Rightarrow> Inl e
      | (Inr rows, st') \<Rightarrow> Inr (rows, case gs_error st' of None \<Rightarrow> [] | Some m \<Rightarrow> m))"

section \<open>Version and self test\<close>

definition go_core_version :: "bool \<Rightarrow> run_result \<Rightarrow> string" where
  "go_core_version exists c =
     (if \<not> exists then ''unavailable''
      else case c of
        Run_failed _ \<Rightarrow> ''unavailable''
      | Run_refused _ \<Rightarrow> ''unavailable''
      | Ran code out \<Rightarrow>
          if code \<noteq> 0 then ''unknown''
          else if strip out \<noteq> [] then strip out else ''unknown'')"

text \<open>The report is the last line; a refused start is passed on (\<open>Inl\<close> in the result).\<close>

definition go_selftest :: "bool \<Rightarrow> run_result \<Rightarrow> exc + (os_failure + pydict option)" where
  "go_selftest exists c =
     (if \<not> exists then Inr (Inr None)
      else case c of
        Run_failed _ \<Rightarrow> Inr (Inr None)
      | Run_refused e \<Rightarrow> Inr (Inl e)
      | Ran code out \<Rightarrow>
          if strip out = [] then Inr (Inr None)
          else (case json_loads (last (splitlines (strip out))) of
                  Inl e \<Rightarrow> if is_value_error e then Inr (Inr None) else Inl e
                | Inr (PDict d) \<Rightarrow> Inr (Inr (Some d))
                | Inr _ \<Rightarrow> Inr (Inr None)))"

section \<open>Facts\<close>

lemma json_loads_Nil: "json_loads [] = Inl JSONDecodeError"
  by code_simp

lemma give_up_Inr: "give_up strict m rows st = (Inr r, st') \<Longrightarrow> gs_error st' = Some m"
  by (auto simp: give_up_def split: if_splits)

text \<open>The open records a one-shot run printed, whatever else it printed.\<close>

definition printed_record :: "exc + string \<Rightarrow> pydict option" where
  "printed_record l =
     (case l of Inl _ \<Rightarrow> None
      | Inr s \<Rightarrow> (case json_loads (strip s) of Inl _ \<Rightarrow> None | Inr v \<Rightarrow> open_record v))"

lemma drain_out_records:
  "drain_out tgt ls rows = (None, rows') \<Longrightarrow>
     rows' = rows @ map (go_row tgt) (List.map_filter printed_record ls)"
proof (induction tgt ls rows rule: drain_out.induct)
  case (3 tgt line ls rows)
  show ?case
  proof (cases "strip line = []")
    case True
    then show ?thesis using 3 by (simp add: printed_record_def json_loads_Nil List.map_filter_simps)
  next
    case ne: False
    show ?thesis
    proof (cases "json_loads (strip line)")
      case (Inl e)
      then show ?thesis using 3 ne by (auto simp: printed_record_def List.map_filter_simps split: if_splits)
    next
      case (Inr v)
      then show ?thesis
        using 3 ne by (cases "open_record v") (simp_all add: printed_record_def List.map_filter_simps)
    qed
  qed
qed (simp_all add: List.map_filter_simps)

text \<open>A result of the worker is the answer to the request it was sent.\<close>

lemma worker_scan_answer:
  assumes "worker_scan turn tgt ports w = (Inr rows, w')"
  shows "\<exists>line reply vs. turn_line turn (serve_request (wk_seq w') tgt ports) = Some line \<and>
     json_loads line = Inr (PDict reply) \<and> eq_int (dget reply ''id'') (wk_seq w') \<and>
     \<not> truthy (dget reply ''error'') \<and> dget reply ''results'' = PList vs \<and> rows = serve_rows tgt vs \<and>
     wk_running w'"
proof -
  obtain w1 where w1: "ensure_worker turn w = (None, w1)"
    using assms by (auto simp: worker_scan_def split: prod.splits option.splits)
  have run: "wk_running w1"
    using w1 by (auto simp: ensure_worker_def start_worker_def split: if_splits option.splits)
  let ?n = "wk_seq w1 + 1"
  obtain stop where ex: "exchange turn tgt ports ?n = (Inr rows, stop)"
    and w': "w' = (if stop then stop_worker (w1\<lparr>wk_seq := ?n\<rparr>) else w1\<lparr>wk_seq := ?n\<rparr>)"
    using assms w1 by (auto simp: worker_scan_def Let_def split: prod.splits if_splits)
  obtain line where line: "turn_line turn (serve_request ?n tgt ports) = Some line"
    and ans: "serve_answer tgt ?n line = (Inr rows, stop)"
    using ex by (auto simp: exchange_def split: option.splits if_splits)
  obtain reply where reply: "json_loads line = Inr (PDict reply)"
    using ans by (auto simp: serve_answer_def split: sum.splits pyval.splits if_splits)
  show ?thesis
    using ans reply line run w'
    by (auto simp: serve_answer_def split: if_splits sum.splits pyval.splits)
qed

text \<open>What backs a list of rows: the answer of the worker, or a complete one-shot run that exited with 0.\<close>

definition served_rows :: "serve_turn \<Rightarrow> string \<Rightarrow> string \<Rightarrow> pydict list \<Rightarrow> bool" where
  "served_rows turn tgt ports rows \<longleftrightarrow>
     (\<exists>n line reply vs. turn_line turn (serve_request n tgt ports) = Some line \<and>
        json_loads line = Inr (PDict reply) \<and> eq_int (dget reply ''id'') n \<and>
        \<not> truthy (dget reply ''error'') \<and> dget reply ''results'' = PList vs \<and> rows = serve_rows tgt vs)"

definition printed_rows :: "oneshot \<Rightarrow> string \<Rightarrow> pydict list \<Rightarrow> bool" where
  "printed_rows run tgt rows \<longleftrightarrow>
     os_spawn run = None \<and> os_exit run = 0 \<and> fst (drain_out tgt (os_out run) []) = None \<and>
     rows = map (go_row tgt) (List.map_filter printed_record (os_out run))"

lemma oneshot_answer:
  assumes "run_go_scan_async ex path run tgt strict st = (Inr rows, st')" and "gs_error st' = None"
  shows "ex \<and> printed_rows run tgt rows"
proof -
  have ex: ex and spawn: "os_spawn run = None"
    using assms by (auto simp: run_go_scan_async_def Let_def dest: give_up_Inr split: if_splits option.splits)
  then obtain rs where rs: "drain_out tgt (os_out run) [] = (None, rs)"
    using assms by (auto simp: run_go_scan_async_def Let_def dest: give_up_Inr split: prod.splits option.splits)
  then have "os_exit run = 0 \<and> rows = rs"
    using assms ex spawn
    by (auto simp: run_go_scan_async_def Let_def dest: give_up_Inr split: prod.splits option.splits if_splits sum.splits)
  then show ?thesis using ex spawn rs drain_out_records [OF rs] by (simp add: printed_rows_def)
qed

lemma go_scan_answered:
  assumes "run_go_scan ex turn no_loop run tgt ports strict st = (Inr rows, st')" and "gs_error st' = None"
  shows "ex \<and> (served_rows turn tgt ports rows \<or> printed_rows run tgt rows)"
proof (cases ex)
  case False
  then show ?thesis
    using assms oneshot_answer [of ex "turn_bin turn" run tgt strict _ rows st']
    by (auto simp: run_go_scan_def Let_def caught_from_worker_def dest: give_up_Inr split: option.splits)
next
  case True
  obtain r w where w: "worker_scan turn tgt ports (gs_worker st) = (r, w)" by fastforce
  show ?thesis
  proof (cases r)
    case (Inr rs)
    then have "rs = rows" using assms(1) True w by (simp add: run_go_scan_def)
    then show ?thesis
      using worker_scan_answer w Inr True unfolding served_rows_def by blast
  next
    case (Inl e)
    then show ?thesis
      using assms True w oneshot_answer [of ex "turn_bin turn" run tgt strict _ rows st']
      by (auto simp: run_go_scan_def Let_def dest: give_up_Inr split: option.splits if_splits)
  qed
qed

text \<open>In strict mode a result leaves no error behind.\<close>

lemma give_up_strict [simp]: "give_up True m rows st = (Inl (GoscanError m), st\<lparr>gs_error := Some m\<rparr>)"
  by (simp add: give_up_def)

lemma async_strict: "run_go_scan_async ex path run tgt True st = (Inr rows, st') \<Longrightarrow> gs_error st' = None"
  by (auto simp: run_go_scan_async_def Let_def split: if_splits option.splits prod.splits sum.splits)

lemma go_scan_strict: "run_go_scan ex turn no_loop run tgt ports True st = (Inr rows, st') \<Longrightarrow> gs_error st' = None"
  by (auto simp: run_go_scan_def Let_def dest: async_strict split: if_splits option.splits prod.splits sum.splits)

lemma go_scan_rows:
  assumes "go_scan nv (accel_run_go turn no_loop run st) host ports = Inr rows"
  shows "served_rows turn host (join_str '','' (map show_int ports)) rows \<or> printed_rows run host rows"
proof -
  let ?ps = "join_str '','' (map show_int ports)"
  obtain r st' where r: "run_go_scan True turn no_loop run host ?ps True st = (r, st')" by fastforce
  have "r = Inr rows"
    using assms r by (cases r)
      (auto simp: go_scan_def accel_run_go_def bind_res_def split: if_splits go_exc.splits option.splits)
  with r go_scan_answered [OF r [unfolded this]] go_scan_strict [OF r [unfolded this]] show ?thesis by blast
qed

text \<open>What an answer that does not stop the process can be.\<close>

definition kept_result :: "go_exc + pydict list \<Rightarrow> bool" where
  "kept_result r =
     (case r of
        Inl (GoscanError m) \<Rightarrow> startswith ''Go serve worker failed: '' m
      | Inl (Raised e) \<Rightarrow> e \<noteq> JSONDecodeError
      | Inr rows \<Rightarrow> list_all (\<lambda>row. port_ok (dget row ''port'')) rows)"

lemma serve_rows_ports: "list_all (\<lambda>row. port_ok (dget row ''port'')) (serve_rows tgt vs)"
  by (auto simp: serve_rows_def list_all_iff go_row_def dget_def)

lemma py_str_error: "py_str v = Inl e \<Longrightarrow> e = OutOfModel"
  by (cases v) auto

lemma object_answer_kept:
  assumes "serve_answer tgt n line = (r, False)" and "json_loads line = Inr (PDict reply)"
  shows "kept_result r"
proof (cases "truthy (dget reply ''error'')")
  case True
  show ?thesis
  proof (cases "py_str (dget reply ''error'')")
    case (Inl e)
    then show ?thesis
      using assms True py_str_error [OF Inl] by (auto simp: serve_answer_def kept_result_def split: if_splits)
  next
    case (Inr m)
    then show ?thesis
      using assms True by (auto simp: serve_answer_def kept_result_def startswith_def split: if_splits)
  qed
next
  case False
  then show ?thesis
    using assms by (auto simp: serve_answer_def kept_result_def serve_rows_ports split: if_splits pyval.splits)
qed

lemma serve_answer_kept:
  assumes "serve_answer tgt n line = (r, False)"
  shows "kept_result r"
proof (cases "json_loads line")
  case (Inl x)
  then show ?thesis using assms by (auto simp: serve_answer_def kept_result_def split: if_splits)
next
  case (Inr v)
  then obtain reply where "v = PDict reply" using assms by (cases v) (auto simp: serve_answer_def)
  then show ?thesis using object_answer_kept [OF assms] Inr by simp
qed

lemma exchange_kept:
  assumes "exchange turn tgt ports n = (r, False)"
  shows "kept_result r"
proof (cases "turn_write turn")
  case (Some x)
  then show ?thesis using assms by (auto simp: exchange_def kept_result_def split: if_splits)
next
  case None
  then show ?thesis using assms serve_answer_kept by (auto simp: exchange_def split: option.splits if_splits)
qed

section \<open>Properties\<close>

text \<open>
  An answer of the Go core is never made up. When a port scan reports the engine \<open>go-native\<close>, then
  its rows are either what the worker answered to exactly this request, with the request's number and no
  error, or what a run of the binary that started, could be read to its end and exited with 0 printed.
\<close>
theorem go_scan_is_answered:
  assumes "scan_ports nv (accel_run_go turn no_loop run st) connect host ports prefer = Inr out"
    and "scan_engine out = ''go-native''"
  shows "served_rows turn host (join_str '','' (map show_int ports)) (scan_rows out) \<or>
     printed_rows run host (scan_rows out)"
proof -
  let ?run = "\<lambda>b. if b = Go_core then go_scan nv (accel_run_go turn no_loop run st) host ports
    else python_scan_ports connect host ports"
  obtain order where order: "order_of [Go_core, Python_core] prefer = Inr order"
    and ne: "host \<noteq> []" "ports \<noteq> []"
    using assms by (auto simp: scan_ports_def bind_res_eq_Inr split: if_splits)
  show ?thesis
    using assms ne order
    by (cases rule: dispatch_cases [of order "backend_info_of nv" "''scan_ports''" ?run "\<lambda>_. ''does not implement scan_ports''"])
      (auto simp: scan_ports_def bind_res_eq_Inr serves_def dest: go_scan_rows split: if_splits sum.splits)
qed

definition quiet_worker :: serve_turn where
  "quiet_worker =
     \<lparr>turn_bin = ''goscan'', turn_alive = False, turn_spawn = None, turn_pipes = True, turn_write = None,
      turn_line = (\<lambda>_. Some (json_dumps True None
        (PDict [(''id'', PInt 1), (''results'', PList [PDict [(''port'', PInt 80), (''open'', PBool True)]])])))\<rparr>"

definition no_run :: oneshot where
  "no_run = \<lparr>os_spawn = Some (OSError []), os_out = [], os_err = [], os_exit = 0, os_adapt = (\<lambda>_. None)\<rparr>"

definition idle_bridge :: go_state where
  "idle_bridge = \<lparr>gs_worker = new_worker, gs_error = None\<rparr>"

definition go_only :: native where
  "go_only =
     \<lparr>c_available = False, c_note = [], c_path = [], c_scan = (\<lambda>_ _. Inr []), c_digests = (\<lambda>_. Inr ([], [], [])),
      rust_available = False, rust_match = (\<lambda>_ _. Inr []), go_available = True, go_error = []\<rparr>"

theorem go_scan_is_answered_witness:
  "\<exists>out. scan_ports go_only (accel_run_go quiet_worker None no_run idle_bridge) (\<lambda>_. Connected) ''h'' [80] None = Inr out \<and>
     scan_ports_open out = [80] \<and>
     (served_rows quiet_worker ''h'' (join_str '','' (map show_int [80])) (scan_rows out) \<or>
      printed_rows no_run ''h'' (scan_rows out))"
proof -
  have "case scan_ports go_only (accel_run_go quiet_worker None no_run idle_bridge) (\<lambda>_. Connected) ''h'' [80] None of
      Inl _ \<Rightarrow> False | Inr out \<Rightarrow> scan_engine out = ''go-native'' \<and> scan_ports_open out = [80]"
    by code_simp
  then obtain out where out:
    "scan_ports go_only (accel_run_go quiet_worker None no_run idle_bridge) (\<lambda>_. Connected) ''h'' [80] None = Inr out"
    "scan_engine out = ''go-native''" "scan_ports_open out = [80]"
    by (auto split: sum.splits)
  from go_scan_is_answered [OF out(1,2)] out show ?thesis by blast
qed

text \<open>
  The worker cannot fall out of step. A process that is still running after a call runs the configured
  binary and has been sent a fresh number: the next one of the same process, or 1. A call that fails leaves
  it running only when it reported the failure itself, or when an exception that is not about the protocol
  escaped; after any other failure it has been stopped.
\<close>
theorem worker_in_step:
  assumes "worker_scan turn tgt ports w = (r, w')" and "turn_pipes turn" and "wk_running w'"
  shows "wk_bin w' = turn_bin turn \<and>
     (wk_seq w' = 1 \<or> wk_running w \<and> turn_alive turn \<and> wk_seq w' = wk_seq w + 1) \<and>
     (case r of
        Inl (GoscanError m) \<Rightarrow> startswith ''Go serve worker failed: '' m
      | Inl (Raised e) \<Rightarrow> e \<noteq> JSONDecodeError
      | Inr rows \<Rightarrow> list_all (\<lambda>row. port_ok (dget row ''port'')) rows)"
proof -
  obtain e w1 where w1: "ensure_worker turn w = (e, w1)" by fastforce
  then have e: "e = None" and bin: "wk_bin w1 = turn_bin turn" and run: "wk_running w1"
    and n: "wk_seq w1 + 1 = 1 \<or> wk_running w \<and> turn_alive turn \<and> wk_seq w1 = wk_seq w"
    using assms by (auto simp: ensure_worker_def start_worker_def stop_worker_def worker_scan_def
        split: if_splits option.splits)
  let ?n = "wk_seq w1 + 1"
  obtain r' stop where ex: "exchange turn tgt ports ?n = (r', stop)" by fastforce
  then have "r = r'" and w': "w' = (if stop then stop_worker (w1\<lparr>wk_seq := ?n\<rparr>) else w1\<lparr>wk_seq := ?n\<rparr>)"
    using assms w1 e by (auto simp: worker_scan_def Let_def)
  moreover have "\<not> stop" using w' assms(3) by (auto simp: stop_worker_def)
  ultimately have ex: "exchange turn tgt ports ?n = (r, False)" and "w' = w1\<lparr>wk_seq := ?n\<rparr>"
    using ex by simp_all
  then have "wk_bin w' = turn_bin turn \<and> (wk_seq w' = 1 \<or> wk_running w \<and> turn_alive turn \<and> wk_seq w' = wk_seq w + 1)"
    using bin n by auto
  moreover have "kept_result r" by (rule exchange_kept [OF ex])
  ultimately show ?thesis unfolding kept_result_def by blast
qed

theorem worker_in_step_witness:
  "\<exists>rows. worker_scan quiet_worker ''h'' ''80'' new_worker =
      (Inr rows, \<lparr>wk_running = True, wk_bin = ''goscan'', wk_seq = 1\<rparr>) \<and>
    list_all (\<lambda>row. port_ok (dget row ''port'')) rows"
proof -
  have "case worker_scan quiet_worker ''h'' ''80'' new_worker of (r, w) \<Rightarrow> \<not> isl r \<and>
      w = \<lparr>wk_running = True, wk_bin = ''goscan'', wk_seq = 1\<rparr>"
    by code_simp
  then obtain rows where r: "worker_scan quiet_worker ''h'' ''80'' new_worker =
      (Inr rows, \<lparr>wk_running = True, wk_bin = ''goscan'', wk_seq = 1\<rparr>)"
    by (cases "fst (worker_scan quiet_worker ''h'' ''80'' new_worker)") (auto split: prod.splits)
  from worker_in_step [OF r] r show ?thesis by (simp add: quiet_worker_def)
qed

text \<open>
  A failure can escape a best-effort scan. When the worker answers with an integer of more digits than
  Python converts, \<open>run_go_scan\<close> raises a \<open>ValueError\<close> although it was not called strictly; neither the
  one-shot process is tried nor is \<open>LAST_ERROR\<close> set, and the worker keeps running.
\<close>
theorem worker_value_error_escapes:
  "\<exists>turn m st'. run_go_scan True turn None no_run ''h'' ''80'' False idle_bridge = (Inl (Raised (ValueError m)), st') \<and>
     gs_error st' = None \<and> wk_running (gs_worker st')"
proof (intro exI conjI)
  let ?turn = "quiet_worker\<lparr>turn_line := \<lambda>_. Some long_number\<rparr>"
  have "long_number \<noteq> []" by (simp add: long_number_Cons)
  then have "worker_scan ?turn ''h'' ''80'' new_worker =
      (Inl (Raised (ValueError ''int string too long'')), \<lparr>wk_running = True, wk_bin = ''goscan'', wk_seq = 1\<rparr>)"
    by (simp add: worker_scan_def ensure_worker_def start_worker_def new_worker_def quiet_worker_def stop_worker_def
        exchange_def serve_answer_def json_loads_long_number)
  then show "run_go_scan True ?turn None no_run ''h'' ''80'' False idle_bridge =
      (Inl (Raised (ValueError ''int string too long'')),
       \<lparr>gs_worker = \<lparr>wk_running = True, wk_bin = ''goscan'', wk_seq = 1\<rparr>, gs_error = None\<rparr>)"
    by (simp add: run_go_scan_def idle_bridge_def caught_from_worker_def)
qed simp_all

text \<open>
  The one-shot path does not check the port. A line that says open without a port makes
  \<open>scan_ports\<close> raise a \<open>TypeError\<close> instead of falling back to the socket probe.
\<close>
theorem oneshot_port_unchecked:
  "\<exists>turn run m. scan_ports go_only (accel_run_go turn None run idle_bridge) (\<lambda>_. Connected) ''h'' [80] None =
     Inl (TypeError m)"
proof (intro exI)
  show "scan_ports go_only
      (accel_run_go (quiet_worker\<lparr>turn_spawn := Some (OSError [])\<rparr>) None
        (no_run\<lparr>os_spawn := None, os_out := [Inr (json_dumps True None (PDict [(''open'', PBool True)]))]\<rparr>) idle_bridge)
      (\<lambda>_. Connected) ''h'' [80] None = Inl (TypeError ''int() argument'')"
    by code_simp
qed

end
