(* ===== verification/RustBridge.thy ===== *)
theory RustBridge
  imports Accel Findings CBridge "HOL-Library.Word"
begin

text \<open>
  \<open>core/rust_bridge.py\<close>: the bridge to the Rust library. The library's functions and the loader are
  arguments; locating the library, the encoding of what is passed, the release of every buffer that comes
  back and what is made of malformed answers are modelled. Text of the library is Latin-1.
\<close>

section \<open>The library\<close>

text \<open>
  A call may raise; a call that returns text gives an address, 0 for none. \<open>rl_text\<close> is the text at an
  address decoded with errors replaced, or what reading it raises.
\<close>

record rust_lib =
  rl_exports :: bool
  rl_version :: "exc + bytes option"
  rl_abi :: "exc + int"
  rl_check :: "exc + int"
  rl_match_lines :: "bytes \<Rightarrow> bytes \<Rightarrow> exc + nat"
  rl_match_json :: "bytes \<Rightarrow> bytes \<Rightarrow> exc + nat"
  rl_digest :: "bytes \<Rightarrow> exc + nat"
  rl_components :: "int \<Rightarrow> 32 word list \<Rightarrow> exc + nat"
  rl_centrality :: "int \<Rightarrow> 32 word list \<Rightarrow> exc + nat"
  rl_betweenness :: "int \<Rightarrow> 32 word list \<Rightarrow> exc + nat"
  rl_path :: "int \<Rightarrow> 32 word list \<Rightarrow> int \<Rightarrow> int \<Rightarrow> exc + nat"
  rl_text :: "nat \<Rightarrow> exc + string"

definition ABI_VERSION :: int where "ABI_VERSION = 2"

definition candidate_paths :: "string option \<Rightarrow> string list \<Rightarrow> string list \<Rightarrow> string list" where
  "candidate_paths override dirs names =
     (case override of Some p \<Rightarrow> if p \<noteq> [] then [p] else [] | None \<Rightarrow> []) @
     concat (map (\<lambda>d. map (\<lambda>n. d @ ''/'' @ n) names) dirs)"

text \<open>The first candidate that exists, loads and exports the interface.\<close>

fun load_rust :: "(string \<Rightarrow> bool) \<Rightarrow> (string \<Rightarrow> exc + rust_lib) \<Rightarrow> string list \<Rightarrow> exc + rust_lib option" where
  "load_rust exists dlopen [] = Inr None"
| "load_rust exists dlopen (p # ps) =
     (if \<not> exists p then load_rust exists dlopen ps
      else case dlopen p of
             Inl e \<Rightarrow> if is_os_error e then load_rust exists dlopen ps else Inl e
           | Inr l \<Rightarrow> if rl_exports l then Inr (Some l) else load_rust exists dlopen ps)"

section \<open>Plain questions\<close>

definition rust_version :: "rust_lib option \<Rightarrow> exc + string" where
  "rust_version lib =
     (case lib of
        None \<Rightarrow> Inr ''unavailable''
      | Some l \<Rightarrow>
          (case rl_version l of
             Inl e \<Rightarrow> Inr ''unknown''
           | Inr None \<Rightarrow> Inr []
           | Inr (Some raw) \<Rightarrow>
               (case utf8_decode raw of Inl _ \<Rightarrow> Inl OutOfModel | Inr u \<Rightarrow> latin1 u)))"

definition rust_abi_version :: "rust_lib option \<Rightarrow> int" where
  "rust_abi_version lib =
     (case lib of None \<Rightarrow> 0 | Some l \<Rightarrow> (case rl_abi l of Inl _ \<Rightarrow> 0 | Inr i \<Rightarrow> i))"

definition rust_selftest :: "rust_lib option \<Rightarrow> bool" where
  "rust_selftest lib =
     (case lib of None \<Rightarrow> False | Some l \<Rightarrow> (case rl_check l of Inl _ \<Rightarrow> False | Inr i \<Rightarrow> i = 0))"

section \<open>Passing and taking text\<close>

text \<open>\<open>encode("utf-8", "surrogateescape")\<close>: the low surrogates that stand for bytes become those bytes.\<close>

definition escape_encode :: "ustr \<Rightarrow> exc + bytes" where
  "escape_encode s =
     (if list_ex (\<lambda>c. is_surrogate c \<and> \<not> (0xDC80 \<le> c \<and> c \<le> 0xDCFF)) s
      then Inl (ValueError ''surrogates not allowed'')
      else Inr (concat (map (\<lambda>c. if is_surrogate c then [c - 0xDC00] else utf8_char c) s)))"

text \<open>The text of a buffer, and the addresses released: the one taken, once, whether or not it could be read.\<close>

definition take_text :: "rust_lib \<Rightarrow> nat \<Rightarrow> string \<times> nat list" where
  "take_text l raw =
     (if raw = 0 then ([], [])
      else (case rl_text l raw of Inl _ \<Rightarrow> [] | Inr s \<Rightarrow> s, [raw]))"

text \<open>A call whose result is text: the text, empty after an exception, and what was released.\<close>

definition call_text :: "rust_lib \<Rightarrow> exc + nat \<Rightarrow> string \<times> nat list" where
  "call_text l r = (case r of Inl _ \<Rightarrow> ([], []) | Inr raw \<Rightarrow> take_text l raw)"

definition edge_buffer :: "(int \<times> int) list \<Rightarrow> 32 word list" where
  "edge_buffer es = concat (map (\<lambda>(a, b). [word_of_int a, word_of_int b]) es)"

section \<open>Matching\<close>

definition join_lines :: "ustr list \<Rightarrow> ustr" where
  "join_lines ps = (case ps of [] \<Rightarrow> [] | p # rest \<Rightarrow> p @ concat (map (\<lambda>q. 10 # q) rest))"

definition both_encoded :: "ustr \<Rightarrow> ustr list \<Rightarrow> (bytes \<Rightarrow> bytes \<Rightarrow> exc + nat) \<Rightarrow> exc + nat" where
  "both_encoded text pats f =
     bind_res (escape_encode text) (\<lambda>t. bind_res (escape_encode (join_lines pats)) (\<lambda>p. f t p))"

definition match_signatures_rust :: "rust_lib option \<Rightarrow> ustr \<Rightarrow> ustr list \<Rightarrow> string list" where
  "match_signatures_rust lib text pats =
     (case lib of
        None \<Rightarrow> []
      | Some l \<Rightarrow>
          if text = [] \<or> pats = [] then []
          else filter (\<lambda>s. s \<noteq> []) (split_char lf_char (fst (call_text l (both_encoded text pats (rl_match_lines l))))))"

text \<open>Anything that is not a list, and any failure on the way, is the empty list.\<close>

definition parsed_or_none :: "string \<Rightarrow> exc + pyval option" where
  "parsed_or_none s =
     (if s = [] then Inr None
      else case json_loads s of
             Inl e \<Rightarrow> if is_value_error e then Inr None else Inl e
           | Inr v \<Rightarrow> Inr (Some v))"

definition match_json_rust :: "rust_lib option \<Rightarrow> ustr \<Rightarrow> ustr list \<Rightarrow> exc + pyval list" where
  "match_json_rust lib text pats =
     (case lib of
        None \<Rightarrow> Inr []
      | Some l \<Rightarrow>
          if text = [] \<or> pats = [] then Inr []
          else bind_res (parsed_or_none (fst (call_text l (both_encoded text pats (rl_match_json l))))) (\<lambda>v.
            Inr (case v of Some (PList vs) \<Rightarrow> vs | _ \<Rightarrow> [])))"

definition fnv1a32_rust :: "rust_lib option \<Rightarrow> ustr \<Rightarrow> string" where
  "fnv1a32_rust lib text =
     (case lib of
        None \<Rightarrow> []
      | Some l \<Rightarrow> if text = [] then [] else fst (call_text l (bind_res (escape_encode text) (rl_digest l))))"

section \<open>Graphs\<close>

definition graph_answer :: "rust_lib \<Rightarrow> exc + nat \<Rightarrow> exc + pydict option" where
  "graph_answer l r =
     bind_res (parsed_or_none (fst (call_text l r))) (\<lambda>v.
       Inr (case v of Some (PDict d) \<Rightarrow> Some d | _ \<Rightarrow> None))"

text \<open>Iterating a value: a list gives its items, the empty ones nothing, everything else is out of reach.\<close>

definition iterated :: "pyval \<Rightarrow> exc + pyval list" where
  "iterated v =
     (case v of
        PList vs \<Rightarrow> Inr vs
      | PDict d \<Rightarrow> Inr (map (\<lambda>kv. PStr (fst kv)) d)
      | PStr s \<Rightarrow> Inr (map (\<lambda>c. PStr [c]) s)
      | _ \<Rightarrow> Inl (TypeError ''object is not iterable''))"

definition item_of :: "pyval \<Rightarrow> string \<Rightarrow> exc + pyval" where
  "item_of v k = (case v of PDict d \<Rightarrow> dindex d k | _ \<Rightarrow> Inl (TypeError ''object is not subscriptable''))"

definition graph_components_rust :: "rust_lib option \<Rightarrow> int \<Rightarrow> (int \<times> int) list \<Rightarrow> exc + pyval" where
  "graph_components_rust lib n es =
     (case lib of
        None \<Rightarrow> Inr (PList [])
      | Some l \<Rightarrow>
          bind_res (graph_answer l (rl_components l n (edge_buffer es))) (\<lambda>d.
            Inr (case d of None \<Rightarrow> PList [] | Some d \<Rightarrow> dget_or d ''components'' (PList []))))"

definition centrality_row :: "pyval \<Rightarrow> exc + int \<times> rat" where
  "centrality_row row =
     bind_res (bind_res (item_of row ''node'') int_of_pyval) (\<lambda>i.
     bind_res (bind_res (item_of row ''centrality'') weight_of) (\<lambda>c. Inr (i, c)))"

definition graph_centrality_rust :: "rust_lib option \<Rightarrow> int \<Rightarrow> (int \<times> int) list \<Rightarrow> exc + (int \<times> rat) list" where
  "graph_centrality_rust lib n es =
     (case lib of
        None \<Rightarrow> Inr []
      | Some l \<Rightarrow>
          bind_res (graph_answer l (rl_centrality l n (edge_buffer es))) (\<lambda>d.
            case d of
              None \<Rightarrow> Inr []
            | Some d \<Rightarrow> bind_res (iterated (dget_or d ''ranking'' (PList []))) (map_res centrality_row)))"

definition graph_betweenness_rust :: "rust_lib option \<Rightarrow> int \<Rightarrow> (int \<times> int) list \<Rightarrow> exc + rat list" where
  "graph_betweenness_rust lib n es =
     (case lib of
        None \<Rightarrow> Inr []
      | Some l \<Rightarrow>
          bind_res (graph_answer l (rl_betweenness l n (edge_buffer es))) (\<lambda>d.
            case d of
              None \<Rightarrow> Inr []
            | Some d \<Rightarrow> bind_res (iterated (dget_or d ''values'' (PList []))) (map_res weight_of)))"

definition graph_shortest_path_rust ::
  "rust_lib option \<Rightarrow> int \<Rightarrow> (int \<times> int) list \<Rightarrow> int \<Rightarrow> int \<Rightarrow> exc + (int \<times> pyval list) option" where
  "graph_shortest_path_rust lib n es src goal =
     (case lib of
        None \<Rightarrow> Inr None
      | Some l \<Rightarrow>
          bind_res (graph_answer l (rl_path l n (edge_buffer es) src goal)) (\<lambda>d.
            case d of
              None \<Rightarrow> Inr None
            | Some d \<Rightarrow>
                if dict_get d ''error'' \<noteq> None then Inr None
                else bind_res (bind_res (dindex d ''hops'') int_of_pyval) (\<lambda>hops.
                  bind_res (iterated (dget_or d ''path'' (PList []))) (\<lambda>p. Inr (Some (hops, p))))))"

section \<open>Properties\<close>

text \<open>The pairs an edge buffer holds.\<close>

fun buffer_edges :: "32 word list \<Rightarrow> (int \<times> int) list" where
  "buffer_edges (a # b # ws) = (uint a, uint b) # buffer_edges ws"
| "buffer_edges _ = []"

text \<open>
  The edge buffer wraps. The library reads back every edge modulo 2 to the 32: indices in the range of an
  unsigned 32-bit integer arrive unchanged, every other index silently names another node.
\<close>
theorem edge_buffer_wraps:
  "buffer_edges (edge_buffer es) = map (\<lambda>(a, b). (a mod 2 ^ 32, b mod 2 ^ 32)) es \<and>
   length (edge_buffer es) = 2 * length es"
  by (induction es) (auto simp: edge_buffer_def uint_word_of_int)

end
