(* ===== verification/Bridges.thy ===== *)
theory Bridges
  imports GoBridge CBridge RustBridge
begin

text \<open>
  The bridges together under the selection policy of \<open>core/accel.py\<close>: what \<open>_c_match\<close>, \<open>_rust_match\<close> and
  \<open>_c_fingerprint\<close> make of the answers of \<open>CBridge\<close> and \<open>RustBridge\<close>, as the record of native cores that
  \<open>Accel\<close> takes as an argument.
\<close>

section \<open>Hits\<close>

text \<open>A hit of a native result: an object with a signature and a position; other items are skipped.\<close>

definition native_hit :: "pyval \<Rightarrow> exc + (ustr \<times> int) list" where
  "native_hit v =
     (case v of
        PDict d \<Rightarrow>
          (case (dict_get d ''signature'', dict_get d ''position'') of
             (Some s, Some p) \<Rightarrow> bind_res (py_str s) (\<lambda>s. bind_res (int_of_pyval p) (\<lambda>p. Inr [(map of_char s, p)]))
           | _ \<Rightarrow> Inr [])
      | _ \<Rightarrow> Inr [])"

definition native_hits :: "pyval list \<Rightarrow> exc + (ustr \<times> int) list" where
  "native_hits vs = bind_res (map_res native_hit vs) (\<lambda>hs. Inr (concat hs))"

definition row_hits :: "scan_row \<Rightarrow> exc + (ustr \<times> int) list" where
  "row_hits r =
     (case r of
        Native_row d \<Rightarrow> bind_res (iterated (dget_or d ''matches'' (PList []))) native_hits
      | Python_row s \<Rightarrow> Inr (map (\<lambda>h. (hit_signature h, hit_position h)) (scan_matches s)))"

text \<open>Reading a text file turns every line ending into a line feed.\<close>

fun newlines_after :: "bool \<Rightarrow> ustr \<Rightarrow> ustr" where
  "newlines_after cr [] = []"
| "newlines_after cr (c # s) =
     (if c = 13 then 10 # newlines_after True s
      else if c = 10 \<and> cr then newlines_after False s
      else c # newlines_after False s)"

definition universal_newlines :: "ustr \<Rightarrow> ustr" where
  "universal_newlines s = newlines_after False s"

definition sig_path :: string where "sig_path = ''accel_signatures.txt''"

text \<open>The host while the signature file of the call exists.\<close>

definition with_signatures :: "c_host \<Rightarrow> ustr \<Rightarrow> c_host" where
  "with_signatures h sigs =
     h\<lparr>ch_exists := (ch_exists h)(sig_path := True),
       ch_read := (ch_read h)(sig_path := case utf8_encode sigs of Inl _ \<Rightarrow> None | Inr bs \<Rightarrow> Some bs),
       ch_text := (ch_text h)(sig_path := Some (universal_newlines sigs))\<rparr>"

definition accel_c_scan :: "c_host \<Rightarrow> c_cache \<Rightarrow> ustr \<Rightarrow> ustr \<Rightarrow> exc + (ustr \<times> int) list" where
  "accel_c_scan h c banner sigs =
     bind_res (fst (scan_banners (with_signatures h sigs) sig_path [banner] c)) (\<lambda>rows.
       case rows of [] \<Rightarrow> Inr [] | r # _ \<Rightarrow> row_hits r)"

definition accel_c_digests :: "c_host \<Rightarrow> c_cache \<Rightarrow> ustr \<Rightarrow> exc + digests" where
  "accel_c_digests h c text =
     bind_res (fst (c_fingerprint h text c)) (\<lambda>(x, y, z).
       bind_res (py_str x) (\<lambda>x. bind_res (py_str y) (\<lambda>y. bind_res (py_str z) (\<lambda>z. Inr (x, y, z)))))"

definition accel_rust_match :: "rust_lib option \<Rightarrow> ustr \<Rightarrow> ustr list \<Rightarrow> exc + (ustr \<times> int) list" where
  "accel_rust_match lib banner pats = bind_res (match_json_rust lib banner pats) native_hits"

text \<open>The native cores as the bridges present them, after the availability probe of the C core.\<close>

definition answered :: "(exc + 'a) \<times> c_cache \<Rightarrow> 'a \<Rightarrow> 'a" where
  "answered r d = (case fst r of Inl _ \<Rightarrow> d | Inr x \<Rightarrow> x)"

definition bridged :: "c_host \<Rightarrow> c_cache \<Rightarrow> rust_lib option \<Rightarrow> bool \<Rightarrow> string option \<Rightarrow> native" where
  "bridged h c lib go err =
     (let probed = core_available h c; c' = snd probed in
      \<lparr>c_available = answered probed False, c_note = answered (availability_note h c') [],
       c_path = answered (native_path h c') ''python'', c_scan = accel_c_scan h c', c_digests = accel_c_digests h c',
       rust_available = (lib \<noteq> None), rust_match = accel_rust_match lib, go_available = go,
       go_error = (case err of None \<Rightarrow> [] | Some m \<Rightarrow> m)\<rparr>)"

section \<open>Properties\<close>

text \<open>A library whose every call fails.\<close>

definition broken_rust :: rust_lib where
  "broken_rust =
     \<lparr>rl_exports = True, rl_version = Inl (OSError []), rl_abi = Inl (OSError []), rl_check = Inl (OSError []),
      rl_match_lines = (\<lambda>_ _. Inl (OSError [])), rl_match_json = (\<lambda>_ _. Inl (OSError [])), rl_digest = (\<lambda>_. Inl (OSError [])),
      rl_components = (\<lambda>_ _. Inl (OSError [])), rl_centrality = (\<lambda>_ _. Inl (OSError [])),
      rl_betweenness = (\<lambda>_ _. Inl (OSError [])), rl_path = (\<lambda>_ _ _ _. Inl (OSError [])), rl_text = (\<lambda>_. Inl (OSError []))\<rparr>"

lemma broken_match: "match_json_rust (Some broken_rust) banner pats = Inr []"
  by (auto simp: match_json_rust_def broken_rust_def both_encoded_def call_text_def parsed_or_none_def bind_res_def
      split: sum.splits)

lemma no_c_core:
  "locate_library h = None \<Longrightarrow> locate_binary h = None \<Longrightarrow>
     \<exists>c. core_available h no_cache = (Inr False, c)"
  by (simp add: core_available_def no_library_ffi bind_c_def library_reason_def library_present_def c_library_def
      lib_path_def settle_def ret_c_def)

text \<open>
  A broken Rust core hides every match. When the C core is absent and every call into the Rust library
  fails, a match request is answered with no hits under the engine \<open>rust-native\<close>, although the Python
  fallback, which is never asked, would find them: here the pattern A in the text A.
\<close>
theorem rust_failure_masked:
  "\<exists>h out hits. match_signatures (bridged h no_cache (Some broken_rust) False None) [65] [[65]] None = Inr out \<and>
     match_engine out = ''rust-native'' \<and> matches out = [] \<and> rust_selftest (Some broken_rust) = False \<and>
     python_match [65] [[65]] = Inr hits \<and> hits \<noteq> []"
proof -
  have "locate_library no_core_host = None" "locate_binary no_core_host = None" by code_simp+
  then obtain c where "core_available no_core_host no_cache = (Inr False, c)" using no_c_core by blast
  then have "\<exists>r. match_signatures (bridged no_core_host no_cache (Some broken_rust) False None) [65] [[65]] None =
      Inr \<lparr>matches = [], match_engine = ''rust-native'', match_reason = r\<rparr>"
    by (simp add: match_signatures_def order_of_def PREFERENCE_def backend_info_of_def c_info_def rust_info_def
        bridged_def answered_def Let_def run_match_def rust_hits_def accel_rust_match_def broken_match native_hits_def
        normalise_def match_engine_name_def)
  then obtain r where r: "match_signatures (bridged no_core_host no_cache (Some broken_rust) False None) [65] [[65]] None =
      Inr \<lparr>matches = [], match_engine = ''rust-native'', match_reason = r\<rparr>" by blast
  have "hit_at [65] [65] 0" unfolding hit_at_def by (intro conjI exI [of _ 0]) (simp_all add: occurs_at_def)
  moreover have "list_all is_scalar [65]" by (simp add: is_scalar_def is_surrogate_def)
  ultimately obtain hits where "python_match [65] [[65]] = Inr hits" "Match [65] 0 \<in> set hits"
    using python_match_scalar [of "[65]" "[[65]]"] by auto
  then show ?thesis
    using r by (intro exI [of _ no_core_host] exI [of _ "\<lparr>matches = [], match_engine = ''rust-native'', match_reason = r\<rparr>"]
        exI [of _ hits]) (auto simp: rust_selftest_def broken_rust_def)
qed

definition flaky_host :: c_host where
  "flaky_host = process_host\<lparr>ch_run := \<lambda>argv _. if tl argv = [''version''] then Ran 0 [] else Run_failed ''timed out''\<rparr>"

definition flaky_cache :: c_cache where
  "flaky_cache = no_cache\<lparr>lib_cache := Some (None, None, ''the native shared library was not found''),
     probe_ffi := Some False, probe_result := Some True, probe_reason := []\<rparr>"

lemma flaky_available: "core_available flaky_host no_cache = (Inr True, flaky_cache)"
proof -
  have "locate_library flaky_host = None" "locate_binary flaky_host = Some ''core''" by code_simp+
  then show ?thesis
    by (simp add: core_available_def no_library_ffi bind_c_def library_reason_def library_present_def c_library_def
        lib_path_def ret_c_def version_probe_def flaky_host_def settle_def flaky_cache_def)
qed

lemma flaky_scan:
  assumes "list_all is_scalar banner" and "load_signatures (Some (universal_newlines sigs)) = pairs"
    and "list_all (\<lambda>p. list_all is_scalar (snd p)) pairs"
  shows "\<exists>hits. accel_c_scan flaky_host flaky_cache banner sigs = Inr hits"
proof -
  let ?h = "with_signatures flaky_host sigs"
  obtain r where r: "scan_one pairs banner = Inr r" using scan_one_total [OF assms(1,3)] by blast
  have "locate_binary ?h = Some ''core''"
    by (simp add: locate_binary_def with_signatures_def flaky_host_def process_host_def no_core_host_def
        sample_c_host_def is_stale_def newest_source_def)
  then have "process_batch ?h sig_path [banner] = Inr []"
    by (simp add: process_batch_def with_signatures_def flaky_host_def)
  moreover have "fallback_batch ?h sig_path [banner] = Inr [Python_row r]"
    using r assms(2) by (simp add: fallback_batch_def with_signatures_def python_fallback_def)
  moreover have "ch_exists ?h sig_path" by (simp add: with_signatures_def)
  moreover have "ffi_available ?h flaky_cache = (Inr False, flaky_cache)"
    by (simp add: ffi_available_def flaky_cache_def)
  ultimately have "fst (scan_banners ?h sig_path [banner] flaky_cache) = Inr [Python_row r]"
    by (simp add: scan_banners_def bind_c_def ret_c_def lift_c_def batch_without_library_def)
  then show ?thesis by (simp add: accel_c_scan_def row_hits_def)
qed

text \<open>
  A Python result can carry the label of the C core. When the executable answers the version probe but
  fails to match, \<open>scan_banners\<close> falls back to Python inside the call, and the selection reports the hits of
  the fallback under the engine \<open>c-native\<close>.
\<close>
theorem c_native_label_wrong:
  "\<exists>h out. (\<forall>argv inp. tl argv \<noteq> [''version''] \<longrightarrow> (\<exists>m. ch_run h argv inp = Run_failed m)) \<and> locate_library h = None \<and>
     match_signatures (bridged h no_cache None False None) [65] [[65]] None = Inr out \<and>
     match_engine out = ''c-native''"
proof -
  let ?sigs = "signature_file (placeholders [[65]])"
  have sigs: "?sigs = [115, 48, 9, 65, 10]"
    by code_simp
  have "load_signatures (Some (universal_newlines [115, 48, 9, 65, 10])) = [([115, 48], [65])]"
    by (simp add: load_signatures_def universal_newlines_def add_signature_def signature_line_def strip_blank_def
        rstrip_cr_def Let_def)
  moreover have "list_all is_scalar [65]" "list_all (\<lambda>p. list_all is_scalar (snd p)) [([115, 48 :: nat], [65])]"
    by (simp_all add: is_scalar_def is_surrogate_def)
  ultimately obtain hits where hits: "accel_c_scan flaky_host flaky_cache [65] ?sigs = Inr hits"
    using flaky_scan [of "[65]"] unfolding sigs by blast
  have "utf8_encode ?sigs = Inr (concat (map utf8_char ?sigs))"
    unfolding sigs by (rule utf8_encode_scalar) (simp add: is_scalar_def is_surrogate_def)
  then have "\<exists>ms r. match_signatures (bridged flaky_host no_cache None False None) [65] [[65]] None =
      Inr \<lparr>matches = ms, match_engine = ''c-native'', match_reason = r\<rparr>"
    using hits by (simp add: match_signatures_def order_of_def PREFERENCE_def backend_info_of_def c_info_def
        bridged_def answered_def Let_def run_match_def c_match_def flaky_available match_engine_name_def)
  then obtain ms r where "match_signatures (bridged flaky_host no_cache None False None) [65] [[65]] None =
      Inr \<lparr>matches = ms, match_engine = ''c-native'', match_reason = r\<rparr>" by blast
  moreover have "locate_library flaky_host = None" by code_simp
  ultimately show ?thesis
    by (intro exI [of _ flaky_host] exI [of _ "\<lparr>matches = ms, match_engine = ''c-native'', match_reason = r\<rparr>"])
      (auto simp: flaky_host_def)
qed

end
