(* ===== verification/Cores.thy ===== *)
theory Cores
  imports GoBridge CBridge RustBridge
begin

text \<open>
  \<open>core/cores.py\<close>: the health of every core, asked through the three bridges, and the combined report.
\<close>

section \<open>States\<close>

datatype core_state = OK | FALLBACK | FAILED | BLOCKED

definition state_text :: "core_state \<Rightarrow> string" where
  "state_text s =
     (case s of OK \<Rightarrow> ''ok'' | FALLBACK \<Rightarrow> ''fallback'' | FAILED \<Rightarrow> ''failed'' | BLOCKED \<Rightarrow> ''blocked'')"

record core_status =
  core_name :: string
  core_language :: string
  core_role :: string
  core_state :: core_state
  core_version_text :: string
  core_detail :: string
  core_tests :: pydict

definition usable :: "core_status \<Rightarrow> bool" where
  "usable s \<longleftrightarrow> core_state s = OK"

definition status_dict :: "core_status \<Rightarrow> pydict" where
  "status_dict s =
     [(''name'', PStr (core_name s)), (''language'', PStr (core_language s)), (''role'', PStr (core_role s)),
      (''state'', PStr (state_text (core_state s))), (''usable'', PBool (usable s)),
      (''version'', PStr (core_version_text s)), (''detail'', PStr (core_detail s)), (''tests'', PDict (core_tests s))]"

definition new_status :: "string \<Rightarrow> string \<Rightarrow> string \<Rightarrow> core_status" where
  "new_status name lang role =
     \<lparr>core_name = name, core_language = lang, core_role = role, core_state = FALLBACK,
      core_version_text = ''unavailable'', core_detail = [], core_tests = []\<rparr>"

definition policy_blocked :: "os_failure \<Rightarrow> bool" where
  "policy_blocked e \<longleftrightarrow>
     osf_winerror e = Some 4551 \<or>
     (let t = lower (osf_text e)
      in contains ''application control'' t \<or> contains ''applicationcontrol'' t \<or>
         contains ''contr'' t \<and> contains ''application'' t)"

section \<open>The checks\<close>

definition check_python :: "string \<Rightarrow> core_status" where
  "check_python version =
     (new_status ''python'' ''Python'' ''reference implementation and universal fallback'')
       \<lparr>core_state := OK, core_version_text := ''Python '' @ version,
        core_tests := [(''importable'', PBool True), (''version'', PStr version)]\<rparr>"

definition check_rust :: "rust_lib option \<Rightarrow> exc + core_status" where
  "check_rust lib =
     (let s = new_status ''rust'' ''Rust'' ''Aho-Corasick signature matching and graph analytics'' in
      if lib = None then Inr (s\<lparr>core_detail := ''library not found''\<rparr>)
      else bind_res (rust_version lib) (\<lambda>v.
        let s = s\<lparr>core_version_text := v\<rparr>; abi = (''abi_version'', PInt (rust_abi_version lib)) in
        Inr (if rust_selftest lib
             then s\<lparr>core_state := OK, core_tests := [abi, (''selftest'', PStr ''passed'')]\<rparr>
             else s\<lparr>core_state := FAILED, core_detail := ''library loaded but its internal self test failed'',
                    core_tests := [abi, (''selftest'', PStr ''failed'')]\<rparr>)))"

text \<open>The failure of a self test that could not be started.\<close>

definition refused_status :: "os_failure \<Rightarrow> core_status \<Rightarrow> core_status" where
  "refused_status e s =
     (if policy_blocked e
      then s\<lparr>core_state := BLOCKED, core_detail := ''host application-control policy refused to execute the binary''\<rparr>
      else s\<lparr>core_state := FAILED, core_detail := ''could not execute the core: '' @ osf_text e\<rparr>)"

text \<open>\<open>report.get("status") == "ok" and failures == 0\<close>, and the text of a value for a message.\<close>

definition report_ok :: "pydict \<Rightarrow> bool" where
  "report_ok d \<longleftrightarrow> dget d ''status'' = PStr ''ok'' \<and> eq_int (dget d ''failures'') 0"

definition reported_status :: "pydict \<Rightarrow> core_status \<Rightarrow> exc + core_status" where
  "reported_status d s =
     (let s = s\<lparr>core_tests := core_tests s @ [(''selftest'', PDict d)]\<rparr> in
      if report_ok d
      then bind_res (py_str (dget_or d ''checks'' (PStr ''?''))) (\<lambda>n.
        Inr (s\<lparr>core_state := OK, core_detail := n @ '' checks''\<rparr>))
      else bind_res (py_str (dget d ''failures'')) (\<lambda>n.
        Inr (s\<lparr>core_state := FAILED, core_detail := ''self test reported '' @ n @ '' failure(s)''\<rparr>)))"

definition check_c :: "c_host \<Rightarrow> core_status cm" where
  "check_c h =
     (let s = new_status ''c'' ''C'' ''signature matching and banner fingerprinting'' in
      bind_c (core_available h) (\<lambda>there.
      if \<not> there then
        (if staleness_note h \<noteq> []
         then ret_c (s\<lparr>core_state := FAILED, core_detail := ''a binary is present but stale: '' @ staleness_note h\<rparr>)
         else ret_c (s\<lparr>core_detail := ''binary not found''\<rparr>))
      else
        bind_c (c_core_version h) (\<lambda>v.
        bind_c (c_selftest h) (\<lambda>r.
          let s = s\<lparr>core_version_text := v\<rparr> in
          case r of
            Inl e \<Rightarrow> ret_c (refused_status e s)
          | Inr d \<Rightarrow> lift_c (reported_status d s)))))"

definition check_go :: "bool \<Rightarrow> run_result \<Rightarrow> run_result \<Rightarrow> exc + core_status" where
  "check_go exists version_run selftest_run =
     (let s = new_status ''go'' ''Go'' ''concurrent port scanning and banner grabbing'' in
      if \<not> exists then Inr (s\<lparr>core_detail := ''binary not found''\<rparr>)
      else
        let s = s\<lparr>core_version_text := go_core_version exists version_run\<rparr> in
        bind_res (go_selftest exists selftest_run) (\<lambda>r.
          case r of
            Inl e \<Rightarrow> Inr (refused_status e s)
          | Inr None \<Rightarrow> Inr (s\<lparr>core_state := FAILED, core_detail := ''the core produced no self-test report''\<rparr>)
          | Inr (Some d) \<Rightarrow> reported_status d s))"

section \<open>The report\<close>

text \<open>A check that raises is a failed core; \<open>OutOfModel\<close> is passed on.\<close>

definition guarded_check :: "string \<Rightarrow> exc + core_status \<Rightarrow> exc + core_status" where
  "guarded_check name r =
     (case r of
        Inr s \<Rightarrow> Inr s
      | Inl e \<Rightarrow>
          if e = OutOfModel then Inl e
          else Inr ((new_status name ''unknown'' ''probe raised during import'')
            \<lparr>core_state := FAILED, core_detail := exc_name e @ '': '' @ exc_message e\<rparr>))"

record health =
  health_status :: string
  health_platform :: string
  health_python :: string
  health_cores :: "core_status list"
  native_usable :: nat
  native_total :: nat

record machine =
  mc_platform :: string
  mc_python :: string
  mc_rust :: "rust_lib option"
  mc_c :: c_host
  mc_cache :: c_cache
  mc_go :: bool
  mc_go_version :: run_result
  mc_go_selftest :: run_result

definition core_checks :: "machine \<Rightarrow> exc + core_status list" where
  "core_checks m =
     map_res (\<lambda>(name, r). guarded_check name r)
       [(''python'', Inr (check_python (mc_python m))), (''rust'', check_rust (mc_rust m)),
        (''c'', fst (check_c (mc_c m) (mc_cache m))), (''go'', check_go (mc_go m) (mc_go_version m) (mc_go_selftest m))]"

definition health_of :: "machine \<Rightarrow> core_status list \<Rightarrow> health" where
  "health_of m cores =
     (let native = filter (\<lambda>c. core_name c \<noteq> ''python'') cores
      in \<lparr>health_status = (if list_all (\<lambda>c. core_state c \<in> {OK, BLOCKED, FALLBACK}) cores then ''ok'' else ''degraded''),
          health_platform = mc_platform m, health_python = mc_python m, health_cores = cores,
          native_usable = length (filter usable native), native_total = length native\<rparr>)"

definition health_report :: "machine \<Rightarrow> exc + health" where
  "health_report m = bind_res (core_checks m) (\<lambda>cores. Inr (health_of m cores))"

section \<open>The table\<close>

definition upper_ascii :: "string \<Rightarrow> string" where
  "upper_ascii s = map (\<lambda>c. if 97 \<le> ord_of c \<and> ord_of c \<le> 122 then char_of (ord_of c - 32) else c) s"

definition pad_left :: "nat \<Rightarrow> string \<Rightarrow> string" where
  "pad_left n s = replicate (n - length s) (CHR '' '') @ s"

definition pad_right :: "nat \<Rightarrow> string \<Rightarrow> string" where
  "pad_right n s = s @ replicate (n - length s) (CHR '' '')"

definition glyph :: "core_state \<Rightarrow> string" where
  "glyph s = (case s of OK \<Rightarrow> ''OK'' | FALLBACK \<Rightarrow> ''FALLBACK'' | FAILED \<Rightarrow> ''FAILED'' | BLOCKED \<Rightarrow> ''BLOCKED'')"

definition core_lines :: "core_status \<Rightarrow> string list" where
  "core_lines c =
     ['' ['' @ pad_left 8 (glyph (core_state c)) @ ''] '' @ pad_right 7 (upper_ascii (core_name c)) @ '' '' @ core_language c,
      ''             version : '' @ core_version_text c] @
     (if core_detail c \<noteq> [] then [''             detail  : '' @ core_detail c] else []) @ [[]]"

definition format_report :: "health \<Rightarrow> string" where
  "format_report r =
     join_str [lf_char]
       ([[], replicate 78 (CHR ''=''), '' HELIOS-NET native core health - '' @ health_platform r, replicate 78 (CHR ''='')] @
        concat (map core_lines (health_cores r)) @
        ['' native cores usable: '' @ show_nat (native_usable r) @ ''/'' @ show_nat (native_total r)] @
        (if native_usable r < native_total r
         then ['' Cores below OK run their pure-Python fallback. A FAILED or BLOCKED'',
               '' core means the binary exists but was never proven to work.''] else []) @
        [replicate 78 (CHR ''='')])"

section \<open>Facts\<close>

lemmas status_simps = new_status_def reported_status_def refused_status_def Let_def bind_res_eq_Inr

lemma reported_status_name: "reported_status d s = Inr s' \<Longrightarrow> core_name s' = core_name s"
  by (auto simp: status_simps split: if_splits)

lemma reported_status_usable: "reported_status d s = Inr s' \<Longrightarrow> usable s' \<Longrightarrow> report_ok d"
  by (auto simp: status_simps usable_def split: if_splits)

lemma refused_status_simps [simp]:
  "core_name (refused_status e s) = core_name s" "\<not> usable (refused_status e s)"
  "core_state (refused_status e s) \<noteq> OK"
  by (simp_all add: refused_status_def usable_def)

lemma new_status_simps [simp]:
  "core_name (new_status n l r) = n" "\<not> usable (new_status n l r)" "core_state (new_status n l r) = FALLBACK"
  by (simp_all add: new_status_def usable_def)

lemma check_rust_facts:
  assumes "check_rust lib = Inr s"
  shows "core_name s = ''rust'' \<and> (usable s \<longrightarrow> (\<exists>l. lib = Some l \<and> rl_check l = Inr 0))"
  using assms
  by (auto simp: check_rust_def Let_def bind_res_eq_Inr usable_def rust_selftest_def split: if_splits option.splits sum.splits)

lemma check_c_facts:
  assumes "check_c h c = (Inr s, c')"
  shows "core_name s = ''c'' \<and> (usable s \<longrightarrow> (\<exists>c1 d. c_selftest h c1 = (Inr (Inr d), c') \<and> report_ok d))"
proof -
  obtain there c1 where a: "core_available h c = (Inr there, c1)"
    using assms by (auto simp: check_c_def Let_def elim: bind_c_cases)
  show ?thesis
  proof (cases there)
    case False
    then show ?thesis using assms a by (auto simp: check_c_def bind_c_Inr Let_def usable_def split: if_splits)
  next
    case True
    then obtain v c2 r c3 where v: "c_core_version h c1 = (Inr v, c2)" "c_selftest h c2 = (Inr r, c3)"
      and s: "(case r of
          Inl e \<Rightarrow> ret_c (refused_status e ((new_status ''c'' ''C'' ''signature matching and banner fingerprinting'')\<lparr>core_version_text := v\<rparr>))
        | Inr d \<Rightarrow> lift_c (reported_status d ((new_status ''c'' ''C'' ''signature matching and banner fingerprinting'')\<lparr>core_version_text := v\<rparr>))) c3
        = (Inr s, c')"
      using assms a by (auto simp: check_c_def bind_c_Inr Let_def)
    then show ?thesis
      by (cases r) (auto dest: reported_status_name reported_status_usable)
  qed
qed

lemma check_go_facts:
  assumes "check_go ex vr sr = Inr s"
  shows "core_name s = ''go'' \<and> (usable s \<longrightarrow> ex \<and> (\<exists>code out d. sr = Ran code out \<and>
     json_loads (last (splitlines (strip out))) = Inr (PDict d) \<and> report_ok d))"
proof (cases ex)
  case False
  then show ?thesis using assms by (auto simp: check_go_def Let_def usable_def)
next
  case True
  let ?s = "(new_status ''go'' ''Go'' ''concurrent port scanning and banner grabbing'')\<lparr>core_version_text := go_core_version True vr\<rparr>"
  obtain r where r: "go_selftest True sr = Inr r" and
    s: "(case r of Inl e \<Rightarrow> Inr (refused_status e ?s)
      | Inr None \<Rightarrow> Inr (?s\<lparr>core_state := FAILED, core_detail := ''the core produced no self-test report''\<rparr>)
      | Inr (Some d) \<Rightarrow> reported_status d ?s) = Inr s"
    using assms True by (auto simp: check_go_def Let_def bind_res_eq_Inr)
  show ?thesis
  proof (cases "\<exists>d. r = Inr (Some d)")
    case False
    then show ?thesis using s by (auto simp: usable_def split: sum.splits option.splits)
  next
    case d: True
    then obtain d where d: "r = Inr (Some d)" by blast
    then have "core_name s = ''go''" "usable s \<Longrightarrow> report_ok d"
      using s reported_status_name [of d ?s s] reported_status_usable [of d ?s s] by auto
    moreover have "\<exists>code out. sr = Ran code out \<and> json_loads (last (splitlines (strip out))) = Inr (PDict d)"
      using r d by (auto simp: go_selftest_def split: run_result.splits if_splits sum.splits pyval.splits)
    ultimately show ?thesis using True by blast
  qed
qed

lemma guarded_check_cases:
  assumes "guarded_check name r = Inr s"
  obtains "r = Inr s" | "core_name s = name" "core_state s = FAILED"
  using assms by (auto simp: guarded_check_def split: sum.splits if_splits)

lemma core_checks_facts:
  assumes "core_checks m = Inr cores"
  shows "\<exists>p r c g. cores = [p, r, c, g] \<and> p = check_python (mc_python m) \<and>
     guarded_check ''rust'' (check_rust (mc_rust m)) = Inr r \<and>
     guarded_check ''c'' (fst (check_c (mc_c m) (mc_cache m))) = Inr c \<and>
     guarded_check ''go'' (check_go (mc_go m) (mc_go_version m) (mc_go_selftest m)) = Inr g"
  using assms by (auto simp: core_checks_def bind_res_eq_Inr guarded_check_def [of "''python''"])

lemma guarded_names:
  "guarded_check ''rust'' (check_rust lib) = Inr s \<Longrightarrow> core_name s = ''rust''"
  "guarded_check ''c'' (fst (check_c h c)) = Inr s \<Longrightarrow> core_name s = ''c''"
  "guarded_check ''go'' (check_go ex vr sr) = Inr s \<Longrightarrow> core_name s = ''go''"
  by (erule guarded_check_cases; use check_rust_facts check_c_facts [of h c s "snd (check_c h c)"] check_go_facts in
      \<open>auto simp: prod_eq_iff\<close>)+

section \<open>Properties\<close>

text \<open>
  A core that counts as usable has proved itself. Every core of a health report that is usable is the
  Python reference, or passed its own self test in this very report: the Rust library returned 0, the C core
  or the Go binary reported status ok with no failures.
\<close>
theorem usable_is_proven:
  assumes "health_report m = Inr r" and "s \<in> set (health_cores r)" and "usable s"
  shows "s = check_python (mc_python m) \<or>
     core_name s = ''rust'' \<and> (\<exists>l. mc_rust m = Some l \<and> rl_check l = Inr 0) \<or>
     core_name s = ''c'' \<and> (\<exists>c1 d c2. c_selftest (mc_c m) c1 = (Inr (Inr d), c2) \<and> report_ok d) \<or>
     core_name s = ''go'' \<and> mc_go m \<and> (\<exists>code out d. mc_go_selftest m = Ran code out \<and>
       json_loads (last (splitlines (strip out))) = Inr (PDict d) \<and> report_ok d)"
proof -
  obtain cores where "core_checks m = Inr cores" "health_cores r = cores"
    using assms(1) by (auto simp: health_report_def bind_res_eq_Inr health_of_def Let_def)
  then obtain rr c g where mem: "s \<in> {check_python (mc_python m), rr, c, g}"
    and rr: "guarded_check ''rust'' (check_rust (mc_rust m)) = Inr rr"
    and c: "guarded_check ''c'' (fst (check_c (mc_c m) (mc_cache m))) = Inr c"
    and g: "guarded_check ''go'' (check_go (mc_go m) (mc_go_version m) (mc_go_selftest m)) = Inr g"
    using core_checks_facts [of m cores] assms(2) by auto
  have ok: "core_state s = OK" using assms(3) by (simp add: usable_def)
  consider "s = check_python (mc_python m)" | "s = rr" | "s = c" | "s = g" using mem by blast
  then show ?thesis
  proof cases
    case 2
    from guarded_check_cases [OF rr] check_rust_facts [of "mc_rust m" rr] show ?thesis
      using 2 ok assms(3) by (metis core_state.distinct(3))
  next
    case 3
    have "fst (check_c (mc_c m) (mc_cache m)) = Inr c"
      using guarded_check_cases [OF c] 3 ok by (metis core_state.distinct(3))
    then show ?thesis using check_c_facts [of "mc_c m" "mc_cache m" c] 3 assms(3)
      by (metis prod.collapse)
  next
    case 4
    have "check_go (mc_go m) (mc_go_version m) (mc_go_selftest m) = Inr g"
      using guarded_check_cases [OF g] 4 ok by (metis core_state.distinct(3))
    from check_go_facts [OF this] show ?thesis using 4 assms(3) by blast
  qed simp
qed

definition bare_machine :: machine where
  "bare_machine =
     \<lparr>mc_platform = ''Linux'', mc_python = ''3.12'', mc_rust = None, mc_c = no_core_host, mc_cache = no_cache, mc_go = True,
      mc_go_version = Ran 0 ''goscan 1'', mc_go_selftest = Ran 0 (json_dumps True None
        (PDict [(''status'', PStr ''ok''), (''failures'', PInt 0), (''checks'', PInt 9)]))\<rparr>"

lemma bare_machine_checks:
  "\<exists>r c g. core_checks bare_machine = Inr [check_python ''3.12'', r, c, g] \<and> core_name c = ''c'' \<and> usable g \<and> core_state c = FALLBACK"
proof -
  have "locate_library no_core_host = None" "locate_binary no_core_host = None" by code_simp+
  then have "\<exists>c1. core_available no_core_host no_cache = (Inr False, c1)"
    by (simp add: core_available_def no_library_ffi bind_c_def library_reason_def library_present_def c_library_def
        lib_path_def settle_def ret_c_def)
  then obtain c1 where "core_available no_core_host no_cache = (Inr False, c1)" by blast
  moreover have "staleness_note no_core_host = []" by code_simp
  ultimately obtain c where c: "fst (check_c no_core_host no_cache) = Inr c" "core_name c = ''c''" "core_state c = FALLBACK"
    by (auto simp: check_c_def bind_c_def Let_def ret_c_def)
  have "case check_go True (Ran 0 ''goscan 1'') (Ran 0 (json_dumps True None
      (PDict [(''status'', PStr ''ok''), (''failures'', PInt 0), (''checks'', PInt 9)]))) of
      Inl _ \<Rightarrow> False | Inr g \<Rightarrow> usable g"
    by code_simp
  then obtain g where g: "check_go True (mc_go_version bare_machine) (mc_go_selftest bare_machine) = Inr g" "usable g"
    by (auto simp: bare_machine_def split: sum.splits)
  obtain r where "check_rust None = Inr r" by (auto simp: check_rust_def)
  then show ?thesis
    using c g by (simp add: core_checks_def guarded_check_def bare_machine_def)
qed

theorem usable_is_proven_witness:
  "\<exists>r s. health_report bare_machine = Inr r \<and> s \<in> set (health_cores r) \<and> usable s \<and> s \<noteq> check_python ''3.12'' \<and>
     core_name s = ''go'' \<and> mc_go bare_machine"
proof -
  obtain rr c g where h: "core_checks bare_machine = Inr [check_python ''3.12'', rr, c, g]" "usable g"
    using bare_machine_checks by blast
  then have r: "health_report bare_machine = Inr (health_of bare_machine [check_python ''3.12'', rr, c, g])"
    by (simp add: health_report_def)
  have cores: "health_cores (health_of bare_machine [check_python ''3.12'', rr, c, g]) = [check_python ''3.12'', rr, c, g]"
    by (simp add: health_of_def Let_def)
  have "core_name g = ''go''"
    using core_checks_facts [OF h(1)] guarded_names(3) by auto
  moreover have "g \<noteq> check_python ''3.12''"
    using \<open>core_name g = ''go''\<close> by (auto simp: check_python_def)
  moreover have "g \<in> set (health_cores (health_of bare_machine [check_python ''3.12'', rr, c, g]))"
    unfolding cores by simp
  ultimately show ?thesis
    using usable_is_proven [OF r _ h(2)] r h(2) by (auto simp: bare_machine_def)
qed

text \<open>
  The report shows every core. Whatever the checks raise, it lists the Python reference, Rust, C and Go in
  this order, counts three native cores and exactly the usable ones among them, and is degraded exactly when
  some core failed.
\<close>
theorem health_is_complete:
  assumes "health_report m = Inr r"
  shows "map core_name (health_cores r) = [''python'', ''rust'', ''c'', ''go''] \<and> native_total r = 3 \<and>
     native_usable r = length (filter usable (tl (health_cores r))) \<and>
     health_status r = (if FAILED \<in> set (map core_state (health_cores r)) then ''degraded'' else ''ok'')"
proof -
  obtain cores where c: "core_checks m = Inr cores" and r: "r = health_of m cores"
    using assms by (auto simp: health_report_def bind_res_eq_Inr)
  obtain rr cc gg where cores: "cores = [check_python (mc_python m), rr, cc, gg]"
    and names: "core_name rr = ''rust''" "core_name cc = ''c''" "core_name gg = ''go''"
    using core_checks_facts [OF c] guarded_names by auto
  have "core_name (check_python v) = ''python''" for v by (simp add: check_python_def)
  moreover have "list_all (\<lambda>c. core_state c \<in> {OK, BLOCKED, FALLBACK}) cs \<longleftrightarrow> FAILED \<notin> set (map core_state cs)" for cs :: "core_status list"
  proof -
    have "x \<in> {OK, BLOCKED, FALLBACK} \<longleftrightarrow> x \<noteq> FAILED" for x by (cases x) auto
    then show ?thesis by (auto simp: list_all_iff image_iff)
  qed
  ultimately have "health_status (health_of m cores) = (if FAILED \<in> set (map core_state cores) then ''degraded'' else ''ok'')"
    by (simp only: health_of_def Let_def health.simps if_not_P if_P split: if_split) simp
  moreover have "native_total (health_of m cores) = 3" "health_cores (health_of m cores) = cores"
    "native_usable (health_of m cores) = length (filter usable (tl cores))"
    using names by (simp_all add: health_of_def Let_def cores check_python_def)
  ultimately show ?thesis using names unfolding r by (simp add: cores check_python_def)
qed

theorem health_is_complete_witness:
  "\<exists>r. health_report bare_machine = Inr r \<and> native_total r = 3"
proof -
  obtain cores where "core_checks bare_machine = Inr cores" using bare_machine_checks by blast
  then have "\<exists>r. health_report bare_machine = Inr r" by (simp add: health_report_def)
  then show ?thesis using health_is_complete by blast
qed

text \<open>
  A refusal by the host policy is not reported as blocked for the C core. When the library was not found and
  the host refuses to run the executable with error 4551, \<open>check_c\<close> says that no binary was found: the probe
  inside \<open>core_available\<close> has already turned the refusal into a plain no.
\<close>
theorem c_policy_refusal_hidden:
  assumes "locate_library h = None" and "locate_binary h = Some p"
    and "ch_run h [p, ''version''] [] = Run_refused e" and "osf_winerror e = Some 4551" and "staleness_note h = []"
  shows "\<exists>s. fst (check_c h no_cache) = Inr s \<and> core_state s = FALLBACK \<and> core_detail s = ''binary not found''"
proof -
  have "\<exists>c. core_available h no_cache = (Inr False, c)"
    using assms by (simp add: core_available_def no_library_ffi bind_c_def library_reason_def library_present_def
        c_library_def lib_path_def version_probe_def settle_def ret_c_def)
  then show ?thesis using assms(5) by (auto simp: check_c_def bind_c_def Let_def ret_c_def)
qed

definition refusing_host :: c_host where
  "refusing_host = process_host\<lparr>ch_run := \<lambda>_ _. Run_refused \<lparr>osf_winerror = Some 4551, osf_errno = None, osf_text = []\<rparr>\<rparr>"

theorem c_policy_refusal_hidden_witness:
  "\<exists>s. fst (check_c refusing_host no_cache) = Inr s \<and> core_state s = FALLBACK \<and>
     policy_blocked \<lparr>osf_winerror = Some 4551, osf_errno = None, osf_text = []\<rparr>"
proof -
  have "locate_library refusing_host = None" "locate_binary refusing_host = Some ''core''"
    "staleness_note refusing_host = []"
    by code_simp+
  from c_policy_refusal_hidden [OF this(1,2) _ _ this(3)] show ?thesis
    by (auto simp: refusing_host_def policy_blocked_def)
qed

end
