(* ===== verification/Pathfinder.thy ===== *)
theory Pathfinder
  imports GraphFacts
begin

text \<open>
  \<open>engine/killchain/pathfinder.py\<close>: the least-resistance search over the asset graph (Dijkstra with
  stale queue entries left in the heap), the engagement route built from its path and the plan text.
\<close>

section \<open>Costs and queue\<close>

definition service_costs :: "(string, float) dict" where
  "service_costs =
     [(''http'', 2), (''https'', 5 / 2), (''ftp'', 3), (''ssh'', 5), (''mysql'', 4),
      (''postgresql'', 4), (''rdp'', 9 / 2), (''unknown'', 3)]"

definition node_meta :: "asset_graph \<Rightarrow> string \<Rightarrow> pydict" where
  "node_meta g n = (case dict_get (g_nodes g) n of None \<Rightarrow> [] | Some d \<Rightarrow> d)"

text \<open>\<open>.lower()\<close> on a name that is no string is an \<open>AttributeError\<close>, written as a \<open>TypeError\<close>.\<close>

definition step_cost :: "asset_graph \<Rightarrow> string \<Rightarrow> exc + float" where
  "step_cost g n =
     (case dget_or (node_meta g n) ''name'' (PStr ''unknown'') of
        PStr name \<Rightarrow>
          Inr (if dget_or (node_meta g n) ''kind'' (PStr ''unknown'') = PStr ''service''
               then (case dict_get service_costs (lower name) of None \<Rightarrow> 2 | Some w \<Rightarrow> w)
               else 1)
      | _ \<Rightarrow> Inl (TypeError ''no attribute lower''))"

text \<open>A queue entry: cumulative cost, current node, path history; \<open>heappop\<close> takes the least.\<close>

type_synonym route = "float \<times> string \<times> string list"

definition heappop :: "route list \<Rightarrow> route \<times> route list" where
  "heappop q = (let m = fold min (tl q) (hd q) in (m, remove1 m q))"

text \<open>Comparisons with \<open>visited.get(n, inf)\<close>.\<close>

definition stale :: "float \<Rightarrow> float option \<Rightarrow> bool" where
  "stale c v = (case v of None \<Rightarrow> False | Some w \<Rightarrow> w < c)"

definition improves :: "float \<Rightarrow> float option \<Rightarrow> bool" where
  "improves c v = (case v of None \<Rightarrow> True | Some w \<Rightarrow> c < w)"

section \<open>The search\<close>

definition relax_route ::
  "asset_graph \<Rightarrow> float \<Rightarrow> string list \<Rightarrow> route list \<times> (string, float) dict \<Rightarrow> string \<Rightarrow>
     exc + route list \<times> (string, float) dict" where
  "relax_route g c path st nb =
     (case st of (q, vis) \<Rightarrow>
        if nb \<notin> set (node_ids g) then Inr (q, vis)
        else bind_res (step_cost g nb) (\<lambda>w.
          let nc = fadd c w in
          if improves nc (dict_get vis nb) then Inr (q @ [(nc, nb, path @ [nb])], dict_set nb nc vis)
          else Inr (q, vis)))"

text \<open>None: the loop does not end. No cost: \<open>float("inf")\<close>.\<close>

partial_function (option) cheapest_loop ::
  "asset_graph \<Rightarrow> string \<Rightarrow> route list \<Rightarrow> (string, float) dict \<Rightarrow> (exc + string list \<times> float option) option"
where
  "cheapest_loop g t pq vis =
     (if pq = [] then Some (Inr ([], None))
      else (case heappop pq of ((c, cur, path), rest) \<Rightarrow>
        if cur = t then Some (Inr (path, Some c))
        else if stale c (dict_get vis cur) then cheapest_loop g t rest vis
        else (case fold_res (relax_route g c path) (rest, vis) (adj_of g cur) of
                Inl e \<Rightarrow> Some (Inl e)
              | Inr st \<Rightarrow> cheapest_loop g t (fst st) (snd st))))"

definition find_attack_path ::
  "asset_graph \<Rightarrow> string \<Rightarrow> string \<Rightarrow> exc + string list \<times> float option" where
  "find_attack_path g entry crown =
     (if entry \<notin> set (node_ids g) \<or> crown \<notin> set (node_ids g) then Inr ([], None)
      else (case cheapest_loop g crown [(0, entry, [entry])] [(entry, 0)] of
              None \<Rightarrow> Inl OutOfModel
            | Some r \<Rightarrow> r))"

section \<open>Routes and their cost\<close>

definition steps_from :: "asset_graph \<Rightarrow> string \<Rightarrow> string list" where
  "steps_from g n = filter (\<lambda>m. m \<in> set (node_ids g)) (adj_of g n)"

definition entry_cost :: "asset_graph \<Rightarrow> string \<Rightarrow> float" where
  "entry_cost g n = (case step_cost g n of Inl _ \<Rightarrow> 1 | Inr w \<Rightarrow> w)"

definition route_cost :: "asset_graph \<Rightarrow> string list \<Rightarrow> rat" where
  "route_cost g p = sum_list (map (entry_cost g) (tl p))"

definition named :: "asset_graph \<Rightarrow> bool" where
  "named g \<longleftrightarrow> list_all (\<lambda>n. \<not> isl (step_cost g n)) (node_ids g)"

definition routes :: "asset_graph \<Rightarrow> string \<Rightarrow> string \<Rightarrow> string list set" where
  "routes g s t = {p. is_walk (steps_from g) p \<and> hd p = s \<and> last p = t}"

lemma set_steps_from: "set (steps_from g n) = set (adj_of g n) \<inter> set (node_ids g)"
  by (auto simp: steps_from_def)

lemma named_cost: "named g \<Longrightarrow> n \<in> set (node_ids g) \<Longrightarrow> step_cost g n = Inr (entry_cost g n)"
  by (auto simp: named_def list_all_iff entry_cost_def split: sum.splits)

lemma entry_cost_half: "\<exists>k::nat. 2 \<le> k \<and> k \<le> 10 \<and> entry_cost g n = of_nat k / 2"
proof -
  have "entry_cost g n \<in> {1, 2, 5 / 2, 3, 4, 9 / 2, 5}"
    by (auto simp: entry_cost_def step_cost_def service_costs_def split: sum.splits pyval.splits if_splits)
  then consider "entry_cost g n = of_nat 2 / 2" | "entry_cost g n = of_nat 4 / 2" | "entry_cost g n = of_nat 5 / 2"
    | "entry_cost g n = of_nat 6 / 2" | "entry_cost g n = of_nat 8 / 2" | "entry_cost g n = of_nat 9 / 2"
    | "entry_cost g n = of_nat 10 / 2" by auto
  then show ?thesis
    by cases (rule exI, rule conjI [rotated], rule conjI [rotated], assumption, simp, simp)+
qed

lemma entry_cost_pos: "0 < entry_cost g n"
  using entry_cost_half [of g n] by auto

lemma route_cost_single [simp]: "route_cost g [n] = 0"
  by (simp add: route_cost_def)

lemma route_cost_snoc: "p \<noteq> [] \<Longrightarrow> route_cost g (p @ [n]) = route_cost g p + entry_cost g n"
  by (simp add: route_cost_def)

lemma route_cost_half: "\<exists>k::nat. k \<le> 10 * (length p - 1) \<and> route_cost g p = of_nat k / 2"
proof (induction p rule: rev_induct)
  case Nil
  then show ?case by (auto simp: route_cost_def)
next
  case (snoc n p)
  then obtain k where k: "k \<le> 10 * (length p - 1)" "route_cost g p = of_nat k / 2" by blast
  obtain j where j: "j \<le> 10" "entry_cost g n = of_nat j / 2" using entry_cost_half [of g n] by blast
  show ?case
  proof (cases "p = []")
    case True
    then show ?thesis by (auto simp: route_cost_def)
  next
    case False
    then have "k + j \<le> 10 * (length (p @ [n]) - 1)" using k(1) j(1) by (cases p) auto
    then show ?thesis
      using False k(2) j(2) by (intro exI [of _ "k + j"]) (simp add: route_cost_snoc add_divide_distrib)
  qed
qed

lemma fl_half: "k \<le> 2 ^ 53 \<Longrightarrow> fl (of_nat k / 2) = of_nat k / 2"
proof -
  assume "k \<le> 2 ^ 53"
  then have "\<bar>int k\<bar> \<le> 2 ^ 53" by (metis abs_of_nat of_nat_le_iff of_nat_numeral of_nat_power)
  then have "is_double (of_nat k / 2)"
    unfolding is_double_def by (intro exI [of _ "int k"] exI [of _ "- 1"]) (simp add: pow2_def)
  then show ?thesis by (rule fl_exact)
qed

lemma heappop_spec:
  assumes "q \<noteq> []" "heappop q = (m, rest)"
  shows "m \<in> set q" "\<forall>x\<in>set q. m \<le> x" "mset q = add_mset m (mset rest)"
    "set rest \<subseteq> set q" "\<forall>x\<in>set q. x \<noteq> m \<longrightarrow> x \<in> set rest" "length q = Suc (length rest)"
proof -
  have "fold min (tl q) (hd q) = Min (set q)"
    using assms(1) by (cases q) (simp_all add: Min.set_eq_fold del: list.set)
  then have m: "m = Min (set q)" "rest = remove1 m q"
    using assms(2) by (auto simp: heappop_def Let_def)
  show in_q: "m \<in> set q" "\<forall>x\<in>set q. m \<le> x" using assms(1) by (auto simp: m)
  then show ms: "mset q = add_mset m (mset rest)" by (simp add: m(2))
  show "set rest \<subseteq> set q" by (simp add: m(2) set_remove1_subset)
  show "\<forall>x\<in>set q. x \<noteq> m \<longrightarrow> x \<in> set rest" by (simp add: m(2))
  show "length q = Suc (length rest)"
    using ms by (metis size_mset size_add_mset)
qed

section \<open>The invariant of the search\<close>

text \<open>
  A queue entry is a simple route of its cost, and no node on it is known to be dearer than that
  cost. A visited node is pending in the queue at its best known cost, or it is settled: none of its
  neighbours can be improved through it. The crown jewel is never settled.
\<close>

type_synonym best = "string \<Rightarrow> float option"

definition entry_ok :: "asset_graph \<Rightarrow> string \<Rightarrow> best \<Rightarrow> float \<Rightarrow> string list \<Rightarrow> bool" where
  "entry_ok g s vis c p \<longleftrightarrow>
     is_walk (steps_from g) p \<and> hd p = s \<and> distinct p \<and> set p \<subseteq> set (node_ids g) \<and>
     c = route_cost g p \<and> (\<forall>x\<in>set p. \<exists>v. vis x = Some v \<and> v \<le> c)"

definition settled :: "asset_graph \<Rightarrow> best \<Rightarrow> string \<Rightarrow> float \<Rightarrow> bool" where
  "settled g vis n v \<longleftrightarrow> (\<forall>m\<in>set (steps_from g n). \<exists>w. vis m = Some w \<and> w \<le> v + entry_cost g m)"

definition pending :: "route list \<Rightarrow> string \<Rightarrow> float \<Rightarrow> bool" where
  "pending q n v \<longleftrightarrow> (\<exists>p. (v, n, p) \<in> set q)"

definition search_inv ::
  "asset_graph \<Rightarrow> string \<Rightarrow> string \<Rightarrow> string set \<Rightarrow> route list \<Rightarrow> best \<Rightarrow> bool" where
  "search_inv g s t X q vis \<longleftrightarrow>
     (\<forall>(c, n, p)\<in>set q. entry_ok g s vis c p \<and> last p = n) \<and> vis s = Some 0 \<and>
     (\<forall>n v. vis n = Some v \<longrightarrow> (\<exists>k\<le>10 * length (g_nodes g). v = of_nat k / 2)) \<and>
     (\<forall>n v. vis n = Some v \<longrightarrow> n \<notin> X \<longrightarrow> pending q n v \<or> n \<noteq> t \<and> settled g vis n v)"

text \<open>The known costs only fall.\<close>

definition better :: "best \<Rightarrow> best \<Rightarrow> bool" where
  "better vis vis' \<longleftrightarrow> (\<forall>n v. vis n = Some v \<longrightarrow> (\<exists>w\<le>v. vis' n = Some w))"

lemma better_refl [simp]: "better vis vis"
  by (auto simp: better_def)

lemma better_trans: "better a b \<Longrightarrow> better b c \<Longrightarrow> better a c"
  unfolding better_def by (meson order_trans)

lemma better_update: "improves c (vis n) \<Longrightarrow> better vis (vis(n \<mapsto> c))"
  by (auto simp: better_def improves_def)

lemma entry_ok_better: "entry_ok g s vis c p \<Longrightarrow> better vis vis' \<Longrightarrow> entry_ok g s vis' c p"
  unfolding entry_ok_def better_def by (meson order_trans)

lemma settled_better: "settled g vis n v \<Longrightarrow> better vis vis' \<Longrightarrow> settled g vis' n v"
  unfolding settled_def better_def by (meson order_trans)

text \<open>What is left to improve: twice the known costs, an unknown one counting for more than any.\<close>

definition slack :: "asset_graph \<Rightarrow> best \<Rightarrow> nat" where
  "slack g vis = (\<Sum>n\<in>set (node_ids g).
     case vis n of None \<Rightarrow> 10 * length (g_nodes g) + 1 | Some v \<Rightarrow> nat \<lfloor>2 * v\<rfloor>)"

lemma slack_update:
  assumes "n \<in> set (node_ids g)" "improves (of_nat k / 2) (vis n)" "k \<le> 10 * length (g_nodes g)"
    "\<forall>v. vis n = Some v \<longrightarrow> (\<exists>j::nat. v = of_nat j / 2)"
  shows "slack g (vis(n \<mapsto> of_nat k / 2)) < slack g vis"
  unfolding slack_def
proof (rule sum_strict_mono_ex1)
  have "k < (case vis n of None \<Rightarrow> 10 * length (g_nodes g) + 1 | Some v \<Rightarrow> nat \<lfloor>2 * v\<rfloor>)"
  proof (cases "vis n")
    case None
    then show ?thesis using assms(3) by simp
  next
    case (Some v)
    then obtain j :: nat where "v = of_nat j / 2" using assms(4) by blast
    then have "2 * v = of_nat j" "k < j" using Some assms(2) by (simp_all add: improves_def)
    then show ?thesis using Some by (simp only: option.case floor_of_nat nat_int)
  qed
  then show "\<exists>a\<in>set (node_ids g).
      (case (vis(n \<mapsto> of_nat k / 2)) a of None \<Rightarrow> 10 * length (g_nodes g) + 1 | Some v \<Rightarrow> nat \<lfloor>2 * v\<rfloor>) <
      (case vis a of None \<Rightarrow> 10 * length (g_nodes g) + 1 | Some v \<Rightarrow> nat \<lfloor>2 * v\<rfloor>)"
    using assms(1) by (intro bexI [of _ n]) simp_all
  then show "\<forall>a\<in>set (node_ids g).
      (case (vis(n \<mapsto> of_nat k / 2)) a of None \<Rightarrow> 10 * length (g_nodes g) + 1 | Some v \<Rightarrow> nat \<lfloor>2 * v\<rfloor>) \<le>
      (case vis a of None \<Rightarrow> 10 * length (g_nodes g) + 1 | Some v \<Rightarrow> nat \<lfloor>2 * v\<rfloor>)"
    using \<open>k < _\<close> by (auto simp: less_imp_le)
qed simp

section \<open>One relaxation\<close>

lemma is_walk_snoc_iff:
  "is_walk nbrs (xs @ [y]) \<longleftrightarrow> xs = [] \<or> is_walk nbrs xs \<and> y \<in> set (nbrs (last xs))"
  by (induction nbrs xs rule: is_walk.induct) auto

lemma entry_cost_exact:
  assumes "entry_ok g s vis c p" "length (g_nodes g) \<le> 2 ^ 49" "m \<in> set (node_ids g)" "m \<notin> set p"
  shows "fadd c (entry_cost g m) = c + entry_cost g m"
    "\<exists>k\<le>10 * length (g_nodes g). c + entry_cost g m = of_nat k / 2"
proof -
  have p: "p \<noteq> []" "distinct (p @ [m])" "set (p @ [m]) \<subseteq> set (node_ids g)" "c = route_cost g p"
    using assms by (auto simp: entry_ok_def)
  have "length (p @ [m]) = card (set (p @ [m]))" using p(2) by (simp only: distinct_card)
  also have "\<dots> \<le> card (set (node_ids g))" using p(3) by (intro card_mono) simp_all
  also have "\<dots> \<le> length (node_ids g)" by (rule card_length)
  finally have "length (p @ [m]) \<le> length (g_nodes g)" by (simp add: node_count)
  moreover obtain k where k: "k \<le> 10 * (length (p @ [m]) - 1)" "route_cost g (p @ [m]) = of_nat k / 2"
    using route_cost_half by blast
  ultimately have le: "k \<le> 10 * length (g_nodes g)" by simp
  have sum: "c + entry_cost g m = of_nat k / 2" using k(2) p by (simp add: route_cost_snoc)
  moreover have "k \<le> 2 ^ 53" using le assms(2) by simp
  ultimately show "fadd c (entry_cost g m) = c + entry_cost g m" by (simp only: fadd_def fl_half)
  show "\<exists>k\<le>10 * length (g_nodes g). c + entry_cost g m = of_nat k / 2" using le sum by blast
qed

lemma relax_route_spec:
  assumes ok: "named g" "length (g_nodes g) \<le> 2 ^ 49"
    and inv: "search_inv g s t {cur} q (map_of vis)"
    and entry: "entry_ok g s (map_of vis) c p" "last p = cur" "map_of vis cur = Some c"
    and nb: "nb \<in> set (adj_of g cur)"
  shows "\<exists>q' vis'. relax_route g c p (q, vis) nb = Inr (q', vis') \<and>
     search_inv g s t {cur} q' (map_of vis') \<and> better (map_of vis) (map_of vis') \<and>
     map_of vis' cur = Some c \<and>
     (nb \<in> set (node_ids g) \<longrightarrow> (\<exists>w\<le>c + entry_cost g nb. map_of vis' nb = Some w)) \<and>
     2 * slack g (map_of vis') + length q' \<le> 2 * slack g (map_of vis) + length q"
proof (cases "nb \<in> set (node_ids g)")
  case False
  then show ?thesis using inv entry by (auto simp: relax_route_def)
next
  case in_g: True
  let ?nc = "fadd c (entry_cost g nb)"
  note step = named_cost [OF ok(1) in_g]
  show ?thesis
  proof (cases "nb \<in> set p")
    case True
    then obtain v where v: "map_of vis nb = Some v" "v \<le> c" using entry(1) by (auto simp: entry_ok_def)
    have "c \<le> ?nc"
    proof -
      obtain k where k: "c = of_nat k / 2" "k \<le> 10 * length (g_nodes g)"
        using inv entry(3) unfolding search_inv_def by blast
      moreover have "k \<le> 2 ^ 53" using k(2) ok(2) by simp
      ultimately have "fl c = c" by (simp only: fl_half)
      moreover have "c \<le> c + entry_cost g nb" using entry_cost_pos [of g nb] by simp
      ultimately show ?thesis using fl_mono [of c "c + entry_cost g nb"] by (simp add: fadd_def)
    qed
    then have "\<not> improves ?nc (map_of vis nb)" using v by (simp add: improves_def)
    moreover have "v \<le> c + entry_cost g nb" using v(2) entry_cost_pos [of g nb] by linarith
    ultimately show ?thesis using inv entry v in_g by (auto simp: relax_route_def step Let_def)
  next
    case fresh: False
    note nc = entry_cost_exact [OF entry(1) ok(2) in_g fresh]
    show ?thesis
    proof (cases "improves ?nc (map_of vis nb)")
      case False
      then have "\<exists>w\<le>c + entry_cost g nb. map_of vis nb = Some w"
        by (auto simp: improves_def nc(1) split: option.splits)
      then show ?thesis using False inv entry in_g by (auto simp: relax_route_def step Let_def)
    next
      case imp: True
      let ?vis = "dict_set nb ?nc vis" and ?q = "q @ [(?nc, nb, p @ [nb])]"
      have run: "relax_route g c p (q, vis) nb = Inr (?q, ?vis)"
        using imp in_g by (simp add: relax_route_def step Let_def)
      have bet: "better (map_of vis) (map_of ?vis)" using better_update [of ?nc "map_of vis" nb] imp by simp
      have pne: "p \<noteq> []" using entry(1) by (auto simp: entry_ok_def)
      then have ncur: "nb \<noteq> cur" using fresh entry(2) by auto
      have nns: "nb \<noteq> s" using fresh entry(1) pne by (auto simp: entry_ok_def)
      have new: "entry_ok g s (map_of ?vis) ?nc (p @ [nb])"
      proof -
        have up: "c \<le> ?nc" using entry_cost_pos [of g nb] by (simp add: nc(1))
        have old: "entry_ok g s (map_of ?vis) c p" by (rule entry_ok_better [OF entry(1) bet])
        then have "\<forall>x\<in>set p. \<exists>v. map_of ?vis x = Some v \<and> v \<le> ?nc"
          using up unfolding entry_ok_def by (meson order_trans)
        then have "\<forall>x\<in>set (p @ [nb]). \<exists>v. map_of ?vis x = Some v \<and> v \<le> ?nc" by simp
        moreover have "is_walk (steps_from g) (p @ [nb])"
          using entry(1,2) nb in_g by (simp add: entry_ok_def is_walk_snoc_iff set_steps_from)
        moreover have "?nc = route_cost g (p @ [nb])"
          unfolding nc(1) using entry(1) pne by (simp add: route_cost_snoc entry_ok_def)
        moreover have "hd (p @ [nb]) = s" "distinct (p @ [nb])" "set (p @ [nb]) \<subseteq> set (node_ids g)"
          using entry(1) fresh in_g pne by (auto simp: entry_ok_def)
        ultimately show ?thesis unfolding entry_ok_def by blast
      qed
      obtain k where k: "k \<le> 10 * length (g_nodes g)" "?nc = of_nat k / 2" using nc by auto
      have "search_inv g s t {cur} ?q (map_of ?vis)"
        unfolding search_inv_def
      proof (intro conjI allI impI ballI)
        fix e assume "e \<in> set ?q"
        then show "case e of (c, n, p) \<Rightarrow> entry_ok g s (map_of ?vis) c p \<and> last p = n"
          using new inv entry_ok_better [OF _ bet] by (auto simp: search_inv_def)
      next
        show "map_of ?vis s = Some 0" using inv nns by (simp add: search_inv_def)
      next
        fix n v assume "map_of ?vis n = Some v"
        then show "\<exists>k\<le>10 * length (g_nodes g). v = of_nat k / 2"
          using inv k by (auto simp: search_inv_def split: if_splits)
      next
        fix n v assume *: "map_of ?vis n = Some v" "n \<notin> {cur}"
        show "pending ?q n v \<or> n \<noteq> t \<and> settled g (map_of ?vis) n v"
        proof (cases "n = nb")
          case True
          then show ?thesis using * by (auto simp: pending_def)
        next
          case False
          then have "pending q n v \<or> n \<noteq> t \<and> settled g (map_of vis) n v"
            using * inv by (simp add: search_inv_def)
          then show ?thesis using settled_better [OF _ bet] by (auto simp: pending_def)
        qed
      qed
      moreover have "slack g (map_of ?vis) < slack g (map_of vis)"
      proof -
        have "\<forall>v. map_of vis nb = Some v \<longrightarrow> (\<exists>j::nat. v = of_nat j / 2)"
          using inv unfolding search_inv_def by blast
        from slack_update [of nb g k "map_of vis", OF in_g imp [unfolded k(2)] k(1) this] show ?thesis
          by (simp only: map_of_dict_set k(2))
      qed
      ultimately show ?thesis
        using run bet entry(3) ncur in_g by (auto simp: nc(1))
    qed
  qed
qed

section \<open>The loop\<close>

lemma relax_all_spec:
  assumes "named g" "length (g_nodes g) \<le> 2 ^ 49"
    "search_inv g s t {cur} q (map_of vis)"
    "entry_ok g s (map_of vis) c p" "last p = cur" "map_of vis cur = Some c"
    "set nbs \<subseteq> set (adj_of g cur)"
  shows "\<exists>q' vis'. fold_res (relax_route g c p) (q, vis) nbs = Inr (q', vis') \<and>
     search_inv g s t {cur} q' (map_of vis') \<and> better (map_of vis) (map_of vis') \<and>
     map_of vis' cur = Some c \<and>
     (\<forall>nb\<in>set nbs \<inter> set (node_ids g). \<exists>w\<le>c + entry_cost g nb. map_of vis' nb = Some w) \<and>
     2 * slack g (map_of vis') + length q' \<le> 2 * slack g (map_of vis) + length q"
  using assms(3-)
proof (induction nbs arbitrary: q vis)
  case Nil
  then show ?case by simp
next
  case (Cons nb nbs)
  from Cons.prems have "nb \<in> set (adj_of g cur)" by simp
  from relax_route_spec [OF assms(1,2) Cons.prems(1-4) this] obtain q1 vis1 where
    one: "relax_route g c p (q, vis) nb = Inr (q1, vis1)" "search_inv g s t {cur} q1 (map_of vis1)"
      "better (map_of vis) (map_of vis1)" "map_of vis1 cur = Some c"
      "nb \<in> set (node_ids g) \<Longrightarrow> \<exists>w\<le>c + entry_cost g nb. map_of vis1 nb = Some w"
      "2 * slack g (map_of vis1) + length q1 \<le> 2 * slack g (map_of vis) + length q" by blast
  from Cons.IH [OF one(2) entry_ok_better [OF Cons.prems(2) one(3)] Cons.prems(3) one(4)] Cons.prems(5)
  obtain q2 vis2 where
    two: "fold_res (relax_route g c p) (q1, vis1) nbs = Inr (q2, vis2)" "search_inv g s t {cur} q2 (map_of vis2)"
      "better (map_of vis1) (map_of vis2)" "map_of vis2 cur = Some c"
      "\<forall>nb\<in>set nbs \<inter> set (node_ids g). \<exists>w\<le>c + entry_cost g nb. map_of vis2 nb = Some w"
      "2 * slack g (map_of vis2) + length q2 \<le> 2 * slack g (map_of vis1) + length q1" by auto
  have "\<exists>w\<le>c + entry_cost g nb. map_of vis2 nb = Some w" if "nb \<in> set (node_ids g)"
    using one(5) [OF that] two(3) unfolding better_def by (meson order_trans)
  then show ?case
    using one(1,6) two better_trans [OF one(3) two(3)] by (intro exI [of _ q2] exI [of _ vis2]) auto
qed

lemma search_inv_weaken:
  assumes "search_inv g s t X q vis" "set rest \<subseteq> set q"
    "\<And>n v. vis n = Some v \<Longrightarrow> n \<notin> Y \<Longrightarrow> n \<notin> X \<and> (pending q n v \<longrightarrow> pending rest n v)"
  shows "search_inv g s t Y rest vis"
  unfolding search_inv_def
proof (intro conjI allI impI)
  show "\<forall>(c, n, p)\<in>set rest. entry_ok g s vis c p \<and> last p = n"
    using assms(1,2) by (auto simp: search_inv_def)
  show "vis s = Some 0" using assms(1) by (simp add: search_inv_def)
  fix n v assume "vis n = Some v"
  then show "\<exists>k\<le>10 * length (g_nodes g). v = of_nat k / 2" using assms(1) by (simp add: search_inv_def)
next
  fix n v assume *: "vis n = Some v" "n \<notin> Y"
  with assms(3) have "n \<notin> X" "pending q n v \<longrightarrow> pending rest n v" by blast+
  then show "pending rest n v \<or> n \<noteq> t \<and> settled g vis n v" using assms(1) *(1) unfolding search_inv_def by blast
qed

text \<open>Popping an entry for another node, or a stale one, loses no pending node.\<close>

lemma search_inv_pop:
  assumes "search_inv g s t {} q vis" "q \<noteq> []" "heappop q = ((c, cur, p), rest)"
  shows "search_inv g s t {cur} rest vis" "stale c (vis cur) \<Longrightarrow> search_inv g s t {} rest vis"
    "entry_ok g s vis c p" "last p = cur" "\<not> stale c (vis cur) \<Longrightarrow> vis cur = Some c"
proof -
  note pop = heappop_spec [OF assms(2,3)]
  have e: "entry_ok g s vis c p \<and> last p = cur" using assms(1) pop(1) by (auto simp: search_inv_def)
  then show "entry_ok g s vis c p" "last p = cur" by simp_all
  then obtain v where v: "vis cur = Some v" "v \<le> c"
    unfolding entry_ok_def by (metis is_walk.simps(1) last_in_set)
  then show "\<not> stale c (vis cur) \<Longrightarrow> vis cur = Some c" by (simp add: stale_def)
  have keep: "pending q n w \<Longrightarrow> n \<noteq> cur \<or> w \<noteq> c \<Longrightarrow> pending rest n w" for n w
    using pop(5) by (auto simp: pending_def)
  show "search_inv g s t {cur} rest vis"
    by (rule search_inv_weaken [OF assms(1) pop(4)]) (simp add: keep)
  assume "stale c (vis cur)"
  then have vc: "v \<noteq> c" using v by (simp add: stale_def)
  show "search_inv g s t {} rest vis"
  proof (rule search_inv_weaken [OF assms(1) pop(4)])
    fix n w assume "vis n = Some w"
    then have "n \<noteq> cur \<or> w \<noteq> c" using v(1) vc by auto
    then show "n \<notin> {} \<and> (pending q n w \<longrightarrow> pending rest n w)" using keep by simp
  qed
qed

text \<open>When nothing pending costs at most C, no route of cost at most C reaches the crown jewel.\<close>

lemma no_cheap_route:
  assumes "search_inv g s t {} q vis" "\<forall>(c, n, p)\<in>set q. C < c"
    "p \<in> routes g s t" "route_cost g p \<le> C"
  shows False
proof -
  have at_best: "n \<noteq> t \<and> settled g vis n v" if "vis n = Some v" "v \<le> C" for n v
    using assms(1,2) that unfolding search_inv_def pending_def by fastforce
  have "\<exists>v\<le>route_cost g p. vis (last p) = Some v"
    if "is_walk (steps_from g) p" "hd p = s" "route_cost g p \<le> C" for p
    using that
  proof (induction p rule: rev_induct)
    case (snoc m p)
    show ?case
    proof (cases "p = []")
      case True
      then show ?thesis using snoc.prems assms(1) by (simp add: search_inv_def)
    next
      case False
      have w: "is_walk (steps_from g) p" "m \<in> set (steps_from g (last p))"
        using snoc.prems(1) False by (simp_all add: is_walk_snoc_iff)
      have le: "route_cost g p \<le> C"
        using snoc.prems(3) False entry_cost_pos [of g m] by (simp add: route_cost_snoc)
      then obtain v where v: "v \<le> route_cost g p" "vis (last p) = Some v"
        using snoc.IH [OF w(1)] snoc.prems(2) False by auto
      then have "settled g vis (last p) v" using at_best le by auto
      then obtain x where "vis m = Some x" "x \<le> v + entry_cost g m" using w(2) by (auto simp: settled_def)
      then show ?thesis using v(1) False by (intro exI [of _ x]) (simp add: route_cost_snoc)
    qed
  qed simp
  from this [of p] assms(3,4) obtain v where "v \<le> C" "vis t = Some v"
    unfolding routes_def by force
  then show False using at_best by blast
qed

definition least_route :: "asset_graph \<Rightarrow> string \<Rightarrow> string \<Rightarrow> string list \<times> float option \<Rightarrow> bool" where
  "least_route g s t r \<longleftrightarrow>
     (case r of
        (p, Some c) \<Rightarrow> p \<in> routes g s t \<and> distinct p \<and> c = route_cost g p \<and>
          (\<forall>p'\<in>routes g s t. c \<le> route_cost g p')
      | (p, None) \<Rightarrow> p = [] \<and> routes g s t = {})"

lemma cheapest_loop_spec:
  assumes ok: "named g" "length (g_nodes g) \<le> 2 ^ 49" and inv: "search_inv g s t {} q (map_of vis)"
  shows "\<exists>r. cheapest_loop g t q vis = Some (Inr r) \<and> least_route g s t r"
  using inv
proof (induction "2 * slack g (map_of vis) + length q" arbitrary: q vis rule: less_induct)
  case less
  show ?case
  proof (cases "q = []")
    case True
    then have "routes g s t = {}" using no_cheap_route [OF less.prems] by auto
    then show ?thesis using True by (simp add: cheapest_loop.simps least_route_def)
  next
    case ne: False
    obtain c cur p rest where e: "heappop q = ((c, cur, p), rest)" by (metis prod.exhaust)
    note pop = heappop_spec [OF ne e] and inv' = search_inv_pop [OF less.prems ne e]
    consider "cur = t" | "cur \<noteq> t" "stale c (map_of vis cur)" | "cur \<noteq> t" "\<not> stale c (map_of vis cur)" by blast
    then show ?thesis
    proof cases
      case 1
      have "c \<le> route_cost g p'" if p': "p' \<in> routes g s t" for p'
      proof (rule ccontr)
        assume lt: "\<not> c \<le> route_cost g p'"
        have "\<forall>(d, n, r)\<in>set q. route_cost g p' < d" using pop(2) lt by fastforce
        then show False using no_cheap_route [OF less.prems _ p'] by blast
      qed
      moreover have "p \<in> routes g s t" using inv'(3,4) 1 by (simp add: entry_ok_def routes_def)
      ultimately show ?thesis
        using 1 ne e inv'(3) by (simp add: cheapest_loop.simps least_route_def entry_ok_def)
    next
      case 2
      then show ?thesis
        using less.hyps [of vis rest] inv'(2) pop(6) ne e by (simp add: cheapest_loop.simps [of _ _ q])
    next
      case 3
      from relax_all_spec [OF ok inv'(1,3,4) inv'(5) [OF 3(2)] order_refl]
      obtain q' vis' where r: "fold_res (relax_route g c p) (rest, vis) (adj_of g cur) = Inr (q', vis')"
        "search_inv g s t {cur} q' (map_of vis')" "map_of vis' cur = Some c"
        "\<forall>nb\<in>set (adj_of g cur) \<inter> set (node_ids g). \<exists>w\<le>c + entry_cost g nb. map_of vis' nb = Some w"
        "2 * slack g (map_of vis') + length q' \<le> 2 * slack g (map_of vis) + length rest" by blast
      have "settled g (map_of vis') cur c" using r(4) by (auto simp: settled_def set_steps_from)
      then have "search_inv g s t {} q' (map_of vis')"
        using r(2,3) 3(1) unfolding search_inv_def by (simp, metis option.inject)
      then show ?thesis
        using less.hyps [of vis' q'] r(1,5) pop(6) ne e 3 by (simp add: cheapest_loop.simps [of _ _ q])
    qed
  qed
qed

section \<open>The answer\<close>

text \<open>
  C24: On a graph whose node names are strings, the search always returns, and its answer is a simple
  route from the entry to the crown jewel whose cost, summed in floating point, is exact and not above
  that of any other route; no route is reported only when there is none.
\<close>
theorem find_attack_path_least:
  assumes "named g" "length (g_nodes g) \<le> 2 ^ 49" "entry \<in> set (node_ids g)" "crown \<in> set (node_ids g)"
  shows "\<exists>r. find_attack_path g entry crown = Inr r \<and> least_route g entry crown r"
proof -
  have "entry_ok g entry (map_of [(entry, 0)]) 0 [entry]"
    using assms(3) by (simp add: entry_ok_def)
  then have "search_inv g entry crown {} [(0, entry, [entry])] (map_of [(entry, 0)])"
    by (auto simp: search_inv_def pending_def split: if_splits intro!: exI [of _ 0])
  from cheapest_loop_spec [OF assms(1,2) this] show ?thesis
    using assms(3,4) by (auto simp: find_attack_path_def)
qed

text \<open>An endpoint the graph does not know gives no route.\<close>

lemma find_attack_path_unknown:
  "entry \<notin> set (node_ids g) \<or> crown \<notin> set (node_ids g) \<Longrightarrow> find_attack_path g entry crown = Inr ([], None)"
  by (simp add: find_attack_path_def)

section \<open>Agreement with the other searches\<close>

lemma routes_walks:
  assumes "s \<in> set (node_ids g)"
  shows "(\<exists>p. p \<in> routes g s t) \<longleftrightarrow> (\<exists>p. is_walk (neighbours g) p \<and> hd p = s \<and> last p = t)"
proof
  assume "\<exists>p. is_walk (neighbours g) p \<and> hd p = s \<and> last p = t"
  then obtain p where p: "is_walk (neighbours g) p" "hd p = s" "last p = t" by blast
  from p(1) have "is_walk (steps_from g) p"
    by (induction "neighbours g" p rule: is_walk.induct) (auto simp: set_neighbours set_steps_from)
  then show "\<exists>p. p \<in> routes g s t" using p by (auto simp: routes_def)
next
  assume "\<exists>p. p \<in> routes g s t"
  then obtain p where p: "is_walk (steps_from g) p" "hd p = s" "last p = t" by (auto simp: routes_def)
  from p(1) have "\<exists>q. is_walk (neighbours g) q \<and> hd q = hd p \<and> last q = last p"
  proof (induction p rule: rev_induct)
    case (snoc m p)
    show ?case
    proof (cases "p = []")
      case True
      then show ?thesis by (intro exI [of _ "[m]"]) simp
    next
      case False
      then have w: "is_walk (steps_from g) p" "m \<in> set (steps_from g (last p))"
        using snoc.prems by (simp_all add: is_walk_snoc_iff)
      from snoc.IH [OF w(1)] obtain q where q: "is_walk (neighbours g) q" "hd q = hd p" "last q = last p" by blast
      then have qne: "q \<noteq> []" by auto
      show ?thesis
      proof (cases "m = last p")
        case True
        then show ?thesis using q False by auto
      next
        case m: False
        then have "m \<in> set (neighbours g (last q))" using w(2) q(3) by (auto simp: set_neighbours set_steps_from)
        then show ?thesis
          using q qne False by (intro exI [of _ "q @ [m]"]) (simp add: is_walk_snoc_iff)
      qed
    qed
  qed simp
  then show "\<exists>p. is_walk (neighbours g) p \<and> hd p = s \<and> last p = t" using p by simp
qed

text \<open>
  C39: The kill chain and the breadth-first search of the graph agree on reachability: one reports no
  route exactly when the other reports no path.
\<close>
theorem attack_path_agrees_with_bfs:
  assumes "named g" "length (g_nodes g) \<le> 2 ^ 49" "s \<in> set (node_ids g)" "t \<in> set (node_ids g)"
  shows "\<exists>p c r. find_attack_path g s t = Inr (p, c) \<and> shortest_path_python g s t = Inr r \<and>
     (c = None \<longleftrightarrow> r = None)"
proof -
  obtain p c where r: "find_attack_path g s t = Inr (p, c)" "least_route g s t (p, c)"
    using find_attack_path_least [OF assms] by auto
  obtain b where b: "shortest_path_python g s t = Inr b" "fewest_hops (neighbours g) s t b"
    using shortest_path_python_spec [OF assms(3)] by blast
  have "c = None \<longleftrightarrow> routes g s t = {}" using r(2) by (auto simp: least_route_def split: option.splits)
  moreover have "b = None \<longleftrightarrow> (\<nexists>p. is_walk (neighbours g) p \<and> hd p = s \<and> last p = t)"
    using b(2) by (auto simp: fewest_hops_def split: option.splits)
  ultimately show ?thesis using r(1) b(1) routes_walks [OF assms(3), of t] by blast
qed

section \<open>The order of a neighbour set\<close>

definition bettered :: "asset_graph \<Rightarrow> float \<Rightarrow> best \<Rightarrow> string \<Rightarrow> bool" where
  "bettered g c vis nb \<longleftrightarrow> nb \<in> set (node_ids g) \<and> improves (fadd c (entry_cost g nb)) (vis nb)"

lemma relax_all_closed:
  assumes "distinct nbs"
  shows "fold_res (relax_route g c p) (q, vis) nbs =
     (if \<exists>nb\<in>set nbs \<inter> set (node_ids g). isl (step_cost g nb) then Inl (TypeError ''no attribute lower'')
      else let bs = filter (bettered g c (map_of vis)) nbs
           in Inr (q @ map (\<lambda>nb. (fadd c (entry_cost g nb), nb, p @ [nb])) bs,
                   foldl (\<lambda>v nb. dict_set nb (fadd c (entry_cost g nb)) v) vis bs))"
  using assms
proof (induction nbs arbitrary: q vis)
  case Nil
  then show ?case by simp
next
  case (Cons nb nbs)
  have err: "step_cost g nb = Inl e \<Longrightarrow> e = TypeError ''no attribute lower''" for e
    by (auto simp: step_cost_def split: pyval.splits)
  have frame: "filter (bettered g c (map_of (dict_set nb w vis))) nbs = filter (bettered g c (map_of vis)) nbs" for w
    using Cons.prems by (intro filter_cong) (auto simp: bettered_def)
  show ?case
  proof (cases "nb \<in> set (node_ids g)")
    case False
    then have "relax_route g c p (q, vis) nb = Inr (q, vis)" "\<not> bettered g c (map_of vis) nb"
      by (simp_all add: relax_route_def bettered_def)
    then show ?thesis using False Cons by simp
  next
    case True
    show ?thesis
    proof (cases "step_cost g nb")
      case (Inl e)
      then show ?thesis using True err [OF Inl] by (auto simp: relax_route_def)
    next
      case (Inr w)
      then have w: "entry_cost g nb = w" by (simp add: entry_cost_def)
      have "relax_route g c p (q, vis) nb =
          (if bettered g c (map_of vis) nb then Inr (q @ [(fadd c w, nb, p @ [nb])], dict_set nb (fadd c w) vis)
           else Inr (q, vis))"
        using True Inr w by (simp add: relax_route_def bettered_def Let_def)
      then show ?thesis using True Cons frame Inr w by (simp add: Let_def)
    qed
  qed
qed

lemma map_of_foldl_set:
  "distinct bs \<Longrightarrow> map_of (foldl (\<lambda>v nb. dict_set nb (f nb) v) vis bs) =
     (\<lambda>n. if n \<in> set bs then Some (f n) else map_of vis n)"
  by (induction bs arbitrary: vis) (auto simp: fun_eq_iff)

lemma heappop_mset:
  assumes "mset q = mset q'" "q \<noteq> []"
  shows "fst (heappop q) = fst (heappop q')" "mset (snd (heappop q)) = mset (snd (heappop q'))"
proof -
  have ne: "q' \<noteq> []" using assms by auto
  obtain m r m' r' where e: "heappop q = (m, r)" "heappop q' = (m', r')" by (metis prod.exhaust)
  note p = heappop_spec [OF assms(2) e(1)] and p' = heappop_spec [OF ne e(2)]
  have "set q = set q'" using assms(1) by (metis set_mset_mset)
  then have "m = m'" using p(1,2) p'(1,2) by (auto intro: antisym)
  then show "fst (heappop q) = fst (heappop q')" "mset (snd (heappop q)) = mset (snd (heappop q'))"
    using p(3) p'(3) assms(1) by (simp_all add: e)
qed

definition same_up_to_order :: "asset_graph \<Rightarrow> asset_graph \<Rightarrow> bool" where
  "same_up_to_order g h \<longleftrightarrow> g_nodes h = g_nodes g \<and>
     (\<forall>a. distinct (adj_of g a) \<and> distinct (adj_of h a) \<and> set (adj_of h a) = set (adj_of g a))"

lemma same_up_to_order_sym: "same_up_to_order g h \<Longrightarrow> same_up_to_order h g"
  by (simp add: same_up_to_order_def)

lemma same_costs:
  assumes "same_up_to_order g h"
  shows "node_ids h = node_ids g" "step_cost h = step_cost g" "entry_cost h = entry_cost g"
    "bettered h = bettered g"
proof -
  have n: "g_nodes h = g_nodes g" using assms by (simp add: same_up_to_order_def)
  then have m: "node_meta h = node_meta g" by (simp add: node_meta_def fun_eq_iff)
  show i: "node_ids h = node_ids g" using n by (simp add: node_ids_def)
  show s: "step_cost h = step_cost g" by (rule ext) (simp only: step_cost_def m)
  show e: "entry_cost h = entry_cost g" by (rule ext) (simp only: entry_cost_def s)
  show "bettered h = bettered g" by (intro ext) (simp only: bettered_def i e)
qed

lemma relax_all_order:
  assumes "same_up_to_order g h" "mset q = mset q'" "map_of vis = map_of vis'"
  shows "(\<exists>e. fold_res (relax_route g c p) (q, vis) (adj_of g a) = Inl e \<and>
      fold_res (relax_route h c p) (q', vis') (adj_of h a) = Inl e) \<or>
    (\<exists>r v r' v'. fold_res (relax_route g c p) (q, vis) (adj_of g a) = Inr (r, v) \<and>
      fold_res (relax_route h c p) (q', vis') (adj_of h a) = Inr (r', v') \<and>
      mset r = mset r' \<and> map_of v = map_of v')"
proof -
  have d: "distinct (adj_of g a)" "distinct (adj_of h a)" "set (adj_of h a) = set (adj_of g a)"
    using assms(1) by (simp_all add: same_up_to_order_def)
  let ?P = "bettered g c (map_of vis)"
  have "mset (filter ?P (adj_of g a)) = mset (filter ?P (adj_of h a))"
    using d by (intro set_eq_iff_mset_eq_distinct [THEN iffD1]) auto
  then have "mset (map f (filter ?P (adj_of g a))) = mset (map f (filter ?P (adj_of h a)))" for f :: "string \<Rightarrow> route"
    by (simp only: mset_map)
  then show ?thesis
    using d assms(2,3) by (auto simp: relax_all_closed same_costs [OF assms(1)] map_of_foldl_set Let_def)
qed

definition same_answer :: "asset_graph \<Rightarrow> string \<Rightarrow> route list \<Rightarrow> (string, float) dict \<Rightarrow>
    exc + string list \<times> float option \<Rightarrow> bool" where
  "same_answer g t q vis r \<longleftrightarrow>
     (\<forall>h q' vis'. same_up_to_order g h \<longrightarrow> mset q = mset q' \<longrightarrow> map_of vis = map_of vis' \<longrightarrow>
        cheapest_loop h t q' vis' = Some r)"

lemma cheapest_loop_order:
  assumes "cheapest_loop g t q vis = Some r"
  shows "same_answer g t q vis r"
proof (rule cheapest_loop.raw_induct [of same_answer, OF _ assms])
  fix loop g t r
  fix q :: "route list" and vis :: "(string, float) dict"
  assume IH: "\<And>g t q vis r. loop g t q vis = Some r \<Longrightarrow> same_answer g t q vis r"
    and body: "(if q = [] then Some (Inr ([], None))
      else case heappop q of ((c, cur, path), rest) \<Rightarrow>
          if cur = t then Some (Inr (path, Some c))
          else if stale c (map_of vis cur) then loop g t rest vis
          else case fold_res (relax_route g c path) (rest, vis) (adj_of g cur) of
              Inl e \<Rightarrow> Some (Inl e) | Inr st \<Rightarrow> loop g t (fst st) (snd st)) = Some r"
  show "same_answer g t q vis r"
    unfolding same_answer_def
  proof (intro allI impI)
    fix h q' vis' assume h: "same_up_to_order g h" "mset q = mset q'" "map_of vis = map_of vis'"
    show "cheapest_loop h t q' vis' = Some r"
    proof (cases "q = []")
      case True
      then show ?thesis using body h(2) by (simp add: cheapest_loop.simps)
    next
      case False
      then have ne: "q' \<noteq> []" using h(2) by auto
      note pop = heappop_mset [OF h(2) False]
      obtain c cur p rest where e: "heappop q = ((c, cur, p), rest)" by (metis prod.exhaust)
      then obtain rest' where e': "heappop q' = ((c, cur, p), rest')" "mset rest = mset rest'"
        using pop by (cases "heappop q'") auto
      consider "cur = t" | "cur \<noteq> t" "stale c (map_of vis cur)" | "cur \<noteq> t" "\<not> stale c (map_of vis cur)" by blast
      then show ?thesis
      proof cases
        case 1
        then show ?thesis using body ne e e'(1) False by (simp add: cheapest_loop.simps [of _ _ q'])
      next
        case 2
        then have "same_answer g t rest vis r" using IH body e False by simp
        then have "cheapest_loop h t rest' vis' = Some r" using h(1,3) e'(2) unfolding same_answer_def by blast
        then show ?thesis using 2 ne e'(1) h(3) by (simp add: cheapest_loop.simps [of _ _ q'])
      next
        case 3
        note both = relax_all_order [OF h(1) e'(2) h(3), of c p cur]
        show ?thesis
        proof (cases "fold_res (relax_route g c p) (rest, vis) (adj_of g cur)")
          case (Inl er)
          then show ?thesis
            using both body h(3) False ne 3 e' e by (auto simp: cheapest_loop.simps [of _ _ q'])
        next
          case (Inr st)
          then obtain q2 v2 q2' v2' where s: "st = (q2, v2)"
            "fold_res (relax_route h c p) (rest', vis') (adj_of h cur) = Inr (q2', v2')"
            "mset q2 = mset q2'" "map_of v2 = map_of v2'" using both by auto
          have "same_answer g t q2 v2 r" using IH body False e 3 Inr s(1) by simp
          then have "cheapest_loop h t q2' v2' = Some r" using h(1) s(3,4) unfolding same_answer_def by blast
          then show ?thesis using h(3) ne 3 e'(1) s(2) by (simp add: cheapest_loop.simps [of _ _ q'])
        qed
      qed
    qed
  qed
qed

text \<open>
  The reported route does not depend on the order in which the neighbour sets are iterated: ties are
  broken by the queue alone, on cost, node name and path.
\<close>
theorem attack_path_canonical:
  assumes "same_up_to_order g h"
  shows "find_attack_path g s t = find_attack_path h s t"
proof -
  let ?q = "[(0, s, [s])]" and ?v = "[(s, 0)]"
  have "cheapest_loop g t ?q ?v = Some r \<longleftrightarrow> cheapest_loop h t ?q ?v = Some r" for r
    using cheapest_loop_order [of g t ?q ?v] cheapest_loop_order [of h t ?q ?v] assms same_up_to_order_sym [OF assms]
    unfolding same_answer_def by blast
  then have "cheapest_loop g t ?q ?v = cheapest_loop h t ?q ?v" by (metis not_Some_eq)
  then show ?thesis by (simp add: find_attack_path_def same_costs [OF assms])
qed

section \<open>The text of a value\<close>

text \<open>\<open>repr\<close> of a string: single quotes unless only those occur in it, and escapes for what is not printable.\<close>

definition repr_char :: "char \<Rightarrow> char \<Rightarrow> string" where
  "repr_char quote c =
     (let n = ord_of c
      in if c = quote \<or> c = bs_char then [bs_char, c]
         else if n = 9 then [bs_char, CHR ''t'']
         else if n = 10 then [bs_char, CHR ''n'']
         else if n = 13 then [bs_char, CHR ''r'']
         else if n < 32 \<or> 126 < n \<and> n < 161 \<or> n = 173
         then [bs_char, CHR ''x'', hex_char (n div 16), hex_char (n mod 16)]
         else [c])"

definition sq_char :: char where "sq_char = CHR 0x27"

definition repr_str :: "string \<Rightarrow> string" where
  "repr_str s =
     (let quote = (if sq_char \<in> set s \<and> dq_char \<notin> set s then dq_char else sq_char)
      in quote # concat (map (repr_char quote) s) @ [quote])"

fun py_repr :: "pyval \<Rightarrow> string" where
  "py_repr PNone = ''None''"
| "py_repr (PBool b) = (if b then ''True'' else ''False'')"
| "py_repr (PInt i) = show_int i"
| "py_repr (PFloat m k) = show_float m k"
| "py_repr (PStr s) = repr_str s"
| "py_repr (PList vs) = CHR ''['' # join_str '', '' (map py_repr vs) @ '']''"
| "py_repr (PDict d) =
     CHR ''{'' # join_str '', '' (map (\<lambda>(k, v). repr_str k @ '': '' @ py_repr v) d) @ ''}''"

text \<open>What an f-string prints.\<close>

definition py_format :: "pyval \<Rightarrow> string" where
  "py_format v = (case v of PStr s \<Rightarrow> s | _ \<Rightarrow> py_repr v)"

text \<open>\<open>repr\<close> of a cost: a multiple of one half far below 10^16, so one digit after the point.\<close>

definition show_cost :: "float \<Rightarrow> string" where
  "show_cost c = show_float \<lfloor>10 * c\<rfloor> 1"

section \<open>The engagement route\<close>

record chain_step =
  ch_step :: nat
  ch_from :: string
  ch_to :: string
  ch_tactic :: string
  ch_action :: string

definition chain_action :: "pydict \<Rightarrow> pydict \<Rightarrow> string \<times> string" where
  "chain_action src dst =
     (if dget src ''kind'' = PStr ''host'' \<and> dget dst ''kind'' = PStr ''service''
      then (''Reconnaissance'',
            ''Reach exposed service ('' @ py_format (dget_or dst ''name'' (PStr ''service'')) @ '') on target'')
      else if dget dst ''kind'' = PStr ''database'' \<or> contains ''sql'' (lower (py_repr (PDict dst)))
      then (''Assessment'', ''Collect exposed data store output'')
      else (''Discovery'', ''Route to adjacent node''))"

definition simulate_chaining :: "asset_graph \<Rightarrow> string list \<Rightarrow> chain_step list" where
  "simulate_chaining g path =
     map (\<lambda>i. let src = path ! i; dst = path ! (i + 1);
                  (tactic, action) = chain_action (node_meta g src) (node_meta g dst)
              in \<lparr>ch_step = i + 1, ch_from = src, ch_to = dst, ch_tactic = tactic, ch_action = action\<rparr>)
       [0..<length path - 1]"

definition unreachable_text :: "string \<Rightarrow> string \<Rightarrow> string" where
  "unreachable_text entry crown =
     ''[!] No reachable path found from '' @ [sq_char] @ entry @ [sq_char] @ '' to '' @ [sq_char] @ crown @
       [sq_char] @ ''.''"

definition step_lines :: "chain_step \<Rightarrow> string list" where
  "step_lines st =
     [''### Step '' @ show_nat (ch_step st) @ '': '' @ ch_tactic st,
      ''- **Route:** `'' @ ch_from st @ ''` -> `'' @ ch_to st @ ''`'',
      ''- **Action:** '' @ ch_action st, []]"

definition plan_lines :: "string \<Rightarrow> string \<Rightarrow> float \<Rightarrow> chain_step list \<Rightarrow> string list" where
  "plan_lines entry crown cost chain =
     [''# HELIOS-NET :: ENGAGEMENT ROUTE PLAN'', ''**Entry Point:** `'' @ entry @ ''`'',
      ''**Priority Asset:** `'' @ crown @ ''`'',
      ''**Calculated Resistance Cost:** `'' @ show_cost cost @ ''`'', [], ''## Route Steps''] @
     concat (map step_lines chain)"

definition generate_kill_chain_plan :: "asset_graph \<Rightarrow> string \<Rightarrow> string \<Rightarrow> exc + string" where
  "generate_kill_chain_plan g entry crown =
     bind_res (find_attack_path g entry crown) (\<lambda>(path, total).
       case total of
         None \<Rightarrow> Inr (unreachable_text entry crown)
       | Some cost \<Rightarrow>
           if path = [] then Inr (unreachable_text entry crown)
           else Inr (join_str [lf_char] (plan_lines entry crown cost (simulate_chaining g path))))"

lemma chain_links:
  "map (\<lambda>st. (ch_from st, ch_to st)) (simulate_chaining g path) = zip path (tl path)"
  "map ch_step (simulate_chaining g path) = [1..<length path]"
proof -
  show "map (\<lambda>st. (ch_from st, ch_to st)) (simulate_chaining g path) = zip path (tl path)"
    by (rule nth_equalityI) (auto simp: simulate_chaining_def Let_def nth_tl split: prod.splits)
  show "map ch_step (simulate_chaining g path) = [1..<length path]"
    by (rule nth_equalityI) (auto simp: simulate_chaining_def Let_def split: prod.splits)
qed

text \<open>
  The plan says that nothing is reachable exactly when no route exists; otherwise it states the least
  cost and lists, in order and numbered from one, the consecutive hops of a simple route of that cost.
\<close>
theorem kill_chain_plan_spec:
  assumes "named g" "length (g_nodes g) \<le> 2 ^ 49" "s \<in> set (node_ids g)" "t \<in> set (node_ids g)"
  shows "(routes g s t = {} \<and> generate_kill_chain_plan g s t = Inr (unreachable_text s t)) \<or>
    (\<exists>p chain. least_route g s t (p, Some (route_cost g p)) \<and>
       map ch_step chain = [1..<length p] \<and> map (\<lambda>st. (ch_from st, ch_to st)) chain = zip p (tl p) \<and>
       generate_kill_chain_plan g s t =
         Inr (join_str [lf_char] (plan_lines s t (route_cost g p) chain)))"
proof -
  obtain p c where r: "find_attack_path g s t = Inr (p, c)" "least_route g s t (p, c)"
    using find_attack_path_least [OF assms] by auto
  show ?thesis
  proof (cases c)
    case None
    then show ?thesis using r by (simp add: generate_kill_chain_plan_def least_route_def)
  next
    case (Some x)
    then have "p \<noteq> []" "x = route_cost g p" using r(2) by (auto simp: least_route_def routes_def)
    then show ?thesis
      using r Some chain_links [of g p]
      by (intro disjI2 exI [of _ p] exI [of _ "simulate_chaining g p"])
        (simp add: generate_kill_chain_plan_def)
  qed
qed

section \<open>An example graph\<close>

definition route_sample :: asset_graph where
  "route_sample =
     add_edge ''host:a'' ''svc:web'' (add_edge ''svc:web'' ''db'' (add_edge ''host:a'' ''jump'' (add_edge ''jump'' ''db''
       (add_node ''svc:web'' ''service'' [(''name'', PStr ''SSH'')]
          (add_node ''host:a'' ''host'' [(''ip'', PStr ''10.0.0.1'')] empty_graph)))))"

lemma route_sample_nodes: "g_nodes route_sample =
    [(''host:a'', [(''id'', PStr ''host:a''), (''kind'', PStr ''host''), (''ip'', PStr ''10.0.0.1'')]),
     (''svc:web'', [(''id'', PStr ''svc:web''), (''kind'', PStr ''service''), (''name'', PStr ''SSH'')]),
     (''jump'', [(''id'', PStr ''jump''), (''kind'', PStr ''asset'')]),
     (''db'', [(''id'', PStr ''db''), (''kind'', PStr ''asset'')])]"
  by code_simp

lemma route_sample_ok: "named route_sample" "length (g_nodes route_sample) \<le> 2 ^ 49"
  "set (node_ids route_sample) = {''host:a'', ''svc:web'', ''jump'', ''db''}"
proof -
  show "named route_sample" by code_simp
  show "length (g_nodes route_sample) \<le> 2 ^ 49" by (simp add: route_sample_nodes)
  show "set (node_ids route_sample) = {''host:a'', ''svc:web'', ''jump'', ''db''}"
    by (simp add: node_ids_def route_sample_nodes)
qed

text \<open>The two-hop detour over the jump host beats the service, whose weight is 5.\<close>

lemma route_sample_path:
  "find_attack_path route_sample ''host:a'' ''db'' = Inr ([''host:a'', ''jump'', ''db''], Some 2)"
  by (code_simp, (subst cheapest_loop.simps, code_simp)+)

theorem find_attack_path_least_witness:
  "\<exists>r. find_attack_path route_sample ''host:a'' ''db'' = Inr r \<and> least_route route_sample ''host:a'' ''db'' r"
  by (rule find_attack_path_least [OF route_sample_ok(1,2)]) (simp_all add: route_sample_ok(3))

theorem attack_path_agrees_with_bfs_witness:
  "\<exists>p c r. find_attack_path route_sample ''host:a'' ''db'' = Inr (p, c) \<and>
     shortest_path_python route_sample ''host:a'' ''db'' = Inr r \<and> (c = None \<longleftrightarrow> r = None)"
  by (rule attack_path_agrees_with_bfs [OF route_sample_ok(1,2)]) (simp_all add: route_sample_ok(3))

theorem attack_path_canonical_witness:
  "find_attack_path route_sample ''host:a'' ''db'' = find_attack_path route_sample ''host:a'' ''db''"
proof (rule attack_path_canonical)
  have "graph_ok route_sample" unfolding route_sample_def
    by (intro graph_ok_add_edge graph_ok_add_node graph_ok_empty)
  then show "same_up_to_order route_sample route_sample" by (simp add: same_up_to_order_def graph_ok_def)
qed

theorem kill_chain_plan_spec_witness:
  "(routes route_sample ''host:a'' ''db'' = {} \<and>
      generate_kill_chain_plan route_sample ''host:a'' ''db'' = Inr (unreachable_text ''host:a'' ''db'')) \<or>
    (\<exists>p chain. least_route route_sample ''host:a'' ''db'' (p, Some (route_cost route_sample p)) \<and>
       map ch_step chain = [1..<length p] \<and> map (\<lambda>st. (ch_from st, ch_to st)) chain = zip p (tl p) \<and>
       generate_kill_chain_plan route_sample ''host:a'' ''db'' =
         Inr (join_str [lf_char] (plan_lines ''host:a'' ''db'' (route_cost route_sample p) chain)))"
  by (rule kill_chain_plan_spec [OF route_sample_ok(1,2)]) (simp_all add: route_sample_ok(3))

end
