(* ===== verification/Pacer.thy ===== *)
theory Pacer
  imports PyFloat PyVal
begin

text \<open>
  \<open>modules/stealth/pacer.py\<close>: the probabilistic dwell between probes and the removal of identifying
  lines from a text. The random generator and the logarithm are arguments.
\<close>

section \<open>Dwell times\<close>

text \<open>The n-th draw of the generator, and \<open>math.log\<close>.\<close>

record chance =
  draw_unit :: "nat \<Rightarrow> float"
  draw_between :: "nat \<Rightarrow> float \<Rightarrow> float \<Rightarrow> float"
  flog :: "float \<Rightarrow> float"

record pacer =
  mean_dwell :: float
  jitter :: float

definition new_pacer :: "float \<Rightarrow> float \<Rightarrow> pacer" where
  "new_pacer mean jit = \<lparr>mean_dwell = max (fl (1 / 100)) mean, jitter = max 0 jit\<rparr>"

text \<open>The dwell and the number of draws made so far.\<close>

definition dwell :: "chance \<Rightarrow> pacer \<Rightarrow> string \<Rightarrow> nat \<Rightarrow> float \<times> nat" where
  "dwell ch p mode n =
     (if mode = ''exponential''
      then let u = max (fl (1 / 1000000)) (draw_unit ch n);
               val = fmul (- mean_dwell p) (flog ch u)
           in (max (fl (1 / 100)) (fadd val (draw_between ch (n + 1) (- jitter p) (jitter p))), n + 2)
      else (max 0 (fadd (mean_dwell p) (draw_between ch n (- jitter p) (jitter p))), n + 1))"

fun dwell_schedule :: "chance \<Rightarrow> pacer \<Rightarrow> string \<Rightarrow> nat \<Rightarrow> nat \<Rightarrow> float list" where
  "dwell_schedule ch p mode n 0 = []"
| "dwell_schedule ch p mode n (Suc k) =
     (case dwell ch p mode n of (d, n') \<Rightarrow> d # dwell_schedule ch p mode n' k)"

lemma dwell_floor:
  "0 \<le> fst (dwell ch p mode n)" "mode = ''exponential'' \<Longrightarrow> fl (1 / 100) \<le> fst (dwell ch p mode n)"
proof -
  have "0 \<le> fl (1 / 100)" by (rule fl_nonneg) simp
  then show "0 \<le> fst (dwell ch p mode n)" by (simp add: dwell_def Let_def le_max_iff_disj)
  show "mode = ''exponential'' \<Longrightarrow> fl (1 / 100) \<le> fst (dwell ch p mode n)" by (simp add: dwell_def Let_def)
qed

lemma dwell_schedule_floor:
  "length (dwell_schedule ch p ''exponential'' n k) = k"
  "d \<in> set (dwell_schedule ch p ''exponential'' n k) \<Longrightarrow> fl (1 / 100) \<le> d"
  using dwell_floor(2) [of "''exponential''" ch p]
  by (induction k arbitrary: n) (auto split: prod.splits, metis fst_conv)

text \<open>
  Whatever the generator draws, a schedule has one pause for every step and no pause is shorter than a
  hundredth of a second.
\<close>
theorem pacing_never_bursts:
  "length (dwell_schedule ch (new_pacer mean jit) ''exponential'' 0 k) = k \<and>
   list_all (\<lambda>d. fl (1 / 100) \<le> d) (dwell_schedule ch (new_pacer mean jit) ''exponential'' 0 k)"
  using dwell_schedule_floor by (auto simp: list_all_iff)

section \<open>Removing artifacts\<close>

definition default_artifacts :: "string list" where
  "default_artifacts = [''helios'', ''helios-net'', ''H3l!0s'']"

definition mentions_artifact :: "string list \<Rightarrow> string \<Rightarrow> bool" where
  "mentions_artifact artifacts line = list_ex (\<lambda>a. contains (lower a) (lower line)) artifacts"

definition artifact_list :: "string list option \<Rightarrow> string list" where
  "artifact_list artifacts = (case artifacts of Some (a # as) \<Rightarrow> a # as | _ \<Rightarrow> default_artifacts)"

definition strip_artifacts :: "string \<Rightarrow> string list option \<Rightarrow> string" where
  "strip_artifacts txt artifacts =
     join_str [lf_char] (filter (\<lambda>line. \<not> mentions_artifact (artifact_list artifacts) line) (splitlines txt))"

lemma lower_append [simp]: "lower (s @ t) = lower s @ lower t"
  by (simp add: lower_def)

lemma lower_lf [simp]: "lower_char lf_char = lf_char"
  by code_simp

lemma lower_join: "lower (join_str [lf_char] ls) = join_str [lf_char] (map lower ls)"
proof (induction "[lf_char]" ls rule: join_str.induct)
  case 1
  then show ?case by (simp add: lower_def)
next
  case (3 l k ls)
  then show ?case by (simp add: lower_def)
qed simp

text \<open>A text without line feeds that occurs in joined lines occurs in one of them.\<close>

lemma contains_across:
  assumes "contains p (l @ c # r)" "c \<notin> set p"
  shows "contains p l \<or> contains p r"
proof -
  obtain t u where tu: "l @ c # r = t @ p @ u" using assms(1) by (auto simp: contains_iff)
  show ?thesis
  proof (cases "length t + length p \<le> length l")
    case True
    have "take (length t + length p) (l @ c # r) = t @ p" unfolding tu by simp
    then have "take (length t + length p) l = t @ p" using True by simp
    then have "l = (t @ p) @ drop (length t + length p) l" by (metis append_take_drop_id)
    then show ?thesis by (metis append.assoc contains_iff)
  next
    case False
    have "length l < length t"
    proof (rule ccontr)
      assume "\<not> length l < length t"
      moreover from this False have "length l - length t < length p" by linarith
      ultimately have "(t @ p @ u) ! length l \<in> set p" by (simp add: nth_append)
      then show False using assms(2) by (simp flip: tu)
    qed
    then have "r = drop (length l + 1) t @ p @ u"
      using arg_cong [OF tu, of "drop (length l + 1)"] by simp
    then show ?thesis by (metis contains_iff)
  qed
qed

lemma contains_join:
  "contains p (join_str [lf_char] ls) \<Longrightarrow> p \<noteq> [] \<Longrightarrow> lf_char \<notin> set p \<Longrightarrow> \<exists>l\<in>set ls. contains p l"
proof (induction "[lf_char]" ls rule: join_str.induct)
  case (3 l k ls)
  then have "contains p l \<or> contains p (join_str [lf_char] (k # ls))"
    using contains_across [of p l lf_char] by simp
  then show ?case using 3 by auto
qed (simp_all)

text \<open>
  The cleaned text contains none of the artifacts, in any case, anywhere, when the artifacts are not
  empty and span no line.
\<close>
theorem strip_artifacts_clean:
  assumes "a \<in> set (artifact_list artifacts)" "a \<noteq> []" "lf_char \<notin> set (lower a)"
  shows "\<not> contains (lower a) (lower (strip_artifacts txt artifacts))"
proof
  assume c: "contains (lower a) (lower (strip_artifacts txt artifacts))"
  have "lower a \<noteq> []" using assms(2) by (simp add: lower_def)
  then obtain l where "l \<in> set (splitlines txt)" "\<not> mentions_artifact (artifact_list artifacts) l"
    "contains (lower a) (lower l)"
    using contains_join [OF c [unfolded strip_artifacts_def lower_join]] assms(3) by auto
  then show False using assms(1) by (auto simp: mentions_artifact_def list_ex_iff)
qed

lemma strip_artifacts_idle:
  "(\<And>l. l \<in> set (splitlines txt) \<Longrightarrow> \<not> mentions_artifact (artifact_list artifacts) l) \<Longrightarrow>
     strip_artifacts txt artifacts = join_str [lf_char] (splitlines txt)"
  by (simp add: strip_artifacts_def cong: filter_cong)

theorem strip_artifacts_clean_witness:
  "\<not> contains (lower ''H3l!0s'') (lower (strip_artifacts ''agent: h3L!0S'' None))"
  by (rule strip_artifacts_clean) (simp_all add: artifact_list_def default_artifacts_def, code_simp)

end
