(* ===== verification/Runners.thy ===== *)
theory Runners
  imports AssetsFacts Findings Orchestrator Pathfinder Pacer RustBridge
begin

text \<open>
  \<open>modules/registry.py\<close>: the runners the orchestrator calls, composed of the port scan and the
  signature matcher of \<open>core/accel.py\<close>, asset discovery, the pacer and the collector; and
  \<open>banner_grab\<close> of \<open>modules/recon/fingerprint.py\<close>.
\<close>

section \<open>What the runners reach\<close>

text \<open>
  \<open>rn_socket\<close> is one connection: what \<open>recv\<close> returned, or the \<open>OSError\<close>.
  \<open>rn_repr\<close> is the decimal \<open>repr\<close> prints of a double. A \<open>Pacer\<close> in the context is written as
  the dictionary of its attributes.
\<close>

record runner_env =
  rn_native :: native
  rn_go :: "string \<Rightarrow> string \<Rightarrow> exc + (pydict list \<times> string)"
  rn_connect :: "string \<Rightarrow> int \<Rightarrow> connect_outcome"
  rn_assets :: asset_env
  rn_socket :: "string \<Rightarrow> int \<Rightarrow> exc + bytes"
  rn_printable :: "nat \<Rightarrow> bool"
  rn_signatures :: "ustr option"
  rn_chance :: chance
  rn_repr :: "float \<Rightarrow> pyval"
  rn_now :: pyval
  rn_uuid :: string

definition latin_text :: "ustr \<Rightarrow> exc + string" where
  "latin_text u = (if list_all (\<lambda>c. c < 256) u then Inr (map char_of u) else Inl OutOfModel)"

definition add_findings :: "pydict list \<Rightarrow> context_data \<Rightarrow> context_data" where
  "add_findings fs ctx = ctx\<lparr>ctx_findings := ctx_findings ctx @ fs\<rparr>"

definition ctx_set :: "string \<Rightarrow> pyval \<Rightarrow> context_data \<Rightarrow> context_data" where
  "ctx_set k v ctx = ctx\<lparr>ctx_extra := dict_set k v (ctx_extra ctx)\<rparr>"

section \<open>Discovery\<close>

definition COMMON_PORTS :: "(int, string) dict" where
  "COMMON_PORTS =
     [(21, ''FTP''), (22, ''SSH''), (23, ''Telnet''), (25, ''SMTP''), (53, ''DNS''), (80, ''HTTP''),
      (110, ''POP3''), (143, ''IMAP''), (443, ''HTTPS''), (445, ''SMB''), (3306, ''MySQL''),
      (3389, ''RDP''), (5432, ''PostgreSQL''), (8080, ''HTTP-alt'')]"

definition discovery_ports :: "plan_step \<Rightarrow> context_data \<Rightarrow> exc + int list" where
  "discovery_ports s ctx =
     (if truthy (dget (params s) ''ports'') then ports_requested (dget (params s) ''ports'')
      else if truthy (dget (ctx_extra ctx) ''scope_ports'') then ports_requested (dget (ctx_extra ctx) ''scope_ports'')
      else Inr (sort (dict_keys COMMON_PORTS)))"

definition discovery_finding :: "string \<Rightarrow> string \<Rightarrow> pydict \<Rightarrow> exc + pydict" where
  "discovery_finding host eng row =
     bind_res (bind_res (dindex row ''port'') port_int) (\<lambda>port.
       let service = (if truthy (dget row ''service'') then dget row ''service''
                      else PStr (case dict_get COMMON_PORTS port of None \<Rightarrow> [] | Some n \<Rightarrow> n))
       in Inr (foldl (\<lambda>f key. if dget row key \<in> {PNone, PStr []} then f else dict_set key (dget row key) f)
            [(''module'', PStr ''discovery''), (''host'', PStr host), (''port'', PInt port),
             (''open'', PBool True), (''state'', dget_or row ''state'' (PStr ''open'')),
             (''service'', service), (''engine'', PStr eng),
             (''source'', PStr (if eng = ''go-native'' then ''go-native'' else ''socket-probe''))]
            [''banner'', ''latency_ms'', ''time'']))"

definition discovery_runner :: "runner_env \<Rightarrow> plan_step \<Rightarrow> context_data \<Rightarrow> (exc + pyval) \<times> context_data" where
  "discovery_runner env s ctx =
     (case bind_res (discovery_ports s ctx) (\<lambda>ports.
             bind_res (scan_ports (rn_native env) (rn_go env) (rn_connect env (step_target s)) (step_target s) ports None)
               (\<lambda>out. bind_res (map_res (discovery_finding (step_target s) (scan_engine out)) (scan_rows out))
                  (\<lambda>fs. Inr (out, fs)))) of
        Inl e \<Rightarrow> (Inl e, ctx)
      | Inr (out, fs) \<Rightarrow>
          (Inr (PDict
             [(''module'', PStr ''discovery''), (''host'', PStr (step_target s)),
              (''open_ports'', PList (map (\<lambda>f. dget f ''port'') fs)), (''count'', PInt (int (length fs))),
              (''engine'', PStr (scan_engine out)), (''reason'', PStr (scan_reason out))]),
           add_findings fs ctx))"

section \<open>Recon\<close>

text \<open>
  A reply that is not UTF-8 holds replacement characters, which the string type here does not have.
\<close>

definition banner_grab :: "runner_env \<Rightarrow> string \<Rightarrow> int \<Rightarrow> exc + string" where
  "banner_grab env host port =
     (case rn_socket env host port of
        Inl e \<Rightarrow> if is_os_error e then Inr (take 200 (''<error: '' @ exc_message e @ ''>'')) else Inl e
      | Inr bs \<Rightarrow>
          (case utf8_decode bs of
             Inl _ \<Rightarrow> Inl OutOfModel
           | Inr u \<Rightarrow>
               bind_res (latin_text u) (\<lambda>txt.
               bind_res (latin_text (sanitize_banner (rn_printable env) MAX_BANNER_BYTES (ascii (strip txt)))) (\<lambda>b.
                 Inr (take 200 b)))))"

definition pattern_names :: "(ustr \<times> ustr) list \<Rightarrow> (ustr, ustr) dict" where
  "pattern_names pairs =
     foldl (\<lambda>d (name, pattern). if pattern = [] then d else dict_setdefault pattern name d) [] pairs"

definition match_banner :: "native \<Rightarrow> string \<Rightarrow> (ustr \<times> ustr) list \<Rightarrow> exc + (int \<times> ustr) list" where
  "match_banner nv banner pairs =
     (let names = pattern_names pairs in
      if names = [] then Inr []
      else bind_res (match_signatures nv (ascii banner) (dict_keys names) None) (\<lambda>out.
        Inr (sort (map (\<lambda>h. (position h, case dict_get names (signature h) of None \<Rightarrow> signature h | Some n \<Rightarrow> n))
          (matches out)))))"

definition match_dict :: "int \<times> ustr \<Rightarrow> exc + pyval" where
  "match_dict m = bind_res (latin_text (snd m)) (\<lambda>n.
     Inr (PDict [(''signature'', PStr n), (''position'', PInt (fst m))]))"

definition discovered :: "pydict list \<Rightarrow> pydict list" where
  "discovered fs = filter (\<lambda>f. truthy (dget f ''open'') \<and> dget f ''port'' \<noteq> PNone) fs"

definition recon_ports :: "pydict list \<Rightarrow> exc + int list" where
  "recon_ports fs = bind_res (map_res (\<lambda>f. port_int (dget f ''port'')) (discovered fs)) (\<lambda>ps. Inr (sort (remdups ps)))"

definition known_banner :: "pydict list \<Rightarrow> int \<Rightarrow> pydict option" where
  "known_banner fs port =
     find (\<lambda>f. port_int (dget f ''port'') = Inr port \<and> truthy (dget f ''banner'')) (discovered fs)"

definition port_banner :: "runner_env \<Rightarrow> string \<Rightarrow> pydict list \<Rightarrow> int \<Rightarrow> exc + string" where
  "port_banner env host fs port =
     (case known_banner fs port of
        Some f \<Rightarrow> Inr (py_format (dget f ''banner''))
      | None \<Rightarrow> banner_grab env host port)"

record recon_probe =
  rp_port :: int
  rp_banner :: string
  rp_matches :: "(int \<times> ustr) list option"

definition recon_probe_of :: "runner_env \<Rightarrow> string \<Rightarrow> pydict list \<Rightarrow> int \<Rightarrow> exc + recon_probe" where
  "recon_probe_of env host fs port =
     bind_res (port_banner env host fs port) (\<lambda>banner.
       if banner = [] \<or> startswith ''<error:'' banner
       then Inr \<lparr>rp_port = port, rp_banner = banner, rp_matches = None\<rparr>
       else bind_res (match_banner (rn_native env) banner (load_signatures (rn_signatures env))) (\<lambda>ms.
         Inr \<lparr>rp_port = port, rp_banner = banner, rp_matches = Some ms\<rparr>))"

definition probe_matches :: "recon_probe \<Rightarrow> (int \<times> ustr) list" where
  "probe_matches p = (case rp_matches p of None \<Rightarrow> [] | Some ms \<Rightarrow> ms)"

definition probe_dict :: "recon_probe \<Rightarrow> exc + pyval" where
  "probe_dict p =
     bind_res (map_res match_dict (probe_matches p)) (\<lambda>ms.
     bind_res (case probe_matches p of [] \<Rightarrow> Inr [] | m # _ \<Rightarrow> latin_text (snd m)) (\<lambda>service.
       Inr (PDict ([(''port'', PInt (rp_port p)), (''banner'', PStr (rp_banner p)), (''matches'', PList ms)] @
         (if rp_matches p = None then [] else [(''service'', PStr service)])))))"

definition recon_result :: "string \<Rightarrow> recon_probe list \<Rightarrow> exc + pydict" where
  "recon_result host found =
     bind_res (map_res probe_dict found) (\<lambda>ps.
       Inr ([(''module'', PStr ''recon''), (''host'', PStr host), (''source'', PStr ''banner-signature''),
             (''method'', PStr ''banner-signature''), (''probes'', PList ps),
             (''signature_matches'', PInt (int (sum_list (map (\<lambda>p. length (probe_matches p)) found)))),
             (''engines'', PList (if list_ex (\<lambda>p. probe_matches p \<noteq> []) found then [PStr ''signature-core''] else []))] @
            (if found = [] then [(''note'', PStr ''no open ports were reported by discovery'')] else [])))"

definition recon_runner :: "runner_env \<Rightarrow> plan_step \<Rightarrow> context_data \<Rightarrow> (exc + pyval) \<times> context_data" where
  "recon_runner env s ctx =
     (case bind_res (recon_ports (ctx_findings ctx)) (\<lambda>ports.
             bind_res (map_res (recon_probe_of env (step_target s) (ctx_findings ctx)) ports)
               (recon_result (step_target s))) of
        Inl e \<Rightarrow> (Inl e, ctx)
      | Inr r \<Rightarrow> (Inr (PDict r), ctx_set ''fingerprint_source'' (dget r ''source'') (add_findings [r] ctx)))"

section \<open>Assets\<close>

definition pacer_of :: "context_data \<Rightarrow> bool" where
  "pacer_of ctx \<longleftrightarrow> (case dget (ctx_extra ctx) ''pacer'' of PDict _ \<Rightarrow> True | _ \<Rightarrow> False)"

definition seed_strings :: "pyval \<Rightarrow> exc + string list" where
  "seed_strings v = bind_res (iterated v) (\<lambda>vs. Inr (map py_format (filter truthy vs)))"

definition web_port_list :: "scope_enforcer \<Rightarrow> pyval \<Rightarrow> exc + int list" where
  "web_port_list sc v =
     (if v = PNone then Inr (filter (\<lambda>p. allowed_ports sc = [] \<or> p \<in> set (allowed_ports sc)) WEB_PORTS)
      else bind_res (iterated v) (map_res port_int))"

definition asset_arguments :: "scope_enforcer \<Rightarrow> plan_step \<Rightarrow> context_data \<Rightarrow> exc + string list \<times> asset_opts" where
  "asset_arguments sc s ctx =
     bind_res (seed_strings (dget_or (params s) ''seeds'' (PList []))) (\<lambda>own.
     bind_res (seed_strings (dget_or (ctx_extra ctx) ''seeds'' (PList []))) (\<lambda>shared.
     bind_res (port_int (dget_or (params s) ''depth'' (PInt 1))) (\<lambda>depth.
     bind_res (port_int (dget_or (params s) ''max_hosts'' (PInt 50))) (\<lambda>max_hosts.
     bind_res (port_int (dget_or (params s) ''max_requests'' (PInt 200))) (\<lambda>max_requests.
     bind_res (web_port_list sc (dget (params s) ''web_ports'')) (\<lambda>ports.
       Inr (uniq (step_target s # own @ shared),
            \<lparr>ao_ct = truthy (dget_or (params s) ''ct'' (PBool False)), ao_depth = depth, ao_max_hosts = max_hosts,
             ao_max_requests = max_requests, ao_ports = Some ports,
             ao_deep = truthy (dget_or (params s) ''deep'' (PBool False))\<rparr>)))))))"

text \<open>The walk and what it did to the network.\<close>

definition asset_walk ::
  "runner_env \<Rightarrow> scope_enforcer \<Rightarrow> plan_step \<Rightarrow> context_data \<Rightarrow> (exc + survey) \<times> net_event list" where
  "asset_walk env sc s ctx =
     (case asset_arguments sc s ctx of
        Inl e \<Rightarrow> (Inl e, [])
      | Inr (seeds, opt) \<Rightarrow> discover_assets ((rn_assets env)\<lparr>ae_pace := pacer_of ctx\<rparr>) sc seeds opt [])"

definition no_scope_result :: "string \<Rightarrow> pyval" where
  "no_scope_result host = PDict
     [(''module'', PStr ''asset''), (''host'', PStr host), (''assets'', PInt 0), (''hosts'', PList []),
      (''blocked'', PList []), (''error'', PStr ''scope unavailable; asset discovery not attempted'')]"

definition asset_runner ::
  "runner_env \<Rightarrow> scope_enforcer option \<Rightarrow> plan_step \<Rightarrow> context_data \<Rightarrow> (exc + pyval) \<times> context_data" where
  "asset_runner env scope s ctx =
     (case scope of
        None \<Rightarrow> (Inr (no_scope_result (step_target s)), ctx)
      | Some sc \<Rightarrow>
          (case fst (asset_walk env sc s ctx) of
             Inl e \<Rightarrow> (Inl e, ctx)
           | Inr sv \<Rightarrow>
               (Inr (PDict (dict_set ''host'' (PStr (step_target s))
                  (dict_set ''module'' (PStr ''asset'') (dict_del ''findings'' (survey_summary sv))))),
                ctx_set ''discovered_hosts'' (PList (map PStr (sv_hosts sv))) (add_findings (sv_findings sv) ctx))))"

section \<open>Stealth and collection\<close>

text \<open>\<open>max(low, v)\<close>, which raises unless v is a number.\<close>

definition py_max :: "pyval \<Rightarrow> pyval \<Rightarrow> exc + pyval" where
  "py_max low v =
     (case (num_of low, num_of v) of
        (Some a, Some b) \<Rightarrow> Inr (if a < b then v else low)
      | _ \<Rightarrow> Inl (TypeError ''> not supported''))"

definition double_of :: "pyval \<Rightarrow> float" where
  "double_of v = (case num_of v of None \<Rightarrow> 0 | Some q \<Rightarrow> fl q)"

definition stealth_runner :: "runner_env \<Rightarrow> plan_step \<Rightarrow> context_data \<Rightarrow> (exc + pyval) \<times> context_data" where
  "stealth_runner env s ctx =
     (case bind_res (py_max (PFloat 1 2) (dget_or (params s) ''base_dwell'' (PFloat 2 1))) (\<lambda>mean.
             bind_res (py_max (PFloat 0 1) (dget_or (params s) ''jitter'' (PFloat 1 1))) (\<lambda>jit. Inr (mean, jit))) of
        Inl e \<Rightarrow> (Inl e, ctx)
      | Inr (mean, jit) \<Rightarrow>
          let dwells = map (rn_repr env) (dwell_schedule (rn_chance env)
                 (new_pacer (double_of mean) (double_of jit)) ''exponential'' 0 (length (ctx_plan ctx)))
          in (Inr (PDict
                [(''module'', PStr ''stealth''), (''pace_samples'', PList (take 5 dwells)),
                 (''count'', PInt (int (length dwells))), (''enforced'', PBool True)]),
              ctx_set ''pace'' (PList dwells)
                (ctx_set ''pacer'' (PDict [(''mean_dwell'', mean), (''jitter'', jit)]) ctx)))"

definition collector_runner :: "runner_env \<Rightarrow> plan_step \<Rightarrow> context_data \<Rightarrow> (exc + pyval) \<times> context_data" where
  "collector_runner env s ctx =
     (case collector_extend (rn_now env) (new_collector None (rn_uuid env)) (ctx_findings ctx) of
        Inl e \<Rightarrow> (Inl e, ctx)
      | Inr (added, _) \<Rightarrow>
          (Inr (PDict
             [(''module'', PStr ''collector''), (''collected'', PInt (int added)),
              (''total'', PInt (int (length (ctx_findings ctx))))]),
           ctx_set ''collected'' (PInt (int added)) ctx))"

end
