(* ===== verification/RunnersFacts.thy ===== *)
theory RunnersFacts
  imports Runners
begin

text \<open>What the runners promise: what they touch, what they keep, and where they mix up hosts.\<close>

section \<open>Discovery and the scope\<close>

text \<open>A host that can only be asked about a target's authorised ports.\<close>

definition port_authorised :: "scope_enforcer \<Rightarrow> int \<Rightarrow> bool" where
  "port_authorised sc p \<longleftrightarrow> allowed_ports sc = [] \<or> p \<in> set (allowed_ports sc)"

definition confined :: "scope_enforcer \<Rightarrow> string \<Rightarrow> runner_env \<Rightarrow> runner_env" where
  "confined sc tgt env =
     env\<lparr>rn_connect := (\<lambda>h p. if h = tgt \<and> port_authorised sc p then rn_connect env h p else Connection_refused),
         rn_go := (\<lambda>h q. if h = tgt \<and> (\<exists>ps. list_all (port_authorised sc) ps \<and> q = join_str '','' (map show_int ps))
                    then rn_go env h q else Inl OutOfModel)\<rparr>"

lemma authorised_ports:
  assumes "authorize_step sc () s = Inr ()" "dget (ctx_extra ctx) ''scope_ports'' = PList (map PInt (allowed_ports sc))"
    "discovery_ports s ctx = Inr ports"
  shows "is_target_allowed sc (step_target s) \<and> list_all (port_authorised sc) ports"
proof -
  have t: "is_target_allowed sc (step_target s)"
    using assms(1) by (auto simp: authorize_step_def bind_res_eq_Inr check_iff)
  have own: "map_res port_int (map PInt ps) = Inr ps" for ps
    by (induction ps) (simp_all add: port_int_def)
  have "list_all (port_authorised sc) ports"
  proof (cases "truthy (dget (params s) ''ports'')")
    case True
    then have "ports_requested (dget (params s) ''ports'') = Inr ports" using assms(3) by (simp add: discovery_ports_def)
    then show ?thesis
      using assms(1) True
      by (auto simp: authorize_step_def Let_def bind_res_eq_Inr check_ports_iff port_authorised_def list_all_iff)
  next
    case False
    then show ?thesis
      using assms(2,3) own by (auto simp: discovery_ports_def ports_requested_def port_authorised_def list_all_iff)
  qed
  then show ?thesis using t by simp
qed

lemma python_scan_cong:
  "(\<And>p. p \<in> set ports \<Longrightarrow> c p = c' p) \<Longrightarrow> python_scan_ports c host ports = python_scan_ports c' host ports"
proof -
  assume "\<And>p. p \<in> set ports \<Longrightarrow> c p = c' p"
  then have "map_res (port_and_state c) ports = map_res (port_and_state c') ports"
    by (induction ports) (simp_all add: port_and_state_def)
  then show ?thesis by (simp add: python_scan_ports_def)
qed

lemma scan_ports_confined:
  assumes "list_all (port_authorised sc) ports"
  shows "scan_ports nv (rn_go (confined sc tgt env)) (rn_connect (confined sc tgt env) tgt) tgt ports prefer =
    scan_ports nv (rn_go env) (rn_connect env tgt) tgt ports prefer"
proof -
  have "python_scan_ports (rn_connect (confined sc tgt env) tgt) tgt ports = python_scan_ports (rn_connect env tgt) tgt ports"
    using assms by (intro python_scan_cong) (simp add: confined_def list_all_iff)
  moreover have "go_scan nv (rn_go (confined sc tgt env)) tgt ports = go_scan nv (rn_go env) tgt ports"
    using assms by (auto simp: go_scan_def confined_def)
  ultimately show ?thesis by (simp only: scan_ports_def)
qed

text \<open>
  C6: A discovery step that passed authorisation reaches nothing else: its outcome is the same on a host
  where only the authorised target can be asked, and only about authorised ports, whichever core scans.
\<close>
theorem discovery_within_scope:
  assumes "authorize_step sc () s = Inr ()"
    and "dget (ctx_extra ctx) ''scope_ports'' = PList (map PInt (allowed_ports sc))"
  shows "is_target_allowed sc (step_target s) \<and>
    discovery_runner env s ctx = discovery_runner (confined sc (step_target s) env) s ctx"
proof -
  have frame: "rn_native (confined sc tgt env) = rn_native env" for tgt by (simp add: confined_def)
  have t: "is_target_allowed sc (step_target s)"
    using assms(1) by (auto simp: authorize_step_def bind_res_eq_Inr check_iff)
  show ?thesis
  proof (cases "discovery_ports s ctx")
    case (Inl e)
    then show ?thesis using t by (simp add: discovery_runner_def)
  next
    case (Inr ports)
    then have "list_all (port_authorised sc) ports" using authorised_ports [OF assms] by simp
    then show ?thesis using t Inr by (simp add: discovery_runner_def frame scan_ports_confined)
  qed
qed

definition port_80_step :: plan_step where
  "port_80_step = \<lparr>step_id = 1, step_module = PStr ''discovery'', action = PStr ''scan'', step_target = ''example.com'',
     priority = PInt 10, depends_on = [], params = [(''ports'', PList [PInt 80])], step_status = PStr ''pending''\<rparr>"

definition port_80_context :: context_data where
  "port_80_context = \<lparr>ctx_findings = [], ctx_reports = [], ctx_extra = [(''scope_ports'', PList [PInt 80])], ctx_plan = []\<rparr>"

definition quiet_env :: runner_env where
  "quiet_env =
     \<lparr>rn_native = no_cores, rn_go = (\<lambda>_ _. Inr ([], [])), rn_connect = (\<lambda>_ p. if p = 80 then Connected else Connection_refused),
      rn_assets = redirecting ''/next'', rn_socket = (\<lambda>_ _. Inl (OSError ''refused'')),
      rn_printable = (\<lambda>c. 32 \<le> c \<and> c < 127), rn_signatures = None,
      rn_chance = \<lparr>draw_unit = (\<lambda>_. 1 / 2), draw_between = (\<lambda>_ lo _. lo), flog = (\<lambda>_. - 1)\<rparr>,
      rn_repr = (\<lambda>_. PFloat 1 1), rn_now = PFloat 0 1, rn_uuid = ''c''\<rparr>"

theorem discovery_within_scope_witness:
  "is_target_allowed sample_enforcer ''example.com'' \<and>
     discovery_runner quiet_env port_80_step port_80_context =
       discovery_runner (confined sample_enforcer ''example.com'' quiet_env) port_80_step port_80_context"
proof -
  have "authorize_step sample_enforcer () port_80_step = Inr ()" by code_simp
  moreover have "dget (ctx_extra port_80_context) ''scope_ports'' = PList (map PInt (allowed_ports sample_enforcer))"
    by code_simp
  ultimately show ?thesis
    using discovery_within_scope [of sample_enforcer port_80_step port_80_context quiet_env]
    by (simp add: port_80_step_def)
qed

section \<open>What a runner leaves behind\<close>

text \<open>Findings are only appended, and the reports and the plan stay.\<close>

definition appends_only :: "context_data \<Rightarrow> context_data \<Rightarrow> bool" where
  "appends_only ctx ctx' \<longleftrightarrow> prefix (ctx_findings ctx) (ctx_findings ctx') \<and>
     ctx_reports ctx' = ctx_reports ctx \<and> ctx_plan ctx' = ctx_plan ctx"

lemma appends_only_simps [simp]:
  "appends_only ctx ctx" "appends_only ctx (add_findings fs ctx)" "appends_only ctx (ctx_set k v ctx)"
  "appends_only ctx (ctx_set k v (add_findings fs ctx))" "appends_only ctx (ctx_set k v (ctx_set l w ctx))"
  by (simp_all add: appends_only_def add_findings_def ctx_set_def)

text \<open>
  No runner loses a finding, a report or the plan, and one that raises leaves the whole context as it
  was.
\<close>
theorem runners_append_only:
  "appends_only ctx (snd (discovery_runner env s ctx)) \<and> appends_only ctx (snd (recon_runner env s ctx)) \<and>
   appends_only ctx (snd (asset_runner env scope s ctx)) \<and> appends_only ctx (snd (stealth_runner env s ctx)) \<and>
   appends_only ctx (snd (collector_runner env s ctx))"
  by (simp add: discovery_runner_def recon_runner_def asset_runner_def stealth_runner_def collector_runner_def Let_def
      split: sum.splits option.splits prod.splits)

section \<open>The collector step\<close>

text \<open>
  The collector reports the number of findings with pairwise different module, host, port and service,
  next to the number of all findings.
\<close>
theorem collector_counts_distinct:
  assumes "collector_runner env s ctx = (Inr v, ctx')"
  shows "v = PDict [(''module'', PStr ''collector''),
      (''collected'', PInt (int (card (natural_id ` set (ctx_findings ctx))))),
      (''total'', PInt (int (length (ctx_findings ctx))))] \<and>
    ctx_findings ctx' = ctx_findings ctx"
proof -
  let ?new = "new_collector None (rn_uuid env)"
  obtain n c' where r: "collector_extend (rn_now env) ?new (ctx_findings ctx) = Inr (n, c')"
    using assms by (cases "collector_extend (rn_now env) ?new (ctx_findings ctx)") (auto simp: collector_runner_def)
  have "collector_ok ?new" by (simp add: collector_ok_def new_collector_def)
  from collector_extend_ok [OF this r] have c: "collector_ok c'" "length (col_findings c') = n"
    "natural_id ` set (col_findings c') = natural_id ` set (ctx_findings ctx)"
    by (simp_all add: new_collector_def)
  have "card (natural_id ` set (col_findings c')) = length (col_findings c')"
    using c(1) distinct_card [of "map natural_id (col_findings c')"] by (simp add: collector_ok_def)
  then have "card (natural_id ` set (ctx_findings ctx)) = n" using c by simp
  then show ?thesis using assms r by (auto simp: collector_runner_def ctx_set_def)
qed

definition two_findings :: context_data where
  "two_findings = port_80_context\<lparr>ctx_findings :=
     [[(''module'', PStr ''discovery''), (''port'', PInt 80)], [(''module'', PStr ''discovery''), (''port'', PInt 80), (''open'', PBool True)]]\<rparr>"

theorem collector_counts_distinct_witness:
  "\<exists>v ctx'. collector_runner quiet_env port_80_step two_findings = (Inr v, ctx') \<and>
     v = PDict [(''module'', PStr ''collector''),
      (''collected'', PInt (int (card (natural_id ` set (ctx_findings two_findings))))),
      (''total'', PInt (int (length (ctx_findings two_findings))))] \<and>
    ctx_findings ctx' = ctx_findings two_findings"
proof -
  have "\<not> isl (fst (collector_runner quiet_env port_80_step two_findings))"
    by (simp add: collector_runner_def two_findings_def port_80_context_def collector_add_def natural_id_def py_key_def
        new_collector_def dget_def Let_def)
  then obtain v ctx' where "collector_runner quiet_env port_80_step two_findings = (Inr v, ctx')"
    by (cases "collector_runner quiet_env port_80_step two_findings"; cases "fst (collector_runner quiet_env port_80_step two_findings)") auto
  from this collector_counts_distinct [OF this] show ?thesis by blast
qed

section \<open>Assets and the scope\<close>

text \<open>
  The asset step probes nothing without the campaign's scope, and with it only names and addresses the
  scope allows, whatever its parameters ask for.
\<close>
theorem asset_step_in_scope:
  "asset_runner env None s ctx = (Inr (no_scope_result (step_target s)), ctx) \<and>
   in_scope sc (snd (asset_walk env sc s ctx)) \<and> (pacer_of ctx \<longrightarrow> well_paced (snd (asset_walk env sc s ctx)))"
proof (cases "asset_arguments sc s ctx")
  case (Inl e)
  then show ?thesis by (simp add: asset_runner_def asset_walk_def in_scope_def well_paced_def)
next
  case (Inr a)
  obtain seeds opt where a: "a = (seeds, opt)" by fastforce
  let ?env = "(rn_assets env)\<lparr>ae_pace := pacer_of ctx\<rparr>"
  show ?thesis
    using discover_good [where env = ?env and sc = sc and seeds = seeds and opt = opt] Inr
    by (auto simp: asset_runner_def asset_walk_def a good_upto_def good_trace_def booked_def split: prod.splits sum.splits)
qed

text \<open>
  The port allowlist does not bind an asset step: authorisation checks the parameter \<open>ports\<close> only,
  and \<open>web_ports\<close> is used unchecked. A step authorised in a scope of port 80 probes port 22.
\<close>
definition web_ports_step :: plan_step where
  "web_ports_step = port_80_step\<lparr>step_module := PStr ''asset'', params := [(''web_ports'', PList [PInt 22]),
     (''max_requests'', PInt 3), (''max_hosts'', PInt 5)]\<rparr>"

lemma web_ports_arguments:
  "asset_arguments sample_enforcer web_ports_step port_80_context =
     Inr ([''example.com''], sample_opts\<lparr>ao_ports := Some [22]\<rparr>)"
  by code_simp

lemma web_ports_scope:
  "web_ports sample_enforcer (sample_opts\<lparr>ao_ports := Some [22]\<rparr>) = [22]" "\<not> pacer_of port_80_context"
  "redirect_target ''/next'' ''example.com'' 22 ''http'' = Inr (Some (''example.com'', 80, ''http'', ''/next''))"
  by code_simp+

theorem asset_ports_unchecked:
  "authorize_step sample_enforcer () web_ports_step = Inr () \<and> \<not> port_authorised sample_enforcer 22 \<and>
   (\<exists>c. Probed c \<in> set (snd (asset_walk quiet_env sample_enforcer web_ports_step port_80_context)) \<and> pc_port c = 22)"
proof (intro conjI)
  show "authorize_step sample_enforcer () web_ports_step = Inr ()" "\<not> port_authorised sample_enforcer 22"
    by code_simp+
  show "\<exists>c. Probed c \<in> set (snd (asset_walk quiet_env sample_enforcer web_ports_step port_80_context)) \<and> pc_port c = 22"
    unfolding asset_walk_def web_ports_arguments discover_assets_def sum.case prod.case web_ports_scope sample_scope
    by (simp add: walk_eval sample_scope web_ports_scope sample_redirects sample_opts_def quiet_env_def)
      (auto simp: conj_disj_distribR ex_disj_distrib)
qed

section \<open>Recon and the hosts of findings\<close>

text \<open>The same findings, reported of another host.\<close>

definition rehosted :: "string \<Rightarrow> pydict \<Rightarrow> pydict" where
  "rehosted h f = dict_set ''host'' (PStr h) f"

lemma rehosted_dget [simp]:
  "k \<noteq> ''host'' \<Longrightarrow> dget (rehosted h f) k = dget f k" "dget (rehosted h f) ''host'' = PStr h"
  by (simp_all add: rehosted_def)

lemma discovered_rehosted: "discovered (map (rehosted h) fs) = map (rehosted h) (discovered fs)"
  by (simp add: discovered_def filter_map comp_def)

lemma recon_ports_rehosted: "recon_ports (map (rehosted h) fs) = recon_ports fs"
proof -
  have "map_res (\<lambda>f. port_int (dget f ''port'')) (map (rehosted h) gs) = map_res (\<lambda>f. port_int (dget f ''port'')) gs" for gs
    by (induction gs) simp_all
  then show ?thesis by (simp only: recon_ports_def discovered_rehosted)
qed

lemma find_map: "find P (map f xs) = map_option f (find (P \<circ> f) xs)"
  by (induction xs) auto

lemma port_banner_rehosted: "port_banner env host (map (rehosted h) fs) port = port_banner env host fs port"
proof -
  let ?P = "\<lambda>f. port_int (dget f ''port'') = Inr port \<and> truthy (dget f ''banner'')"
  have "?P \<circ> rehosted h = ?P" by (simp add: fun_eq_iff)
  then have "known_banner (map (rehosted h) fs) port = map_option (rehosted h) (known_banner fs port)"
    by (simp only: known_banner_def discovered_rehosted find_map)
  then show ?thesis by (simp add: port_banner_def split: option.splits)
qed

lemma recon_probe_rehosted: "recon_probe_of env host (map (rehosted h) fs) = recon_probe_of env host fs"
  by (rule ext) (simp add: recon_probe_of_def port_banner_rehosted)

text \<open>
  Recon does not look at the host of a finding: reported of any other host, the same findings give the
  same recon result for the target. The ports and banners of other hosts count as the target's.
\<close>
theorem recon_ignores_host:
  "fst (recon_runner env s (ctx\<lparr>ctx_findings := map (rehosted h) fs\<rparr>)) =
   fst (recon_runner env s (ctx\<lparr>ctx_findings := fs\<rparr>))"
  by (simp add: recon_runner_def recon_ports_rehosted recon_probe_rehosted split: sum.splits)

definition other_host :: context_data where
  "other_host = port_80_context\<lparr>ctx_findings :=
     [[(''module'', PStr ''discovery''), (''host'', PStr ''db.example.com''), (''port'', PInt 22), (''open'', PBool True),
       (''banner'', PStr ''SSH-2.0-x'')]]\<rparr>"

text \<open>A banner of another host, reported for the target.\<close>

lemma recon_reports_other_host:
  "recon_probe_of quiet_env ''example.com'' (ctx_findings other_host) 22 =
     Inr \<lparr>rp_port = 22, rp_banner = ''SSH-2.0-x'', rp_matches = Some []\<rparr>"
  "recon_ports (ctx_findings other_host) = Inr [22]"
  by code_simp+

text \<open>
  The engine recon reports is a constant: whichever core answered, a result with a match names
  \<open>signature-core\<close> and one without names none.
\<close>
theorem recon_engine_constant:
  assumes "recon_runner env s ctx = (Inr v, ctx')"
  shows "\<exists>r. v = PDict r \<and> dget r ''engines'' \<in> {PList [], PList [PStr ''signature-core'']} \<and>
    dget r ''host'' = PStr (step_target s)"
proof -
  obtain r where r: "v = PDict r" "\<exists>probes. recon_result (step_target s) probes = Inr r"
    using assms by (auto simp: recon_runner_def bind_res_eq_Inr split: sum.splits)
  then show ?thesis by (auto simp: recon_result_def bind_res_eq_Inr dget_def)
qed

theorem recon_engine_constant_witness:
  "\<exists>v ctx' r. recon_runner quiet_env port_80_step other_host = (Inr v, ctx') \<and> v = PDict r \<and>
     dget r ''host'' = PStr ''example.com''"
proof -
  have p: "step_target port_80_step = ''example.com''" by (simp add: port_80_step_def)
  have "\<not> isl (recon_result ''example.com'' [\<lparr>rp_port = 22, rp_banner = ''SSH-2.0-x'', rp_matches = Some []\<rparr>])"
    by code_simp
  then have "\<not> isl (fst (recon_runner quiet_env port_80_step other_host))"
    using recon_reports_other_host by (auto simp: recon_runner_def p split: sum.splits)
  then obtain v ctx' where v: "recon_runner quiet_env port_80_step other_host = (Inr v, ctx')"
    by (cases "recon_runner quiet_env port_80_step other_host"; cases "fst (recon_runner quiet_env port_80_step other_host)") auto
  then show ?thesis using recon_engine_constant [OF v] p by auto
qed

end
