(* ===== verification/ModuleRegistry.thy ===== *)
theory ModuleRegistry
  imports RunnersFacts
begin

text \<open>
  \<open>modules/core.py\<close>, the registry modules enter when they are imported; the registry the
  orchestrator starts with (\<open>modules/registry.py\<close>); and the subdomain module
  \<open>modules/plugins/dns_enum.py\<close>.
\<close>

section \<open>The module registry\<close>

record module_spec =
  sp_name :: string
  sp_kind :: string
  sp_runner :: runner
  sp_params :: pydict

text \<open>
  The registry and the files imported so far. Importing a file runs its \<open>@module\<close> decorators, in
  order, up to the exception that ends it, if any: what each file does is an argument.
\<close>

record module_state =
  ms_specs :: "(string, module_spec) dict"
  ms_imported :: "string list"

type_synonym module_files = "string \<Rightarrow> module_spec list \<times> exc option"

definition register_module :: "module_state \<Rightarrow> module_spec \<Rightarrow> module_state" where
  "register_module st sp = st\<lparr>ms_specs := dict_set (sp_name sp) sp (ms_specs st)\<rparr>"

definition get_module :: "module_state \<Rightarrow> string \<Rightarrow> module_spec option" where
  "get_module st name = dict_get (ms_specs st) name"

definition list_modules :: "module_state \<Rightarrow> string option \<Rightarrow> module_spec list" where
  "list_modules st kind =
     (case kind of
        None \<Rightarrow> map snd (ms_specs st)
      | Some k \<Rightarrow> filter (\<lambda>m. sp_kind m = k) (map snd (ms_specs st)))"

text \<open>An imported file is not run again; one that failed is.\<close>

definition import_file :: "module_files \<Rightarrow> module_state \<Rightarrow> string \<Rightarrow> exc option \<times> module_state" where
  "import_file files st name =
     (if name \<in> set (ms_imported st) then (None, st)
      else case files name of (specs, failed) \<Rightarrow>
        let st' = foldl register_module st specs in
        case failed of
          None \<Rightarrow> (None, st'\<lparr>ms_imported := name # ms_imported st'\<rparr>)
        | Some e \<Rightarrow> (Some e, st'))"

definition new_names :: "module_state \<Rightarrow> module_state \<Rightarrow> nat" where
  "new_names before after =
     length (filter (\<lambda>n. n \<notin> set (dict_keys (ms_specs before))) (dict_keys (ms_specs after)))"

definition load_package :: "module_files \<Rightarrow> module_state \<Rightarrow> string \<Rightarrow> (exc + nat) \<times> module_state" where
  "load_package files st path =
     (case import_file files st path of
        (Some e, st') \<Rightarrow> (Inl e, st')
      | (None, st') \<Rightarrow> (Inr (new_names st st'), st'))"

text \<open>The names of the \<open>*.py\<close> files of the folder, without their ending.\<close>

definition discover_step :: "module_files \<Rightarrow> module_state \<Rightarrow> string \<Rightarrow> module_state" where
  "discover_step files st stem =
     (if startswith ''_'' stem then st else snd (import_file files st stem))"

definition discover_modules :: "module_files \<Rightarrow> string list \<Rightarrow> module_state \<Rightarrow> nat \<times> module_state" where
  "discover_modules files stems st =
     (let st' = foldl (discover_step files) st (sort stems) in (new_names st st', st'))"

section \<open>The orchestrator's registry\<close>

definition CORE_MODULES :: "string list" where
  "CORE_MODULES = [''asset'', ''discovery'', ''recon'', ''stealth'', ''collector'']"

text \<open>None: the folder cannot be listed.\<close>

definition discovered_plugins :: "module_files \<Rightarrow> string list option \<Rightarrow> module_state \<Rightarrow> (string, runner) dict \<times> module_state" where
  "discovered_plugins files stems st =
     (case stems of
        None \<Rightarrow> ([], st)
      | Some names \<Rightarrow>
          let st' = snd (discover_modules files names st)
          in (foldl (\<lambda>out sp. if sp_name sp \<in> set CORE_MODULES \<or> sp_name sp = ''exfil'' then out
                else dict_set (sp_name sp) (sp_runner sp) out) [] (list_modules st' None), st'))"

definition core_runners :: "(nat \<Rightarrow> runner_env) \<Rightarrow> scope_enforcer option \<Rightarrow> (string, runner) dict" where
  "core_runners env scope =
     [(''asset'', \<lambda>n. asset_runner (env n) scope), (''discovery'', \<lambda>n. discovery_runner (env n)),
      (''recon'', \<lambda>n. recon_runner (env n)), (''stealth'', \<lambda>n. stealth_runner (env n)),
      (''collector'', \<lambda>n. collector_runner (env n))]"

definition default_registry ::
  "(nat \<Rightarrow> runner_env) \<Rightarrow> scope_enforcer option \<Rightarrow> module_files \<Rightarrow> string list option \<Rightarrow> module_state \<Rightarrow>
     (string, runner) dict \<times> module_state"
where
  "default_registry env scope files stems st =
     (case discovered_plugins files stems st of (plugins, st') \<Rightarrow>
        (foldl (\<lambda>reg (name, r). dict_set name r reg) (core_runners env scope) plugins, st'))"

section \<open>Subdomain enumeration\<close>

definition DEFAULT_WORDLIST :: "string list" where
  "DEFAULT_WORDLIST =
     [''www'', ''mail'', ''ftp'', ''localhost'', ''webmail'', ''smtp'', ''pop'', ''ns1'', ''webserver'', ''dns'',
      ''ns2'', ''smtp'', ''imap'', ''mail1'', ''imap1'', ''ns3'', ''ipv4'', ''admin'', ''api'', ''dev'', ''staging'',
      ''test'', ''vpn'', ''gateway'', ''secure'', ''login'', ''portal'', ''cloud'']"

text \<open>The resolver: the addresses of a name, or the exception of \<open>getaddrinfo\<close>.\<close>

type_synonym resolver = "string \<Rightarrow> exc + string list"

text \<open>The last argument and result of what follows is every name the resolver was asked for so far.\<close>

definition async_resolve :: "resolver \<Rightarrow> string \<Rightarrow> string list \<Rightarrow> (string \<times> string) option \<times> string list" where
  "async_resolve look name asked =
     (case look name of Inr (a # _) \<Rightarrow> Some (name, a) | _ \<Rightarrow> None, asked @ [name])"

text \<open>\<open>asyncio.gather\<close>: the questions go out in the order of the names, and so come the results.\<close>

fun resolve_all :: "resolver \<Rightarrow> string list \<Rightarrow> string list \<Rightarrow> (string \<times> string) option list \<times> string list" where
  "resolve_all look [] asked = ([], asked)"
| "resolve_all look (name # names) asked =
     (case async_resolve look name asked of (r, asked1) \<Rightarrow>
        case resolve_all look names asked1 of (rs, asked2) \<Rightarrow> (r # rs, asked2))"

definition candidate_names :: "string \<Rightarrow> string list \<Rightarrow> string list" where
  "candidate_names domain ws = map (\<lambda>w. w @ CHR ''.'' # domain) ws"

definition ip_in_scope :: "scope_enforcer \<Rightarrow> string \<Rightarrow> bool" where
  "ip_in_scope sc address \<longleftrightarrow> networks sc = [] \<or> is_target_allowed sc address"

definition async_subdomain_enum ::
  "resolver \<Rightarrow> string \<Rightarrow> string list \<Rightarrow> scope_enforcer option \<Rightarrow> string list \<Rightarrow> (string \<times> string) list \<times> string list" where
  "async_subdomain_enum look domain ws scope asked =
     (let names = candidate_names domain ws;
          names = (case scope of None \<Rightarrow> names | Some sc \<Rightarrow> filter (is_target_allowed sc) names)
      in case resolve_all look names asked of (results, asked') \<Rightarrow>
           let found = List.map_filter id results
           in (case scope of None \<Rightarrow> found | Some sc \<Rightarrow> filter (\<lambda>(n, a). ip_in_scope sc a) found, asked'))"

definition dns_error :: "string \<Rightarrow> string \<Rightarrow> pyval" where
  "dns_error host msg = PDict
     [(''module'', PStr ''dns_enum''), (''host'', PStr host), (''count'', PInt 0), (''resolved'', PList []),
      (''error'', PStr msg)]"

definition wordlist_of :: "plan_step \<Rightarrow> exc + string list" where
  "wordlist_of s =
     bind_res (iterated (dget_or (params s) ''wordlist'' (PList (map PStr DEFAULT_WORDLIST)))) (\<lambda>vs.
       Inr (map py_format vs))"

definition dns_finding :: "string \<Rightarrow> string \<times> string \<Rightarrow> pydict" where
  "dns_finding host h =
     [(''module'', PStr ''dns_enum''), (''host'', PStr host), (''subdomain'', PStr (fst h)), (''ip'', PStr (snd h))]"

definition dns_runner ::
  "resolver \<Rightarrow> scope_enforcer option \<Rightarrow> plan_step \<Rightarrow> context_data \<Rightarrow> string list \<Rightarrow>
     ((exc + pyval) \<times> context_data) \<times> string list" where
  "dns_runner look scope s ctx asked =
     (case scope of
        None \<Rightarrow> ((Inr (dns_error (step_target s) ''scope required for DNS enumeration''), ctx), asked)
      | Some sc \<Rightarrow>
          (case check sc (step_target s) of
             Inl e \<Rightarrow> ((Inr (dns_error (step_target s) (exc_message e)), ctx), asked)
           | Inr _ \<Rightarrow>
               (case wordlist_of s of
                  Inl e \<Rightarrow> ((Inl e, ctx), asked)
                | Inr ws \<Rightarrow>
                    let blocked = filter (\<lambda>n. \<not> is_target_allowed sc n) (candidate_names (step_target s) ws)
                    in case async_subdomain_enum look (step_target s) ws (Some sc) asked of (found, asked') \<Rightarrow>
                       ((Inr (PDict
                          [(''module'', PStr ''dns_enum''), (''host'', PStr (step_target s)),
                           (''resolved'', PList (map (PStr \<circ> fst) found)), (''count'', PInt (int (length found))),
                           (''blocked'', PInt (int (length blocked)))]),
                        add_findings (map (dns_finding (step_target s)) found) ctx), asked'))))"

section \<open>The registry cannot be taken over\<close>

lemma foldl_set_other:
  "k \<notin> fst ` set kvs \<Longrightarrow> dict_get (foldl (\<lambda>d (k, v). dict_set k v d) d kvs) k = dict_get d k"
  by (induction kvs arbitrary: d) auto

lemma foldl_set_mem:
  "distinct (map fst kvs) \<Longrightarrow> (k, v) \<in> set kvs \<Longrightarrow> dict_get (foldl (\<lambda>d (k, v). dict_set k v d) d kvs) k = Some v"
  by (induction kvs arbitrary: d) (auto simp: foldl_set_other)

definition offered :: "module_spec \<Rightarrow> bool" where
  "offered sp \<longleftrightarrow> sp_name sp \<notin> set CORE_MODULES \<and> sp_name sp \<noteq> ''exfil''"

lemma plugin_fold:
  "map_of (foldl (\<lambda>out sp. if sp_name sp \<in> set CORE_MODULES \<or> sp_name sp = ''exfil'' then out
      else dict_set (sp_name sp) (sp_runner sp) out) out sps) =
   map_of (foldl (\<lambda>d (k, v). dict_set k v d) out (map (\<lambda>sp. (sp_name sp, sp_runner sp)) (filter offered sps)))"
  "dict_ok out \<Longrightarrow> dict_ok (foldl (\<lambda>out sp. if sp_name sp \<in> set CORE_MODULES \<or> sp_name sp = ''exfil'' then out
      else dict_set (sp_name sp) (sp_runner sp) out) out sps)"
  by (induction sps arbitrary: out) (auto simp: offered_def)

text \<open>The registry is keyed by the names of its specifications.\<close>

definition registry_ok :: "module_state \<Rightarrow> bool" where
  "registry_ok st \<longleftrightarrow> dict_ok (ms_specs st) \<and> (\<forall>(n, sp)\<in>set (ms_specs st). sp_name sp = n)"

lemma dict_set_keyed:
  "\<forall>(n, v)\<in>set d. f v = n \<Longrightarrow> f w = k \<Longrightarrow> \<forall>(n, v)\<in>set (dict_set k w d). f v = n"
  by (induction d) (auto split: if_splits)

lemma register_module_ok: "registry_ok st \<Longrightarrow> registry_ok (register_module st sp)"
  using dict_set_keyed [of "ms_specs st" sp_name sp "sp_name sp"] by (auto simp: registry_ok_def register_module_def)

lemma import_file_ok: "registry_ok st \<Longrightarrow> registry_ok (snd (import_file files st name))"
proof -
  assume st: "registry_ok st"
  have "registry_ok (foldl register_module st specs)" for specs
    using st by (induction specs arbitrary: st) (auto intro: register_module_ok)
  then show ?thesis
    using st by (auto simp: import_file_def Let_def registry_ok_def split: prod.splits option.splits)
qed

lemma discover_modules_ok: "registry_ok st \<Longrightarrow> registry_ok (snd (discover_modules files stems st))"
proof -
  assume "registry_ok st"
  then have "registry_ok (foldl (discover_step files) st xs)" for xs
    by (induction xs arbitrary: st) (auto simp: discover_step_def intro: import_file_ok)
  then show ?thesis by (simp add: discover_modules_def Let_def)
qed

lemma discovered_plugins_get:
  assumes "registry_ok st" "discovered_plugins files (Some names) st = (plugins, st')"
  shows "dict_get plugins k =
    (case get_module st' k of None \<Rightarrow> None | Some sp \<Rightarrow> if offered sp then Some (sp_runner sp) else None)"
    and "dict_ok plugins"
proof -
  let ?sps = "map snd (ms_specs st')"
  have st': "st' = snd (discover_modules files names st)"
    and p: "plugins = foldl (\<lambda>out sp. if sp_name sp \<in> set CORE_MODULES \<or> sp_name sp = ''exfil'' then out
       else dict_set (sp_name sp) (sp_runner sp) out) [] ?sps"
    using assms(2) by (auto simp: discovered_plugins_def list_modules_def Let_def)
  show "dict_ok plugins" unfolding p by (rule plugin_fold(2)) simp
  have ok: "registry_ok st'" unfolding st' by (rule discover_modules_ok [OF assms(1)])
  then have "map sp_name ?sps = dict_keys (ms_specs st')" by (auto simp: registry_ok_def)
  then have "distinct (map sp_name ?sps)" using ok by (simp only: registry_ok_def dict_ok_def)
  then have names: "distinct (map sp_name (filter offered ?sps))" by (rule distinct_map_filter)
  let ?kvs = "map (\<lambda>sp. (sp_name sp, sp_runner sp)) (filter offered ?sps)"
  have "map fst ?kvs = map sp_name (filter offered ?sps)" by simp
  then have d: "distinct (map fst ?kvs)" using names by (simp only:)
  have get: "dict_get plugins k = dict_get (foldl (\<lambda>d (k, v). dict_set k v d) [] ?kvs) k"
    unfolding p by (simp only: plugin_fold(1))
  show "dict_get plugins k =
    (case get_module st' k of None \<Rightarrow> None | Some sp \<Rightarrow> if offered sp then Some (sp_runner sp) else None)"
  proof (cases "\<exists>sp. get_module st' k = Some sp \<and> offered sp")
    case True
    then obtain sp where sp: "get_module st' k = Some sp" "offered sp" by blast
    then have m: "(k, sp) \<in> set (ms_specs st')" by (simp add: get_module_def map_of_SomeD)
    then have "sp_name sp = k" using ok by (auto simp: registry_ok_def)
    moreover have "sp \<in> set (filter offered ?sps)" using image_eqI [OF _ m, of sp snd] sp(2) by simp
    ultimately have "(k, sp_runner sp) \<in> set ?kvs" unfolding set_map by (rule_tac image_eqI) simp_all
    from foldl_set_mem [OF d this] show ?thesis by (simp only: get sp option.case if_True)
  next
    case False
    have "k \<notin> fst ` set ?kvs"
    proof
      assume "k \<in> fst ` set ?kvs"
      then obtain n sp where sp: "(n, sp) \<in> set (ms_specs st')" "offered sp" "sp_name sp = k" by auto
      then have "n = k" using ok by (auto simp: registry_ok_def)
      then have "get_module st' k = Some sp"
        using ok sp(1) by (simp add: registry_ok_def get_module_def dict_ok_def)
      then show False using False sp(2) by blast
    qed
    from foldl_set_other [OF this, of "[]"] have "dict_get plugins k = None" by (simp only: get map_of.simps)
    then show ?thesis using False by (auto split: option.splits)
  qed
qed

text \<open>
  C13: Whatever the files of the plugin folder register, the five core modules keep their runners; and every
  other module registered, except one called \<open>exfil\<close>, is in the registry, those of a file that fails
  later included.
\<close>
theorem core_runners_protected:
  assumes "registry_ok st" "default_registry env scope files (Some names) st = (reg, st')"
  shows "(k \<in> set CORE_MODULES \<longrightarrow> dict_get reg k = dict_get (core_runners env scope) k) \<and>
    (\<forall>sp. get_module st' k = Some sp \<longrightarrow> k \<notin> set CORE_MODULES \<longrightarrow> k \<noteq> ''exfil'' \<longrightarrow> dict_get reg k = Some (sp_runner sp))"
proof -
  obtain plugins where p: "discovered_plugins files (Some names) st = (plugins, st')"
    and reg: "reg = foldl (\<lambda>reg (n, r). dict_set n r reg) (core_runners env scope) plugins"
    using assms(2) by (auto simp: default_registry_def split: prod.splits)
  note get = discovered_plugins_get [OF assms(1) p]
  have ok: "registry_ok st'"
    using p discover_modules_ok [OF assms(1)] by (auto simp: discovered_plugins_def Let_def)
  have name: "get_module st' n = Some sp \<Longrightarrow> sp_name sp = n" for n sp
    using ok by (auto simp: registry_ok_def get_module_def dest!: map_of_SomeD)
  show ?thesis
  proof (intro conjI impI allI)
    assume "k \<in> set CORE_MODULES"
    then have "dict_get plugins k = None"
      using get(1) [of k] name by (auto simp: offered_def split: option.splits)
    then have "k \<notin> fst ` set plugins" by (simp add: map_of_eq_None_iff)
    then show "dict_get reg k = dict_get (core_runners env scope) k" unfolding reg by (rule foldl_set_other)
  next
    fix sp assume sp: "get_module st' k = Some sp" "k \<notin> set CORE_MODULES" "k \<noteq> ''exfil''"
    then have "dict_get plugins k = Some (sp_runner sp)" using get(1) [of k] name by (simp add: offered_def)
    then show "dict_get reg k = Some (sp_runner sp)"
      using foldl_set_mem [of plugins k "sp_runner sp"] get(2) by (auto simp: reg dict_ok_def dest: map_of_SomeD)
  qed
qed

section \<open>Enumeration and the scope\<close>

lemma resolve_all_asks: "snd (resolve_all look names asked) = asked @ names"
  by (induction names arbitrary: asked) (simp_all add: async_resolve_def case_prod_unfold)

lemma resolve_all_answers: "fst (resolve_all look names asked) = map (\<lambda>n. fst (async_resolve look n [])) names"
  by (induction names arbitrary: asked) (simp_all add: async_resolve_def case_prod_unfold)

lemma map_filter_set: "set (List.map_filter f xs) = {y. \<exists>x\<in>set xs. f x = Some y}"
  by (induction xs) (auto simp: List.map_filter_simps split: option.splits)

text \<open>What an enumeration within a scope asks for and finds.\<close>

lemma enum_asks:
  "snd (async_subdomain_enum look domain ws (Some sc) asked) =
     asked @ filter (is_target_allowed sc) (candidate_names domain ws)"
  using resolve_all_asks [of look _ asked] by (simp add: async_subdomain_enum_def Let_def case_prod_unfold)

lemma enum_finds:
  "set (fst (async_subdomain_enum look domain ws (Some sc) asked)) =
     {(n, a) | n a as. n \<in> set (candidate_names domain ws) \<and> is_target_allowed sc n \<and> look n = Inr (a # as) \<and> ip_in_scope sc a}"
proof -
  have "fst (async_resolve look n []) = Some (m, a) \<longleftrightarrow> m = n \<and> (\<exists>as. look n = Inr (a # as))"
    "Some (m, a) = fst (async_resolve look n []) \<longleftrightarrow> m = n \<and> (\<exists>as. look n = Inr (a # as))" for n m a
    by (auto simp: async_resolve_def split: sum.splits list.splits)
  then show ?thesis
    by (auto simp: async_subdomain_enum_def Let_def case_prod_unfold resolve_all_answers map_filter_set image_iff)
qed

text \<open>
  C7: The subdomain module asks the resolver for authorised names only, once for each candidate of its word list
  inside the scope, whatever the resolver answers. Without a scope, for a target outside it or with a word list
  that is none, it asks for nothing. Its new findings are exactly the authorised candidates that resolve, with
  their first address, which in a scope with networks is authorised as well.
\<close>
theorem dns_within_scope:
  "case dns_runner look scope s ctx asked of ((res, ctx'), asked') \<Rightarrow>
     (case scope of
        None \<Rightarrow> asked' = asked \<and> ctx' = ctx
      | Some sc \<Rightarrow>
          if is_target_allowed sc (step_target s)
          then (case wordlist_of s of
                  Inl e \<Rightarrow> asked' = asked \<and> ctx' = ctx
                | Inr ws \<Rightarrow>
                    asked' = asked @ filter (is_target_allowed sc) (candidate_names (step_target s) ws) \<and>
                    (\<exists>new. ctx_findings ctx' = ctx_findings ctx @ map (dns_finding (step_target s)) new \<and>
                       set new = {(n, a) | n a as. n \<in> set (candidate_names (step_target s) ws) \<and> is_target_allowed sc n \<and>
                         look n = Inr (a # as) \<and> (networks sc = [] \<or> is_target_allowed sc a)}))
          else asked' = asked \<and> ctx' = ctx)"
proof (cases scope)
  case None
  then show ?thesis by (simp add: dns_runner_def)
next
  case (Some sc)
  show ?thesis
  proof (cases "is_target_allowed sc (step_target s)")
    case False
    then show ?thesis by (simp add: dns_runner_def Some check_def)
  next
    case True
    show ?thesis
    proof (cases "wordlist_of s")
      case (Inl e)
      then show ?thesis using True by (simp add: dns_runner_def Some check_def)
    next
      case (Inr ws)
      show ?thesis
        using True Inr enum_asks [of look "step_target s" ws sc asked] enum_finds [of look "step_target s" ws sc asked]
        by (auto simp: dns_runner_def Some check_def Let_def add_findings_def ip_in_scope_def case_prod_unfold)
    qed
  qed
qed

text \<open>The default word list holds \<open>smtp\<close> twice, so a mail host is resolved, reported and counted twice.\<close>

theorem smtp_counted_twice:
  "fst (async_subdomain_enum (\<lambda>n. if n = ''smtp.example.com'' then Inr [''10.0.0.9''] else Inl (OSError [])) ''example.com''
     DEFAULT_WORDLIST (Some sample_enforcer) []) = [(''smtp.example.com'', ''10.0.0.9''), (''smtp.example.com'', ''10.0.0.9'')]"
  by code_simp

definition no_modules :: module_state where
  "no_modules = \<lparr>ms_specs = [], ms_imported = []\<rparr>"

text \<open>A file that registers a recon module and a new one, then fails.\<close>

definition hostile_file :: module_files where
  "hostile_file name =
     ([\<lparr>sp_name = ''recon'', sp_kind = ''x'', sp_runner = (\<lambda>_ _ ctx. (Inr PNone, ctx)), sp_params = []\<rparr>,
       \<lparr>sp_name = ''extra'', sp_kind = ''x'', sp_runner = (\<lambda>_ _ ctx. (Inr PNone, ctx)), sp_params = []\<rparr>],
      Some (RuntimeError ''broken''))"

theorem core_runners_protected_witness:
  "dict_get (fst (default_registry (\<lambda>_. quiet_env) None hostile_file (Some [''evil'']) no_modules)) ''recon'' =
     dict_get (core_runners (\<lambda>_. quiet_env) None) ''recon''"
proof -
  obtain reg st' where r: "default_registry (\<lambda>_. quiet_env) None hostile_file (Some [''evil'']) no_modules = (reg, st')"
    by fastforce
  have "registry_ok no_modules" by (simp add: registry_ok_def no_modules_def)
  from core_runners_protected [OF this r, of "''recon''"] show ?thesis using r by (simp add: CORE_MODULES_def)
qed

end
