(* ===== verification/Dns.thy ===== *)
theory Dns
  imports PyFloat PyVal
begin

unbundle bit_operations_syntax

text \<open>
  \<open>modules/discovery/dns_resolver.py\<close>: the DNS query with its EDNS0 record, the parser of replies,
  and resolution with a cache and failover between name servers, whose answers are arguments.
\<close>

section \<open>Queries\<close>

type_synonym octets = "nat list"

definition be16 :: "nat \<Rightarrow> octets" where "be16 n = [n div 256 mod 256, n mod 256]"

text \<open>\<open>struct.pack\<close> with \<open>H\<close>: a value of more than 16 bits is a \<open>struct.error\<close>.\<close>

definition pack16 :: "nat \<Rightarrow> exc + octets" where
  "pack16 n = (if n < 65536 then Inr (be16 n) else Inl (RuntimeError ''struct.error''))"

definition ascii_octets :: "string \<Rightarrow> exc + octets" where
  "ascii_octets s =
     (if list_all (\<lambda>c. ord_of c < 128) s then Inr (map ord_of s)
      else Inl (ValueError ''ordinal not in range(128)''))"

definition encode_label :: "string \<Rightarrow> exc + octets" where
  "encode_label part =
     (if 255 < length part then Inl (ValueError ''byte must be in range(0, 256)'')
      else bind_res (ascii_octets part) (\<lambda>bs. Inr (length part # bs)))"

definition encode_qname :: "string \<Rightarrow> exc + octets" where
  "encode_qname domain =
     bind_res (map_res encode_label (filter (\<lambda>p. p \<noteq> []) (split_char (CHR ''.'') domain))) (\<lambda>labels.
       Inr (concat labels @ [0]))"

definition edns_opt :: octets where
  "edns_opt = 0 # be16 41 @ be16 4096 @ [0, 0, 0, 0] @ be16 0"

definition build_edns_query :: "nat \<Rightarrow> string \<Rightarrow> nat \<Rightarrow> exc + octets" where
  "build_edns_query tx_id domain qtype =
     bind_res (encode_qname domain) (\<lambda>qname. bind_res (pack16 qtype) (\<lambda>qt.
       Inr (be16 tx_id @ be16 0x0100 @ be16 1 @ be16 0 @ be16 0 @ be16 1 @ (qname @ qt @ be16 1) @ edns_opt)))"

section \<open>Replies\<close>

text \<open>\<open>data[pos]\<close>, and the 16-bit field there.\<close>

definition octet_at :: "octets \<Rightarrow> nat \<Rightarrow> exc + nat" where
  "octet_at d pos = (if pos < length d then Inr (d ! pos) else Inl IndexError)"

definition field16 :: "octets \<Rightarrow> nat \<Rightarrow> exc + nat" where
  "field16 d pos = bind_res (octet_at d pos) (\<lambda>a. bind_res (octet_at d (pos + 1)) (\<lambda>b. Inr (a * 256 + b)))"

definition is_pointer :: "nat \<Rightarrow> bool" where
  "is_pointer b \<longleftrightarrow> b AND 0xC0 = 0xC0"

function skip_name :: "octets \<Rightarrow> nat \<Rightarrow> exc + nat" where
  "skip_name d pos =
     (if pos < length d then
        bind_res (octet_at d pos) (\<lambda>len.
          if len = 0 then Inr (pos + 1)
          else if is_pointer len then Inr (pos + 2)
          else skip_name d (pos + 1 + len))
      else Inr pos)"
  by pat_completeness auto
termination by (relation "measure (\<lambda>(d, pos). length d - pos)") auto

declare skip_name.simps [simp del]

fun skip_questions :: "octets \<Rightarrow> nat \<Rightarrow> nat \<Rightarrow> exc + nat" where
  "skip_questions d 0 pos = Inr pos"
| "skip_questions d (Suc n) pos = bind_res (skip_name d pos) (\<lambda>pos. skip_questions d n (pos + 4))"

text \<open>\<open>while pos < len(data) and data[pos] != 0: pos += 1\<close>, and the step behind the zero.\<close>

function skip_to_zero :: "octets \<Rightarrow> nat \<Rightarrow> exc + nat" where
  "skip_to_zero d pos =
     (if pos < length d then bind_res (octet_at d pos) (\<lambda>b. if b \<noteq> 0 then skip_to_zero d (pos + 1) else Inr (pos + 1))
      else Inr (pos + 1))"
  by pat_completeness auto
termination by (relation "measure (\<lambda>(d, pos). length d - pos)") auto

declare skip_to_zero.simps [simp del]

definition skip_owner :: "octets \<Rightarrow> nat \<Rightarrow> exc + nat" where
  "skip_owner d pos =
     bind_res (octet_at d pos) (\<lambda>b. if is_pointer b then Inr (pos + 2) else skip_to_zero d pos)"

definition dotted_quad :: "nat \<Rightarrow> nat \<Rightarrow> nat \<Rightarrow> nat \<Rightarrow> string" where
  "dotted_quad a b c e = show_nat a @ CHR ''.'' # show_nat b @ CHR ''.'' # show_nat c @ CHR ''.'' # show_nat e"

definition quad_at :: "octets \<Rightarrow> nat \<Rightarrow> exc + string" where
  "quad_at d pos =
     bind_res (octet_at d pos) (\<lambda>a. bind_res (octet_at d (pos + 1)) (\<lambda>b.
     bind_res (octet_at d (pos + 2)) (\<lambda>c. bind_res (octet_at d (pos + 3)) (\<lambda>e. Inr (dotted_quad a b c e)))))"

text \<open>One record: its address when it is an A record, and where the next one starts.\<close>

definition answer_at :: "octets \<Rightarrow> nat \<Rightarrow> exc + string list \<times> nat" where
  "answer_at d pos =
     bind_res (field16 d pos) (\<lambda>rtype. bind_res (field16 d (pos + 8)) (\<lambda>rdlength.
       let pos = pos + 10 in
       bind_res (if rtype = 1 \<and> rdlength = 4 \<and> pos + 4 \<le> length d
                 then bind_res (quad_at d pos) (\<lambda>ip. Inr [ip]) else Inr []) (\<lambda>ips.
         Inr (ips, pos + rdlength))))"

fun answers :: "octets \<Rightarrow> nat \<Rightarrow> nat \<Rightarrow> exc + string list" where
  "answers d 0 pos = Inr []"
| "answers d (Suc n) pos =
     (if length d \<le> pos then Inr []
      else bind_res (skip_owner d pos) (\<lambda>pos.
        if length d < pos + 10 then Inr []
        else bind_res (answer_at d pos) (\<lambda>(ips, pos).
          bind_res (answers d n pos) (\<lambda>more_ips. Inr (ips @ more_ips)))))"

definition parse_response :: "octets \<Rightarrow> exc + string list" where
  "parse_response d =
     (if length d < 12 then Inr []
      else bind_res (field16 d 2) (\<lambda>flags. bind_res (field16 d 4) (\<lambda>qdcount. bind_res (field16 d 6) (\<lambda>ancount.
        if flags AND 0x000F \<noteq> 0 \<or> ancount = 0 then Inr []
        else bind_res (skip_questions d qdcount 12) (\<lambda>pos. answers d ancount pos)))))"

section \<open>Resolution\<close>

text \<open>\<open>srv\<close>: what a name server returned for the query, or the \<open>OSError\<close> as None.\<close>

type_synonym dns_cache = "(string, float \<times> string list) dict"

definition query_sync :: "(string \<Rightarrow> octets \<Rightarrow> octets option) \<Rightarrow> octets \<Rightarrow> string \<Rightarrow> exc + string list" where
  "query_sync srv query ns = (case srv ns query of None \<Rightarrow> Inr [] | Some resp \<Rightarrow> parse_response resp)"

fun first_answer :: "(string \<Rightarrow> exc + string list) \<Rightarrow> string list \<Rightarrow> exc + string list" where
  "first_answer ask [] = Inr []"
| "first_answer ask (ns # nss) =
     bind_res (ask ns) (\<lambda>ips. if ips \<noteq> [] then Inr ips else first_answer ask nss)"

definition default_nameservers :: "string list" where
  "default_nameservers = [''8.8.8.8'', ''1.1.1.1'', ''8.8.4.4'']"

definition nameservers_of :: "string list option \<Rightarrow> string list" where
  "nameservers_of given = (case given of Some (n # ns) \<Rightarrow> n # ns | _ \<Rightarrow> default_nameservers)"

definition cache_key :: "string \<Rightarrow> nat \<Rightarrow> string" where
  "cache_key domain qtype = domain @ CHR '':'' # show_nat qtype"

definition cached :: "dns_cache \<Rightarrow> float \<Rightarrow> string \<Rightarrow> string list option" where
  "cached c now key =
     (case dict_get c key of Some (expires, ips) \<Rightarrow> if now < expires then Some ips else None | None \<Rightarrow> None)"

definition resolve_name ::
  "(string \<Rightarrow> octets \<Rightarrow> octets option) \<Rightarrow> string list \<Rightarrow> nat \<Rightarrow> float \<Rightarrow> dns_cache \<Rightarrow> string \<Rightarrow> nat \<Rightarrow>
     exc + string list \<times> dns_cache"
where
  "resolve_name srv nss tx_id now c domain qtype =
     (let key = cache_key domain qtype in
      case cached c now key of
        Some ips \<Rightarrow> Inr (ips, c)
      | None \<Rightarrow>
          bind_res (build_edns_query tx_id domain qtype) (\<lambda>query.
          bind_res (first_answer (query_sync srv query) nss) (\<lambda>ips.
            Inr (ips, dict_set key (fadd now 120, ips) c))))"

section \<open>The parser on arbitrary bytes\<close>

lemma octet_at_in: "pos < length d \<Longrightarrow> octet_at d pos = Inr (d ! pos)"
  by (simp add: octet_at_def)

lemma field16_in: "pos + 1 < length d \<Longrightarrow> field16 d pos = Inr (d ! pos * 256 + d ! (pos + 1))"
  by (simp add: field16_def octet_at_in)

lemma skip_name_total: "\<exists>pos'. skip_name d pos = Inr pos'"
  by (induction d pos rule: skip_name.induct) (subst skip_name.simps, auto simp: octet_at_in)

lemma skip_questions_total: "\<exists>pos'. skip_questions d n pos = Inr pos'"
proof (induction n arbitrary: pos)
  case (Suc n)
  then show ?case using skip_name_total [of d pos] by auto
qed simp

lemma skip_to_zero_total: "\<exists>pos'. skip_to_zero d pos = Inr pos'"
  by (induction d pos rule: skip_to_zero.induct) (subst skip_to_zero.simps, auto simp: octet_at_in)

lemma skip_owner_total: "pos < length d \<Longrightarrow> \<exists>pos'. skip_owner d pos = Inr pos'"
  using skip_to_zero_total by (simp add: skip_owner_def octet_at_in)

definition is_quad :: "string \<Rightarrow> bool" where
  "is_quad s \<longleftrightarrow> (\<exists>a b c e. a < 256 \<and> b < 256 \<and> c < 256 \<and> e < 256 \<and> s = dotted_quad a b c e)"

lemma is_quadI: "a < 256 \<Longrightarrow> b < 256 \<Longrightarrow> c < 256 \<Longrightarrow> e < 256 \<Longrightarrow> is_quad (dotted_quad a b c e)"
  by (auto simp: is_quad_def)

definition octets_ok :: "octets \<Rightarrow> bool" where
  "octets_ok d \<longleftrightarrow> list_all (\<lambda>b. b < 256) d"

lemma quad_at_in:
  "pos + 4 \<le> length d \<Longrightarrow> quad_at d pos = Inr (dotted_quad (d ! pos) (d ! (pos + 1)) (d ! (pos + 2)) (d ! (pos + 3)))"
  by (simp add: quad_at_def octet_at_in)

lemma answer_at_total:
  assumes "octets_ok d" "pos + 10 \<le> length d"
  shows "\<exists>ips pos'. answer_at d pos = Inr (ips, pos') \<and> list_all is_quad ips"
proof -
  have "d ! i < 256" if "i < length d" for i using assms(1) that by (simp add: octets_ok_def list_all_length)
  then show ?thesis
    using assms(2) by (auto simp: answer_at_def field16_in quad_at_in Let_def is_quadI)
qed

lemma answers_total: "octets_ok d \<Longrightarrow> \<exists>ips. answers d n pos = Inr ips \<and> list_all is_quad ips"
proof (induction n arbitrary: pos)
  case (Suc n)
  show ?case
  proof (cases "pos < length d")
    case True
    then obtain p1 where p1: "skip_owner d pos = Inr p1" using skip_owner_total by blast
    show ?thesis
    proof (cases "p1 + 10 \<le> length d")
      case le: True
      obtain ips p2 where "answer_at d p1 = Inr (ips, p2)" "list_all is_quad ips"
        using answer_at_total [OF Suc.prems le] by blast
      then show ?thesis using Suc.IH [OF Suc.prems, of p2] True p1 le by auto
    qed (use True p1 in simp)
  qed simp
qed simp

lemma parse_total_aux: "octets_ok d \<Longrightarrow> \<exists>ips. parse_response d = Inr ips \<and> list_all is_quad ips"
proof (cases "length d < 12")
  case False
  assume ok: "octets_ok d"
  obtain p where "skip_questions d (d ! 4 * 256 + d ! 5) 12 = Inr p" using skip_questions_total by blast
  then show ?thesis
    using False answers_total [OF ok] by (auto simp: parse_response_def field16_in)
qed (simp add: parse_response_def)

text \<open>
  Whatever bytes a server sends, the parser ends without raising, and every address it returns is four
  numbers below 256 joined by dots.
\<close>
theorem parse_response_total:
  assumes "octets_ok d"
  shows "\<exists>ips. parse_response d = Inr ips \<and> list_all is_quad ips"
  using assms by (rule parse_total_aux)

theorem parse_response_total_witness:
  "\<exists>ips. parse_response [0, 1, 0x81, 0x80, 0xFF, 0xFF, 0, 1, 0, 0, 0, 0, 0xC0] = Inr ips \<and> list_all is_quad ips"
  by (rule parse_response_total) (simp add: octets_ok_def)

section \<open>Well-formed replies\<close>

text \<open>A reply as RFC 1035 lays it out: the question repeated, then A records that point to its name.\<close>

definition a_record :: "nat \<times> nat \<times> nat \<times> nat \<Rightarrow> octets" where
  "a_record q = (case q of (a, b, c, e) \<Rightarrow>
     [0xC0, 0x0C] @ be16 1 @ be16 1 @ [0, 0, 0, 60] @ be16 4 @ [a, b, c, e])"

definition dns_reply :: "nat \<Rightarrow> octets \<Rightarrow> nat \<Rightarrow> (nat \<times> nat \<times> nat \<times> nat) list \<Rightarrow> octets" where
  "dns_reply tx_id qname qtype quads =
     be16 tx_id @ be16 0x8180 @ be16 1 @ be16 (length quads) @ be16 0 @ be16 0 @
       (qname @ be16 qtype @ be16 1) @ concat (map a_record quads)"

definition quad_text :: "nat \<times> nat \<times> nat \<times> nat \<Rightarrow> string" where
  "quad_text q = (case q of (a, b, c, e) \<Rightarrow> dotted_quad a b c e)"

text \<open>Labels of at most 63 characters, as the DNS requires; no length byte looks like a pointer.\<close>

lemma small_not_pointer: "b < 64 \<Longrightarrow> \<not> is_pointer b"
proof -
  assume b: "b < 64"
  have "int (b AND 0xC0) = int b AND 0xC0" by (simp add: of_nat_and_eq)
  then have "int (b AND 0xC0) \<le> int b" using AND_upper1 [of "int b" "0xC0"] by (simp only: of_nat_0_le_iff)
  then have "b AND 0xC0 < 0xC0" using b by simp
  then show ?thesis by (simp add: is_pointer_def)
qed

lemma skip_name_labels:
  assumes "list_all (\<lambda>l. length l < 64 \<and> l \<noteq> []) ls"
  shows "skip_name (pre @ concat (map (\<lambda>l. length l # l) ls) @ 0 # post) (length pre) =
    Inr (length pre + length (concat (map (\<lambda>l. length l # l) ls)) + 1)"
  using assms
proof (induction ls arbitrary: pre)
  case Nil
  then show ?case by (subst skip_name.simps) (simp add: octet_at_in)
next
  case (Cons l ls)
  have "\<not> is_pointer (length l)" "length l \<noteq> 0" using Cons.prems by (simp_all add: small_not_pointer)
  then show ?case
    using Cons.IH [of "pre @ length l # l"] Cons.prems
    by (subst skip_name.simps) (simp add: octet_at_in nth_append)
qed

lemma octets_before: "octet_at (pre @ d) (length pre + i) = octet_at d i"
  by (simp add: octet_at_def nth_append)

lemma be16_fields: "n < 65536 \<Longrightarrow> field16 (pre @ be16 n @ post) (length pre) = Inr n"
  by (simp add: field16_in be16_def nth_append)

lemma pointer_byte: "is_pointer 0xC0"
  by (simp add: is_pointer_def)

lemma answers_records:
  "answers (pre @ concat (map a_record qs)) (length qs) (length pre) = Inr (map quad_text qs)"
proof (induction qs arbitrary: pre)
  case (Cons q qs)
  obtain a b c e where q: "q = (a, b, c, e)" by (cases q)
  let ?rest = "concat (map a_record qs)"
  let ?d = "pre @ a_record q @ ?rest"
  have rec: "a_record q = [0xC0, 0x0C, 0, 1, 0, 1, 0, 0, 0, 60, 0, 4, a, b, c, e]"
    by (simp add: a_record_def q be16_def)
  then have len: "length (a_record q) = 16" by simp
  define d where "d = ?d"
  have at: "octet_at d (length pre + i) = Inr (a_record q ! i)" if "i < 16" for i
    using that len by (simp add: d_def octets_before octet_at_def nth_append)
  have fld: "field16 d (length pre + i) = Inr (a_record q ! i * 256 + a_record q ! (i + 1))" if "i + 1 < 16" for i
    using at [of i] at [of "i + 1"] that by (simp only: field16_def add.assoc bind_res_Inr)
  have owner: "skip_owner d (length pre) = Inr (length pre + 2)"
    using at [of 0] by (simp add: skip_owner_def pointer_byte rec)
  have "field16 d (length pre + 2) = Inr 1" "field16 d (length pre + 2 + 8) = Inr 4"
    using fld [of 2] fld [of 10] by (simp_all add: rec) (simp add: add.commute)
  moreover have "length pre + 16 \<le> length d" using len by (simp add: d_def)
  moreover from this have "quad_at d (length pre + 2 + 10) =
      Inr (dotted_quad (d ! (length pre + 12)) (d ! (length pre + 13)) (d ! (length pre + 14)) (d ! (length pre + 15)))"
    using quad_at_in [of "length pre + 12" d] by (simp add: add.commute)
  moreover have "d ! (length pre + i) = a_record q ! i" if "i < 16" for i
    using that len by (simp add: d_def nth_append)
  ultimately have "answer_at d (length pre + 2) = Inr ([dotted_quad a b c e], length pre + 16)"
    by (simp add: answer_at_def Let_def rec add.commute)
  moreover have "answers d (length qs) (length pre + 16) = Inr (map quad_text qs)"
    using Cons.IH [of "pre @ a_record q"] len by (simp add: d_def)
  moreover have "\<not> length d \<le> length pre" "\<not> length d < length pre + 2 + 10"
    using len by (simp_all add: d_def)
  ultimately have "answers d (Suc (length qs)) (length pre) = Inr (map quad_text (q # qs))"
    using owner by (simp add: quad_text_def q)
  then show ?case by (simp add: d_def)
qed simp

lemma encode_labels:
  "map_res encode_label ps = Inr bs \<Longrightarrow> bs = map (\<lambda>p. length (map ord_of p) # map ord_of p) ps"
  by (induction ps arbitrary: bs)
    (auto simp: encode_label_def ascii_octets_def bind_res_eq_Inr split: if_splits)

lemma encode_qname_labels:
  assumes "encode_qname domain = Inr qname" "list_all (\<lambda>p. length p < 64) (split_char (CHR ''.'') domain)"
  shows "\<exists>ls. list_all (\<lambda>l. length l < 64 \<and> l \<noteq> []) ls \<and> qname = concat (map (\<lambda>l. length l # l) ls) @ [0]"
proof -
  let ?parts = "filter (\<lambda>p. p \<noteq> []) (split_char (CHR ''.'') domain)"
  obtain bs where bs: "map_res encode_label ?parts = Inr bs" "qname = concat bs @ [0]"
    using assms(1) by (auto simp: encode_qname_def bind_res_eq_Inr)
  have "qname = concat (map (\<lambda>l. length l # l) (map (map ord_of) ?parts)) @ [0]"
    using encode_labels [OF bs(1)] bs(2) by (simp add: comp_def)
  moreover have "list_all (\<lambda>l. length l < 64 \<and> l \<noteq> []) (map (map ord_of) ?parts)"
    using assms(2) by (auto simp: list_all_iff)
  ultimately show ?thesis by blast
qed



section \<open>What the parser does not look at\<close>

lemma octet_at_shift: "octet_at (a # b # d) (pos + 2) = octet_at d pos"
  by (simp add: octet_at_def)

text \<open>The positions of a message shifted by the two bytes of the identifier.\<close>

lemma skip_name_shift:
  "skip_name (a # b # d) (pos + 2) = (case skip_name d pos of Inl e \<Rightarrow> Inl e | Inr p \<Rightarrow> Inr (p + 2))"
proof (induction d pos rule: skip_name.induct)
  case (1 d pos)
  show ?case
  proof (cases "pos < length d")
    case True
    then show ?thesis
      using 1 by (subst (1 2) skip_name.simps) (auto simp: octet_at_shift octet_at_in)
  next
    case False
    then show ?thesis by (subst (1 2) skip_name.simps) simp
  qed
qed

lemma skip_questions_shift:
  "skip_questions (a # b # d) n (pos + 2) =
     (case skip_questions d n pos of Inl e \<Rightarrow> Inl e | Inr p \<Rightarrow> Inr (p + 2))"
proof (induction n arbitrary: pos)
  case (Suc n)
  obtain p where p: "skip_name d pos = Inr p" using skip_name_total by blast
  have "p + 2 + 4 = (p + 4) + 2" by simp
  then show ?case using Suc.IH [of "p + 4"] by (simp only: skip_questions.simps skip_name_shift p sum.case bind_res_Inr)
qed simp

lemma skip_to_zero_shift:
  "skip_to_zero (a # b # d) (pos + 2) = (case skip_to_zero d pos of Inl e \<Rightarrow> Inl e | Inr p \<Rightarrow> Inr (p + 2))"
proof (induction d pos rule: skip_to_zero.induct)
  case (1 d pos)
  show ?case
    by (cases "pos < length d"; subst (1 2) skip_to_zero.simps) (use 1 in \<open>auto simp: octet_at_shift octet_at_in\<close>)
qed

lemma skip_owner_shift:
  "skip_owner (a # b # d) (pos + 2) = (case skip_owner d pos of Inl e \<Rightarrow> Inl e | Inr p \<Rightarrow> Inr (p + 2))"
  by (cases "octet_at d pos") (simp_all add: skip_owner_def octet_at_shift skip_to_zero_shift del: add_2_eq_Suc')

lemma field16_shift: "field16 (a # b # d) (pos + 2) = field16 d pos"
proof -
  have "pos + 2 + 1 = (pos + 1) + 2" by simp
  then show ?thesis by (simp only: field16_def octet_at_shift)
qed

lemma quad_at_shift: "quad_at (a # b # d) (pos + 2) = quad_at d pos"
proof -
  have "pos + 2 + 1 = (pos + 1) + 2" "pos + 2 + 2 = (pos + 2) + 2" "pos + 2 + 3 = (pos + 3) + 2" by simp_all
  then show ?thesis by (simp only: quad_at_def octet_at_shift)
qed

lemma answer_at_shift:
  "answer_at (a # b # d) (pos + 2) =
     (case answer_at d pos of Inl e \<Rightarrow> Inl e | Inr (ips, p) \<Rightarrow> Inr (ips, p + 2))"
proof -
  have e: "pos + 2 + 8 = (pos + 8) + 2" "pos + 2 + 10 = (pos + 10) + 2" by simp_all
  show ?thesis
    by (cases "field16 d pos"; cases "field16 d (pos + 8)"; cases "quad_at d (pos + 10)")
      (simp_all only: answer_at_def e field16_shift quad_at_shift Let_def bind_res_Inl bind_res_Inr sum.case if_cancel,
        auto)
qed

lemma answers_shift: "answers (a # b # d) n (pos + 2) = answers d n pos"
proof (induction n arbitrary: pos)
  case (Suc n)
  have e: "p + 2 + 10 = (p + 10) + 2" for p :: nat by simp
  show ?case
    by (cases "skip_owner d pos") (auto simp: skip_owner_shift answer_at_shift Suc e split: sum.splits
        simp del: add_2_eq_Suc' add_Suc_right)
qed simp

text \<open>
  The transaction identifier of a reply is never compared with the query's: two replies that differ only
  in it are read alike, so a reply to any other query is accepted.
\<close>
theorem reply_id_ignored: "parse_response (a # b # d) = parse_response (a' # b' # d)"
proof -
  have "parse_response (a # b # d) =
      (if length d < 10 then Inr []
       else bind_res (field16 d 0) (\<lambda>flags. bind_res (field16 d 2) (\<lambda>qdcount. bind_res (field16 d 4) (\<lambda>ancount.
         if flags AND 0x000F \<noteq> 0 \<or> ancount = 0 then Inr []
         else bind_res (skip_questions d qdcount 10) (\<lambda>pos. answers d ancount pos)))))" for a b
  proof -
    have f: "field16 (a # b # d) 2 = field16 d 0" "field16 (a # b # d) 4 = field16 d 2" "field16 (a # b # d) 6 = field16 d 4"
      "skip_questions (a # b # d) n 12 = (case skip_questions d n 10 of Inl e \<Rightarrow> Inl e | Inr p \<Rightarrow> Inr (p + 2))" for n
      using field16_shift [of a b d 0, unfolded add_0] field16_shift [of a b d 2] field16_shift [of a b d 4]
        skip_questions_shift [of a b d n 10] by simp_all
    have "length (a # b # d) < 12 \<longleftrightarrow> length d < 10" by auto
    moreover have "bind_res (skip_questions (a # b # d) n 12) (answers (a # b # d) m) =
        bind_res (skip_questions d n 10) (answers d m)" for n m
      using skip_questions_total [of d n 10] by (auto simp: f(4) answers_shift simp del: add_2_eq_Suc')
    ultimately show ?thesis by (simp only: parse_response_def f(1-3))
  qed
  then show ?thesis by simp
qed

section \<open>The cache and failover\<close>

lemma first_answer_spec:
  "(\<And>ns. ask ns = Inr (ans ns)) \<Longrightarrow>
     first_answer ask nss = Inr (case filter (\<lambda>ips. ips \<noteq> []) (map ans nss) of [] \<Rightarrow> [] | ips # _ \<Rightarrow> ips)"
  by (induction nss) auto

lemma query_sync_spec:
  assumes "\<And>ns q resp. srv ns q = Some resp \<Longrightarrow> octets_ok resp"
  shows "\<exists>ans. \<forall>ns. query_sync srv query ns = Inr (ans ns)"
proof -
  have "\<exists>ips. query_sync srv query ns = Inr ips" for ns
    using assms [of ns query] parse_total_aux by (auto simp: query_sync_def split: option.splits)
  then show ?thesis by metis
qed

text \<open>
  A name that can be encoded is resolved to the answer of the first server that has one, or to nothing;
  the answer, an empty one included, is what every later call returns, without asking, until the 120
  seconds are over.
\<close>
theorem resolve_then_cached:
  assumes "\<And>ns q resp. srv ns q = Some resp \<Longrightarrow> octets_ok resp"
    and "build_edns_query tx_id domain qtype = Inr query" and "cached c now (cache_key domain qtype) = None"
  shows "\<exists>ips c'. resolve_name srv nss tx_id now c domain qtype = Inr (ips, c') \<and>
    (ips \<noteq> [] \<longrightarrow> (\<exists>ns\<in>set nss. query_sync srv query ns = Inr ips)) \<and>
    (ips = [] \<longrightarrow> (\<forall>ns\<in>set nss. query_sync srv query ns = Inr [])) \<and>
    (\<forall>srv' nss' tx' later. later < fadd now 120 \<longrightarrow>
       resolve_name srv' nss' tx' later c' domain qtype = Inr (ips, c'))"
proof -
  obtain ans where ans: "\<And>ns. query_sync srv query ns = Inr (ans ns)" using query_sync_spec [of srv query] assms(1) by blast
  define ips where "ips = (case filter (\<lambda>ips. ips \<noteq> []) (map ans nss) of [] \<Rightarrow> [] | ips # _ \<Rightarrow> ips)"
  let ?c' = "dict_set (cache_key domain qtype) (fadd now 120, ips) c"
  have "resolve_name srv nss tx_id now c domain qtype = Inr (ips, ?c')"
    using assms(2,3) first_answer_spec [of "query_sync srv query" ans nss, OF ans]
    by (simp add: resolve_name_def Let_def ips_def)
  moreover have "ips \<noteq> [] \<Longrightarrow> \<exists>ns\<in>set nss. query_sync srv query ns = Inr ips"
  proof -
    assume "ips \<noteq> []"
    then obtain rest where "filter (\<lambda>ips. ips \<noteq> []) (map ans nss) = ips # rest"
      by (cases "filter (\<lambda>ips. ips \<noteq> []) (map ans nss)") (auto simp: ips_def)
    then have "ips \<in> set (filter (\<lambda>ips. ips \<noteq> []) (map ans nss))" by (simp only: list.set_intros)
    then show ?thesis using ans by auto
  qed
  moreover have "ips = [] \<Longrightarrow> \<forall>ns\<in>set nss. query_sync srv query ns = Inr []"
  proof -
    assume "ips = []"
    then have "filter (\<lambda>ips. ips \<noteq> []) (map ans nss) = []"
      by (cases "filter (\<lambda>ips. ips \<noteq> []) (map ans nss)") (auto simp: ips_def filter_eq_Cons_iff)
    then show ?thesis using ans by (auto simp: filter_empty_conv)
  qed
  moreover have "\<forall>srv' nss' tx' later. later < fadd now 120 \<longrightarrow>
      resolve_name srv' nss' tx' later ?c' domain qtype = Inr (ips, ?c')"
    by (simp add: resolve_name_def cached_def Let_def)
  ultimately show ?thesis by blast
qed

definition silent_servers :: "string \<Rightarrow> octets \<Rightarrow> octets option" where
  "silent_servers ns q = None"

theorem resolve_then_cached_witness:
  "\<exists>c'. resolve_name silent_servers default_nameservers 7 0 [] ''a.com'' 1 = Inr ([], c') \<and>
     resolve_name (\<lambda>_ _. Some (dns_reply 7 [0] 1 [(10, 0, 0, 1)])) default_nameservers 8 119 c' ''a.com'' 1 = Inr ([], c')"
proof -
  obtain query where q: "build_edns_query 7 ''a.com'' 1 = Inr query"
  proof -
    have "encode_qname ''a.com'' = Inr [1, 97, 3, 99, 111, 109, 0]" by code_simp
    then show ?thesis using that by (simp add: build_edns_query_def pack16_def)
  qed
  let ?res = "\<lambda>srv nss tx now c. resolve_name srv nss tx now c ''a.com'' 1"
  have "\<exists>ips c'. ?res silent_servers default_nameservers 7 0 [] = Inr (ips, c') \<and>
    (ips \<noteq> [] \<longrightarrow> (\<exists>ns\<in>set default_nameservers. query_sync silent_servers query ns = Inr ips)) \<and>
    (ips = [] \<longrightarrow> (\<forall>ns\<in>set default_nameservers. query_sync silent_servers query ns = Inr [])) \<and>
    (\<forall>srv' nss' tx' later. later < fadd 0 120 \<longrightarrow> ?res srv' nss' tx' later c' = Inr (ips, c'))"
    by (rule resolve_then_cached [OF _ q]) (simp_all add: silent_servers_def cached_def)
  then obtain ips c' where r: "?res silent_servers default_nameservers 7 0 [] = Inr (ips, c')"
    "ips \<noteq> [] \<longrightarrow> (\<exists>ns\<in>set default_nameservers. query_sync silent_servers query ns = Inr ips)"
    "\<forall>srv' nss' tx' later. later < fadd 0 120 \<longrightarrow> ?res srv' nss' tx' later c' = Inr (ips, c')" by blast
  have "ips = []" using r(2) by (auto simp: query_sync_def silent_servers_def)
  moreover have "(119 :: float) < fadd 0 120" using fl_int [of 120] by (simp add: fadd_def)
  ultimately show ?thesis using r(1,3) by blast
qed

end
