(* ===== verification/Balancing.thy ===== *)
theory Balancing
  imports PyFloat PyVal "HOL-Library.Multiset"
begin

text \<open>
  \<open>engine/algorithms/balancing.py\<close> and the batching of \<open>engine/scanner.py\<close>: weighted jobs are
  distributed over workers by the greedy rule (longest first, on the least loaded worker) or by a pruned
  depth-first search. Weights and loads are doubles, so the search's undo step is a rounded subtraction.
\<close>

section \<open>The algorithms\<close>

record load_result =
  lr_buckets :: "nat list list"
  lr_makespan :: float

text \<open>\<open>min(range(n), key=loads.__getitem__)\<close>: the first of the least loaded.\<close>

fun argmin :: "float list \<Rightarrow> nat" where
  "argmin [] = 0"
| "argmin [x] = 0"
| "argmin (x # y # xs) = (let j = Suc (argmin (y # xs)) in if x \<le> (x # y # xs) ! j then 0 else j)"

definition greatest :: "float list \<Rightarrow> float" where
  "greatest xs = (if xs = [] then 0 else fold max (tl xs) (hd xs))"

definition place :: "nat list list \<times> float list \<Rightarrow> nat \<times> float \<Rightarrow> nat list list \<times> float list" where
  "place st job =
     (let i = argmin (snd st)
      in ((fst st)[i := (fst st) ! i @ [fst job]], (snd st)[i := fadd (snd st ! i) (snd job)]))"

definition heaviest_first :: "float list \<Rightarrow> (nat \<times> float) list" where
  "heaviest_first ws = sort_key (\<lambda>j. - snd j) (enumerate 0 ws)"

definition lpt :: "float list \<Rightarrow> nat \<Rightarrow> exc + load_result" where
  "lpt ws m =
     (if m = 0 \<and> ws \<noteq> [] then Inl (ValueError ''min() iterable argument is empty'')
      else case foldl place (replicate m [], replicate m 0) (heaviest_first ws) of (buckets, loads) \<Rightarrow>
        Inr \<lparr>lr_buckets = filter (\<lambda>b. b \<noteq> []) buckets, lr_makespan = greatest loads\<rparr>)"

text \<open>The best distribution so far and its makespan; none is \<open>float("inf")\<close>.\<close>

type_synonym best_known = "(nat list list \<times> float) option"

definition beats :: "float \<Rightarrow> best_known \<Rightarrow> bool" where
  "beats mk best \<longleftrightarrow> (case best of None \<Rightarrow> True | Some (_, b) \<Rightarrow> mk < b)"

text \<open>
  \<open>dfs\<close> over the jobs left and \<open>branch\<close> over the workers left for one job. The loads are returned,
  since undoing an addition in doubles need not restore them.
\<close>

function (sequential) dfs ::
    "float list \<Rightarrow> nat \<Rightarrow> float list \<Rightarrow> nat list list \<Rightarrow> best_known \<Rightarrow> exc + float list \<times> best_known"
  and branch ::
    "float \<Rightarrow> float list \<Rightarrow> nat list \<Rightarrow> float list \<Rightarrow> nat \<Rightarrow> float list \<Rightarrow> nat list list \<Rightarrow> best_known \<Rightarrow>
       exc + float list \<times> best_known"
where
  "dfs [] i loads buckets best =
     Inr (loads, if beats (greatest loads) best then Some (buckets, greatest loads) else best)"
| "dfs (x # xs) i loads buckets best =
     (if loads = [] then Inl (ValueError ''max() iterable argument is empty'')
      else if \<not> beats (greatest loads) best then Inr (loads, best)
      else branch x xs [0..<length loads] [] i loads buckets best)"
| "branch x xs [] seen i loads buckets best = Inr (loads, best)"
| "branch x xs (w # ws) seen i loads buckets best =
     (if loads ! w \<in> set seen then branch x xs ws seen i loads buckets best
      else bind_res (dfs xs (i + 1) (loads[w := fadd (loads ! w) x]) (buckets[w := buckets ! w @ [i]]) best)
        (\<lambda>(loads', best'). branch x xs ws (loads ! w # seen) i (loads'[w := fsub (loads' ! w) x]) buckets best'))"
  by pat_completeness auto
termination
  by (relation "inv_image (less_than <*lex*> less_than)
     (\<lambda>s. case s of Inl (xs, _) \<Rightarrow> (2 * length xs, 0) | Inr (x, xs, ws, _) \<Rightarrow> (2 * length xs + 1, length ws))") auto

definition brute :: "float list \<Rightarrow> nat \<Rightarrow> exc + load_result" where
  "brute ws m =
     bind_res (dfs ws 0 (replicate m 0) (replicate m []) None) (\<lambda>(loads, best).
       case best of None \<Rightarrow> lpt ws m | Some (buckets, mk) \<Rightarrow> Inr \<lparr>lr_buckets = buckets, lr_makespan = mk\<rparr>)"

section \<open>Distributions\<close>

text \<open>The sum of the weights of a bucket, in exact arithmetic, and what a distribution is.\<close>

definition bucket_load :: "float list \<Rightarrow> nat list \<Rightarrow> rat" where
  "bucket_load ws b = sum_list (map (\<lambda>j. ws ! j) b)"

definition distributes :: "nat \<Rightarrow> nat list list \<Rightarrow> bool" where
  "distributes n bs \<longleftrightarrow> mset (concat bs) = mset [0..<n]"

text \<open>Weights for which every sum is exact: whole numbers with a total of at most 2^53.\<close>

definition whole :: "float list \<Rightarrow> bool" where
  "whole ws \<longleftrightarrow> (\<exists>ks. ws = map of_nat ks \<and> sum_list ks \<le> 2 ^ 53)"

lemma argmin_spec: "xs \<noteq> [] \<Longrightarrow> argmin xs < length xs \<and> (\<forall>y\<in>set xs. xs ! argmin xs \<le> y)"
proof (induction xs rule: argmin.induct)
  case (3 x y xs)
  then show ?case by (auto simp: Let_def)
qed simp_all

lemma greatest_Max: "xs \<noteq> [] \<Longrightarrow> greatest xs = Max (set xs)"
  by (cases xs) (simp_all add: greatest_def Max.set_eq_fold del: list.set)

lemma mset_concat_snoc:
  "i < length bs \<Longrightarrow> mset (concat (bs[i := bs ! i @ [x]])) = add_mset x (mset (concat bs))"
proof (induction bs arbitrary: i)
  case (Cons b bs)
  then show ?case by (cases i) auto
qed simp

lemma mset_concat_nonempty: "mset (concat (filter (\<lambda>b. b \<noteq> []) bs)) = mset (concat bs)"
  by (induction bs) auto

lemma place_all:
  "length bs = m \<Longrightarrow> length ls = m \<Longrightarrow> 0 < m \<Longrightarrow> foldl place (bs, ls) jobs = (bs', ls') \<Longrightarrow>
     length bs' = m \<and> length ls' = m \<and> mset (concat bs') = mset (concat bs) + mset (map fst jobs)"
proof (induction jobs arbitrary: bs ls)
  case (Cons job jobs)
  let ?i = "argmin ls"
  have i: "?i < length bs" using argmin_spec [of ls] Cons.prems(1-3) by (cases ls) auto
  have step: "place (bs, ls) job = (bs[?i := bs ! ?i @ [fst job]], ls[?i := fadd (ls ! ?i) (snd job)])"
    by (simp add: place_def Let_def)
  have "foldl place (bs[?i := bs ! ?i @ [fst job]], ls[?i := fadd (ls ! ?i) (snd job)]) jobs = (bs', ls')"
    using Cons.prems(4) step by simp
  from Cons.IH [OF _ _ Cons.prems(3) this] show ?case
    using Cons.prems(1,2) mset_concat_snoc [OF i, of "fst job"] by simp
qed simp

lemma mset_heaviest: "mset (map fst (heaviest_first ws)) = mset [0..<length ws]"
proof -
  have "mset (map fst (heaviest_first ws)) = mset (map fst (enumerate 0 ws))"
    by (simp only: mset_map heaviest_first_def mset_sort)
  then show ?thesis by (simp add: enumerate_eq_zip)
qed

lemma lpt_gives:
  assumes "0 < m"
  shows "\<exists>r. lpt ws m = Inr r \<and> distributes (length ws) (lr_buckets r) \<and> length (lr_buckets r) \<le> m \<and>
    [] \<notin> set (lr_buckets r)"
proof -
  obtain bs ls where r: "foldl place (replicate m [], replicate m 0) (heaviest_first ws) = (bs, ls)" by fastforce
  from place_all [OF _ _ assms r] have b: "length bs = m" "mset (concat bs) = mset [0..<length ws]"
    using mset_heaviest [of ws] by simp_all
  show ?thesis
    using assms b length_filter_le [of "\<lambda>b. b \<noteq> []" bs]
    by (auto simp: lpt_def r distributes_def mset_concat_nonempty)
qed

text \<open>
  The greedy rule gives every job to exactly one worker, whatever the weights, and uses at most the
  workers there are.
\<close>
theorem lpt_distributes:
  assumes "0 < m"
  shows "\<exists>r. lpt ws m = Inr r \<and> distributes (length ws) (lr_buckets r) \<and> length (lr_buckets r) \<le> m \<and>
    [] \<notin> set (lr_buckets r)"
  by (rule lpt_gives [OF assms])

theorem lpt_distributes_witness:
  "\<exists>r. lpt [3, 1, 2] 2 = Inr r \<and> distributes 3 (lr_buckets r) \<and> length (lr_buckets r) \<le> 2 \<and> [] \<notin> set (lr_buckets r)"
  using lpt_distributes [of 2 "[3, 1, 2]"] by (simp add: numeral_3_eq_3)

section \<open>Exact sums\<close>

lemma fl_nat: "k \<le> 2 ^ 53 \<Longrightarrow> fl (of_nat k) = of_nat k"
  using fl_int [of "int k"] by (metis abs_of_nat of_int_of_nat_eq of_nat_le_iff of_nat_numeral of_nat_power)

lemma fadd_nat: "a + b \<le> 2 ^ 53 \<Longrightarrow> fadd (of_nat a) (of_nat b) = of_nat (a + b)"
  using fl_nat [of "a + b"] by (simp add: fadd_def)

lemma fsub_nat: "a + b \<le> 2 ^ 53 \<Longrightarrow> fsub (of_nat (a + b)) (of_nat b) = of_nat a"
  using fl_nat [of a] by (simp add: fsub_def)

section \<open>The optimal makespan\<close>

text \<open>The least makespan reachable from given loads, over all ways to place the jobs left.\<close>

fun opt :: "nat list \<Rightarrow> nat list \<Rightarrow> nat" where
  "opt [] L = Max (set L)"
| "opt (x # xs) L = Min ((\<lambda>w. opt xs (L[w := L ! w + x])) ` {..<length L})"

lemma Max_update: "w < length L \<Longrightarrow> Max (set L) \<le> Max (set (L[w := L ! w + (x::nat)]))"
proof -
  assume w: "w < length L"
  have "y \<le> Max (set (L[w := L ! w + x]))" if y: "y \<in> set L" for y
  proof -
    obtain v where v: "v < length L" "y = L ! v" using y by (auto simp: in_set_conv_nth)
    then have "L[w := L ! w + x] ! v \<in> set (L[w := L ! w + x])" by (intro nth_mem) simp
    moreover have "y \<le> L[w := L ! w + x] ! v" using v w by (cases "v = w") auto
    ultimately show ?thesis by (meson List.finite_set Max_ge order_trans)
  qed
  then show ?thesis using w by (cases L) auto
qed

lemma opt_attained: "L \<noteq> [] \<Longrightarrow> \<exists>w<length L. opt (x # xs) L = opt xs (L[w := L ! w + x])"
proof -
  assume "L \<noteq> []"
  then have "(\<lambda>w. opt xs (L[w := L ! w + x])) ` {..<length L} \<noteq> {}" by auto
  then have "opt (x # xs) L \<in> (\<lambda>w. opt xs (L[w := L ! w + x])) ` {..<length L}"
    unfolding opt.simps by (intro Min_in) simp_all
  then show ?thesis by auto
qed

lemma opt_ge: "L \<noteq> [] \<Longrightarrow> Max (set L) \<le> opt xs L"
proof (induction xs arbitrary: L)
  case (Cons x xs)
  obtain w where w: "w < length L" "opt (x # xs) L = opt xs (L[w := L ! w + x])"
    using opt_attained [OF Cons.prems] by blast
  then show ?case
    using Max_update [OF w(1), of x] Cons.IH [of "L[w := L ! w + x]"] Cons.prems
    by (metis list_update_nonempty order_trans)
qed simp

lemma opt_mset: "mset L = mset L' \<Longrightarrow> opt xs L = opt xs L'"
proof (induction xs arbitrary: L L')
  case Nil
  then show ?case by (metis opt.simps(1) set_mset_mset)
next
  case (Cons x xs)
  have sub: "(\<lambda>w. opt xs (A[w := A ! w + x])) ` {..<length A} \<subseteq> (\<lambda>w. opt xs (B[w := B ! w + x])) ` {..<length B}"
    if AB: "mset A = mset B" for A B
  proof
    fix y assume "y \<in> (\<lambda>w. opt xs (A[w := A ! w + x])) ` {..<length A}"
    then obtain w where w: "w < length A" "y = opt xs (A[w := A ! w + x])" by auto
    then have "A ! w \<in> set B" using AB by (metis mset_eq_setD nth_mem)
    then obtain v where v: "v < length B" "B ! v = A ! w" by (auto simp: in_set_conv_nth)
    have "mset (A[w := A ! w + x]) = mset (B[v := B ! v + x])"
      using w(1) v AB by (simp add: mset_update)
    then have "y = opt xs (B[v := B ! v + x])" using w(2) Cons.IH by blast
    then show "y \<in> (\<lambda>w. opt xs (B[w := B ! w + x])) ` {..<length B}" using v(1) by blast
  qed
  have "(\<lambda>w. opt xs (L[w := L ! w + x])) ` {..<length L} = (\<lambda>w. opt xs (L'[w := L' ! w + x])) ` {..<length L'}"
    using sub [OF Cons.prems] sub [OF Cons.prems [symmetric]] by blast
  then show ?case by simp
qed

section \<open>The search is exact on whole weights\<close>

definition at_most :: "best_known \<Rightarrow> nat \<Rightarrow> bool" where
  "at_most best v \<longleftrightarrow> \<not> beats (of_nat v) best"

lemma at_most_le: "at_most best v \<Longrightarrow> v \<le> v' \<Longrightarrow> at_most best v'"
  by (auto simp: at_most_def beats_def split: option.splits)

text \<open>A complete distribution of the jobs with its makespan, and a partial one.\<close>

definition complete_dist :: "float list \<Rightarrow> nat \<Rightarrow> nat list list \<Rightarrow> float \<Rightarrow> bool" where
  "complete_dist ws m bs mk \<longleftrightarrow>
     length bs = m \<and> distributes (length ws) bs \<and> mk = Max (bucket_load ws ` set bs)"

definition partial_dist :: "nat list \<Rightarrow> nat \<Rightarrow> nat list \<Rightarrow> nat list list \<Rightarrow> bool" where
  "partial_dist js i L bs \<longleftrightarrow>
     L \<noteq> [] \<and> length bs = length L \<and> mset (concat bs) = mset [0..<i] \<and> i \<le> length js \<and>
     map of_nat L = map (bucket_load (map of_nat js)) bs \<and> sum_list L + sum_list (drop i js) \<le> 2 ^ 53"

text \<open>What a part of the search may do to the best known distribution.\<close>

definition improved :: "float list \<Rightarrow> nat \<Rightarrow> best_known \<Rightarrow> best_known \<Rightarrow> bool" where
  "improved ws m best best' \<longleftrightarrow>
     best' = best \<or> (\<exists>b mk. best' = Some (b, mk) \<and> beats mk best \<and> complete_dist ws m b mk)"

lemma improved_at_most: "improved ws m best best' \<Longrightarrow> at_most best v \<Longrightarrow> at_most best' v"
  by (auto simp: improved_def at_most_def beats_def split: option.splits)

lemma beats_simps [simp]: "beats mk None" "beats mk (Some (b, v)) \<longleftrightarrow> mk < v"
  by (simp_all add: beats_def)

lemma beats_less: "beats v best \<Longrightarrow> mk < v \<Longrightarrow> beats mk best"
  by (auto simp: beats_def split: option.splits)

lemma improved_trans: "improved ws m a b \<Longrightarrow> improved ws m b c \<Longrightarrow> improved ws m a c"
  unfolding improved_def by (metis beats_less beats_simps(2))

lemma sum_list_place: "w < length L \<Longrightarrow> sum_list (L[w := L ! w + (x::nat)]) = sum_list L + x"
  by (induction L arbitrary: w) (auto split: nat.splits)

lemma partial_dist_step:
  assumes "partial_dist js i L bs" "i < length js" "w < length L"
  shows "partial_dist js (i + 1) (L[w := L ! w + js ! i]) (bs[w := bs ! w @ [i]])"
    "L ! w + js ! i \<le> 2 ^ 53"
proof -
  have d: "drop i js = js ! i # drop (i + 1) js" using assms(2) by (simp add: Cons_nth_drop_Suc)
  have eq: "map of_nat L = map (bucket_load (map of_nat js)) bs" and len: "length bs = length L"
    using assms(1) by (simp_all add: partial_dist_def)
  have "bucket_load (map of_nat js) (bs ! w) = of_nat (L ! w)"
    using arg_cong [OF eq, of "\<lambda>l. l ! w"] assms(3) len by simp
  then have "map (bucket_load (map of_nat js)) (bs[w := bs ! w @ [i]]) = map of_nat (L[w := L ! w + js ! i])"
    using assms(2) by (simp add: map_update bucket_load_def flip: eq)
  then show "partial_dist js (i + 1) (L[w := L ! w + js ! i]) (bs[w := bs ! w @ [i]])"
    using assms d mset_concat_snoc [of w bs i] sum_list_place [OF assms(3), of "js ! i"]
    by (auto simp: partial_dist_def)
  have "L ! w \<le> sum_list L" using assms(3) by (simp add: elem_le_sum_list)
  then show "L ! w + js ! i \<le> 2 ^ 53" using assms(1) d by (simp add: partial_dist_def)
qed

lemma partial_dist_leaf:
  assumes "partial_dist js (length js) L bs"
  shows "complete_dist (map of_nat js) (length L) bs (greatest (map of_nat L))" "greatest (map of_nat L) = of_nat (Max (set L))"
proof -
  have "L \<noteq> []" and eq: "map of_nat L = map (bucket_load (map of_nat js)) bs" using assms by (simp_all add: partial_dist_def)
  have "greatest (map of_nat L) = Max (set (map of_nat L))"
    by (rule greatest_Max) (simp add: \<open>L \<noteq> []\<close>)
  moreover have "set (map of_nat L) = bucket_load (map of_nat js) ` set bs" by (simp only: eq set_map)
  ultimately have "greatest (map of_nat L) = Max (bucket_load (map of_nat js) ` set bs)" by (simp only:)
  then show "complete_dist (map of_nat js) (length L) bs (greatest (map of_nat L))"
    using assms by (simp add: complete_dist_def partial_dist_def distributes_def)
  have "mono (of_nat :: nat \<Rightarrow> rat)" by (simp add: mono_def)
  then show "greatest (map of_nat L) = of_nat (Max (set L))"
    using \<open>L \<noteq> []\<close> by (simp add: greatest_Max mono_Max_commute)
qed

definition searched :: "nat list \<Rightarrow> nat \<Rightarrow> nat list \<Rightarrow> best_known \<Rightarrow> best_known \<Rightarrow> bool" where
  "searched js i L best best' \<longleftrightarrow>
     improved (map of_nat js) (length L) best best' \<and> at_most best' (opt (drop i js) L)"

lemma branch_searched:
  assumes IH: "\<And>L bs best. partial_dist js (i + 1) L bs \<Longrightarrow>
      \<exists>best'. dfs (map of_nat (drop (i + 1) js)) (i + 1) (map of_nat L) bs best = Inr (map of_nat L, best') \<and>
        searched js (i + 1) L best best'"
    and part: "partial_dist js i L bs" and i: "i < length js"
  shows "set ws \<subseteq> {..<length L} \<Longrightarrow>
    (\<And>v. v < length L \<Longrightarrow> of_nat (L ! v) \<in> set seen \<Longrightarrow> at_most best (opt (drop (i + 1) js) (L[v := L ! v + js ! i]))) \<Longrightarrow>
    \<exists>best'. branch (of_nat (js ! i)) (map of_nat (drop (i + 1) js)) ws seen i (map of_nat L) bs best = Inr (map of_nat L, best') \<and>
      improved (map of_nat js) (length L) best best' \<and>
      (\<forall>w\<in>set ws. at_most best' (opt (drop (i + 1) js) (L[w := L ! w + js ! i])))"
proof (induction ws arbitrary: seen best)
  case Nil
  then show ?case by (simp add: improved_def)
next
  case (Cons w ws)
  have w: "w < length L" and sub: "set ws \<subseteq> {..<length L}" using Cons.prems(1) by simp_all
  show ?case
  proof (cases "of_nat (L ! w) \<in> set seen")
    case True
    from Cons.IH [OF sub Cons.prems(2)] obtain best' where b:
      "branch (of_nat (js ! i)) (map of_nat (drop (i + 1) js)) ws seen i (map of_nat L) bs best = Inr (map of_nat L, best')"
      "improved (map of_nat js) (length L) best best'"
      "\<forall>w\<in>set ws. at_most best' (opt (drop (i + 1) js) (L[w := L ! w + js ! i]))" by blast
    have skip: "branch (of_nat (js ! i)) (map of_nat (drop (i + 1) js)) (w # ws) seen i (map of_nat L) bs best = Inr (map of_nat L, best')"
      using True by (simp only: branch.simps nth_map [OF w] if_True b(1))
    have "at_most best' (opt (drop (i + 1) js) (L[w := L ! w + js ! i]))"
      by (rule improved_at_most [OF b(2) Cons.prems(2) [OF w True]])
    then show ?thesis using skip b(2,3) by (intro exI [of _ best']) (simp only: list.set ball_simps simp_thms)
  next
    case False
    let ?L = "L[w := L ! w + js ! i]" and ?bs = "bs[w := bs ! w @ [i]]"
    note step = partial_dist_step [OF part i w]
    obtain b1 where b1: "dfs (map of_nat (drop (i + 1) js)) (i + 1) (map of_nat ?L) ?bs best = Inr (map of_nat ?L, b1)"
      "improved (map of_nat js) (length L) best b1" "at_most b1 (opt (drop (i + 1) js) ?L)"
      using IH [OF step(1), of best] by (auto simp: searched_def)
    have up: "(map of_nat L)[w := fadd (map of_nat L ! w) (of_nat (js ! i))] = map of_nat ?L"
      using w fadd_nat [OF step(2)] by (simp add: map_update)
    have down: "(map of_nat ?L)[w := fsub (map of_nat ?L ! w) (of_nat (js ! i))] = (map of_nat L :: float list)"
    proof -
      have "fsub (map of_nat ?L ! w) (of_nat (js ! i)) = of_nat (L ! w)" using w fsub_nat [OF step(2)] by simp
      then have "(map of_nat ?L)[w := fsub (map of_nat ?L ! w) (of_nat (js ! i))] = map of_nat (?L[w := L ! w])"
        by (simp only: map_update)
      then show ?thesis by simp
    qed
    have seen': "at_most b1 (opt (drop (i + 1) js) (L[v := L ! v + js ! i]))"
      if v: "v < length L" "of_nat (L ! v) \<in> set ((map of_nat L ! w) # seen)" for v
    proof (cases "L ! v = L ! w")
      case True
      then have "mset (L[v := L ! v + js ! i]) = mset ?L" using v(1) w by (simp add: mset_update)
      then show ?thesis using b1(3) opt_mset by metis
    next
      case False
      then have "of_nat (L ! v) \<in> set seen" using v w by simp
      then show ?thesis using Cons.prems(2) v(1) improved_at_most [OF b1(2)] by blast
    qed
    from Cons.IH [of "(map of_nat L ! w) # seen" b1, OF sub seen'] obtain b2 where b2:
      "branch (of_nat (js ! i)) (map of_nat (drop (i + 1) js)) ws ((map of_nat L ! w) # seen) i (map of_nat L) bs b1 = Inr (map of_nat L, b2)"
      "improved (map of_nat js) (length L) b1 b2"
      "\<forall>w\<in>set ws. at_most b2 (opt (drop (i + 1) js) (L[w := L ! w + js ! i]))" by blast
    have fresh: "map of_nat L ! w \<notin> set seen" using False w by simp
    have "branch (of_nat (js ! i)) (map of_nat (drop (i + 1) js)) (w # ws) seen i (map of_nat L) bs best = Inr (map of_nat L, b2)"
      using fresh by (simp only: branch.simps if_False up b1(1) bind_res_Inr prod.case down b2(1))
    then show ?thesis
      using b2(3) improved_trans [OF b1(2) b2(2)] improved_at_most [OF b2(2) b1(3)]
      by (intro exI [of _ b2]) (simp only: list.set ball_simps simp_thms)
  qed
qed

lemma dfs_searched:
  "partial_dist js i L bs \<Longrightarrow>
     \<exists>best'. dfs (map of_nat (drop i js)) i (map of_nat L) bs best = Inr (map of_nat L, best') \<and> searched js i L best best'"
proof (induction "length js - i" arbitrary: i L bs best)
  case 0
  then have i: "i = length js" by (simp add: partial_dist_def)
  note leaf = partial_dist_leaf [OF 0(2) [unfolded i]]
  show ?case
    using leaf by (auto simp: i searched_def improved_def at_most_def)
next
  case (Suc n)
  then have i: "i < length js" by simp
  have d: "drop i js = js ! i # drop (i + 1) js" using i by (simp add: Cons_nth_drop_Suc)
  have L: "L \<noteq> []" using Suc.prems by (simp add: partial_dist_def)
  have g: "greatest (map of_nat L) = of_nat (Max (set L))"
  proof -
    have "mono (of_nat :: nat \<Rightarrow> rat)" by (simp add: mono_def)
    then show ?thesis using L by (simp add: greatest_Max mono_Max_commute)
  qed
  show ?case
  proof (cases "beats (greatest (map of_nat L)) best")
    case False
    then have "at_most best (opt (drop i js) L)"
      using at_most_le [of best "Max (set L)"] opt_ge [OF L] by (simp add: at_most_def g)
    then show ?thesis using False L by (simp add: d searched_def improved_def)
  next
    case True
    have IH: "\<exists>best'. dfs (map of_nat (drop (i + 1) js)) (i + 1) (map of_nat L) bs best = Inr (map of_nat L, best') \<and>
        searched js (i + 1) L best best'" if "partial_dist js (i + 1) L bs" for L bs best
      using Suc.hyps(1) [OF _ that] Suc.hyps(2) by simp
    obtain best' where b: "branch (of_nat (js ! i)) (map of_nat (drop (i + 1) js)) [0..<length L] [] i (map of_nat L) bs best =
        Inr (map of_nat L, best')" "improved (map of_nat js) (length L) best best'"
      "\<forall>w<length L. at_most best' (opt (drop (i + 1) js) (L[w := L ! w + js ! i]))"
    proof -
      have "set [0..<length L] \<subseteq> {..<length L}" by (simp add: atLeast0LessThan)
      from branch_searched [OF IH Suc.prems i this, of "[]" best] show thesis
        using that by (auto simp: atLeast0LessThan)
    qed
    obtain w where "w < length L" "opt (drop i js) L = opt (drop (i + 1) js) (L[w := L ! w + js ! i])"
      using opt_attained [OF L, of "js ! i" "drop (i + 1) js"] by (auto simp: d)
    then have "at_most best' (opt (drop i js) L)" using b(3) by simp
    then show ?thesis using True L b(1,2) by (simp add: d searched_def)
  qed
qed

text \<open>The makespan of an assignment of every job to a worker.\<close>

definition assigned_load :: "float list \<Rightarrow> nat list \<Rightarrow> nat \<Rightarrow> rat" where
  "assigned_load ws as w = sum_list (map snd (filter (\<lambda>(a, _). a = w) (zip as ws)))"

definition assignment_makespan :: "float list \<Rightarrow> nat \<Rightarrow> nat list \<Rightarrow> rat" where
  "assignment_makespan ws m as = Max (assigned_load ws as ` {..<m})"

lemma opt_le_assignment:
  "L \<noteq> [] \<Longrightarrow> length as = length xs \<Longrightarrow> set as \<subseteq> {..<length L} \<Longrightarrow>
     of_nat (opt xs L) \<le> Max ((\<lambda>w. of_nat (L ! w) + assigned_load (map of_nat xs) as w) ` {..<length L})"
proof (induction xs arbitrary: L as)
  case Nil
  have "mono (of_nat :: nat \<Rightarrow> rat)" by (simp add: mono_def)
  then have "of_nat (Max (set L)) = (Max (of_nat ` set L) :: rat)" using Nil.prems by (simp add: mono_Max_commute)
  also have "(of_nat ` set L :: rat set) = (\<lambda>w. of_nat (L ! w)) ` {..<length L}"
    by (auto simp: in_set_conv_nth image_iff)
  finally show ?case using Nil.prems by (simp add: assigned_load_def)
next
  case (Cons x xs)
  then obtain a as' where as: "as = a # as'" "a < length L" "length as' = length xs" "set as' \<subseteq> {..<length L}"
    by (cases as) auto
  let ?L = "L[a := L ! a + x]"
  have "opt (x # xs) L \<le> opt xs ?L" using as(2) by simp
  then have "of_nat (opt (x # xs) L) \<le> (of_nat (opt xs ?L) :: rat)" by simp
  also have "\<dots> \<le> Max ((\<lambda>w. of_nat (?L ! w) + assigned_load (map of_nat xs) as' w) ` {..<length L})"
    using Cons.IH [of ?L as'] as Cons.prems(1) by simp
  also have "(\<lambda>w. of_nat (?L ! w) + assigned_load (map of_nat xs) as' w) ` {..<length L} =
      (\<lambda>w. of_nat (L ! w) + assigned_load (map of_nat (x # xs)) as w) ` {..<length L}"
    using as(2) by (intro image_cong) (auto simp: assigned_load_def as(1) nth_list_update)
  finally show ?case .
qed

text \<open>
  C27: On whole weights the depth-first search is optimal: it distributes every job exactly once, its makespan
  is the largest bucket load, and no assignment of the jobs to the workers has a smaller one; pruning,
  the skipping of equally loaded workers and the rounded undo step lose nothing.
\<close>
theorem brute_optimal:
  assumes "whole ws" "0 < m"
  shows "\<exists>r. brute ws m = Inr r \<and> length (lr_buckets r) = m \<and> distributes (length ws) (lr_buckets r) \<and>
    lr_makespan r = Max (bucket_load ws ` set (lr_buckets r)) \<and>
    (\<forall>as. length as = length ws \<longrightarrow> set as \<subseteq> {..<m} \<longrightarrow> lr_makespan r \<le> assignment_makespan ws m as)"
proof -
  obtain js where js: "ws = map of_nat js" "sum_list js \<le> 2 ^ 53" using assms(1) by (auto simp: whole_def)
  let ?L = "replicate m (0 :: nat)" and ?bs = "replicate m []"
  have "partial_dist js 0 ?L ?bs"
    using assms(2) js(2) by (simp add: partial_dist_def bucket_load_def sum_list_replicate)
  from dfs_searched [OF this, of None] obtain best where b: "dfs ws 0 (replicate m 0) ?bs None = Inr (replicate m 0, best)"
    "searched js 0 ?L None best" by (auto simp: js(1))
  then obtain bs mk where best: "best = Some (bs, mk)" "complete_dist ws m bs mk" "mk \<le> of_nat (opt js ?L)"
    by (auto simp: searched_def improved_def at_most_def js(1) split: option.splits)
  have "mk \<le> assignment_makespan ws m as" if "length as = length ws" "set as \<subseteq> {..<m}" for as
  proof -
    have "of_nat (opt js ?L) \<le> Max ((\<lambda>w. of_nat (?L ! w) + assigned_load ws as w) ` {..<m})"
      using opt_le_assignment [of ?L as js] that assms(2) by (simp add: js(1))
    also have "(\<lambda>w. of_nat (?L ! w) + assigned_load ws as w) ` {..<m} = assigned_load ws as ` {..<m}"
      by (intro image_cong) simp_all
    finally show ?thesis using best(3) by (simp add: assignment_makespan_def)
  qed
  then show ?thesis using b(1) best(1,2) by (simp add: brute_def complete_dist_def)
qed

theorem brute_optimal_witness:
  "\<exists>r. brute [3, 3, 2, 2, 2] 2 = Inr r \<and> distributes 5 (lr_buckets r) \<and>
     lr_makespan r \<le> assignment_makespan [3, 3, 2, 2, 2] 2 [0, 0, 1, 1, 1]"
proof -
  have "whole [3, 3, 2, 2, 2]" unfolding whole_def by (rule exI [of _ "[3, 3, 2, 2, 2]"]) simp
  from brute_optimal [OF this, of 2, OF pos2] obtain r where r: "brute [3, 3, 2, 2, 2] 2 = Inr r"
    "distributes (length [3, 3, 2, 2, 2 :: float]) (lr_buckets r)"
    "\<forall>as. length as = length [3, 3, 2, 2, 2 :: float] \<longrightarrow> set as \<subseteq> {..<2} \<longrightarrow>
      lr_makespan r \<le> assignment_makespan [3, 3, 2, 2, 2] 2 as"
    by blast
  have "length [3, 3, 2, 2, 2 :: float] = 5" by simp
  moreover have "set [0, 0, 1, 1, 1] \<subseteq> {..<2 :: nat}" "length [0, 0, 1, 1, 1 :: nat] = length [3, 3, 2, 2, 2 :: float]" by simp_all
  ultimately show ?thesis using r(1,2) r(3) [rule_format, of "[0, 0, 1, 1, 1]"] by metis
qed

end
