(* ===== verification/Scanner.thy ===== *)
theory Scanner
  imports Balancing Pathfinder
begin

text \<open>
  \<open>engine/algorithms/__init__.py\<close>, the gateway of \<open>engine/algorithms/balancing.py\<close> and
  \<open>engine/scanner.py\<close>: algorithms are found by name with a fallback to the default of their kind; the
  scanner distributes its tasks with the algorithm it is configured for, runs them in a pool and reports
  one row per task. What a task does and the order in which tasks complete are arguments.
\<close>

section \<open>The registry of algorithms\<close>

datatype algo_error = AlgorithmError string

type_synonym 'f algo_registry = "(string, (string, 'f) dict) dict"

definition DEFAULT_FALLBACK :: string where
  "DEFAULT_FALLBACK = ''__default__''"

definition register_algo :: "string \<Rightarrow> string \<Rightarrow> 'f \<Rightarrow> bool \<Rightarrow> 'f algo_registry \<Rightarrow> 'f algo_registry" where
  "register_algo kind name factory as_default reg =
     (let bucket = (case dict_get reg kind of None \<Rightarrow> [] | Some b \<Rightarrow> b);
          named = dict_set name factory bucket
      in dict_set kind (if as_default then dict_set DEFAULT_FALLBACK factory named else named) reg)"

definition get_algo :: "'f algo_registry \<Rightarrow> string \<Rightarrow> string option \<Rightarrow> algo_error + 'f" where
  "get_algo reg kind name =
     (let bucket = (case dict_get reg kind of None \<Rightarrow> [] | Some b \<Rightarrow> b)
      in if bucket = [] then Inl (AlgorithmError (''no algorithm class '' @ repr_str kind))
         else case (case name of None \<Rightarrow> None | Some n \<Rightarrow> if n = [] then None else dict_get bucket n) of
             Some f \<Rightarrow> Inr f
           | None \<Rightarrow> (case dict_get bucket DEFAULT_FALLBACK of
               Some f \<Rightarrow> Inr f
             | None \<Rightarrow> Inr (snd (hd bucket))))"

definition list_algos :: "'f algo_registry \<Rightarrow> string option \<Rightarrow> (string, string list) dict" where
  "list_algos reg kind =
     (case kind of
        Some k \<Rightarrow> [(k, sort (dict_keys (case dict_get reg k of None \<Rightarrow> [] | Some b \<Rightarrow> b)))]
      | None \<Rightarrow> map (\<lambda>(k, b). (k, sort (dict_keys b))) reg)"

type_synonym balancer = "float list \<Rightarrow> nat \<Rightarrow> exc + load_result"

definition balancers :: "balancer algo_registry" where
  "balancers = register_algo ''balancing'' ''brute'' brute False (register_algo ''balancing'' ''lpt'' lpt True [])"

definition solve :: "balancer algo_registry \<Rightarrow> string \<Rightarrow> float list \<Rightarrow> nat \<Rightarrow> exc + load_result" where
  "solve reg kind weights workers =
     (if weights = [] then Inr \<lparr>lr_buckets = replicate workers [], lr_makespan = 0\<rparr>
      else case get_algo reg ''balancing'' (Some kind) of
          Inl _ \<Rightarrow> lpt weights workers
        | Inr algo \<Rightarrow> algo weights workers)"

section \<open>The scanner\<close>

text \<open>
  What one task does when it runs: when it starts, and either the text of its exception, or when it
  finishes and its result.
\<close>

record task_run =
  tr_started :: float
  tr_outcome :: "string + float \<times> pydict"

record scan_task =
  st_name :: string
  st_weight :: float
  st_run :: task_run

record task_row =
  row_name :: string
  row_weight :: float
  row_ok :: bool
  row_duration :: float
  row_error :: "string option"
  row_result :: "pydict option"
  row_started :: float
  row_finished :: "float option"

text \<open>\<open>(self.finished or time.time()) - (self.started or time.time())\<close>: zero counts as unset.\<close>

definition or_now :: "float \<Rightarrow> float option \<Rightarrow> float" where
  "or_now now t = (case t of None \<Rightarrow> now | Some x \<Rightarrow> if x = 0 then now else x)"

definition row_of :: "float \<Rightarrow> scan_task \<Rightarrow> task_row" where
  "row_of now t =
     (let started = tr_started (st_run t);
          finished = (case tr_outcome (st_run t) of Inl _ \<Rightarrow> None | Inr (f, _) \<Rightarrow> Some f)
      in \<lparr>row_name = st_name t, row_weight = st_weight t,
          row_ok = (case tr_outcome (st_run t) of Inl _ \<Rightarrow> False | Inr _ \<Rightarrow> True),
          row_duration = round_digits 4 (fsub (or_now now finished) (or_now now (Some started))),
          row_error = (case tr_outcome (st_run t) of Inl e \<Rightarrow> Some e | Inr _ \<Rightarrow> None),
          row_result = (case tr_outcome (st_run t) of Inl _ \<Rightarrow> None | Inr (_, r) \<Rightarrow> Some r),
          row_started = started, row_finished = finished\<rparr>)"

definition lpt_idx :: "float list \<Rightarrow> nat \<Rightarrow> exc + nat list list" where
  "lpt_idx weights workers =
     (if workers = 0 \<and> weights \<noteq> [] then Inl (ValueError ''min() iterable argument is empty'')
      else let jobs = map (\<lambda>i. (i, weights ! i)) (sort_key (\<lambda>k. - weights ! k) [0..<length weights])
           in Inr (filter (\<lambda>b. b \<noteq> []) (fst (foldl place (replicate workers [], replicate workers 0) jobs))))"

definition balanced_batches ::
  "balancer algo_registry \<Rightarrow> string option \<Rightarrow> scan_task list \<Rightarrow> nat \<Rightarrow> exc + nat list list" where
  "balanced_batches reg balancing_algo tasks max_workers =
     bind_res
       (case solve reg (case balancing_algo of None \<Rightarrow> ''lpt'' | Some k \<Rightarrow> if k = [] then ''lpt'' else k)
               (map st_weight tasks) max_workers of
          Inl _ \<Rightarrow> lpt_idx (map st_weight tasks) max_workers
        | Inr r \<Rightarrow> Inr (lr_buckets r))
       (\<lambda>idx_buckets.
          if \<forall>b\<in>set idx_buckets. \<forall>i\<in>set b. i < length tasks
          then Inr (filter (\<lambda>g. g \<noteq> []) idx_buckets) else Inl IndexError)"

text \<open>\<open>completes\<close> is the order in which the pool finishes what was submitted, \<open>clock\<close> the time of each row.\<close>

definition scan ::
  "balancer algo_registry \<Rightarrow> string option \<Rightarrow> nat \<Rightarrow> (nat list \<Rightarrow> nat list) \<Rightarrow> (nat \<Rightarrow> float) \<Rightarrow>
     scan_task list \<Rightarrow> exc + task_row list" where
  "scan reg balancing_algo max_workers completes clock tasks =
     (if tasks = [] then Inr []
      else bind_res (balanced_batches reg balancing_algo tasks max_workers) (\<lambda>batches.
        if max_workers = 0 then Inl (ValueError ''max_workers must be greater than 0'')
        else Inr (sort_key row_started (map (\<lambda>i. row_of (clock i) (tasks ! i)) (completes (concat batches))))))"

section \<open>Every balancer distributes\<close>

definition dist_or_none :: "nat \<Rightarrow> best_known \<Rightarrow> bool" where
  "dist_or_none n best \<longleftrightarrow> (case best of None \<Rightarrow> True | Some (b, _) \<Rightarrow> distributes n b)"

lemma dfs_shape:
  "loads \<noteq> [] \<Longrightarrow> length bs = length loads \<Longrightarrow> mset (concat bs) = mset [0..<i] \<Longrightarrow> dist_or_none (i + length xs) best \<Longrightarrow>
     \<exists>l b. dfs xs i loads bs best = Inr (l, b) \<and> length l = length loads \<and> dist_or_none (i + length xs) b"
  "loads \<noteq> [] \<Longrightarrow> length bs = length loads \<Longrightarrow> mset (concat bs) = mset [0..<i] \<Longrightarrow> dist_or_none (i + Suc (length xs)) best \<Longrightarrow>
     set ws \<subseteq> {..<length loads} \<Longrightarrow>
     \<exists>l b. branch x xs ws seen i loads bs best = Inr (l, b) \<and> length l = length loads \<and> dist_or_none (i + Suc (length xs)) b"
proof (induction xs i loads bs best and x xs ws seen i loads bs best rule: dfs_branch.induct)
  case (1 i loads buckets best)
  then show ?case by (simp add: dist_or_none_def distributes_def)
next
  case (2 x xs i loads buckets best)
  have "set [0..<length loads] \<subseteq> {..<length loads}" by (simp add: atLeast0LessThan)
  with 2 show ?case by (cases "beats (greatest loads) best") simp_all
next
  case (3 x xs seen i loads buckets best)
  then show ?case by simp
next
  case (4 x xs w ws seen i loads buckets best)
  show ?case
  proof (cases "loads ! w \<in> set seen")
    case True
    with 4 show ?thesis by simp
  next
    case False
    have w: "w < length loads" using "4.prems"(5) by simp
    have "mset (concat (buckets[w := buckets ! w @ [i]])) = mset [0..<i + 1]"
      using mset_concat_snoc [of w buckets i] w "4.prems"(2,3) by simp
    from "4.IH"(2) [OF False _ _ this] "4.prems" obtain l b where
      lb: "dfs xs (i + 1) (loads[w := fadd (loads ! w) x]) (buckets[w := buckets ! w @ [i]]) best = Inr (l, b)"
        "length l = length loads" "dist_or_none (i + Suc (length xs)) b" by auto
    have l: "l[w := fsub (l ! w) x] \<noteq> []" using lb(2) w by (metis length_0_conv length_list_update not_less_zero)
    from "4.IH"(3) [OF False, where ?xa = l and ?xb = b] lb l "4.prems" obtain l' b' where
      "branch x xs ws (loads ! w # seen) i (l[w := fsub (l ! w) x]) buckets b = Inr (l', b')"
      "length l' = length loads" "dist_or_none (i + Suc (length xs)) b'" by auto
    then show ?thesis using False lb(1) by simp
  qed
qed

lemma brute_distributes:
  assumes "0 < m"
  shows "\<exists>r. brute ws m = Inr r \<and> distributes (length ws) (lr_buckets r)"
proof -
  have "dist_or_none (0 + length ws) None" by (simp add: dist_or_none_def)
  from dfs_shape(1) [OF _ _ _ this, of "replicate m 0" "replicate m []"] assms obtain l b where
    "dfs ws 0 (replicate m 0) (replicate m []) None = Inr (l, b)" "dist_or_none (length ws) b" by auto
  then show ?thesis using lpt_gives [of m ws] assms
    by (auto simp: brute_def dist_or_none_def split: option.splits)
qed


lemma balancers_eq: "balancers = [(''balancing'', [(''lpt'', lpt), (''__default__'', lpt), (''brute'', brute)])]"
  by (simp add: balancers_def register_algo_def DEFAULT_FALLBACK_def)

lemma get_balancer: "get_algo balancers ''balancing'' (Some kind) \<in> {Inr lpt, Inr brute}"
  by (simp add: get_algo_def balancers_eq DEFAULT_FALLBACK_def Let_def)

lemma mset_concat_in_range: "mset (concat bs) = mset [0..<n] \<Longrightarrow> \<forall>b\<in>set bs. \<forall>i\<in>set b. i < n"
proof -
  assume "mset (concat bs) = mset [0..<n]"
  then have "set (concat bs) = {0..<n}" by (metis mset_eq_setD set_upt)
  then show ?thesis by auto
qed

text \<open>
  What the scanner relies on: every name gives an algorithm of the registry, and each of them gives every job
  to exactly one worker.
\<close>

locale balancer_gateway =
  fixes reg :: "balancer algo_registry"
  assumes gives: "\<exists>a. get_algo reg ''balancing'' (Some kind) = Inr a \<and>
    (\<forall>ws m. 0 < m \<longrightarrow> (\<exists>r. a ws m = Inr r \<and> distributes (length ws) (lr_buckets r)))"
begin

lemma solve_distributes:
  "0 < m \<Longrightarrow> \<exists>r. solve reg kind ws m = Inr r \<and> distributes (length ws) (lr_buckets r)"
  using gives [of kind] by (cases "ws = []") (auto simp: solve_def distributes_def concat_replicate_trivial)

lemma batches_partition:
  assumes "0 < m"
  shows "\<exists>bs. balanced_batches reg algo tasks m = Inr bs \<and> mset (concat bs) = mset [0..<length tasks] \<and> [] \<notin> set bs"
proof -
  obtain kind where kind: "kind = (case algo of None \<Rightarrow> ''lpt'' | Some k \<Rightarrow> if k = [] then ''lpt'' else k)" by blast
  obtain r where r: "solve reg kind (map st_weight tasks) m = Inr r"
    "mset (concat (lr_buckets r)) = mset [0..<length tasks]"
    using solve_distributes [OF assms, of kind "map st_weight tasks"] by (auto simp: distributes_def)
  show ?thesis
    using mset_concat_in_range [OF r(2)] r(2)
    by (simp add: balanced_batches_def r(1) flip: kind) (simp add: mset_concat_nonempty)
qed

lemma scan_rows:
  assumes "0 < m" and "\<And>l. mset (completes l) = mset l"
  shows "\<exists>rows. scan reg algo m completes clock tasks = Inr rows \<and> sorted (map row_started rows) \<and>
    mset rows = mset (map (\<lambda>i. row_of (clock i) (tasks ! i)) [0..<length tasks])"
proof (cases "tasks = []")
  case False
  obtain bs where bs: "balanced_batches reg algo tasks m = Inr bs" "mset (concat bs) = mset [0..<length tasks]"
    using batches_partition [OF assms(1)] by blast
  have "mset (map (\<lambda>i. row_of (clock i) (tasks ! i)) (completes (concat bs))) =
      mset (map (\<lambda>i. row_of (clock i) (tasks ! i)) [0..<length tasks])"
    by (simp only: mset_map assms(2) bs(2))
  then show ?thesis using False assms(1) bs(1) by (simp add: scan_def)
qed (simp add: scan_def)

end

interpretation shipped: balancer_gateway balancers
proof
  show "\<exists>a. get_algo balancers ''balancing'' (Some kind) = Inr a \<and>
    (\<forall>ws m. 0 < m \<longrightarrow> (\<exists>r. a ws m = Inr r \<and> distributes (length ws) (lr_buckets r)))" for kind
  proof -
    have "0 < m \<Longrightarrow> \<exists>r. lpt ws m = Inr r \<and> distributes (length ws) (lr_buckets r)" for ws m
      using lpt_gives by blast
    then show ?thesis using get_balancer [of kind] brute_distributes by auto
  qed
qed

text \<open>
  C33: A scan gives exactly one row for each of its tasks, in the order they started, whichever balancing
  algorithm is configured by name, in whatever order the pool completes them and whichever of them fail:
  a failure is the content of the task's own row and of no other.
\<close>
theorem scan_complete:
  assumes "0 < m" and "\<And>l. mset (completes l) = mset l"
  shows "\<exists>rows. scan balancers algo m completes clock tasks = Inr rows \<and> sorted (map row_started rows) \<and>
    mset rows = mset (map (\<lambda>i. row_of (clock i) (tasks ! i)) [0..<length tasks])"
  using assms by (rule shipped.scan_rows)

definition two_tasks :: "scan_task list" where
  "two_tasks = [\<lparr>st_name = ''a'', st_weight = 1, st_run = \<lparr>tr_started = 5, tr_outcome = Inl ''OSError: refused''\<rparr>\<rparr>,
     \<lparr>st_name = ''b'', st_weight = 2, st_run = \<lparr>tr_started = 4, tr_outcome = Inr (6, [])\<rparr>\<rparr>]"

theorem scan_complete_witness:
  "\<exists>rows. scan balancers (Some ''brute'') 2 rev (\<lambda>i. 7) two_tasks = Inr rows \<and> sorted (map row_started rows) \<and>
    mset rows = mset (map (\<lambda>i. row_of 7 (two_tasks ! i)) [0, 1])"
proof -
  have "[0..<length two_tasks] = [0, 1]" by (simp add: two_tasks_def upt_rec)
  then show ?thesis using scan_complete [of 2 rev "Some ''brute''" "\<lambda>i. 7" two_tasks] by simp
qed

section \<open>The scanner's own fallback\<close>

lemma insort_key_map: "insort_key f (g x) (map g xs) = map g (insort_key (\<lambda>y. f (g y)) x xs)"
  by (induction xs) simp_all

lemma sort_key_map: "sort_key f (map g xs) = map g (sort_key (\<lambda>y. f (g y)) xs)"
proof (induction xs)
  case (Cons x xs)
  then show ?case using insort_key_map [of f g x "sort_key (\<lambda>y. f (g y)) xs"] by (simp add: sort_key_def)
qed simp

lemma heaviest_first_eq: "heaviest_first ws = map (\<lambda>i. (i, ws ! i)) (sort_key (\<lambda>k. - ws ! k) [0..<length ws])"
proof -
  have "enumerate 0 ws = map (\<lambda>i. (i, ws ! i)) [0..<length ws]"
    by (rule nth_equalityI) (simp_all add: nth_enumerate_eq)
  then show ?thesis by (simp add: heaviest_first_def sort_key_map)
qed

text \<open>The scanner's private copy of the greedy rule computes the buckets of the registered one.\<close>
theorem fallback_is_lpt:
  "lpt_idx ws m = (case lpt ws m of Inl e \<Rightarrow> Inl e | Inr r \<Rightarrow> Inr (lr_buckets r))"
  by (simp add: lpt_idx_def lpt_def Let_def heaviest_first_eq split: prod.splits)

text \<open>
  The listing of a kind includes the internal name of the default algorithm, which stands for no
  algorithm of its own.
\<close>
theorem listing_shows_default: "list_algos balancers None = [(''balancing'', [''__default__'', ''brute'', ''lpt''])]"
  by code_simp

end
