(* ===== verification/OsGuess.thy ===== *)
theory OsGuess
  imports Scanner
begin

text \<open>
  \<open>engine/algorithms/fingerprint.py\<close> and the operating-system guess of
  \<open>modules/recon/fingerprint.py\<close>: two models over the observed TTL, window and option length, chosen by
  name from the registry, and the sheet built from the multi-signal one, with a TTL heuristic when a
  signal is malformed.
\<close>

section \<open>Signals\<close>

text \<open>
  A signal is an integer or a double. Values beyond 2^500, which need arithmetic on infinities, are not
  represented; neither is a window that is not an integer.
\<close>

definition type_name :: "pyval \<Rightarrow> string" where
  "type_name v =
     (case v of PNone \<Rightarrow> ''NoneType'' | PBool _ \<Rightarrow> ''bool'' | PInt _ \<Rightarrow> ''int'' | PFloat _ _ \<Rightarrow> ''float''
      | PStr _ \<Rightarrow> ''str'' | PList _ \<Rightarrow> ''list'' | PDict _ \<Rightarrow> ''dict'')"

definition no_operand :: "string \<Rightarrow> pyval \<Rightarrow> exc" where
  "no_operand opname v =
     TypeError (''unsupported operand type(s) for '' @ opname @ '': '' @ [sq_char] @ type_name v @ [sq_char] @
       '' and '' @ [sq_char] @ ''int'' @ [sq_char])"

datatype signal = SInt int | SFlt float

definition signal_of :: "pyval \<Rightarrow> exc + signal" where
  "signal_of v =
     (case v of
        PBool b \<Rightarrow> Inr (SInt (if b then 1 else 0))
      | PInt i \<Rightarrow> if \<bar>i\<bar> \<le> 2 ^ 500 then Inr (SInt i) else Inl OutOfModel
      | PFloat m k \<Rightarrow> if \<bar>m\<bar> \<le> 2 ^ 500 then Inr (SFlt (fl (of_int m / 10 ^ k))) else Inl OutOfModel
      | _ \<Rightarrow> Inl (no_operand ''-'' v))"

text \<open>\<open>abs(v - mean) / divisor\<close>: exact on integers until the division.\<close>

definition deviation :: "signal \<Rightarrow> int \<Rightarrow> int \<Rightarrow> float" where
  "deviation s mean divisor =
     (case s of SInt i \<Rightarrow> fl (of_int \<bar>i - mean\<bar> / of_int divisor)
      | SFlt x \<Rightarrow> fdiv \<bar>fsub x (of_int mean)\<bar> (of_int divisor))"

section \<open>The models\<close>

record profile =
  ttl_mean :: int
  ttl_spread :: int
  pr_window :: int
  pr_options :: int

definition PROFILES :: "(string, profile) dict" where
  "PROFILES =
     [(''linux'', \<lparr>ttl_mean = 64, ttl_spread = 6, pr_window = 64240, pr_options = 20\<rparr>),
      (''windows'', \<lparr>ttl_mean = 128, ttl_spread = 8, pr_window = 65535, pr_options = 40\<rparr>),
      (''router'', \<lparr>ttl_mean = 255, ttl_spread = 4, pr_window = 16384, pr_options = 12\<rparr>)]"

text \<open>A guess with its confidence in thousandths.\<close>

record guess =
  gu_family :: string
  gu_confidence :: nat
  gu_method :: string

definition no_order :: "pyval \<Rightarrow> exc" where
  "no_order v = TypeError ([sq_char] @ ''<='' @ [sq_char] @ '' not supported between instances of '' @
     [sq_char] @ type_name v @ [sq_char] @ '' and '' @ [sq_char] @ ''int'' @ [sq_char])"

definition ttl_flat :: "pydict \<Rightarrow> exc + guess" where
  "ttl_flat sig =
     (let ttl = dget_or sig ''ttl'' (PInt 64)
      in case num_of ttl of
          None \<Rightarrow> Inl (no_order ttl)
        | Some q \<Rightarrow> Inr \<lparr>gu_family = (if q \<le> 64 then ''linux'' else if q \<le> 128 then ''windows'' else ''router''),
            gu_confidence = 1000, gu_method = ''ttl_flat''\<rparr>)"

definition window_dev :: "pyval \<Rightarrow> int \<Rightarrow> exc + float" where
  "window_dev v mean =
     (if eq_int v 0 then Inr 0
      else bind_res (signal_of v) (\<lambda>s. case s of
          SInt i \<Rightarrow> Inr (fdiv (fl (of_int ((i - mean) ^ 2))) 1000000)
        | SFlt _ \<Rightarrow> Inl OutOfModel))"

definition option_dev :: "pyval \<Rightarrow> int \<Rightarrow> exc + float" where
  "option_dev v mean =
     (if eq_int v 0 then Inr 0
      else bind_res (signal_of v) (\<lambda>s. case s of
          SInt i \<Rightarrow> Inr (fdiv (fl (of_int \<bar>i - mean\<bar>)) 10)
        | SFlt x \<Rightarrow> Inr (fdiv \<bar>fsub x (of_int mean)\<bar> 10)))"

definition score :: "pydict \<Rightarrow> profile \<Rightarrow> exc + float" where
  "score sig p =
     bind_res (signal_of (dget_or sig ''ttl'' (PInt 64))) (\<lambda>ttl.
     bind_res (window_dev (dget_or sig ''window'' (PInt 0)) (pr_window p)) (\<lambda>win.
     bind_res (option_dev (dget_or sig ''tcp_options_len'' (PInt 0)) (pr_options p)) (\<lambda>options.
       Inr (- fadd (fadd (deviation ttl (ttl_mean p) (max 1 (ttl_spread p))) win) options))))"

text \<open>The first profile with the greatest score; \<open>None\<close> is the initial \<open>float("-inf")\<close>.\<close>

fun best_profile :: "pydict \<Rightarrow> (string \<times> float) option \<Rightarrow> (string, profile) dict \<Rightarrow> exc + (string \<times> float) option" where
  "best_profile sig best [] = Inr best"
| "best_profile sig best ((fam, p) # ps) =
     bind_res (score sig p) (\<lambda>s.
       best_profile sig (if (case best of None \<Rightarrow> True | Some (_, b) \<Rightarrow> b < s) then Some (fam, s) else best) ps)"

definition confidence :: "float \<Rightarrow> nat" where
  "confidence s = (if - 1 \<le> s then 1000 else min (nat (round_even (1000 * fdiv 1 (fsub 1 s)))) 1000)"

definition bayes :: "pydict \<Rightarrow> exc + guess" where
  "bayes sig =
     bind_res (best_profile sig None PROFILES) (\<lambda>best. case best of
       None \<Rightarrow> Inl OutOfModel
     | Some (fam, s) \<Rightarrow> Inr \<lparr>gu_family = fam, gu_confidence = confidence s, gu_method = ''bayes''\<rparr>)"

type_synonym estimator = "pydict \<Rightarrow> exc + guess"

definition estimators :: "estimator algo_registry" where
  "estimators = register_algo ''fingerprint'' ''bayes'' bayes False (register_algo ''fingerprint'' ''ttl_flat'' ttl_flat True [])"

definition fingerprint_sig :: "estimator algo_registry \<Rightarrow> pydict \<Rightarrow> string \<Rightarrow> exc + guess" where
  "fingerprint_sig reg sig kind =
     (case get_algo reg ''fingerprint'' (Some kind) of Inl _ \<Rightarrow> ttl_flat sig | Inr algo \<Rightarrow> algo sig)"

section \<open>The sheet\<close>

text \<open>
  \<open>int\<close> of a value. On text: white space around, one sign, digits grouped by single underscores; text with
  other characters of white space or beyond ASCII is not represented.
\<close>

definition is_ascii_space :: "char \<Rightarrow> bool" where
  "is_ascii_space c \<longleftrightarrow> ord_of c = 32 \<or> 9 \<le> ord_of c \<and> ord_of c \<le> 13"

definition int_of_text :: "string \<Rightarrow> exc + int" where
  "int_of_text s =
     (if list_ex (\<lambda>c. 127 < ord_of c \<or> 28 \<le> ord_of c \<and> ord_of c \<le> 31) s then Inl OutOfModel
      else let t = strip_by is_ascii_space s;
               body = (case t of [] \<Rightarrow> [] | c # u \<Rightarrow> if c = CHR ''-'' \<or> c = CHR ''+'' then u else t)
           in if [] \<in> set (split_char (CHR ''_'') body) then Inl (ValueError ''invalid literal for int()'')
              else bind_res (unsigned_int (filter (\<lambda>c. c \<noteq> CHR ''_'') body)) (\<lambda>n.
                Inr (if t \<noteq> [] \<and> hd t = CHR ''-'' then - int n else int n)))"

definition int_of_value :: "pyval \<Rightarrow> exc + int" where
  "int_of_value v =
     (case v of
        PInt i \<Rightarrow> Inr i
      | PBool b \<Rightarrow> Inr (if b then 1 else 0)
      | PFloat m k \<Rightarrow> (let x = fl (of_int m / 10 ^ k) in Inr (if 0 \<le> x then \<lfloor>x\<rfloor> else \<lceil>x\<rceil>))
      | PStr s \<Rightarrow> int_of_text s
      | _ \<Rightarrow> Inl (TypeError ''int() argument''))"

definition unusable_int :: "exc \<Rightarrow> bool" where
  "unusable_int e \<longleftrightarrow> is_value_error e \<or> (\<exists>m. e = TypeError m)"

definition ttl_family :: "pyval \<Rightarrow> exc + string" where
  "ttl_family ttl =
     (if ttl = PNone then Inr ''Unknown (no TTL observed)''
      else case int_of_value ttl of
          Inl e \<Rightarrow> if unusable_int e then Inr ''Unknown (TTL unusable)'' else Inl e
        | Inr n \<Rightarrow> Inr (if 128 < n then ''Windows-like (TTL>128)''
                        else if 64 < n then ''Linux/Unix-like (TTL 65-128)'' else ''Linux/Unix-like (TTL<=64)''))"

definition thousandths :: "nat \<Rightarrow> pyval" where
  "thousandths t =
     (if t mod 100 = 0 then PFloat (int (t div 100)) 1
      else if t mod 10 = 0 then PFloat (int (t div 10)) 2 else PFloat (int t) 3)"

text \<open>\<open>str.capitalize\<close> on the lower-case names of the profiles.\<close>

definition ascii_upper :: "char \<Rightarrow> char" where
  "ascii_upper c = (if 97 \<le> ord_of c \<and> ord_of c \<le> 122 then char_of (ord_of c - 32) else c)"

definition capitalize :: "string \<Rightarrow> string" where
  "capitalize s = (case s of [] \<Rightarrow> [] | c # t \<Rightarrow> ascii_upper c # lower t)"

definition malformed_signal :: "exc \<Rightarrow> string option" where
  "malformed_signal e =
     (case e of KeyError m \<Rightarrow> Some m | TypeError m \<Rightarrow> Some m | ValueError m \<Rightarrow> Some m
      | IndexError \<Rightarrow> Some ''list index out of range'' | _ \<Rightarrow> None)"

definition fingerprint_host :: "estimator algo_registry \<Rightarrow> string \<Rightarrow> pydict option \<Rightarrow> exc + pydict" where
  "fingerprint_host reg host observed_sig =
     (let sig = (case observed_sig of None \<Rightarrow> [] | Some s \<Rightarrow> s)
      in if sig = []
         then Inr [(''module'', PStr ''recon''), (''host'', PStr host),
                   (''os_guess'', PStr ''Unknown (no observed signals)''), (''confidence'', PFloat 0 1),
                   (''method'', PStr ''no-observed-signals''), (''source'', PStr ''none'')]
         else case fingerprint_sig reg sig ''bayes'' of
             Inl e \<Rightarrow> (case malformed_signal e of
                 None \<Rightarrow> Inl e
               | Some msg \<Rightarrow> bind_res (ttl_family (dget sig ''ttl'')) (\<lambda>fam.
                   Inr [(''module'', PStr ''recon''), (''host'', PStr host), (''os_guess'', PStr fam),
                        (''confidence'', PStr ''low''), (''method'', PStr ''ttl-heuristic''),
                        (''source'', PStr ''local-model''),
                        (''note'', PStr (''bayesian model rejected the signal: '' @ msg))]))
           | Inr g \<Rightarrow>
               Inr [(''module'', PStr ''recon''), (''host'', PStr host),
                    (''os_guess'', PStr (capitalize (gu_family g) @ '' (Confidence: '' @
                       py_format (thousandths (gu_confidence g)) @ '')'')),
                    (''confidence'', thousandths (gu_confidence g)), (''method'', PStr (gu_method g)),
                    (''source'', PStr ''bayes-multi-signal'')])"

section \<open>What the guess means\<close>

lemma get_estimator [simp]: "get_algo estimators ''fingerprint'' (Some ''bayes'') = Inr bayes"
  by (simp add: get_algo_def estimators_def register_algo_def DEFAULT_FALLBACK_def)

lemma best_profile_max:
  "best_profile sig best ps = Inr (Some (fam, s)) \<Longrightarrow>
     ((\<exists>p. (fam, p) \<in> set ps \<and> score sig p = Inr s) \<or> best = Some (fam, s)) \<and>
     (\<forall>b. best = Some b \<longrightarrow> snd b \<le> s) \<and>
     (\<forall>(f, p)\<in>set ps. \<exists>t. score sig p = Inr t \<and> t \<le> s)"
proof (induction ps arbitrary: best)
  case (Cons q ps)
  obtain f p where q: "q = (f, p)" by (cases q) auto
  from Cons.prems obtain t where t: "score sig p = Inr t"
    and rest: "best_profile sig (if (case best of None \<Rightarrow> True | Some (_, b) \<Rightarrow> b < t) then Some (f, t) else best) ps = Inr (Some (fam, s))"
    by (auto simp: q bind_res_eq_Inr)
  from Cons.IH [OF rest] show ?case
    using t by (auto simp: q split: option.splits if_splits prod.splits)
qed simp

text \<open>
  The multi-signal model names a family of the profiles, one whose score no other profile exceeds, with a
  confidence of at most one, and of exactly one when the observation is within the tolerance.
\<close>
theorem bayes_best_match:
  assumes "bayes sig = Inr g"
  shows "\<exists>p s. (gu_family g, p) \<in> set PROFILES \<and> score sig p = Inr s \<and>
    list_all (\<lambda>(f, q). \<exists>t. score sig q = Inr t \<and> t \<le> s) PROFILES \<and>
    gu_confidence g \<le> 1000 \<and> (- 1 \<le> s \<longrightarrow> gu_confidence g = 1000)"
proof -
  obtain fam s where b: "best_profile sig None PROFILES = Inr (Some (fam, s))"
    and g: "g = \<lparr>gu_family = fam, gu_confidence = confidence s, gu_method = ''bayes''\<rparr>"
    using assms by (auto simp: bayes_def bind_res_eq_Inr split: option.splits)
  show ?thesis
    using best_profile_max [OF b] by (auto simp: g confidence_def list_all_iff)
qed

lemma fl_ge_int: "\<bar>n\<bar> \<le> 2 ^ 53 \<Longrightarrow> of_int n \<le> q \<Longrightarrow> of_int n \<le> fl q"
  using fl_mono [of "of_int n" q] fl_int [of n] by simp

lemma default_scores:
  assumes "dict_get sig ''ttl'' = None" "dict_get sig ''window'' = None" "dict_get sig ''tcp_options_len'' = None"
  shows "best_profile sig None PROFILES = Inr (Some (''linux'', 0))"
proof -
  have z: "fl 0 = 0" using fl_int [of 0] by simp
  have e: "fl 8 = 8" using fl_int [of 8] by simp
  have r: "0 < fl (191 / 4)" using fl_ge_int [of 1 "191 / 4"] by simp
  then have r': "0 < fl (fl (191 / 4))" using fl_ge_int [of 47 "191 / 4"] fl_ge_int [of 47 "fl (191 / 4)"] by simp
  have r'': "0 < fl (fl (fl (191 / 4)))"
    using fl_ge_int [of 47 "191 / 4"] fl_ge_int [of 47 "fl (191 / 4)"] fl_ge_int [of 47 "fl (fl (191 / 4))"] by simp
  show ?thesis
    using z e r'' assms
    by (simp add: PROFILES_def score_def dget_or_def signal_of_def window_dev_def option_dev_def eq_int_def deviation_def fadd_def)
qed

text \<open>
  A signal dictionary that holds none of the three signals the model reads is reported as Linux with
  full confidence: the missing TTL is read as a measured one of 64.
\<close>
theorem unrelated_signal_is_linux:
  assumes "sig \<noteq> []" "dict_get sig ''ttl'' = None" "dict_get sig ''window'' = None" "dict_get sig ''tcp_options_len'' = None"
  shows "fingerprint_host estimators host (Some sig) =
    Inr [(''module'', PStr ''recon''), (''host'', PStr host), (''os_guess'', PStr ''Linux (Confidence: 1.0)''),
         (''confidence'', PFloat 10 1), (''method'', PStr ''bayes''), (''source'', PStr ''bayes-multi-signal'')]"
proof -
  have "bayes sig = Inr \<lparr>gu_family = ''linux'', gu_confidence = 1000, gu_method = ''bayes''\<rparr>"
    using default_scores [OF assms(2-4)] by (simp add: bayes_def confidence_def)
  moreover have "capitalize ''linux'' @ '' (Confidence: '' @ py_format (thousandths 1000) @ '')'' = ''Linux (Confidence: 1.0)''"
    "thousandths 1000 = PFloat 10 1"
    by code_simp+
  ultimately show ?thesis using assms(1) by (simp add: fingerprint_host_def fingerprint_sig_def)
qed

theorem unrelated_signal_is_linux_witness:
  "fingerprint_host estimators ''h'' (Some [(''note'', PStr ''x'')]) =
    Inr [(''module'', PStr ''recon''), (''host'', PStr ''h''), (''os_guess'', PStr ''Linux (Confidence: 1.0)''),
         (''confidence'', PFloat 10 1), (''method'', PStr ''bayes''), (''source'', PStr ''bayes-multi-signal'')]"
  by (rule unrelated_signal_is_linux) simp_all

text \<open>
  The two TTL rules of the code contradict each other: for every TTL from 65 to 128 the registered flat model
  says Windows and the fallback heuristic says Linux.
\<close>
theorem ttl_rules_disagree:
  assumes "64 < n" "n \<le> 128"
  shows "ttl_flat [(''ttl'', PInt n)] = Inr \<lparr>gu_family = ''windows'', gu_confidence = 1000, gu_method = ''ttl_flat''\<rparr> \<and>
    ttl_family (PInt n) = Inr ''Linux/Unix-like (TTL 65-128)''"
  using assms by (simp add: ttl_flat_def dget_or_def ttl_family_def int_of_value_def)

theorem ttl_rules_disagree_witness:
  "ttl_flat [(''ttl'', PInt 128)] = Inr \<lparr>gu_family = ''windows'', gu_confidence = 1000, gu_method = ''ttl_flat''\<rparr> \<and>
    ttl_family (PInt 128) = Inr ''Linux/Unix-like (TTL 65-128)''"
  by (rule ttl_rules_disagree) simp_all

lemma signal_errors: "signal_of v = Inl e \<Longrightarrow> e = OutOfModel \<or> (\<exists>m. e = TypeError m)"
  by (auto simp: signal_of_def no_operand_def split: pyval.splits if_splits)

lemma dev_errors:
  "window_dev v mean = Inl e \<Longrightarrow> e = OutOfModel \<or> (\<exists>m. e = TypeError m)"
  "option_dev v mean = Inl e \<Longrightarrow> e = OutOfModel \<or> (\<exists>m. e = TypeError m)"
proof -
  have sig: "(\<exists>s. signal_of v = Inr s) \<or> (\<exists>x. signal_of v = Inl x \<and> (x = OutOfModel \<or> (\<exists>m. x = TypeError m)))"
    using signal_errors by (cases "signal_of v") auto
  show "window_dev v mean = Inl e \<Longrightarrow> e = OutOfModel \<or> (\<exists>m. e = TypeError m)"
    using sig by (auto simp: window_dev_def split: if_splits signal.split_asm)
  show "option_dev v mean = Inl e \<Longrightarrow> e = OutOfModel \<or> (\<exists>m. e = TypeError m)"
    using sig by (auto simp: option_dev_def split: if_splits signal.split_asm)
qed

lemma score_errors: "score sig p = Inl e \<Longrightarrow> e = OutOfModel \<or> (\<exists>m. e = TypeError m)"
  unfolding score_def by (auto simp: bind_res_eq_Inl dest!: signal_errors dev_errors)

lemma best_profile_errors: "best_profile sig best ps = Inl e \<Longrightarrow> e = OutOfModel \<or> (\<exists>m. e = TypeError m)"
  by (induction ps arbitrary: best) (auto simp: bind_res_eq_Inl dest!: score_errors)

lemma int_of_value_errors: "int_of_value v = Inl e \<Longrightarrow> e = OutOfModel \<or> unusable_int e"
  by (auto simp: int_of_value_def int_of_text_def unsigned_int_def unusable_int_def Let_def bind_res_eq_Inl
      split: pyval.splits if_splits)

text \<open>Fingerprinting a host never raises, whatever the observed signals hold.\<close>
theorem fingerprint_total:
  "case fingerprint_host estimators host observed of Inl e \<Rightarrow> e = OutOfModel | Inr _ \<Rightarrow> True"
proof (cases "fingerprint_host estimators host observed")
  case (Inl e)
  have "e = OutOfModel"
  proof (rule ccontr)
    assume ne: "e \<noteq> OutOfModel"
    obtain sig where sig: "observed = Some sig" "sig \<noteq> []"
      using Inl by (cases observed) (auto simp: fingerprint_host_def split: if_splits)
    then obtain e1 where b: "bayes sig = Inl e1"
      using Inl by (auto simp: fingerprint_host_def fingerprint_sig_def split: sum.splits)
    then have e1: "e1 = OutOfModel \<or> (\<exists>m. e1 = TypeError m)"
      by (auto simp: bayes_def bind_res_eq_Inl dest!: best_profile_errors split: option.splits)
    with b Inl sig ne obtain m where "e1 = TypeError m"
      by (auto simp: fingerprint_host_def fingerprint_sig_def malformed_signal_def)
    with b Inl sig have "ttl_family (dget sig ''ttl'') = Inl e"
      by (auto simp: fingerprint_host_def fingerprint_sig_def malformed_signal_def bind_res_eq_Inl)
    then show False using ne int_of_value_errors by (auto simp: ttl_family_def split: sum.splits if_splits)
  qed
  then show ?thesis using Inl by simp
qed simp

end
