(* ===== verification/Reports.thy ===== *)
theory Reports
  imports State OsGuess
begin

text \<open>
  The two report generators: \<open>core/reporter_html.py\<close>, whose page is built from a fixed template and
  escaped data, and \<open>core/reporter.py\<close>, the Markdown briefing. Writing the page is one call that puts the
  computed text into the named file. Calling a method that a value lacks is an \<open>AttributeError\<close>, written as a
  \<open>TypeError\<close>.
\<close>

section \<open>Values in a report\<close>

definition html_escape_char :: "char \<Rightarrow> string" where
  "html_escape_char c =
     (if c = CHR ''&'' then ''&amp;'' else if c = CHR ''<'' then ''&lt;'' else if c = CHR ''>'' then ''&gt;''
      else if c = dq_char then ''&quot;'' else if c = sq_char then ''&#x27;'' else [c])"

definition html_escape :: "string \<Rightarrow> string" where
  "html_escape s = concat (map html_escape_char s)"

definition escaped :: "pyval \<Rightarrow> string" where
  "escaped v = html_escape (py_format v)"

text \<open>\<open>round(v, 2)\<close> as an f-string prints it, for numbers whose hundredths are exact in a double.\<close>

definition show_hundredths :: "pyval \<Rightarrow> exc + string" where
  "show_hundredths v =
     (case v of
        PInt i \<Rightarrow> Inr (show_int i)
      | PBool b \<Rightarrow> Inr (if b then ''1'' else ''0'')
      | PFloat m k \<Rightarrow>
          (let x = fl (of_int m / 10 ^ k); n = round_even (x * 100)
           in if 10 ^ 15 < \<bar>n\<bar> then Inl OutOfModel
              else Inr ((if n = 0 \<and> x < 0 then ''-'' else []) @
                        (if n mod 10 = 0 then show_float (n div 10) 1 else show_float n 2)))
      | _ \<Rightarrow> Inl (TypeError ''type does not define __round__ method''))"

definition iterate :: "pyval \<Rightarrow> exc + pyval list" where
  "iterate v =
     (case v of PList vs \<Rightarrow> Inr vs | PStr s \<Rightarrow> Inr (map (\<lambda>c. PStr [c]) s)
      | PDict d \<Rightarrow> Inr (map PStr (dict_keys d)) | _ \<Rightarrow> Inl (TypeError ''object is not iterable''))"

definition as_dict :: "pyval \<Rightarrow> exc + pydict" where
  "as_dict v = (case v of PDict d \<Rightarrow> Inr d | _ \<Rightarrow> Inl (TypeError ''object has no attribute get''))"

section \<open>The page\<close>

definition event_item :: "pyval \<Rightarrow> exc + string" where
  "event_item e =
     bind_res (as_dict e) (\<lambda>d.
     bind_res (show_hundredths (dget_or d ''ts'' (PInt 0))) (\<lambda>ts.
       Inr (''<li><code>['' @ ts @ '']</code> <strong>'' @ escaped (dget_or d ''event'' (PStr ''EVENT'')) @
            ''</strong>: <code>'' @ escaped (dget_or d ''module'' (PStr ''core'')) @ ''</code></li>'')))"

definition events_html :: "pyval \<Rightarrow> exc + string" where
  "events_html v = bind_res (iterate v) (\<lambda>es. bind_res (map_res event_item es) (\<lambda>ls. Inr (concat ls)))"

definition target_item :: "pyval \<Rightarrow> string" where
  "target_item t = ''<li><code>'' @ escaped t @ ''</code></li>''"

definition targets_html :: "pyval \<Rightarrow> exc + string" where
  "targets_html v =
     (if truthy v then bind_res (iterate v) (\<lambda>ts. Inr (concat (map target_item ts)))
      else Inr ''<li>(No high-centrality assets isolated)</li>'')"

definition count_of :: "pyval \<Rightarrow> exc + int" where
  "count_of v =
     (case int_of_value v of Inl e \<Rightarrow> if unusable_int e then Inr 0 else Inl e | Inr n \<Rightarrow> Inr n)"

definition page_head :: string where
  \<open>page_head = join_str [lf_char]
     [''<!DOCTYPE html>'',
      ''<html lang="en">'',
      ''<head>'',
      ''    <meta charset="UTF-8">'',
      ''    <title>HELIOS-NET :: Executive Briefing Report</title>'',
      ''    <style>'',
      ''        body { background-color: #0d1117; color: #c9d1d9; font-family: -apple-system, BlinkMacSystemFont, "Segoe UI", Roboto, sans-serif; margin: 0; padding: 40px; }'',
      ''        .container { max-width: 900px; margin: auto; background: #161b22; border: 1px solid #30363d; border-radius: 8px; padding: 30px; box-shadow: 0 4px 20px rgba(0,0,0,0.5); }'',
      ''        h1 { color: #58a6ff; border-bottom: 1px solid #30363d; padding-bottom: 10px; font-size: 24px; }'',
      ''        h2 { color: #8abeb7; font-size: 18px; margin-top: 25px; border-bottom: 1px solid #21262d; padding-bottom: 5px; }'',
      ''        .meta { display: grid; grid-template-columns: repeat(2, 1fr); gap: 15px; background: #21262d; padding: 15px; border-radius: 6px; margin: 20px 0; }'',
      ''        .meta div { font-size: 14px; }'',
      ''        .meta strong { color: #f0f6fc; }'',
      ''        ul { padding-left: 20px; }'',
      ''        li { margin-bottom: 8px; font-size: 14px; }'',
      ''        code { background: #21262d; padding: 2px 6px; border-radius: 4px; color: #79c0ff; font-family: monospace; }'',
      ''        .footer { margin-top: 30px; text-align: center; font-size: 12px; color: #8b949e; border-top: 1px solid #30363d; padding-top: 15px; }'',
      ''    </style>'',
      ''</head>'',
      ''<body>'',
      ''    <div class="container">'',
      ''        <h1>HELIOS-NET :: EXECUTIVE BRIEFING REPORT</h1>'',
      ''        <div class="meta">'',
      ''            <div><strong>Campaign ID:</strong> <code>'']\<close>

definition after_id :: string where
  \<open>after_id = join_str [lf_char]
     [''</code></div>'',
      ''            <div><strong>Target:</strong> <code>'']\<close>

definition after_target :: string where
  \<open>after_target = join_str [lf_char]
     [''</code></div>'',
      ''            <div><strong>Status:</strong> <span style="color: #3fb950;">'']\<close>

definition after_status :: string where
  \<open>after_status = join_str [lf_char]
     [''</span></div>'',
      ''            <div><strong>Findings Count:</strong> '']\<close>

definition after_count :: string where
  \<open>after_count = join_str [lf_char]
     [''</div>'',
      ''        </div>'',
      '''',
      ''        <h2>Priority Assets (Centrality Ranked)</h2>'',
      ''        <ul>'',
      ''            '']\<close>

definition after_targets :: string where
  \<open>after_targets = join_str [lf_char]
     ['''',
      ''        </ul>'',
      '''',
      ''        <h2>Campaign Timeline &amp; Events</h2>'',
      ''        <ul>'',
      ''            '']\<close>

definition page_foot :: string where
  \<open>page_foot = join_str [lf_char]
     ['''',
      ''        </ul>'',
      '''',
      ''        <div class="footer">'',
      ''            Generated autonomously by HELIOS-NET :: Red Teaming & Attack Surface Management Orchestrator'',
      ''        </div>'',
      ''    </div>'',
      ''</body>'',
      ''</html>'',
      '''']\<close>

definition html_page :: "string \<Rightarrow> string \<Rightarrow> string \<Rightarrow> int \<Rightarrow> string \<Rightarrow> string \<Rightarrow> string" where
  "html_page cid tgt st n targets events =
     page_head @ cid @ after_id @ tgt @ after_target @ st @ after_status @ show_int n @ after_count @ targets @
     after_targets @ (if events \<noteq> [] then events else ''<li>No timeline events recorded.</li>'') @ page_foot"

definition generate_html_report :: "pydict \<Rightarrow> exc + string" where
  "generate_html_report b =
     bind_res (count_of (dget_or b ''findings_count'' (PInt 0))) (\<lambda>n.
     bind_res (events_html (dget_or b ''events'' (PList []))) (\<lambda>events.
     bind_res (targets_html (dget_or b ''top_targets'' (PList []))) (\<lambda>targets.
       Inr (html_page (escaped (dget_or b ''campaign_id'' (PStr ''N/A''))) (escaped (dget_or b ''target'' (PStr ''N/A'')))
              (escaped (dget_or b ''status'' (PStr ''N/A''))) n targets events))))"

section \<open>The briefing\<close>

definition upper_char :: "char \<Rightarrow> exc + string" where
  "upper_char c =
     (let n = ord_of c
      in if 97 \<le> n \<and> n \<le> 122 \<or> 224 \<le> n \<and> n \<le> 254 \<and> n \<noteq> 247 then Inr [char_of (n - 32)]
         else if n = 223 then Inr ''SS'' else if n = 255 \<or> n = 181 then Inl OutOfModel else Inr [c])"

definition upper_text :: "pyval \<Rightarrow> exc + string" where
  "upper_text v =
     (case v of PStr s \<Rightarrow> bind_res (map_res upper_char s) (\<lambda>us. Inr (concat us))
      | _ \<Rightarrow> Inl (TypeError ''object has no attribute upper''))"

text \<open>\<open>timeline[-10:]\<close>.\<close>

definition last_ten :: "pyval \<Rightarrow> exc + pyval list" where
  "last_ten v =
     (case v of PList vs \<Rightarrow> Inr (drop (length vs - 10) vs)
      | PStr s \<Rightarrow> Inr (map (\<lambda>c. PStr [c]) (drop (length s - 10) s))
      | _ \<Rightarrow> Inl (TypeError ''object is not subscriptable''))"

definition briefing_event :: "pyval \<Rightarrow> exc + string" where
  "briefing_event e =
     bind_res (as_dict e) (\<lambda>d.
     bind_res (show_hundredths (dget_or d ''ts'' (PInt 0))) (\<lambda>ts.
       Inr (''- `['' @ ts @ '']` **'' @ py_format (dget d ''event'') @ ''**: `'' @
            py_format (dget_or d ''module'' (PStr ''core'')) @ ''`'')))"

definition briefing_lines :: "campaign \<Rightarrow> pydict \<Rightarrow> exc + string list" where
  "briefing_lines st report =
     bind_res (upper_text (status st)) (\<lambda>status_text.
     bind_res (as_dict (meta st)) (\<lambda>m.
     bind_res (if truthy (dget_or m ''top_targets'' (PList [])) then iterate (dget_or m ''top_targets'' (PList [])) else Inr [])
       (\<lambda>top.
     bind_res (last_ten (dget_or report ''timeline'' (PList []))) (\<lambda>timeline.
     bind_res (map_res briefing_event timeline) (\<lambda>events.
       Inr ([''# HELIOS-NET :: BRIEFING REPORT'', ''**Campaign ID:** `'' @ campaign_id st @ ''`'',
             ''**Target:** `'' @ target st @ ''`'', ''**Status:** `'' @ status_text @ ''`'',
             ''**Findings Count:** '' @ py_format (dget_or m ''findings_count'' (PInt 0)),
             ''**Graph Nodes / Edges:** '' @ py_format (dget_or m ''graph_nodes'' (PInt 0)) @ '' / '' @
               py_format (dget_or m ''graph_edges'' (PInt 0)),
             [], ''## Top Priority Targets (Centrality Ranked)''] @
            (if truthy (dget_or m ''top_targets'' (PList []))
             then map (\<lambda>(i, t). show_nat i @ ''. `'' @ py_format t @ ''`'') (enumerate 1 top)
             else [''- (No high-centrality assets isolated)'']) @
            [[], ''## Campaign Timeline / Events''] @ events))))))"

definition generate_executive_briefing :: "campaign \<Rightarrow> pydict \<Rightarrow> exc + string" where
  "generate_executive_briefing st report =
     bind_res (briefing_lines st report) (\<lambda>ls. Inr (join_str [lf_char] ls))"

section \<open>The tags of a page\<close>

text \<open>What stands between angle brackets, in order; an unclosed tag runs to the end.\<close>

fun tags :: "string option \<Rightarrow> string \<Rightarrow> string list" where
  "tags None [] = []"
| "tags None (c # s) = (if c = CHR ''<'' then tags (Some []) s else tags None s)"
| "tags (Some t) [] = [t]"
| "tags (Some t) (c # s) = (if c = CHR ''>'' then t # tags None s else tags (Some (t @ [c])) s)"

text \<open>Text after which no tag is open.\<close>

fun outside :: "bool \<Rightarrow> string \<Rightarrow> bool" where
  "outside b [] = b"
| "outside True (c # s) = (if c = CHR ''<'' then outside False s else outside True s)"
| "outside False (c # s) = (if c = CHR ''>'' then outside True s else outside False s)"

lemma tags_append:
  "outside True s \<Longrightarrow> tags None (s @ r) = tags None s @ tags None r"
  "outside False s \<Longrightarrow> tags (Some t) (s @ r) = tags (Some t) s @ tags None r"
  by (induction s arbitrary: t) auto

lemma outside_append:
  "outside True s \<Longrightarrow> outside True (s @ r) = outside True r"
  "outside False s \<Longrightarrow> outside False (s @ r) = outside True r"
  by (induction s) auto

definition tagless :: "string \<Rightarrow> bool" where
  "tagless s \<longleftrightarrow> CHR ''<'' \<notin> set s \<and> CHR ''>'' \<notin> set s"

lemma tagless_outside [simp]: "tagless s \<Longrightarrow> outside True s"
  by (induction s) (auto simp: tagless_def)

lemma tagless_tags [simp]: "tagless s \<Longrightarrow> tags None s = []"
  by (induction s) (auto simp: tagless_def)

lemma tagless_append [simp]: "tagless (s @ r) \<longleftrightarrow> tagless s \<and> tagless r"
  by (auto simp: tagless_def)

lemma tagless_escape [simp]: "tagless (html_escape s)"
  by (auto simp: tagless_def html_escape_def html_escape_char_def dq_char_def sq_char_def split: if_splits)

lemma tagless_escaped [simp]: "tagless (escaped v)"
  by (simp add: escaped_def)

lemma tagless_dec: "list_all is_dec s \<Longrightarrow> tagless s"
  by (auto simp: tagless_def list_all_iff is_dec_def ord_of_def)

lemma tagless_show_nat [simp]: "tagless (show_nat n)"
  by (simp add: tagless_dec)

lemma tagless_show_int [simp]: "tagless (show_int i)"
  using tagless_show_nat by (auto simp: show_int_def tagless_def)

lemma tagless_show_float [simp]: "tagless (show_float m k)"
  using tagless_show_nat by (auto simp: show_float_def show_frac_def tagless_def Let_def)

lemma tagless_show_hundredths: "show_hundredths v = Inr ts \<Longrightarrow> tagless ts"
  using tagless_show_int tagless_show_float
  by (auto simp: show_hundredths_def Let_def tagless_def split: pyval.splits if_splits)

text \<open>Every line of the template closes the tags it opens.\<close>

lemma outside_join: "list_all (outside True) ls \<Longrightarrow> outside True (join_str [lf_char] ls)"
  by (induction "[lf_char]" ls rule: join_str.induct) (auto simp: outside_append lf_char_def)

lemma static_outside [simp]:
  "outside True page_head" "outside True after_id" "outside True after_target" "outside True after_status"
  "outside True after_count" "outside True after_targets"
  unfolding page_head_def after_id_def after_target_def after_status_def after_count_def after_targets_def
  by (rule outside_join, code_simp)+

text \<open>The tags of one event and of one target, whatever they are.\<close>

definition event_tags :: "string list" where
  "event_tags = [''li'', ''code'', ''/code'', ''strong'', ''/strong'', ''code'', ''/code'', ''/li'']"

definition target_tags :: "string list" where
  "target_tags = [''li'', ''code'', ''/code'', ''/li'']"

lemma list_all2_set2: "list_all2 P xs ys \<Longrightarrow> y \<in> set ys \<Longrightarrow> \<exists>x. P x y"
  by (auto simp: list_all2_conv_all_nth in_set_conv_nth)

lemma event_item_tags: "event_item e = Inr l \<Longrightarrow> l \<noteq> [] \<and> outside True l \<and> tags None l = event_tags"
  using tagless_show_hundredths
  by (auto simp: event_item_def bind_res_eq_Inr event_tags_def tags_append outside_append)

lemma target_item_tags: "target_item t \<noteq> []" "outside True (target_item t)" "tags None (target_item t) = target_tags"
  by (simp_all add: target_item_def target_tags_def tags_append outside_append)

lemma concat_tags:
  "\<forall>l\<in>set ls. l \<noteq> [] \<and> outside True l \<and> tags None l = ts \<Longrightarrow>
     outside True (concat ls) \<and> tags None (concat ls) = concat (replicate (length ls) ts) \<and> (concat ls = [] \<longleftrightarrow> ls = [])"
  by (induction ls) (simp_all add: tags_append outside_append)

definition page_tags :: "nat \<Rightarrow> nat \<Rightarrow> string list" where
  "page_tags k n =
     tags None page_head @ tags None after_id @ tags None after_target @ tags None after_status @ tags None after_count @
     (if k = 0 then [''li'', ''/li''] else concat (replicate k target_tags)) @ tags None after_targets @
     (if n = 0 then [''li'', ''/li''] else concat (replicate n event_tags)) @ tags None page_foot"

definition item_count :: "pyval \<Rightarrow> nat" where
  "item_count v = (if truthy v then case iterate v of Inl _ \<Rightarrow> 0 | Inr vs \<Rightarrow> length vs else 0)"

lemma events_html_tags:
  assumes "events_html v = Inr s"
  shows "outside True s" "tags None s = concat (replicate (item_count v) event_tags)" "s = [] \<longleftrightarrow> item_count v = 0"
proof -
  obtain es ls where e: "iterate v = Inr es" "map_res event_item es = Inr ls" "s = concat ls"
    using assms by (auto simp: events_html_def bind_res_eq_Inr)
  have "\<forall>l\<in>set ls. l \<noteq> [] \<and> outside True l \<and> tags None l = event_tags"
  proof
    fix l assume "l \<in> set ls"
    then obtain e where "event_item e = Inr l" using e(2) by (auto simp: map_res_eq_Inr_iff dest: list_all2_set2)
    then show "l \<noteq> [] \<and> outside True l \<and> tags None l = event_tags" by (rule event_item_tags)
  qed
  note c = concat_tags [OF this]
  have "item_count v = length ls"
    using e(1) list_all2_lengthD [OF e(2) [unfolded map_res_eq_Inr_iff]]
    by (cases v) (auto simp: item_count_def iterate_def)
  then show "outside True s" "tags None s = concat (replicate (item_count v) event_tags)" "s = [] \<longleftrightarrow> item_count v = 0"
    using c e(3) by simp_all
qed

lemma targets_html_tags:
  assumes "targets_html v = Inr s"
  shows "outside True s"
    "tags None s = (if item_count v = 0 then [''li'', ''/li''] else concat (replicate (item_count v) target_tags))"
proof -
  have "outside True s \<and>
    tags None s = (if item_count v = 0 then [''li'', ''/li''] else concat (replicate (item_count v) target_tags))"
  proof (cases "truthy v")
    case True
    then obtain ts where ts: "iterate v = Inr ts" "s = concat (map target_item ts)"
      using assms by (auto simp: targets_html_def bind_res_eq_Inr)
    have "ts \<noteq> []" using True ts(1) by (cases v) (auto simp: iterate_def)
    moreover have "item_count v = length ts" using True ts(1) by (simp add: item_count_def)
    moreover have "outside True s \<and> tags None s = concat (replicate (length (map target_item ts)) target_tags)"
      unfolding ts(2) using concat_tags [of "map target_item ts" target_tags] target_item_tags by auto
    ultimately show ?thesis by simp
  next
    case False
    then show ?thesis using assms by (auto simp: targets_html_def item_count_def)
  qed
  then show "outside True s"
    "tags None s = (if item_count v = 0 then [''li'', ''/li''] else concat (replicate (item_count v) target_tags))" by simp_all
qed

text \<open>
  C9: No value of a briefing reaches the page as markup: whatever the campaign, its targets and its events
  hold, the tags of the page are those of the template, with one list item for each target and event.
\<close>
theorem page_markup_fixed:
  assumes "generate_html_report b = Inr page"
  shows "tags None page =
    page_tags (item_count (dget_or b ''top_targets'' (PList []))) (item_count (dget_or b ''events'' (PList [])))"
proof -
  obtain n events targets where p: "events_html (dget_or b ''events'' (PList [])) = Inr events"
    "targets_html (dget_or b ''top_targets'' (PList [])) = Inr targets"
    "page = html_page (escaped (dget_or b ''campaign_id'' (PStr ''N/A''))) (escaped (dget_or b ''target'' (PStr ''N/A'')))
       (escaped (dget_or b ''status'' (PStr ''N/A''))) n targets events"
    using assms by (auto simp: generate_html_report_def bind_res_eq_Inr)
  note t = targets_html_tags [OF p(2)]
  show ?thesis
  proof (cases "events = []")
    case True
    then show ?thesis using t events_html_tags [OF p(1)] by (simp add: p(3) html_page_def page_tags_def tags_append)
  next
    case False
    then show ?thesis using t events_html_tags [OF p(1)] by (simp add: p(3) html_page_def page_tags_def tags_append)
  qed
qed

definition hostile_briefing :: pydict where
  "hostile_briefing = [(''target'', PStr ''<script>alert(1)</script>''),
     (''findings_count'', PStr ''<img src=x>''), (''top_targets'', PList [PStr ''<b>x</b>'']),
     (''events'', PList [PDict [(''event'', PStr ''</ul>'')]])]"

theorem page_markup_fixed_witness:
  "\<exists>page. generate_html_report hostile_briefing = Inr page \<and> tags None page = page_tags 1 1"
proof -
  have "int_of_text ''<img src=x>'' = Inl (ValueError ''invalid literal for int()'')" by code_simp
  then have "count_of (PStr ''<img src=x>'') = Inr 0" by (simp add: count_of_def int_of_value_def unusable_int_def)
  moreover have "\<exists>s. event_item (PDict [(''event'', PStr ''</ul>'')]) = Inr s"
    by (simp add: event_item_def as_dict_def dget_or_def show_hundredths_def)
  ultimately have "\<exists>page. generate_html_report hostile_briefing = Inr page"
    by (auto simp: generate_html_report_def hostile_briefing_def dget_or_def events_html_def targets_html_def iterate_def)
  then obtain page where page: "generate_html_report hostile_briefing = Inr page" by blast
  have "item_count (dget_or hostile_briefing ''top_targets'' (PList [])) = 1"
    "item_count (dget_or hostile_briefing ''events'' (PList [])) = 1"
    by (simp_all add: hostile_briefing_def dget_or_def item_count_def iterate_def)
  then show ?thesis using page page_markup_fixed [OF page] by simp
qed

end
