(* ===== verification/AsyncRecon.thy ===== *)
theory AsyncRecon
  imports Runners "HOL-Library.Multiset"
begin

text \<open>
  \<open>core/async_engine.py\<close>: the back-off, the adaptive concurrency controller, the banner probe and the pool
  of five workers over a queue of ports. The workers run interleaved; what they do between two suspensions
  is one step of a relation. What a connection does is an argument.
\<close>

section \<open>Back-off\<close>

text \<open>\<open>chance\<close> is the value of \<open>random.random()\<close>; \<open>random.uniform(0, b)\<close> is b times it.\<close>

definition backoff_delay :: "float \<Rightarrow> float \<Rightarrow> int \<Rightarrow> float" where
  "backoff_delay base_delay max_delay attempt =
     min max_delay (fmul base_delay (of_int (2 ^ nat (max 0 (attempt - 1)))))"

definition jittered_backoff :: "float \<Rightarrow> float \<Rightarrow> float \<Rightarrow> int \<Rightarrow> float" where
  "jittered_backoff chance base_delay max_delay attempt =
     (let delay = backoff_delay base_delay max_delay attempt
      in fadd delay (fmul (fmul (1 / 2) delay) chance))"

section \<open>The controller\<close>

record aimd =
  ai_concurrency :: float
  ai_min :: int
  ai_max :: int

definition new_aimd :: "int \<Rightarrow> int \<Rightarrow> int \<Rightarrow> aimd" where
  "new_aimd initial min_c max_c = \<lparr>ai_concurrency = fl (of_int initial), ai_min = min_c, ai_max = max_c\<rparr>"

definition on_success :: "aimd \<Rightarrow> aimd" where
  "on_success c = c\<lparr>ai_concurrency := min (fl (of_int (ai_max c))) (fadd (ai_concurrency c) (1 / 2))\<rparr>"

definition on_error :: "aimd \<Rightarrow> aimd" where
  "on_error c = c\<lparr>ai_concurrency := max (fl (of_int (ai_min c))) (fdiv (ai_concurrency c) 2)\<rparr>"

text \<open>\<open>int(x)\<close> truncates towards zero.\<close>

definition aimd_get :: "aimd \<Rightarrow> int" where
  "aimd_get c = (if 0 \<le> ai_concurrency c then \<lfloor>ai_concurrency c\<rfloor> else \<lceil>ai_concurrency c\<rceil>)"

section \<open>The probe\<close>

record connection =
  cn_open :: "exc option"
  cn_reply :: "exc + bytes"
  cn_close :: "exc option"
  cn_rtt :: float

record adaptive_row =
  pb_host :: string
  pb_port :: int
  pb_open :: bool
  pb_banner :: ustr
  pb_rtt :: float

text \<open>\<open>str.strip\<close> on code points.\<close>

definition is_space_point :: "nat \<Rightarrow> bool" where
  "is_space_point c \<longleftrightarrow> 9 \<le> c \<and> c \<le> 13 \<or> 28 \<le> c \<and> c \<le> 32 \<or> c = 0x85 \<or> c = 0xA0 \<or> c = 0x1680 \<or>
     0x2000 \<le> c \<and> c \<le> 0x200A \<or> c = 0x2028 \<or> c = 0x2029 \<or> c = 0x202F \<or> c = 0x205F \<or> c = 0x3000"

definition strip_points :: "ustr \<Rightarrow> ustr" where
  "strip_points s = rev (dropWhile is_space_point (rev (dropWhile is_space_point s)))"

definition reply_banner :: "(nat \<Rightarrow> bool) \<Rightarrow> bytes \<Rightarrow> ustr" where
  "reply_banner printable bs =
     sanitize_banner printable MAX_BANNER_BYTES (strip_points (utf8_decode_replace (take 256 bs)))"

definition adaptive_banner_probe ::
  "(nat \<Rightarrow> bool) \<Rightarrow> (string \<Rightarrow> int \<Rightarrow> connection) \<Rightarrow> string \<Rightarrow> int \<Rightarrow> exc + adaptive_row" where
  "adaptive_banner_probe printable net host port =
     (let cn = net host port;
          closed = \<lparr>pb_host = host, pb_port = port, pb_open = False, pb_banner = [], pb_rtt = round_digits 4 (cn_rtt cn)\<rparr>
      in case cn_open cn of
          Some e \<Rightarrow> if is_os_error e then Inr closed else Inl e
        | None \<Rightarrow>
            (let banner = (case cn_reply cn of Inl _ \<Rightarrow> [] | Inr bs \<Rightarrow> reply_banner printable bs)
             in case cn_close cn of
                 Some e \<Rightarrow> if is_os_error e then Inr closed else Inl e
               | None \<Rightarrow> Inr (closed\<lparr>pb_open := True, pb_banner := banner\<rparr>)))"

section \<open>The pool\<close>

datatype pool_worker = Ready | Probing int | Stopped | Failed int

record pool =
  pl_queue :: "int list"
  pl_unfinished :: nat
  pl_workers :: "pool_worker list"
  pl_results :: "adaptive_row list"
  pl_ctl :: aimd

definition start_pool :: "int list \<Rightarrow> pool" where
  "start_pool ports =
     \<lparr>pl_queue = ports, pl_unfinished = length ports, pl_workers = replicate 5 Ready, pl_results = [],
      pl_ctl = new_aimd 15 2 50\<rparr>"

text \<open>
  A ready worker takes a port when the queue is not empty and ends when it is. A probe that returns is
  counted, recorded and marked done, and its worker sleeps and is ready again; a probe that raises ends its
  worker, and the port it took is never marked done.
\<close>

inductive pool_step :: "(int \<Rightarrow> exc + adaptive_row) \<Rightarrow> pool \<Rightarrow> pool \<Rightarrow> bool" for prb where
  take_port: "i < length (pl_workers s) \<Longrightarrow> pl_workers s ! i = Ready \<Longrightarrow> pl_queue s = p # q \<Longrightarrow>
    pool_step prb s (s\<lparr>pl_queue := q, pl_workers := (pl_workers s)[i := Probing p]\<rparr>)"
| stop: "i < length (pl_workers s) \<Longrightarrow> pl_workers s ! i = Ready \<Longrightarrow> pl_queue s = [] \<Longrightarrow>
    pool_step prb s (s\<lparr>pl_workers := (pl_workers s)[i := Stopped]\<rparr>)"
| answer: "i < length (pl_workers s) \<Longrightarrow> pl_workers s ! i = Probing p \<Longrightarrow> prb p = Inr r \<Longrightarrow>
    pool_step prb s (s\<lparr>pl_results := pl_results s @ [r], pl_unfinished := pl_unfinished s - 1,
      pl_ctl := (if pb_open r then on_success (pl_ctl s) else on_error (pl_ctl s)),
      pl_workers := (pl_workers s)[i := Ready]\<rparr>)"
| die: "i < length (pl_workers s) \<Longrightarrow> pl_workers s ! i = Probing p \<Longrightarrow> prb p = Inl e \<Longrightarrow>
    pool_step prb s (s\<lparr>pl_workers := (pl_workers s)[i := Failed p]\<rparr>)"

text \<open>\<open>queue.join()\<close> returns when every port is marked done; the rows of the open ports are the answer.\<close>

definition joined :: "pool \<Rightarrow> bool" where
  "joined s \<longleftrightarrow> pl_unfinished s = 0"

definition recon_answer :: "pool \<Rightarrow> adaptive_row list" where
  "recon_answer s = filter pb_open (pl_results s)"

definition enterprise_adaptive_recon :: "(int \<Rightarrow> exc + adaptive_row) \<Rightarrow> int list \<Rightarrow> adaptive_row list \<Rightarrow> bool" where
  "enterprise_adaptive_recon prb ports rows \<longleftrightarrow>
     (\<exists>s. (pool_step prb)\<^sup>*\<^sup>* (start_pool ports) s \<and> joined s \<and> rows = recon_answer s)"

section \<open>The invariant of the pool\<close>

definition holds :: "pool_worker \<Rightarrow> int list" where
  "holds w = (case w of Probing p \<Rightarrow> [p] | Failed p \<Rightarrow> [p] | _ \<Rightarrow> [])"

definition held :: "pool_worker list \<Rightarrow> int list" where
  "held ws = concat (map holds ws)"

definition row_for :: "(int \<Rightarrow> exc + adaptive_row) \<Rightarrow> int \<Rightarrow> adaptive_row" where
  "row_for prb p = (case prb p of Inr r \<Rightarrow> r)"

definition pool_inv :: "(int \<Rightarrow> exc + adaptive_row) \<Rightarrow> int list \<Rightarrow> pool \<Rightarrow> bool" where
  "pool_inv prb ports s \<longleftrightarrow>
     length (pl_workers s) = 5 \<and> (Stopped \<in> set (pl_workers s) \<longrightarrow> pl_queue s = []) \<and>
     pl_unfinished s = length (pl_queue s) + length (held (pl_workers s)) \<and>
     (\<forall>p. Failed p \<in> set (pl_workers s) \<longrightarrow> (\<exists>e. prb p = Inl e)) \<and>
     (\<exists>fin. pl_results s = map (row_for prb) fin \<and> (\<forall>p\<in>set fin. \<exists>r. prb p = Inr r) \<and>
       mset ports = mset (pl_queue s) + mset (held (pl_workers s)) + mset fin)"

lemma holds_simps [simp]: "holds Ready = []" "holds Stopped = []" "holds (Probing p) = [p]" "holds (Failed p) = [p]"
  by (simp_all add: holds_def)

lemma held_update:
  "i < length ws \<Longrightarrow> mset (held (ws[i := w])) + mset (holds (ws ! i)) = mset (held ws) + mset (holds w)"
proof (induction ws arbitrary: i)
  case (Cons v ws)
  then show ?case by (cases i) (auto simp: held_def)
qed simp

lemma held_length:
  "i < length ws \<Longrightarrow> length (held (ws[i := w])) + length (holds (ws ! i)) = length (held ws) + length (holds w)"
  using arg_cong [OF held_update, of i ws size w] by simp

lemma held_same: "i < length ws \<Longrightarrow> holds w = holds (ws ! i) \<Longrightarrow>
    mset (held (ws[i := w])) = mset (held ws) \<and> length (held (ws[i := w])) = length (held ws)"
  using held_update [of i ws w] held_length [of i ws w] by simp

lemma Failed_update: "Failed p \<in> set (ws[i := w]) \<Longrightarrow> w = Failed p \<or> Failed p \<in> set ws"
  using set_update_subset_insert [of ws i w] by auto

lemma Stopped_update: "Stopped \<in> set (ws[i := w]) \<Longrightarrow> w = Stopped \<or> Stopped \<in> set ws"
  using set_update_subset_insert [of ws i w] by auto

lemma pool_inv_step: "pool_step prb s t \<Longrightarrow> pool_inv prb ports s \<Longrightarrow> pool_inv prb ports t"
proof (induction rule: pool_step.induct)
  case (take_port i s p q)
  then show ?case
    using held_update [of i "pl_workers s" "Probing p"] held_length [of i "pl_workers s" "Probing p"]
    by (auto simp: pool_inv_def dest!: Failed_update Stopped_update)
next
  case (stop i s)
  then show ?case
    using held_same [of i "pl_workers s" Stopped] by (auto simp: pool_inv_def dest!: Failed_update Stopped_update)
next
  case (answer i s p r)
  obtain fin where fin: "pl_results s = map (row_for prb) fin" "\<forall>p\<in>set fin. \<exists>r. prb p = Inr r"
    "mset ports = mset (pl_queue s) + mset (held (pl_workers s)) + mset fin"
    using answer.prems by (auto simp: pool_inv_def)
  have m: "add_mset p (mset (held ((pl_workers s)[i := Ready]))) = mset (held (pl_workers s))"
    "Suc (length (held ((pl_workers s)[i := Ready]))) = length (held (pl_workers s))"
    using held_update [of i "pl_workers s" Ready] held_length [of i "pl_workers s" Ready] answer.hyps by simp_all
  have "pl_results s @ [r] = map (row_for prb) (fin @ [p])" using fin(1) answer.hyps(3) by (simp add: row_for_def)
  moreover have "mset ports = mset (pl_queue s) + mset (held ((pl_workers s)[i := Ready])) + mset (fin @ [p])"
    using fin(3) m(1) by simp
  moreover have "\<forall>q\<in>set (fin @ [p]). \<exists>r. prb q = Inr r" using fin(2) answer.hyps(3) by simp
  ultimately have "\<exists>fin. pl_results s @ [r] = map (row_for prb) fin \<and> (\<forall>p\<in>set fin. \<exists>r. prb p = Inr r) \<and>
      mset ports = mset (pl_queue s) + mset (held ((pl_workers s)[i := Ready])) + mset fin" by blast
  then show ?case using answer.prems m(2) by (auto simp: pool_inv_def dest!: Failed_update Stopped_update)
next
  case (die i s p e)
  then show ?case
    using held_same [of i "pl_workers s" "Failed p"] by (auto simp: pool_inv_def dest!: Failed_update Stopped_update)
qed

lemma pool_inv_start: "pool_inv prb ports (start_pool ports)"
  by (auto simp: pool_inv_def start_pool_def held_def concat_replicate_trivial)

lemma pool_inv_reach: "(pool_step prb)\<^sup>*\<^sup>* (start_pool ports) s \<Longrightarrow> pool_inv prb ports s"
  by (induction rule: rtranclp_induct) (auto intro: pool_inv_start pool_inv_step)

section \<open>What a reconnaissance returns\<close>

lemma recon_rows:
  assumes "enterprise_adaptive_recon prb ports rows"
  shows "mset rows = mset (filter pb_open (map (row_for prb) ports)) \<and> list_all (\<lambda>p. \<exists>r. prb p = Inr r) ports"
proof -
  obtain s where s: "(pool_step prb)\<^sup>*\<^sup>* (start_pool ports) s" "joined s" "rows = recon_answer s"
    using assms by (auto simp: enterprise_adaptive_recon_def)
  then have inv: "pool_inv prb ports s" by (simp add: pool_inv_reach)
  then have e: "pl_queue s = []" "held (pl_workers s) = []" using s(2) by (simp_all add: pool_inv_def joined_def)
  then obtain fin where fin: "pl_results s = map (row_for prb) fin" "\<forall>p\<in>set fin. \<exists>r. prb p = Inr r" "mset ports = mset fin"
    using inv by (auto simp: pool_inv_def)
  have "mset rows = filter_mset pb_open (image_mset (row_for prb) (mset fin))"
    by (simp add: s(3) recon_answer_def fin(1))
  then have "mset rows = mset (filter pb_open (map (row_for prb) ports))" by (simp flip: fin(3))
  moreover have "set ports = set fin" using fin(3) by (rule mset_eq_setD)
  ultimately show ?thesis using fin(2) by (simp add: list_all_iff)
qed

text \<open>
  C20: A reconnaissance that returns reports exactly the open ports of those it was given, each as often as it
  was given, and no probe raised.
\<close>
theorem recon_reports_open_ports:
  assumes "enterprise_adaptive_recon prb ports rows"
  shows "mset rows = mset (filter pb_open (map (row_for prb) ports)) \<and> list_all (\<lambda>p. \<exists>r. prb p = Inr r) ports"
  by (rule recon_rows [OF assms])

text \<open>Every run of the pool ends: each step makes this smaller.\<close>

definition active :: "pool_worker \<Rightarrow> nat" where
  "active w = (case w of Ready \<Rightarrow> 1 | Probing _ \<Rightarrow> 2 | _ \<Rightarrow> 0)"

definition pool_work :: "pool \<Rightarrow> nat" where
  "pool_work s = 2 * length (pl_queue s) + sum_list (map active (pl_workers s))"

lemma active_simps [simp]: "active Ready = 1" "active (Probing p) = 2" "active Stopped = 0" "active (Failed p) = 0"
  by (simp_all add: active_def)

lemma active_update:
  "i < length ws \<Longrightarrow> sum_list (map active (ws[i := w])) + active (ws ! i) = sum_list (map active ws) + active w"
proof (induction ws arbitrary: i)
  case (Cons v ws)
  then show ?case by (cases i) auto
qed simp

lemma pool_step_work: "pool_step prb s t \<Longrightarrow> pool_work t < pool_work s"
proof (induction rule: pool_step.induct)
  case (take_port i s p q)
  then show ?case using active_update [of i "pl_workers s" "Probing p"] by (simp add: pool_work_def)
next
  case (stop i s)
  then show ?case using active_update [of i "pl_workers s" Stopped] by (simp add: pool_work_def)
next
  case (answer i s p r)
  then show ?case using active_update [of i "pl_workers s" Ready] by (simp add: pool_work_def)
next
  case (die i s p e)
  then show ?case using active_update [of i "pl_workers s" "Failed p"] by (simp add: pool_work_def)
qed

lemma held_nonempty: "p \<in> set (held ws) \<Longrightarrow> Probing p \<in> set ws \<or> Failed p \<in> set ws"
proof -
  have w_of: "w = Probing p \<or> w = Failed p" if "p \<in> set (holds w)" for w using that by (cases w) auto
  assume "p \<in> set (held ws)"
  then obtain w where w: "w \<in> set ws" "p \<in> set (holds w)" by (auto simp: held_def)
  then have "w = Probing p \<or> w = Failed p" using w_of by blast
  then show ?thesis using w(1) by blast
qed

lemma pool_progress:
  assumes inv: "pool_inv prb ports s" and quiet: "\<forall>p\<in>set ports. \<exists>r. prb p = Inr r" and "\<not> joined s"
  shows "\<exists>t. pool_step prb s t"
proof -
  obtain fin where fin: "mset ports = mset (pl_queue s) + mset (held (pl_workers s)) + mset fin"
    using inv by (auto simp: pool_inv_def)
  have sub: "set (held (pl_workers s)) \<subseteq> set ports" using arg_cong [OF fin, of set_mset] by auto
  show ?thesis
  proof (cases "\<exists>p. Probing p \<in> set (pl_workers s)")
    case True
    then obtain i p where i: "i < length (pl_workers s)" "pl_workers s ! i = Probing p" by (metis in_set_conv_nth)
    then have "Probing p \<in> set (pl_workers s)" by (metis nth_mem)
    then have "p \<in> set (held (pl_workers s))" by (auto simp: held_def intro!: bexI [of _ "Probing p"])
    then obtain r where "prb p = Inr r" using sub quiet by blast
    then show ?thesis using pool_step.answer [OF i] by blast
  next
    case False
    have "pl_workers s ! 0 \<in> set (pl_workers s)" using inv by (simp add: pool_inv_def)
    have nofail: "Failed p \<notin> set (pl_workers s)" for p
    proof
      assume f: "Failed p \<in> set (pl_workers s)"
      then have "p \<in> set (held (pl_workers s))" by (auto simp: held_def intro!: bexI [of _ "Failed p"])
      then have "\<exists>r. prb p = Inr r" using sub quiet by blast
      then show False using f inv by (auto simp: pool_inv_def)
    qed
    have "p \<notin> set (held (pl_workers s))" for p using False nofail held_nonempty [of p "pl_workers s"] by blast
    then have "held (pl_workers s) = []" by (metis all_not_in_conv set_empty2)
    then obtain p q where q: "pl_queue s = p # q" using inv assms(3) by (cases "pl_queue s") (auto simp: pool_inv_def joined_def)
    then have "Stopped \<notin> set (pl_workers s)" using inv by (auto simp: pool_inv_def)
    then have "pl_workers s ! 0 = Ready"
      using \<open>pl_workers s ! 0 \<in> set (pl_workers s)\<close> False nofail by (cases "pl_workers s ! 0") auto
    moreover have "0 < length (pl_workers s)" using inv by (simp add: pool_inv_def)
    ultimately show ?thesis using pool_step.take_port q by blast
  qed
qed

text \<open>
  C19: When no probe raises, a reconnaissance comes to its end from every state it can reach, whatever the
  workers' order, and no run is infinite.
\<close>
theorem recon_returns:
  assumes "list_all (\<lambda>p. \<exists>r. prb p = Inr r) ports" "(pool_step prb)\<^sup>*\<^sup>* (start_pool ports) s"
  shows "(\<exists>t. (pool_step prb)\<^sup>*\<^sup>* s t \<and> joined t) \<and> wfP (\<lambda>t s. pool_step prb s t)"
proof -
  have "\<exists>t. (pool_step prb)\<^sup>*\<^sup>* s t \<and> joined t" if "pool_inv prb ports s" for s
    using that
  proof (induction "pool_work s" arbitrary: s rule: less_induct)
    case less
    show ?case
    proof (cases "joined s")
      case False
      then obtain u where u: "pool_step prb s u"
        using pool_progress [OF less.prems] assms(1) by (auto simp: list_all_iff)
      from less.hyps [OF pool_step_work [OF u] pool_inv_step [OF u less.prems]] u show ?thesis
        by (meson converse_rtranclp_into_rtranclp)
    qed blast
  qed
  moreover have "wfP (\<lambda>t s. pool_step prb s t)"
    by (rule wfp_if_convertible_to_nat [of _ pool_work]) (rule pool_step_work)
  ultimately show ?thesis using pool_inv_reach [OF assms(2)] by blast
qed

text \<open>
  C21: When the probe of one of the ports raises, the worker that takes it ends without marking it done, so no
  run of the pool ever joins: the caller waits for ever.
\<close>
theorem recon_hangs:
  assumes "prb p = Inl e" "p \<in> set ports"
  shows "\<not> enterprise_adaptive_recon prb ports rows"
proof
  assume "enterprise_adaptive_recon prb ports rows"
  then have "\<exists>r. prb p = Inr r" using recon_rows assms(2) by (simp add: list_all_iff)
  then show False using assms(1) by simp
qed

section \<open>The controller\<close>

text \<open>A controller within its bounds, which are whole numbers a double holds.\<close>

definition aimd_ok :: "aimd \<Rightarrow> bool" where
  "aimd_ok c \<longleftrightarrow> 0 \<le> ai_min c \<and> ai_max c \<le> 2 ^ 53 \<and>
     of_int (ai_min c) \<le> ai_concurrency c \<and> ai_concurrency c \<le> of_int (ai_max c)"

lemma aimd_ok_bounds: "aimd_ok c \<Longrightarrow> ai_min c \<le> ai_max c \<and> 0 \<le> ai_concurrency c"
proof -
  assume c: "aimd_ok c"
  then have "(of_int (ai_min c) :: rat) \<le> of_int (ai_max c)" by (auto simp: aimd_ok_def)
  moreover have "(0 :: rat) \<le> of_int (ai_min c)" using c by (simp add: aimd_ok_def)
  ultimately show ?thesis using c unfolding aimd_ok_def of_int_le_iff by linarith
qed

lemma fl_small_int: "0 \<le> n \<Longrightarrow> n \<le> 2 ^ 53 \<Longrightarrow> fl (of_int n) = of_int n"
  by (rule fl_int) simp

lemma aimd_fl: "aimd_ok c \<Longrightarrow> fl (of_int (ai_max c)) = of_int (ai_max c) \<and> fl (of_int (ai_min c)) = of_int (ai_min c)"
  using aimd_ok_bounds [of c] by (auto simp: aimd_ok_def intro!: fl_small_int)

lemma aimd_ok_step: "aimd_ok c \<Longrightarrow> aimd_ok (on_success c)" "aimd_ok c \<Longrightarrow> aimd_ok (on_error c)"
proof -
  assume c: "aimd_ok c"
  have up: "of_int (ai_min c) \<le> fadd (ai_concurrency c) (1 / 2)"
    using c aimd_fl [OF c] fl_mono [of "of_int (ai_min c)" "ai_concurrency c + 1 / 2"] by (simp add: aimd_ok_def fadd_def)
  have down: "fdiv (ai_concurrency c) 2 \<le> of_int (ai_max c)"
    using c aimd_fl [OF c] fl_mono [of "ai_concurrency c / 2" "of_int (ai_max c)"] aimd_ok_bounds [OF c]
    by (simp add: aimd_ok_def fdiv_def)
  show "aimd_ok (on_success c)"
    using c up aimd_fl [OF c] aimd_ok_bounds [OF c] by (auto simp: aimd_ok_def on_success_def min_def)
  show "aimd_ok (on_error c)"
    using c down aimd_fl [OF c] aimd_ok_bounds [OF c] by (auto simp: aimd_ok_def on_error_def max_def)
qed

text \<open>Whatever successes and errors it sees, the concurrency the controller names stays within its bounds.\<close>
theorem aimd_stays_bounded:
  assumes "aimd_ok c"
  shows "ai_min c \<le> aimd_get (foldl (\<lambda>c ok. if ok then on_success c else on_error c) c oks) \<and>
    aimd_get (foldl (\<lambda>c ok. if ok then on_success c else on_error c) c oks) \<le> ai_max c"
proof -
  let ?f = "\<lambda>c ok. if ok then on_success c else on_error c"
  have "aimd_ok (foldl ?f c oks) \<and> ai_min (foldl ?f c oks) = ai_min c \<and> ai_max (foldl ?f c oks) = ai_max c"
    using assms
  proof (induction oks arbitrary: c)
    case (Cons ok oks)
    have "aimd_ok (?f c ok)" "ai_min (?f c ok) = ai_min c" "ai_max (?f c ok) = ai_max c"
      using aimd_ok_step [OF Cons.prems] by (simp_all add: on_success_def on_error_def)
    then show ?case using Cons.IH [of "?f c ok"] by simp
  qed simp
  then show ?thesis
    using aimd_ok_bounds [of "foldl ?f c oks"] by (auto simp: aimd_ok_def aimd_get_def le_floor_iff floor_le_iff)
qed

theorem aimd_stays_bounded_witness:
  "aimd_get (foldl (\<lambda>c ok. if ok then on_success c else on_error c) (new_aimd 15 2 50) [False, False, True]) \<le> 50"
proof -
  have "fl 15 = 15" using fl_int [of 15] by simp
  then have "aimd_ok (new_aimd 15 2 50)" by (simp add: aimd_ok_def new_aimd_def)
  from aimd_stays_bounded [OF this, of "[False, False, True]"] show ?thesis by (simp add: new_aimd_def)
qed

text \<open>
  The controller has no effect on the pool: every step is possible whatever the controller says, so the
  number of probes in flight is fixed at the five workers.
\<close>
theorem controller_without_effect:
  assumes "pool_step prb s t"
  shows "\<exists>c. pool_step prb (s\<lparr>pl_ctl := d\<rparr>) (t\<lparr>pl_ctl := c\<rparr>)"
  using assms
proof (induction rule: pool_step.induct)
  case (take_port i s p q)
  then show ?case using pool_step.take_port [of i "s\<lparr>pl_ctl := d\<rparr>" p q prb] by (intro exI [of _ d]) (cases s; simp)
next
  case (stop i s)
  then show ?case using pool_step.stop [of i "s\<lparr>pl_ctl := d\<rparr>" prb] by (intro exI [of _ d]) (cases s; simp)
next
  case (answer i s p r)
  then show ?case
    using pool_step.answer [of i "s\<lparr>pl_ctl := d\<rparr>" p prb r]
    by (intro exI [of _ "if pb_open r then on_success d else on_error d"]) (cases s; cases "pb_open r"; simp)
next
  case (die i s p e)
  then show ?case using pool_step.die [of i "s\<lparr>pl_ctl := d\<rparr>" p prb e] by (intro exI [of _ d]) (cases s; simp)
qed

section \<open>The whole of it\<close>

definition open_80 :: "string \<Rightarrow> int \<Rightarrow> connection" where
  "open_80 host port =
     \<lparr>cn_open = (if 63 < length host then Some (ValueError ''label too long'')
                 else if port = 80 then None else Some (OSError ''refused'')),
      cn_reply = Inl (OSError ''reset''), cn_close = None, cn_rtt = 0\<rparr>"

definition probe_80 :: "int \<Rightarrow> exc + adaptive_row" where
  "probe_80 = adaptive_banner_probe (\<lambda>_. True) open_80 ''h''"

lemma probe_80_simps:
  "probe_80 80 = Inr \<lparr>pb_host = ''h'', pb_port = 80, pb_open = True, pb_banner = [], pb_rtt = 0\<rparr>"
  "probe_80 81 = Inr \<lparr>pb_host = ''h'', pb_port = 81, pb_open = False, pb_banner = [], pb_rtt = 0\<rparr>"
  by (simp_all add: probe_80_def adaptive_banner_probe_def open_80_def)

theorem recon_hangs_witness:
  "\<not> (\<exists>rows. enterprise_adaptive_recon
     (adaptive_banner_probe (\<lambda>_. True) open_80 (replicate 64 (CHR ''a''))) [80, 443] rows)"
proof -
  have "adaptive_banner_probe (\<lambda>_. True) open_80 (replicate 64 (CHR ''a'')) 80 = Inl (ValueError ''label too long'')"
    by (simp add: adaptive_banner_probe_def open_80_def)
  note raises = this
  show ?thesis
  proof
    assume "\<exists>rows. enterprise_adaptive_recon
      (adaptive_banner_probe (\<lambda>_. True) open_80 (replicate 64 (CHR ''a''))) [80, 443] rows"
    then obtain rows where "enterprise_adaptive_recon
      (adaptive_banner_probe (\<lambda>_. True) open_80 (replicate 64 (CHR ''a''))) [80, 443] rows" by blast
    moreover have "80 \<in> set [80, 443 :: int]" by simp
    ultimately show False
      using recon_hangs [of "adaptive_banner_probe (\<lambda>_. True) open_80 (replicate 64 (CHR ''a''))" 80, OF raises] by blast
  qed
qed

theorem recon_returns_witness:
  "\<exists>t. (pool_step probe_80)\<^sup>*\<^sup>* (start_pool [80, 81]) t \<and> joined t"
  using recon_returns [of probe_80 "[80, 81]" "start_pool [80, 81]"] by (simp add: probe_80_simps)

lemma runs_80: "enterprise_adaptive_recon probe_80 [80]
    [\<lparr>pb_host = ''h'', pb_port = 80, pb_open = True, pb_banner = [], pb_rtt = 0\<rparr>]"
proof -
  let ?s = "start_pool [80]" and ?r = "\<lparr>pb_host = ''h'', pb_port = 80, pb_open = True, pb_banner = [], pb_rtt = 0\<rparr>"
  let ?t = "?s\<lparr>pl_queue := [], pl_workers := (pl_workers ?s)[0 := Probing 80]\<rparr>"
  let ?u = "?t\<lparr>pl_results := pl_results ?t @ [?r], pl_unfinished := pl_unfinished ?t - 1,
      pl_ctl := (if pb_open ?r then on_success (pl_ctl ?t) else on_error (pl_ctl ?t)),
      pl_workers := (pl_workers ?t)[0 := Ready]\<rparr>"
  have "pool_step probe_80 ?s ?t" by (rule pool_step.take_port) (simp_all add: start_pool_def)
  moreover have "pool_step probe_80 ?t ?u"
    by (rule pool_step.answer [of _ _ 80]) (simp_all add: start_pool_def probe_80_simps)
  ultimately have "(pool_step probe_80)\<^sup>*\<^sup>* ?s ?u" by (meson converse_rtranclp_into_rtranclp rtranclp.rtrancl_refl)
  then show ?thesis
    unfolding enterprise_adaptive_recon_def
    by (intro exI [of _ ?u]) (simp add: joined_def recon_answer_def start_pool_def)
qed

theorem recon_reports_open_ports_witness:
  "mset [\<lparr>pb_host = ''h'', pb_port = 80, pb_open = True, pb_banner = [], pb_rtt = 0\<rparr>] =
     mset (filter pb_open (map (row_for probe_80) [80]))"
  using recon_reports_open_ports [OF runs_80] by blast

theorem controller_without_effect_witness:
  "\<exists>c. pool_step probe_80 ((start_pool [80])\<lparr>pl_ctl := new_aimd 1 1 1\<rparr>)
     ((start_pool [80])\<lparr>pl_queue := [], pl_workers := (pl_workers (start_pool [80]))[0 := Probing 80], pl_ctl := c\<rparr>)"
proof -
  have "pool_step probe_80 (start_pool [80])
      ((start_pool [80])\<lparr>pl_queue := [], pl_workers := (pl_workers (start_pool [80]))[0 := Probing 80]\<rparr>)"
    by (rule pool_step.take_port) (simp_all add: start_pool_def)
  from controller_without_effect [OF this, of "new_aimd 1 1 1"] show ?thesis by simp
qed

end
