(* ===== verification/PatternMatcher.thy ===== *)
theory PatternMatcher
  imports Runners
begin

text \<open>
  \<open>engine/pattern_matcher.py\<close>: the automaton that registers and enumerates signatures, whose search is
  delegated to \<open>core/accel.py\<close>. A node is named by its path from the root: the shape of the trie is a
  datatype, and what a node holds (its outputs, its failure link) is kept in ordered dictionaries by path.
  Calling a method that a value lacks is an \<open>AttributeError\<close>, written as a \<open>TypeError\<close>.
\<close>

section \<open>The automaton\<close>

datatype ac_node = Node "(char \<times> ac_node) list"

record matcher =
  mt_root :: ac_node
  mt_outputs :: "(string, string list) dict"
  mt_ends :: "string list"
  mt_failure :: "(string, string) dict"
  mt_names :: "(string, string) dict"
  mt_reason :: string

definition new_matcher :: matcher where
  "new_matcher = \<lparr>mt_root = Node [], mt_outputs = [], mt_ends = [], mt_failure = [], mt_names = [], mt_reason = []\<rparr>"

definition outputs_at :: "(string, string list) dict \<Rightarrow> string \<Rightarrow> string list" where
  "outputs_at d path = (case dict_get d path of None \<Rightarrow> [] | Some os \<Rightarrow> os)"

definition add_new :: "'a list \<Rightarrow> 'a \<Rightarrow> 'a list" where
  "add_new xs x = (if x \<in> set xs then xs else xs @ [x])"

fun kids :: "ac_node \<Rightarrow> (char \<times> ac_node) list" where
  "kids (Node ks) = ks"

fun grow :: "string \<Rightarrow> ac_node \<Rightarrow> ac_node" where
  "grow [] t = t"
| "grow (c # s) t =
     Node (dict_set c (grow s (case dict_get (kids t) c of None \<Rightarrow> Node [] | Some u \<Rightarrow> u)) (kids t))"

definition add_pattern :: "string \<Rightarrow> matcher \<Rightarrow> matcher" where
  "add_pattern pattern m =
     (let path = lower pattern
      in m\<lparr>mt_root := grow path (mt_root m), mt_ends := add_new (mt_ends m) path,
           mt_outputs := dict_set path (add_new (outputs_at (mt_outputs m) path) pattern) (mt_outputs m)\<rparr>)"

fun subtree :: "ac_node \<Rightarrow> string \<Rightarrow> ac_node option" where
  "subtree t [] = Some t"
| "subtree t (c # s) = (case dict_get (kids t) c of None \<Rightarrow> None | Some u \<Rightarrow> subtree u s)"

definition has_child :: "ac_node \<Rightarrow> string \<Rightarrow> char \<Rightarrow> bool" where
  "has_child trie path c = (subtree trie (path @ [c]) \<noteq> None)"

text \<open>The inner loop: follow failure links until a node has the child, or past the root.\<close>

partial_function (option) fall ::
  "ac_node \<Rightarrow> (string, string) dict \<Rightarrow> char \<Rightarrow> string option \<Rightarrow> string option option" where
  "fall trie fails c st =
     (if st = None then Some None
      else if has_child trie (the st) c then Some st
      else fall trie fails c (dict_get fails (the st)))"

type_synonym links = "(string, string) dict \<times> (string, string list) dict"

definition link_child :: "ac_node \<Rightarrow> string \<Rightarrow> char \<Rightarrow> links \<Rightarrow> links option" where
  "link_child trie path c l =
     (case fall trie (fst l) c (dict_get (fst l) path) of
        None \<Rightarrow> None
      | Some st \<Rightarrow>
          let failure = (case st of None \<Rightarrow> [] | Some p \<Rightarrow> p @ [c]);
              child = path @ [c]
          in Some (dict_set child failure (fst l),
                   dict_set child (foldl add_new (outputs_at (snd l) child) (outputs_at (snd l) failure)) (snd l)))"

fun link_children :: "ac_node \<Rightarrow> string \<Rightarrow> char list \<Rightarrow> links \<Rightarrow> links option" where
  "link_children trie path [] l = Some l"
| "link_children trie path (c # cs) l =
     (case link_child trie path c l of None \<Rightarrow> None | Some l' \<Rightarrow> link_children trie path cs l')"

fun weight :: "ac_node \<Rightarrow> nat" where
  "weight (Node ks) = Suc (sum_list (map (\<lambda>(c, t). weight t) ks))"

definition children_of :: "string \<times> ac_node \<Rightarrow> (string \<times> ac_node) list" where
  "children_of n = map (\<lambda>(c, t). (fst n @ [c], t)) (kids (snd n))"

definition load_of :: "(string \<times> ac_node) list \<Rightarrow> nat" where
  "load_of q = sum_list (map (\<lambda>(p, t). weight t) q)"

lemma load_simps [simp]: "load_of [] = 0" "load_of (n # q) = weight (snd n) + load_of q" "load_of (q @ r) = load_of q + load_of r"
  by (simp_all add: load_of_def split: prod.splits)

lemma load_rev [simp]: "load_of (rev q) = load_of q"
  by (simp add: load_of_def sum_list_rev flip: rev_map)

lemma load_children: "Suc (load_of (children_of n)) = weight (snd n)"
  by (cases "snd n") (auto simp: children_of_def load_of_def comp_def case_prod_unfold)

function link_queue :: "ac_node \<Rightarrow> (string \<times> ac_node) list \<Rightarrow> links \<Rightarrow> links option" where
  "link_queue trie [] l = Some l"
| "link_queue trie (n # q) l =
     (case link_children trie (fst n) (map fst (kids (snd n))) l of
        None \<Rightarrow> None
      | Some l' \<Rightarrow> link_queue trie (q @ children_of n) l')"
  by pat_completeness auto
termination
  by (relation "measure (\<lambda>(trie, q, l). load_of q)") (auto simp flip: load_children)

definition build_failure_links :: "matcher \<Rightarrow> matcher option" where
  "build_failure_links m =
     (let first = children_of ([], mt_root m);
          fails = foldl (\<lambda>d (p, t). dict_set p [] d) (mt_failure m) first
      in case link_queue (mt_root m) first (fails, mt_outputs m) of
          None \<Rightarrow> None
        | Some l \<Rightarrow> Some (m\<lparr>mt_failure := fst l, mt_outputs := snd l\<rparr>))"

definition default_signatures :: "string list" where
  "default_signatures =
     [''openssh'', ''apache'', ''nginx'', ''microsoft-iis'', ''mariadb'', ''postgres'', ''redis'', ''vsftpd'', ''dropbear'']"

definition load_default_signatures :: "matcher \<Rightarrow> matcher option" where
  "load_default_signatures m = build_failure_links (foldl (\<lambda>m p. add_pattern p m) m default_signatures)"

section \<open>Loading from a file\<close>

text \<open>A value that is no string ends the loading; what was added before it stays.\<close>

fun add_entries :: "(string \<times> pyval) list \<Rightarrow> matcher \<Rightarrow> exc option \<times> matcher" where
  "add_entries [] m = (None, m)"
| "add_entries ((name, v) # rest) m =
     (case v of
        PStr p \<Rightarrow> (let m' = add_pattern p m in add_entries rest (m'\<lparr>mt_names := dict_set name p (mt_names m')\<rparr>))
      | _ \<Rightarrow> (Some (TypeError ''object has no attribute lower''), m))"

text \<open>The file: absent, unreadable, or its text. The number returned, and the matcher left behind.\<close>

definition load_pattern_file :: "(exc + string) option \<Rightarrow> matcher \<Rightarrow> (exc + nat \<times> matcher) option" where
  "load_pattern_file contents m =
     (case contents of
        None \<Rightarrow> Some (Inr (0, m))
      | Some (Inl e) \<Rightarrow> Some (Inr (0, m))
      | Some (Inr txt) \<Rightarrow>
          (case json_loads txt of
             Inl e \<Rightarrow> Some (if e = OutOfModel then Inl e else Inr (0, m))
           | Inr (PDict d) \<Rightarrow>
               (case add_entries d m of
                  (Some e, m') \<Rightarrow> Some (Inr (0, m'))
                | (None, m') \<Rightarrow> map_option (\<lambda>m''. Inr (length d, m'')) (build_failure_links m'))
           | Inr _ \<Rightarrow> Some (Inr (0, m))))"

section \<open>Enumeration and search\<close>

text \<open>The stack's top is the head of the list.\<close>

function collect :: "(string, string list) dict \<Rightarrow> (string \<times> ac_node) list \<Rightarrow> string list \<Rightarrow> string list" where
  "collect d [] acc = acc"
| "collect d (n # st) acc = collect d (rev (children_of n) @ st) (foldl add_new acc (outputs_at d (fst n)))"
  by pat_completeness auto
termination
  by (relation "measure (\<lambda>(d, st, acc). load_of st)") (auto simp flip: load_children)

definition all_patterns :: "matcher \<Rightarrow> string list" where
  "all_patterns m = collect (mt_outputs m) [([], mt_root m)] []"

record pattern_hit =
  ph_signature :: ustr
  ph_position :: int
  ph_engine :: string

definition match_text :: "native \<Rightarrow> ustr \<Rightarrow> matcher \<Rightarrow> exc + (pattern_hit list \<times> matcher)" where
  "match_text nv t m =
     bind_res (match_signatures nv t (map ascii (all_patterns m)) None) (\<lambda>out. Inr
       (map (\<lambda>h. \<lparr>ph_signature = signature h, ph_position = position h, ph_engine = match_engine out\<rparr>) (matches out),
        m\<lparr>mt_reason := match_reason out\<rparr>))"

section \<open>What is registered is enumerated\<close>

definition registered :: "(string, string list) dict \<Rightarrow> string set" where
  "registered d = (\<Union>p. set (outputs_at d p))"

fun tree_ok :: "ac_node \<Rightarrow> bool" where
  "tree_ok (Node ks) \<longleftrightarrow> dict_ok ks \<and> (\<forall>(c, t)\<in>set ks. tree_ok t)"

definition matcher_ok :: "matcher \<Rightarrow> bool" where
  "matcher_ok m \<longleftrightarrow> tree_ok (mt_root m) \<and> (\<forall>p. outputs_at (mt_outputs m) p \<noteq> [] \<longrightarrow> subtree (mt_root m) p \<noteq> None) \<and>
     (\<forall>p q. dict_get (mt_failure m) p = Some q \<longrightarrow> length q < length p)"

lemma outputs_at_set [simp]: "outputs_at (dict_set k v d) p = (if p = k then v else outputs_at d p)"
  by (simp add: outputs_at_def)

lemma set_add_new [simp]: "set (add_new xs x) = insert x (set xs)"
  by (auto simp: add_new_def)

lemma set_foldl_add_new [simp]: "set (foldl add_new acc xs) = set acc \<union> set xs"
  by (induction xs arbitrary: acc) auto

lemma distinct_foldl_add_new: "distinct acc \<Longrightarrow> distinct (foldl add_new acc xs)"
  by (induction xs arbitrary: acc) (auto simp: add_new_def)

lemma tree_ok_kids: "tree_ok t \<longleftrightarrow> dict_ok (kids t) \<and> (\<forall>(c, u)\<in>set (kids t). tree_ok u)"
  by (cases t) simp

lemma set_dict_set_sub: "set (dict_set k v d) \<subseteq> insert (k, v) (set d)"
  by (induction k v d rule: dict_set.induct) auto

lemma tree_ok_child: "tree_ok t \<Longrightarrow> (c, u) \<in> set (kids t) \<Longrightarrow> tree_ok u"
  by (cases t) auto

lemma tree_ok_grow: "tree_ok t \<Longrightarrow> tree_ok (grow s t)"
proof (induction s arbitrary: t)
  case (Cons c s)
  define u where "u = (case dict_get (kids t) c of None \<Rightarrow> Node [] | Some u \<Rightarrow> u)"
  have "tree_ok u"
    using tree_ok_child [OF Cons.prems, of c] map_of_SomeD [of "kids t" c]
    by (auto simp: u_def dict_ok_def split: option.split)
  then have u: "tree_ok (grow s u)" by (rule Cons.IH)
  have "tree_ok v" if "(c', v) \<in> set (dict_set c (grow s u) (kids t))" for c' v
    using subsetD [OF set_dict_set_sub that] u tree_ok_child [OF Cons.prems] by blast
  moreover have "dict_ok (dict_set c (grow s u) (kids t))"
    using Cons.prems tree_ok_kids [of t] by (blast intro: dict_ok_set)
  ultimately show ?case unfolding grow.simps u_def [symmetric] tree_ok.simps by blast
qed simp

lemma subtree_grow_old: "subtree t p \<noteq> None \<Longrightarrow> subtree (grow s t) p \<noteq> None"
proof (induction s arbitrary: t p)
  case (Cons c s)
  then show ?case by (cases p) (auto split: option.splits)
qed simp

lemma subtree_grow_new: "subtree (grow s t) s \<noteq> None"
  by (induction s arbitrary: t) auto

lemma registered_set: "registered (dict_set p (add_new (outputs_at d p) x) d) = insert x (registered d)"
  by (auto simp: registered_def split: if_splits)

lemma add_pattern_ok:
  "matcher_ok m \<Longrightarrow> matcher_ok (add_pattern x m)"
  "registered (mt_outputs (add_pattern x m)) = insert x (registered (mt_outputs m))"
proof -
  assume m: "matcher_ok m"
  have "subtree (grow (lower x) (mt_root m)) p \<noteq> None" if "p = lower x \<or> outputs_at (mt_outputs m) p \<noteq> []" for p
    using that m subtree_grow_new [of "lower x" "mt_root m"] subtree_grow_old [of "mt_root m" p "lower x"]
    unfolding matcher_ok_def by blast
  then show "matcher_ok (add_pattern x m)"
    using m by (simp add: matcher_ok_def add_pattern_def Let_def tree_ok_grow)
qed (simp add: add_pattern_def Let_def registered_set)

lemma add_patterns_ok:
  "matcher_ok m \<Longrightarrow> matcher_ok (foldl (\<lambda>m p. add_pattern p m) m ps) \<and>
     registered (mt_outputs (foldl (\<lambda>m p. add_pattern p m) m ps)) = registered (mt_outputs m) \<union> set ps"
  by (induction ps arbitrary: m) (auto simp: add_pattern_ok)

lemma new_matcher_ok: "matcher_ok new_matcher" "registered (mt_outputs new_matcher) = {}"
  by (simp_all add: matcher_ok_def new_matcher_def outputs_at_def registered_def dict_ok_def)

subsection \<open>The enumeration\<close>

lemma collect_sub: "set (collect d st acc) \<subseteq> set acc \<union> registered d"
  by (induction d st acc rule: collect.induct) (auto simp: registered_def)

lemma collect_acc: "set acc \<subseteq> set (collect d st acc)"
  by (induction d st acc rule: collect.induct) auto

lemma collect_distinct: "distinct acc \<Longrightarrow> distinct (collect d st acc)"
  by (induction d st acc rule: collect.induct) (auto simp: distinct_foldl_add_new)

lemma collect_sup:
  "(p, t) \<in> set st \<Longrightarrow> subtree t q \<noteq> None \<Longrightarrow> set (outputs_at d (p @ q)) \<subseteq> set (collect d st acc)"
proof (induction d st acc arbitrary: p t q rule: collect.induct)
  case (2 d n st acc)
  show ?case
  proof (cases "(p, t) = n")
    case False
    then have "(p, t) \<in> set (rev (children_of n) @ st)" using "2.prems"(1) by auto
    then show ?thesis using "2.IH" "2.prems"(2) by simp
  next
    case True
    then show ?thesis
    proof (cases q)
      case Nil
      then have "set (outputs_at d (p @ q)) \<subseteq> set (foldl add_new acc (outputs_at d (fst n)))" using True by auto
      then show ?thesis
        using collect_acc [of "foldl add_new acc (outputs_at d (fst n))" d "rev (children_of n) @ st"]
        unfolding collect.simps by (rule subset_trans)
    next
      case (Cons c s)
      then obtain u where u: "dict_get (kids t) c = Some u" "subtree u s \<noteq> None"
        using "2.prems"(2) by (auto split: option.splits)
      then have "(p @ [c], u) \<in> set (rev (children_of n) @ st)"
        using map_of_SomeD [OF u(1)] True by (force simp: children_of_def)
      from "2.IH" [OF this u(2)] show ?thesis using Cons by simp
    qed
  qed
qed simp

lemma all_patterns_registered:
  assumes "matcher_ok m"
  shows "distinct (all_patterns m) \<and> set (all_patterns m) = registered (mt_outputs m)"
proof -
  have "set (outputs_at (mt_outputs m) p) \<subseteq> set (all_patterns m)" for p
  proof (cases "outputs_at (mt_outputs m) p = []")
    case False
    then have "subtree (mt_root m) p \<noteq> None" using assms by (simp add: matcher_ok_def)
    from collect_sup [of "[]" "mt_root m" "[([], mt_root m)]", OF _ this] show ?thesis by (simp add: all_patterns_def)
  qed simp
  then have "registered (mt_outputs m) \<subseteq> set (all_patterns m)" unfolding registered_def by blast
  moreover have "set (all_patterns m) \<subseteq> registered (mt_outputs m)"
    using collect_sub [of "mt_outputs m" "[([], mt_root m)]" "[]"] unfolding all_patterns_def by simp
  moreover have "distinct (all_patterns m)" unfolding all_patterns_def by (rule collect_distinct) simp
  ultimately show ?thesis by blast
qed

subsection \<open>The failure links\<close>

definition links_ok :: "ac_node \<Rightarrow> string set \<Rightarrow> links \<Rightarrow> bool" where
  "links_ok trie xs l \<longleftrightarrow>
     (\<forall>p q. dict_get (fst l) p = Some q \<longrightarrow> length q < length p) \<and>
     (\<forall>p. outputs_at (snd l) p \<noteq> [] \<longrightarrow> subtree trie p \<noteq> None) \<and> registered (snd l) = xs"

lemma fall_ends:
  assumes "\<forall>p q. dict_get fails p = Some q \<longrightarrow> length q < length p"
  shows "\<exists>r. fall trie fails c st = Some r \<and>
    (\<forall>q. r = Some q \<longrightarrow> (\<exists>p. st = Some p \<and> length q \<le> length p))"
proof (induction "case st of None \<Rightarrow> 0 | Some p \<Rightarrow> Suc (length p)" arbitrary: st rule: less_induct)
  case less
  show ?case
  proof (cases st)
    case None
    then show ?thesis by (simp add: fall.simps)
  next
    case (Some p)
    show ?thesis
    proof (cases "has_child trie p c")
      case True
      then show ?thesis using Some by (simp add: fall.simps)
    next
      case False
      have "(case dict_get fails p of None \<Rightarrow> 0 | Some q \<Rightarrow> Suc (length q)) < (case st of None \<Rightarrow> 0 | Some p \<Rightarrow> Suc (length p))"
        using assms Some by (auto split: option.split)
      from less.hyps [OF this] obtain r where r: "fall trie fails c (dict_get fails p) = Some r"
        "\<forall>q. r = Some q \<longrightarrow> (\<exists>p'. dict_get fails p = Some p' \<and> length q \<le> length p')" by blast
      have "length q \<le> length p" if rq: "r = Some q" for q
      proof -
        obtain p' where "dict_get fails p = Some p'" "length q \<le> length p'" using r(2) rq by blast
        moreover from this(1) have "length p' < length p" using assms by blast
        ultimately show ?thesis by simp
      qed
      moreover have "fall trie fails c st = Some r"
        by (subst fall.simps) (simp add: Some False r(1))
      ultimately show ?thesis using Some by blast
    qed
  qed
qed

lemma link_child_ok:
  assumes l: "links_ok trie xs l" and child: "subtree trie (path @ [c]) \<noteq> None"
  shows "\<exists>l'. link_child trie path c l = Some l' \<and> links_ok trie xs l'"
proof -
  have short: "\<forall>p q. dict_get (fst l) p = Some q \<longrightarrow> length q < length p" using l by (simp add: links_ok_def)
  obtain st where st: "fall trie (fst l) c (dict_get (fst l) path) = Some st"
    "\<forall>q. st = Some q \<longrightarrow> (\<exists>p. dict_get (fst l) path = Some p \<and> length q \<le> length p)"
    using fall_ends [OF short] by blast
  define failure where "failure = (case st of None \<Rightarrow> [] | Some p \<Rightarrow> p @ [c])"
  have "length failure < length (path @ [c])"
    using st(2) short by (force simp: failure_def split: option.split)
  moreover have "registered (dict_set (path @ [c]) (foldl add_new (outputs_at (snd l) (path @ [c])) (outputs_at (snd l) failure)) (snd l)) =
      registered (snd l)"
    unfolding registered_def outputs_at_set by (auto split: if_splits)
  ultimately show ?thesis
    using l child by (simp add: link_child_def st(1) Let_def links_ok_def flip: failure_def)
qed

lemma link_children_ok:
  "links_ok trie xs l \<Longrightarrow> \<forall>c\<in>set cs. subtree trie (path @ [c]) \<noteq> None \<Longrightarrow>
     \<exists>l'. link_children trie path cs l = Some l' \<and> links_ok trie xs l'"
proof (induction cs arbitrary: l)
  case (Cons c cs)
  obtain l' where "link_child trie path c l = Some l'" "links_ok trie xs l'"
    using link_child_ok [OF Cons.prems(1), of path c] Cons.prems(2) by (meson list.set_intros(1))
  then show ?case using Cons.IH [of l'] Cons.prems(2) by simp
qed simp

lemma subtree_snoc: "subtree t p = Some u \<Longrightarrow> subtree t (p @ [c]) = dict_get (kids u) c"
proof (induction p arbitrary: t)
  case Nil
  then show ?case by (auto split: option.split)
qed (auto split: option.splits)

lemma subtree_ok: "tree_ok t \<Longrightarrow> subtree t p = Some u \<Longrightarrow> tree_ok u"
proof (induction p arbitrary: t)
  case (Cons c p)
  then show ?case using tree_ok_child [OF Cons.prems(1)] by (auto split: option.splits dest: map_of_SomeD)
qed simp

definition in_trie :: "ac_node \<Rightarrow> string \<times> ac_node \<Rightarrow> bool" where
  "in_trie trie n \<longleftrightarrow> subtree trie (fst n) = Some (snd n)"

lemma children_in_trie:
  assumes "tree_ok trie" "in_trie trie n"
  shows "\<forall>k\<in>set (children_of n). in_trie trie k" "\<forall>c\<in>set (map fst (kids (snd n))). subtree trie (fst n @ [c]) \<noteq> None"
proof -
  have n: "subtree trie (fst n) = Some (snd n)" using assms(2) by (simp add: in_trie_def)
  have ok: "dict_ok (kids (snd n))" using subtree_ok [OF assms(1) n] tree_ok_kids by blast
  have kid: "subtree trie (fst n @ [c]) = Some u" if "(c, u) \<in> set (kids (snd n))" for c u
    using subtree_snoc [OF n, of c] ok that by (simp add: dict_ok_def)
  show "\<forall>k\<in>set (children_of n). in_trie trie k" using kid by (auto simp: children_of_def in_trie_def)
  show "\<forall>c\<in>set (map fst (kids (snd n))). subtree trie (fst n @ [c]) \<noteq> None" using kid by auto
qed

lemma link_queue_ok:
  "tree_ok trie \<Longrightarrow> \<forall>n\<in>set q. in_trie trie n \<Longrightarrow> links_ok trie xs l \<Longrightarrow>
     \<exists>l'. link_queue trie q l = Some l' \<and> links_ok trie xs l'"
proof (induction trie q l rule: link_queue.induct)
  case (2 trie n q l)
  have n: "in_trie trie n" using "2.prems"(2) by simp
  note c = children_in_trie [OF "2.prems"(1) n]
  obtain l' where l': "link_children trie (fst n) (map fst (kids (snd n))) l = Some l'" "links_ok trie xs l'"
    using link_children_ok [OF "2.prems"(3) c(2)] by blast
  from "2.IH" [OF l'(1) "2.prems"(1) _ l'(2)] show ?case using l'(1) c(1) "2.prems"(2) by auto
qed simp

lemma build_failure_links_ok:
  assumes "matcher_ok m"
  shows "\<exists>m'. build_failure_links m = Some m' \<and> matcher_ok m' \<and> registered (mt_outputs m') = registered (mt_outputs m)"
proof -
  let ?first = "children_of ([], mt_root m)"
  let ?fails = "foldl (\<lambda>d (p, t). dict_set p [] d) (mt_failure m) ?first"
  have ok: "tree_ok (mt_root m)" using assms by (simp add: matcher_ok_def)
  have roots: "\<forall>n\<in>set ?first. in_trie (mt_root m) n"
    using children_in_trie(1) [OF ok, of "([], mt_root m)"] by (simp add: in_trie_def)
  have "\<forall>p q. dict_get (foldl (\<lambda>d (p, t). dict_set p [] d) d ns) p = Some q \<longrightarrow> length q < length p"
    if "\<forall>p q. dict_get d p = Some q \<longrightarrow> length q < length p" "\<forall>n\<in>set ns. fst n \<noteq> []" for d and ns :: "(string \<times> ac_node) list"
    using that
  proof (induction ns arbitrary: d)
    case (Cons n ns)
    obtain a t where n: "n = (a, t)" by fastforce
    have "\<forall>p q. dict_get (dict_set a [] d) p = Some q \<longrightarrow> length q < length p" using Cons.prems n by auto
    from Cons.IH [OF this] show ?case using Cons.prems(2) n by simp
  qed simp
  moreover have "\<forall>n\<in>set ?first. fst n \<noteq> []" by (auto simp: children_of_def)
  ultimately have "links_ok (mt_root m) (registered (mt_outputs m)) (?fails, mt_outputs m)"
    using assms by (auto simp: links_ok_def matcher_ok_def)
  from link_queue_ok [OF ok roots this] obtain l where
    "link_queue (mt_root m) ?first (?fails, mt_outputs m) = Some l"
    "links_ok (mt_root m) (registered (mt_outputs m)) l" by blast
  then show ?thesis using ok by (auto simp: build_failure_links_def links_ok_def matcher_ok_def)
qed

lemma automaton_patterns:
  "\<exists>m. build_failure_links (foldl (\<lambda>m p. add_pattern p m) new_matcher ps) = Some m \<and>
     distinct (all_patterns m) \<and> set (all_patterns m) = set ps"
proof -
  let ?m = "foldl (\<lambda>m p. add_pattern p m) new_matcher ps"
  have "matcher_ok ?m" "registered (mt_outputs ?m) = set ps"
    using add_patterns_ok [OF new_matcher_ok(1), of ps] new_matcher_ok(2) by simp_all
  then obtain m where "build_failure_links ?m = Some m" "matcher_ok m" "registered (mt_outputs m) = set ps"
    using build_failure_links_ok [of ?m] by auto
  then show ?thesis using all_patterns_registered [of m] by auto
qed

text \<open>
  Building the automaton ends, on every sequence of patterns, and what it then enumerates, and hands to
  the search, is each registered pattern exactly once, in the spelling it was registered in.
\<close>
theorem automaton_keeps_patterns:
  "\<exists>m. build_failure_links (foldl (\<lambda>m p. add_pattern p m) new_matcher ps) = Some m \<and>
     distinct (all_patterns m) \<and> set (all_patterns m) = set ps"
  by (rule automaton_patterns)

lemma hit_pairs: "(\<lambda>h. (signature h, position h)) ` {Match p pos | p pos. P p pos} = {(p, pos) | p pos. P p pos}"
proof -
  have "{Match p pos | p pos. P p pos} = (\<lambda>(p, pos). Match p pos) ` {(p, pos) | p pos. P p pos}" by auto
  then show ?thesis by (simp add: image_image case_prod_unfold)
qed

lemma image_pairs: "{(p, pos) | p pos. p \<in> f ` A \<and> P p pos} = {(f p, pos) | p pos. p \<in> A \<and> P (f p) pos}"
  by auto

text \<open>
  C36: Without a native core, a search of an encodable text reports exactly the registered patterns at the byte
  offsets where they occur, labelled with the engine that found them.
\<close>
theorem search_finds_registered:
  assumes "list_all is_scalar t" "t \<noteq> []" "ps \<noteq> []" "\<not> c_available nv" "\<not> rust_available nv"
  shows "\<exists>m hits m'. build_failure_links (foldl (\<lambda>m p. add_pattern p m) new_matcher ps) = Some m \<and>
    match_text nv t m = Inr (hits, m') \<and>
    (\<lambda>h. (ph_signature h, ph_position h)) ` set hits = {(ascii p, pos) | p pos. p \<in> set ps \<and> hit_at t (ascii p) pos} \<and>
    list_all (\<lambda>h. ph_engine h = ''python-fallback'') hits"
proof -
  obtain m where m: "build_failure_links (foldl (\<lambda>m p. add_pattern p m) new_matcher ps) = Some m"
    "set (all_patterns m) = set ps" using automaton_patterns [of ps] by blast
  have "all_patterns m \<noteq> []" using m(2) assms(3) by (metis set_empty)
  then have ne: "map ascii (all_patterns m) \<noteq> []" by simp
  obtain ms why where out: "match_signatures nv t (map ascii (all_patterns m)) None =
      Inr \<lparr>matches = ms, match_engine = ''python-fallback'', match_reason = why\<rparr>"
    "set ms = {Match p pos | p pos. p \<in> set (map ascii (all_patterns m)) \<and> hit_at t p pos}"
    using python_floor_complete [OF assms(1,2) ne assms(4,5)] by blast
  let ?hits = "map (\<lambda>h. \<lparr>ph_signature = signature h, ph_position = position h, ph_engine = ''python-fallback''\<rparr>) ms"
  have run: "match_text nv t m = Inr (?hits, m\<lparr>mt_reason := why\<rparr>)" by (simp add: match_text_def out(1))
  have "(\<lambda>h. (ph_signature h, ph_position h)) ` set ?hits = (\<lambda>h. (signature h, position h)) ` set ms"
    by (simp add: image_image)
  also have "\<dots> = {(p, pos) | p pos. p \<in> ascii ` set (all_patterns m) \<and> hit_at t p pos}"
    unfolding out(2) set_map by (rule hit_pairs)
  also have "\<dots> = {(ascii p, pos) | p pos. p \<in> set ps \<and> hit_at t (ascii p) pos}" unfolding m(2) by (rule image_pairs)
  finally have found: "(\<lambda>h. (ph_signature h, ph_position h)) ` set ?hits =
      {(ascii p, pos) | p pos. p \<in> set ps \<and> hit_at t (ascii p) pos}" .
  have "list_all (\<lambda>h. ph_engine h = ''python-fallback'') ?hits" by (simp add: list_all_iff)
  with m(1) run found show ?thesis by (intro exI conjI)
qed

theorem search_finds_registered_witness:
  "\<exists>m hits m'. build_failure_links (foldl (\<lambda>m p. add_pattern p m) new_matcher [''nginx'']) = Some m \<and>
    match_text no_cores [78, 71, 73, 78, 88] m = Inr (hits, m') \<and>
    (\<lambda>h. (ph_signature h, ph_position h)) ` set hits =
      {(ascii p, pos) | p pos. p \<in> set [''nginx''] \<and> hit_at [78, 71, 73, 78, 88] (ascii p) pos} \<and>
    list_all (\<lambda>h. ph_engine h = ''python-fallback'') hits"
proof -
  have "list_all is_scalar [78, 71, 73, 78, 88]" by (simp add: is_scalar_def is_surrogate_def)
  moreover have "[78, 71, 73, 78, 88 :: nat] \<noteq> []" "[''nginx''] \<noteq> []" by simp_all
  moreover have "\<not> c_available no_cores" "\<not> rust_available no_cores" by (simp_all add: no_cores_def)
  ultimately show ?thesis by (rule search_finds_registered [of "[78, 71, 73, 78, 88]" "[''nginx'']" no_cores])
qed

text \<open>
  A signature file with one value that is no string is reported as loading nothing, while the patterns
  before that value are registered and will be reported by later searches.
\<close>

definition mixed_signatures :: string where
  "mixed_signatures = CHR ''{'' # [dq_char] @ ''a'' @ [dq_char] @ '': '' @ [dq_char] @ ''openssh'' @ [dq_char] @ '', '' @
     [dq_char] @ ''b'' @ [dq_char] @ '': 7}''"

theorem partial_load_unreported:
  "\<exists>m. load_pattern_file (Some (Inr mixed_signatures)) new_matcher = Some (Inr (0, m)) \<and> all_patterns m = [''openssh'']"
proof -
  have j: "json_loads mixed_signatures = Inr (PDict [(''a'', PStr ''openssh''), (''b'', PInt 7)])" by code_simp
  have "load_pattern_file (Some (Inr mixed_signatures)) new_matcher =
      Some (Inr (0, (add_pattern ''openssh'' new_matcher)\<lparr>mt_names := [(''a'', ''openssh'')]\<rparr>))"
    by (simp add: load_pattern_file_def j Let_def) (simp add: add_pattern_def new_matcher_def Let_def)
  moreover have "all_patterns ((add_pattern ''openssh'' new_matcher)\<lparr>mt_names := [(''a'', ''openssh'')]\<rparr>) = [''openssh'']"
    by code_simp
  ultimately show ?thesis by blast
qed

end
