(* ===== verification/Cli.thy ===== *)
theory Cli
  imports ModuleRegistry AsyncRecon Reports
begin

text \<open>
  \<open>cli/main.py\<close>, the commands of the command line, and the two rules of \<open>engine/plugins/__init__.py\<close>. A
  command gives its exit status, the lines it prints and what it started: a campaign and its steps, a port scan,
  a banner reconnaissance, an asset walk or the daemon. None means that the command never returns. Parsing the
  argument vector is \<open>argparse\<close>: the parsed arguments are the input.
\<close>

section \<open>The rule plugins\<close>

definition critical_ports :: "(string, string) dict" where
  "critical_ports = [(''22'', ''ssh''), (''3389'', ''rdp''), (''443'', ''https''), (''3306'', ''mysql'')]"

definition open_high_value_port :: rule where
  "open_high_value_port =
     mk_rule ''critical_port_open'' (65 / 100)
       (\<lambda>f. Inr (py_format (dget f ''port'') \<in> set (dict_keys critical_ports) \<or>
          lower (py_format (dget_or f ''service'' (PStr []))) \<in> snd ` set critical_ports))
       ''Critical port open - flagged for deep inspection.''"

text \<open>Upper case of what is not ASCII cannot make or break one of the words.\<close>

definition web_presence :: rule where
  "web_presence =
     mk_rule ''web_surface'' (5 / 10)
       (\<lambda>f. Inr (list_ex (\<lambda>k. contains k (map ascii_upper (py_format (dget_or f ''service'' (PStr [])))))
          [''HTTP'', ''HTTPS'', ''8080'']))
       ''Web interface available for application reconnaissance.''"

definition plugin_registry :: "(string \<times> (exc + rule)) list" where
  "plugin_registry =
     [(''helios_critical_port'', Inr open_high_value_port), (''helios_web_surface'', Inr web_presence)]"

section \<open>Arguments, surroundings and results\<close>

record cli_args =
  ca_scope :: "string option"
  ca_target :: string
  ca_campaign :: string
  ca_ct :: bool
  ca_ports :: "string option"
  ca_seeds :: "string option"
  ca_web_ports :: "string option"
  ca_depth :: int
  ca_max_hosts :: int
  ca_max_requests :: int
  ca_deep :: bool
  ca_format :: string
  ca_data :: string

text \<open>
  \<open>ce_recon\<close> is the adaptive reconnaissance of a host: its rows, or None when its pool never joins.
  \<open>ce_modules\<close> is what discovering the plugin folder came to; \<open>ce_interrupt\<close> says whether the operator
  interrupts the daemon.
\<close>

record cli_env =
  ce_read :: "string \<Rightarrow> exc + string"
  ce_default_scope :: string
  ce_variable :: "string option"
  ce_host :: host
  ce_files :: files
  ce_registry :: "scope_enforcer \<Rightarrow> (string, runner) dict"
  ce_runner :: runner_env
  ce_recon :: "string \<Rightarrow> int list \<Rightarrow> adaptive_row list option"
  ce_modules :: "(exc + unit) \<times> module_state"
  ce_interrupt :: bool

datatype activity =
    Ran_campaign string
  | Ran_step plan_step
  | Ran_unplanned pydict
  | Ran_scan plan_step "int list"
  | Ran_recon string "int list"
  | Ran_assets string "int list"
  | Ran_daemon string

record outcome =
  co_exit :: "exc + int"
  co_lines :: "string list"
  co_did :: "activity list"

definition finish :: "exc + int \<Rightarrow> string list \<Rightarrow> activity list \<Rightarrow> outcome" where
  "finish r ls did = \<lparr>co_exit = r, co_lines = ls, co_did = did\<rparr>"

text \<open>The exceptions that end a command with a refusal; every other one leaves the command.\<close>

definition refused :: "exc \<Rightarrow> outcome" where
  "refused e =
     (if is_scope_error e then finish (Inr 2) [''[HELIOS] refused: '' @ exc_message e] []
      else finish (Inl e) [] [])"

definition load_scope :: "cli_env \<Rightarrow> string option \<Rightarrow> exc + scope_enforcer" where
  "load_scope env path = from_config (ce_read env) (ce_default_scope env) (ce_variable env) path"

definition no_scope :: scope_enforcer where
  "no_scope = \<lparr>networks = [], allowed_domains = [], allowed_ports = [], scope_source = []\<rparr>"

definition build_orchestrator :: "cli_env \<Rightarrow> scope_enforcer option \<Rightarrow> orch" where
  "build_orchestrator env scope =
     (let sc = (case scope of None \<Rightarrow> no_scope | Some s \<Rightarrow> s)
      in \<lparr>orch_journal = [], orch_scope = sc, orch_registry = ce_registry env sc, orch_workers = 8, orch_counter = 0,
          orch_context = \<lparr>ctx_findings = [], ctx_reports = [],
            ctx_extra = [(''scope_ports'', PList (map PInt (allowed_ports sc)))], ctx_plan = []\<rparr>,
          orch_status = [], orch_clock = 0\<rparr>)"

definition meta_get :: "campaign \<Rightarrow> string \<Rightarrow> pyval \<Rightarrow> exc + pyval" where
  "meta_get st k v =
     (case meta st of PDict d \<Rightarrow> Inr (dget_or d k v) | _ \<Rightarrow> Inl (TypeError ''object has no attribute get''))"

section \<open>Campaigns\<close>

definition ct_intelligence :: "cli_args \<Rightarrow> pydict list" where
  "ct_intelligence a =
     (if ca_ct a then [[(''module'', PStr ''asset''), (''params'', PDict [(''ct'', PBool True)])]] else [])"

definition recon_lines :: "campaign \<Rightarrow> plan_step list \<Rightarrow> exc + string list" where
  "recon_lines st steps =
     bind_res (meta_get st ''findings_count'' (PInt 0)) (\<lambda>n. Inr
       [''[HELIOS] campaign '' @ campaign_id st @ '' -> '' @ py_format (status st),
        if steps = [] then ''(no plan)'' else to_json steps,
        ''[HELIOS] findings collected: '' @ py_format n])"

text \<open>
  What the orchestrator started, read off what it wrote: a campaign at its \<open>campaign_start\<close>, a module at each
  \<open>step_start\<close>, with the step of the plan that the entry describes.
\<close>

definition planned_steps :: "orch \<Rightarrow> string \<Rightarrow> pydict list \<Rightarrow> plan_step list" where
  "planned_steps orc tgt intelligence =
     (case plan (orch_counter orc) intelligence tgt of Inl _ \<Rightarrow> [] | Inr (_, steps) \<Rightarrow> steps)"

fun entry_activities :: "plan_step list \<Rightarrow> campaign + campaign \<times> log_item \<Rightarrow> activity list" where
  "entry_activities steps (Inl _) = []"
| "entry_activities steps (Inr (st, _, event, payload)) =
     (if event = ''campaign_start'' then [Ran_campaign (target st)]
      else if event = ''step_start''
      then [case find (\<lambda>s. step_payload s = payload) steps of None \<Rightarrow> Ran_unplanned payload | Some s \<Rightarrow> Ran_step s]
      else [])"

definition journal_activities :: "plan_step list \<Rightarrow> journal \<Rightarrow> activity list" where
  "journal_activities steps j = concat (map (entry_activities steps) j)"

text \<open>The command checks nothing itself: \<open>run_campaign\<close> does.\<close>

definition recon_campaign :: "cli_env \<Rightarrow> cli_args \<Rightarrow> scope_enforcer \<Rightarrow> outcome option" where
  "recon_campaign env a sc =
     (let orc = build_orchestrator env (Some sc);
          did = (\<lambda>orc'. journal_activities (planned_steps orc (ca_target a) (ct_intelligence a)) (orch_journal orc'))
      in case run_campaign (ce_host env) orc (ca_target a) (ct_intelligence a) of
          None \<Rightarrow> None
        | Some (Inl e, orc') \<Rightarrow> Some ((refused e)\<lparr>co_did := did orc'\<rparr>)
        | Some (Inr st, orc') \<Rightarrow>
            Some (case bind_res (report (apply_journal (ce_files env) (orch_journal orc')) st)
                    (\<lambda>_. recon_lines st (ctx_plan (orch_context orc'))) of
                Inl e \<Rightarrow> finish (Inl e) [] (did orc')
              | Inr ls \<Rightarrow> finish (Inr 0) ls (did orc')))"

definition cmd_recon :: "cli_env \<Rightarrow> cli_args \<Rightarrow> outcome option" where
  "cmd_recon env a =
     (case load_scope env (ca_scope a) of
        Inl e \<Rightarrow> Some (refused e)
      | Inr sc \<Rightarrow> recon_campaign env a sc)"

section \<open>Classification\<close>

definition DEFAULT_JUDGE_PORTS :: "int list" where
  "DEFAULT_JUDGE_PORTS = [22, 80, 443, 3306, 3389]"

definition or_default :: "int list \<Rightarrow> int list \<Rightarrow> int list" where
  "or_default ports default_ports = (if ports = [] then default_ports else ports)"

definition cli_step :: "string \<Rightarrow> string \<Rightarrow> string \<Rightarrow> pydict \<Rightarrow> plan_step" where
  "cli_step m verb tgt ps =
     \<lparr>step_id = 1, step_module = PStr m, action = PStr verb, step_target = tgt, priority = PInt 100,
      depends_on = [], params = ps, step_status = PStr ''pending''\<rparr>"

definition verdict_lines :: "verdict \<Rightarrow> string list" where
  "verdict_lines v =
     [''  '' @ py_format (dget (vd_finding v) ''host'') @ '':'' @ py_format (dget (vd_finding v) ''port'') @ '' <- '' @
        py_format (dget (vd_finding v) ''service''),
      ''    severity='' @ vs_severity (verdict_dict v) @ '' rules='' @ py_repr (PList (vd_hits v))]"

definition judge_rules :: "rule list" where
  "judge_rules = snd (load_plugins plugin_registry default_rules)"

definition outcome_field :: "pyval \<Rightarrow> string \<Rightarrow> exc + string" where
  "outcome_field v k =
     (case v of PDict d \<Rightarrow> bind_res (dindex d k) (\<lambda>x. Inr (py_format x)) | _ \<Rightarrow> Inl (TypeError ''not subscriptable''))"

definition cmd_judge :: "cli_env \<Rightarrow> cli_args \<Rightarrow> outcome option" where
  "cmd_judge env a =
     (case bind_res (load_scope env (ca_scope a)) (\<lambda>sc. bind_res (check sc (ca_target a)) (\<lambda>_. Inr sc)) of
        Inl e \<Rightarrow> Some (refused e)
      | Inr sc \<Rightarrow>
          (let step = cli_step ''discovery'' ''scan'' (ca_target a) [];
               ports = or_default (allowed_ports sc) DEFAULT_JUDGE_PORTS;
               ctx = \<lparr>ctx_findings = [], ctx_reports = [], ctx_extra = [(''scope_ports'', PList (map PInt ports))], ctx_plan = []\<rparr>;
               did = [Ran_scan step ports]
           in Some (case discovery_runner (ce_runner env) step ctx of
               (Inl e, _) \<Rightarrow> finish (Inl e) [] did
             | (Inr v, ctx') \<Rightarrow>
                 (case bind_res (judge_all judge_rules (filter (\<lambda>f. truthy (dget f ''open'')) (ctx_findings ctx'))) (\<lambda>vs.
                         bind_res (outcome_field v ''engine'') (\<lambda>eng. bind_res (outcome_field v ''count'') (\<lambda>n.
                           Inr (concat (map verdict_lines vs) @ [''[HELIOS] engine='' @ eng @ '' open='' @ n])))) of
                    Inl e \<Rightarrow> finish (Inl e) [] did
                  | Inr ls \<Rightarrow> finish (Inr 0) ls did))))"

section \<open>Banners\<close>

text \<open>\<open>[int(p) for p in raw.split(",") if p.strip()]\<close>.\<close>

definition parse_ports :: "string \<Rightarrow> exc + int list" where
  "parse_ports raw = map_res int_of_text (filter (\<lambda>p. strip p \<noteq> []) (split_char (CHR '','') raw))"

definition DEFAULT_PROBE_PORTS :: "int list" where
  "DEFAULT_PROBE_PORTS = [22, 80, 443]"

definition probe_ports :: "cli_args \<Rightarrow> scope_enforcer \<Rightarrow> exc + int list" where
  "probe_ports a sc =
     (case ca_ports a of
        Some raw \<Rightarrow> if raw = [] then Inr (or_default (allowed_ports sc) DEFAULT_PROBE_PORTS) else parse_ports raw
      | None \<Rightarrow> Inr (or_default (allowed_ports sc) DEFAULT_PROBE_PORTS))"

definition probe_line :: "adaptive_row \<Rightarrow> exc + string" where
  "probe_line r =
     bind_res (latin_text (take 120 (pb_banner r))) (\<lambda>b.
       Inr (''  '' @ pb_host r @ '':'' @ show_int (pb_port r) @ ''  '' @ repr_str b))"

definition cmd_probe :: "cli_env \<Rightarrow> cli_args \<Rightarrow> outcome option" where
  "cmd_probe env a =
     (case bind_res (load_scope env (ca_scope a)) (\<lambda>sc. bind_res (check sc (ca_target a)) (\<lambda>_. Inr sc)) of
        Inl e \<Rightarrow> Some (refused e)
      | Inr sc \<Rightarrow>
          (case probe_ports a sc of
             Inl e \<Rightarrow> Some (finish (Inl e) [] [])
           | Inr ports \<Rightarrow>
               (case check_ports sc ports of
                  Inl e \<Rightarrow> Some (refused e)
                | Inr _ \<Rightarrow>
                    (case ce_recon env (ca_target a) ports of
                       None \<Rightarrow> None
                     | Some rows \<Rightarrow>
                         Some (case map_res probe_line (filter pb_open rows) of
                             Inl e \<Rightarrow> finish (Inl e) [] [Ran_recon (ca_target a) ports]
                           | Inr ls \<Rightarrow> finish (Inr 0)
                               (ls @ [''[HELIOS] probed '' @ show_nat (length rows) @ '' port(s) via adaptive engine''])
                               [Ran_recon (ca_target a) ports])))))"

section \<open>Assets\<close>

definition parse_port_list :: "string option \<Rightarrow> exc + int list option" where
  "parse_port_list raw =
     (case raw of None \<Rightarrow> Inr None | Some r \<Rightarrow> if r = [] then Inr None else map_sum id Some (parse_ports r))"

definition asset_params :: "cli_args \<Rightarrow> int list option \<Rightarrow> pydict" where
  "asset_params a wports =
     [(''ct'', PBool (ca_ct a)), (''depth'', PInt (ca_depth a)), (''max_hosts'', PInt (ca_max_hosts a)),
      (''max_requests'', PInt (ca_max_requests a)), (''deep'', PBool (ca_deep a))] @
     (case wports of None \<Rightarrow> [] | Some ps \<Rightarrow> if ps = [] then [] else [(''web_ports'', PList (map PInt ps))]) @
     (case ca_seeds a of
        None \<Rightarrow> []
      | Some raw \<Rightarrow> if raw = [] then [] else
          [(''seeds'', PList (map PStr (filter (\<lambda>s. s \<noteq> []) (map strip (split_char (CHR '','') raw)))))])"

definition asset_line :: "pydict \<Rightarrow> exc + string" where
  "asset_line f =
     bind_res (dindex f ''host'') (\<lambda>h. bind_res (dindex f ''ip'') (\<lambda>ip. bind_res (dindex f ''port'') (\<lambda>p. Inr
       (rstrip (''  '' @ py_format h @ '' -> '' @ py_format ip @ '':'' @ py_format p @ '' ['' @
          py_format (dget_or f ''status'' (PStr ''?'')) @ ''] '' @ py_format (dget_or f ''title'' (PStr [])) @
          (if truthy (dget f ''vhost'') then '' vhost'' else []))))))"

definition blocked_line :: "pyval \<Rightarrow> exc + string" where
  "blocked_line v =
     (case v of
        PDict d \<Rightarrow> bind_res (dindex d ''host'') (\<lambda>h. bind_res (dindex d ''reason'') (\<lambda>r.
          Inr (''  blocked '' @ py_format h @ '': '' @ py_format r)))
      | _ \<Rightarrow> Inl (TypeError ''not subscriptable''))"

definition list_field :: "pydict \<Rightarrow> string \<Rightarrow> exc + pyval list" where
  "list_field d k = (case dget_or d k (PList []) of PList vs \<Rightarrow> Inr vs | _ \<Rightarrow> Inl OutOfModel)"

definition asset_lines :: "pydict list \<Rightarrow> pyval \<Rightarrow> bool \<Rightarrow> exc + int \<times> string list" where
  "asset_lines fs summary ct =
     (case summary of
        PDict d \<Rightarrow>
          bind_res (map_res asset_line fs) (\<lambda>ls. bind_res (bind_res (list_field d ''blocked'') (map_res blocked_line)) (\<lambda>bs.
          bind_res (list_field d ''hosts'') (\<lambda>hs. Inr
            (if truthy (dget d ''error'') then 2 else 0,
             ls @ bs @ [''[HELIOS] hosts='' @ show_nat (length hs) @ '' assets='' @ py_format (dget_or d ''assets'' (PInt 0)) @
               '' requests='' @ py_format (dget_or d ''requests'' (PInt 0)) @ '' ct='' @ py_format (PBool ct)]))))
      | _ \<Rightarrow> Inl (TypeError ''object has no attribute get''))"

definition cmd_assets :: "cli_env \<Rightarrow> cli_args \<Rightarrow> outcome option" where
  "cmd_assets env a =
     (case bind_res (load_scope env (ca_scope a)) (\<lambda>sc. bind_res (check sc (ca_target a)) (\<lambda>_. Inr sc)) of
        Inl e \<Rightarrow> Some (refused e)
      | Inr sc \<Rightarrow>
          (case parse_port_list (ca_web_ports a) of
             Inl e \<Rightarrow> Some (finish (Inl e) [] [])
           | Inr wports \<Rightarrow>
               (let given = (case wports of None \<Rightarrow> [] | Some ps \<Rightarrow> ps)
                in case (if given = [] then Inr () else check_ports sc given) of
                    Inl e \<Rightarrow> Some (refused e)
                  | Inr _ \<Rightarrow>
                      (let step = cli_step ''asset'' ''discover'' (ca_target a) (asset_params a wports);
                           ctx = \<lparr>ctx_findings = [], ctx_reports = [],
                             ctx_extra = [(''scope_ports'', PList (map PInt (allowed_ports sc)))], ctx_plan = []\<rparr>;
                           did = [Ran_assets (ca_target a) given]
                       in Some (case asset_runner (ce_runner env) (Some sc) step ctx of
                           (Inl e, _) \<Rightarrow> finish (Inl e) [] did
                         | (Inr summary, ctx') \<Rightarrow>
                             (case asset_lines (ctx_findings ctx') summary (ca_ct a) of
                                Inl e \<Rightarrow> finish (Inl e) [] did
                              | Inr (code, ls) \<Rightarrow> finish (Inr code) ls did))))))"

section \<open>Stored campaigns\<close>

definition cmd_recover :: "cli_env \<Rightarrow> cli_args \<Rightarrow> outcome option" where
  "cmd_recover env a = Some
     (let h = ce_host env
      in case recover h (ce_files env) (ca_campaign a) (build_orchestrator env None) of
          Inl (FileNotFoundError m) \<Rightarrow> finish (Inr 1) [''[HELIOS] '' @ m] []
        | Inl e \<Rightarrow> finish (Inl e) [] []
        | Inr (st, orc) \<Rightarrow>
            (case bind_res (report (apply_journal (ce_files env) (orch_journal orc)) st)
                    (\<lambda>_. meta_get st ''findings_count'' (PInt 0)) of
               Inl e \<Rightarrow> finish (Inl e) [] []
             | Inr n \<Rightarrow> finish (Inr 0)
                 [''[HELIOS] recovered '' @ campaign_id st @ '': '' @ py_format (status st),
                  ''  target='' @ target st @ '' findings='' @ py_format n] []))"

text \<open>\<open>sorted(..., key=created_at, reverse=True)\<close>, for numbers.\<close>

definition created_number :: "campaign \<Rightarrow> rat" where
  "created_number st = (case num_of (created_at st) of None \<Rightarrow> 0 | Some q \<Rightarrow> q)"

definition newest_first :: "campaign list \<Rightarrow> exc + campaign list" where
  "newest_first sts =
     (if length sts \<le> 1 then Inr sts
      else if list_all (\<lambda>s. num_of (created_at s) \<noteq> None) sts then Inr (sort_key (\<lambda>s. - created_number s) sts)
      else Inl OutOfModel)"

definition pad_status :: "pyval \<Rightarrow> exc + string" where
  "pad_status v =
     (case v of PStr s \<Rightarrow> Inr (s @ replicate (9 - length s) (CHR '' ''))
      | PInt _ \<Rightarrow> Inl (ValueError ''unknown format code'') | PBool _ \<Rightarrow> Inl (ValueError ''unknown format code'')
      | PFloat _ _ \<Rightarrow> Inl (ValueError ''unknown format code'')
      | _ \<Rightarrow> Inl (TypeError ''unsupported format string''))"

definition status_line :: "campaign \<Rightarrow> exc + string" where
  "status_line st =
     bind_res (pad_status (status st)) (\<lambda>s. bind_res (meta_get st ''findings_count'' (PInt 0)) (\<lambda>n. Inr
       (''  '' @ campaign_id st @ '' '' @ s @ '' target='' @ target st @ '' findings='' @ py_format n)))"

definition stored :: "cli_env \<Rightarrow> exc + campaign list" where
  "stored env = load_all (now_at (host_env (ce_host env)) 0) (host_fresh (ce_host env)) (ce_files env)"

definition cmd_status :: "cli_env \<Rightarrow> cli_args \<Rightarrow> outcome option" where
  "cmd_status env a = Some
     (case bind_res (stored env) (\<lambda>sts.
             if sts = [] then Inr [''[HELIOS] no campaigns recorded.'']
             else bind_res (newest_first sts) (map_res status_line)) of
        Inl e \<Rightarrow> finish (Inl e) [] [] | Inr ls \<Rightarrow> finish (Inr 0) ls [])"

definition rule_line :: "char \<Rightarrow> string" where
  "rule_line c = replicate 64 c"

definition dashboard_lines :: "campaign \<Rightarrow> exc + string list" where
  "dashboard_lines st =
     bind_res (upper_text (status st)) (\<lambda>s. bind_res (meta_get st ''findings_count'' (PInt 0)) (\<lambda>n. Inr
       ['' [ID]     '' @ campaign_id st, '' Target   : '' @ target st, '' Status   : '' @ s,
        '' Findings : '' @ py_format n, rule_line (CHR ''-'')]))"

definition cmd_dashboard :: "cli_env \<Rightarrow> cli_args \<Rightarrow> outcome option" where
  "cmd_dashboard env a = Some
     (case bind_res (stored env) (\<lambda>sts.
             bind_res (if sts = []
                       then Inr [[''(No campaigns recorded yet. Run `python run.py recon --target <ip>` first)'']]
                       else bind_res (newest_first sts) (map_res dashboard_lines)) (\<lambda>body. Inr
               ([rule_line (CHR ''=''), ''           HELIOS-NET :: EXECUTIVE SECURITY DASHBOARD           '',
                 rule_line (CHR ''=''), '' Data Directory : '' @ ca_data a, '' Total Campaigns: '' @ show_nat (length sts),
                 rule_line (CHR ''-'')] @ concat body @ [rule_line (CHR ''='')]))) of
        Inl e \<Rightarrow> finish (Inl e) [] [] | Inr ls \<Rightarrow> finish (Inr 0) ls [])"

section \<open>Export\<close>

text \<open>A field of a CSV row: quoted when it holds a separator, a quote or a line end.\<close>

definition csv_special :: "char \<Rightarrow> bool" where
  "csv_special c \<longleftrightarrow> c = CHR '','' \<or> c = dq_char \<or> c = cr_char \<or> c = lf_char"

definition csv_field :: "string \<Rightarrow> string" where
  "csv_field s =
     (if list_ex csv_special s
      then dq_char # concat (map (\<lambda>c. if c = dq_char then [dq_char, dq_char] else [c]) s) @ [dq_char] else s)"

definition csv_row :: "string list \<Rightarrow> string" where
  "csv_row cells = join_str '','' (map csv_field cells) @ [cr_char, lf_char]"

definition CSV_COLUMNS :: "string list" where
  "CSV_COLUMNS = [''host'', ''port'', ''service'', ''open'', ''banner'', ''latency_ms'']"

definition csv_text :: "pyval \<Rightarrow> string" where
  "csv_text v = (case v of PNone \<Rightarrow> [] | _ \<Rightarrow> py_format v)"

definition csv_finding :: "pyval \<Rightarrow> exc + string" where
  "csv_finding v = bind_res (as_dict v) (\<lambda>f. Inr (csv_row (map (\<lambda>k. csv_text (dget f k)) CSV_COLUMNS)))"

definition sarif_result :: "pyval \<Rightarrow> exc + pyval" where
  "sarif_result v =
     bind_res (as_dict v) (\<lambda>f. Inr (PDict
       [(''ruleId'', dget_or f ''service'' (PStr ''open_port'')),
        (''message'', PDict [(''text'', PStr (''Open port '' @ py_format (dget f ''port'') @ '' running '' @
           py_format (dget f ''service'')))]),
        (''locations'', PList [PDict [(''physicalLocation'', PDict [(''artifactLocation'',
           PDict [(''uri'', PStr (py_format (dget f ''host'')))])])]])]))"

definition sarif_log :: "pyval list \<Rightarrow> pyval" where
  "sarif_log results = PDict
     [(''$schema'', PStr ''https://schemastore.azurewebsites.net/schemas/json/sarif-2.1.0-rtm.5.json''),
      (''version'', PStr ''2.1.0''),
      (''runs'', PList [PDict
         [(''tool'', PDict [(''driver'', PDict [(''name'', PStr ''HELIOS-NET''), (''version'', PStr ''3.0.0'')])]),
          (''results'', PList results)]])]"

definition export_text :: "string \<Rightarrow> campaign \<Rightarrow> exc + string option" where
  "export_text fmt st =
     bind_res (meta_get st ''findings'' (PList [])) (\<lambda>findings.
       if fmt = ''json'' then Inr (Some (json_dumps False (Some 2) (to_dict st)))
       else if fmt = ''csv''
       then bind_res (bind_res (iterate findings) (map_res csv_finding)) (\<lambda>rows. Inr (Some (concat (csv_row CSV_COLUMNS # rows))))
       else if fmt = ''sarif''
       then bind_res (bind_res (iterate findings) (map_res sarif_result)) (\<lambda>rs.
         Inr (Some (json_dumps False (Some 2) (sarif_log rs))))
       else Inr None)"

definition cmd_export :: "cli_env \<Rightarrow> cli_args \<Rightarrow> outcome option" where
  "cmd_export env a = Some
     (case load (now_at (host_env (ce_host env)) 0) (host_fresh (ce_host env)) (ce_files env) (ca_campaign a) of
        Inl (FileNotFoundError m) \<Rightarrow> finish (Inr 1) [''[HELIOS] campaign '' @ ca_campaign a @ '' not found.''] []
      | Inl e \<Rightarrow> finish (Inl e) [] []
      | Inr st \<Rightarrow>
          (case export_text (lower (ca_format a)) st of
             Inl e \<Rightarrow> finish (Inl e) [] []
           | Inr None \<Rightarrow> finish (Inr 1)
               [''[HELIOS] unknown export format: '' @ lower (ca_format a) @ ''. Use json, csv, or sarif.''] []
           | Inr (Some txt) \<Rightarrow> finish (Inr 0) [txt] []))"

section \<open>The inventory, the daemon and the dispatch\<close>

definition info_payload :: "module_state \<Rightarrow> pyval" where
  "info_payload ms = PDict
     [(''algorithms'', PDict (map (\<lambda>(k, ns). (k, PList (map PStr ns))) (list_algos balancers None @ list_algos estimators None))),
      (''modules'', PList (map (\<lambda>sp. PDict [(''name'', PStr (sp_name sp)), (''kind'', PStr (sp_kind sp))]) (list_modules ms None))),
      (''rule_plugins'', PList (map PStr (sort (dict_keys plugin_registry)))),
      (''core_rules'', PList (map PStr (sort (map (\<lambda>r. py_format (rule_name r)) default_rules))))]"

definition cmd_info :: "cli_env \<Rightarrow> cli_args \<Rightarrow> outcome option" where
  "cmd_info env a = Some
     (case ce_modules env of (found, ms) \<Rightarrow>
        finish (Inr 0)
          ((case found of
              Inl e \<Rightarrow> [''[HELIOS] warning: plugin discovery failed ('' @ exc_message e @ ''); the module list below is incomplete.'']
            | Inr _ \<Rightarrow> []) @ [json_dumps False (Some 2) (info_payload ms)]) [])"

definition cmd_daemon :: "cli_env \<Rightarrow> cli_args \<Rightarrow> outcome option" where
  "cmd_daemon env a =
     (case bind_res (load_scope env (ca_scope a)) (\<lambda>sc. bind_res (check sc (ca_target a)) (\<lambda>_. Inr sc)) of
        Inl e \<Rightarrow> Some (refused e)
      | Inr _ \<Rightarrow>
          if ce_interrupt env
          then Some (finish (Inr 0)
            [''[DEMIURG-DAEMON] Activating autonomous agent for target: '' @ ca_target a,
             ''[DEMIURG-DAEMON] Press Ctrl+C to terminate the living daemon loop.'',
             lf_char # ''[DEMIURG-DAEMON] Daemon deactivated by master command.''] [Ran_daemon (ca_target a)])
          else None)"

datatype command = Recon | Judge | Probe | Assets | Recover | Info | Status | Daemon | Dashboard | Export

definition run_command :: "cli_env \<Rightarrow> command \<Rightarrow> cli_args \<Rightarrow> outcome option" where
  "run_command env c =
     (case c of
        Recon \<Rightarrow> cmd_recon env | Judge \<Rightarrow> cmd_judge env | Probe \<Rightarrow> cmd_probe env | Assets \<Rightarrow> cmd_assets env
      | Recover \<Rightarrow> cmd_recover env | Info \<Rightarrow> cmd_info env | Status \<Rightarrow> cmd_status env | Daemon \<Rightarrow> cmd_daemon env
      | Dashboard \<Rightarrow> cmd_dashboard env | Export \<Rightarrow> cmd_export env)"

end
