(* ===== verification/CliFacts.thy ===== *)
theory CliFacts
  imports Cli
begin

text \<open>
  What the commands of the command line do: they start nothing outside the scope they loaded, and refuse
  with the same status; what an export holds, and that a CSV row can be read back.
\<close>

section \<open>Scope\<close>

fun authorised :: "scope_enforcer \<Rightarrow> activity \<Rightarrow> bool" where
  "authorised sc (Ran_campaign t) \<longleftrightarrow> is_target_allowed sc t"
| "authorised sc (Ran_step s) \<longleftrightarrow> is_target_allowed sc (step_target s) \<and>
     (truthy (dget (params s) ''ports'') \<longrightarrow>
        (\<exists>ps. ports_requested (dget (params s) ''ports'') = Inr ps \<and> check_ports sc ps = Inr ()))"
| "authorised sc (Ran_unplanned _) \<longleftrightarrow> False"
| "authorised sc (Ran_scan s ports) \<longleftrightarrow> is_target_allowed sc (step_target s) \<and> check_ports sc ports = Inr ()"
| "authorised sc (Ran_recon h ports) \<longleftrightarrow> is_target_allowed sc h \<and> check_ports sc ports = Inr ()"
| "authorised sc (Ran_assets h ports) \<longleftrightarrow> is_target_allowed sc h \<and> check_ports sc ports = Inr ()"
| "authorised sc (Ran_daemon h) \<longleftrightarrow> is_target_allowed sc h"

lemma refused_did [simp]: "co_did (refused e) = []"
  by (simp add: refused_def finish_def)

lemma finish_did [simp]: "co_did (finish r ls did) = did"
  by (simp add: finish_def)

lemma check_allowed: "check sc t = Inr u \<Longrightarrow> is_target_allowed sc t"
  by (auto simp: check_def split: if_splits)

lemma check_ports_unit: "check_ports sc ps = Inr u \<Longrightarrow> check_ports sc ps = Inr ()"
  by (cases u) simp

lemma default_ports_ok: "check_ports sc (or_default (allowed_ports sc) ps) = Inr ()"
  by (auto simp: check_ports_def or_default_def filter_empty_conv)

lemma stored_did:
  "co_did (the (cmd_recover env a)) = []" "co_did (the (cmd_status env a)) = []" "co_did (the (cmd_dashboard env a)) = []"
  "co_did (the (cmd_export env a)) = []" "co_did (the (cmd_info env a)) = []"
proof -
  show "co_did (the (cmd_recover env a)) = []"
    by (simp add: cmd_recover_def Let_def split: sum.split exc.split prod.split)
  show "co_did (the (cmd_status env a)) = []" by (simp add: cmd_status_def split: sum.split)
  show "co_did (the (cmd_dashboard env a)) = []" by (simp add: cmd_dashboard_def split: sum.split)
  show "co_did (the (cmd_export env a)) = []" by (simp add: cmd_export_def split: sum.split exc.split option.split)
  show "co_did (the (cmd_info env a)) = []" by (simp add: cmd_info_def split: prod.split)
qed

text \<open>A campaign writes about an authorised target only and starts authorised steps of its plan only.\<close>

lemma startable_authorised:
  assumes "s \<in> startable orc tgt intelligence"
  shows "s \<in> set (planned_steps orc tgt intelligence) \<and>
     (\<forall>s\<in>set (planned_steps orc tgt intelligence). authorised (orch_scope orc) (Ran_step s))"
  using assms
  by (auto simp: startable_def planned_steps_def authorize_steps_iff check_ports_iff split: sum.splits prod.splits if_splits)

lemma entry_authorised:
  assumes "entry_about t (startable orc tgt intelligence) op" "is_target_allowed (orch_scope orc) t"
    and "did \<in> set (entry_activities (planned_steps orc tgt intelligence) op)"
  shows "authorised (orch_scope orc) did"
proof (cases op)
  case (Inl st)
  then show ?thesis using assms(3) by simp
next
  case (Inr e)
  obtain st now event payload where e: "e = (st, now, event, payload)" by (cases e)
  show ?thesis
  proof (cases "event = ''step_start''")
    case False
    then show ?thesis using assms by (auto simp: Inr e split: if_splits)
  next
    case True
    then obtain s where s: "s \<in> startable orc tgt intelligence" "payload = step_payload s" using assms(1) by (auto simp: Inr e)
    note pl = startable_authorised [OF s(1)]
    show ?thesis
    proof (cases "find (\<lambda>s. step_payload s = payload) (planned_steps orc tgt intelligence)")
      case None
      then show ?thesis using pl s(2) by (auto simp: find_None_iff)
    next
      case (Some s')
      then have "s' \<in> set (planned_steps orc tgt intelligence)" by (auto simp: find_Some_iff)
      then show ?thesis using pl Some True assms(3) by (auto simp: Inr e simp del: authorised.simps)
    qed
  qed
qed

lemma norm_domain_strip: "is_target_allowed sc (strip t) = is_target_allowed sc t"
  by (simp add: is_target_allowed_def norm_domain_def)

lemma recon_campaign_did:
  assumes "run_campaign (ce_host env) (build_orchestrator env (Some sc)) (ca_target a) (ct_intelligence a) = Some (r, orc')"
  shows "\<exists>out. recon_campaign env a sc = Some out \<and>
    co_did out = journal_activities (planned_steps (build_orchestrator env (Some sc)) (ca_target a) (ct_intelligence a)) (orch_journal orc')"
  using assms by (cases r) (simp_all add: recon_campaign_def Let_def split: sum.split)

lemma recon_did:
  assumes "cmd_recon env a = Some out" "did \<in> set (co_did out)"
  shows "\<exists>sc. load_scope env (ca_scope a) = Inr sc \<and> authorised sc did"
proof (cases "load_scope env (ca_scope a)")
  case (Inl e)
  then show ?thesis using assms by (auto simp: cmd_recon_def)
next
  case (Inr sc)
  let ?orc = "build_orchestrator env (Some sc)" and ?i = "ct_intelligence a"
  let ?steps = "planned_steps ?orc (ca_target a) ?i"
  have orc: "orch_journal ?orc = []" "orch_scope ?orc = sc" "0 < orch_workers ?orc"
    by (simp_all add: build_orchestrator_def Let_def)
  obtain r orc' where run: "run_campaign (ce_host env) ?orc (ca_target a) ?i = Some (r, orc')"
    and did: "did \<in> set (journal_activities ?steps (orch_journal orc'))"
    using assms Inr by (auto simp: cmd_recon_def recon_campaign_def Let_def split: option.splits sum.splits prod.splits)
  note about = run_campaign_about [OF run orc(1,3), unfolded orc(2)]
  obtain op where op: "op \<in> set (orch_journal orc')" "did \<in> set (entry_activities ?steps op)"
    using did by (auto simp: journal_activities_def)
  have "is_target_allowed sc (strip (ca_target a))" using about op(1) by (auto simp: norm_domain_strip)
  moreover have "entry_about (strip (ca_target a)) (startable ?orc (ca_target a) ?i) op"
    using about op(1) by (simp add: journal_about_def list_all_iff)
  ultimately have "authorised sc did" using entry_authorised [of _ ?orc _ _ op did] op(2) orc(2) by metis
  then show ?thesis using Inr by blast
qed

lemma judge_did: "cmd_judge env a = Some out \<Longrightarrow> did \<in> set (co_did out) \<Longrightarrow>
    \<exists>sc. load_scope env (ca_scope a) = Inr sc \<and> authorised sc did"
  by (auto simp: cmd_judge_def Let_def bind_res_eq_Inr default_ports_ok cli_step_def dest: check_allowed
      split: sum.splits prod.splits)

lemma probe_did: "cmd_probe env a = Some out \<Longrightarrow> did \<in> set (co_did out) \<Longrightarrow>
    \<exists>sc. load_scope env (ca_scope a) = Inr sc \<and> authorised sc did"
  by (auto simp: cmd_probe_def Let_def bind_res_eq_Inr dest: check_allowed split: sum.splits option.splits)

lemma assets_did: "cmd_assets env a = Some out \<Longrightarrow> did \<in> set (co_did out) \<Longrightarrow>
    \<exists>sc. load_scope env (ca_scope a) = Inr sc \<and> authorised sc did"
  by (auto simp: cmd_assets_def Let_def bind_res_eq_Inr check_ports_def dest: check_allowed
      split: sum.splits option.splits prod.splits if_splits)

lemma daemon_did: "cmd_daemon env a = Some out \<Longrightarrow> did \<in> set (co_did out) \<Longrightarrow>
    \<exists>sc. load_scope env (ca_scope a) = Inr sc \<and> authorised sc did"
  by (auto simp: cmd_daemon_def bind_res_eq_Inr dest: check_allowed split: sum.splits if_splits)

text \<open>
  C3: Whatever a command of the command line starts is authorised by the scope it loaded: the host is inside
  it, and so are all the ports it asks for. For a reconnaissance this holds of the campaign and of every step
  whose module it starts, as read off what the orchestrator writes. Of the daemon only the host is checked.
\<close>
theorem commands_stay_in_scope:
  assumes "run_command env c a = Some out" "did \<in> set (co_did out)"
  shows "\<exists>sc. load_scope env (ca_scope a) = Inr sc \<and> authorised sc did"
proof -
  note none = stored_did [of env a]
  show ?thesis
  proof (cases c)
    case Recon
    then show ?thesis using recon_did assms by (simp add: run_command_def)
  next
    case Judge
    then show ?thesis using judge_did assms by (simp add: run_command_def)
  next
    case Probe
    then show ?thesis using probe_did assms by (simp add: run_command_def)
  next
    case Assets
    then show ?thesis using assets_did assms by (simp add: run_command_def)
  next
    case Daemon
    then show ?thesis using daemon_did assms by (simp add: run_command_def)
  qed (use none assms in \<open>simp_all add: run_command_def\<close>)
qed

text \<open>
  C4: When the scope cannot be trusted, or the target is outside it, every command that reaches the network
  ends with status 2 and one line, and starts nothing.
\<close>
theorem commands_refuse:
  assumes "c = Recon \<or> c = Judge \<or> c = Probe \<or> c = Assets \<or> c = Daemon"
    and "case load_scope env (ca_scope a) of Inl e \<Rightarrow> is_scope_error e | Inr sc \<Rightarrow> \<not> is_target_allowed sc (ca_target a)"
  shows "\<exists>line. run_command env c a = Some \<lparr>co_exit = Inr 2, co_lines = [line], co_did = []\<rparr>"
proof (cases "load_scope env (ca_scope a)")
  case (Inl e)
  then show ?thesis using assms
    by (auto simp: run_command_def cmd_recon_def cmd_judge_def cmd_probe_def cmd_assets_def cmd_daemon_def refused_def finish_def)
next
  case (Inr sc)
  then have no: "\<not> is_target_allowed sc (ca_target a)" using assms(2) by simp
  then obtain m l where ch: "check sc (ca_target a) = Inl (ScopeError m l)" by (auto simp: check_def)
  have sc: "orch_scope (build_orchestrator env (Some sc)) = sc" by (simp add: build_orchestrator_def Let_def)
  have rc: "run_campaign (ce_host env) (build_orchestrator env (Some sc)) (ca_target a) (ct_intelligence a) =
      Some (Inl (ScopeError m l), build_orchestrator env (Some sc))"
    by (simp add: run_campaign_def sc ch)
  show ?thesis using assms(1) Inr no ch rc
    by (auto simp: run_command_def cmd_recon_def recon_campaign_def cmd_judge_def cmd_probe_def cmd_assets_def cmd_daemon_def
        refused_def finish_def Let_def journal_activities_def build_orchestrator_def)
qed

section \<open>Exports\<close>

definition no_findings :: "campaign \<Rightarrow> bool" where
  "no_findings st \<longleftrightarrow> (\<exists>d. meta st = PDict d \<and> dict_get d ''findings'' = None)"

lemma no_findings_set [simp]: "k \<noteq> ''findings'' \<Longrightarrow> no_findings st \<Longrightarrow> no_findings (meta_set k v st)"
  by (auto simp: no_findings_def meta_set_def)

lemma no_findings_meta: "meta st = meta st' \<Longrightarrow> no_findings st = no_findings st'"
  by (simp add: no_findings_def)

lemma no_findings_graph: "no_findings st \<Longrightarrow> no_findings (finalize_graph nv rg depth ctx st)"
  by (auto simp: finalize_graph_def Let_def split: sum.splits prod.splits)

lemma finished_no_findings:
  assumes "campaign_finished h steps st orc = (Inr st', orc')" "no_findings st"
  shows "no_findings st'"
proof -
  obtain st1 where t: "transition (clock h orc) ''done'' st = Inr st1"
    using assms(1) by (cases "transition (clock h orc) ''done'' st") (simp_all add: campaign_finished_def)
  define st2 where "st2 = meta_set ''plan'' (PStr (to_json steps))
    (meta_set ''report_count'' (PInt (int (length (ctx_reports (orch_context orc)))))
    (meta_set ''findings_count'' (PInt (int (length (ctx_findings (orch_context orc))))) st1))"
  have "st' = finalize_graph (host_native h) (host_rust h) (host_depth h) (orch_context orc) st2"
    using assms(1) by (simp add: campaign_finished_def t Let_def st2_def)
  moreover have "no_findings st1" using transition_frame [OF t] no_findings_meta assms(2) by blast
  then have "no_findings st2" by (simp add: st2_def)
  ultimately show ?thesis by (simp add: no_findings_graph)
qed

lemma run_no_findings:
  assumes "run_campaign h orc tgt intelligence = Some (Inr st, orc')"
  shows "no_findings st"
proof -
  obtain st0 st1 orc1 n steps waves orc3 where
    st0: "new_campaign (clock h orc) (host_fresh h) (PStr tgt) PNone (PDict []) = Inr st0"
    and st1: "move_to h ''planning'' st0 (orc\<lparr>orch_clock := Suc (orch_clock orc)\<rparr>) = Inr (st1, orc1)"
    and run: "run_steps h steps waves st1 orc3 = (Inr st, orc')"
    using assms by (auto simp: run_campaign_def Let_def split: sum.splits option.splits prod.splits)
  have "no_findings st0" using st0
    by (auto simp: new_campaign_def no_findings_def bind_res_eq_Inr split: if_splits)
  then have 1: "no_findings st1" using move_to_Inr [OF st1] no_findings_meta by blast
  obtain st2 orc2 orc4 where st2: "move_to h ''scanning'' st1 orc3 = Inr (st2, orc2)"
    and fin: "campaign_finished h steps st2 orc4 = (Inr st, orc')"
    using run by (auto simp: run_steps_def campaign_failed_def Let_def split: sum.splits prod.splits)
  have "no_findings st2" using move_to_Inr [OF st2] 1 no_findings_meta by blast
  then show ?thesis using finished_no_findings [OF fin] by blast
qed

text \<open>
  C22: A campaign the orchestrator completes is exported without its findings: whatever its modules found, the
  CSV export is the header alone and the SARIF export has no result, because only the number of findings is
  stored with the campaign.
\<close>
theorem exports_have_no_findings:
  assumes "run_campaign h orc tgt intelligence = Some (Inr st, orc')"
  shows "export_text ''csv'' st = Inr (Some (csv_row CSV_COLUMNS)) \<and>
    export_text ''sarif'' st = Inr (Some (json_dumps False (Some 2) (sarif_log [])))"
proof -
  obtain d where d: "meta st = PDict d" "dict_get d ''findings'' = None"
    using run_no_findings [OF assms] by (auto simp: no_findings_def)
  show ?thesis by (simp add: export_text_def meta_get_def d dget_or_def iterate_def)
qed

text \<open>The JSON export of a campaign is read back as that campaign.\<close>
theorem json_export_roundtrip:
  assumes "campaign_ok st" "campaign_json st" "meta st = PDict d"
  shows "\<exists>txt v. export_text ''json'' st = Inr (Some txt) \<and> json_loads txt = Inr v \<and> from_dict now fresh v = Inr st"
proof -
  have "json_loads (json_dumps False (Some 2) (to_dict st)) = Inr (to_dict st)"
    by (rule json_roundtrip [OF json_ok_to_dict [OF assms(2)]])
  then show ?thesis using from_dict_to_dict [OF assms(1)] by (simp add: export_text_def meta_get_def assms(3))
qed

section \<open>Reading a CSV row\<close>

datatype csv_mode = At_start | In_plain string | In_quotes string | After_quote string

fun csv_cells :: "csv_mode \<Rightarrow> string \<Rightarrow> string list" where
  "csv_cells At_start [] = [[]]"
| "csv_cells At_start (c # s) =
     (if c = dq_char then csv_cells (In_quotes []) s else if c = CHR '','' then [] # csv_cells At_start s
      else if c = cr_char then [[]] else csv_cells (In_plain [c]) s)"
| "csv_cells (In_plain cell) [] = [cell]"
| "csv_cells (In_plain cell) (c # s) =
     (if c = CHR '','' then cell # csv_cells At_start s else if c = cr_char then [cell] else csv_cells (In_plain (cell @ [c])) s)"
| "csv_cells (In_quotes cell) [] = [cell]"
| "csv_cells (In_quotes cell) (c # s) =
     (if c = dq_char then csv_cells (After_quote cell) s else csv_cells (In_quotes (cell @ [c])) s)"
| "csv_cells (After_quote cell) [] = [cell]"
| "csv_cells (After_quote cell) (c # s) =
     (if c = dq_char then csv_cells (In_quotes (cell @ [c])) s else if c = CHR '','' then cell # csv_cells At_start s
      else if c = cr_char then [cell] else csv_cells (In_plain (cell @ [c])) s)"

definition cell_end :: "string \<Rightarrow> bool" where
  "cell_end r \<longleftrightarrow> (\<exists>s. r = CHR '','' # s \<or> r = cr_char # s)"

definition after_cell :: "string \<Rightarrow> string list" where
  "after_cell r = (case r of [] \<Rightarrow> [] | c # s \<Rightarrow> if c = CHR '','' then csv_cells At_start s else [])"

lemma csv_chars [simp]: "dq_char \<noteq> CHR '',''" "cr_char \<noteq> CHR '',''" "cr_char \<noteq> dq_char" "CHR '','' \<noteq> dq_char" "dq_char \<noteq> cr_char"
  "CHR '','' \<noteq> cr_char"
  by (simp_all add: dq_char_def cr_char_def)

lemma plain_cell: "\<not> list_ex csv_special s \<Longrightarrow> cell_end r \<Longrightarrow> csv_cells (In_plain cell) (s @ r) = (cell @ s) # after_cell r"
proof (induction s arbitrary: cell)
  case Nil
  then show ?case by (auto simp: cell_end_def after_cell_def)
next
  case (Cons c s)
  then show ?case by (simp add: csv_special_def)
qed

lemma quoted_cell:
  "cell_end r \<Longrightarrow> csv_cells (In_quotes cell) (concat (map (\<lambda>c. if c = dq_char then [dq_char, dq_char] else [c]) s) @ dq_char # r) =
     (cell @ s) # after_cell r"
proof (induction s arbitrary: cell)
  case Nil
  then show ?case by (auto simp: cell_end_def after_cell_def)
next
  case (Cons c s)
  then show ?case by simp
qed

lemma csv_field_cell: "cell_end r \<Longrightarrow> csv_cells At_start (csv_field s @ r) = s # after_cell r"
proof (cases "list_ex csv_special s")
  case True
  then show "cell_end r \<Longrightarrow> ?thesis" using quoted_cell [of r "[]" s] by (simp add: csv_field_def)
next
  case False
  then show "cell_end r \<Longrightarrow> ?thesis"
    using plain_cell [of "tl s" r "[hd s]"]
    by (cases s) (auto simp: csv_field_def csv_special_def cell_end_def after_cell_def)
qed

lemma csv_join_cells:
  "xs \<noteq> [] \<Longrightarrow> csv_cells At_start (join_str '','' (map csv_field xs) @ [cr_char, lf_char]) = xs"
proof (induction xs)
  case (Cons x xs)
  show ?case
  proof (cases xs)
    case Nil
    have "cell_end [cr_char, lf_char]" by (simp add: cell_end_def)
    then show ?thesis using csv_field_cell [of "[cr_char, lf_char]" x] Nil by (simp add: after_cell_def)
  next
    case (Cons y ys)
    let ?rest = "join_str '','' (map csv_field xs) @ [cr_char, lf_char]"
    have "cell_end (CHR '','' # ?rest)" by (simp add: cell_end_def)
    from csv_field_cell [OF this, of x] Cons.IH Cons show ?thesis by (simp add: after_cell_def)
  qed
qed simp

text \<open>
  A row of the CSV export is read back as the fields it was written from: no banner or service name can
  break out of its column or its row.
\<close>
theorem csv_row_roundtrip:
  assumes "cells \<noteq> []"
  shows "csv_cells At_start (csv_row cells) = cells"
  using csv_join_cells [OF assms] by (simp add: csv_row_def)

theorem csv_row_roundtrip_witness: "csv_cells At_start (csv_row [''10.0.0.1'', ''Apache, 2.4'']) = [''10.0.0.1'', ''Apache, 2.4'']"
  by (rule csv_row_roundtrip) simp

section \<open>Sample runs\<close>

definition sample_args :: cli_args where
  "sample_args =
     \<lparr>ca_scope = Some ''config/scope.yaml'', ca_target = ''example.com'', ca_campaign = [], ca_ct = False, ca_ports = None,
      ca_seeds = None, ca_web_ports = None, ca_depth = 1, ca_max_hosts = 50, ca_max_requests = 200, ca_deep = False,
      ca_format = ''json'', ca_data = ''data''\<rparr>"

definition sample_cli :: cli_env where
  "sample_cli =
     \<lparr>ce_read = (\<lambda>_. Inr (render_scope sample_config)), ce_default_scope = [], ce_variable = None, ce_host = sample_host,
      ce_files = [], ce_registry = (\<lambda>_. []), ce_runner = quiet_env, ce_recon = (\<lambda>_ _. Some []),
      ce_modules = (Inr (), \<lparr>ms_specs = [], ms_imported = []\<rparr>), ce_interrupt = True\<rparr>"

definition cli_scope :: scope_enforcer where
  "cli_scope = \<lparr>networks = [Net4 0x0A000000 8], allowed_domains = [''example.com''], allowed_ports = [80, 443],
     scope_source = ''config/scope.yaml''\<rparr>"

lemma sample_load: "load_scope sample_cli (ca_scope sample_args) = Inr cli_scope"
  using sample_from_config by (simp add: load_scope_def sample_cli_def sample_args_def cli_scope_def)

theorem commands_refuse_witness:
  "\<exists>line. run_command sample_cli Assets (sample_args\<lparr>ca_target := ''example.org''\<rparr>) =
     Some \<lparr>co_exit = Inr 2, co_lines = [line], co_did = []\<rparr>"
proof -
  have "case load_scope sample_cli (ca_scope (sample_args\<lparr>ca_target := ''example.org''\<rparr>)) of
      Inl e \<Rightarrow> is_scope_error e | Inr sc \<Rightarrow> \<not> is_target_allowed sc (ca_target (sample_args\<lparr>ca_target := ''example.org''\<rparr>))"
  proof -
    have "\<not> is_target_allowed cli_scope ''example.org''" by code_simp
    then show ?thesis using sample_load by simp
  qed
  then show ?thesis by (intro commands_refuse) simp
qed

text \<open>A reconnaissance on a host whose discovery module does nothing.\<close>

definition recon_cli :: cli_env where
  "recon_cli = sample_cli\<lparr>ce_registry := (\<lambda>_. [(''discovery'', \<lambda>_ _ ctx. (Inr PNone, ctx))])\<rparr>"

definition is_step :: "activity \<Rightarrow> bool" where
  "is_step did = (case did of Ran_step s \<Rightarrow> step_module s = PStr ''discovery'' | _ \<Rightarrow> False)"

lemma recon_cli_run:
  "let orc = build_orchestrator recon_cli (Some cli_scope)
   in case run_campaign sample_host orc ''example.com'' [] of
        Some (_, orc') \<Rightarrow> list_ex is_step (journal_activities (planned_steps orc ''example.com'' []) (orch_journal orc'))
      | None \<Rightarrow> False"
  by code_simp

theorem commands_stay_in_scope_witness:
  "\<exists>out sc s. run_command recon_cli Recon sample_args = Some out \<and>
     load_scope recon_cli (ca_scope sample_args) = Inr sc \<and>
     Ran_step s \<in> set (co_did out) \<and> step_module s = PStr ''discovery'' \<and> authorised sc (Ran_step s)"
proof -
  have load: "load_scope recon_cli (ca_scope sample_args) = Inr cli_scope"
    using sample_load by (simp add: load_scope_def recon_cli_def)
  have args: "ce_host recon_cli = sample_host" "ca_target sample_args = ''example.com''" "ct_intelligence sample_args = []"
    by (simp_all add: recon_cli_def sample_cli_def sample_args_def ct_intelligence_def)
  obtain r orc' where rc: "run_campaign sample_host (build_orchestrator recon_cli (Some cli_scope)) ''example.com'' [] = Some (r, orc')"
    and "list_ex is_step (journal_activities (planned_steps (build_orchestrator recon_cli (Some cli_scope)) ''example.com'' []) (orch_journal orc'))"
    using recon_cli_run by (auto simp: Let_def split: option.splits prod.splits)
  then obtain out where out: "recon_campaign recon_cli sample_args cli_scope = Some out" "list_ex is_step (co_did out)"
    using recon_campaign_did [of recon_cli cli_scope sample_args r orc'] unfolding args by auto
  then obtain did where did: "did \<in> set (co_did out)" "is_step did" by (auto simp: list_ex_iff)
  obtain s where "did = Ran_step s" "step_module s = PStr ''discovery''"
    using did(2) by (cases did rule: activity.exhaust) (simp_all add: is_step_def)
  then have s: "Ran_step s \<in> set (co_did out)" "step_module s = PStr ''discovery''" using did(1) by simp_all
  have run: "run_command recon_cli Recon sample_args = Some out" using out(1) load by (simp add: run_command_def cmd_recon_def)
  from commands_stay_in_scope [OF run s(1)] load run s show ?thesis by blast
qed

theorem exports_have_no_findings_witness:
  "\<exists>st orc'. run_campaign sample_host sample_orch ''example.com'' [] = Some (Inr st, orc') \<and>
     export_text ''csv'' st = Inr (Some (csv_row CSV_COLUMNS))"
proof -
  obtain st orc' where run: "run_campaign sample_host sample_orch ''example.com'' [] = Some (Inr st, orc')"
    using sample_run_storable by (auto split: option.splits sum.splits prod.splits) (metis sum.exhaust)+
  from exports_have_no_findings [OF run] run show ?thesis by blast
qed

theorem json_export_roundtrip_witness:
  "\<exists>txt v. export_text ''json'' sample_campaign = Inr (Some txt) \<and> json_loads txt = Inr v \<and>
     from_dict PNone [] v = Inr sample_campaign"
proof -
  obtain d where "meta sample_campaign = PDict d" by (simp add: sample_campaign_def)
  from json_export_roundtrip [OF sample_campaign_ok this, of PNone "[]"] show ?thesis .
qed

section \<open>What a probe reports\<close>

text \<open>A port that is no number is not refused: the exception leaves the command.\<close>
theorem probe_bad_port_escapes:
  "\<exists>m. run_command sample_cli Probe (sample_args\<lparr>ca_ports := Some ''80,http''\<rparr>) =
     Some \<lparr>co_exit = Inl (ValueError m), co_lines = [], co_did = []\<rparr>"
proof -
  have "check cli_scope ''example.com'' = Inr ()" by code_simp
  moreover have "parse_ports ''80,http'' = Inl (ValueError ''invalid literal for int()'')" by code_simp
  ultimately show ?thesis
    using sample_load
    by (simp add: run_command_def cmd_probe_def finish_def probe_ports_def sample_args_def)
qed

text \<open>
  The line that ends a probe counts the open ports, not the ports probed: an adaptive reconnaissance
  returns the open ones only.
\<close>
theorem probe_counts_open:
  assumes "load_scope env (ca_scope a) = Inr sc" "check sc (ca_target a) = Inr ()" "probe_ports a sc = Inr ports"
    and "check_ports sc ports = Inr ()" "ce_recon env (ca_target a) ports = Some rows"
    and "enterprise_adaptive_recon prb ports rows" "run_command env Probe a = Some out" "co_exit out = Inr 0"
  shows "last (co_lines out) = ''[HELIOS] probed '' @ show_nat (length (filter (\<lambda>p. pb_open (row_for prb p)) ports)) @
    '' port(s) via adaptive engine''"
proof -
  have "mset rows = mset (filter pb_open (map (row_for prb) ports))" using recon_rows [OF assms(6)] by blast
  then have "length rows = length (filter (\<lambda>p. pb_open (row_for prb p)) ports)"
    using mset_eq_length by (fastforce simp: filter_map comp_def)
  then show ?thesis
    using assms(1-5,7,8) by (auto simp: run_command_def cmd_probe_def finish_def split: sum.splits)
qed

end
