(* ===== verification/Daemon.thy ===== *)
theory Daemon
  imports WalFacts AsyncRecon GraphFacts Pacer
begin

text \<open>
  \<open>core/daemon.py\<close>, the mission daemon: one cycle is a log transaction around a banner reconnaissance and
  its asset graph, and the loop runs cycles with a random pause between them until it is stopped.
\<close>

section \<open>The daemon and its surroundings\<close>

text \<open>
  Per cycle: \<open>time.time()\<close>, the answer of the adaptive reconnaissance (None when its pool never joins), and
  whether \<open>stop\<close> is called before the next one.
\<close>

record mission_env =
  me_entropy :: entropy
  me_now :: "nat \<Rightarrow> pyval"
  me_recon :: "nat \<Rightarrow> string \<Rightarrow> int list \<Rightarrow> (exc + adaptive_row list) option"
  me_native :: native
  me_rust :: rust_graph
  me_depth :: nat
  me_chance :: chance
  me_stop :: "nat \<Rightarrow> bool"

record daemon =
  dm_target :: string
  dm_wal :: wal
  dm_pacer :: pacer
  dm_running :: bool
  dm_draws :: nat

definition new_daemon :: "string \<Rightarrow> float \<Rightarrow> wal \<Rightarrow> daemon" where
  "new_daemon tgt interval w =
     \<lparr>dm_target = tgt, dm_wal = w, dm_pacer = new_pacer interval (fmul interval (fl (35 / 100))),
      dm_running = False, dm_draws = 0\<rparr>"

definition stop_daemon :: "daemon \<Rightarrow> daemon" where
  "stop_daemon d = d\<lparr>dm_running := False\<rparr>"

section \<open>A cycle\<close>

definition MISSION_PORTS :: "int list" where
  "MISSION_PORTS = [80, 443, 22, 3306]"

definition mission_service :: "string \<Rightarrow> asset_graph \<Rightarrow> adaptive_row \<Rightarrow> asset_graph" where
  "mission_service tgt g r =
     (let svc = ''svc:'' @ tgt @ '':'' @ show_int (pb_port r) @ ''/tcp''
      in add_edge (''host:'' @ tgt) svc (add_node svc ''service'' [(''port'', PInt (pb_port r))] g))"

definition mission_graph :: "string \<Rightarrow> adaptive_row list \<Rightarrow> asset_graph" where
  "mission_graph tgt rows =
     foldl (mission_service tgt) (add_node (''host:'' @ tgt) ''host'' [(''ip'', PStr tgt)] empty_graph) rows"

definition mission_outcome :: "mission_env \<Rightarrow> string \<Rightarrow> exc + adaptive_row list \<Rightarrow> exc + string \<times> pydict" where
  "mission_outcome env tgt answer =
     bind_res answer (\<lambda>rows.
     bind_res (top_targets (me_native env) (me_rust env) (me_depth env) 3 (mission_graph tgt rows)) (\<lambda>(tops, g).
       Inr (if rows = [] then (''MISSION_WARNING'', [(''message'', PStr ''No active services observed.'')])
            else (''MISSION_SUCCESS'',
              [(''active_services'', PInt (int (length rows))), (''top_targets'', PList (map PStr tops))]))))"

definition mission_start :: "mission_env \<Rightarrow> string \<Rightarrow> nat \<Rightarrow> pydict" where
  "mission_start env tgt k = [(''target'', PStr tgt), (''timestamp'', me_now env k)]"

text \<open>An append that raises has already taken its number.\<close>

definition append_failed :: "wal \<Rightarrow> wal" where
  "append_failed w = w\<lparr>wal_lsn := wal_lsn w + 1\<rparr>"

text \<open>
  The first append stands before the \<open>try\<close>: what it raises leaves the cycle. Everything after it ends in a
  commit or a rollback, unless the reconnaissance never answers.
\<close>

definition run_mission_cycle :: "mission_env \<Rightarrow> string \<Rightarrow> nat \<Rightarrow> wal \<Rightarrow> ((exc + unit) \<times> wal) option" where
  "run_mission_cycle env tgt k w =
     (let w0 = begin_txn w
      in case wal_append (me_entropy env) ''MISSION_START'' (mission_start env tgt k) w0 of
          Inl e \<Rightarrow> Some (Inl e, append_failed w0)
        | Inr (_, w1) \<Rightarrow>
            (case me_recon env k tgt MISSION_PORTS of
               None \<Rightarrow> None
             | Some answer \<Rightarrow> Some (Inr (),
                 case mission_outcome env tgt answer of
                   Inl _ \<Rightarrow> rollback w1
                 | Inr (op, data) \<Rightarrow>
                     (case wal_append (me_entropy env) op data w1 of
                        Inl _ \<Rightarrow> rollback (append_failed w1)
                      | Inr (_, w2) \<Rightarrow> commit w2))))"

section \<open>The loop\<close>

datatype daemon_end = Finished | Raised exc | Hung | Still_running

text \<open>The loop for at most so many cycles, with the pauses it made.\<close>

fun daemon_loop :: "mission_env \<Rightarrow> nat \<Rightarrow> nat \<Rightarrow> daemon \<Rightarrow> daemon_end \<times> float list \<times> daemon" where
  "daemon_loop env 0 k d = (if dm_running d then Still_running else Finished, [], d)"
| "daemon_loop env (Suc n) k d =
     (if \<not> dm_running d then (Finished, [], d)
      else case run_mission_cycle env (dm_target d) k (dm_wal d) of
          None \<Rightarrow> (Hung, [], d)
        | Some (Inl e, w) \<Rightarrow> (Raised e, [], d\<lparr>dm_wal := w\<rparr>)
        | Some (Inr _, w) \<Rightarrow>
            (case dwell (me_chance env) (dm_pacer d) ''exponential'' (dm_draws d) of (pause, m) \<Rightarrow>
               let d1 = d\<lparr>dm_wal := w, dm_draws := m\<rparr>;
                   d2 = (if me_stop env k then stop_daemon d1 else d1)
               in case daemon_loop env n (Suc k) d2 of (r, ps, d3) \<Rightarrow> (r, pause # ps, d3)))"

definition start_daemon :: "mission_env \<Rightarrow> nat \<Rightarrow> daemon \<Rightarrow> daemon_end \<times> float list \<times> daemon" where
  "start_daemon env n d = daemon_loop env n 0 (d\<lparr>dm_running := True\<rparr>)"

section \<open>The mission log\<close>

text \<open>What a cycle means for the abstract transaction log.\<close>

definition mission_ops :: "mission_env \<Rightarrow> string \<Rightarrow> nat \<Rightarrow> wal_op list" where
  "mission_ops env tgt k =
     [wal_op.Begin, wal_op.Append ''MISSION_START'' (mission_start env tgt k)] @
     (case me_recon env k tgt MISSION_PORTS of
        None \<Rightarrow> []
      | Some answer \<Rightarrow>
          (case mission_outcome env tgt answer of
             Inl _ \<Rightarrow> [wal_op.Rollback] | Inr (op, data) \<Rightarrow> [wal_op.Append op data, wal_op.Commit]))"

definition answers :: "mission_env \<Rightarrow> string \<Rightarrow> nat \<Rightarrow> bool" where
  "answers env tgt k \<longleftrightarrow> me_recon env k tgt MISSION_PORTS \<noteq> None \<and> \<not> me_stop env k"

definition succeeds :: "mission_env \<Rightarrow> string \<Rightarrow> nat \<Rightarrow> bool" where
  "succeeds env tgt k \<longleftrightarrow>
     (case me_recon env k tgt MISSION_PORTS of Some (Inr _) \<Rightarrow> True | _ \<Rightarrow> False)"

text \<open>Pairs of a start and its outcome, and nothing else.\<close>

fun mission_pairs :: "log_entry3 list \<Rightarrow> nat \<Rightarrow> bool" where
  "mission_pairs es 0 = (es = [])"
| "mission_pairs es (Suc n) =
     (case es of
        (i, op, _) # (j, op', _) # rest \<Rightarrow>
          op = ''MISSION_START'' \<and> op' \<in> {''MISSION_SUCCESS'', ''MISSION_WARNING''} \<and> j = i + 1 \<and> mission_pairs rest n
      | _ \<Rightarrow> False)"

lemma mission_graph_ok: "graph_ok (mission_graph tgt rows)"
proof -
  have "graph_ok g \<Longrightarrow> graph_ok (foldl (mission_service tgt) g rows)" for g
    by (induction rows arbitrary: g) (simp_all add: mission_service_def Let_def graph_ok_add_node graph_ok_add_edge)
  then show ?thesis by (simp add: mission_graph_def graph_ok_add_node)
qed

text \<open>
  The analysis never fails, whatever the Rust core answers, so a cycle fails exactly when its reconnaissance raises.
\<close>

lemma mission_outcome_rows:
  "mission_outcome env tgt (Inr rows) = Inr
     (if rows = [] then (''MISSION_WARNING'', [(''message'', PStr ''No active services observed.'')])
      else (''MISSION_SUCCESS'', [(''active_services'', PInt (int (length rows))),
        (''top_targets'', PList (map PStr (map fst (slice_to 3 (served_degree (me_native env) (me_rust env) (mission_graph tgt rows))))))]))"
proof -
  obtain g' where "degree_centrality (me_native env) (me_rust env) (me_depth env) (mission_graph tgt rows) =
      Inr (served_degree (me_native env) (me_rust env) (mission_graph tgt rows), g')"
    using degree_centrality_served [OF mission_graph_ok] by blast
  then show ?thesis by (simp add: mission_outcome_def top_targets_def)
qed

lemma mission_pairs_append:
  "mission_pairs es m \<Longrightarrow> mission_pairs fs n \<Longrightarrow> mission_pairs (es @ fs) (m + n)"
  by (induction es m rule: mission_pairs.induct) (auto split: list.splits)

lemma spec_append:
  "spec_step t (wal_op.Append op data) = Inr t' \<Longrightarrow> tl_active t \<Longrightarrow>
     t' = t\<lparr>tl_lsn := tl_lsn t + 1, tl_pending := tl_pending t @ [(tl_lsn t + 1, op, data)]\<rparr>"
  by (auto simp: Let_def split: if_splits)

text \<open>A cycle that answers does to the log what its operations mean.\<close>

lemma cycle_rel:
  assumes rel: "wal_rel w t" and spec: "fold_res spec_step t (mission_ops env tgt k) = Inr t'"
    and ans: "me_recon env k tgt MISSION_PORTS = Some answer"
  shows "\<exists>w'. run_mission_cycle env tgt k w = Some (Inr (), w') \<and> wal_rel w' t'"
proof -
  define t0 where "t0 = t\<lparr>tl_active := True, tl_pending := []\<rparr>"
  have rel0: "wal_rel (begin_txn w) t0"
    using wal_step_rel [OF rel, of wal_op.Begin t0 "me_entropy env"] by (simp add: t0_def)
  obtain t1 where t1: "spec_step t0 (wal_op.Append ''MISSION_START'' (mission_start env tgt k)) = Inr t1"
    and rest: "fold_res spec_step t1 (case mission_outcome env tgt answer of
        Inl _ \<Rightarrow> [wal_op.Rollback] | Inr (op, data) \<Rightarrow> [wal_op.Append op data, wal_op.Commit]) = Inr t'"
    using spec by (auto simp: mission_ops_def ans t0_def bind_res_eq_Inr simp del: spec_step.simps(2) split: sum.splits)
  obtain w1 where w1: "wal_append (me_entropy env) ''MISSION_START'' (mission_start env tgt k) (begin_txn w) = Inr (tl_lsn t1, w1)"
    and rel1: "wal_rel w1 t1"
    using append_rel [OF rel0 t1] by blast
  show ?thesis
  proof (cases "mission_outcome env tgt answer")
    case (Inl e)
    then have "t' = t1\<lparr>tl_pending := [], tl_active := False\<rparr>" using rest by simp
    then have "wal_rel (rollback w1) t'"
      using wal_step_rel [OF rel1, of wal_op.Rollback t' "me_entropy env"] by simp
    then show ?thesis by (simp add: run_mission_cycle_def w1 ans Inl)
  next
    case (Inr out)
    obtain op data where out: "out = (op, data)" by (cases out)
    obtain t2 where t2: "spec_step t1 (wal_op.Append op data) = Inr t2" and c: "spec_step t2 wal_op.Commit = Inr t'"
      using rest by (auto simp: Inr out bind_res_eq_Inr simp del: spec_step.simps(2,3))
    obtain w2 where w2: "wal_append (me_entropy env) op data w1 = Inr (tl_lsn t2, w2)" and rel2: "wal_rel w2 t2"
      using append_rel [OF rel1 t2] by blast
    have "wal_rel (commit w2) t'" using wal_step_rel [OF rel2 c, of "me_entropy env"] by simp
    then show ?thesis by (simp add: run_mission_cycle_def w1 w2 ans Inr out)
  qed
qed

lemma mission_outcome_op:
  "mission_outcome env tgt answer = Inr (op, data) \<Longrightarrow> op \<in> {''MISSION_SUCCESS'', ''MISSION_WARNING''}"
  by (auto simp: mission_outcome_def bind_res_eq_Inr split: if_splits)

lemma cycle_pairs:
  assumes "fold_res spec_step t (mission_ops env tgt k) = Inr t'" "me_recon env k tgt MISSION_PORTS = Some answer"
    "mission_pairs (tl_committed t) m"
  shows "mission_pairs (tl_committed t') (m + (if succeeds env tgt k then 1 else 0))"
proof -
  define t0 where "t0 = t\<lparr>tl_active := True, tl_pending := []\<rparr>"
  obtain t1 where s1: "spec_step t0 (wal_op.Append ''MISSION_START'' (mission_start env tgt k)) = Inr t1"
    and rest: "fold_res spec_step t1 (case mission_outcome env tgt answer of
        Inl _ \<Rightarrow> [wal_op.Rollback] | Inr (op, data) \<Rightarrow> [wal_op.Append op data, wal_op.Commit]) = Inr t'"
    using assms(1) by (auto simp: mission_ops_def assms(2) t0_def bind_res_eq_Inr simp del: spec_step.simps(2) split: sum.splits)
  have t1: "t1 = t0\<lparr>tl_lsn := tl_lsn t0 + 1, tl_pending := [(tl_lsn t0 + 1, ''MISSION_START'', mission_start env tgt k)]\<rparr>"
    using spec_append [OF s1] by (simp add: t0_def)
  show ?thesis
  proof (cases "mission_outcome env tgt answer")
    case (Inl e)
    have "tl_committed t' = tl_committed t" using rest Inl by (auto simp: t1 t0_def)
    moreover obtain e' where "answer = Inl e'"
      using Inl mission_outcome_rows by (cases answer) auto
    ultimately show ?thesis using assms by (simp add: succeeds_def)
  next
    case (Inr out)
    obtain op data where out: "out = (op, data)" by (cases out)
    obtain rows where "answer = Inr rows" using Inr by (cases answer) (simp_all add: mission_outcome_def)
    then have ok: "succeeds env tgt k" by (simp add: succeeds_def assms(2))
    obtain t2 where s2: "spec_step t1 (wal_op.Append op data) = Inr t2" and c: "spec_step t2 wal_op.Commit = Inr t'"
      using rest by (auto simp: Inr out bind_res_eq_Inr simp del: spec_step.simps(2,3))
    have t2: "t2 = t1\<lparr>tl_lsn := tl_lsn t1 + 1, tl_pending := tl_pending t1 @ [(tl_lsn t1 + 1, op, data)]\<rparr>"
      using spec_append [OF s2] by (simp add: t1 t0_def)
    have "tl_committed t' = tl_committed t @
        [(tl_lsn t + 1, ''MISSION_START'', mission_start env tgt k), (tl_lsn t + 1 + 1, op, data)]"
      using c by (auto simp: t2 t1 t0_def)
    moreover have "mission_pairs [(tl_lsn t + 1, ''MISSION_START'', mission_start env tgt k), (tl_lsn t + 1 + 1, op, data)] (Suc 0)"
      using mission_outcome_op [OF Inr [unfolded out]] by simp
    then have "mission_pairs (tl_committed t @ [(tl_lsn t + 1, ''MISSION_START'', mission_start env tgt k), (tl_lsn t + 1 + 1, op, data)]) (m + Suc 0)"
      by (rule mission_pairs_append [OF assms(3)])
    ultimately show ?thesis by (simp only: ok if_True One_nat_def)
  qed
qed

definition mission_history :: "mission_env \<Rightarrow> string \<Rightarrow> nat \<Rightarrow> nat \<Rightarrow> wal_op list" where
  "mission_history env tgt k n = concat (map (mission_ops env tgt) [k..<k + n])"

lemma mission_history_Suc:
  "mission_history env tgt k (Suc n) = mission_ops env tgt k @ mission_history env tgt (Suc k) n"
  by (simp add: mission_history_def upt_conv_Cons del: upt_Suc)

lemma loop_rel:
  assumes "dm_running d" "wal_rel (dm_wal d) t" "\<And>i. k \<le> i \<Longrightarrow> i < k + n \<Longrightarrow> answers env (dm_target d) i"
    "fold_res spec_step t (mission_history env (dm_target d) k n) = Inr t'" "mission_pairs (tl_committed t) m"
  shows "\<exists>ps d'. daemon_loop env n k d = (Still_running, ps, d') \<and> length ps = n \<and>
     list_all (\<lambda>p. fl (1 / 100) \<le> p) ps \<and> wal_rel (dm_wal d') t' \<and>
     mission_pairs (tl_committed t') (m + length (filter (succeeds env (dm_target d)) [k..<k + n]))"
  using assms
proof (induction n arbitrary: k d t m)
  case 0
  then show ?case by (simp add: mission_history_def)
next
  case (Suc n)
  let ?tgt = "dm_target d"
  obtain answer where ans: "me_recon env k ?tgt MISSION_PORTS = Some answer" and run: "\<not> me_stop env k"
    using Suc.prems(3) [of k] by (auto simp: answers_def)
  obtain t1 where t1: "fold_res spec_step t (mission_ops env ?tgt k) = Inr t1"
    and rest: "fold_res spec_step t1 (mission_history env ?tgt (Suc k) n) = Inr t'"
    using Suc.prems(4) by (auto simp: mission_history_Suc fold_res_append bind_res_eq_Inr)
  obtain w1 where w1: "run_mission_cycle env ?tgt k (dm_wal d) = Some (Inr (), w1)" and rel1: "wal_rel w1 t1"
    using cycle_rel [OF Suc.prems(2) t1 ans] by blast
  obtain pause j where dw: "dwell (me_chance env) (dm_pacer d) ''exponential'' (dm_draws d) = (pause, j)"
    by (cases "dwell (me_chance env) (dm_pacer d) ''exponential'' (dm_draws d)")
  let ?d1 = "d\<lparr>dm_wal := w1, dm_draws := j\<rparr>" and ?m = "m + (if succeeds env ?tgt k then 1 else 0)"
  have "\<exists>ps d'. daemon_loop env n (Suc k) ?d1 = (Still_running, ps, d') \<and> length ps = n \<and>
     list_all (\<lambda>p. fl (1 / 100) \<le> p) ps \<and> wal_rel (dm_wal d') t' \<and>
     mission_pairs (tl_committed t') (?m + length (filter (succeeds env (dm_target ?d1)) [Suc k..<Suc k + n]))"
    using Suc.prems(1,3) rel1 rest cycle_pairs [OF t1 ans Suc.prems(5)] by (intro Suc.IH) simp_all
  then obtain ps d' where ih: "daemon_loop env n (Suc k) ?d1 = (Still_running, ps, d')" "length ps = n"
     "list_all (\<lambda>p. fl (1 / 100) \<le> p) ps" "wal_rel (dm_wal d') t'"
     "mission_pairs (tl_committed t') (?m + length (filter (succeeds env ?tgt) [Suc k..<Suc k + n]))"
    by auto
  have "fl (1 / 100) \<le> pause"
    using dwell_floor(2) [of "''exponential''" "me_chance env" "dm_pacer d" "dm_draws d"] by (simp add: dw)
  moreover have "daemon_loop env (Suc n) k d = (Still_running, pause # ps, d')"
    using Suc.prems(1) by (simp add: w1 dw run Let_def ih(1))
  moreover have "[k..<k + Suc n] = k # [Suc k..<Suc k + n]" by (simp add: upt_conv_Cons del: upt_Suc)
  ultimately show ?case using ih
    by (cases "succeeds env ?tgt k") (simp_all del: upt_Suc mission_pairs.simps daemon_loop.simps)
qed

text \<open>
  C18: The mission log is complete and holds no half missions, whatever the Rust core answers. While the reconnaissance answers and nobody
  stops it, the daemon runs for as many cycles as wished with a pause of at least a hundredth of a second
  between them, and replaying its log gives, for each cycle whose reconnaissance did not raise and in order, its start and its
  outcome with consecutive numbers, and nothing of the cycles that failed.
\<close>
theorem mission_log_complete:
  assumes "\<forall>i<n. answers env tgt i"
    and "fold_res spec_step tlog_empty (mission_history env tgt 0 n) = Inr t"
  shows "\<exists>ps d. start_daemon env n (new_daemon tgt interval (fresh_wal key None 0)) = (Still_running, ps, d) \<and>
     length ps = n \<and> list_all (\<lambda>p. fl (1 / 100) \<le> p) ps \<and>
     replay (dm_wal d) = Inr (map entry_record (tl_committed t), dm_wal d) \<and>
     mission_pairs (tl_committed t) (length (filter (succeeds env tgt) [0..<n]))"
proof -
  let ?d = "(new_daemon tgt interval (fresh_wal key None 0))\<lparr>dm_running := True\<rparr>"
  obtain ps d where "daemon_loop env n 0 ?d = (Still_running, ps, d)" "length ps = n"
      "list_all (\<lambda>p. fl (1 / 100) \<le> p) ps" "wal_rel (dm_wal d) t"
      "mission_pairs (tl_committed t) (length (filter (succeeds env tgt) [0..<n]))"
    using loop_rel [of ?d tlog_empty 0 n env t 0] assms wal_rel_fresh [of key 0]
    by (auto simp: new_daemon_def tlog_empty_def)
  then show ?thesis using replay_rel [of "dm_wal d" t] by (auto simp: start_daemon_def)
qed

text \<open>
  A service found, a reconnaissance that raised, and nothing found, on a host whose Rust core scores the two assets
  of the first cycle and answers nothing for the single asset of the last.
\<close>

definition web_row :: adaptive_row where
  "web_row = \<lparr>pb_host = ''h'', pb_port = 80, pb_open = True, pb_banner = [], pb_rtt = 0\<rparr>"

definition sample_missions :: mission_env where
  "sample_missions =
     \<lparr>me_entropy = (\<lambda>_ _. 7), me_now = (\<lambda>k. PFloat (int (10 * k) + 5) 1),
      me_recon = (\<lambda>k _ _. Some (if k = 0 then Inr [web_row] else if k = 1 then Inl (OSError ''down'') else Inr [])),
      me_native = rust_host,
      me_rust = no_rust_graph\<lparr>rust_degree := (\<lambda>n es. Inr (if es = [(0, 1)] then [(0, 1), (1, 1)] else []))\<rparr>, me_depth = 3,
      me_chance = \<lparr>draw_unit = (\<lambda>_. 1), draw_between = (\<lambda>_ _ _. 0), flog = (\<lambda>_. 0)\<rparr>, me_stop = (\<lambda>_. False)\<rparr>"

definition sample_log :: "log_entry3 list" where
  "sample_log =
     [(1, ''MISSION_START'', [(''target'', PStr ''h''), (''timestamp'', PFloat 5 1)]),
      (2, ''MISSION_SUCCESS'', [(''active_services'', PInt 1), (''top_targets'', PList [PStr ''host:h'', PStr ''svc:h:80/tcp''])]),
      (4, ''MISSION_START'', [(''target'', PStr ''h''), (''timestamp'', PFloat 25 1)]),
      (5, ''MISSION_WARNING'', [(''message'', PStr ''No active services observed.'')])]"

lemma sample_graph_80: "mission_graph ''h'' [web_row] =
    \<lparr>g_nodes = [(''host:h'', [(''id'', PStr ''host:h''), (''kind'', PStr ''host''), (''ip'', PStr ''h'')]),
       (''svc:h:80/tcp'', [(''id'', PStr ''svc:h:80/tcp''), (''kind'', PStr ''service''), (''port'', PInt 80)])],
     g_adj = [(''host:h'', [''svc:h:80/tcp'']), (''svc:h:80/tcp'', [''host:h''])],
     g_edges = [(''host:h'', ''svc:h:80/tcp'')], g_engines = []\<rparr>"
  by code_simp

lemma sample_degrees: "served_degree (me_native sample_missions) (me_rust sample_missions) (mission_graph ''h'' [web_row]) =
    [(''host:h'', round_digits 3 1), (''svc:h:80/tcp'', round_digits 3 1)]"
  unfolding sample_graph_80
  by (simp add: served_degree_def core_degree_def rust_answers_def rust_host_def no_cores_def sample_missions_def
      native_graph_def Let_def index_or_def index_of_def node_ids_def named_scores_def reverse_index_def rank_def)

lemma sample_log_small:
  "list_all entry_small (sample_log @ [(3, ''MISSION_START'', [(''target'', PStr ''h''), (''timestamp'', PFloat 15 1)])])"
  by code_simp

lemma sample_ops:
  "mission_ops sample_missions ''h'' 0 =
     [wal_op.Begin, wal_op.Append ''MISSION_START'' [(''target'', PStr ''h''), (''timestamp'', PFloat 5 1)],
      wal_op.Append ''MISSION_SUCCESS''
        [(''active_services'', PInt 1), (''top_targets'', PList [PStr ''host:h'', PStr ''svc:h:80/tcp''])], wal_op.Commit]"
  "mission_ops sample_missions ''h'' (Suc 0) =
     [wal_op.Begin, wal_op.Append ''MISSION_START'' [(''target'', PStr ''h''), (''timestamp'', PFloat 15 1)], wal_op.Rollback]"
  "mission_ops sample_missions ''h'' (Suc (Suc 0)) =
     [wal_op.Begin, wal_op.Append ''MISSION_START'' [(''target'', PStr ''h''), (''timestamp'', PFloat 25 1)],
      wal_op.Append ''MISSION_WARNING'' [(''message'', PStr ''No active services observed.'')], wal_op.Commit]"
proof -
  have recon: "me_recon sample_missions k tgt ports =
      Some (if k = 0 then Inr [web_row] else if k = 1 then Inl (OSError ''down'') else Inr [])"
    "me_now sample_missions k = PFloat (int (10 * k) + 5) 1" for k tgt ports
    by (simp_all add: sample_missions_def)
  note simps = mission_ops_def mission_start_def recon mission_outcome_rows
  show "mission_ops sample_missions ''h'' 0 =
     [wal_op.Begin, wal_op.Append ''MISSION_START'' [(''target'', PStr ''h''), (''timestamp'', PFloat 5 1)],
      wal_op.Append ''MISSION_SUCCESS''
        [(''active_services'', PInt 1), (''top_targets'', PList [PStr ''host:h'', PStr ''svc:h:80/tcp''])], wal_op.Commit]"
    by (simp add: simps sample_degrees slice_to_def)
  show "mission_ops sample_missions ''h'' (Suc 0) =
     [wal_op.Begin, wal_op.Append ''MISSION_START'' [(''target'', PStr ''h''), (''timestamp'', PFloat 15 1)], wal_op.Rollback]"
    by (simp add: simps mission_outcome_def)
  show "mission_ops sample_missions ''h'' (Suc (Suc 0)) =
     [wal_op.Begin, wal_op.Append ''MISSION_START'' [(''target'', PStr ''h''), (''timestamp'', PFloat 25 1)],
      wal_op.Append ''MISSION_WARNING'' [(''message'', PStr ''No active services observed.'')], wal_op.Commit]"
    by (simp add: simps)
qed

lemma sample_history:
  "fold_res spec_step tlog_empty (mission_history sample_missions ''h'' 0 3) =
     Inr \<lparr>tl_committed = sample_log, tl_pending = [], tl_active = False, tl_lsn = 5\<rparr>"
  using sample_log_small
  by (simp add: mission_history_def numeral_3_eq_3 sample_ops sample_log_def tlog_empty_def Let_def entry_small_fits)

theorem mission_log_complete_witness:
  "\<exists>ps d. start_daemon sample_missions 3 (new_daemon ''h'' 30 (fresh_wal [1, 2, 3] None 0)) = (Still_running, ps, d) \<and>
     length ps = 3 \<and> replay (dm_wal d) = Inr (map entry_record sample_log, dm_wal d)"
  using mission_log_complete [OF _ sample_history, of 30 "[1, 2, 3]"]
  by (auto simp: answers_def sample_missions_def)

text \<open>
  The daemon asks for its own four ports whatever the scope allows. A target that passes the check of
  the command line is probed on 22, 80, 443 and 3306 although the port check refuses them.
\<close>
theorem mission_ports_unchecked:
  assumes "set (allowed_ports sc) \<noteq> {}" "\<not> set MISSION_PORTS \<subseteq> set (allowed_ports sc)"
    "run_mission_cycle env tgt k w = Some (Inr (), w')"
  shows "isl (check_ports sc MISSION_PORTS) \<and> me_recon env k tgt MISSION_PORTS \<noteq> None"
  using assms
  by (auto simp: check_ports_def run_mission_cycle_def Let_def filter_empty_conv split: sum.splits option.splits)

end
