(* ===== verification/Sweep.thy ===== *)
theory Sweep
  imports Scanner CBridge AsyncRecon
begin

text \<open>
  The probes outside the campaign pipeline: \<open>modules/internal/cidr_scan.py\<close> sweeps a network,
  \<open>engine/tunneled_scanner.py\<close> probes through a proxy, \<open>modules/discovery/service.py\<close> discovers ports on
  threads and asks the Go core for a port state, \<open>modules/internal/subnet_discovery.py\<close> reads routing
  tables, \<open>transport/__init__.py\<close> keeps older call sites working, and \<open>engine/ai/adaptive_learner.py\<close> is an
  epsilon-greedy bandit. What a connection does is an argument of the model.
\<close>

section \<open>A connection\<close>

text \<open>Opening and closing a connection may raise; the time it took is rounded to four digits.\<close>

record dial =
  dl_open :: "exc option"
  dl_close :: "exc option"
  dl_time :: float

record sweep_row =
  sw_host :: string
  sw_port :: int
  sw_open :: bool
  sw_latency :: float

definition dial_error :: "dial \<Rightarrow> exc option" where
  "dial_error d = (case dl_open d of Some e \<Rightarrow> Some e | None \<Rightarrow> dl_close d)"

text \<open>\<open>except (TimeoutError, OSError)\<close>: every other exception leaves the probe.\<close>

definition probe_host_port :: "(string \<Rightarrow> int \<Rightarrow> dial) \<Rightarrow> string \<Rightarrow> int \<Rightarrow> exc + sweep_row" where
  "probe_host_port net host port =
     (let d = net host port;
          row = (\<lambda>b. \<lparr>sw_host = host, sw_port = port, sw_open = b, sw_latency = round_digits 4 (dl_time d)\<rparr>)
      in case dial_error d of
          None \<Rightarrow> Inr (row True)
        | Some e \<Rightarrow> if is_os_error e then Inr (row False) else Inl e)"

section \<open>Sweeping a network\<close>

text \<open>
  \<open>network.hosts()\<close>: every address but the first and the last for IPv4, every address but the first for
  IPv6; a network of one or two addresses has them all.
\<close>

fun net_hosts :: "ip_net \<Rightarrow> string list" where
  "net_hosts (Net4 n p) =
     (if p = 32 then [show_ip4 n]
      else map (\<lambda>i. show_ip4 (word_of_nat i))
        (if p = 31 then [unat n..<unat n + 2] else [unat n + 1..<unat n + 2 ^ (32 - p) - 1]))"
| "net_hosts (Net6 n p sid) =
     (if p = 128 then [show_ip6 n @ (case sid of None \<Rightarrow> [] | Some s \<Rightarrow> CHR ''%'' # s)]
      else map (\<lambda>i. show_ip6 (word_of_nat i))
        (if p = 127 then [unat n..<unat n + 2] else [unat n + 1..<unat n + 2 ^ (128 - p)]))"

text \<open>
  \<open>Inr None\<close> is the error row of a text that is no network; a probe that raised is dropped from the results.
\<close>

definition active_row :: "exc + sweep_row \<Rightarrow> sweep_row list" where
  "active_row r = (case r of Inl _ \<Rightarrow> [] | Inr row \<Rightarrow> if sw_open row then [row] else [])"

text \<open>
  The outer None is a sweep that never returns: no probe gets past a semaphore of zero. A negative one is
  refused.
\<close>

definition scan_cidr ::
  "(string \<Rightarrow> int \<Rightarrow> dial) \<Rightarrow> string \<Rightarrow> int list \<Rightarrow> int \<Rightarrow> (exc + sweep_row list option) option" where
  "scan_cidr net cidr ports concurrency =
     (case ip_network cidr of
        None \<Rightarrow> Some (Inr None)
      | Some n \<Rightarrow>
          if concurrency < 0 then Some (Inl (ValueError ''Semaphore initial value must be >= 0''))
          else if concurrency = 0 \<and> net_hosts n \<noteq> [] \<and> ports \<noteq> [] then None
          else
            (let results = concat (map (\<lambda>host. map (probe_host_port net host) ports) (net_hosts n))
             in Some (Inr (Some (concat (map active_row results))))))"

text \<open>The base address of a network is a multiple of its size.\<close>

lemma base_aligned:
  fixes n :: "32 word"
  assumes "n AND netmask p = n"
  shows "unat n mod 2 ^ (32 - p) = 0"
proof -
  have "take_bit (32 - p) n = 0"
  proof (rule bit_word_eqI)
    fix i
    have "bit n i = bit (n AND netmask p) i" using assms by simp
    then show "bit (take_bit (32 - p) n) i = bit (0 :: 32 word) i"
      by (auto simp: bit_simps netmask_def)
  qed
  then have "take_bit (32 - p) (unat n) = 0" by (metis unsigned_0 unsigned_take_bit_eq)
  then show ?thesis by (simp only: take_bit_eq_mod)
qed

lemma unat_drop: "unat (drop_bit k (w :: 32 word)) = unat w div 2 ^ k"
proof -
  have "unat w < 2 ^ LENGTH(32)" by (rule unsigned_less)
  then have "unat (drop_bit k w) = drop_bit k (unat w)" by (simp only: unsigned_drop_bit_eq take_bit_nat_eq_self)
  then show ?thesis by (simp only: drop_bit_eq_div)
qed

lemma masked_interval:
  fixes a n :: "32 word"
  assumes "p \<le> 32" "n AND netmask p = n"
  shows "a AND netmask p = n \<longleftrightarrow> unat n \<le> unat a \<and> unat a < unat n + 2 ^ (32 - p)"
proof -
  let ?k = "32 - p"
  obtain m where m: "unat n = m * 2 ^ ?k"
    using base_aligned [OF assms(2)] by (metis mod_0_imp_dvd dvd_div_mult_self)
  have "a AND netmask p = n \<longleftrightarrow> drop_bit ?k a = drop_bit ?k n"
    using masked_eq_iff [of p a n] assms by simp
  also have "\<dots> \<longleftrightarrow> unat (drop_bit ?k a) = unat (drop_bit ?k n)" by (simp add: word_unat_eq_iff del: drop_bit_eq_div)
  also have "\<dots> \<longleftrightarrow> unat a div 2 ^ ?k = m" by (simp only: unat_drop) (simp add: m)
  also have "\<dots> \<longleftrightarrow> m * 2 ^ ?k \<le> unat a \<and> unat a < m * 2 ^ ?k + 2 ^ ?k"
    by (metis add.commute div_nat_eqI dividend_less_times_div mult.commute mult_Suc_right times_div_less_eq_dividend
        zero_less_numeral zero_less_power)
  finally show ?thesis by (simp add: m)
qed

lemma masked_below:
  fixes n :: "32 word"
  assumes "p \<le> 32" "n AND netmask p = n"
  shows "unat n + 2 ^ (32 - p) \<le> 2 ^ 32"
proof (rule ccontr)
  assume no: "\<not> unat n + 2 ^ (32 - p) \<le> 2 ^ 32"
  have "2 ^ (32 - p) dvd unat n" by (rule mod_0_imp_dvd) (rule base_aligned [OF assms(2)])
  moreover have "(2::nat) ^ (32 - p) dvd 2 ^ 32" by (rule le_imp_power_dvd) simp
  ultimately have "2 ^ (32 - p) dvd 2 ^ 32 - unat n" by (rule dvd_diff_nat [rotated])
  moreover have "unat n < 2 ^ 32" using unsigned_less [of n, where ?'a = nat] by simp
  then have "0 < 2 ^ 32 - unat n" by (rule zero_less_diff [THEN iffD2])
  ultimately have "2 ^ (32 - p) \<le> 2 ^ 32 - unat n" by (rule dvd_imp_le)
  with no \<open>unat n < 2 ^ 32\<close> show False by linarith
qed

text \<open>The addresses a sweep uses: all of the network but its first and its last, which small networks keep.\<close>

definition usable :: "32 word \<Rightarrow> nat \<Rightarrow> 32 word \<Rightarrow> bool" where
  "usable n p a \<longleftrightarrow> in_network (IP4 a) (Net4 n p) \<and> (31 \<le> p \<or> a \<noteq> n \<and> a \<noteq> n OR NOT (netmask p))"

lemma word_interval:
  fixes lo hi :: nat
  assumes "hi \<le> 2 ^ 32"
  shows "(\<lambda>i. word_of_nat i :: 32 word) ` {lo..<hi} = {a. lo \<le> unat a \<and> unat a < hi}"
proof -
  have "a \<in> (\<lambda>i. word_of_nat i) ` {lo..<hi}" if "lo \<le> unat a" "unat a < hi" for a :: "32 word"
    using that by (intro image_eqI [of _ _ "unat a"]) simp_all
  then show ?thesis using assms by (auto simp: unat_of_nat)
qed

lemma word_hosts:
  "hi \<le> 2 ^ 32 \<Longrightarrow> set (map (\<lambda>i. show_ip4 (word_of_nat i)) [lo..<hi]) = show_ip4 ` {a. lo \<le> unat a \<and> unat a < hi}"
  unfolding set_map set_upt word_interval [symmetric] by (simp add: image_image)

lemma last_address:
  fixes n :: "32 word"
  assumes "p \<le> 32" "n AND netmask p = n"
  shows "unat (n OR NOT (netmask p)) = unat n + (2 ^ (32 - p) - 1)"
proof -
  have "n AND NOT (netmask p) = 0" using assms(2) by (metis and.assoc bit.conj_cancel_right bit.conj_zero_right)
  then have "n OR NOT (netmask p) = n + NOT (netmask p)" by (simp add: disjunctive_add_eq_or)
  moreover have "unat (NOT (netmask p) :: 32 word) = 2 ^ (32 - p) - 1"
  proof -
    have "unat (take_bit (32 - p) (- 1) :: 32 word) = mask (32 - p)"
      by (simp only: unsigned_take_bit_eq unsigned_minus_1_eq_mask take_bit_of_mask) simp
    then have "unat (mask (32 - p) :: 32 word) = mask (32 - p)" by (simp only: take_bit_minus_one_eq_mask)
    moreover have "NOT (netmask p :: 32 word) = mask (32 - p)" by (simp add: netmask_def)
    ultimately show ?thesis by (simp only: mask_eq_exp_minus_1 [where ?'a = nat])
  qed
  moreover have "unat n + (2 ^ (32 - p) - 1) < 2 ^ 32"
  proof -
    have "(0::nat) < 2 ^ (32 - p)" by simp
    then show ?thesis using masked_below [OF assms] by linarith
  qed
  ultimately show ?thesis using unat_add_lem [of n "NOT (netmask p)"] by simp
qed

lemma hosts_usable:
  assumes "p \<le> 32" "n AND netmask p = n"
  shows "set (net_hosts (Net4 n p)) = show_ip4 ` {a. usable n p a}"
proof -
  let ?size = "(2::nat) ^ (32 - p)"
  have below: "unat n + ?size \<le> 2 ^ 32" by (rule masked_below [OF assms])
  have inside: "in_network (IP4 a) (Net4 n p) \<longleftrightarrow> unat n \<le> unat a \<and> unat a < unat n + ?size" for a
    using masked_interval [OF assms] by simp
  have first: "a = n \<longleftrightarrow> unat a = unat n" for a by (simp add: word_unat_eq_iff)
  have final: "a = n OR NOT (netmask p) \<longleftrightarrow> unat a = unat n + (?size - 1)" for a
    by (simp only: word_unat_eq_iff last_address [OF assms])
  consider (one) "p = 32" | (two) "p = 31" | (more) "p \<le> 30" using assms(1) by linarith
  then show ?thesis
  proof cases
    case one
    have "usable n p a \<longleftrightarrow> a = n" for a
      unfolding usable_def inside first using one by auto
    then have "{a. usable n p a} = {n}" by blast
    then show ?thesis by (simp add: one)
  next
    case two
    have "{a. usable n p a} = {a. unat n \<le> unat a \<and> unat a < unat n + 2}"
      unfolding usable_def inside using two by auto
    moreover have "unat n + 2 \<le> 2 ^ 32" using below two by simp
    moreover have "net_hosts (Net4 n p) = map (\<lambda>i. show_ip4 (word_of_nat i)) [unat n..<unat n + 2]"
      unfolding two by (simp only: net_hosts.simps if_True if_False) simp
    ultimately show ?thesis by (simp only: word_hosts)
  next
    case more
    have "{a. usable n p a} = {a. unat n + 1 \<le> unat a \<and> unat a < unat n + ?size - 1}"
      using more by (auto simp: usable_def inside first final simp del: in_network.simps)
    moreover have "unat n + ?size - 1 \<le> 2 ^ 32" using below by linarith
    moreover have "net_hosts (Net4 n p) = map (\<lambda>i. show_ip4 (word_of_nat i)) [unat n + 1..<unat n + ?size - 1]"
      using more by simp
    ultimately show ?thesis by (simp only: word_hosts)
  qed
qed

definition open_row :: "(string \<Rightarrow> int \<Rightarrow> dial) \<Rightarrow> string \<times> int \<Rightarrow> sweep_row" where
  "open_row net hp = \<lparr>sw_host = fst hp, sw_port = snd hp, sw_open = True, sw_latency = round_digits 4 (dl_time (net (fst hp) (snd hp)))\<rparr>"

lemma active_probe:
  "set (active_row (probe_host_port net h q)) = (if dial_error (net h q) = None then {open_row net (h, q)} else {})"
  by (auto simp: active_row_def open_row_def probe_host_port_def Let_def split: option.split)

lemma active_rows:
  "set (concat (map active_row (concat (map (\<lambda>h. map (probe_host_port net h) ports) hosts)))) =
     open_row net ` {(h, q). h \<in> set hosts \<and> q \<in> set ports \<and> dial_error (net h q) = None}"
  by (induction hosts) (auto simp: active_probe split: if_splits)

text \<open>
  C31: A sweep covers its network exactly. For any IPv4 network and however many probes may run at once, the
  rows it returns are the usable addresses of the network, all of them, on every port asked for that accepted
  a connection, and no other address.
\<close>
theorem sweep_covers_network:
  assumes "ip_network cidr = Some (Net4 n p)" "0 < concurrency"
  shows "\<exists>rows. scan_cidr net cidr ports concurrency = Some (Inr (Some rows)) \<and>
     set rows = open_row net ` {(show_ip4 a, port) | a port.
       usable n p a \<and> port \<in> set ports \<and> dial_error (net (show_ip4 a) port) = None}"
proof -
  have ok: "p \<le> 32" "n AND netmask p = n" using ip_network_ok [OF assms(1)] by simp_all
  let ?hosts = "net_hosts (Net4 n p)"
  have "scan_cidr net cidr ports concurrency =
      Some (Inr (Some (concat (map active_row (concat (map (\<lambda>h. map (probe_host_port net h) ports) ?hosts))))))"
    using assms(2) unfolding scan_cidr_def assms(1) Let_def by (simp del: net_hosts.simps)
  moreover have "{(h, q). h \<in> set ?hosts \<and> q \<in> set ports \<and> dial_error (net h q) = None} =
      {(show_ip4 a, port) | a port. usable n p a \<and> port \<in> set ports \<and> dial_error (net (show_ip4 a) port) = None}"
    unfolding hosts_usable [OF ok] by auto
  ultimately show ?thesis by (simp only: active_rows option.inject sum.inject ex_simps simp_thms)
qed

lemma slash_30: "ip_network ''10.0.0.0/30'' = Some (Net4 0x0A000000 30)"
  by code_simp

definition one_listener :: "string \<Rightarrow> string \<Rightarrow> int \<Rightarrow> dial" where
  "one_listener host h q = \<lparr>dl_open = (if h = host then None else Some (OSError ''refused'')), dl_close = None, dl_time = 0\<rparr>"

theorem sweep_covers_network_witness:
  "\<exists>rows. scan_cidr (one_listener ''10.0.0.2'') ''10.0.0.0/30'' [80] 100 = Some (Inr (Some rows)) \<and>
     set rows = open_row (one_listener ''10.0.0.2'') ` {(show_ip4 a, port) | a port.
       usable 0x0A000000 30 a \<and> port \<in> set [80] \<and> dial_error (one_listener ''10.0.0.2'' (show_ip4 a) port) = None}"
  by (rule sweep_covers_network [OF slash_30]) simp

section \<open>Probing through a proxy\<close>

text \<open>The header is written to the proxy and nothing is read back: only the proxy's connection is observed.\<close>

definition tunneled_tcp_probe :: "(string \<Rightarrow> int \<Rightarrow> dial) \<Rightarrow> string \<Rightarrow> int \<Rightarrow> string \<Rightarrow> int \<Rightarrow> exc + sweep_row" where
  "tunneled_tcp_probe net proxy_host proxy_port host port =
     (let d = net proxy_host proxy_port;
          row = (\<lambda>b. \<lparr>sw_host = host, sw_port = port, sw_open = b, sw_latency = round_digits 4 (dl_time d)\<rparr>)
      in case dial_error d of
          None \<Rightarrow> Inr (row True)
        | Some e \<Rightarrow> if is_os_error e then Inr (row False) else Inl e)"

definition subnet_hosts :: "string \<Rightarrow> string list" where
  "subnet_hosts stem = map (\<lambda>i. stem @ show_nat i) [1..<255]"

text \<open>\<open>gather\<close> without \<open>return_exceptions\<close>: what a probe raises leaves the scan.\<close>

definition tunneled_subnet_scan ::
  "(string \<Rightarrow> int \<Rightarrow> dial) \<Rightarrow> string \<Rightarrow> int \<Rightarrow> string \<Rightarrow> int list \<Rightarrow> exc + sweep_row list" where
  "tunneled_subnet_scan net proxy_host proxy_port stem ports =
     bind_res (map_res (\<lambda>(host, port). tunneled_tcp_probe net proxy_host proxy_port host port)
       (List.product (subnet_hosts stem) ports)) (\<lambda>rows. Inr (filter sw_open rows))"

text \<open>
  The tunnelled scan observes the proxy, not the targets. When the proxy accepts connections, every port
  of all 254 addresses is reported open, whatever is listening behind it.
\<close>
theorem tunnel_reports_everything_open:
  assumes "dial_error (net proxy_host proxy_port) = None"
  shows "\<exists>rows. tunneled_subnet_scan net proxy_host proxy_port subnet ports = Inr rows \<and>
     map (\<lambda>r. (sw_host r, sw_port r)) rows = List.product (subnet_hosts subnet) ports \<and>
     length rows = 254 * length ports \<and> list_all sw_open rows"
proof -
  let ?row = "\<lambda>(h, q). \<lparr>sw_host = h, sw_port = q, sw_open = True, sw_latency = round_digits 4 (dl_time (net proxy_host proxy_port))\<rparr>"
  have probe: "(\<lambda>(h, q). tunneled_tcp_probe net proxy_host proxy_port h q) = (\<lambda>x. Inr (?row x))"
    using assms by (simp add: fun_eq_iff tunneled_tcp_probe_def Let_def)
  have all: "map_res (\<lambda>x. Inr (?row x)) xs = Inr (map ?row xs)" for xs :: "(string \<times> int) list"
    by (induction xs) auto
  have "filter sw_open (map ?row xs) = map ?row xs" for xs by (induction xs) auto
  then have "tunneled_subnet_scan net proxy_host proxy_port subnet ports = Inr (map ?row (List.product (subnet_hosts subnet) ports))"
    by (simp only: tunneled_subnet_scan_def probe all bind_res_Inr)
  moreover have "map (\<lambda>r. (sw_host r, sw_port r)) (map ?row xs) = xs" "list_all sw_open (map ?row xs)" for xs
    by (induction xs) auto
  moreover have "length (map ?row (List.product (subnet_hosts subnet) ports)) = 254 * length ports"
    by (simp add: subnet_hosts_def)
  ultimately show ?thesis by (intro exI conjI)
qed

theorem tunnel_reports_everything_open_witness:
  "\<exists>rows. tunneled_subnet_scan (one_listener ''127.0.0.1'') ''127.0.0.1'' 1080 ''10.9.8.'' [22, 31337] = Inr rows \<and>
     length rows = 508"
proof -
  have "dial_error (one_listener ''127.0.0.1'' ''127.0.0.1'' 1080) = None"
    by (simp add: dial_error_def one_listener_def)
  from tunnel_reports_everything_open [of "one_listener ''127.0.0.1''" "''127.0.0.1''" 1080 "''10.9.8.''" "[22, 31337]", OF this] show ?thesis by auto
qed

section \<open>Discovery on threads\<close>

text \<open>\<open>Scanner.tcp_probe\<close>: only an operating system error is an answer.\<close>

definition tcp_probe :: "(string \<Rightarrow> int \<Rightarrow> exc option) \<Rightarrow> string \<Rightarrow> int \<Rightarrow> exc + pydict" where
  "tcp_probe net host port =
     (case net host port of
        Some e \<Rightarrow> if is_os_error e then Inr [(''host'', PStr host), (''port'', PInt port), (''open'', PBool False)] else Inl e
      | None \<Rightarrow> Inr [(''host'', PStr host), (''port'', PInt port), (''open'', PBool True)])"

definition service_row :: "string \<Rightarrow> int \<Rightarrow> pydict" where
  "service_row host p =
     [(''module'', PStr ''discovery''), (''host'', PStr host), (''port'', PInt p),
      (''service'', PStr (case dict_get COMMON_PORTS p of None \<Rightarrow> ''unknown'' | Some n \<Rightarrow> n)), (''open'', PBool True)]"

text \<open>
  The threads append under a lock in the order they finish, which is an argument: a rearrangement of the open
  ports. The first probe that raised, in the order of the ports, ends the discovery.
\<close>

definition discover_ports ::
  "(int \<Rightarrow> exc option) \<Rightarrow> (int list \<Rightarrow> int list) \<Rightarrow> string \<Rightarrow> int list \<Rightarrow> exc + pydict list" where
  "discover_ports connect arrival host ports =
     (let probed = (if ports = [] then dict_keys COMMON_PORTS else ports)
      in case find (\<lambda>p. case connect p of None \<Rightarrow> False | Some e \<Rightarrow> \<not> is_os_error e) probed of
          Some p \<Rightarrow> Inl (the (connect p))
        | None \<Rightarrow> Inr (map (service_row host) (sort (arrival (filter (\<lambda>p. connect p = None) probed)))))"

text \<open>
  The result of a threaded discovery does not depend on the schedule. Whatever order the probes finish
  in, it is one row for each port that accepted a connection, in ascending order.
\<close>
theorem discovery_order_irrelevant:
  assumes "\<And>xs. mset (arrival xs) = mset xs" "\<And>p e. connect p = Some e \<Longrightarrow> is_os_error e" "ports \<noteq> []"
  shows "discover_ports connect arrival host ports =
     Inr (map (service_row host) (sort (filter (\<lambda>p. connect p = None) ports)))"
proof -
  have "find (\<lambda>p. case connect p of None \<Rightarrow> False | Some e \<Rightarrow> \<not> is_os_error e) ports = None"
    using assms(2) by (auto simp: find_None_iff split: option.splits)
  moreover have "sort (arrival xs) = sort xs" for xs
    by (rule properties_for_sort) (simp_all add: assms(1))
  ultimately show ?thesis using assms(3) by (simp add: discover_ports_def)
qed

theorem discovery_order_irrelevant_witness:
  "discover_ports (\<lambda>p. if p \<in> {22, 80} then None else Some (OSError ''refused'')) rev ''h'' [443, 80, 22] =
     Inr (map (service_row ''h'') [22, 80])"
  by (subst discovery_order_irrelevant) (auto split: if_splits)

section \<open>The state of a port\<close>

definition native_engine :: "scan_outcome \<Rightarrow> bool" where
  "native_engine out \<longleftrightarrow> scan_engine out = ''go-native''"

definition native_source :: "bool \<Rightarrow> string" where
  "native_source nat_core = (if nat_core then ''native(Go)'' else ''fallback(socket)'')"

definition port_answer :: "string \<Rightarrow> int \<Rightarrow> scan_outcome \<Rightarrow> pydict" where
  "port_answer host port out =
     (let nat_core = native_engine out;
          note = (if nat_core then [] else [(''note'', PStr (scan_reason out))]);
          start = [(''module'', PStr ''discovery''), (''host'', PStr host), (''port'', PInt port)]
      in case scan_rows out of
          [] \<Rightarrow>
            if scan_engine out = ''none''
            then start @ [(''open'', PBool False), (''state'', PStr ''unknown''), (''source'', PStr ''none''),
              (''engine'', PStr ''none''), (''note'', PStr (scan_reason out))]
            else start @ [(''open'', PBool False), (''state'', PStr (if nat_core then ''closed'' else ''unknown'')),
              (''source'', PStr (native_source nat_core)), (''engine'', PStr (scan_engine out)),
              (''engine_reason'', PStr (scan_reason out))] @ note
        | row # _ \<Rightarrow>
            start @ [(''open'', PBool True),
              (''state'', if nat_core then dget_or row ''state'' (PStr ''open'') else PStr ''unknown''),
              (''service'', dget row ''service''), (''banner'', dget_or row ''banner'' (PStr [])),
              (''latency_ms'', dget row ''latency_ms''),
              (''source'', dget_or row ''source'' (PStr (native_source nat_core))),
              (''engine'', PStr (scan_engine out)), (''engine_reason'', PStr (scan_reason out))] @ note)"

definition native_connect_probe ::
  "native \<Rightarrow> (string \<Rightarrow> string \<Rightarrow> exc + (pydict list \<times> string)) \<Rightarrow> (int \<Rightarrow> connect_outcome) \<Rightarrow>
     string \<Rightarrow> int \<Rightarrow> exc + pydict" where
  "native_connect_probe nv run_go connect host port =
     bind_res (scan_ports nv run_go connect host [port] None) (\<lambda>out. Inr (port_answer host port out))"

definition native_syn_probe ::
  "native \<Rightarrow> (string \<Rightarrow> string \<Rightarrow> exc + (pydict list \<times> string)) \<Rightarrow> (int \<Rightarrow> connect_outcome) \<Rightarrow>
     string \<Rightarrow> int \<Rightarrow> exc + pydict" where
  "native_syn_probe = native_connect_probe"

lemma dget_simps [simp]:
  "dget ((k, v) # d) k = v" "k \<noteq> k' \<Longrightarrow> dget ((k', v) # d) k = dget d k"
  by (simp_all add: dget_def)

text \<open>A scan of one port is served by the Go core without an error, or by the socket probe.\<close>

lemma one_port_scan:
  assumes "scan_ports nv run_go connect host [port] None = Inr out" "host \<noteq> []"
  obtains (go) "scan_engine out = ''go-native''" "go_available nv" "run_go host (show_int port) = Inr (scan_rows out, [])"
  | (socket) "scan_engine out = ''python-fallback''"
      "scan_rows out = (if connect port = Connected then [probe_row host (port, ''open'')] else [])"
  | (nobody) "scan_engine out = ''none''" "scan_rows out = []" "connect port \<noteq> Connected"
proof -
  let ?run = "\<lambda>b. if b = Go_core then go_scan nv run_go host [port] else python_scan_ports connect host [port]"
  let ?s = "serves (backend_info_of nv) ''scan_ports'' ?run"
  let ?d = "dispatch (backend_info_of nv) ''scan_ports'' (\<lambda>_. ''does not implement scan_ports'') ?run [Go_core, Python_core] []"
  have py: "?s Python_core = (case connect port of Connect_raises e \<Rightarrow> None
      | c \<Rightarrow> Some (if c = Connected then [probe_row host (port, ''open'')] else []))"
    by (auto simp: serves_def backend_info_of_def python_info_def SCAN_CAPABILITIES_def python_scan_ports_def
        port_and_state_def probe_state_def split: connect_outcome.split)
  show thesis
  proof (cases "?s Go_core")
    case None
    show thesis
    proof (cases "?s Python_core")
      case no: None
      then have "fst ?d = None" using None unfolding dispatch_result by simp
      then obtain why where "?d = (None, why)" by (metis prod.collapse)
      then have "scan_engine out = ''none''" "scan_rows out = []"
        using assms by (auto simp: scan_ports_def order_of_def bind_res_eq_Inr)
      then show thesis using nobody no py by (simp split: connect_outcome.splits)
    next
      case (Some rows)
      then have "fst ?d = Some (rows, Python_core)" using None unfolding dispatch_result by simp
      then obtain why where "?d = (Some (rows, Python_core), why)" by (metis prod.collapse)
      then have "scan_engine out = ''python-fallback''" "scan_rows out = rows"
        using assms by (auto simp: scan_ports_def order_of_def bind_res_eq_Inr)
      then show thesis using socket Some py by (simp split: connect_outcome.splits)
    qed
  next
    case (Some rows)
    then have "fst ?d = Some (rows, Go_core)" unfolding dispatch_result by simp
    then obtain why where "?d = (Some (rows, Go_core), why)" by (metis prod.collapse)
    then have "scan_engine out = ''go-native''" "scan_rows out = rows"
      using assms by (auto simp: scan_ports_def order_of_def bind_res_eq_Inr)
    moreover have "go_available nv" "run_go host (show_int port) = Inr (rows, [])"
      using Some by (auto simp: serves_def go_scan_def bind_res_def split: if_splits sum.splits)
    ultimately show thesis using go by blast
  qed
qed

text \<open>
  C35: A port state is never invented. A port that is not open is called ``closed'' only when the Go core ran without an error and
  returned no row for the port; when the socket probe served the request the state is ``unknown'', and the
  port is called open exactly when its connection completed.
\<close>
theorem port_state_is_earned:
  assumes "native_connect_probe nv run_go connect host port = Inr d" "host \<noteq> []"
  shows "(dget d ''state'' = PStr ''closed'' \<longrightarrow> dget d ''open'' = PBool False \<longrightarrow>
       go_available nv \<and> run_go host (show_int port) = Inr ([], [])) \<and>
     (dget d ''engine'' \<noteq> PStr ''go-native'' \<longrightarrow>
       dget d ''state'' = PStr ''unknown'' \<and> dget d ''open'' = PBool (connect port = Connected))"
proof -
  obtain out where out: "scan_ports nv run_go connect host [port] None = Inr out" and d: "d = port_answer host port out"
    using assms(1) by (auto simp: native_connect_probe_def bind_res_eq_Inr)
  from out assms(2) show ?thesis
  proof (cases rule: one_port_scan)
    case go
    then show ?thesis by (simp add: d port_answer_def native_engine_def Let_def split: list.split)
  next
    case socket
    then show ?thesis by (simp add: d port_answer_def native_engine_def Let_def split: list.split)
  next
    case nobody
    then show ?thesis by (simp add: d port_answer_def native_engine_def Let_def)
  qed
qed

theorem port_state_is_earned_witness:
  "\<exists>d. native_connect_probe no_cores (\<lambda>_ _. Inr ([], [])) (\<lambda>p. if p = 22 then Connected else Connection_refused) ''h'' 23 = Inr d \<and>
     dget d ''engine'' \<noteq> PStr ''go-native'' \<and> dget d ''state'' = PStr ''unknown'' \<and> dget d ''open'' = PBool False"
proof -
  let ?c = "\<lambda>p :: int. if p = 22 then Connected else Connection_refused"
  have "case native_connect_probe no_cores (\<lambda>_ _. Inr ([], [])) ?c ''h'' 23 of
      Inl _ \<Rightarrow> False | Inr d \<Rightarrow> dget d ''engine'' = PStr ''python-fallback''"
    by code_simp
  then obtain d where d: "native_connect_probe no_cores (\<lambda>_ _. Inr ([], [])) ?c ''h'' 23 = Inr d"
    "dget d ''engine'' = PStr ''python-fallback''"
    by (auto split: sum.splits)
  with port_state_is_earned [OF d(1)] show ?thesis by auto
qed

text \<open>
  A port that drops packets is reported closed: the Go core returns no row for it, and no row means closed,
  so the third state of the documentation, ``filtered'', is never reported for a port that did not answer.
\<close>
theorem silent_port_is_closed:
  assumes "go_available nv" "run_go host (show_int port) = Inr ([], [])" "host \<noteq> []"
  shows "\<exists>d. native_connect_probe nv run_go connect host port = Inr d \<and> dget d ''state'' = PStr ''closed''"
proof -
  let ?run = "\<lambda>b. if b = Go_core then go_scan nv run_go host [port] else python_scan_ports connect host [port]"
  let ?d = "dispatch (backend_info_of nv) ''scan_ports'' (\<lambda>_. ''does not implement scan_ports'') ?run [Go_core, Python_core] []"
  have "serves (backend_info_of nv) ''scan_ports'' ?run Go_core = Some []"
    using assms(1,2) by (simp add: serves_def backend_info_of_def go_info_def SCAN_CAPABILITIES_def go_scan_def)
  then have "fst ?d = Some ([], Go_core)" unfolding dispatch_result by simp
  then obtain why where "?d = (Some ([], Go_core), why)" by (metis prod.collapse)
  then have "\<exists>out. scan_ports nv run_go connect host [port] None = Inr out \<and> scan_engine out = ''go-native'' \<and> scan_rows out = []"
    using assms(3) by (simp add: scan_ports_def order_of_def row_ports_def)
  then show ?thesis by (auto simp: native_connect_probe_def port_answer_def native_engine_def Let_def)
qed

section \<open>Older call sites\<close>

text \<open>\<open>results[0].get("matches") or []\<close> of a native or a Python row.\<close>

definition banner_hits :: "scan_row \<Rightarrow> exc + pyval list" where
  "banner_hits r =
     (case r of
        Native_row d \<Rightarrow>
          (case dget d ''matches'' of PList vs \<Rightarrow> Inr vs | v \<Rightarrow> if truthy v then Inl OutOfModel else Inr [])
      | Python_row sr \<Rightarrow> Inr (map (\<lambda>h. PDict [(''position'', PInt (hit_position h))]) (scan_matches sr)))"

definition hit_place :: "pyval \<Rightarrow> exc + int" where
  "hit_place v =
     (case v of
        PDict d \<Rightarrow> int_of_pyval (dget_or d ''position'' (PInt (- 1))) | _ \<Rightarrow> Inl (TypeError ''object has no attribute get''))"

text \<open>The signature file of the call is one file of the host; minus one is no hit and no answer alike.\<close>

definition transport_match_banner :: "c_host \<Rightarrow> string \<Rightarrow> ustr \<Rightarrow> int cm" where
  "transport_match_banner h sig_path banner =
     bind_c (scan_banners h sig_path [banner]) (\<lambda>results. lift_c
       (case results of
          [] \<Rightarrow> Inr (- 1)
        | r # _ \<Rightarrow> bind_res (banner_hits r) (\<lambda>hits. case hits of [] \<Rightarrow> Inr (- 1) | v # _ \<Rightarrow> hit_place v)))"

definition banner_fingerprint :: "native \<Rightarrow> ustr \<Rightarrow> exc + string" where
  "banner_fingerprint nv banner = bind_res (fingerprint nv banner None) (\<lambda>out. Inr (fnv32 out))"

section \<open>Routing tables\<close>

text \<open>\<open>str.split()\<close>.\<close>

fun split_blank :: "string \<Rightarrow> string \<Rightarrow> string list" where
  "split_blank acc [] = (if acc = [] then [] else [rev acc])"
| "split_blank acc (c # s) =
     (if is_space c then (if acc = [] then [] else [rev acc]) @ split_blank [] s else split_blank (c # acc) s)"

definition looks_private :: "bool \<Rightarrow> string \<Rightarrow> bool" where
  "looks_private windows line \<longleftrightarrow>
     contains (if windows then ''192.168.'' else ''192.168'') line \<or> contains ''10.'' line \<or> contains ''172.'' line"

definition first_fields :: "bool \<Rightarrow> string \<Rightarrow> string list" where
  "first_fields windows output =
     concat (map (\<lambda>line. case split_blank [] (strip line) of [] \<Rightarrow> [] | w # _ \<Rightarrow> [w])
       (filter (looks_private windows) (splitlines output)))"

text \<open>A command prints, is missing or fails, or raises something else.\<close>

datatype command_result = Printed string | Cannot_run | Raises

fun unix_table :: "command_result list \<Rightarrow> string \<Rightarrow> string option" where
  "unix_table [] output = Some output"
| "unix_table (r # rs) output =
     (case r of
        Cannot_run \<Rightarrow> unix_table rs output
      | Raises \<Rightarrow> None
      | Printed s \<Rightarrow> if strip s = [] then unix_table rs s else Some s)"

text \<open>\<open>list(set(...))\<close>: without repetitions, in an order that means nothing.\<close>

definition extract_internal_subnets :: "bool \<Rightarrow> (string list \<Rightarrow> command_result) \<Rightarrow> string list" where
  "extract_internal_subnets windows cmd =
     (let table = (if windows then (case cmd [''route'', ''print''] of Printed s \<Rightarrow> Some s | _ \<Rightarrow> None)
                   else unix_table [cmd [''netstat'', ''-rn''], cmd [''ip'', ''route'']] []);
          found = (case table of None \<Rightarrow> [] | Some s \<Rightarrow> first_fields windows s)
      in remdups (if found = [] then [''192.168.1.''] else found))"

definition get_local_interfaces :: "(exc + string) \<Rightarrow> pydict list" where
  "get_local_interfaces lookup =
     (case lookup of
        Inl _ \<Rightarrow> [] | Inr ip \<Rightarrow> [[(''interface'', PStr ''primary''), (''ip'', PStr ip)]])"

lemma split_blank_words: "w \<in> set (split_blank acc s) \<Longrightarrow> list_all (\<lambda>c. \<not> is_space c) acc \<Longrightarrow>
    w \<noteq> [] \<and> list_all (\<lambda>c. \<not> is_space c) w"
  by (induction acc s rule: split_blank.induct) (auto split: if_splits)

text \<open>There is always a subnet, and each is a word without blanks.\<close>

lemma subnets_words:
  "extract_internal_subnets windows cmd \<noteq> [] \<and>
   (\<forall>w\<in>set (extract_internal_subnets windows cmd). w \<noteq> [] \<and> list_all (\<lambda>c. \<not> is_space c) w)"
proof -
  have first: "w \<noteq> [] \<and> list_all (\<lambda>c. \<not> is_space c) w" if w: "w \<in> set (first_fields windows s)" for w s
  proof -
    obtain line where "w \<in> set (case split_blank [] (strip line) of [] \<Rightarrow> [] | w # _ \<Rightarrow> [w])"
      using w unfolding first_fields_def set_concat set_map by blast
    then have "w \<in> set (split_blank [] (strip line))" by (cases "split_blank [] (strip line)") auto
    then show ?thesis by (rule split_blank_words) simp
  qed
  have "list_all (\<lambda>c. \<not> is_space c) ''192.168.1.''" by code_simp
  then show ?thesis
    using first by (auto simp: extract_internal_subnets_def Let_def split: option.splits)
qed

text \<open>
  The reader of the routing table tests whole lines and keeps their first word: a public network routed
  through a private gateway, and the word of the default route, are reported as internal subnets.
\<close>
theorem public_route_is_internal:
  "extract_internal_subnets False (\<lambda>argv. if argv = [''ip'', ''route'']
       then Printed (''default via 10.0.0.1 dev eth0'' @ lf_char # ''8.8.8.0/24 via 10.0.0.1 dev eth0'') else Cannot_run) =
     [''default'', ''8.8.8.0/24'']"
  by code_simp

section \<open>The bandit\<close>

record bandit =
  bd_arms :: "float list"
  bd_epsilon :: float
  bd_counts :: "nat list"
  bd_values :: "float list"

definition new_bandit :: "float list \<Rightarrow> float \<Rightarrow> bandit" where
  "new_bandit arms eps =
     \<lparr>bd_arms = arms, bd_epsilon = eps, bd_counts = replicate (length arms) 0, bd_values = replicate (length arms) 0\<rparr>"

text \<open>A list index as Python reads it.\<close>

definition list_index :: "nat \<Rightarrow> int \<Rightarrow> exc + nat" where
  "list_index n i =
     (if 0 \<le> i \<and> i < int n then Inr (nat i) else if - int n \<le> i \<and> i < 0 then Inr (nat (int n + i)) else Inl IndexError)"

text \<open>\<open>values.index(max(values))\<close>.\<close>

definition best_arm :: "float list \<Rightarrow> exc + nat" where
  "best_arm vs =
     (if vs = [] then Inl (ValueError ''max() arg is an empty sequence'')
      else Inr (length (takeWhile (\<lambda>v. v \<noteq> Max (set vs)) vs)))"

text \<open>The draw of \<open>random\<close>, and what \<open>randint\<close> picks between its bounds.\<close>

definition select_arm :: "float \<Rightarrow> (int \<Rightarrow> int) \<Rightarrow> bandit \<Rightarrow> exc + nat" where
  "select_arm draw chosen b =
     (if draw < bd_epsilon b
      then (if bd_arms b = [] then Inl (ValueError ''empty range for randint'') else Inr (nat (chosen (int (length (bd_arms b)) - 1))))
      else best_arm (bd_values b))"

definition bandit_update :: "int \<Rightarrow> float \<Rightarrow> bandit \<Rightarrow> exc + bandit" where
  "bandit_update arm reward b =
     bind_res (list_index (length (bd_counts b)) arm) (\<lambda>i.
       let n = bd_counts b ! i + 1;
           v = bd_values b ! i
       in Inr (b\<lparr>bd_counts := (bd_counts b)[i := n],
                 bd_values := (bd_values b)[i := fadd v (fdiv (fsub reward v) (of_nat n))]\<rparr>))"

definition get_optimal_rate :: "bandit \<Rightarrow> exc + float" where
  "get_optimal_rate b =
     bind_res (best_arm (bd_values b)) (\<lambda>i. if i < length (bd_arms b) then Inr (bd_arms b ! i) else Inl IndexError)"

definition bandit_ok :: "bandit \<Rightarrow> bool" where
  "bandit_ok b \<longleftrightarrow> bd_arms b \<noteq> [] \<and> length (bd_counts b) = length (bd_arms b) \<and> length (bd_values b) = length (bd_arms b)"

lemma bandit_updates_ok: "fold_res (\<lambda>b (i, r). bandit_update i r b) b ops = Inr b' \<Longrightarrow> bandit_ok b \<Longrightarrow>
    bandit_ok b' \<and> bd_arms b' = bd_arms b \<and> bd_epsilon b' = bd_epsilon b"
proof (induction ops arbitrary: b)
  case (Cons op ops)
  obtain i r where op: "op = (i, r)" by (cases op)
  obtain b1 where "bandit_update i r b = Inr b1" "fold_res (\<lambda>b (i, r). bandit_update i r b) b1 ops = Inr b'"
    using Cons.prems(1) by (auto simp: op bind_res_eq_Inr)
  moreover from this(1) Cons.prems(2) have "bandit_ok b1" "bd_arms b1 = bd_arms b" "bd_epsilon b1 = bd_epsilon b"
    by (auto simp: bandit_update_def bandit_ok_def bind_res_eq_Inr Let_def)
  ultimately show ?case using Cons.IH by metis
qed simp

lemma takeWhile_before: "x \<in> set xs \<Longrightarrow> length (takeWhile (\<lambda>v. v \<noteq> x) xs) < length xs"
  by (induction xs) auto

lemma best_arm_max:
  assumes "vs \<noteq> []"
  shows "\<exists>i. best_arm vs = Inr i \<and> i < length vs \<and> (\<forall>v\<in>set vs. v \<le> vs ! i) \<and> (\<forall>j<i. vs ! j < vs ! i)"
proof -
  let ?m = "Max (set vs)" and ?pre = "takeWhile (\<lambda>v. v \<noteq> Max (set vs)) vs"
  have "?m \<in> set vs" using assms by simp
  then have less: "length ?pre < length vs" by (rule takeWhile_before)
  then have at: "vs ! length ?pre = ?m" using nth_length_takeWhile [OF less] by simp
  have "vs ! j < ?m" if "j < length ?pre" for j
  proof -
    have "vs ! j = ?pre ! j" using that by (simp add: takeWhile_nth)
    moreover have "?pre ! j \<noteq> ?m" using set_takeWhileD [OF nth_mem [OF that]] by simp
    moreover have "vs ! j \<in> set vs" using that less by (intro nth_mem) simp
    then have "vs ! j \<le> ?m" by simp
    ultimately show ?thesis by linarith
  qed
  then show ?thesis using less at assms by (intro exI [of _ "length ?pre"]) (simp add: best_arm_def)
qed

text \<open>
  After any rewards the learned rate is the rate of an arm with the highest estimate, the first one of
  them, and exploration aside the bandit selects that arm.
\<close>
theorem bandit_greedy:
  assumes "fold_res (\<lambda>b (i, r). bandit_update i r b) (new_bandit arms eps) ops = Inr b" "arms \<noteq> []" "\<not> draw < eps"
  shows "\<exists>i. select_arm draw chosen b = Inr i \<and> i < length arms \<and> get_optimal_rate b = Inr (arms ! i) \<and>
     (\<forall>v\<in>set (bd_values b). v \<le> bd_values b ! i) \<and> (\<forall>j<i. bd_values b ! j < bd_values b ! i)"
proof -
  have "bandit_ok (new_bandit arms eps)" using assms(2) by (simp add: bandit_ok_def new_bandit_def)
  from bandit_updates_ok [OF assms(1) this] have b: "bandit_ok b" "bd_arms b = arms"
      "bd_epsilon b = bd_epsilon (new_bandit arms eps)"
    by (simp_all add: new_bandit_def)
  have eps: "bd_epsilon b = eps" using b(3) by (simp add: new_bandit_def)
  have vs: "bd_values b \<noteq> []" "length (bd_values b) = length arms" using b(1,2) by (auto simp: bandit_ok_def)
  then obtain i where i: "best_arm (bd_values b) = Inr i" "i < length arms"
      "\<forall>v\<in>set (bd_values b). v \<le> bd_values b ! i" "\<forall>j<i. bd_values b ! j < bd_values b ! i"
    using best_arm_max [of "bd_values b"] by metis
  have "select_arm draw chosen b = Inr i" using assms(3) by (simp add: select_arm_def eps i(1))
  moreover have "get_optimal_rate b = Inr (arms ! i)" using i(2) by (simp add: get_optimal_rate_def i(1) b(2))
  ultimately show ?thesis using i(2-4) by blast
qed

theorem bandit_greedy_witness:
  "\<exists>b i. bandit_update 1 3 (new_bandit [10, 50, 25] 0) = Inr b \<and> select_arm 0 (\<lambda>n. n) b = Inr i \<and>
     get_optimal_rate b = Inr ([10, 50, 25] ! i)"
proof -
  obtain b where b: "bandit_update 1 3 (new_bandit [10, 50, 25] 0) = Inr b"
    by (simp add: bandit_update_def new_bandit_def list_index_def Let_def)
  then have "fold_res (\<lambda>b (i, r). bandit_update i r b) (new_bandit [10, 50, 25] 0) [(1, 3)] = Inr b" by simp
  from bandit_greedy [OF this, of 0 "\<lambda>n. n"] b show ?thesis by auto
qed

end
