(* ===== verification/Build.thy ===== *)
theory Build
  imports Cores OsGuess
begin

text \<open>
  \<open>build.py\<close>: the build and test pipeline. Running a command and looking at the file system are answers of
  the host at a moment, counted by the commands run so far; an operation threads that count and the signing
  tally and may raise. What is printed on the way is left out, except for the summary.
\<close>

section \<open>Commands and exceptions\<close>

text \<open>
  A command ends, is not found, is refused by the operating system, or ends in another
  \<open>subprocess.SubprocessError\<close>.
\<close>

datatype proc = Exited int string string | Absent string | Denied "int option" string | Unfinished string

datatype build_exc = Not_found string | Os_refused "int option" string | Sub_error string | Other_exc exc

record build_host =
  bh_windows :: bool
  bh_darwin :: bool
  bh_env :: "string \<Rightarrow> string option"
  bh_which :: "string \<Rightarrow> string option"
  bh_kits :: "string \<Rightarrow> (string \<times> int) list"
  bh_is_file :: "nat \<Rightarrow> string \<Rightarrow> bool"
  bh_is_dir :: "nat \<Rightarrow> string \<Rightarrow> bool"
  bh_mtime :: "nat \<Rightarrow> string \<Rightarrow> int"
  bh_names :: "nat \<Rightarrow> string \<Rightarrow> string list"
  bh_test_files :: "nat \<Rightarrow> string \<Rightarrow> string option list"
  bh_run :: "nat \<Rightarrow> string \<Rightarrow> string option \<Rightarrow> string list \<Rightarrow> proc"
  bh_health :: "(exc + health) option"

record build =
  bd_clock :: nat
  bd_tally :: "(string, nat) dict"

type_synonym 'a bm = "build \<Rightarrow> (build_exc + 'a) \<times> build"

definition ret_b :: "'a \<Rightarrow> 'a bm" where "ret_b x b = (Inr x, b)"

definition raise_b :: "build_exc \<Rightarrow> 'a bm" where "raise_b e b = (Inl e, b)"

definition bind_b :: "'a bm \<Rightarrow> ('a \<Rightarrow> 'b bm) \<Rightarrow> 'b bm" where
  "bind_b m f b = (case m b of (Inl e, b') \<Rightarrow> (Inl e, b') | (Inr x, b') \<Rightarrow> f x b')"

text \<open>A handler gives None for what it does not catch.\<close>

definition catch_b :: "'a bm \<Rightarrow> (build_exc \<Rightarrow> 'a bm option) \<Rightarrow> 'a bm" where
  "catch_b m handler b =
     (case m b of
        (Inl e, b') \<Rightarrow> (case handler e of None \<Rightarrow> (Inl e, b') | Some k \<Rightarrow> k b')
      | (Inr x, b') \<Rightarrow> (Inr x, b'))"

definition see :: "(nat \<Rightarrow> 'a) \<Rightarrow> 'a bm" where
  "see f b = (Inr (f (bd_clock b)), b)"

fun each_b :: "('a \<Rightarrow> unit bm) \<Rightarrow> 'a list \<Rightarrow> unit bm" where
  "each_b f [] = ret_b ()"
| "each_b f (x # xs) = bind_b (f x) (\<lambda>_. each_b f xs)"

fun fold_b :: "('s \<Rightarrow> 'a \<Rightarrow> 's bm) \<Rightarrow> 's \<Rightarrow> 'a list \<Rightarrow> 's bm" where
  "fold_b f s [] = ret_b s"
| "fold_b f s (x # xs) = bind_b (f s x) (\<lambda>t. fold_b f t xs)"

definition sub :: "string \<Rightarrow> string \<Rightarrow> string" where
  "sub dir name = dir @ CHR ''/'' # name"

definition bh_exists :: "build_host \<Rightarrow> nat \<Rightarrow> string \<Rightarrow> bool" where
  "bh_exists h t p \<longleftrightarrow> bh_is_file h t p \<or> bh_is_dir h t p"

definition exec :: "build_host \<Rightarrow> string \<Rightarrow> string option \<Rightarrow> string list \<Rightarrow> proc bm" where
  "exec h cwd cc argv b = (Inr (bh_run h (bd_clock b) cwd cc argv), b\<lparr>bd_clock := Suc (bd_clock b)\<rparr>)"

text \<open>\<open>subprocess.run(..., check=False)\<close>.\<close>

definition spawn :: "build_host \<Rightarrow> string \<Rightarrow> string option \<Rightarrow> string list \<Rightarrow> (int \<times> string \<times> string) bm" where
  "spawn h cwd cc argv =
     bind_b (exec h cwd cc argv) (\<lambda>p.
       case p of
         Exited n out err \<Rightarrow> ret_b (n, out, err)
       | Absent t \<Rightarrow> raise_b (Not_found t)
       | Denied w t \<Rightarrow> raise_b (Os_refused w t)
       | Unfinished t \<Rightarrow> raise_b (Sub_error t))"

text \<open>\<open>except (subprocess.SubprocessError, FileNotFoundError)\<close>.\<close>

definition missing_or_failed :: "build_exc \<Rightarrow> bool" where
  "missing_or_failed e = (case e of Not_found _ \<Rightarrow> True | Sub_error _ \<Rightarrow> True | _ \<Rightarrow> False)"

text \<open>Only a command that ran and failed, or that is not there, is an answer of \<open>run_cmd\<close>.\<close>

definition run_cmd :: "build_host \<Rightarrow> string list \<Rightarrow> string \<Rightarrow> bool bm" where
  "run_cmd h cmd cwd =
     catch_b (bind_b (spawn h cwd None cmd) (\<lambda>(n, _, _). ret_b (n = 0)))
       (\<lambda>e. case e of Not_found _ \<Rightarrow> Some (ret_b False) | _ \<Rightarrow> None)"

section \<open>Host policy\<close>

definition POLICY_BLOCK_MARKERS :: "string list" where
  "POLICY_BLOCK_MARKERS = [''blocked this file'', ''une strat'', ''application control'', ''applicationcontrol'']"

definition looks_policy_blocked :: "string \<Rightarrow> bool" where
  "looks_policy_blocked txt = list_ex (\<lambda>m. contains m (lower txt)) POLICY_BLOCK_MARKERS"

definition is_policy_block :: "int option \<Rightarrow> string \<Rightarrow> bool" where
  "is_policy_block winerror txt \<longleftrightarrow>
     winerror = Some 4551 \<or> contains ''application control'' (lower txt) \<or> contains ''applicationcontrol'' (lower txt)"

section \<open>Signing\<close>

definition fresh_tally :: "(string, nat) dict" where
  "fresh_tally = [(''signed'', 0), (''unsigned'', 0), (''failed'', 0), (''blocked'', 0)]"

definition tally_of :: "build \<Rightarrow> string \<Rightarrow> nat" where
  "tally_of b k = (case dict_get (bd_tally b) k of None \<Rightarrow> 0 | Some n \<Rightarrow> n)"

definition signing_tally :: "build \<Rightarrow> nat \<times> nat \<times> nat" where
  "signing_tally b = (tally_of b ''signed'', tally_of b ''unsigned'', tally_of b ''failed'')"

definition record_signing :: "string \<Rightarrow> unit bm" where
  "record_signing state b = (Inr (), b\<lparr>bd_tally := dict_set state (tally_of b state + 1) (bd_tally b)\<rparr>)"

definition SIGN_CERT_ENV :: string where "SIGN_CERT_ENV = ''HELIOS_SIGN_PFX''"
definition SIGN_PASS_ENV :: string where "SIGN_PASS_ENV = ''HELIOS_SIGN_PASSWORD''"
definition SIGN_TS_ENV :: string where "SIGN_TS_ENV = ''HELIOS_SIGN_TIMESTAMP''"

definition DEFAULT_TIMESTAMP_URL :: string where
  "DEFAULT_TIMESTAMP_URL = ''http://timestamp.digicert.com''"

definition env_or :: "build_host \<Rightarrow> string \<Rightarrow> string \<Rightarrow> string" where
  "env_or h k v = (case bh_env h k of None \<Rightarrow> v | Some x \<Rightarrow> if x = [] then v else x)"

definition signing_config :: "build_host \<Rightarrow> (string \<times> string \<times> string) option bm" where
  "signing_config h = see (\<lambda>t.
     let cert = env_or h SIGN_CERT_ENV []
     in if cert = [] \<or> \<not> bh_is_file h t cert then None
        else Some (cert, env_or h SIGN_PASS_ENV [], env_or h SIGN_TS_ENV DEFAULT_TIMESTAMP_URL))"

text \<open>\<open>bh_kits\<close> lists the signtool of each kit version under a program folder, with its time.\<close>

definition newest_kit :: "(string \<times> int) list \<Rightarrow> string option" where
  "newest_kit ks = map_option fst
     (foldl (\<lambda>best k. case best of None \<Rightarrow> Some k | Some b \<Rightarrow> if snd b < snd k then Some k else Some b) None ks)"

definition find_signtool :: "build_host \<Rightarrow> string option" where
  "find_signtool h =
     (if \<not> bh_windows h then None
      else case bh_which h ''signtool'' of
          Some p \<Rightarrow> Some p
        | None \<Rightarrow>
            (case map newest_kit (map (bh_kits h)
                (filter (\<lambda>r. r \<noteq> []) (map (\<lambda>v. env_or h v []) [''ProgramFiles(x86)'', ''ProgramFiles'']))) of
               ks \<Rightarrow> (case filter (\<lambda>k. k \<noteq> None) ks of [] \<Rightarrow> None | k # _ \<Rightarrow> k)))"

definition sign_command :: "string \<Rightarrow> string \<times> string \<times> string \<Rightarrow> string \<Rightarrow> string list" where
  "sign_command signtool cfg path =
     (case cfg of (cert, password, timestamp) \<Rightarrow>
        [signtool, ''sign''] @ (if password = [] then [] else [''/p'', password]) @
        [''/fd'', ''SHA256'', ''/f'', cert, ''/tr'', timestamp, ''/td'', ''SHA256'', path])"

text \<open>The verification stands outside the handler of the signing itself: what it raises leaves the build step.\<close>

definition sign_artifact_inner :: "build_host \<Rightarrow> string \<Rightarrow> string bm" where
  "sign_artifact_inner h path =
     bind_b (signing_config h) (\<lambda>cfg.
       case cfg of
         None \<Rightarrow> ret_b ''unsigned''
       | Some c \<Rightarrow>
           bind_b (see (\<lambda>t. bh_is_file h t path)) (\<lambda>there.
             if \<not> there then ret_b ''unsigned''
             else case find_signtool h of
                 None \<Rightarrow> ret_b ''unsigned''
               | Some tool \<Rightarrow>
                   bind_b (catch_b (bind_b (spawn h [] None (sign_command tool c path)) (\<lambda>(n, _, _).
                       ret_b (if n = 0 then [] else ''failed'')))
                     (\<lambda>e. case e of
                            Os_refused w t \<Rightarrow> Some (ret_b (if is_policy_block w t then ''blocked'' else ''failed''))
                          | Not_found t \<Rightarrow> Some (ret_b (if is_policy_block (Some 2) t then ''blocked'' else ''failed''))
                          | Sub_error _ \<Rightarrow> Some (ret_b ''failed'')
                          | Other_exc _ \<Rightarrow> None)) (\<lambda>st.
                     if st \<noteq> [] then ret_b st
                     else bind_b (spawn h [] None [tool, ''verify'', ''/pa'', path]) (\<lambda>(n, _, _).
                       ret_b (if n = 0 then ''signed'' else ''failed'')))))"

definition sign_artifact :: "build_host \<Rightarrow> string \<Rightarrow> string bm" where
  "sign_artifact h path =
     bind_b (sign_artifact_inner h path) (\<lambda>state. bind_b (record_signing state) (\<lambda>_. ret_b state))"

text \<open>\<open>_sign_and_report\<close> prints what happened and changes nothing else.\<close>

definition sign_and_report :: "build_host \<Rightarrow> string \<Rightarrow> string bm" where
  "sign_and_report h path = sign_artifact h path"

section \<open>Building\<close>

text \<open>The directories of the native modules, of which \<open>transport\<close> is the first.\<close>

definition TRANSPORT :: string where "TRANSPORT = ''transport''"

definition go_modules :: "build_host \<Rightarrow> nat \<Rightarrow> string list" where
  "go_modules h t =
     filter (\<lambda>d. bh_is_dir h t d \<and> bh_exists h t (sub d ''go.mod'')) (map (sub TRANSPORT) (bh_names h t TRANSPORT))"

definition exe_name :: "build_host \<Rightarrow> string \<Rightarrow> string" where
  "exe_name h stem = (if bh_windows h then stem @ ''.exe'' else stem)"

definition base_name :: "string \<Rightarrow> string" where
  "base_name p = rev (takeWhile (\<lambda>c. c \<noteq> CHR ''/'') (rev p))"

definition build_go_components :: "build_host \<Rightarrow> unit bm" where
  "build_go_components h =
     bind_b (see (\<lambda>t. if bh_exists h t TRANSPORT then go_modules h t else []))
       (each_b (\<lambda>d. let out = exe_name h (base_name d) in
          bind_b (run_cmd h [''go'', ''build'', ''-ldflags=-s -w'', ''-o'', out, ''.''] d) (\<lambda>ok.
            if ok then bind_b (sign_and_report h (sub d out)) (\<lambda>_. ret_b ()) else ret_b ())))"

definition RUST_LIBRARIES :: "string list" where
  "RUST_LIBRARIES = [''helios_rust_core.dll'', ''libhelios_rust_core.so'', ''libhelios_rust_core.dylib'']"

definition build_rust_core :: "build_host \<Rightarrow> unit bm" where
  "build_rust_core h =
     bind_b (see (\<lambda>t. bh_exists h t ''rust-core'' \<and> bh_exists h t ''rust-core/Cargo.toml'')) (\<lambda>there.
       if \<not> there then ret_b ()
       else bind_b (run_cmd h [''cargo'', ''build'', ''--release''] ''rust-core'') (\<lambda>ok.
         if \<not> ok then ret_b ()
         else bind_b (see (\<lambda>t. find (\<lambda>p. bh_is_file h t p) (map (sub ''rust-core/target/release'') RUST_LIBRARIES))) (\<lambda>lib.
           case lib of None \<Rightarrow> ret_b () | Some p \<Rightarrow> bind_b (sign_and_report h p) (\<lambda>_. ret_b ()))))"

definition C_CORE :: string where "C_CORE = ''transport/c_core''"

definition C_SRC :: string where "C_SRC = ''transport/c_core/src''"

definition C_BUILD :: string where "C_BUILD = ''transport/c_core/build''"

definition C_INCLUDE :: string where "C_INCLUDE = ''transport/c_core/include''"

definition c_files :: "build_host \<Rightarrow> nat \<Rightarrow> string \<Rightarrow> string list" where
  "c_files h t dir = filter (endswith ''.c'') (bh_names h t dir)"

definition c_units :: "build_host \<Rightarrow> nat \<Rightarrow> string list" where
  "c_units h t = sort (map (sub C_SRC) (filter (\<lambda>n. n \<noteq> ''helios_dll.c'') (c_files h t C_SRC)))"

definition shared_library_name :: "build_host \<Rightarrow> string" where
  "shared_library_name h =
     (if bh_windows h then ''helios_core.dll'' else if bh_darwin h then ''libhelios_core.dylib'' else ''libhelios_core.so'')"

text \<open>A command is tried with gcc, then with clang.\<close>

definition gcc_or_clang :: "build_host \<Rightarrow> string list \<Rightarrow> string \<Rightarrow> bool bm" where
  "gcc_or_clang h args cwd =
     bind_b (run_cmd h (''gcc'' # args) cwd) (\<lambda>ok. if ok then ret_b True else run_cmd h (''clang'' # args) cwd)"

definition C_COMMON :: "string list" where
  "C_COMMON = [''-std=c11'', ''-Wall'', ''-Wextra'', ''-Wpedantic'', ''-O2'', ''-I'' @ C_INCLUDE]"

definition build_c_core :: "build_host \<Rightarrow> bool bm" where
  "build_c_core h =
     bind_b (see (\<lambda>t. bh_is_dir h t C_INCLUDE \<and> bh_is_dir h t C_SRC)) (\<lambda>there.
       if \<not> there then ret_b False
       else bind_b (see (c_units h)) (\<lambda>units.
         if units = [] then ret_b False
         else let binary = sub C_BUILD (exe_name h ''helios_core'') in
           bind_b (gcc_or_clang h (C_COMMON @ units @ [''-o'', binary]) []) (\<lambda>ok.
             if \<not> ok then ret_b False
             else bind_b (sign_and_report h binary) (\<lambda>_.
               let library = sub C_BUILD (shared_library_name h);
                   visibility = (if bh_windows h then [] else [''-fvisibility=hidden''])
               in bind_b (gcc_or_clang h (C_COMMON @ visibility @ [''-shared'', ''-fPIC''] @ units @
                      [sub C_SRC ''helios_dll.c'', ''-o'', library]) []) (\<lambda>ok.
                 if \<not> ok then ret_b False
                 else bind_b (sign_and_report h library) (\<lambda>_. ret_b True))))))"

definition C_SIZE_FLAGS :: "string list" where
  "C_SIZE_FLAGS = [''-Os'', ''-ffunction-sections'', ''-fdata-sections'', ''-static'', ''-Wl,--gc-sections'', ''-s'']"

definition SKIP_DIRS :: "string list" where
  "SKIP_DIRS = [''c_core'', ''c_matcher'', ''fingerprint'']"

definition file_stem :: "string \<Rightarrow> string" where
  "file_stem n = take (length n - 2) n"

definition build_primitive :: "build_host \<Rightarrow> string \<Rightarrow> string \<Rightarrow> unit bm" where
  "build_primitive h dir n =
     bind_b (gcc_or_clang h (C_SIZE_FLAGS @ [''-o'', sub dir (exe_name h (file_stem n)), sub dir n]) dir) (\<lambda>_. ret_b ())"

text \<open>Whether the core was built is not given back.\<close>

definition build_c_components :: "build_host \<Rightarrow> unit bm" where
  "build_c_components h =
     bind_b (build_c_core h) (\<lambda>ok.
       if \<not> ok \<or> \<not> bh_windows h then ret_b ()
       else bind_b (see (\<lambda>t. if bh_exists h t TRANSPORT
              then filter (\<lambda>n. bh_is_dir h t (sub TRANSPORT n) \<and> n \<notin> set SKIP_DIRS) (bh_names h t TRANSPORT) else []))
         (each_b (\<lambda>n. bind_b (see (\<lambda>t. c_files h t (sub TRANSPORT n))) (each_b (build_primitive h (sub TRANSPORT n))))))"

section \<open>Unit tests\<close>

definition run_rust_unit_tests :: "build_host \<Rightarrow> string bm" where
  "run_rust_unit_tests h =
     bind_b (see (\<lambda>t. bh_exists h t ''rust-core/Cargo.toml'')) (\<lambda>there.
       if \<not> there then ret_b ''failed''
       else catch_b
         (bind_b (spawn h ''rust-core'' None [''cargo'', ''test'', ''--release'']) (\<lambda>(n, out, err).
            ret_b (if n = 0 then ''passed'' else if looks_policy_blocked (out @ err) then ''blocked'' else ''failed'')))
         (\<lambda>e. if missing_or_failed e then Some (ret_b ''failed'') else None))"

definition cc_compiler_works :: "build_host \<Rightarrow> string \<Rightarrow> bool bm" where
  "cc_compiler_works h compiler =
     catch_b (bind_b (spawn h [] None [compiler, ''--version'']) (\<lambda>(n, _, _). ret_b (n = 0)))
       (\<lambda>e. case e of Other_exc _ \<Rightarrow> None | _ \<Rightarrow> Some (ret_b False))"

fun first_working :: "build_host \<Rightarrow> string list \<Rightarrow> string option bm" where
  "first_working h [] = ret_b None"
| "first_working h (c # cs) = bind_b (cc_compiler_works h c) (\<lambda>ok. if ok then ret_b (Some c) else first_working h cs)"

text \<open>The compiler that the race detector is given.\<close>

definition race_env :: "build_host \<Rightarrow> string option bm" where
  "race_env h =
     first_working h ((if env_or h ''CC'' [] = [] then [] else [env_or h ''CC'' []]) @
       concat (map (\<lambda>c. case bh_which h c of None \<Rightarrow> [] | Some p \<Rightarrow> if p = [] then [] else [p]) [''gcc'', ''clang'', ''cc'']))"

definition fuzz_names :: "string \<Rightarrow> string list" where
  "fuzz_names txt =
     filter (\<lambda>n. n \<noteq> [])
       (map (\<lambda>l. strip (takeWhile (\<lambda>c. c \<noteq> CHR ''('') (drop 5 l)))
         (filter (startswith ''func Fuzz'') (map strip (splitlines txt))))"

definition go_fuzz_targets :: "build_host \<Rightarrow> nat \<Rightarrow> string \<Rightarrow> string list" where
  "go_fuzz_targets h t d =
     sort (remdups (concat (map (\<lambda>f. case f of None \<Rightarrow> [] | Some txt \<Rightarrow> fuzz_names txt) (bh_test_files h t d))))"

definition fuzz_command :: "int \<Rightarrow> string \<Rightarrow> string list" where
  "fuzz_command seconds tgt =
     [''go'', ''test'', ''-run'', ''^$'', ''-fuzz'', ''^'' @ tgt @ ''$'', ''-fuzztime'', show_int seconds @ ''s'', ''.'']"

text \<open>The first command that cannot run ends the fuzzing; a target that fails does not.\<close>

fun fuzz_targets :: "build_host \<Rightarrow> int \<Rightarrow> string \<Rightarrow> bool \<Rightarrow> string list \<Rightarrow> (bool \<times> bool) bm" where
  "fuzz_targets h seconds d ok [] = ret_b (True, ok)"
| "fuzz_targets h seconds d ok (tgt # ts) =
     bind_b (catch_b (bind_b (spawn h d None (fuzz_command seconds tgt)) (\<lambda>(n, _, _). ret_b (Some (n = 0))))
         (\<lambda>e. if missing_or_failed e then Some (ret_b None) else None)) (\<lambda>r.
       case r of None \<Rightarrow> ret_b (False, False) | Some fine \<Rightarrow> fuzz_targets h seconds d (ok \<and> fine) ts)"

fun fuzz_modules :: "build_host \<Rightarrow> int \<Rightarrow> bool \<Rightarrow> string list \<Rightarrow> bool bm" where
  "fuzz_modules h seconds ok [] = ret_b ok"
| "fuzz_modules h seconds ok (d # ds) =
     bind_b (bind_b (see (\<lambda>t. go_fuzz_targets h t d)) (fuzz_targets h seconds d ok)) (\<lambda>(go, ok').
       if go then fuzz_modules h seconds ok' ds else ret_b False)"

definition run_go_fuzz :: "build_host \<Rightarrow> string list \<Rightarrow> int \<Rightarrow> bool bm" where
  "run_go_fuzz h ds seconds = fuzz_modules h seconds True (sort ds)"

section \<open>The Go suite\<close>

text \<open>A stage is recorded as True, False or a text.\<close>

datatype stage_result = R_true | R_false | R_text string

record go_run =
  gr_ok :: bool
  gr_blocked :: bool
  gr_race_ran :: bool
  gr_note :: string

definition go_stages :: "bool \<Rightarrow> (string \<times> string list) list" where
  "go_stages race =
     [(''gofmt'', [''gofmt'', ''-l'', ''.'']), (''vet'', [''go'', ''vet'', ''./...'']),
      (''test'', [''go'', ''test'', ''-count=1'', ''./...''])] @
     (if race then [(''race'', [''go'', ''test'', ''-race'', ''-count=1'', ''./...''])] else [])"

definition judge_stage :: "string \<Rightarrow> int \<times> string \<times> string \<Rightarrow> go_run \<Rightarrow> go_run" where
  "judge_stage label r s =
     (case r of (n, out, err) \<Rightarrow>
        if label = ''gofmt''
        then (if list_ex (\<lambda>l. strip l \<noteq> []) (splitlines out) then s\<lparr>gr_ok := False\<rparr> else s)
        else if n \<noteq> 0
        then (if looks_policy_blocked (out @ err) then s\<lparr>gr_ok := False, gr_blocked := True\<rparr> else s\<lparr>gr_ok := False\<rparr>)
        else s)"

text \<open>None is a command that cannot run, which ends the suite.\<close>

definition go_command :: "build_host \<Rightarrow> string \<Rightarrow> string \<Rightarrow> string option \<Rightarrow> string list \<Rightarrow> go_run \<Rightarrow> go_run option bm" where
  "go_command h d label cc args s =
     catch_b (bind_b (spawn h d cc args) (\<lambda>r. ret_b (Some (judge_stage label r s))))
       (\<lambda>e. if missing_or_failed e then Some (ret_b None) else None)"

definition NO_RACE :: string where
  "NO_RACE = ''no C compiler, so the race detector cannot run''"

definition go_stage :: "build_host \<Rightarrow> string \<Rightarrow> string \<times> string list \<Rightarrow> go_run \<Rightarrow> go_run option bm" where
  "go_stage h d la s =
     (if fst la = ''race''
      then bind_b (race_env h) (\<lambda>cc.
        case cc of
          None \<Rightarrow> ret_b (Some (s\<lparr>gr_note := NO_RACE\<rparr>))
        | Some c \<Rightarrow> go_command h d (fst la) (Some c) (snd la) (s\<lparr>gr_race_ran := True\<rparr>))
      else go_command h d (fst la) None (snd la) s)"

fun go_suite :: "build_host \<Rightarrow> (string \<times> string \<times> string list) list \<Rightarrow> go_run \<Rightarrow> go_run option bm" where
  "go_suite h [] s = ret_b (Some s)"
| "go_suite h ((d, la) # rest) s =
     bind_b (go_stage h d la s) (\<lambda>r. case r of None \<Rightarrow> ret_b None | Some s' \<Rightarrow> go_suite h rest s')"

definition go_answer :: "go_run \<Rightarrow> string" where
  "go_answer s = (if \<not> gr_ok s \<and> gr_blocked s then ''blocked'' else if gr_ok s then ''passed'' else ''failed'')"

definition fresh_go_run :: go_run where
  "fresh_go_run = \<lparr>gr_ok = True, gr_blocked = False, gr_race_ran = False, gr_note = []\<rparr>"

text \<open>The result, and the note left for the summary.\<close>

definition run_go_unit_tests :: "build_host \<Rightarrow> bool \<Rightarrow> int \<Rightarrow> (stage_result \<times> string) bm" where
  "run_go_unit_tests h race fuzz_seconds =
     bind_b (see (\<lambda>t. if bh_is_dir h t TRANSPORT then Some (go_modules h t) else None)) (\<lambda>found.
       case found of None \<Rightarrow> raise_b (Not_found TRANSPORT) | Some ds \<Rightarrow>
       if ds = [] then ret_b (R_false, [])
       else bind_b (go_suite h (List.product (sort ds) (go_stages race)) fresh_go_run) (\<lambda>r.
         case r of
           None \<Rightarrow> ret_b (R_false, [])
         | Some s \<Rightarrow>
             bind_b (if 0 < fuzz_seconds then bind_b (run_go_fuzz h ds fuzz_seconds) (\<lambda>f. ret_b (f \<and> gr_ok s)) else ret_b (gr_ok s))
               (\<lambda>ok. ret_b (R_text (go_answer (s\<lparr>gr_ok := ok\<rparr>)), gr_note s))))"

section \<open>The C suites\<close>

definition c_build_inputs :: "build_host \<Rightarrow> nat \<Rightarrow> string list" where
  "c_build_inputs h t =
     sort (concat (map (\<lambda>d. map (sub (sub C_CORE d))
       (filter (\<lambda>n. endswith ''.c'' n \<or> endswith ''.h'' n) (bh_names h t (sub C_CORE d)))) [''src'', ''include'', ''tests'']))"

definition usable_prebuilt :: "build_host \<Rightarrow> string \<Rightarrow> nat \<Rightarrow> bool" where
  "usable_prebuilt h binary t \<longleftrightarrow>
     bh_exists h t binary \<and> c_build_inputs h t \<noteq> [] \<and>
     \<not> bh_mtime h t binary < Max (set (map (bh_mtime h t) (c_build_inputs h t)))"

definition C_STRICT_FLAGS :: "string list" where
  "C_STRICT_FLAGS =
     [''-Wall'', ''-Wextra'', ''-Wpedantic'', ''-Wshadow'', ''-Wcast-qual'', ''-Wcast-align'', ''-Wstrict-prototypes'',
      ''-Wmissing-prototypes'', ''-Wpointer-arith'', ''-Wwrite-strings'', ''-Wredundant-decls'', ''-Wundef'', ''-Wvla'',
      ''-Wformat=2'', ''-Wswitch-enum'', ''-Wdouble-promotion'', ''-Winit-self'']"

definition c_test_command :: "build_host \<Rightarrow> nat \<Rightarrow> string list \<Rightarrow> string \<Rightarrow> string \<Rightarrow> string list" where
  "c_test_command h t opts source binary =
     [''-std=c11''] @ opts @ [''-Werror''] @ C_STRICT_FLAGS @ [''-I'' @ C_INCLUDE, source] @
     map (sub C_SRC) (filter (\<lambda>n. n \<noteq> ''main.c'') (sort (c_files h t C_SRC))) @ [''-o'', binary]"

text \<open>Compiled now, or a prebuilt binary that is no older than any source; then signed.\<close>

definition c_test_binary :: "build_host \<Rightarrow> string list \<Rightarrow> string \<Rightarrow> string \<Rightarrow> bool bm" where
  "c_test_binary h opts source binary =
     bind_b (see (\<lambda>t. c_test_command h t opts source binary)) (\<lambda>args.
     bind_b (gcc_or_clang h args []) (\<lambda>compiled.
     bind_b (see (\<lambda>t. compiled \<or> usable_prebuilt h binary t)) (\<lambda>fine.
       if fine then bind_b (sign_and_report h binary) (\<lambda>_. ret_b True) else ret_b False)))"

definition run_c_core_tests :: "build_host \<Rightarrow> string bm" where
  "run_c_core_tests h =
     (let source = sub C_CORE ''tests/test_core.c''; binary = sub C_BUILD (exe_name h ''test_core'')
      in bind_b (see (\<lambda>t. bh_exists h t source)) (\<lambda>there.
        if \<not> there then ret_b ''skipped''
        else bind_b (c_test_binary h [''-O2''] source binary) (\<lambda>fine.
          if \<not> fine then ret_b ''skipped''
          else catch_b (bind_b (spawn h [] None [binary]) (\<lambda>(n, _, _). ret_b (if n = 0 then ''passed'' else ''failed'')))
            (\<lambda>e. case e of
                   Os_refused w t \<Rightarrow> Some (ret_b (if is_policy_block w t then ''blocked'' else ''failed''))
                 | Not_found t \<Rightarrow> Some (ret_b (if is_policy_block (Some 2) t then ''blocked'' else ''failed''))
                 | _ \<Rightarrow> None))))"

definition FUZZ_ATTEMPTS :: nat where "FUZZ_ATTEMPTS = 3"

text \<open>Only a refusal by the policy is tried again, with the same binary.\<close>

fun fuzz_attempts :: "build_host \<Rightarrow> string \<Rightarrow> nat \<Rightarrow> string bm" where
  "fuzz_attempts h binary 0 = ret_b ''blocked''"
| "fuzz_attempts h binary (Suc n) =
     catch_b (bind_b (spawn h [] None [binary]) (\<lambda>(r, _, _). ret_b (if r = 0 then ''passed'' else ''failed'')))
       (\<lambda>e. case e of
              Os_refused w t \<Rightarrow> Some (if is_policy_block w t then fuzz_attempts h binary n else ret_b ''failed'')
            | Not_found t \<Rightarrow> Some (if is_policy_block (Some 2) t then fuzz_attempts h binary n else ret_b ''failed'')
            | _ \<Rightarrow> None)"

definition run_c_fuzz_harness :: "build_host \<Rightarrow> string bm" where
  "run_c_fuzz_harness h =
     (let source = sub C_CORE ''tests/fuzz_harness.c''; binary = sub C_BUILD (exe_name h ''fuzz_harness'')
      in bind_b (see (\<lambda>t. bh_exists h t source)) (\<lambda>there.
        if \<not> there then ret_b ''skipped''
        else bind_b (c_test_binary h [''-O1'', ''-g''] source binary) (\<lambda>fine.
          if \<not> fine then ret_b ''skipped'' else fuzz_attempts h binary FUZZ_ATTEMPTS)))"

definition run_core_health :: "build_host \<Rightarrow> string bm" where
  "run_core_health h =
     (case bh_health h of
        None \<Rightarrow> ret_b ''failed''
      | Some (Inl e) \<Rightarrow> raise_b (Other_exc e)
      | Some (Inr r) \<Rightarrow> ret_b
          (if list_ex (\<lambda>c. core_state c = FAILED) (health_cores r) then ''failed''
           else if list_ex (\<lambda>c. core_state c = BLOCKED) (health_cores r) then ''blocked'' else ''passed''))"

section \<open>The report\<close>

record toolchain =
  tc_go :: bool
  tc_rust :: bool
  tc_c :: bool
  tc_go_tests :: stage_result
  tc_rust_tests :: stage_result
  tc_c_tests :: stage_result
  tc_c_build :: "bool option"
  tc_c_fuzz :: string
  tc_health :: string
  tc_race_note :: string

definition fresh_toolchain :: toolchain where
  "fresh_toolchain =
     \<lparr>tc_go = False, tc_rust = False, tc_c = False, tc_go_tests = R_false, tc_rust_tests = R_false, tc_c_tests = R_false,
      tc_c_build = None, tc_c_fuzz = ''skipped'', tc_health = ''skipped'', tc_race_note = []\<rparr>"

definition BLOCKED_TEXT :: string where "BLOCKED_TEXT = ''BLOCKED BY HOST POLICY''"

text \<open>The table the summary looks a result up in; \<open>skipped\<close> is an entry of some tables only.\<close>

definition state_of :: "stage_result \<Rightarrow> string \<Rightarrow> string" where
  "state_of r default_state =
     (if r = R_true \<or> r = R_text ''passed'' then ''PASSED''
      else if r = R_false \<or> r = R_text ''failed'' then ''FAILED''
      else if r = R_text ''blocked'' then BLOCKED_TEXT else default_state)"

definition go_state_helper :: "toolchain \<Rightarrow> string" where
  "go_state_helper tc =
     (if tc_go_tests tc \<in> {R_true, R_text ''passed''} then ''PASSED''
      else if tc_go_tests tc \<in> {R_false, R_text ''failed''} then (if tc_go tc then ''FAILED'' else ''SKIPPED'')
      else if tc_go_tests tc = R_text ''blocked'' then BLOCKED_TEXT else ''SKIPPED'')"

definition go_report_state :: "toolchain \<Rightarrow> string" where
  "go_report_state tc =
     (if tc_go_tests tc = R_text ''skipped'' then ''SKIPPED''
      else state_of (tc_go_tests tc) (if tc_go tc then ''FAILED'' else ''SKIPPED''))"

definition rust_report_state :: "toolchain \<Rightarrow> string" where
  "rust_report_state tc =
     (if tc_rust_tests tc = R_text ''failed'' \<and> \<not> tc_rust tc then ''SKIPPED'' else state_of (tc_rust_tests tc) ''SKIPPED'')"

definition c_core_state :: "toolchain \<Rightarrow> string" where
  "c_core_state tc =
     (if tc_c_build tc = Some False then ''FAILED (C build failed)''
      else state_of (tc_c_tests tc) ''SKIPPED (no usable C toolchain)'')"

definition fuzz_report_state :: "toolchain \<Rightarrow> string" where
  "fuzz_report_state tc = state_of (R_text (tc_c_fuzz tc)) ''SKIPPED''"

definition health_report_state :: "toolchain \<Rightarrow> string" where
  "health_report_state tc = state_of (R_text (tc_health tc)) ''SKIPPED''"

definition failing_stages :: "(string \<times> string) list \<Rightarrow> string list" where
  "failing_stages sts = map fst (filter (\<lambda>kv. startswith ''FAILED'' (snd kv)) sts)"

definition report_states :: "toolchain \<Rightarrow> (string \<times> string) list" where
  "report_states tc =
     [(''Go unit tests'', go_report_state tc), (''Rust unit tests'', rust_report_state tc), (''C core tests'', c_core_state tc),
      (''C core fuzzer'', fuzz_report_state tc), (''core health'', health_report_state tc)]"

definition coverage_gaps :: "toolchain \<Rightarrow> string list" where
  "coverage_gaps tc =
     map fst (filter (\<lambda>kv. startswith ''BLOCKED'' (snd kv) \<or> startswith ''SKIPPED'' (snd kv))
       [(''the Go test/race suite'', go_report_state tc), (''the C unit suite'', c_core_state tc),
        (''the C differential fuzzer'', fuzz_report_state tc), (''the native core health probe'', health_report_state tc)])"

record build_report =
  br_status :: toolchain
  br_states :: "(string \<times> string) list"
  br_gaps :: "string list"
  br_signing :: "nat \<times> nat \<times> nat"
  br_failed :: "string list"
  br_exit :: int

section \<open>The pipeline\<close>

definition FUZZ_FLAG :: string where "FUZZ_FLAG = ''--fuzz=''"

definition fuzz_seconds_of :: "string list \<Rightarrow> exc + int" where
  "fuzz_seconds_of argv =
     (case find (startswith FUZZ_FLAG) argv of
        None \<Rightarrow> Inr 0 | Some a \<Rightarrow> int_of_text (drop (length FUZZ_FLAG) a))"

text \<open>\<open>check=True\<close>: an exit status other than zero raises.\<close>

definition spawn_checked :: "build_host \<Rightarrow> string list \<Rightarrow> unit bm" where
  "spawn_checked h argv =
     bind_b (spawn h [] None argv) (\<lambda>(n, _, err). if n = 0 then ret_b () else raise_b (Sub_error err))"

definition caught :: "'a \<Rightarrow> 'a bm \<Rightarrow> 'a bm" where
  "caught x m = catch_b m (\<lambda>e. if missing_or_failed e then Some (ret_b x) else None)"

text \<open>The compiler is found, and what its build raises is caught with it.\<close>

definition toolchain_stage :: "build_host \<Rightarrow> string list \<Rightarrow> unit bm \<Rightarrow> bool bm" where
  "toolchain_stage h version components =
     bind_b (caught False (bind_b (spawn_checked h version) (\<lambda>_. ret_b True))) (\<lambda>found.
       if found then bind_b (caught () components) (\<lambda>_. ret_b True) else ret_b False)"

definition c_stage :: "build_host \<Rightarrow> toolchain \<Rightarrow> toolchain bm" where
  "c_stage h tc =
     bind_b (first_working h [''gcc'', ''clang'']) (\<lambda>compiler.
       case compiler of
         None \<Rightarrow> ret_b tc
       | Some c \<Rightarrow>
           bind_b (caught () (spawn_checked h [c, ''--version''])) (\<lambda>_.
           bind_b (caught False (bind_b (build_c_components h) (\<lambda>_. ret_b True))) (\<lambda>built.
             ret_b (tc\<lparr>tc_c := True, tc_c_build := Some built\<rparr>))))"

definition build_stages :: "build_host \<Rightarrow> toolchain bm" where
  "build_stages h =
     bind_b (toolchain_stage h [''go'', ''version''] (build_go_components h)) (\<lambda>go.
     bind_b (toolchain_stage h [''cargo'', ''--version''] (build_rust_core h)) (\<lambda>rust.
       c_stage h (fresh_toolchain\<lparr>tc_go := go, tc_rust := rust\<rparr>)))"

definition go_test_stage :: "build_host \<Rightarrow> int \<Rightarrow> toolchain \<Rightarrow> toolchain bm" where
  "go_test_stage h fuzz_seconds tc =
     (if tc_go tc
      then bind_b (run_go_unit_tests h True fuzz_seconds) (\<lambda>(r, note). ret_b (tc\<lparr>tc_go_tests := r, tc_race_note := note\<rparr>))
      else ret_b tc)"

definition rust_test_stage :: "build_host \<Rightarrow> toolchain \<Rightarrow> toolchain bm" where
  "rust_test_stage h tc =
     (if tc_rust tc then bind_b (run_rust_unit_tests h) (\<lambda>r. ret_b (tc\<lparr>tc_rust_tests := R_text r\<rparr>)) else ret_b tc)"

definition test_stages :: "build_host \<Rightarrow> int \<Rightarrow> toolchain \<Rightarrow> toolchain bm" where
  "test_stages h fuzz_seconds tc =
     bind_b (go_test_stage h fuzz_seconds tc) (\<lambda>tc1.
     bind_b (rust_test_stage h tc1) (\<lambda>tc2.
     bind_b (run_c_core_tests h) (\<lambda>ct.
     bind_b (run_c_fuzz_harness h) (\<lambda>cf.
     bind_b (run_core_health h) (\<lambda>hl.
       ret_b (tc2\<lparr>tc_c_tests := R_text ct, tc_c_fuzz := cf, tc_health := hl\<rparr>))))))"

text \<open>Without the test flag there is no report, and the status is zero.\<close>

definition summarise :: "bool \<Rightarrow> toolchain \<Rightarrow> build_report bm" where
  "summarise run_tests tc b =
     (let sts = (if run_tests then report_states tc else []); failed = failing_stages sts
      in (Inr \<lparr>br_status = tc, br_states = sts, br_gaps = (if run_tests then coverage_gaps tc else []),
           br_signing = signing_tally b, br_failed = failed, br_exit = (if failed = [] then 0 else 1)\<rparr>, b))"

definition build_main :: "build_host \<Rightarrow> string list \<Rightarrow> build_report bm" where
  "build_main h argv =
     (case fuzz_seconds_of argv of
        Inl e \<Rightarrow> raise_b (Other_exc e)
      | Inr seconds \<Rightarrow>
          bind_b (build_stages h) (\<lambda>tc.
            if ''--test'' \<in> set argv then bind_b (test_stages h seconds tc) (summarise True) else summarise False tc))"

definition fresh_build :: build where
  "fresh_build = \<lparr>bd_clock = 0, bd_tally = fresh_tally\<rparr>"

end
