(* ===== verification/BuildFacts.thy ===== *)
theory BuildFacts
  imports Build
begin

text \<open>
  What the build pipeline of \<open>build.py\<close> guarantees: a pass of a native suite is evidence, a failing suite
  fails the process, every artifact is counted; and where a report contradicts what happened.
\<close>

section \<open>The operations\<close>

lemma bind_b_Inr: "bind_b m f b = (Inr y, b') \<longleftrightarrow> (\<exists>x b1. m b = (Inr x, b1) \<and> f x b1 = (Inr y, b'))"
  by (auto simp: bind_b_def split: prod.splits sum.splits)

lemma ret_b_Inr [simp]: "ret_b x b = (Inr y, b') \<longleftrightarrow> y = x \<and> b' = b"
  by (auto simp: ret_b_def)

lemma raise_b_Inr [simp]: "raise_b e b \<noteq> (Inr y, b')"
  by (simp add: raise_b_def)

lemma see_Inr [simp]: "see f b = (Inr y, b') \<longleftrightarrow> y = f (bd_clock b) \<and> b' = b"
  by (auto simp: see_def)

lemma spawn_Inr:
  "spawn h cwd cc argv b = (Inr (n, out, err), b') \<longleftrightarrow>
     bh_run h (bd_clock b) cwd cc argv = Exited n out err \<and> b' = b\<lparr>bd_clock := Suc (bd_clock b)\<rparr>"
  by (auto simp: spawn_def bind_b_Inr exec_def split: proc.splits)

lemma catch_b_Inr: "catch_b m handler b = (Inr y, b') \<longleftrightarrow>
    m b = (Inr y, b') \<or>
    (\<exists>t b1 k. m b = (Inl (Not_found t), b1) \<and> handler (Not_found t) = Some k \<and> k b1 = (Inr y, b')) \<or>
    (\<exists>w t b1 k. m b = (Inl (Os_refused w t), b1) \<and> handler (Os_refused w t) = Some k \<and> k b1 = (Inr y, b')) \<or>
    (\<exists>t b1 k. m b = (Inl (Sub_error t), b1) \<and> handler (Sub_error t) = Some k \<and> k b1 = (Inr y, b')) \<or>
    (\<exists>x b1 k. m b = (Inl (Other_exc x), b1) \<and> handler (Other_exc x) = Some k \<and> k b1 = (Inr y, b'))"
proof (cases "m b")
  case (Pair r b1)
  then show ?thesis
  proof (cases r)
    case (Inl e)
    then show ?thesis using Pair by (cases e) (auto simp: catch_b_def split: option.splits)
  qed (auto simp: catch_b_def)
qed

section \<open>Evidence\<close>

text \<open>A command that ran and ended with status zero.\<close>

definition ran_ok :: "build_host \<Rightarrow> string \<Rightarrow> string list \<Rightarrow> bool" where
  "ran_ok h cwd argv \<longleftrightarrow> (\<exists>t out err. bh_run h t cwd None argv = Exited 0 out err)"

lemma run_cmd_True: "run_cmd h cmd cwd b = (Inr True, b') \<Longrightarrow> ran_ok h cwd cmd"
  by (auto simp: run_cmd_def catch_b_Inr bind_b_Inr spawn_Inr ran_ok_def)

lemma gcc_or_clang_True:
  "gcc_or_clang h args cwd b = (Inr True, b') \<Longrightarrow> ran_ok h cwd (''gcc'' # args) \<or> ran_ok h cwd (''clang'' # args)"
  by (auto simp: gcc_or_clang_def bind_b_Inr split: if_splits dest: run_cmd_True)

text \<open>The compiler built the binary, or no source is newer than the one that was there.\<close>

definition current_binary :: "build_host \<Rightarrow> string list \<Rightarrow> string \<Rightarrow> string \<Rightarrow> bool" where
  "current_binary h opts source binary \<longleftrightarrow>
     (\<exists>t cc. cc \<in> {''gcc'', ''clang''} \<and> ran_ok h [] (cc # c_test_command h t opts source binary)) \<or>
     (\<exists>t. bh_exists h t binary \<and> (\<forall>i\<in>set (c_build_inputs h t). bh_mtime h t i \<le> bh_mtime h t binary))"

lemma usable_prebuilt_current:
  "usable_prebuilt h binary t \<Longrightarrow> bh_exists h t binary \<and> (\<forall>i\<in>set (c_build_inputs h t). bh_mtime h t i \<le> bh_mtime h t binary)"
  by (auto simp: usable_prebuilt_def not_less)

lemma c_test_binary_current:
  assumes "c_test_binary h opts source binary b = (Inr True, b')"
  shows "current_binary h opts source binary"
proof -
  obtain compiled b1 where c: "gcc_or_clang h (c_test_command h (bd_clock b) opts source binary) [] b = (Inr compiled, b1)"
    and u: "compiled \<or> usable_prebuilt h binary (bd_clock b1)"
    using assms by (auto simp: c_test_binary_def bind_b_Inr split: if_splits)
  show ?thesis
  proof (cases compiled)
    case True
    with c have "ran_ok h [] (''gcc'' # c_test_command h (bd_clock b) opts source binary) \<or>
        ran_ok h [] (''clang'' # c_test_command h (bd_clock b) opts source binary)"
      by (auto dest: gcc_or_clang_True)
    then show ?thesis unfolding current_binary_def by blast
  next
    case False
    then have "usable_prebuilt h binary (bd_clock b1)" using u by simp
    from usable_prebuilt_current [OF this] show ?thesis unfolding current_binary_def by blast
  qed
qed

lemma fuzz_attempts_passed: "fuzz_attempts h binary n b = (Inr ''passed'', b') \<Longrightarrow> ran_ok h [] [binary]"
proof (induction n arbitrary: b)
  case (Suc n)
  then show ?case
    by (auto simp: catch_b_Inr bind_b_Inr spawn_Inr ran_ok_def split: if_splits)
qed simp

text \<open>
  C29: A pass of a native suite is evidence about the current source. When the C suite or the fuzzer reports a
  pass, its binary ran and ended with status zero, and it was compiled from the sources as they were then or
  is no older than any of them.
\<close>
theorem native_pass_is_evidence:
  "(run_c_core_tests h b = (Inr ''passed'', b') \<longrightarrow>
     (let binary = sub C_BUILD (exe_name h ''test_core'')
      in ran_ok h [] [binary] \<and> current_binary h [''-O2''] (sub C_CORE ''tests/test_core.c'') binary)) \<and>
   (run_c_fuzz_harness h b = (Inr ''passed'', b') \<longrightarrow>
     (let binary = sub C_BUILD (exe_name h ''fuzz_harness'')
      in ran_ok h [] [binary] \<and> current_binary h [''-O1'', ''-g''] (sub C_CORE ''tests/fuzz_harness.c'') binary))"
proof (intro conjI impI)
  let ?binary = "sub C_BUILD (exe_name h ''test_core'')"
  assume "run_c_core_tests h b = (Inr ''passed'', b')"
  then have "\<exists>b1 b2. c_test_binary h [''-O2''] (sub C_CORE ''tests/test_core.c'') ?binary b1 = (Inr True, b2)"
    and "ran_ok h [] [?binary]"
    by (auto simp: run_c_core_tests_def Let_def bind_b_Inr catch_b_Inr spawn_Inr ran_ok_def split: if_splits)
  then show "let binary = ?binary
      in ran_ok h [] [binary] \<and> current_binary h [''-O2''] (sub C_CORE ''tests/test_core.c'') binary"
    by (auto simp: Let_def dest: c_test_binary_current)
next
  let ?binary = "sub C_BUILD (exe_name h ''fuzz_harness'')"
  assume "run_c_fuzz_harness h b = (Inr ''passed'', b')"
  then have "\<exists>b1 b2. c_test_binary h [''-O1'', ''-g''] (sub C_CORE ''tests/fuzz_harness.c'') ?binary b1 = (Inr True, b2)"
    and "ran_ok h [] [?binary]"
    by (auto simp: run_c_fuzz_harness_def Let_def bind_b_Inr split: if_splits dest: fuzz_attempts_passed)
  then show "let binary = ?binary
      in ran_ok h [] [binary] \<and> current_binary h [''-O1'', ''-g''] (sub C_CORE ''tests/fuzz_harness.c'') binary"
    by (auto simp: Let_def dest: c_test_binary_current)
qed

section \<open>Hosts\<close>

text \<open>A host with the Go and Rust toolchains, no C compiler, and the C sources.\<close>

definition quiet_health :: health where
  "quiet_health = \<lparr>health_status = ''ok'', health_platform = ''linux'', health_python = ''3.12'', health_cores = [],
     native_usable = 0, native_total = 3\<rparr>"

definition sample_host :: "(string list \<Rightarrow> proc) \<Rightarrow> build_host" where
  "sample_host answer =
     \<lparr>bh_windows = False, bh_darwin = False, bh_env = (\<lambda>_. None), bh_which = (\<lambda>_. None), bh_kits = (\<lambda>_. []),
      bh_is_file = (\<lambda>_ p. p \<in> set [''transport/net/go.mod'', ''rust-core/Cargo.toml'', ''transport/c_core/tests/test_core.c'',
        ''transport/c_core/tests/fuzz_harness.c'']),
      bh_is_dir = (\<lambda>_ p. p \<in> set [''transport'', ''transport/net'', ''rust-core'', ''transport/c_core/include'', ''transport/c_core/src'']),
      bh_mtime = (\<lambda>_ _. 0),
      bh_names = (\<lambda>_ p. if p = ''transport'' then [''net''] else if p = ''transport/c_core/src'' then [''core.c'', ''main.c''] else []),
      bh_test_files = (\<lambda>_ _. []), bh_run = (\<lambda>_ _ _ argv. answer argv), bh_health = Some (Inr quiet_health)\<rparr>"

definition fine_answer :: "string list \<Rightarrow> proc" where
  "fine_answer argv = Exited 0 [] []"

theorem native_pass_is_evidence_witness:
  "run_c_core_tests (sample_host fine_answer) fresh_build = (Inr ''passed'', \<lparr>bd_clock = 2, bd_tally = dict_set ''unsigned'' 1 fresh_tally\<rparr>) \<and>
   (let binary = ''transport/c_core/build/test_core''
    in ran_ok (sample_host fine_answer) [] [binary] \<and>
       current_binary (sample_host fine_answer) [''-O2''] ''transport/c_core/tests/test_core.c'' binary)"
proof -
  have names: "sub C_BUILD (exe_name (sample_host fine_answer) ''test_core'') = ''transport/c_core/build/test_core''"
    "sub C_CORE ''tests/test_core.c'' = ''transport/c_core/tests/test_core.c''"
    by (simp_all add: sub_def C_BUILD_def C_CORE_def exe_name_def sample_host_def)
  have run: "run_c_core_tests (sample_host fine_answer) fresh_build =
      (Inr ''passed'', \<lparr>bd_clock = 2, bd_tally = dict_set ''unsigned'' 1 fresh_tally\<rparr>)"
    by code_simp
  with native_pass_is_evidence [of "sample_host fine_answer" fresh_build "\<lparr>bd_clock = 2, bd_tally = dict_set ''unsigned'' 1 fresh_tally\<rparr>"]
  show ?thesis by (simp only: names run simp_thms)
qed

section \<open>Signing\<close>

text \<open>An operation that leaves the tally alone, whatever it ends in.\<close>

definition tally_free :: "'a bm \<Rightarrow> bool" where
  "tally_free m \<longleftrightarrow> (\<forall>b r b'. m b = (r, b') \<longrightarrow> bd_tally b' = bd_tally b)"

lemma tally_freeI [intro]:
  "tally_free (ret_b x)" "tally_free (raise_b e)" "tally_free (see f)"
  by (auto simp: tally_free_def ret_b_def raise_b_def see_def)

lemma tally_free_bind [intro]: "tally_free m \<Longrightarrow> (\<And>x. tally_free (f x)) \<Longrightarrow> tally_free (bind_b m f)"
  unfolding tally_free_def bind_b_def by (auto split: prod.splits sum.splits)

lemma tally_free_catch [intro]:
  assumes "tally_free m" "\<And>e k. handler e = Some k \<Longrightarrow> tally_free k"
  shows "tally_free (catch_b m handler)"
  unfolding tally_free_def
proof (intro allI impI)
  fix b r b'
  assume run: "catch_b m handler b = (r, b')"
  obtain r1 b1 where m: "m b = (r1, b1)" by (cases "m b")
  then have b1: "bd_tally b1 = bd_tally b" using assms(1) by (auto simp: tally_free_def)
  show "bd_tally b' = bd_tally b"
  proof (cases "\<exists>e k. r1 = Inl e \<and> handler e = Some k")
    case True
    then obtain e k where "r1 = Inl e" "handler e = Some k" by blast
    then show ?thesis using run m b1 assms(2) by (auto simp: catch_b_def tally_free_def)
  next
    case False
    then show ?thesis using run m b1 by (cases r1) (auto simp: catch_b_def split: option.splits)
  qed
qed

lemma tally_free_spawn [intro]: "tally_free (spawn h cwd cc argv)"
  by (auto simp: tally_free_def spawn_def bind_b_def exec_def ret_b_def raise_b_def split: proc.splits)

lemma tally_free_sign: "tally_free (sign_artifact_inner h path)"
  unfolding sign_artifact_inner_def signing_config_def
  by (rule tally_free_bind tally_freeI tally_free_catch tally_free_spawn
    | auto split: option.split prod.split if_split | auto split: build_exc.splits)+

lemma sign_states:
  "sign_artifact_inner h path b = (Inr st, b') \<Longrightarrow> st \<in> {''signed'', ''unsigned'', ''failed'', ''blocked''}"
  by (auto simp: sign_artifact_inner_def bind_b_Inr catch_b_Inr signing_config_def split: option.splits if_splits)

text \<open>
  No artifact escapes the tally. Whatever a signing comes to, exactly its count goes up, by one, and it
  is one of the four outcomes.
\<close>
theorem signing_counted_once:
  assumes "sign_artifact h path b = (Inr st, b')"
  shows "st \<in> {''signed'', ''unsigned'', ''failed'', ''blocked''} \<and> tally_of b' st = tally_of b st + 1 \<and>
     (\<forall>k. k \<noteq> st \<longrightarrow> tally_of b' k = tally_of b k)"
proof -
  obtain b1 where inner: "sign_artifact_inner h path b = (Inr st, b1)" and b': "(Inr (), b') = record_signing st b1"
    using assms by (auto simp: sign_artifact_def bind_b_Inr)
  have "bd_tally b1 = bd_tally b" using tally_free_sign inner by (auto simp: tally_free_def)
  then have "tally_of b1 k = tally_of b k" for k by (simp add: tally_of_def)
  then show ?thesis using sign_states [OF inner] b' by (auto simp: record_signing_def tally_of_def)
qed

theorem signing_counted_once_witness:
  "\<exists>b'. sign_artifact (sample_host fine_answer) ''core'' fresh_build = (Inr ''unsigned'', b') \<and>
     tally_of b' ''unsigned'' = 1 \<and> tally_of b' ''signed'' = 0"
proof -
  have "fst (sign_artifact (sample_host fine_answer) ''core'' fresh_build) = Inr ''unsigned''" by code_simp
  then obtain b' where run: "sign_artifact (sample_host fine_answer) ''core'' fresh_build = (Inr ''unsigned'', b')"
    by (metis prod.collapse)
  have "tally_of fresh_build ''unsigned'' = 0" "tally_of fresh_build ''signed'' = 0" by code_simp+
  with signing_counted_once [OF run] run show ?thesis by auto
qed

section \<open>The exit status\<close>

lemma fails_simps [simp]:
  "startswith ''FAILED'' ''FAILED''" "startswith ''FAILED'' ''FAILED (C build failed)''"
  by (simp_all add: startswith_def)

lemma test_stages_frame:
  assumes "test_stages h seconds tc b = (Inr tc', b')"
  shows "tc_go tc' = tc_go tc" "tc_rust tc' = tc_rust tc" "tc_c_build tc' = tc_c_build tc"
    "\<not> tc_go tc \<Longrightarrow> tc_go_tests tc' = tc_go_tests tc" "\<not> tc_rust tc \<Longrightarrow> tc_rust_tests tc' = tc_rust_tests tc"
proof -
  obtain tc1 tc2 b1 b2 ct cf hl where g: "go_test_stage h seconds tc b = (Inr tc1, b1)"
    and r: "rust_test_stage h tc1 b1 = (Inr tc2, b2)" and tc': "tc' = tc2\<lparr>tc_c_tests := R_text ct, tc_c_fuzz := cf, tc_health := hl\<rparr>"
    using assms unfolding test_stages_def bind_b_Inr ret_b_Inr by (elim exE conjE) blast
  have g': "tc_go tc1 = tc_go tc \<and> tc_rust tc1 = tc_rust tc \<and> tc_c_build tc1 = tc_c_build tc \<and>
      tc_rust_tests tc1 = tc_rust_tests tc \<and> (\<not> tc_go tc \<longrightarrow> tc_go_tests tc1 = tc_go_tests tc)"
    using g by (cases "tc_go tc") (auto simp: go_test_stage_def bind_b_Inr)
  have r': "tc_go tc2 = tc_go tc1 \<and> tc_rust tc2 = tc_rust tc1 \<and> tc_c_build tc2 = tc_c_build tc1 \<and>
      tc_go_tests tc2 = tc_go_tests tc1 \<and> (\<not> tc_rust tc1 \<longrightarrow> tc_rust_tests tc2 = tc_rust_tests tc1)"
    using r by (cases "tc_rust tc1") (auto simp: rust_test_stage_def bind_b_Inr)
  show "tc_go tc' = tc_go tc" "tc_rust tc' = tc_rust tc" "tc_c_build tc' = tc_c_build tc"
    "\<not> tc_go tc \<Longrightarrow> tc_go_tests tc' = tc_go_tests tc" "\<not> tc_rust tc \<Longrightarrow> tc_rust_tests tc' = tc_rust_tests tc"
    using g' r' by (simp_all add: tc')
qed

lemma build_stages_fresh:
  assumes "build_stages h b = (Inr tc, b')"
  shows "tc_go_tests tc = R_false" "tc_rust_tests tc = R_false"
proof -
  obtain go rust b1 where c: "c_stage h (fresh_toolchain\<lparr>tc_go := go, tc_rust := rust\<rparr>) b1 = (Inr tc, b')"
    using assms unfolding build_stages_def bind_b_Inr by blast
  then show "tc_go_tests tc = R_false" "tc_rust_tests tc = R_false"
    by (auto simp: c_stage_def fresh_toolchain_def bind_b_Inr split: option.splits)
qed

lemma tested_report:
  assumes "build_main h argv b = (Inr r, b')" "''--test'' \<in> set argv"
  obtains tc tc' b1 seconds where "build_stages h b = (Inr tc, b1)" "test_stages h seconds tc b1 = (Inr tc', b')"
    "br_status r = tc'" "br_states r = report_states tc'" "br_gaps r = coverage_gaps tc'"
    "br_exit r = (if failing_stages (report_states tc') = [] then 0 else 1)"
proof -
  obtain seconds where "fuzz_seconds_of argv = Inr seconds"
    using assms(1) by (cases "fuzz_seconds_of argv") (auto simp: build_main_def)
  then obtain tc b1 where st: "build_stages h b = (Inr tc, b1)"
    and rest: "bind_b (test_stages h seconds tc) (summarise True) b1 = (Inr r, b')"
    using assms by (auto simp: build_main_def bind_b_Inr)
  obtain tc' b2 where ts: "test_stages h seconds tc b1 = (Inr tc', b2)" and su: "summarise True tc' b2 = (Inr r, b')"
    using rest unfolding bind_b_Inr by blast
  from su have "b2 = b'" and "r = \<lparr>br_status = tc', br_states = report_states tc', br_gaps = coverage_gaps tc',
      br_signing = signing_tally b2, br_failed = failing_stages (report_states tc'),
      br_exit = (if failing_stages (report_states tc') = [] then 0 else 1)\<rparr>"
    by (auto simp: summarise_def Let_def)
  then show thesis using that st ts by simp
qed

lemma failing_stages_Nil:
  "failing_stages (report_states tc) = [] \<longleftrightarrow>
     \<not> startswith ''FAILED'' (go_report_state tc) \<and> \<not> startswith ''FAILED'' (rust_report_state tc) \<and>
     \<not> startswith ''FAILED'' (c_core_state tc) \<and> \<not> startswith ''FAILED'' (fuzz_report_state tc) \<and>
     \<not> startswith ''FAILED'' (health_report_state tc)"
  by (auto simp: failing_stages_def report_states_def)


text \<open>
  A host without the Go toolchain: the Go stage is reported as failed and fails the process, where the helper
  written for the report, and the note beside it, say it is skipped.
\<close>
theorem missing_go_fails_build:
  assumes "build_main h argv b = (Inr r, b')" "''--test'' \<in> set argv" "\<not> tc_go (br_status r)"
  shows "go_report_state (br_status r) = ''FAILED'' \<and> br_exit r = 1 \<and> go_state_helper (br_status r) = ''SKIPPED''"
proof -
  obtain tc tc' b1 seconds where st: "build_stages h b = (Inr tc, b1)" "test_stages h seconds tc b1 = (Inr tc', b')"
    and r: "br_status r = tc'" "br_exit r = (if failing_stages (report_states tc') = [] then 0 else 1)"
    using tested_report [OF assms(1,2)] by metis
  have no: "\<not> tc_go tc'" using assms(3) by (simp add: r)
  then have none: "tc_go_tests tc' = R_false"
    using test_stages_frame(1,4) [OF st(2)] build_stages_fresh(1) [OF st(1)] by simp
  then have failed: "go_report_state tc' = ''FAILED''" by (simp add: go_report_state_def state_of_def)
  then have "failing_stages (report_states tc') \<noteq> []" by (simp add: failing_stages_Nil)
  then show ?thesis using no none failed by (simp add: r go_state_helper_def)
qed

text \<open>
  The C build is recorded as done whatever came of it: when neither compiler builds the core,
  \<open>build_c_components\<close> returns as after a success.
\<close>
theorem c_build_failure_hidden:
  assumes "build_c_core h b = (Inr False, b')"
  shows "caught False (bind_b (build_c_components h) (\<lambda>_. ret_b True)) b = (Inr True, b')"
  using assms by (simp add: caught_def catch_b_def bind_b_def build_c_components_def ret_b_def)

section \<open>Runs\<close>

definition tested_run :: "(string list \<Rightarrow> proc) \<Rightarrow> build_report option" where
  "tested_run answer =
     (case build_main (sample_host answer) [''build.py'', ''--test''] fresh_build of (Inr r, _) \<Rightarrow> Some r | _ \<Rightarrow> None)"

lemma tested_run_main: "tested_run answer = Some r \<Longrightarrow>
    \<exists>b'. build_main (sample_host answer) [''build.py'', ''--test''] fresh_build = (Inr r, b')"
  by (auto simp: tested_run_def split: prod.splits sum.splits)

text \<open>The Go tests fail, or vet is refused and the tests fail, or the C core does not compile.\<close>

definition go_fails :: "string list \<Rightarrow> proc" where
  "go_fails argv =
     (if argv = [''go'', ''test'', ''-count=1'', ''./...''] then Exited 1 ''--- FAIL: TestScan'' [] else Exited 0 [] [])"

definition go_fails_vet_refused :: "string list \<Rightarrow> proc" where
  "go_fails_vet_refused argv =
     (if argv = [''go'', ''vet'', ''./...''] then Exited 1 [] ''An Application Control policy has blocked this file'' else go_fails argv)"

definition c_broken :: "string list \<Rightarrow> proc" where
  "c_broken argv =
     (if hd argv \<in> {''gcc'', ''clang''} \<and> argv \<noteq> [''gcc'', ''--version''] then Exited 1 [] ''error: expected declaration'' else Exited 0 [] [])"


text \<open>
  A refusal hides a failure. On a host where \<open>go test\<close> fails and the policy refuses \<open>go vet\<close>, the Go suite is
  reported as blocked and the process succeeds.
\<close>
theorem refusal_hides_go_failure:
  "case tested_run go_fails_vet_refused of
     None \<Rightarrow> False
   | Some r \<Rightarrow> tc_go_tests (br_status r) = R_text ''blocked'' \<and> br_failed r = [] \<and> br_exit r = 0"
  by code_simp

text \<open>
  A C core that does not compile passes. The compiler runs, both compilations of the core fail, the C stages
  are reported as skipped for want of a toolchain, and the process succeeds.
\<close>
theorem broken_c_core_passes:
  "case tested_run c_broken of
     None \<Rightarrow> False
   | Some r \<Rightarrow> tc_c (br_status r) \<and> tc_c_build (br_status r) = Some True \<and>
       c_core_state (br_status r) = ''SKIPPED (no usable C toolchain)'' \<and> br_failed r = [] \<and> br_exit r = 0"
  by code_simp

text \<open>
  A tool the policy refuses to start ends the pipeline with the exception: only a missing tool and a failing
  one are handled.
\<close>
theorem refused_tool_escapes:
  assumes "bh_run h 0 [] None [''go'', ''version''] = Denied w t" "fuzz_seconds_of argv = Inr n"
  shows "\<exists>b'. build_main h argv fresh_build = (Inl (Os_refused w t), b')"
  using assms
  by (simp add: build_main_def build_stages_def toolchain_stage_def caught_def spawn_checked_def spawn_def exec_def
      bind_b_def catch_b_def raise_b_def missing_or_failed_def fresh_build_def)

end
