(* ===== verification/Spec2Isabelle.thy ===== *)
theory Spec2Isabelle
  imports Scope State Planner GraphParts Betweenness Orchestrator WalFacts AssetsFacts Findings Bridges Cores ModuleRegistry
    Dns OsGuess Reports AsyncRecon PatternMatcher CliFacts Daemon Sweep BuildFacts
begin

text \<open>
  A verification library for HELIOS-NET, the attack-surface management orchestrator of this repository. It
  models the Python implementation; the Rust, C and Go cores, the network, the clock and the random generator
  are arguments of the definitions that use them.

  The program. \<open>cli/main.py\<close> parses a command, loads the scope file (\<open>core/scope.py\<close>) and starts one of:
  a campaign (\<open>core/orchestrator.py\<close>), a port scan, a banner reconnaissance (\<open>core/async_engine.py\<close>), an
  asset walk (\<open>modules/discovery/assets.py\<close>) or the mission daemon (\<open>core/daemon.py\<close>). A campaign plans its
  steps (\<open>core/planner.py\<close>), checks every step against the scope, runs them in waves on threads through the
  runners of \<open>modules/registry.py\<close>, and stores its state (\<open>core/state.py\<close>); its findings feed the asset
  graph (\<open>engine/graph/core.py\<close>), the kill chain (\<open>engine/killchain/pathfinder.py\<close>), the verdict rules
  (\<open>engine/verdict.py\<close>) and the reports. Text matching, graph analytics and port scans are served by a native
  core or by Python, as \<open>core/accel.py\<close> chooses, through the bridges to the C, Rust and Go cores. \<open>build.py\<close>
  builds and tests the native cores.

  \<^bold>\<open>Foundations.\<close> \<open>Prelude\<close> has results that may be an exception (a sum, \<open>Inl\<close> the exception), insertion-ordered
  dictionaries and the interface \<open>keyed_store\<close>. \<open>PyStr\<close>, \<open>PyVal\<close>, \<open>PyJson\<close>, \<open>PyIp\<close>, \<open>PyFloat\<close> and \<open>Utf8\<close> are
  the parts of Python the code uses: string methods on Latin-1, dynamically typed values, the \<open>json\<close> and
  \<open>ipaddress\<close> modules with their round trips, double arithmetic as rounded rationals, and UTF-8. \<open>Sha256\<close>
  has the digests \<open>core/wal.py\<close> takes from \<open>hashlib\<close>.

  \<^bold>\<open>Control plane.\<close>
  \<^item> \<open>Scope\<close>: \<open>core/scope.py\<close>, from the YAML subset to the decision. Decisions match networks and domains on
    label boundaries, an empty scope denies, a scope file is read back from its canonical text.
  \<^item> \<open>State\<close>: \<open>core/state.py\<close>: the life cycle, the file store as a list of file operations,
    with crashes between them; \<open>storage_backend\<close> is the interface of a store.
  \<^item> \<open>Planner\<close>: \<open>core/planner.py\<close>: plans are well formed, schedules respect dependencies and end.
  \<^item> \<open>Wave\<close>, \<open>Orchestrator\<close>: \<open>core/orchestrator.py\<close>: a wave isolates failures, an unauthorised target or plan
    runs nothing, a campaign completes and is recovered from the store.
  \<^item> \<open>Wal\<close>, \<open>WalFacts\<close>: \<open>core/wal.py\<close>. The log refines an abstract transaction log, and a crash at any byte
    leaves a prefix; \<open>record_codec\<close> is the interface of a record format, with both formats as instances.
  \<^item> \<open>Daemon\<close>: \<open>core/daemon.py\<close> over the log: complete and free of half missions.
  \<^item> \<open>Cli\<close>, \<open>CliFacts\<close>: \<open>cli/main.py\<close> and \<open>engine/plugins\<close>: every command but \<open>sim\<close>, with its exit status, output and
    what it starts.

  \<^bold>\<open>Native cores.\<close>
  \<^item> \<open>TextCore\<close>, \<open>Accel\<close>: the Python floor of \<open>core/c_core_bridge.py\<close> and the selection of \<open>core/accel.py\<close>.
  \<^item> \<open>CBridge\<close>, \<open>RustBridge\<close>, \<open>GoBridge\<close>: the bridges, with their caches and error envelopes; \<open>Bridges\<close> composes them
    with the selection, \<open>Cores\<close> is the health report of \<open>core/cores.py\<close>.
  \<^item> \<open>Build\<close>, \<open>BuildFacts\<close>: \<open>build.py\<close>: what a pass is evidence of, what fails the process, what is counted.

  \<^bold>\<open>Discovery.\<close>
  \<^item> \<open>Ct\<close>, \<open>Probe\<close>, \<open>Assets\<close>, \<open>AssetsFacts\<close>: Certificate Transparency names, the HTTP probe and the asset walk of
    \<open>modules/discovery\<close>, with the trace of what it touches: it never leaves the scope.
  \<^item> \<open>Dns\<close>: the resolver of \<open>modules/discovery/dns_resolver.py\<close>; \<open>ModuleRegistry\<close>: \<open>modules/core.py\<close>, the default
    registry and the DNS plugin.
  \<^item> \<open>Runners\<close>, \<open>RunnersFacts\<close>, \<open>Pacer\<close>: the runners of \<open>modules/registry.py\<close> and what they use.
  \<^item> \<open>AsyncRecon\<close>: the pool of \<open>core/async_engine.py\<close> as a step relation over its queue and five workers, with an
    invariant by rule induction and a measure.
  \<^item> \<open>Scanner\<close>, \<open>Balancing\<close>: the balancers on doubles and the fail-isolated scan. \<open>Sweep\<close>: the network sweep, the
    tunnelled scan, threaded discovery, the state of a port, routing tables, the transport shims and the bandit.

  \<^bold>\<open>Analysis.\<close>
  \<^item> \<open>Search\<close>, \<open>Graph\<close>, \<open>GraphFacts\<close>, \<open>GraphParts\<close>, \<open>Betweenness\<close>: the asset graph; \<open>finite_graph\<close> is the interface the
    traversals rest on, and every analysis has its result whichever backend serves it.
  \<^item> \<open>Pathfinder\<close>: the least-resistance path is a least path, and agrees with breadth-first search on reachability.
  \<^item> \<open>Findings\<close>: the verdict rules, the collector, drift and envelopes; \<open>OsGuess\<close>: operating-system estimates;
    \<open>PatternMatcher\<close>: the automaton; \<open>Reports\<close>: the HTML page, whose markup no finding can change.

  \<^bold>\<open>How the code is carried over.\<close> A class is a record and its methods functions that return the changed record; an
  exception is a value of the sum, and each raise and early return is a branch. Threads are an order of arrival
  given as an argument, or a step relation. \<open>OutOfModel\<close> marks inputs left out: text beyond Latin-1 where the
  component works on \<open>string\<close>, infinities and NaN, values of a type the code does not produce.

  \<^bold>\<open>Bounds.\<close> Loops that may run for ever are \<open>partial_function (option)\<close> (the schedule of the planner, the
  searches, Dijkstra's loop, the forward pass of Brandes, the failure links of the automaton) and are proved to
  end on the graphs, plans and automata the code builds. \<open>degree_centrality\<close> and \<open>connected_components\<close> take the
  depth at which Python runs out of stack, since graph and \<open>core.accel\<close> call each other, and are proved not to
  depend on it. \<open>daemon_loop\<close> takes a number of cycles, and the property holds for every number. The fuzzer of
  \<open>build.py\<close> retries three times, as the code does. Everything else is structural or has a measure.

  \<^bold>\<open>Not modelled.\<close> \<open>run.py\<close> sets a path and calls \<open>main\<close>; \<open>run_simulation.py\<close> is a scripted demonstration that
  prints; \<open>tools/\<close> holds a benchmark, a generator of reference vectors and a test helper. They only call what is
  modelled. \<open>argparse\<close>, log lines and progress output are left out, and so are the native cores in Rust, C and Go,
  the tests, and file-system permissions. JSON text with \<open>NaN\<close>, and floats beyond the doubles, are not represented.
\<close>

end
